(* ===== verification/Prelude.thy ===== *)
theory Prelude
  imports Main "HOL-Library.Word" "HOL-Library.Monad_Syntax"
begin

text \<open>
  What every component of the development shares: the machine types, reads from a byte buffer
  (a read outside the buffer is \<open>None\<close>), the most-significant-bit-first view of a byte string in
  which all EID prefixes are compared, masks of leading ones, and the growable C arrays that the
  hypervisor keeps its tables in.
\<close>

unbundle bit_operations_syntax

section \<open>Types\<close>

type_synonym byte = "8 word"
type_synonym u16 = "16 word"
type_synonym u32 = "32 word"
type_synonym u64 = "64 word"

text \<open>How a call can fail to return: \<open>fatal()\<close> ends the process, \<open>Undef\<close> is an access the C
  standard leaves undefined (an array cell outside the live part, a freed object).\<close>

datatype fault = Fatal | Undef

named_theorems read_simps \<open>reads from a byte buffer\<close>
named_theorems bits_simps \<open>bit strings of bytes\<close>
named_theorems dyn_simps \<open>growable arrays\<close>

section \<open>Reading a buffer\<close>

definition rd8 :: "byte list \<Rightarrow> nat \<Rightarrow> byte option" where
  "rd8 b i = (if i < length b then Some (b ! i) else None)"

text \<open>A 16-bit load followed by \<open>ntohs\<close>: big-endian, whatever the host.\<close>

definition rd16be :: "byte list \<Rightarrow> nat \<Rightarrow> u16 option" where
  "rd16be b i = do { h \<leftarrow> rd8 b i; l \<leftarrow> rd8 b (Suc i); Some (word_cat h l) }"

text \<open>Loads of a struct field on the little-endian machines the code is built for.\<close>

definition rd16le :: "byte list \<Rightarrow> nat \<Rightarrow> u16 option" where
  "rd16le b i = do { l \<leftarrow> rd8 b i; h \<leftarrow> rd8 b (Suc i); Some (word_cat h l) }"

definition rd32le :: "byte list \<Rightarrow> nat \<Rightarrow> u32 option" where
  "rd32le b i = do { l \<leftarrow> rd16le b i; h \<leftarrow> rd16le b (i + 2); Some (word_cat h l) }"

definition rdn :: "byte list \<Rightarrow> nat \<Rightarrow> nat \<Rightarrow> byte list option" where
  "rdn b i n = (if i + n \<le> length b then Some (take n (drop i b)) else None)"

lemma rd8_in [read_simps]: "i < length b \<Longrightarrow> rd8 b i = Some (b ! i)"
  by (simp add: rd8_def)

lemma rd8_None [read_simps]: "length b \<le> i \<Longrightarrow> rd8 b i = None"
  by (simp add: rd8_def)

lemma rd8_drop: "k \<le> length b \<Longrightarrow> rd8 (drop k b) i = rd8 b (k + i)"
  by (auto simp: rd8_def)

lemma rd16be_in [read_simps]:
  "Suc i < length b \<Longrightarrow> rd16be b i = Some (word_cat (b ! i) (b ! Suc i))"
  by (simp add: rd16be_def rd8_def)

lemma rd16le_in [read_simps]:
  "Suc i < length b \<Longrightarrow> rd16le b i = Some (word_cat (b ! Suc i) (b ! i))"
  by (simp add: rd16le_def rd8_def)

lemma rd32le_in [read_simps]: "i + 3 < length b \<Longrightarrow> \<exists>w. rd32le b i = Some w"
  by (simp add: rd32le_def rd16le_in)

lemma rdn_in [read_simps]: "i + n \<le> length b \<Longrightarrow> rdn b i n = Some (take n (drop i b))"
  by (simp add: rdn_def)

lemma rd8_Some_iff: "(\<exists>x. rd8 b i = Some x) \<longleftrightarrow> i < length b"
  by (simp add: rd8_def)

lemma rd16be_None: "length b \<le> Suc i \<Longrightarrow> rd16be b i = None"
  by (auto simp: rd16be_def rd8_def Option.bind_eq_None_conv)

lemma rdn_length: "rdn b i n = Some xs \<Longrightarrow> length xs = n"
  by (auto simp: rdn_def split: if_splits)

text \<open>A buffer that continues another agrees with it on every read the shorter one allows.\<close>

lemma rd8_append: "rd8 b i = Some x \<Longrightarrow> rd8 (b @ c) i = Some x"
  by (auto simp: rd8_def nth_append split: if_splits)

lemma rd16be_append: "rd16be b i = Some x \<Longrightarrow> rd16be (b @ c) i = Some x"
  by (auto simp: rd16be_def Option.bind_eq_Some_conv dest: rd8_append)

lemma rd16le_append: "rd16le b i = Some x \<Longrightarrow> rd16le (b @ c) i = Some x"
  by (auto simp: rd16le_def Option.bind_eq_Some_conv dest: rd8_append)

lemma rd32le_append: "rd32le b i = Some x \<Longrightarrow> rd32le (b @ c) i = Some x"
  by (auto simp: rd32le_def Option.bind_eq_Some_conv dest: rd16le_append)

lemma rdn_append: "rdn b i n = Some x \<Longrightarrow> rdn (b @ c) i n = Some x"
  by (auto simp: rdn_def split: if_splits)

lemma list_all_replicate [simp]: "list_all P (replicate n x) \<longleftrightarrow> n = 0 \<or> P x"
  by (auto simp: list_all_iff)

section \<open>Bytes as bit strings, most significant bit first\<close>

definition byte_bits :: "byte \<Rightarrow> bool list" where
  "byte_bits b = map (bit b) [7, 6, 5, 4, 3, 2, 1, 0]"

definition bits_of :: "byte list \<Rightarrow> bool list" where
  "bits_of bs = concat (map byte_bits bs)"

lemma length_byte_bits [simp, bits_simps]: "length (byte_bits b) = 8"
  by (simp add: byte_bits_def)

lemma bits_of_Nil [simp, bits_simps]: "bits_of [] = []"
  by (simp add: bits_of_def)

lemma bits_of_Cons [simp, bits_simps]: "bits_of (b # bs) = byte_bits b @ bits_of bs"
  by (simp add: bits_of_def)

lemma length_bits_of [simp, bits_simps]: "length (bits_of bs) = 8 * length bs"
  by (induction bs) auto

lemma bits_of_append [bits_simps]: "bits_of (xs @ ys) = bits_of xs @ bits_of ys"
  by (simp add: bits_of_def)

lemma take_bits_of: "take (8 * k) (bits_of a) = bits_of (take k a)"
proof (induction a arbitrary: k)
  case (Cons b a)
  then show ?case by (cases k) auto
qed simp

lemma drop_bits_of: "drop (8 * k) (bits_of a) = bits_of (drop k a)"
proof (induction a arbitrary: k)
  case (Cons b a)
  then show ?case by (cases k) auto
qed simp

lemma all_less_8:
  "(\<forall>k<8. P (k::nat)) \<longleftrightarrow> P 7 \<and> P 6 \<and> P 5 \<and> P 4 \<and> P 3 \<and> P 2 \<and> P 1 \<and> P 0"
proof -
  have "{..<8::nat} = {7, 6, 5, 4, 3, 2, 1, 0}" by auto
  then have "(\<forall>k\<in>{..<8}. P k) \<longleftrightarrow> (\<forall>k\<in>{7, 6, 5, 4, 3, 2, 1, 0}. P k)" by simp
  then show ?thesis by auto
qed

lemma nth_byte_bits [bits_simps]: "i < 8 \<Longrightarrow> byte_bits b ! i = bit b (7 - i)"
proof -
  have "\<forall>i<8. byte_bits b ! i = bit b (7 - i)"
    by (simp add: all_less_8 byte_bits_def)
  then show "i < 8 \<Longrightarrow> byte_bits b ! i = bit b (7 - i)" by blast
qed

lemma byte_eq_iff: "(x :: byte) = y \<longleftrightarrow> (\<forall>k<8. bit x k = bit y k)"
  by (auto simp: bit_eq_iff dest: bit_imp_le_length)

lemma byte_bits_inject [simp]: "byte_bits x = byte_bits y \<longleftrightarrow> x = y"
  by (auto simp: byte_eq_iff all_less_8 byte_bits_def)

lemma bits_of_inject: "length xs = length ys \<Longrightarrow> bits_of xs = bits_of ys \<longleftrightarrow> xs = ys"
  by (induction xs ys rule: list_induct2) auto

lemma nth_bits_of:
  "i < 8 * length bs \<Longrightarrow> bits_of bs ! i = bit (bs ! (i div 8)) (7 - i mod 8)"
proof (induction bs arbitrary: i)
  case Nil
  then show ?case by simp
next
  case (Cons b bs)
  show ?case
  proof (cases "i < 8")
    case True
    then show ?thesis by (simp add: nth_append nth_byte_bits)
  next
    case False
    then have "i div 8 = Suc ((i - 8) div 8)" "i mod 8 = (i - 8) mod 8"
      by (simp_all add: div_if mod_if)
    with False Cons.prems Cons.IH [of "i - 8"] show ?thesis
      by (simp add: nth_append)
  qed
qed

subsection \<open>Masks of leading ones\<close>

lemma and_bit_nonzero:
  assumes "j < 8"
  shows "(b :: byte) AND push_bit j 1 \<noteq> 0 \<longleftrightarrow> bit b j"
proof -
  have "bit (b AND push_bit j 1) k \<longleftrightarrow> k = j \<and> bit b j" for k
    using assms by (auto simp: bit_and_iff bit_exp_iff)
  from this [of j] this show ?thesis
    by (metis bit_0_eq bit_eqI bot_apply bot_bool_def)
qed

definition lead_mask :: "nat \<Rightarrow> byte \<Rightarrow> bool" where
  "lead_mask l m \<longleftrightarrow> (\<forall>k<8. bit m k = (8 - l \<le> k))"

lemma masked_eq_iff:
  assumes "lead_mask l m" and "l \<le> 8"
  shows "x AND m = y AND m \<longleftrightarrow> take l (byte_bits x) = take l (byte_bits y)"
proof -
  have "x AND m = y AND m \<longleftrightarrow> (\<forall>k<8. 8 - l \<le> k \<longrightarrow> bit x k = bit y k)"
    using assms(1) by (auto simp: byte_eq_iff bit_and_iff lead_mask_def)
  also have "\<dots> \<longleftrightarrow> (\<forall>i<l. bit x (7 - i) = bit y (7 - i))"
  proof safe
    fix i assume *: "\<forall>k<8. 8 - l \<le> k \<longrightarrow> bit x k = bit y k" "i < l" "bit x (7 - i)"
    have "7 - i < 8" "8 - l \<le> 7 - i" using *(2) assms(2) by linarith+
    with * show "bit y (7 - i)" by blast
  next
    fix i assume *: "\<forall>k<8. 8 - l \<le> k \<longrightarrow> bit x k = bit y k" "i < l" "bit y (7 - i)"
    have "7 - i < 8" "8 - l \<le> 7 - i" using *(2) assms(2) by linarith+
    with * show "bit x (7 - i)" by blast
  next
    fix k :: nat assume *: "\<forall>i<l. bit x (7 - i) = bit y (7 - i)" "k < 8" "8 - l \<le> k" "bit x k"
    have "7 - k < l" "7 - (7 - k) = k" using * by linarith+
    with * show "bit y k" by metis
  next
    fix k :: nat assume *: "\<forall>i<l. bit x (7 - i) = bit y (7 - i)" "k < 8" "8 - l \<le> k" "bit y k"
    have "7 - k < l" "7 - (7 - k) = k" using * by linarith+
    with * show "bit x k" by metis
  qed
  also have "\<dots> \<longleftrightarrow> take l (byte_bits x) = take l (byte_bits y)"
    using assms(2) by (auto simp: list_eq_iff_nth_eq nth_byte_bits)
  finally show ?thesis .
qed

text \<open>Comparing whole bytes and then a masked byte compares the leading bits.\<close>

lemma take_bits_of_whole:
  "length xs = length ys \<Longrightarrow> w \<le> length xs \<Longrightarrow>
   take (8 * w) (bits_of xs) = take (8 * w) (bits_of ys) \<longleftrightarrow> take w xs = take w ys"
proof (induction xs ys arbitrary: w rule: list_induct2)
  case Nil
  then show ?case by simp
next
  case (Cons x xs y ys)
  then show ?case by (cases w) auto
qed

lemma take_bits_of_split:
  "length xs = length ys \<Longrightarrow> w < length xs \<Longrightarrow> l \<le> 8 \<Longrightarrow>
   take (8 * w + l) (bits_of xs) = take (8 * w + l) (bits_of ys) \<longleftrightarrow>
     take w xs = take w ys \<and> take l (byte_bits (xs ! w)) = take l (byte_bits (ys ! w))"
proof (induction xs ys arbitrary: w rule: list_induct2)
  case Nil
  then show ?case by simp
next
  case (Cons x xs y ys)
  then show ?case by (cases w) auto
qed

end
