(* ===== verification/Growable.thy ===== *)
theory Growable
  imports Prelude
begin

text \<open>
  The growable C arrays of the hypervisor (\<open>control_planes\<close>, \<open>assignments\<close>, \<open>mmm_poll\<close>): an
  allocation of \<open>cap\<close> cells, the first \<open>ctr\<close> of which are live. A cell that was never written is
  \<open>None\<close>. The stores and the \<open>memmove\<close> of the sources are the primitive operations; the contract
  of a table kept this way is the locale \<open>vector\<close>.
\<close>

record 'a dyn =
  slots :: "'a option list"
  ctr :: nat
  cap :: nat

definition dyn_alloc :: "nat \<Rightarrow> 'a dyn" where
  "dyn_alloc n = \<lparr>slots = replicate n None, ctr = 0, cap = n\<rparr>"

text \<open>\<open>realloc\<close> to \<open>n\<close> cells: the old cells are kept, the new ones are indeterminate.\<close>

definition dyn_realloc :: "nat \<Rightarrow> 'a dyn \<Rightarrow> 'a dyn" where
  "dyn_realloc n d =
     d\<lparr>slots := take n (slots d) @ replicate (n - length (slots d)) None, cap := n\<rparr>"

definition dyn_store :: "nat \<Rightarrow> 'a \<Rightarrow> 'a dyn \<Rightarrow> 'a dyn" where
  "dyn_store i x d = d\<lparr>slots := (slots d)[i := Some x]\<rparr>"

text \<open>\<open>memmove(&a[i], &a[i + 1], (ctr - 1 - i) * sizeof *a)\<close>: the cell at \<open>ctr - 1\<close> keeps its
  old contents.\<close>

definition dyn_close_gap :: "nat \<Rightarrow> 'a dyn \<Rightarrow> 'a dyn" where
  "dyn_close_gap i d =
     d\<lparr>slots := take i (slots d) @ take (ctr d - 1 - i) (drop (Suc i) (slots d)) @
               drop (ctr d - 1) (slots d)\<rparr>"

definition dyn_live :: "'a dyn \<Rightarrow> 'a option list" where
  "dyn_live d = take (ctr d) (slots d)"

text \<open>Reading any cell of the allocation, live or stale.\<close>

definition dyn_cell :: "'a dyn \<Rightarrow> nat \<Rightarrow> 'a option" where
  "dyn_cell d i = (if i < length (slots d) then slots d ! i else None)"

text \<open>The contents, when every live cell has been written, and the invariant.\<close>

definition dyn_list :: "'a dyn \<Rightarrow> 'a list" where
  "dyn_list d = map the (dyn_live d)"

definition dyn_ok :: "'a dyn \<Rightarrow> bool" where
  "dyn_ok d \<longleftrightarrow> length (slots d) = cap d \<and> ctr d \<le> cap d \<and> 0 < cap d \<and> None \<notin> set (dyn_live d)"

lemma dyn_ok_alloc [dyn_simps]: "0 < n \<Longrightarrow> dyn_ok (dyn_alloc n)"
  by (simp add: dyn_ok_def dyn_alloc_def dyn_live_def)

lemma dyn_list_alloc [dyn_simps]: "dyn_list (dyn_alloc n) = []"
  by (simp add: dyn_list_def dyn_live_def dyn_alloc_def)

lemma dyn_ctr_alloc [dyn_simps]: "ctr (dyn_alloc n) = 0"
  by (simp add: dyn_alloc_def)

lemma dyn_cap_alloc [dyn_simps]: "cap (dyn_alloc n) = n"
  by (simp add: dyn_alloc_def)

lemma length_dyn_list: "dyn_ok d \<Longrightarrow> length (dyn_list d) = ctr d"
  by (simp add: dyn_ok_def dyn_list_def dyn_live_def)

lemma dyn_live_eq: "dyn_ok d \<Longrightarrow> dyn_live d = map Some (dyn_list d)"
proof -
  assume "dyn_ok d"
  then have "x = Some (the x)" if "x \<in> set (dyn_live d)" for x
    using that by (cases x) (auto simp: dyn_ok_def)
  then show ?thesis
    by (simp add: dyn_list_def map_idI)
qed

lemma those_map_Some [simp]: "those (map Some xs) = Some xs"
  by (induction xs) auto

lemma those_dyn_live: "dyn_ok d \<Longrightarrow> those (dyn_live d) = Some (dyn_list d)"
  by (simp add: dyn_live_eq)

lemma dyn_cell_live: "dyn_ok d \<Longrightarrow> i < ctr d \<Longrightarrow> dyn_cell d i = Some (dyn_list d ! i)"
proof -
  assume *: "dyn_ok d" "i < ctr d"
  then have "dyn_live d ! i = Some (dyn_list d ! i)"
    by (simp add: dyn_live_eq length_dyn_list)
  with * show ?thesis
    by (simp add: dyn_cell_def dyn_live_def dyn_ok_def)
qed

lemma dyn_live_realloc: "ctr d \<le> n \<Longrightarrow> dyn_ok d \<Longrightarrow> dyn_live (dyn_realloc n d) = dyn_live d"
  by (simp add: dyn_live_def dyn_realloc_def dyn_ok_def min_def)

lemma dyn_realloc_ok [dyn_simps]: "dyn_ok d \<Longrightarrow> cap d \<le> n \<Longrightarrow> dyn_ok (dyn_realloc n d)"
  using dyn_live_realloc [of d n] by (auto simp: dyn_ok_def dyn_realloc_def)

lemma dyn_realloc_list [dyn_simps]:
  "dyn_ok d \<Longrightarrow> cap d \<le> n \<Longrightarrow> dyn_list (dyn_realloc n d) = dyn_list d"
  using dyn_live_realloc [of d n] by (auto simp: dyn_ok_def dyn_list_def)

lemma dyn_realloc_ctr [dyn_simps]: "ctr (dyn_realloc n d) = ctr d"
  by (simp add: dyn_realloc_def)

lemma dyn_realloc_cap [dyn_simps]: "cap (dyn_realloc n d) = n"
  by (simp add: dyn_realloc_def)

lemma dyn_store_sel [dyn_simps]: "ctr (dyn_store i x d) = ctr d" "cap (dyn_store i x d) = cap d"
  by (simp_all add: dyn_store_def)

lemma dyn_live_store: "dyn_live (dyn_store i x d) = (dyn_live d)[i := Some x]"
  by (simp add: dyn_live_def dyn_store_def take_update_swap)

lemma dyn_store_ok [dyn_simps]: "dyn_ok d \<Longrightarrow> dyn_ok (dyn_store i x d)"
  by (auto simp: dyn_ok_def dyn_live_store dyn_store_sel dest!: set_update_subset_insert [THEN subsetD])
     (simp add: dyn_store_def)

lemma dyn_store_list [dyn_simps]: "dyn_list (dyn_store i x d) = (dyn_list d)[i := x]"
  by (simp add: dyn_list_def dyn_live_store map_update)

text \<open>Writing the first free cell and counting it.\<close>

definition dyn_push :: "'a \<Rightarrow> 'a dyn \<Rightarrow> 'a dyn" where
  "dyn_push x d = (dyn_store (ctr d) x d)\<lparr>ctr := Suc (ctr d)\<rparr>"

lemma dyn_live_push:
  "dyn_ok d \<Longrightarrow> ctr d < cap d \<Longrightarrow> dyn_live (dyn_push x d) = dyn_live d @ [Some x]"
  by (simp add: dyn_live_def dyn_push_def dyn_store_def dyn_ok_def take_Suc_conv_app_nth)

lemma dyn_push_ok [dyn_simps]: "dyn_ok d \<Longrightarrow> ctr d < cap d \<Longrightarrow> dyn_ok (dyn_push x d)"
  by (simp add: dyn_ok_def dyn_live_push) (simp add: dyn_push_def dyn_store_def)

lemma dyn_push_list [dyn_simps]:
  "dyn_ok d \<Longrightarrow> ctr d < cap d \<Longrightarrow> dyn_list (dyn_push x d) = dyn_list d @ [x]"
  by (simp add: dyn_list_def dyn_live_push)

lemma dyn_push_ctr [dyn_simps]: "ctr (dyn_push x d) = Suc (ctr d)"
  by (simp add: dyn_push_def)

lemma dyn_push_cap [dyn_simps]: "cap (dyn_push x d) = cap d"
  by (simp add: dyn_push_def dyn_store_def)

text \<open>The array that holds the entries of a list, in an allocation of \<open>n\<close> cells.\<close>

definition dyn_of :: "nat \<Rightarrow> 'a list \<Rightarrow> 'a dyn" where
  "dyn_of n xs = fold dyn_push xs (dyn_alloc n)"

lemma fold_dyn_push:
  "dyn_ok d \<Longrightarrow> ctr d + length xs \<le> cap d \<Longrightarrow>
   dyn_ok (fold dyn_push xs d) \<and> dyn_list (fold dyn_push xs d) = dyn_list d @ xs \<and>
   ctr (fold dyn_push xs d) = ctr d + length xs \<and> cap (fold dyn_push xs d) = cap d"
  by (induction xs arbitrary: d) (simp_all add: dyn_simps)

lemma dyn_of_simps [dyn_simps]:
  assumes "length xs \<le> n" and "0 < n"
  shows "dyn_ok (dyn_of n xs)" "dyn_list (dyn_of n xs) = xs" "ctr (dyn_of n xs) = length xs"
    "cap (dyn_of n xs) = n"
  using assms fold_dyn_push [of "dyn_alloc n" xs]
  by (simp_all add: dyn_of_def dyn_ok_alloc dyn_ctr_alloc dyn_list_alloc dyn_cap_alloc)

text \<open>Closing a gap and uncounting one cell removes one element and keeps the order.\<close>

definition dyn_delete :: "nat \<Rightarrow> 'a dyn \<Rightarrow> 'a dyn" where
  "dyn_delete i d = (dyn_close_gap i d)\<lparr>ctr := ctr d - 1\<rparr>"

definition remove_nth :: "nat \<Rightarrow> 'a list \<Rightarrow> 'a list" where
  "remove_nth i xs = take i xs @ drop (Suc i) xs"

lemma dyn_live_delete:
  assumes "dyn_ok d" and "i < ctr d"
  shows "dyn_live (dyn_delete i d) = remove_nth i (dyn_live d)"
proof -
  from assms have "ctr d \<le> length (slots d)" by (simp add: dyn_ok_def)
  define A where "A = take i (slots d) @ take (ctr d - 1 - i) (drop (Suc i) (slots d))"
  have "length A = ctr d - 1"
    using \<open>ctr d \<le> length (slots d)\<close> assms(2) by (simp add: A_def)
  then have "take (ctr d - 1) (A @ drop (ctr d - 1) (slots d)) = A" by simp
  then have "take (ctr d - 1) (slots (dyn_close_gap i d)) =
      take i (slots d) @ take (ctr d - 1 - i) (drop (Suc i) (slots d))"
    by (simp add: dyn_close_gap_def A_def)
  moreover from assms(2) have "drop (Suc i) (take (ctr d) (slots d)) =
      take (ctr d - 1 - i) (drop (Suc i) (slots d))"
    by (simp add: drop_take)
  ultimately show ?thesis
    using assms(2) by (simp add: dyn_live_def dyn_delete_def remove_nth_def min_def)
qed

lemma set_remove_nth: "set (remove_nth i xs) \<subseteq> set xs"
  by (auto simp: remove_nth_def dest: in_set_takeD in_set_dropD)

lemma length_remove_nth [dyn_simps]: "i < length xs \<Longrightarrow> length (remove_nth i xs) = length xs - 1"
  by (simp add: remove_nth_def)

lemma map_remove_nth: "map f (remove_nth i xs) = remove_nth i (map f xs)"
  by (simp add: remove_nth_def take_map drop_map)

lemma dyn_delete_ok [dyn_simps]: "dyn_ok d \<Longrightarrow> i < ctr d \<Longrightarrow> dyn_ok (dyn_delete i d)"
  using dyn_live_delete [of d i] set_remove_nth [of i "dyn_live d"]
  by (auto simp: dyn_ok_def) (auto simp: dyn_delete_def dyn_close_gap_def)

lemma dyn_delete_list [dyn_simps]:
  "dyn_ok d \<Longrightarrow> i < ctr d \<Longrightarrow> dyn_list (dyn_delete i d) = remove_nth i (dyn_list d)"
  by (simp add: dyn_list_def dyn_live_delete map_remove_nth)

lemma dyn_delete_ctr [dyn_simps]: "ctr (dyn_delete i d) = ctr d - 1"
  by (simp add: dyn_delete_def)

lemma dyn_delete_cap [dyn_simps]: "cap (dyn_delete i d) = cap d"
  by (simp add: dyn_delete_def dyn_close_gap_def)

section \<open>The contract of a table kept in a growable array\<close>

datatype 'a vop = Add 'a | Remove nat

text \<open>What a sequence of operations means for the list of entries.\<close>

fun list_ops :: "'a vop list \<Rightarrow> 'a list \<Rightarrow> 'a list" where
  "list_ops [] xs = xs"
| "list_ops (Add x # ops) xs = list_ops ops (xs @ [x])"
| "list_ops (Remove i # ops) xs =
     list_ops ops (if i < length xs then remove_nth i xs else xs)"

locale vector =
  fixes ok :: "'v \<Rightarrow> bool"
    and entries :: "'v \<Rightarrow> 'a list"
    and add :: "'a \<Rightarrow> 'v \<Rightarrow> fault + nat \<times> 'v"
    and del :: "nat \<Rightarrow> 'v \<Rightarrow> 'v"
  assumes add_ok: "ok v \<Longrightarrow> \<exists>v'. add x v = Inr (length (entries v), v') \<and> ok v' \<and>
                     entries v' = entries v @ [x]"
    and del_ok: "ok v \<Longrightarrow> i < length (entries v) \<Longrightarrow> ok (del i v)"
    and del_entries:
      "ok v \<Longrightarrow> i < length (entries v) \<Longrightarrow> entries (del i v) = remove_nth i (entries v)"
begin

fun run_ops :: "'a vop list \<Rightarrow> 'v \<Rightarrow> fault + 'v" where
  "run_ops [] v = Inr v"
| "run_ops (Add x # ops) v = (case add x v of Inl e \<Rightarrow> Inl e | Inr (_, v') \<Rightarrow> run_ops ops v')"
| "run_ops (Remove i # ops) v = run_ops ops (if i < length (entries v) then del i v else v)"

text \<open>No sequence of operations faults, and the table always holds what the list would.\<close>

lemma run_ops_refines:
  "ok v \<Longrightarrow> \<exists>v'. run_ops ops v = Inr v' \<and> ok v' \<and> entries v' = list_ops ops (entries v)"
proof (induction ops arbitrary: v)
  case Nil
  then show ?case by simp
next
  case (Cons op ops)
  show ?case
  proof (cases op)
    case (Add x)
    from add_ok [OF Cons.prems, of x] obtain v' where
      "add x v = Inr (length (entries v), v')" "ok v'" "entries v' = entries v @ [x]" by blast
    with Cons.IH [of v'] Add show ?thesis by simp
  next
    case (Remove i)
    with Cons.IH [of v] Cons.IH [of "del i v"] Cons.prems show ?thesis
      by (auto simp: del_ok del_entries)
  qed
qed

lemma add_entries: "ok v \<Longrightarrow> add x v = Inr (i, v') \<Longrightarrow> entries v' = entries v @ [x]"
  using add_ok [of v x] by auto

lemma add_index: "ok v \<Longrightarrow> add x v = Inr (i, v') \<Longrightarrow> i = length (entries v)"
  using add_ok [of v x] by auto

lemma add_no_fault: "ok v \<Longrightarrow> add x v \<noteq> Inl e"
  using add_ok [of v x] by auto

end

end
