(* ===== verification/Lpm.thy ===== *)
theory Lpm
  imports Prelude
begin

text \<open>
  Longest-prefix match, as a specification: which entry of a table a lookup must select, and the
  scan that keeps the best entry seen so far (a later entry replaces an earlier one of the same
  length). The locale states what makes the selection unique; the hypervisor's table of
  assignments and the radix table of the control plane both interpret it.
\<close>

definition is_lpm :: "('a \<Rightarrow> bool) \<Rightarrow> ('a \<Rightarrow> nat) \<Rightarrow> 'a list \<Rightarrow> 'a \<Rightarrow> bool" where
  "is_lpm cov plen as a \<longleftrightarrow>
     (\<exists>us vs. as = us @ a # vs \<and> cov a \<and> (\<forall>b\<in>set us. cov b \<longrightarrow> plen b \<le> plen a) \<and>
              (\<forall>b\<in>set vs. cov b \<longrightarrow> plen b < plen a))"

fun scan_best :: "('a \<Rightarrow> bool) \<Rightarrow> ('a \<Rightarrow> nat) \<Rightarrow> 'a list \<Rightarrow> 'a option \<Rightarrow> 'a option" where
  "scan_best cov plen [] acc = acc"
| "scan_best cov plen (a # as) acc =
     scan_best cov plen as
       (if cov a \<and> (\<forall>b. acc = Some b \<longrightarrow> plen b \<le> plen a) then Some a else acc)"

lemma scan_best_append:
  "scan_best cov plen (xs @ ys) acc = scan_best cov plen ys (scan_best cov plen xs acc)"
  by (induction xs arbitrary: acc) auto

lemma scan_best_skip: "\<forall>a\<in>set as. \<not> cov a \<Longrightarrow> scan_best cov plen as acc = acc"
  by (induction as) auto

lemma scan_best_cong:
  "(\<And>a. a \<in> set as \<Longrightarrow> cov a = cov' a) \<Longrightarrow>
   scan_best cov plen as acc = scan_best cov' plen as acc"
  by (induction as arbitrary: acc) auto

lemma scan_best_mono: "\<exists>c. scan_best cov plen as (Some b) = Some c \<and> plen b \<le> plen c"
proof (induction as arbitrary: b)
  case Nil
  then show ?case by simp
next
  case (Cons a as)
  show ?case
  proof (cases "cov a \<and> plen b \<le> plen a")
    case True
    then show ?thesis using Cons.IH [of a] by (auto intro: order_trans)
  next
    case False
    then show ?thesis using Cons.IH [of b] by auto
  qed
qed

lemma is_lpm_snoc_same:
  "is_lpm cov plen as a \<Longrightarrow> \<not> (cov b \<and> plen a \<le> plen b) \<Longrightarrow> is_lpm cov plen (as @ [b]) a"
  by (force simp: is_lpm_def)

lemma is_lpm_snoc_new:
  "cov b \<Longrightarrow> (\<And>a. a \<in> set as \<Longrightarrow> cov a \<Longrightarrow> plen a \<le> plen b) \<Longrightarrow> is_lpm cov plen (as @ [b]) b"
  unfolding is_lpm_def by (rule exI [of _ as], rule exI [of _ "[]"]) auto

lemma is_lpm_max:
  "is_lpm cov plen as a \<Longrightarrow> a \<in> set as \<and> cov a \<and> (\<forall>b\<in>set as. cov b \<longrightarrow> plen b \<le> plen a)"
  by (force simp: is_lpm_def)

lemma is_lpm_unique:
  assumes "is_lpm cov plen as a" and "is_lpm cov plen as b"
  shows "a = b"
proof -
  from assms(1) obtain us vs where a: "as = us @ a # vs" "cov a"
    "\<forall>c\<in>set us. cov c \<longrightarrow> plen c \<le> plen a" "\<forall>c\<in>set vs. cov c \<longrightarrow> plen c < plen a"
    by (auto simp: is_lpm_def)
  from assms(2) obtain us' vs' where b: "as = us' @ b # vs'" "cov b"
    "\<forall>c\<in>set us'. cov c \<longrightarrow> plen c \<le> plen b" "\<forall>c\<in>set vs'. cov c \<longrightarrow> plen c < plen b"
    by (auto simp: is_lpm_def)
  have le: "plen a \<le> plen b" "plen b \<le> plen a"
    using is_lpm_max [OF assms(1)] is_lpm_max [OF assms(2)] by auto
  have "us @ a # vs = us' @ b # vs'" using a(1) b(1) by simp
  then consider "us = us'" | w where "us' = us @ a # w" | w where "us = us' @ b # w"
    by (auto simp: append_eq_append_conv2 append_eq_Cons_conv Cons_eq_append_conv)
  then show ?thesis
  proof cases
    case 1
    with a(1) b(1) show ?thesis by simp
  next
    case 2
    with a(1) b(1) have "b \<in> set vs" by auto
    with a(4) b(2) le show ?thesis by fastforce
  next
    case 3
    with a(1) b(1) have "a \<in> set vs'" by auto
    with b(4) a(2) le show ?thesis by fastforce
  qed
qed

lemma scan_best_None: "scan_best cov plen as None = None \<longleftrightarrow> (\<forall>a\<in>set as. \<not> cov a)"
proof
  assume *: "scan_best cov plen as None = None"
  show "\<forall>a\<in>set as. \<not> cov a"
  proof
    fix a assume "a \<in> set as"
    then obtain us vs where as: "as = us @ a # vs" by (auto simp: in_set_conv_decomp)
    show "\<not> cov a"
    proof
      assume "cov a"
      then have "\<exists>c. scan_best cov plen (us @ [a]) None = Some c"
        by (auto simp: scan_best_append)
      then obtain c where "scan_best cov plen (us @ [a]) None = Some c" by blast
      with * as scan_best_mono [of cov plen vs c] show False
        by (simp add: scan_best_append)
    qed
  qed
qed (simp add: scan_best_skip)

lemma scan_best_sound:
  "scan_best cov plen as None = Some a \<Longrightarrow> is_lpm cov plen as a"
proof (induction as arbitrary: a rule: rev_induct)
  case Nil
  then show ?case by simp
next
  case (snoc b as)
  show ?case
  proof (cases "scan_best cov plen as None")
    case None
    then have "\<forall>c\<in>set as. \<not> cov c" by (simp add: scan_best_None)
    with None snoc.prems show ?thesis
      by (auto simp: scan_best_append split: if_splits intro!: is_lpm_snoc_new)
  next
    case (Some c)
    then have c: "is_lpm cov plen as c" by (rule snoc.IH)
    show ?thesis
    proof (cases "cov b \<and> plen c \<le> plen b")
      case True
      with snoc.prems Some have "a = b" by (simp add: scan_best_append)
      with True is_lpm_max [OF c] show ?thesis
        by (auto intro!: is_lpm_snoc_new intro: order_trans)
    next
      case False
      with snoc.prems Some have "a = c" by (auto simp: scan_best_append split: if_splits)
      with c False show ?thesis by (auto intro: is_lpm_snoc_same)
    qed
  qed
qed

lemma scan_best_complete:
  assumes "is_lpm cov plen as a"
  shows "scan_best cov plen as None = Some a"
proof (cases "scan_best cov plen as None")
  case None
  with is_lpm_max [OF assms] show ?thesis by (auto simp: scan_best_None)
next
  case (Some b)
  with scan_best_sound [OF Some] assms is_lpm_unique show ?thesis by fastforce
qed

locale prefix_cover =
  fixes covers :: "'a \<Rightarrow> 'e \<Rightarrow> bool"
    and plen :: "'a \<Rightarrow> nat"
    and key :: "'a \<Rightarrow> bool list"
  assumes covers_key: "covers a e \<Longrightarrow> length (key a) = plen a"
    and covers_chain:
      "covers a e \<Longrightarrow> covers b e \<Longrightarrow> plen a \<le> plen b \<Longrightarrow> take (plen a) (key b) = key a"
begin

text \<open>Two entries of one length that cover the same address carry the same prefix.\<close>

lemma same_length_same_key:
  "covers a e \<Longrightarrow> covers b e \<Longrightarrow> plen a = plen b \<Longrightarrow> key a = key b"
  using covers_chain [of a e b] covers_key [of b e] by simp

text \<open>So, in a table of distinct prefixes, exactly one entry of maximal length covers it.\<close>

lemma lpm_unique_entry:
  assumes "inj_on key (set as)" and "is_lpm (\<lambda>a. covers a e) plen as a"
    and "b \<in> set as" and "covers b e" and "b \<noteq> a"
  shows "plen b < plen a"
proof -
  from is_lpm_max [OF assms(2)] have a: "a \<in> set as" "covers a e"
    "\<forall>b\<in>set as. covers b e \<longrightarrow> plen b \<le> plen a" by auto
  have "plen b \<noteq> plen a"
  proof
    assume "plen b = plen a"
    then have "key b = key a" by (rule same_length_same_key [OF assms(4) a(2)])
    with assms(1,3,5) a(1) show False by (auto dest: inj_onD)
  qed
  with a(3) assms(3,4) show ?thesis by force
qed

text \<open>The more specific of two covering entries lies inside the other.\<close>

lemma lpm_most_specific:
  assumes "is_lpm (\<lambda>a. covers a e) plen as a" and "b \<in> set as" and "covers b e"
  shows "take (plen b) (key a) = key b"
  using is_lpm_max [OF assms(1)] assms(2,3) by (auto intro: covers_chain)

end

end
