(* ===== verification/Hv_Common.thy ===== *)
theory Hv_Common
  imports Growable Lpm
begin

text \<open>
  The data of the hypervisor (\<open>common/common.h\<close>, \<open>controlplanes/assignments.h\<close>,
  \<open>controlplanes/connected.h\<close>): EID prefixes with the reason they were extracted for, IPv4
  datagrams, control planes, assignments, and the global tables that the four threads share.
\<close>

datatype reason =
    PRFX_ASIS
  | UPRFX_EMPTYAFI
  | UPRFX_NOEID
  | UPRFX_UNKNTYPE
  | UPRFX_UNKNVER
  | UPRFX_MALFORMED
  | UPRFX_UNKNIP
  | BPRFX_MAPREPLY
  | BPRFX_MAPNOTIFY

record ipv6_prefix =
  prefix :: "byte list"
  prefix_length :: byte
  reason :: reason

definition wf_prefix :: "ipv6_prefix \<Rightarrow> bool" where
  "wf_prefix e \<longleftrightarrow> length (prefix e) = 16"

text \<open>A prefix whose length is one of the 129 lengths of an IPv6 prefix.\<close>

definition wf_eid :: "ipv6_prefix \<Rightarrow> bool" where
  "wf_eid e \<longleftrightarrow> length (prefix e) = 16 \<and> prefix_length e \<le> 128"

lemma wf_eid_prefix: "wf_eid e \<Longrightarrow> wf_prefix e"
  by (simp add: wf_eid_def wf_prefix_def)

definition get_undefined_eid :: "reason \<Rightarrow> ipv6_prefix" where
  "get_undefined_eid r = \<lparr>prefix = replicate 16 0, prefix_length = 128, reason = r\<rparr>"

definition get_broadcast_eid :: "reason \<Rightarrow> ipv6_prefix" where
  "get_broadcast_eid r = \<lparr>prefix = replicate 16 0, prefix_length = 0, reason = r\<rparr>"

lemma wf_special [simp]: "wf_eid (get_undefined_eid r)" "wf_eid (get_broadcast_eid r)"
  by (simp_all add: wf_eid_def get_undefined_eid_def get_broadcast_eid_def)

text \<open>An IPv4-mapped IPv6 address, as the parsers store IPv4 EIDs.\<close>

definition ipv4_mapped :: "byte list \<Rightarrow> byte list" where
  "ipv4_mapped a = replicate 10 0 @ [0xFF, 0xFF] @ a"

lemma length_ipv4_mapped [simp]: "length (ipv4_mapped a) = 12 + length a"
  by (simp add: ipv4_mapped_def)

lemma ipv4_mapped_inject [simp]: "ipv4_mapped a = ipv4_mapped b \<longleftrightarrow> a = b"
  by (simp add: ipv4_mapped_def)

record sockaddr_in =
  sin_addr :: "byte list"
  sin_port :: u16

record ipv4_datagram =
  source :: sockaddr_in
  destination :: sockaddr_in
  payload :: "byte list"
  payload_len :: nat

record control_plane =
  id_of :: u32
  socket_descriptor :: int
  port :: u16
  pid :: int

record assignment =
  eid :: ipv6_prefix
  assignee_index :: nat

record hv_tables =
  control_planes :: "control_plane dyn"
  control_planes_def :: nat
  control_planes_autoindex :: u32
  assignments :: "assignment dyn"

definition tables_ok :: "hv_tables \<Rightarrow> bool" where
  "tables_ok st \<longleftrightarrow> dyn_ok (control_planes st) \<and> dyn_ok (assignments st)"

definition planes :: "hv_tables \<Rightarrow> control_plane list" where
  "planes st = dyn_list (control_planes st)"

definition entries :: "hv_tables \<Rightarrow> assignment list" where
  "entries st = dyn_list (assignments st)"

text \<open>Every registered assignment is for a proper EID prefix.\<close>

definition entries_wf :: "hv_tables \<Rightarrow> bool" where
  "entries_wf st \<longleftrightarrow> (\<forall>a\<in>set (entries st). wf_eid (eid a))"

text \<open>Every assignment names a registered control plane.\<close>

definition assignees_ok :: "hv_tables \<Rightarrow> bool" where
  "assignees_ok st \<longleftrightarrow> (\<forall>a\<in>set (entries st). assignee_index a < length (planes st))"

lemma length_planes: "tables_ok st \<Longrightarrow> length (planes st) = ctr (control_planes st)"
  by (simp add: tables_ok_def planes_def length_dyn_list)

lemma length_entries: "tables_ok st \<Longrightarrow> length (entries st) = ctr (assignments st)"
  by (simp add: tables_ok_def entries_def length_dyn_list)

lemma planes_Nil_iff: "tables_ok st \<Longrightarrow> planes st = [] \<longleftrightarrow> ctr (control_planes st) = 0"
  using length_planes [of st] by (metis length_0_conv)

section \<open>Covering: the bits an EID and a stored prefix share\<close>

definition covers :: "ipv6_prefix \<Rightarrow> ipv6_prefix \<Rightarrow> bool" where
  "covers p e \<longleftrightarrow> unat (prefix_length p) \<le> unat (prefix_length e) \<and>
     take (unat (prefix_length p)) (bits_of (prefix e)) =
     take (unat (prefix_length p)) (bits_of (prefix p))"

definition same_eid :: "ipv6_prefix \<Rightarrow> ipv6_prefix \<Rightarrow> bool" where
  "same_eid p e \<longleftrightarrow> prefix_length p = prefix_length e \<and> covers p e"

text \<open>The significant bits of a prefix.\<close>

definition eid_key :: "ipv6_prefix \<Rightarrow> bool list" where
  "eid_key e = take (unat (prefix_length e)) (bits_of (prefix e))"

definition assignment_plen :: "assignment \<Rightarrow> nat" where
  "assignment_plen a = unat (prefix_length (eid a))"

lemma wf_eid_len: "wf_eid e \<Longrightarrow> unat (prefix_length e) \<le> 128"
  by (simp add: wf_eid_def word_le_nat_alt)

lemma length_eid_key: "wf_eid e \<Longrightarrow> length (eid_key e) = unat (prefix_length e)"
  using wf_eid_len [of e] by (simp add: eid_key_def wf_eid_def)

lemma covers_refl [simp]: "covers e e"
  by (simp add: covers_def)

lemma same_eid_refl [simp]: "same_eid e e"
  by (simp add: same_eid_def)

lemma same_eid_iff:
  "wf_eid p \<Longrightarrow> wf_eid e \<Longrightarrow> same_eid p e \<longleftrightarrow> eid_key p = eid_key e"
proof -
  assume wf: "wf_eid p" "wf_eid e"
  show "same_eid p e \<longleftrightarrow> eid_key p = eid_key e"
  proof
    assume "same_eid p e"
    then show "eid_key p = eid_key e" by (auto simp: same_eid_def covers_def eid_key_def)
  next
    assume eq: "eid_key p = eid_key e"
    with wf have "prefix_length p = prefix_length e"
      by (metis length_eid_key word_unat_eq_iff)
    with eq show "same_eid p e" by (simp add: same_eid_def covers_def eid_key_def)
  qed
qed

interpretation assigned: prefix_cover
  "\<lambda>a e. wf_eid (eid a) \<and> covers (eid a) e" assignment_plen "\<lambda>a. eid_key (eid a)"
proof
  show "length (eid_key (eid a)) = assignment_plen a" if "wf_eid (eid a) \<and> covers (eid a) e" for a e
    using that by (simp add: assignment_plen_def length_eid_key)
  fix a b :: assignment and e
  assume "wf_eid (eid a) \<and> covers (eid a) e" and b: "wf_eid (eid b) \<and> covers (eid b) e"
    and le: "assignment_plen a \<le> assignment_plen b"
  then have a: "take (assignment_plen a) (bits_of (prefix e)) = eid_key (eid a)"
    by (simp add: covers_def assignment_plen_def eid_key_def)
  from b have "eid_key (eid b) = take (assignment_plen b) (bits_of (prefix e))"
    by (simp add: covers_def assignment_plen_def eid_key_def)
  with le a show "take (assignment_plen a) (eid_key (eid b)) = eid_key (eid a)"
    by (simp add: min_def)
qed

end
