(* ===== verification/Hv_Connected.thy ===== *)
theory Hv_Connected
  imports Hv_Common
begin

text \<open>
  \<open>controlplanes/connected.c\<close>: the table of registered control planes. \<open>control_planes_max\<close> is the
  \<open>cap\<close> of the array and \<open>control_planes_ctr\<close> its \<open>ctr\<close>.
\<close>

definition CP_ARRAY_INIT :: nat where
  "CP_ARRAY_INIT = 16"

definition CP_ARRAY_INCR :: nat where
  "CP_ARRAY_INCR = 2"

definition init_control_planes :: "hv_tables \<Rightarrow> hv_tables" where
  "init_control_planes st = st\<lparr>control_planes := dyn_alloc CP_ARRAY_INIT\<rparr>"

definition expand_control_planes :: "control_plane dyn \<Rightarrow> control_plane dyn" where
  "expand_control_planes d = dyn_realloc (CP_ARRAY_INCR * cap d) d"

text \<open>The index of the new entry, or \<open>fatal("Illegal state")\<close>.\<close>

definition add_control_plane ::
  "control_plane \<Rightarrow> control_plane dyn \<Rightarrow> fault + nat \<times> control_plane dyn" where
  "add_control_plane cp d =
     (if cap d < ctr d then Inl Fatal
      else let d = (if ctr d = cap d then expand_control_planes d else d)
           in Inr (ctr d, dyn_push cp d))"

text \<open>\<open>remove_control_plane\<close> reads the cell before closing the gap; with an index that is not
  live the size of the \<open>memmove\<close> is negative, and the call is undefined.\<close>

definition remove_control_plane ::
  "nat \<Rightarrow> control_plane dyn \<Rightarrow> fault + u32 \<times> control_plane dyn" where
  "remove_control_plane ind d =
     (if ctr d \<le> ind then Inl Undef
      else case dyn_cell d ind of
        None \<Rightarrow> Inl Undef
      | Some cp \<Rightarrow> Inr (id_of cp, dyn_delete ind d))"

lemma expand_control_planes_simps [dyn_simps]:
  "dyn_ok d \<Longrightarrow> dyn_ok (expand_control_planes d)"
  "dyn_ok d \<Longrightarrow> dyn_list (expand_control_planes d) = dyn_list d"
  "ctr (expand_control_planes d) = ctr d"
  "cap (expand_control_planes d) = 2 * cap d"
  by (simp_all add: expand_control_planes_def CP_ARRAY_INCR_def dyn_simps)

lemma add_control_plane_ok:
  assumes "dyn_ok d"
  shows "\<exists>d'. add_control_plane cp d = Inr (length (dyn_list d), d') \<and> dyn_ok d' \<and>
              dyn_list d' = dyn_list d @ [cp]"
proof -
  define e where "e = (if ctr d = cap d then expand_control_planes d else d)"
  from assms have "dyn_ok e" "ctr e < cap e" "ctr e = length (dyn_list d)"
    "dyn_list e = dyn_list d" "ctr d \<le> cap d"
    by (auto simp: e_def dyn_simps length_dyn_list) (auto simp: dyn_ok_def)
  then show ?thesis
    by (auto simp: add_control_plane_def e_def [symmetric] dyn_simps)
qed

lemma remove_control_plane_live:
  assumes "dyn_ok d" and "i < ctr d"
  shows "remove_control_plane i d = Inr (id_of (dyn_list d ! i), dyn_delete i d)"
  using assms by (simp add: remove_control_plane_def dyn_cell_live)

interpretation planes_vector: vector dyn_ok dyn_list add_control_plane dyn_delete
  by unfold_locales
    (rule add_control_plane_ok dyn_delete_ok dyn_delete_list; simp add: length_dyn_list)+

text \<open>
  Registering and removing control planes never ends in "Illegal state", keeps the array
  well-formed, and the table holds exactly the list that appending each registered plane at the
  end and deleting each removed one gives, whatever the sequence of operations and however often
  the array is expanded.
\<close>

theorem planes_run_refines:
  "\<exists>d. planes_vector.run_ops ops (control_planes (init_control_planes st)) = Inr d \<and>
       dyn_ok d \<and> dyn_list d = list_ops ops []"
  using planes_vector.run_ops_refines [of "dyn_alloc CP_ARRAY_INIT" ops]
  by (simp add: init_control_planes_def CP_ARRAY_INIT_def dyn_simps)

end
