(* ===== verification/Hv_Sorting.thy ===== *)
theory Hv_Sorting
  imports Hv_Connected
begin

text \<open>
  \<open>controlplanes/sorting.c\<close>: which control plane an EID belongs to. \<open>flex_sort\<close> returns the
  sorting class, what was stored through \<open>control_plane_index\<close> (\<open>None\<close>: nothing), and the EID,
  whose length the scan may sanitise in place. An access outside the 16 bytes of a prefix or a
  cell of the table that is not live makes the whole call \<open>None\<close>.
\<close>

datatype sorting = SORTING_ERR | SORTING_ONE | SORTING_ALL | SORTING_NON

definition precomputed_masks :: "byte list" where
  "precomputed_masks = [0x00, 0x80, 0xC0, 0xE0, 0xF0, 0xF8, 0xFC, 0xFE]"

text \<open>The byte-wise comparison of one stored prefix: \<open>memcmp\<close> on the whole bytes, then the
  leftover bits under a mask.\<close>

definition match_stored :: "ipv6_prefix \<Rightarrow> ipv6_prefix \<Rightarrow> bool option" where
  "match_stored sig stored =
     (let whole_bytes = unat (prefix_length stored) div 8;
          left_bits = unat (prefix_length stored) mod 8
      in do {
        s \<leftarrow> rdn (prefix sig) 0 whole_bytes;
        t \<leftarrow> rdn (prefix stored) 0 whole_bytes;
        if s = t then
          (if left_bits = 0 then Some True
           else do {
             challenge \<leftarrow> rd8 (prefix sig) whole_bytes;
             st \<leftarrow> rd8 (prefix stored) whole_bytes;
             Some (challenge AND precomputed_masks ! left_bits =
                   st AND precomputed_masks ! left_bits) })
        else Some False })"

definition sanitize :: "ipv6_prefix \<Rightarrow> ipv6_prefix" where
  "sanitize sig = (if 128 < prefix_length sig then sig\<lparr>prefix_length := 128\<rparr> else sig)"

text \<open>The loop over the assignments; \<open>mx\<close> is \<open>max_prefix_lenght\<close>.\<close>

fun flex_sort_loop ::
  "bool \<Rightarrow> assignment list \<Rightarrow> ipv6_prefix \<Rightarrow> int \<Rightarrow> nat option \<Rightarrow>
   (ipv6_prefix \<times> int \<times> nat option) option" where
  "flex_sort_loop exact [] sig mx idx = Some (sig, mx, idx)"
| "flex_sort_loop exact (a # as) sig mx idx =
     (if exact \<and> prefix_length sig \<noteq> prefix_length (eid a)
      then flex_sort_loop exact as sig mx idx
      else if prefix_length (eid a) \<le> prefix_length sig then
        (case match_stored (sanitize sig) (eid a) of
           None \<Rightarrow> None
         | Some match \<Rightarrow>
             if match \<and> mx \<le> uint (prefix_length (eid a))
             then flex_sort_loop exact as (sanitize sig) (uint (prefix_length (eid a)))
                    (Some (assignee_index a))
             else flex_sort_loop exact as (sanitize sig) mx idx)
      else flex_sort_loop exact as sig mx idx)"

definition flex_sort ::
  "hv_tables \<Rightarrow> bool \<Rightarrow> ipv6_prefix \<Rightarrow> (sorting \<times> nat option \<times> ipv6_prefix) option" where
  "flex_sort st exact sig =
     (if ctr (control_planes st) = 0 then Some (SORTING_ERR, None, sig)
      else if list_all (\<lambda>b. b = 0) (prefix sig) \<and> prefix_length sig = 0
      then Some (SORTING_ALL, None, sig)
      else if list_all (\<lambda>b. b = 0) (prefix sig) \<and> prefix_length sig = 128
      then Some (SORTING_ERR, None, sig)
      else do {
        live \<leftarrow> those (dyn_live (assignments st));
        (sig, mx, idx) \<leftarrow> flex_sort_loop exact live sig (-1) None;
        Some (if -1 < mx then (SORTING_ONE, idx, sig)
              else (SORTING_NON, Some (control_planes_def st), sig)) })"

definition sort_eid ::
  "hv_tables \<Rightarrow> ipv6_prefix \<Rightarrow> (sorting \<times> nat option \<times> ipv6_prefix) option" where
  "sort_eid st sig = flex_sort st False sig"

definition exact_sort ::
  "hv_tables \<Rightarrow> ipv6_prefix \<Rightarrow> (sorting \<times> nat option \<times> ipv6_prefix) option" where
  "exact_sort st sig = flex_sort st True sig"

section \<open>The byte-wise comparison is the bit-wise one\<close>

lemma lead_mask_precomputed: "l < 8 \<Longrightarrow> lead_mask l (precomputed_masks ! l)"
proof -
  have "\<forall>l<8. lead_mask l (precomputed_masks ! l)"
    by (simp add: all_less_8 precomputed_masks_def lead_mask_def bit_simps)
  then show "l < 8 \<Longrightarrow> lead_mask l (precomputed_masks ! l)" by blast
qed

lemma match_stored_eq:
  assumes "wf_prefix sig" and "wf_eid stored"
  shows "match_stored sig stored =
    Some (take (unat (prefix_length stored)) (bits_of (prefix sig)) =
          take (unat (prefix_length stored)) (bits_of (prefix stored)))"
proof -
  define w l where "w = unat (prefix_length stored) div 8" and "l = unat (prefix_length stored) mod 8"
  have len: "length (prefix sig) = 16" "length (prefix stored) = 16"
    using assms by (simp_all add: wf_prefix_def wf_eid_def)
  have n: "unat (prefix_length stored) = 8 * w + l" and l: "l < 8"
    by (simp_all add: w_def l_def)
  from wf_eid_len [OF assms(2)] have w: "w \<le> 16" and wl: "l \<noteq> 0 \<Longrightarrow> w < 16"
    by (simp_all add: n)
  have r: "rdn (prefix sig) 0 w = Some (take w (prefix sig))"
    "rdn (prefix stored) 0 w = Some (take w (prefix stored))"
    using w len by (simp_all add: rdn_def)
  show ?thesis
  proof (cases "l = 0")
    case True
    with r w len show ?thesis
      by (simp add: match_stored_def w_def [symmetric] l_def [symmetric] n take_bits_of_whole)
  next
    case False
    then have "w < 16" by (rule wl)
    with False r l len show ?thesis
      by (simp add: match_stored_def w_def [symmetric] l_def [symmetric] n take_bits_of_split
        rd8_def masked_eq_iff [OF lead_mask_precomputed [OF l]] Let_def)
  qed
qed

section \<open>The scan selects the longest match\<close>

text \<open>What the scan looks for: a covering prefix, of exactly the EID's length in exact mode.\<close>

definition sel :: "bool \<Rightarrow> ipv6_prefix \<Rightarrow> assignment \<Rightarrow> bool" where
  "sel exact e a \<longleftrightarrow> covers (eid a) e \<and> (exact \<longrightarrow> prefix_length e = prefix_length (eid a))"

lemma sanitize_simps [simp]:
  "prefix (sanitize e) = prefix e" "reason (sanitize e) = reason e"
  "sanitize (sanitize e) = sanitize e"
  by (simp_all add: sanitize_def)

lemma sanitize_wf [simp]: "wf_prefix (sanitize e) = wf_prefix e" "wf_prefix e \<Longrightarrow> wf_eid (sanitize e)"
  by (simp_all add: wf_prefix_def wf_eid_def sanitize_def not_less)

lemma sanitize_id: "wf_eid e \<Longrightarrow> sanitize e = e"
  by (auto simp: sanitize_def wf_eid_def)

lemma sanitize_le:
  "p \<le> (128 :: byte) \<Longrightarrow> p \<le> prefix_length (sanitize e) \<longleftrightarrow> p \<le> prefix_length e"
  by (auto simp: sanitize_def)

lemma sel_sanitize:
  assumes "wf_eid (eid a)" and "exact \<longrightarrow> prefix_length e \<le> 128"
  shows "sel exact (sanitize e) a = sel exact e a"
proof (cases exact)
  case True
  with assms(2) have "sanitize e = e" by (auto simp: sanitize_def)
  then show ?thesis by simp
next
  case False
  with assms(1) show ?thesis
    by (simp add: sel_def covers_def wf_eid_def word_le_nat_alt [symmetric] sanitize_le)
qed

definition enc_mx :: "assignment option \<Rightarrow> int" where
  "enc_mx acc = (case acc of None \<Rightarrow> -1 | Some b \<Rightarrow> int (assignment_plen b))"

lemma uint_prefix_length: "uint (prefix_length (eid a)) = int (assignment_plen a)"
  by (simp add: assignment_plen_def)

lemma enc_mx_simps [simp]:
  "enc_mx None = -1" "enc_mx (Some b) = int (assignment_plen b)" "-1 < enc_mx acc \<longleftrightarrow> acc \<noteq> None"
  by (auto simp: enc_mx_def split: option.splits)

lemma enc_mx_le:
  "enc_mx acc \<le> int n \<longleftrightarrow> (\<forall>b. acc = Some b \<longrightarrow> assignment_plen b \<le> n)"
  by (cases acc) simp_all

lemma flex_sort_loop_eq:
  assumes "wf_prefix sig" and "\<forall>a\<in>set as. wf_eid (eid a)"
  shows "\<exists>sig'. (sig' = sig \<or> sig' = sanitize sig) \<and>
    flex_sort_loop exact as sig (enc_mx acc) (map_option assignee_index acc) =
    (let best = scan_best (sel exact sig) assignment_plen as acc
     in Some (sig', enc_mx best, map_option assignee_index best))"
  using assms
proof (induction as arbitrary: sig acc)
  case Nil
  then show ?case by auto
next
  case (Cons a as)
  have wf: "wf_eid (eid a)" and wfs: "\<forall>a\<in>set as. wf_eid (eid a)" using Cons.prems by auto
  consider (skip) "exact \<and> prefix_length sig \<noteq> prefix_length (eid a)"
    | (long) "\<not> (exact \<and> prefix_length sig \<noteq> prefix_length (eid a))"
        "\<not> prefix_length (eid a) \<le> prefix_length sig"
    | (cmp) "exact \<longrightarrow> prefix_length sig = prefix_length (eid a)"
        "prefix_length (eid a) \<le> prefix_length sig"
    by blast
  then show ?case
  proof cases
    case skip
    then have "\<not> sel exact sig a" by (auto simp: sel_def)
    with skip Cons.IH [OF Cons.prems(1) wfs, of acc] show ?thesis by simp
  next
    case long
    then have "\<not> sel exact sig a"
      by (auto simp: sel_def covers_def word_le_nat_alt)
    with long Cons.IH [OF Cons.prems(1) wfs, of acc] show ?thesis by auto
  next
    case cmp
    define acc' where "acc' = (if sel exact sig a \<and>
      (\<forall>b. acc = Some b \<longrightarrow> assignment_plen b \<le> assignment_plen a) then Some a else acc)"
    have m: "match_stored (sanitize sig) (eid a) = Some (sel exact sig a)"
      using cmp Cons.prems(1) wf
      by (simp add: match_stored_eq sel_def covers_def word_le_nat_alt)
    have same: "scan_best (sel exact (sanitize sig)) assignment_plen as acc' =
        scan_best (sel exact sig) assignment_plen as acc'"
    proof (rule scan_best_cong)
      fix b assume "b \<in> set as"
      moreover have "exact \<longrightarrow> prefix_length sig \<le> 128" using cmp(1) wf by (simp add: wf_eid_def)
      ultimately show "sel exact (sanitize sig) b = sel exact sig b"
        using wfs by (intro sel_sanitize) auto
    qed
    have guard: "\<not> (exact \<and> prefix_length sig \<noteq> prefix_length (eid a))" using cmp(1) by blast
    have step: "flex_sort_loop exact (a # as) sig (enc_mx acc) (map_option assignee_index acc) =
      flex_sort_loop exact as (sanitize sig) (enc_mx acc') (map_option assignee_index acc')"
      by (simp only: flex_sort_loop.simps if_not_P [OF guard] if_P [OF cmp(2)] m option.case
        uint_prefix_length enc_mx_le acc'_def) auto
    have "wf_prefix (sanitize sig)" using Cons.prems(1) by simp
    from Cons.IH [OF this wfs, of acc'] same show ?thesis
      unfolding step by (auto simp: acc'_def)
  qed
qed


text \<open>The EIDs that are not looked up: \<open>::/0\<close> (everyone) and \<open>::/128\<close> (no one).\<close>

definition special_eid :: "ipv6_prefix \<Rightarrow> bool" where
  "special_eid e \<longleftrightarrow> list_all (\<lambda>b. b = 0) (prefix e) \<and> (prefix_length e = 0 \<or> prefix_length e = 128)"

lemma special_eids: "special_eid (get_undefined_eid r)" "special_eid (get_broadcast_eid r)"
  by (simp_all add: special_eid_def get_undefined_eid_def get_broadcast_eid_def)

lemma flex_sort_special:
  assumes "tables_ok st" and "planes st \<noteq> []"
  shows "flex_sort st exact (get_broadcast_eid r) = Some (SORTING_ALL, None, get_broadcast_eid r)"
    and "flex_sort st exact (get_undefined_eid r) = Some (SORTING_ERR, None, get_undefined_eid r)"
  using assms planes_Nil_iff [of st]
  by (auto simp: flex_sort_def get_broadcast_eid_def get_undefined_eid_def)

lemma flex_sort_no_planes:
  "tables_ok st \<Longrightarrow> planes st = [] \<Longrightarrow> flex_sort st exact sig = Some (SORTING_ERR, None, sig)"
  using length_planes [of st] by (simp add: flex_sort_def)

lemma flex_sort_scan:
  assumes "tables_ok st" and "entries_wf st" and "wf_prefix sig"
    and "planes st \<noteq> []" and "\<not> special_eid sig"
  shows "\<exists>sig'. (sig' = sig \<or> sig' = sanitize sig) \<and> flex_sort st exact sig = Some
    (case scan_best (sel exact sig) assignment_plen (entries st) None of
       None \<Rightarrow> (SORTING_NON, Some (control_planes_def st), sig')
     | Some a \<Rightarrow> (SORTING_ONE, Some (assignee_index a), sig'))"
proof -
  have ne: "ctr (control_planes st) \<noteq> 0"
    using assms(1,4) by (simp add: planes_Nil_iff)
  have live: "those (dyn_live (assignments st)) = Some (entries st)"
    using assms(1) by (simp add: tables_ok_def entries_def those_dyn_live)
  from flex_sort_loop_eq [of sig "entries st" exact None] assms(2,3) obtain sig' where
    "sig' = sig \<or> sig' = sanitize sig"
    "flex_sort_loop exact (entries st) sig (-1) None =
      (let best = scan_best (sel exact sig) assignment_plen (entries st) None
       in Some (sig', enc_mx best, map_option assignee_index best))"
    by (auto simp: entries_wf_def)
  with ne live assms(5) show ?thesis
    by (intro exI [of _ sig']) (auto simp: flex_sort_def special_eid_def split: option.split)
qed

lemma sel_False: "sel False e a = covers (eid a) e"
  by (simp add: sel_def)

lemma sel_True: "sel True e a = same_eid (eid a) e"
  by (auto simp: sel_def same_eid_def)

lemma flex_sort_cases:
  assumes "tables_ok st" and "entries_wf st" and "wf_prefix sig"
    and "planes st \<noteq> []" and "\<not> special_eid sig"
  obtains (one) a sig' where "is_lpm (sel exact sig) assignment_plen (entries st) a"
      "flex_sort st exact sig = Some (SORTING_ONE, Some (assignee_index a), sig')"
      "sig' = sig \<or> sig' = sanitize sig"
    | (non) sig' where "\<forall>a\<in>set (entries st). \<not> sel exact sig a"
      "flex_sort st exact sig = Some (SORTING_NON, Some (control_planes_def st), sig')"
      "sig' = sig \<or> sig' = sanitize sig"
proof -
  from flex_sort_scan [OF assms, of exact] obtain sig' where
    sig': "sig' = sig \<or> sig' = sanitize sig" and
    eq: "flex_sort st exact sig = Some
    (case scan_best (sel exact sig) assignment_plen (entries st) None of
       None \<Rightarrow> (SORTING_NON, Some (control_planes_def st), sig')
     | Some a \<Rightarrow> (SORTING_ONE, Some (assignee_index a), sig'))" by blast
  show thesis
  proof (cases "scan_best (sel exact sig) assignment_plen (entries st) None")
    case None
    with eq sig' show ?thesis by (intro non [of sig']) (auto simp: scan_best_None)
  next
    case (Some a)
    with eq sig' show ?thesis by (intro one [of a sig']) (auto dest: scan_best_sound)
  qed
qed

text \<open>No lookup ever reads outside a prefix or the live part of the table.\<close>

lemma flex_sort_total:
  assumes "tables_ok st" and "entries_wf st" and "wf_prefix sig"
  shows "\<exists>r idx sig'. flex_sort st exact sig = Some (r, idx, sig') \<and> wf_prefix sig' \<and>
    (wf_eid sig \<longrightarrow> sig' = sig) \<and>
    (r = SORTING_ONE \<longrightarrow> (\<exists>a\<in>set (entries st). idx = Some (assignee_index a))) \<and>
    (r = SORTING_NON \<longrightarrow> idx = Some (control_planes_def st))"
proof (cases "planes st = [] \<or> special_eid sig")
  case True
  then have "ctr (control_planes st) = 0 \<or> special_eid sig"
    using assms(1) by (simp add: planes_Nil_iff)
  with assms(3) show ?thesis by (auto simp: flex_sort_def special_eid_def)
next
  case False
  then have "planes st \<noteq> []" "\<not> special_eid sig" by auto
  with assms show ?thesis
  proof (cases rule: flex_sort_cases [where exact = exact])
    case (one a sig')
    with assms(3) show ?thesis by (auto simp: sanitize_id dest: is_lpm_max)
  next
    case (non sig')
    with assms(3) show ?thesis by (auto simp: sanitize_id)
  qed
qed

section \<open>Properties\<close>

text \<open>A small table: one control plane, with \<open>10.0.0.0/8\<close> and \<open>10.1.0.0/16\<close> (as IPv4-mapped
  prefixes) assigned.\<close>

definition mapped :: "byte list \<Rightarrow> byte \<Rightarrow> ipv6_prefix" where
  "mapped a l = \<lparr>prefix = ipv4_mapped a, prefix_length = 96 + l, reason = PRFX_ASIS\<rparr>"

lemma mapped_wf: "length a = 4 \<Longrightarrow> l \<le> 32 \<Longrightarrow> wf_eid (mapped a l)"
  by (simp add: wf_eid_def mapped_def) unat_arith

definition sample_plane :: control_plane where
  "sample_plane = \<lparr>id_of = 0, socket_descriptor = 7, port = 5000, pid = 42\<rparr>"

definition sample_tables :: hv_tables where
  "sample_tables =
     \<lparr>control_planes = dyn_of 16 [sample_plane, sample_plane\<lparr>id_of := 1, port := 5001\<rparr>],
      control_planes_def = 0, control_planes_autoindex = 2,
      assignments = dyn_of 128
        [\<lparr>eid = mapped [10, 0, 0, 0] 8, assignee_index = 0\<rparr>,
         \<lparr>eid = mapped [10, 1, 0, 0] 16, assignee_index = 1\<rparr>]\<rparr>"

lemma sample_entries [simp]:
  "entries sample_tables =
     [\<lparr>eid = mapped [10, 0, 0, 0] 8, assignee_index = 0\<rparr>,
      \<lparr>eid = mapped [10, 1, 0, 0] 16, assignee_index = 1\<rparr>]"
  "planes sample_tables = [sample_plane, sample_plane\<lparr>id_of := 1, port := 5001\<rparr>]"
  "control_planes_def sample_tables = 0"
  by (simp_all add: sample_tables_def planes_def entries_def dyn_simps)

lemma sample_ok [simp]: "tables_ok sample_tables"
  by (simp add: sample_tables_def tables_ok_def dyn_simps)

lemma sample_wf [simp]: "entries_wf sample_tables"
  by (simp add: entries_wf_def mapped_wf)

lemma mapped_sel [simp]:
  "prefix (mapped a l) = ipv4_mapped a" "prefix_length (mapped a l) = 96 + l"
  by (simp_all add: mapped_def)

lemma mapped_not_special: "\<not> special_eid (mapped a l)"
  by (simp add: special_eid_def mapped_def ipv4_mapped_def)

text \<open>
  C8: \<open>sort\<close> on an EID that is not one of the two special ones selects the last of the longest
  assigned prefixes that cover it and returns that assignment's assignee, and falls back to the
  default control plane exactly when no assigned prefix covers it.
\<close>

theorem sort_selects_longest_match:
  assumes "tables_ok st" and "entries_wf st" and "wf_prefix sig"
    and "planes st \<noteq> []" and "\<not> special_eid sig"
  shows "\<exists>sig'. prefix sig' = prefix sig \<and>
    ((\<exists>a. is_lpm (\<lambda>a. covers (eid a) sig) assignment_plen (entries st) a \<and>
          sort_eid st sig = Some (SORTING_ONE, Some (assignee_index a), sig')) \<or>
     (\<forall>a\<in>set (entries st). \<not> covers (eid a) sig) \<and>
      sort_eid st sig = Some (SORTING_NON, Some (control_planes_def st), sig'))"
  using assms
proof (cases rule: flex_sort_cases [where exact = False])
  case (one a sig')
  then show ?thesis
    by (intro exI [of _ sig']) (auto simp: sort_eid_def sel_False [abs_def])
next
  case (non sig')
  then show ?thesis
    by (intro exI [of _ sig']) (auto simp: sort_eid_def sel_False [abs_def])
qed

theorem sort_selects_longest_match_witness:
  "\<exists>sig'. prefix sig' = ipv4_mapped [10, 1, 2, 3] \<and>
    ((\<exists>a. is_lpm (\<lambda>a. covers (eid a) (mapped [10, 1, 2, 3] 32)) assignment_plen
            (entries sample_tables) a \<and>
          sort_eid sample_tables (mapped [10, 1, 2, 3] 32) =
            Some (SORTING_ONE, Some (assignee_index a), sig')) \<or>
     (\<forall>a\<in>set (entries sample_tables). \<not> covers (eid a) (mapped [10, 1, 2, 3] 32)) \<and>
      sort_eid sample_tables (mapped [10, 1, 2, 3] 32) =
        Some (SORTING_NON, Some 0, sig'))"
  using sort_selects_longest_match [of sample_tables "mapped [10, 1, 2, 3] 32"]
  by (simp add: mapped_wf mapped_not_special wf_eid_prefix mapped_sel)

end
