(* ===== verification/Hv_Assignments.thy ===== *)
theory Hv_Assignments
  imports Hv_Sorting
begin

text \<open>
  \<open>controlplanes/assignments.c\<close>: which control plane is assigned which EID prefix. The C array
  holds pointers to separately allocated entries; a live cell always points to its own allocated
  entry, so the model keeps the entries themselves. A cell that is not live (index \<open>ctr\<close> or above)
  is uninitialised, dangling or a stale alias, and using it is \<open>Undef\<close>.
\<close>

definition ASG_ARRAY_INIT :: nat where
  "ASG_ARRAY_INIT = 128"

definition ASG_ARRAY_INCR :: nat where
  "ASG_ARRAY_INCR = 2"

definition init_assignments :: "hv_tables \<Rightarrow> hv_tables" where
  "init_assignments st = st\<lparr>assignments := dyn_alloc ASG_ARRAY_INIT\<rparr>"

definition expand_assignments :: "assignment dyn \<Rightarrow> assignment dyn" where
  "expand_assignments d = dyn_realloc (ASG_ARRAY_INCR * cap d) d"

text \<open>The second half of \<open>add_assignment\<close>: the entry is new.\<close>

definition store_assignment ::
  "assignment \<Rightarrow> assignment dyn \<Rightarrow> fault + nat \<times> assignment dyn" where
  "store_assignment item d =
     (if cap d < ctr d then Inl Fatal
      else let d = (if ctr d = cap d then expand_assignments d else d)
           in Inr (ctr d, dyn_push item d))"

definition live_cell :: "'a dyn \<Rightarrow> nat \<Rightarrow> 'a option" where
  "live_cell d i = (if i < ctr d then dyn_cell d i else None)"

definition add_assignment :: "assignment \<Rightarrow> hv_tables \<Rightarrow> fault + int \<times> hv_tables" where
  "add_assignment item st =
     (case exact_sort st (eid item) of
        None \<Rightarrow> Inl Undef
      | Some (sorting, present_index, e) \<Rightarrow>
          if sorting = SORTING_ONE then
            (case Option.bind present_index (live_cell (assignments st)) of
               None \<Rightarrow> Inl Undef
             | Some a \<Rightarrow>
                 Inr (int (the present_index),
                      st\<lparr>assignments := dyn_store (the present_index)
                            (a\<lparr>assignee_index := assignee_index item\<rparr>) (assignments st)\<rparr>))
          else if sorting = SORTING_ERR then Inr (-1, st)
          else
            (case store_assignment (item\<lparr>eid := e\<rparr>) (assignments st) of
               Inl f \<Rightarrow> Inl f
             | Inr (ind, d) \<Rightarrow> Inr (int ind, st\<lparr>assignments := d\<rparr>)))"

definition remove_assignment :: "assignment \<Rightarrow> hv_tables \<Rightarrow> fault + hv_tables" where
  "remove_assignment item st =
     (case exact_sort st (eid item) of
        None \<Rightarrow> Inl Undef
      | Some (sorting, present_index, e) \<Rightarrow>
          if sorting \<noteq> SORTING_ONE then Inr st
          else
            (case Option.bind present_index (live_cell (assignments st)) of
               None \<Rightarrow> Inl Undef
             | Some a \<Rightarrow>
                 if assignee_index item \<noteq> assignee_index a then Inr st
                 else Inr (st\<lparr>assignments := dyn_delete (the present_index) (assignments st)\<rparr>)))"

text \<open>The loop of \<open>remove_assignee\<close>.\<close>

function remove_assignee_loop ::
  "nat \<Rightarrow> nat \<Rightarrow> assignment dyn \<Rightarrow> fault + assignment dyn" where
  "remove_assignee_loop k i d =
     (if i < ctr d then
        (case live_cell d i of
           None \<Rightarrow> Inl Undef
         | Some a \<Rightarrow>
             if assignee_index a = k then remove_assignee_loop k i (dyn_delete i d)
             else remove_assignee_loop k (Suc i) d)
      else Inr d)"
  by pat_completeness auto
termination
  by (relation "measure (\<lambda>(k, i, d). ctr d - i)") (auto simp: dyn_simps)

declare remove_assignee_loop.simps [simp del]

text \<open>\<open>count\<close> is never incremented: the call always returns 0.\<close>

definition remove_assignee :: "nat \<Rightarrow> hv_tables \<Rightarrow> fault + int \<times> hv_tables" where
  "remove_assignee k st =
     (case remove_assignee_loop k 0 (assignments st) of
        Inl f \<Rightarrow> Inl f
      | Inr d \<Rightarrow> Inr (0, st\<lparr>assignments := d\<rparr>))"

section \<open>The array operations\<close>

lemma live_cell_ok: "dyn_ok d \<Longrightarrow> i < ctr d \<Longrightarrow> live_cell d i = Some (dyn_list d ! i)"
  by (simp add: live_cell_def dyn_cell_live)

lemma live_cell_dead: "ctr d \<le> i \<Longrightarrow> live_cell d i = None"
  by (simp add: live_cell_def)

lemma expand_assignments_simps [dyn_simps]:
  "dyn_ok d \<Longrightarrow> dyn_ok (expand_assignments d)"
  "dyn_ok d \<Longrightarrow> dyn_list (expand_assignments d) = dyn_list d"
  "ctr (expand_assignments d) = ctr d"
  "cap (expand_assignments d) = 2 * cap d"
  by (simp_all add: expand_assignments_def ASG_ARRAY_INCR_def dyn_simps)

lemma store_assignment_ok:
  assumes "dyn_ok d"
  shows "\<exists>d'. store_assignment a d = Inr (length (dyn_list d), d') \<and> dyn_ok d' \<and>
              dyn_list d' = dyn_list d @ [a]"
proof -
  define e where "e = (if ctr d = cap d then expand_assignments d else d)"
  from assms have "dyn_ok e" "ctr e < cap e" "ctr e = length (dyn_list d)"
    "dyn_list e = dyn_list d" "ctr d \<le> cap d"
    by (auto simp: e_def dyn_simps length_dyn_list) (auto simp: dyn_ok_def)
  then show ?thesis
    by (auto simp: store_assignment_def e_def [symmetric] dyn_simps)
qed

interpretation assignments_vector: vector dyn_ok dyn_list store_assignment dyn_delete
  by unfold_locales
    (rule store_assignment_ok dyn_delete_ok dyn_delete_list; simp add: length_dyn_list)+

lemma remove_nth_filter:
  "i < length xs \<Longrightarrow> P (xs ! i) \<Longrightarrow>
   take i xs @ filter (\<lambda>x. \<not> P x) (drop i xs) =
   take i (remove_nth i xs) @ filter (\<lambda>x. \<not> P x) (drop i (remove_nth i xs))"
  by (simp add: remove_nth_def Cons_nth_drop_Suc [symmetric] min_def)

lemma remove_assignee_loop_eq:
  "dyn_ok d \<Longrightarrow> i \<le> ctr d \<Longrightarrow>
   \<exists>d'. remove_assignee_loop k i d = Inr d' \<and> dyn_ok d' \<and>
        dyn_list d' = take i (dyn_list d) @
          filter (\<lambda>a. assignee_index a \<noteq> k) (drop i (dyn_list d))"
proof (induction k i d rule: remove_assignee_loop.induct)
  case (1 k i d)
  show ?case
  proof (cases "i < ctr d")
    case False
    with "1.prems" show ?thesis
      by (simp add: remove_assignee_loop.simps [of k "ctr d" d] length_dyn_list)
  next
    case True
    note cell = live_cell_ok [OF "1.prems"(1) True]
    have len: "i < length (dyn_list d)" using True "1.prems" by (simp add: length_dyn_list)
    show ?thesis
    proof (cases "assignee_index (dyn_list d ! i) = k")
      case hit: True
      have "i \<le> ctr d - Suc 0" using True by simp
      with "1.IH"(1) [OF True cell hit] "1.prems" True obtain d' where
        "remove_assignee_loop k i (dyn_delete i d) = Inr d'" "dyn_ok d'"
        "dyn_list d' = take i (remove_nth i (dyn_list d)) @
          filter (\<lambda>a. assignee_index a \<noteq> k) (drop i (remove_nth i (dyn_list d)))"
        by (auto simp: dyn_simps)
      with remove_nth_filter [OF len, of "\<lambda>a. assignee_index a = k"] hit True cell
      show ?thesis by (simp add: remove_assignee_loop.simps [of k i d])
    next
      case miss: False
      from "1.IH"(2) [OF True cell miss] "1.prems" True obtain d' where
        "remove_assignee_loop k (Suc i) d = Inr d'" "dyn_ok d'"
        "dyn_list d' = take (Suc i) (dyn_list d) @
          filter (\<lambda>a. assignee_index a \<noteq> k) (drop (Suc i) (dyn_list d))"
        by auto
      with miss True cell len show ?thesis
        by (simp add: remove_assignee_loop.simps [of k i d] take_Suc_conv_app_nth
          Cons_nth_drop_Suc [symmetric])
    qed
  qed
qed

section \<open>What the operations do to the table\<close>

lemma tables_ok_upd:
  "tables_ok st \<Longrightarrow> dyn_ok d \<Longrightarrow> tables_ok (st\<lparr>assignments := d\<rparr>)"
  "planes (st\<lparr>assignments := d\<rparr>) = planes st"
  "entries (st\<lparr>assignments := d\<rparr>) = dyn_list d"
  by (simp_all add: tables_ok_def planes_def entries_def)

text \<open>Every outcome of \<open>add_assignment\<close>, by what \<open>exact_sort\<close> answers.\<close>

lemma add_assignment_one:
  assumes "tables_ok st" and "exact_sort st (eid item) = Some (SORTING_ONE, Some k, e)"
  shows "add_assignment item st =
    (if k < length (entries st)
     then Inr (int k, st\<lparr>assignments := dyn_store k
            ((entries st ! k)\<lparr>assignee_index := assignee_index item\<rparr>) (assignments st)\<rparr>)
     else Inl Undef)"
  using assms length_entries [of st]
  by (auto simp: add_assignment_def live_cell_ok live_cell_dead tables_ok_def entries_def)

lemma add_assignment_new:
  assumes "tables_ok st"
    and "exact_sort st (eid item) = Some (r, idx, e)" and "r = SORTING_NON \<or> r = SORTING_ALL"
  shows "\<exists>st'. add_assignment item st = Inr (int (length (entries st)), st') \<and> tables_ok st' \<and>
    planes st' = planes st \<and> control_planes_def st' = control_planes_def st \<and>
    entries st' = entries st @ [item\<lparr>eid := e\<rparr>]"
proof -
  from assms(1) have "dyn_ok (assignments st)" by (simp add: tables_ok_def)
  from store_assignment_ok [OF this, of "item\<lparr>eid := e\<rparr>"] obtain d' where
    "store_assignment (item\<lparr>eid := e\<rparr>) (assignments st) = Inr (length (entries st), d')"
    "dyn_ok d'" "dyn_list d' = entries st @ [item\<lparr>eid := e\<rparr>]"
    by (auto simp: entries_def)
  with assms show ?thesis
    by (auto simp: add_assignment_def tables_ok_upd)
qed

lemma exact_sort_fresh:
  assumes "tables_ok st" and "entries_wf st" and "wf_eid e"
    and "planes st \<noteq> []" and "\<not> special_eid e" and "\<forall>a\<in>set (entries st). \<not> same_eid (eid a) e"
  shows "exact_sort st e = Some (SORTING_NON, Some (control_planes_def st), e)"
  using assms(1,2) wf_eid_prefix [OF assms(3)] assms(4,5)
proof (cases rule: flex_sort_cases [where exact = True])
  case (one a sig')
  with assms(6) show ?thesis by (auto simp: sel_True dest!: is_lpm_max)
next
  case (non sig')
  with assms(3) show ?thesis by (auto simp: exact_sort_def sanitize_id)
qed

lemma exact_sort_present:
  assumes "tables_ok st" and "entries_wf st" and "wf_eid e"
    and "planes st \<noteq> []" and "\<not> special_eid e"
    and "i < length (entries st)" and "same_eid (eid (entries st ! i)) e"
    and "\<forall>j<length (entries st). same_eid (eid (entries st ! j)) e \<longrightarrow> j = i"
  shows "exact_sort st e = Some (SORTING_ONE, Some (assignee_index (entries st ! i)), e)"
  using assms(1,2) wf_eid_prefix [OF assms(3)] assms(4,5)
proof (cases rule: flex_sort_cases [where exact = True])
  case (one a sig')
  then have "a \<in> set (entries st)" "same_eid (eid a) e"
    by (auto simp: sel_True dest!: is_lpm_max)
  with assms(8) have "a = entries st ! i" by (auto simp: in_set_conv_nth)
  with one assms(3) show ?thesis by (auto simp: exact_sort_def sanitize_id)
next
  case (non sig')
  with assms(6,7) show ?thesis by (auto simp: sel_True)
qed

text \<open>Both operations keep the table well-formed; only an undefined access stops them.\<close>

lemma exact_sort_wf:
  assumes "tables_ok st" and "entries_wf st" and "wf_eid e"
    and "exact_sort st e = Some (r, idx, e')"
  shows "e' = e" and "r = SORTING_ONE \<Longrightarrow> \<exists>a\<in>set (entries st). idx = Some (assignee_index a)"
  using flex_sort_total [OF assms(1,2) wf_eid_prefix [OF assms(3)], of True] assms(3,4)
  by (auto simp: exact_sort_def)

lemma add_assignment_invariants:
  assumes "tables_ok st" and "entries_wf st" and "wf_eid (eid item)"
    and "add_assignment item st = Inr (i, st')"
  shows "tables_ok st'" and "entries_wf st'" and "planes st' = planes st"
    and "assignees_ok st \<Longrightarrow> assignee_index item < length (planes st) \<Longrightarrow> assignees_ok st'"
proof -
  obtain r idx e where ex: "exact_sort st (eid item) = Some (r, idx, e)"
    using assms(4) by (auto simp: add_assignment_def split: option.splits)
  note e = exact_sort_wf [OF assms(1-3) ex]
  show "tables_ok st'" and "entries_wf st'" and "planes st' = planes st"
    and "assignees_ok st \<Longrightarrow> assignee_index item < length (planes st) \<Longrightarrow> assignees_ok st'"
  proof -
    consider (one) k where "r = SORTING_ONE" "idx = Some k" | (err) "r = SORTING_ERR"
      | (new) "r = SORTING_NON \<or> r = SORTING_ALL"
      using e(2) by (cases r) auto
    then have "tables_ok st' \<and> entries_wf st' \<and> planes st' = planes st \<and>
      (assignees_ok st \<longrightarrow> assignee_index item < length (planes st) \<longrightarrow> assignees_ok st')"
    proof cases
      case one
      with add_assignment_one [OF assms(1), of item k e] ex assms(4) have k: "k < length (entries st)"
        and st': "st' = st\<lparr>assignments := dyn_store k
            ((entries st ! k)\<lparr>assignee_index := assignee_index item\<rparr>) (assignments st)\<rparr>"
        by (auto split: if_splits)
      have es: "entries st' = (entries st)[k := (entries st ! k)\<lparr>assignee_index := assignee_index item\<rparr>]"
        by (simp add: st' tables_ok_upd dyn_store_list) (simp add: entries_def)
      have "entries st ! k \<in> set (entries st)" using k by simp
      with es assms(1,2) st' show ?thesis
        by (auto simp: tables_ok_upd entries_wf_def assignees_ok_def dyn_simps tables_ok_def
            dest!: set_update_subset_insert [THEN subsetD])
    next
      case err
      with ex assms show ?thesis by (auto simp: add_assignment_def)
    next
      case new
      from add_assignment_new [OF assms(1) ex new] assms(4) have
        "tables_ok st'" "planes st' = planes st" "entries st' = entries st @ [item\<lparr>eid := e\<rparr>]"
        by auto
      with assms(2,3) e(1) show ?thesis by (auto simp: entries_wf_def assignees_ok_def)
    qed
    then show "tables_ok st'" and "entries_wf st'" and "planes st' = planes st"
      and "assignees_ok st \<Longrightarrow> assignee_index item < length (planes st) \<Longrightarrow> assignees_ok st'"
      by auto
  qed
qed

lemma live_cell_SomeD: "live_cell d i = Some a \<Longrightarrow> i < ctr d"
  by (simp add: live_cell_def split: if_splits)

lemma remove_assignment_cases:
  assumes "remove_assignment item st = Inr st'"
  shows "st' = st \<or> (\<exists>k < ctr (assignments st).
           st' = st\<lparr>assignments := dyn_delete k (assignments st)\<rparr>)"
proof -
  obtain r idx e where ex: "exact_sort st (eid item) = Some (r, idx, e)"
    using assms by (auto simp: remove_assignment_def split: option.splits)
  show ?thesis
  proof (cases "Option.bind idx (live_cell (assignments st))")
    case None
    with assms ex show ?thesis by (auto simp: remove_assignment_def split: if_splits)
  next
    case (Some a)
    then obtain k where k: "idx = Some k" "k < ctr (assignments st)"
      by (cases idx) (auto dest: live_cell_SomeD)
    with assms ex Some show ?thesis
      by (simp add: remove_assignment_def split: if_splits) blast
  qed
qed

lemma remove_assignment_invariants:
  assumes "tables_ok st" and "remove_assignment item st = Inr st'"
  shows "tables_ok st' \<and> set (entries st') \<subseteq> set (entries st) \<and> planes st' = planes st"
  using remove_assignment_cases [OF assms(2)]
proof
  assume "\<exists>k < ctr (assignments st). st' = st\<lparr>assignments := dyn_delete k (assignments st)\<rparr>"
  then obtain k where d: "dyn_ok (assignments st)" "k < ctr (assignments st)"
    and st': "st' = st\<lparr>assignments := dyn_delete k (assignments st)\<rparr>"
    using assms(1) by (auto simp: tables_ok_def)
  have "entries st' = remove_nth k (entries st)"
    using d by (simp add: st' tables_ok_upd dyn_simps) (simp add: entries_def)
  with assms(1) st' d show ?thesis
    by (simp add: tables_ok_upd dyn_simps set_remove_nth)
qed (use assms(1) in simp)

lemma assignment_ops_frame:
  "add_assignment item st = Inr (i, st') \<Longrightarrow> \<exists>d. st' = st\<lparr>assignments := d\<rparr>"
  "remove_assignment item st = Inr st' \<Longrightarrow> \<exists>d. st' = st\<lparr>assignments := d\<rparr>"
proof -
  have id: "\<exists>d. st = st\<lparr>assignments := d\<rparr>" by (rule exI [of _ "assignments st"]) simp
  show "add_assignment item st = Inr (i, st') \<Longrightarrow> \<exists>d. st' = st\<lparr>assignments := d\<rparr>"
    using id by (auto simp: add_assignment_def split: option.splits if_splits sum.splits)
  show "remove_assignment item st = Inr st' \<Longrightarrow> \<exists>d. st' = st\<lparr>assignments := d\<rparr>"
    using id by (auto dest: remove_assignment_cases)
qed

lemma assignment_ops_def_plane:
  "add_assignment item st = Inr (i, st') \<Longrightarrow> control_planes_def st' = control_planes_def st"
  "remove_assignment item st = Inr st' \<Longrightarrow> control_planes_def st' = control_planes_def st"
  by (auto dest!: assignment_ops_frame)

section \<open>Properties\<close>

text \<open>A table whose positions and assignees differ: \<open>10.1.0.0/16\<close> is first and belongs to plane 1.\<close>

definition crossed_tables :: hv_tables where
  "crossed_tables = sample_tables\<lparr>assignments := dyn_of 128
     [\<lparr>eid = mapped [10, 1, 0, 0] 16, assignee_index = 1\<rparr>,
      \<lparr>eid = mapped [10, 0, 0, 0] 8, assignee_index = 0\<rparr>]\<rparr>"

lemma crossed_simps [simp]:
  "entries crossed_tables = [\<lparr>eid = mapped [10, 1, 0, 0] 16, assignee_index = 1\<rparr>,
      \<lparr>eid = mapped [10, 0, 0, 0] 8, assignee_index = 0\<rparr>]"
  "planes crossed_tables = planes sample_tables" "control_planes_def crossed_tables = 0"
  by (simp_all add: crossed_tables_def tables_ok_upd dyn_simps)

lemma crossed_ok [simp]: "tables_ok crossed_tables" "entries_wf crossed_tables"
  by (simp add: crossed_tables_def tables_ok_upd dyn_simps) (simp add: entries_wf_def mapped_wf)

lemma same_eid_mapped:
  "same_eid (mapped a l) (mapped b m) \<longleftrightarrow>
     l = m \<and> take (unat (96 + l)) (bits_of (ipv4_mapped a)) = take (unat (96 + l)) (bits_of (ipv4_mapped b))"
  by (auto simp: same_eid_def covers_def)

lemma fresh_sample: "\<forall>a\<in>set (entries sample_tables). \<not> same_eid (eid a) (mapped [10, 1, 2, 0] 24)"
  by (simp add: same_eid_mapped)

lemma add_assignment_fresh:
  assumes "tables_ok st" and "entries_wf st" and "wf_eid (eid item)" and "planes st \<noteq> []"
    and "\<not> special_eid (eid item)" and "\<forall>a\<in>set (entries st). \<not> same_eid (eid a) (eid item)"
  shows "\<exists>st'. add_assignment item st = Inr (int (length (entries st)), st') \<and>
    planes st' = planes st \<and> entries st' = entries st @ [item] \<and>
    sort_eid st' (eid item) = Some (SORTING_ONE, Some (assignee_index item), eid item)"
proof -
  from exact_sort_fresh [OF assms] have
    "exact_sort st (eid item) = Some (SORTING_NON, Some (control_planes_def st), eid item)" .
  from add_assignment_new [OF assms(1) this] obtain st' where
    st': "add_assignment item st = Inr (int (length (entries st)), st')" "tables_ok st'"
    "planes st' = planes st" "entries st' = entries st @ [item]" by auto
  have wf: "entries_wf st'" using assms(2,3) st'(4) by (auto simp: entries_wf_def)
  have item: "is_lpm (sel False (eid item)) assignment_plen (entries st') item"
    unfolding st'(4)
    by (rule is_lpm_snoc_new) (auto simp: sel_False covers_def assignment_plen_def)
  have ne: "planes st' \<noteq> []" using assms(4) st'(3) by simp
  from st'(2) wf wf_eid_prefix [OF assms(3)] ne assms(5) have
    "sort_eid st' (eid item) = Some (SORTING_ONE, Some (assignee_index item), eid item)"
  proof (cases rule: flex_sort_cases [where exact = False])
    case (one a sig')
    with is_lpm_unique [OF one(1) item] assms(3) show ?thesis
      by (auto simp: sort_eid_def sanitize_id)
  next
    case (non sig')
    with st'(4) show ?thesis by (auto simp: sel_False)
  qed
  with st' show ?thesis by auto
qed

text \<open>
  Registering an assignment for an EID prefix that no entry has appends it, and from then on
  \<open>sort\<close> sends that EID to the new assignee.
\<close>

theorem add_assignment_then_sort:
  assumes "tables_ok st" and "entries_wf st" and "wf_eid (eid item)" and "planes st \<noteq> []"
    and "\<not> special_eid (eid item)" and "\<forall>a\<in>set (entries st). \<not> same_eid (eid a) (eid item)"
  shows "\<exists>st'. add_assignment item st = Inr (int (length (entries st)), st') \<and>
    entries st' = entries st @ [item] \<and>
    sort_eid st' (eid item) = Some (SORTING_ONE, Some (assignee_index item), eid item)"
  using add_assignment_fresh [OF assms] by auto

theorem add_assignment_then_sort_witness:
  "\<exists>st'. add_assignment \<lparr>eid = mapped [10, 1, 2, 0] 24, assignee_index = 1\<rparr> sample_tables =
       Inr (2, st') \<and>
     sort_eid st' (mapped [10, 1, 2, 0] 24) =
       Some (SORTING_ONE, Some 1, mapped [10, 1, 2, 0] 24)"
  using add_assignment_then_sort [of sample_tables
      "\<lparr>eid = mapped [10, 1, 2, 0] 24, assignee_index = 1\<rparr>"] fresh_sample
  by (auto simp: mapped_wf mapped_not_special)

text \<open>
  Registering again an EID that one entry already has does not update that entry. The index
  \<open>exact_sort\<close> stores is the assignee of the entry found, not its position: the entry whose
  position is the old assignee's index is the one given to the new assignee, and that index is
  returned; when it is not a live position the access is undefined.
\<close>

theorem add_assignment_present_writes_assignee_slot:
  assumes "tables_ok st" and "entries_wf st" and "wf_eid (eid item)" and "planes st \<noteq> []"
    and "\<not> special_eid (eid item)" and "i < length (entries st)"
    and "same_eid (eid (entries st ! i)) (eid item)"
    and "\<forall>j<length (entries st). same_eid (eid (entries st ! j)) (eid item) \<longrightarrow> j = i"
    and "k = assignee_index (entries st ! i)"
  shows "if k < length (entries st)
         then \<exists>st'. add_assignment item st = Inr (int k, st') \<and>
                entries st' =
                  (entries st)[k := (entries st ! k)\<lparr>assignee_index := assignee_index item\<rparr>]
         else add_assignment item st = Inl Undef"
  using add_assignment_one [OF assms(1) exact_sort_present [OF assms(1-8)]] assms(9)
  by (simp add: tables_ok_upd dyn_store_list) (simp add: entries_def)

theorem add_assignment_present_writes_assignee_slot_witness:
  "\<exists>st'. add_assignment \<lparr>eid = mapped [10, 1, 0, 0] 16, assignee_index = 0\<rparr> crossed_tables =
       Inr (1, st') \<and>
     entries st' = [\<lparr>eid = mapped [10, 1, 0, 0] 16, assignee_index = 1\<rparr>,
                    \<lparr>eid = mapped [10, 0, 0, 0] 8, assignee_index = 0\<rparr>]"
  using add_assignment_present_writes_assignee_slot [of crossed_tables
      "\<lparr>eid = mapped [10, 1, 0, 0] 16, assignee_index = 0\<rparr>" 0 1]
  by (simp add: mapped_wf mapped_not_special same_eid_mapped less_Suc_eq)

text \<open>
  Withdrawing an EID that one entry has removes, by the same confusion, the entry at the
  position that the found entry's assignee index gives, and only when that other entry belongs to
  the requester; otherwise the table is unchanged.
\<close>

theorem remove_assignment_present_removes_assignee_slot:
  assumes "tables_ok st" and "entries_wf st" and "wf_eid (eid item)" and "planes st \<noteq> []"
    and "\<not> special_eid (eid item)" and "i < length (entries st)"
    and "same_eid (eid (entries st ! i)) (eid item)"
    and "\<forall>j<length (entries st). same_eid (eid (entries st ! j)) (eid item) \<longrightarrow> j = i"
    and "k = assignee_index (entries st ! i)"
  shows "if k < length (entries st)
         then \<exists>st'. remove_assignment item st = Inr st' \<and>
                entries st' = (if assignee_index (entries st ! k) = assignee_index item
                               then remove_nth k (entries st) else entries st)
         else remove_assignment item st = Inl Undef"
proof -
  have d: "dyn_ok (assignments st)" using assms(1) by (simp add: tables_ok_def)
  have ex: "exact_sort st (eid item) = Some (SORTING_ONE, Some k, eid item)"
    using exact_sort_present [OF assms(1-8)] assms(9) by simp
  show ?thesis
  proof (cases "k < length (entries st)")
    case True
    then have k: "k < ctr (assignments st)" using assms(1) by (simp add: length_entries)
    with d have "live_cell (assignments st) k = Some (entries st ! k)"
      by (simp add: live_cell_ok entries_def)
    with ex True d k show ?thesis
      by (auto simp: remove_assignment_def tables_ok_upd dyn_simps) (simp_all add: entries_def)
  next
    case False
    then have "live_cell (assignments st) k = None"
      using assms(1) by (simp add: length_entries live_cell_dead)
    with ex False show ?thesis by (simp add: remove_assignment_def)
  qed
qed

theorem remove_assignment_present_removes_assignee_slot_witness:
  "\<exists>st'. remove_assignment \<lparr>eid = mapped [10, 0, 0, 0] 8, assignee_index = 1\<rparr> crossed_tables =
       Inr st' \<and> entries st' = [\<lparr>eid = mapped [10, 0, 0, 0] 8, assignee_index = 0\<rparr>]"
  using remove_assignment_present_removes_assignee_slot [of crossed_tables
      "\<lparr>eid = mapped [10, 0, 0, 0] 8, assignee_index = 1\<rparr>" 1 0]
  by (simp add: mapped_wf mapped_not_special same_eid_mapped less_Suc_eq remove_nth_def)

text \<open>
  \<open>remove_assignee\<close> always terminates without a fault, returns 0, and leaves exactly the
  entries of the other assignees, in their order.
\<close>

theorem remove_assignee_filters:
  assumes "tables_ok st"
  shows "\<exists>st'. remove_assignee k st = Inr (0, st') \<and> tables_ok st' \<and> planes st' = planes st \<and>
    entries st' = filter (\<lambda>a. assignee_index a \<noteq> k) (entries st)"
proof -
  from assms have "dyn_ok (assignments st)" by (simp add: tables_ok_def)
  from remove_assignee_loop_eq [OF this, of 0 k] obtain d where
    "remove_assignee_loop k 0 (assignments st) = Inr d" "dyn_ok d"
    "dyn_list d = filter (\<lambda>a. assignee_index a \<noteq> k) (entries st)"
    by (auto simp: entries_def)
  with assms show ?thesis
    by (simp add: remove_assignee_def tables_ok_upd)
qed

theorem remove_assignee_filters_witness:
  "\<exists>st'. remove_assignee 1 crossed_tables = Inr (0, st') \<and>
     entries st' = [\<lparr>eid = mapped [10, 0, 0, 0] 8, assignee_index = 0\<rparr>]"
  using remove_assignee_filters [of crossed_tables 1] by auto

end
