(* ===== verification/Hv_State.thy ===== *)
theory Hv_State
  imports Hv_Assignments
begin

text \<open>
  The state the hypervisor's threads share and what they do to the world. Each handler returns
  the new state and the list of its externally visible actions, in order: taking and releasing
  the two read-write locks, writing a shared table, and the system calls that send something.
  What a system call answers is an argument of the handler. \<open>fatal()\<close> and undefined accesses end
  the handler with a fault.
\<close>

datatype lock = CONTROL_PLANES_LOCK | ASSIGNMENTS_LOCK

datatype event =
    RdLock lock
  | WrLock lock
  | Unlock lock
  | TableWrite lock
  | Bind int string
  | Chmod string
  | Connect int string
  | SendAck int "int list"
  | Ping
  | Warn
  | SendRaw "byte list" sockaddr_in
  | WriteSocket int "byte list"
  | WriteMap "byte list"

record pollfd =
  fd :: int
  pollin :: bool

record hv_state =
  tables :: hv_tables
  ping_connected :: bool
  ipv4_controlpackets_socket :: int
  ipv6_controlpackets_socket :: int
  mmm_poll :: "pollfd dyn"

type_synonym 'a handler = "fault + 'a \<times> event list"

text \<open>Sequencing: the actions of the first part come first, a fault ends the handler.\<close>

definition andthen :: "'a handler \<Rightarrow> ('a \<Rightarrow> 'b handler) \<Rightarrow> 'b handler" where
  "andthen m f = (case m of Inl e \<Rightarrow> Inl e
     | Inr (x, evs) \<Rightarrow> (case f x of Inl e \<Rightarrow> Inl e | Inr (y, evs') \<Rightarrow> Inr (y, evs @ evs')))"

definition emit :: "event list \<Rightarrow> 'a \<Rightarrow> 'a handler" where
  "emit evs x = Inr (x, evs)"

definition fatal_if :: "bool \<Rightarrow> 'a handler \<Rightarrow> 'a handler" where
  "fatal_if c m = (if c then Inl Fatal else m)"

lemma andthen_Inr:
  "andthen m f = Inr (y, evs) \<longleftrightarrow>
     (\<exists>x e1 e2. m = Inr (x, e1) \<and> f x = Inr (y, e2) \<and> evs = e1 @ e2)"
  by (auto simp: andthen_def split: sum.splits)

lemma emit_Inr: "emit evs x = Inr (y, evs') \<longleftrightarrow> y = x \<and> evs' = evs"
  by (auto simp: emit_def)

lemma andthen_Inl:
  "andthen m f = Inl e \<longleftrightarrow> m = Inl e \<or> (\<exists>x e1. m = Inr (x, e1) \<and> f x = Inl e)"
  by (auto simp: andthen_def split: sum.splits)

lemma fatal_if_Inr: "fatal_if c m = Inr r \<longleftrightarrow> \<not> c \<and> m = Inr r"
  by (simp add: fatal_if_def)

lemma emit_Inl [simp]: "emit evs x \<noteq> Inl e"
  by (simp add: emit_def)

lemma fatal_if_Inl: "fatal_if c m = Inl e \<longleftrightarrow> (if c then e = Fatal else m = Inl e)"
  by (auto simp: fatal_if_def)

lemmas handler_Inr = andthen_Inr emit_Inr fatal_if_Inr
lemmas handler_Inl = andthen_Inl emit_Inl fatal_if_Inl

section \<open>The lock discipline\<close>

text \<open>
  The comments of the sources require the write lock of a table for every operation that changes
  it. \<open>guarded\<close> replays a handler's actions: \<open>w\<close> and \<open>r\<close> are the locks held for writing and for
  reading.
\<close>

fun guarded :: "lock set \<Rightarrow> lock set \<Rightarrow> event list \<Rightarrow> bool" where
  "guarded w r [] \<longleftrightarrow> w = {} \<and> r = {}"
| "guarded w r (RdLock l # es) \<longleftrightarrow> l \<notin> w \<and> guarded w (insert l r) es"
| "guarded w r (WrLock l # es) \<longleftrightarrow> l \<notin> w \<and> l \<notin> r \<and> guarded (insert l w) r es"
| "guarded w r (Unlock l # es) \<longleftrightarrow> (l \<in> w \<or> l \<in> r) \<and> guarded (w - {l}) (r - {l}) es"
| "guarded w r (TableWrite l # es) \<longleftrightarrow> l \<in> w \<and> guarded w r es"
| "guarded w r (_ # es) \<longleftrightarrow> guarded w r es"

end
