(* ===== verification/Hv_Register.thy ===== *)
theory Hv_Register
  imports Hv_State
begin

text \<open>
  \<open>controlplanes/register.c\<close>: the eastbound server that control planes register with. The sizes
  of the message structure and of \<open>sun_path\<close> come from the system headers and are parameters
  (\<open>msg_size\<close>, \<open>sun_path_size\<close>); \<open>reg_env\<close> holds what the system calls of one handler answer.
\<close>

record reg_message =
  action :: int
  sun_path :: string
  reg_port :: u16
  reg_pid :: int

record reg_env =
  socket_r :: int
  bind_r :: int
  chmod_r :: int
  connect_r :: int
  sendmsg_r :: int
  ping_connect_r :: int
  ping_write_r :: int

definition ACTION_REGISTER :: int where
  "ACTION_REGISTER = 0"

definition ACTION_DEREGISTER :: int where
  "ACTION_DEREGISTER = 1"

definition POLL_UPDATE_PATH :: string where
  "POLL_UPDATE_PATH = ''/var/hylisphv/sockets/poll_update''"

definition ping_mmm :: "reg_env \<Rightarrow> hv_state \<Rightarrow> hv_state handler" where
  "ping_mmm env s =
     andthen
       (if ping_connected s then emit [] s
        else fatal_if (ping_connect_r env < 0)
          (emit [Connect (-1) POLL_UPDATE_PATH] (s\<lparr>ping_connected := True\<rparr>)))
       (emit (if ping_write_r env < 0 then [Ping, Warn] else [Ping]))"

text \<open>The descriptors of the listening sockets are passed to the new plane: one, or both when
  there is an IPv6 listener.\<close>

definition ack_registration :: "reg_env \<Rightarrow> int \<Rightarrow> hv_state \<Rightarrow> hv_state handler" where
  "ack_registration env sd s =
     (let number_of_sockets = (if 0 \<le> ipv6_controlpackets_socket s then 2 else 1);
          cmsg_data = [ipv4_controlpackets_socket s, ipv6_controlpackets_socket s]
      in fatal_if (sendmsg_r env < 0) (emit [SendAck sd (take number_of_sockets cmsg_data)] s))"

definition register_control_plane ::
  "nat \<Rightarrow> reg_env \<Rightarrow> reg_message \<Rightarrow> hv_state \<Rightarrow> hv_state handler" where
  "register_control_plane sun_path_size env msg s =
     (let st = tables s;
          new_id = control_planes_autoindex st;
          st = st\<lparr>control_planes_autoindex := new_id + 1\<rparr>;
          local_path = sun_path msg @ ''_r''
      in fatal_if (socket_r env < 0)
        (if sun_path_size \<le> length local_path then Inl Undef
         else fatal_if (bind_r env < 0 \<or> chmod_r env < 0 \<or> connect_r env < 0)
           (case add_control_plane
                   \<lparr>id_of = new_id, socket_descriptor = socket_r env, port = reg_port msg,
                    pid = reg_pid msg\<rparr> (control_planes st) of
              Inl f \<Rightarrow> Inl f
            | Inr (_, d) \<Rightarrow>
                andthen
                  (emit [WrLock CONTROL_PLANES_LOCK, Bind (socket_r env) local_path,
                         Chmod local_path, Connect (socket_r env) (sun_path msg),
                         TableWrite CONTROL_PLANES_LOCK, Unlock CONTROL_PLANES_LOCK]
                     (s\<lparr>tables := st\<lparr>control_planes := d\<rparr>\<rparr>))
                  (\<lambda>s. andthen (ack_registration env (socket_r env) s) (ping_mmm env)))))"

text \<open>The loop that looks the port up.\<close>

fun find_port :: "u16 \<Rightarrow> control_plane list \<Rightarrow> nat" where
  "find_port p [] = 0"
| "find_port p (cp # cps) = (if port cp = p then 0 else Suc (find_port p cps))"

text \<open>
  The two guarded steps of \<open>deregister_control_plane\<close>. \<open>control_planes_ctr\<close> is read again, after
  \<open>remove_control_plane\<close> decremented it, to decide whether to call \<open>remove_assignee\<close>; and the
  argument of that call is the identifier of the removed plane.
\<close>

definition drop_plane :: "nat \<Rightarrow> hv_tables \<Rightarrow> fault + (u32 \<times> hv_tables) \<times> event list" where
  "drop_plane i st =
     (if i < ctr (control_planes st)
      then (case remove_control_plane i (control_planes st) of
              Inl f \<Rightarrow> Inl f
            | Inr (old_id, d) \<Rightarrow>
                Inr ((old_id, st\<lparr>control_planes := d\<rparr>), [TableWrite CONTROL_PLANES_LOCK]))
      else Inr ((0, st), []))"

definition drop_assignments :: "nat \<Rightarrow> u32 \<Rightarrow> hv_tables \<Rightarrow> hv_tables handler" where
  "drop_assignments i old_id st =
     (if i < ctr (control_planes st)
      then (case remove_assignee (unat old_id) st of
              Inl f \<Rightarrow> Inl f
            | Inr (_, st) \<Rightarrow> Inr (st, [TableWrite ASSIGNMENTS_LOCK]))
      else Inr (st, []))"

definition deregister_control_plane ::
  "reg_env \<Rightarrow> reg_message \<Rightarrow> hv_state \<Rightarrow> hv_state handler" where
  "deregister_control_plane env msg s =
     (let i = find_port (reg_port msg) (planes (tables s))
      in andthen (emit [WrLock CONTROL_PLANES_LOCK] (tables s))
        (\<lambda>st. andthen (drop_plane i st)
          (\<lambda>(old_id, st). andthen (emit [Unlock CONTROL_PLANES_LOCK, WrLock ASSIGNMENTS_LOCK] st)
            (\<lambda>st. andthen (drop_assignments i old_id st)
              (\<lambda>st. andthen (emit [Unlock ASSIGNMENTS_LOCK] (s\<lparr>tables := st\<rparr>))
                (ping_mmm env))))))"

text \<open>One turn of the loop of \<open>start_registering_server\<close>: \<open>msg_len\<close> is what \<open>recv\<close> returned and
  \<open>msg\<close> the buffer read as a message.\<close>

definition registering_server_turn ::
  "nat \<Rightarrow> int \<Rightarrow> reg_env \<Rightarrow> int \<Rightarrow> reg_message \<Rightarrow> hv_state \<Rightarrow> hv_state handler" where
  "registering_server_turn sun_path_size msg_size env msg_len msg s =
     fatal_if (msg_len < 0)
       (if msg_len = msg_size then
          (if action msg = ACTION_REGISTER then register_control_plane sun_path_size env msg s
           else if action msg = ACTION_DEREGISTER then deregister_control_plane env msg s
           else emit [] s)
        else emit [] s)"

text \<open>The tables the server starts with.\<close>

definition initial_tables :: "hv_tables \<Rightarrow> hv_tables" where
  "initial_tables garbage =
     init_assignments (init_control_planes
       (garbage\<lparr>control_planes_def := 0, control_planes_autoindex := 0\<rparr>))"

section \<open>Lemmas\<close>

lemma find_port_le: "find_port p cps \<le> length cps"
  by (induction cps) auto

lemma find_port_less: "find_port p cps < length cps \<longleftrightarrow> (\<exists>cp\<in>set cps. port cp = p)"
  by (induction cps) auto

lemma find_port_hit:
  "find_port p cps < length cps \<Longrightarrow> port (cps ! find_port p cps) = p \<and>
     (\<forall>j<find_port p cps. port (cps ! j) \<noteq> p)"
  by (induction cps) (auto simp: less_Suc_eq_0_disj)

lemma tables_ok_cp_upd:
  "tables_ok st \<Longrightarrow> dyn_ok d \<Longrightarrow> tables_ok (st\<lparr>control_planes := d\<rparr>)"
  "planes (st\<lparr>control_planes := d\<rparr>) = dyn_list d"
  "entries (st\<lparr>control_planes := d\<rparr>) = entries st"
  "tables_ok (st\<lparr>control_planes_autoindex := n\<rparr>) = tables_ok st"
  "planes (st\<lparr>control_planes_autoindex := n\<rparr>) = planes st"
  "entries (st\<lparr>control_planes_autoindex := n\<rparr>) = entries st"
  by (simp_all add: tables_ok_def planes_def entries_def)

lemma initial_tables_simps [simp]:
  "tables_ok (initial_tables g)" "planes (initial_tables g) = []" "entries (initial_tables g) = []"
  "control_planes_autoindex (initial_tables g) = 0" "control_planes_def (initial_tables g) = 0"
  by (simp_all add: initial_tables_def init_assignments_def init_control_planes_def tables_ok_def
    planes_def entries_def dyn_simps ASG_ARRAY_INIT_def CP_ARRAY_INIT_def)

lemma ping_mmm_tables: "ping_mmm env s = Inr (s', evs) \<Longrightarrow> s' = s\<lparr>ping_connected := True\<rparr>"
  by (auto simp: ping_mmm_def handler_Inr split: if_splits)

lemma ping_mmm_guarded: "ping_mmm env s = Inr (s', evs) \<Longrightarrow> guarded {} {} evs"
  by (auto simp: ping_mmm_def handler_Inr split: if_splits)

lemma register_control_plane_Inr:
  assumes "tables_ok (tables s)" and "register_control_plane n env msg s = Inr (s', evs)"
  shows "tables_ok (tables s') \<and> entries (tables s') = entries (tables s) \<and>
    control_planes_def (tables s') = control_planes_def (tables s) \<and>
    control_planes_autoindex (tables s') = control_planes_autoindex (tables s) + 1 \<and>
    planes (tables s') = planes (tables s) @
      [\<lparr>id_of = control_planes_autoindex (tables s), socket_descriptor = socket_r env,
        port = reg_port msg, pid = reg_pid msg\<rparr>] \<and> mmm_poll s' = mmm_poll s"
proof -
  define cp where "cp = \<lparr>id_of = control_planes_autoindex (tables s),
    socket_descriptor = socket_r env, port = reg_port msg, pid = reg_pid msg\<rparr>"
  have "dyn_ok (control_planes (tables s))" using assms(1) by (simp add: tables_ok_def)
  from add_control_plane_ok [OF this, of cp] obtain d where
    "add_control_plane cp (control_planes (tables s)) = Inr (length (planes (tables s)), d)"
    "dyn_ok d" "dyn_list d = planes (tables s) @ [cp]"
    by (auto simp: planes_def)
  with assms show ?thesis
    by (auto simp: register_control_plane_def Let_def cp_def [symmetric] handler_Inr
        ack_registration_def tables_ok_cp_upd dest!: ping_mmm_tables split: if_splits)
qed

lemma register_control_plane_guarded:
  assumes "register_control_plane n env msg s = Inr (s', evs)"
  shows "guarded {} {} evs"
  using assms
  by (auto simp: register_control_plane_def Let_def handler_Inr
      ack_registration_def dest!: ping_mmm_guarded split: if_splits sum.splits)

lemma guarded_append:
  "guarded w r es \<Longrightarrow> guarded {} {} es' \<Longrightarrow> guarded w r (es @ es')"
  by (induction w r es rule: guarded.induct) auto

lemma drop_plane_eq:
  assumes "tables_ok st"
  shows "\<exists>st' evs. drop_plane i st = Inr ((if i < length (planes st) then id_of (planes st ! i) else 0, st'), evs) \<and>
    tables_ok st' \<and> control_planes_def st' = control_planes_def st \<and> entries st' = entries st \<and>
    planes st' = (if i < length (planes st) then remove_nth i (planes st) else planes st) \<and>
    (evs = [] \<or> evs = [TableWrite CONTROL_PLANES_LOCK])"
  using assms length_planes [OF assms]
  by (auto simp: drop_plane_def remove_control_plane_live tables_ok_cp_upd dyn_simps)
     (auto simp: tables_ok_def planes_def remove_control_plane_live dyn_simps entries_def)

lemma drop_assignments_eq:
  assumes "tables_ok st"
  shows "\<exists>st' evs. drop_assignments i k st = Inr (st', evs) \<and>
    tables_ok st' \<and> control_planes_def st' = control_planes_def st \<and> planes st' = planes st \<and>
    entries st' = (if i < length (planes st)
      then filter (\<lambda>a. assignee_index a \<noteq> unat k) (entries st) else entries st) \<and>
    (evs = [] \<or> evs = [TableWrite ASSIGNMENTS_LOCK])"
proof -
  have "dyn_ok (assignments st)" using assms by (simp add: tables_ok_def)
  from remove_assignee_loop_eq [OF this, of 0 "unat k"] obtain d where
    "remove_assignee_loop (unat k) 0 (assignments st) = Inr d" "dyn_ok d"
    "dyn_list d = filter (\<lambda>a. assignee_index a \<noteq> unat k) (entries st)" by (auto simp: entries_def)
  with assms show ?thesis
    by (simp add: drop_assignments_def remove_assignee_def tables_ok_upd length_planes)
qed

lemma ping_mmm_Inr:
  "\<not> (ping_connect_r env < 0 \<and> \<not> ping_connected s) \<Longrightarrow>
   \<exists>evs. ping_mmm env s = Inr (s\<lparr>ping_connected := True\<rparr>, evs) \<and> guarded {} {} evs"
  by (cases s) (auto simp: ping_mmm_def emit_def andthen_def fatal_if_def)

lemma ping_mmm_Inl:
  "ping_connect_r env < 0 \<Longrightarrow> \<not> ping_connected s \<Longrightarrow> ping_mmm env s = Inl Fatal"
  by (simp add: ping_mmm_def handler_Inl)

lemma deregister_effect:
  assumes "tables_ok (tables s)" and "i = find_port (reg_port msg) (planes (tables s))"
    and "\<not> (ping_connect_r env < 0 \<and> \<not> ping_connected s)"
  shows "\<exists>s' evs. deregister_control_plane env msg s = Inr (s', evs) \<and>
     tables_ok (tables s') \<and> guarded {} {} evs \<and> mmm_poll s' = mmm_poll s \<and>
     control_planes_def (tables s') = control_planes_def (tables s) \<and>
     planes (tables s') = (if i < length (planes (tables s)) then remove_nth i (planes (tables s))
       else planes (tables s)) \<and>
     entries (tables s') =
       (if Suc i < length (planes (tables s))
        then filter (\<lambda>a. assignee_index a \<noteq> unat (id_of (planes (tables s) ! i))) (entries (tables s))
        else entries (tables s))"
proof -
  define n where "n = length (planes (tables s))"
  define k where "k = (if i < n then id_of (planes (tables s) ! i) else 0)"
  from drop_plane_eq [OF assms(1), of i] obtain st1 e1 where
    1: "drop_plane i (tables s) = Inr ((k, st1), e1)" "tables_ok st1"
      "control_planes_def st1 = control_planes_def (tables s)" "entries st1 = entries (tables s)"
      "planes st1 = (if i < n then remove_nth i (planes (tables s)) else planes (tables s))"
      "e1 = [] \<or> e1 = [TableWrite CONTROL_PLANES_LOCK]" by (auto simp: n_def k_def)
  have len: "i < length (planes st1) \<longleftrightarrow> Suc i < n"
    using 1(5) by (auto simp: n_def dyn_simps)
  from drop_assignments_eq [OF 1(2), of i k] obtain st2 e2 where
    2: "drop_assignments i k st1 = Inr (st2, e2)" "tables_ok st2"
      "control_planes_def st2 = control_planes_def st1" "planes st2 = planes st1"
      "entries st2 = (if Suc i < n then filter (\<lambda>a. assignee_index a \<noteq> unat k) (entries st1)
        else entries st1)" "e2 = [] \<or> e2 = [TableWrite ASSIGNMENTS_LOCK]" by (auto simp: len)
  from ping_mmm_Inr [of env "s\<lparr>tables := st2\<rparr>"] assms(3) obtain e3 where
    3: "ping_mmm env (s\<lparr>tables := st2\<rparr>) = Inr (s\<lparr>tables := st2, ping_connected := True\<rparr>, e3)"
      "guarded {} {} e3" by auto
  have "deregister_control_plane env msg s = Inr (s\<lparr>tables := st2, ping_connected := True\<rparr>,
      [WrLock CONTROL_PLANES_LOCK] @ e1 @ [Unlock CONTROL_PLANES_LOCK, WrLock ASSIGNMENTS_LOCK] @
      e2 @ [Unlock ASSIGNMENTS_LOCK] @ e3)"
    using 1(1) 2(1) 3(1)
    by (simp add: deregister_control_plane_def Let_def assms(2) [symmetric] andthen_def emit_def)
  moreover have "guarded {} {} ([WrLock CONTROL_PLANES_LOCK] @ e1 @
      [Unlock CONTROL_PLANES_LOCK, WrLock ASSIGNMENTS_LOCK] @ e2 @ [Unlock ASSIGNMENTS_LOCK] @ e3)"
    using 1(6) 2(6) 3(2) by auto
  ultimately show ?thesis
    using 1 2 by (auto simp: n_def k_def)
qed

section \<open>Properties\<close>

definition sample_env :: reg_env where
  "sample_env = \<lparr>socket_r = 9, bind_r = 0, chmod_r = 0, connect_r = 0, sendmsg_r = 3,
     ping_connect_r = 0, ping_write_r = 6\<rparr>"

definition sample_state :: hv_state where
  "sample_state = \<lparr>tables = sample_tables, ping_connected = False,
     ipv4_controlpackets_socket = 4, ipv6_controlpackets_socket = -1,
     mmm_poll = dyn_of 16 [\<lparr>fd = 3, pollin = False\<rparr>]\<rparr>"

definition sample_msg :: "u16 \<Rightarrow> reg_message" where
  "sample_msg p = \<lparr>action = 0, sun_path = ''/s/cp_1'', reg_port = p, reg_pid = 77\<rparr>"

text \<open>
  A registration that goes through appends the new control plane, with the next identifier,
  at the end of the table, advances the identifier counter, leaves the assignments alone, and
  writes the table only under its write lock, releasing every lock it takes.
\<close>

theorem register_appends_plane:
  assumes "tables_ok (tables s)"
    and "register_control_plane n env msg s = Inr (s', evs)"
  shows "planes (tables s') = planes (tables s) @
      [\<lparr>id_of = control_planes_autoindex (tables s), socket_descriptor = socket_r env,
        port = reg_port msg, pid = reg_pid msg\<rparr>] \<and>
    control_planes_autoindex (tables s') = control_planes_autoindex (tables s) + 1 \<and>
    tables_ok (tables s') \<and> entries (tables s') = entries (tables s) \<and> guarded {} {} evs"
  using register_control_plane_Inr [OF assms] register_control_plane_guarded [OF assms(2)] by auto

theorem register_appends_plane_witness:
  "\<exists>s' evs. register_control_plane 104 sample_env (sample_msg 5002) sample_state = Inr (s', evs) \<and>
     length (planes (tables s')) = 3 \<and> guarded {} {} evs"
proof -
  have "dyn_ok (control_planes sample_tables)" using sample_ok by (simp add: tables_ok_def)
  from add_control_plane_ok [OF this] obtain d where
    "add_control_plane \<lparr>id_of = 2, socket_descriptor = 9, port = 5002, pid = 77\<rparr>
       (control_planes sample_tables) = Inr (length (dyn_list (control_planes sample_tables)), d)"
    by blast
  then obtain s' evs where
    r: "register_control_plane 104 sample_env (sample_msg 5002) sample_state = Inr (s', evs)"
    by (simp add: register_control_plane_def sample_env_def sample_msg_def sample_state_def
      sample_tables_def Let_def fatal_if_def andthen_def emit_def ack_registration_def ping_mmm_def)
  have "tables_ok (tables sample_state)" by (simp add: sample_state_def)
  from register_appends_plane [OF this r] r show ?thesis by (auto simp: sample_state_def)
qed

text \<open>
  Deregistering a port never makes an undefined access. It removes the first control plane
  with that port; the assignments are purged only when that plane was not the last of the table,
  and the purged ones are those whose assignee index equals the removed plane's identifier.
\<close>

theorem deregister_removes_first_with_port:
  assumes "tables_ok (tables s)" and "i = find_port (reg_port msg) (planes (tables s))"
    and "\<not> (ping_connect_r env < 0 \<and> \<not> ping_connected s)"
  shows "\<exists>s' evs. deregister_control_plane env msg s = Inr (s', evs) \<and> tables_ok (tables s') \<and>
    guarded {} {} evs \<and>
    planes (tables s') = take i (planes (tables s)) @ drop (Suc i) (planes (tables s)) \<and>
    entries (tables s') =
      (if Suc i < length (planes (tables s))
       then filter (\<lambda>a. assignee_index a \<noteq> unat (id_of (planes (tables s) ! i))) (entries (tables s))
       else entries (tables s))"
proof -
  have "\<not> i < length (planes (tables s)) \<Longrightarrow>
      take i (planes (tables s)) @ drop (Suc i) (planes (tables s)) = planes (tables s)" by simp
  with deregister_effect [OF assms] show ?thesis
    by (auto simp: remove_nth_def split: if_splits)
qed

theorem deregister_removes_first_with_port_witness:
  "\<exists>s' evs. deregister_control_plane sample_env (sample_msg 5000)
       sample_state = Inr (s', evs) \<and>
     planes (tables s') = [sample_plane\<lparr>id_of := 1, port := 5001\<rparr>]"
  using deregister_removes_first_with_port [of sample_state 0 "sample_msg 5000" sample_env]
  by (auto simp: sample_state_def sample_msg_def sample_plane_def sample_env_def)

end
