(* ===== verification/Map_Msg.thy ===== *)
theory Map_Msg
  imports Prelude
begin

text \<open>
  The messages of the mapping socket, as the kernel patch declares them (\<open>net/lisp/maptables.h\<close> in
  \<open>hylisp-dp/core.patch\<close>, repeated in part by \<open>parsemessage.c\<close>). The header is \<open>struct map_msghdr\<close>, 28 bytes:
  \<open>map_msglen\<close> at 0, \<open>map_version\<close> at 1, \<open>map_type\<close> at 2, \<open>map_flags\<close> at 4, \<open>map_addrs\<close> at 8, \<open>map_versioning\<close>
  at 10, \<open>map_rloc_count\<close> at 12, \<open>map_pid\<close> at 16, \<open>map_seq\<close> at 20 and \<open>map_errno\<close> at 24.
\<close>

definition MAPM_VERSION :: u16 where "MAPM_VERSION = 1"

definition MAPM_ADD :: u16 where "MAPM_ADD = 1"
definition MAPM_DELETE :: u16 where "MAPM_DELETE = 2"
definition MAPM_GET :: u16 where "MAPM_GET = 4"
definition MAPM_MISS_EID :: u16 where "MAPM_MISS_EID = 6"
definition MAPM_MISS_HEADER :: u16 where "MAPM_MISS_HEADER = 7"
definition MAPM_MISS_PACKET :: u16 where "MAPM_MISS_PACKET = 8"

definition MAPA_EID :: u16 where "MAPA_EID = 1"
definition MAPA_EIDMASK :: u16 where "MAPA_EIDMASK = 2"
definition MAPA_RLOC :: u16 where "MAPA_RLOC = 4"

definition MAPF_DB :: u32 where "MAPF_DB = 1"
definition MAPF_STATIC :: u32 where "MAPF_STATIC = 8"
definition MAPF_UP :: u32 where "MAPF_UP = 16"
definition MAPF_ALL :: u32 where "MAPF_ALL = 32"
definition MAPF_NEGATIVE :: u32 where "MAPF_NEGATIVE = 128"
definition MAPF_DONE :: u32 where "MAPF_DONE = 256"

definition RLOCF_UP :: u16 where "RLOCF_UP = 1"
definition RLOCF_LIF :: u16 where "RLOCF_LIF = 2"

text \<open>\<open>sizeof(struct map_msghdr)\<close> and \<open>sizeof(struct rloc_mtx)\<close>: priority, weight, flags, MTU, two nonces.\<close>

definition sizeof_map_msghdr :: nat where "sizeof_map_msghdr = 28"
definition sizeof_rloc_mtx :: nat where "sizeof_rloc_mtx = 16"

lemmas map_msg_defs = MAPM_ADD_def MAPM_DELETE_def MAPM_MISS_HEADER_def MAPA_EID_def
  MAPA_EIDMASK_def sizeof_map_msghdr_def

lemmas map_flag_defs = MAPF_DB_def MAPF_STATIC_def MAPF_UP_def MAPF_ALL_def MAPF_NEGATIVE_def MAPF_DONE_def

end
