(* ===== verification/Hv_Parse_Message.thy ===== *)
theory Hv_Parse_Message
  imports Hv_Common Map_Msg
begin

text \<open>
  \<open>mapmessages/parsemessage.c\<close>: type, flags and significant EID of a mapping-socket message. The
  header is that of \<open>Map_Msg\<close>. How a socket address shows its family and how far the next one is
  (\<open>SA_SIZE\<close>) depend on the system headers and are fields of \<open>sockaddr_abi\<close>; the fallback that the
  source defines itself is \<open>linux_abi\<close>. \<open>sin_addr\<close> is at 4 and \<open>sin6_addr\<close> at 8 on both systems.
\<close>

record sockaddr_abi =
  ss_family :: "byte list \<Rightarrow> nat option"
  SA_SIZE :: "byte list \<Rightarrow> nat option"
  AF_INET :: nat
  AF_INET6 :: nat

definition linux_abi :: sockaddr_abi where
  "linux_abi =
     \<lparr>ss_family = (\<lambda>p. map_option unat (rd16le p 0)),
      SA_SIZE = (\<lambda>p. map_option (\<lambda>f. if unat f = 2 then 16 else 32) (rd16le p 0)),
      AF_INET = 2, AF_INET6 = 10\<rparr>"

text \<open>What the parser needs of the system: an address of 16 bytes has a family and a size, the
  size is at most the 256 bytes an 8-bit length can reach.\<close>

definition abi_ok :: "sockaddr_abi \<Rightarrow> bool" where
  "abi_ok abi \<longleftrightarrow> (\<forall>p. 16 \<le> length p \<longrightarrow>
     (\<exists>f. ss_family abi p = Some f) \<and> (\<exists>n. SA_SIZE abi p = Some n \<and> n \<le> 256))"

definition extract_type_mm :: "byte list \<Rightarrow> u16 option" where
  "extract_type_mm buf = rd16le buf 2"

definition extract_flags_mm :: "byte list \<Rightarrow> u32 option" where
  "extract_flags_mm buf = rd32le buf 4"

text \<open>The inner loop of the mask parsers: at most seven bits, from the top.\<close>

fun mask_bits :: "nat \<Rightarrow> byte \<Rightarrow> byte \<Rightarrow> byte \<Rightarrow> byte" where
  "mask_bits 0 bit_window b len = len"
| "mask_bits (Suc j) bit_window b len =
     (if b AND bit_window \<noteq> 0 then mask_bits j (drop_bit 1 bit_window) b (len + 1) else len)"

text \<open>The outer loop: \<open>n\<close> bytes are left at \<open>ptr\<close>, and \<open>len\<close> is the length up to them.\<close>

fun mask_bytes :: "byte list \<Rightarrow> nat \<Rightarrow> byte \<Rightarrow> byte option" where
  "mask_bytes ptr 0 len = Some 128"
| "mask_bytes ptr (Suc n) len =
     (case rd8 ptr 0 of
        None \<Rightarrow> None
      | Some b \<Rightarrow> if b = 0xFF then mask_bytes (drop 1 ptr) n (len + 8)
                  else Some (mask_bits 7 0x80 b len))"

definition process_eid_ipv4 :: "sockaddr_abi \<Rightarrow> byte list \<Rightarrow> bool \<Rightarrow> ipv6_prefix option" where
  "process_eid_ipv4 abi raw_eid has_mask = do {
     a \<leftarrow> rdn raw_eid 4 4;
     len \<leftarrow> (if has_mask then do {
               size \<leftarrow> SA_SIZE abi raw_eid;
               mask_bytes (drop (size + 4) raw_eid) 4 96 }
             else Some 128);
     Some \<lparr>prefix = ipv4_mapped a, prefix_length = len, reason = PRFX_ASIS\<rparr> }"

definition process_eid_ipv6 :: "sockaddr_abi \<Rightarrow> byte list \<Rightarrow> bool \<Rightarrow> ipv6_prefix option" where
  "process_eid_ipv6 abi raw_eid has_mask = do {
     a \<leftarrow> rdn raw_eid 8 16;
     len \<leftarrow> (if has_mask then do {
               size \<leftarrow> SA_SIZE abi raw_eid;
               mask_bytes (drop (size + 8) raw_eid) 16 0 }
             else Some 128);
     Some \<lparr>prefix = a, prefix_length = len, reason = PRFX_ASIS\<rparr> }"

definition extract_eid_mm_add_delete :: "sockaddr_abi \<Rightarrow> byte list \<Rightarrow> ipv6_prefix option" where
  "extract_eid_mm_add_delete abi buf = do {
     versioning \<leftarrow> rd16le buf 10;
     if versioning \<noteq> 0 then Some (get_undefined_eid UPRFX_UNKNVER)
     else do {
       addrs \<leftarrow> rd16le buf 8;
       if addrs AND MAPA_EID = 0 then Some (get_undefined_eid UPRFX_NOEID)
       else do {
         let storage_eid = drop sizeof_map_msghdr buf;
         family \<leftarrow> ss_family abi storage_eid;
         if family = AF_INET abi
         then process_eid_ipv4 abi storage_eid (addrs AND MAPA_EIDMASK \<noteq> 0)
         else if family = AF_INET6 abi
         then process_eid_ipv6 abi storage_eid (addrs AND MAPA_EIDMASK \<noteq> 0)
         else Some (get_undefined_eid UPRFX_UNKNIP) } } }"

text \<open>A MISS message carries the IP header of the packet that missed: the source address counts.\<close>

definition extract_eid_mm_missheader :: "sockaddr_abi \<Rightarrow> byte list \<Rightarrow> ipv6_prefix option" where
  "extract_eid_mm_missheader abi buf = do {
     addrs \<leftarrow> rd16le buf 8;
     offset \<leftarrow> (if addrs AND MAPA_EID \<noteq> 0
                then map_option (\<lambda>n. sizeof_map_msghdr + n) (SA_SIZE abi (drop sizeof_map_msghdr buf))
                else Some sizeof_map_msghdr);
     offset \<leftarrow> (if addrs AND MAPA_EIDMASK \<noteq> 0
                then map_option (\<lambda>n. offset + n) (SA_SIZE abi (drop offset buf))
                else Some offset);
     b \<leftarrow> rd8 buf offset;
     if drop_bit 4 b = 4 then do {
       a \<leftarrow> rdn buf (offset + 12) 4;
       Some \<lparr>prefix = ipv4_mapped a, prefix_length = 128, reason = PRFX_ASIS\<rparr> }
     else if drop_bit 4 b = 6 then do {
       a \<leftarrow> rdn buf (offset + 8) 16;
       Some \<lparr>prefix = a, prefix_length = 128, reason = PRFX_ASIS\<rparr> }
     else Some (get_undefined_eid UPRFX_UNKNIP) }"

definition extract_eid_mm :: "sockaddr_abi \<Rightarrow> byte list \<Rightarrow> ipv6_prefix option" where
  "extract_eid_mm abi buf = do {
     versioning \<leftarrow> rd16le buf 10;
     if versioning \<noteq> 0 then Some (get_undefined_eid UPRFX_UNKNVER)
     else do {
       type \<leftarrow> rd16le buf 2;
       if type = MAPM_ADD \<or> type = MAPM_DELETE then extract_eid_mm_add_delete abi buf
       else if type = MAPM_MISS_HEADER then extract_eid_mm_missheader abi buf
       else Some (get_undefined_eid UPRFX_UNKNTYPE) } }"

lemma abi_ok_linux: "abi_ok linux_abi"
  by (auto simp: abi_ok_def linux_abi_def rd16le_in)

lemma linux_abi_AF: "AF_INET linux_abi = 2" "AF_INET6 linux_abi = 10"
  by (simp_all add: linux_abi_def)

section \<open>Masks\<close>

text \<open>The number of leading ones of a mask.\<close>

definition leading_ones :: "byte list \<Rightarrow> nat" where
  "leading_ones m = length (takeWhile (\<lambda>b. b) (bits_of m))"

lemma mask_bits_eq:
  "j < 8 \<Longrightarrow> mask_bits j (push_bit j 1) b len =
     len + of_nat (length (takeWhile (\<lambda>k. bit b k) (rev [1..<Suc j])))"
proof (induction j arbitrary: len)
  case 0
  then show ?case by simp
next
  case (Suc j)
  have "drop_bit 1 (push_bit (Suc j) 1 :: byte) = push_bit j 1"
    using Suc.prems by (intro bit_word_eqI) (auto simp: bit_simps)
  with Suc and_bit_nonzero [of "Suc j" b] show ?case
    by (simp del: push_bit_of_1)
qed

lemma byte_bits_top:
  "b \<noteq> 0xFF \<Longrightarrow> length (takeWhile (\<lambda>k. bit b k) [7, 6, 5, 4, 3, 2, 1]) =
     length (takeWhile (\<lambda>x. x) (byte_bits b))"
proof -
  assume "b \<noteq> 0xFF"
  then have "\<not> (\<forall>k<8. bit b k)"
    by (auto simp: byte_eq_iff all_less_8)
  then show ?thesis by (auto simp: byte_bits_def all_less_8)
qed

lemma mask_positions: "rev [1..<8] = [7, 6, 5, 4, 3, 2, 1]"
  by (simp add: upt_rec numeral_eq_Suc)

lemma mask_bits_byte:
  "b \<noteq> 0xFF \<Longrightarrow> mask_bits 7 0x80 b len = len + of_nat (length (takeWhile (\<lambda>x. x) (byte_bits b)))"
  using mask_bits_eq [of 7 b len] mask_positions
  by (simp add: byte_bits_top [symmetric] del: takeWhile.simps)

lemma byte_bits_ones: "byte_bits 0xFF = replicate 8 True"
  by (simp add: byte_bits_def numeral_eq_Suc)

lemma takeWhile_append_length:
  "length (takeWhile P (xs @ ys)) =
     (if \<forall>x\<in>set xs. P x then length xs + length (takeWhile P ys) else length (takeWhile P xs))"
  by (induction xs) auto

lemma byte_bits_all: "(\<forall>x\<in>set (byte_bits b). x) \<longleftrightarrow> b = 0xFF"
  by (auto simp: byte_bits_def byte_eq_iff all_less_8)

lemma leading_ones_Cons:
  "leading_ones (b # m) =
     (if b = 0xFF then 8 + leading_ones m else length (takeWhile (\<lambda>x. x) (byte_bits b)))"
  by (simp add: leading_ones_def takeWhile_append_length byte_bits_all)

lemma leading_ones_le: "leading_ones m \<le> 8 * length m"
  unfolding leading_ones_def using length_takeWhile_le [of "\<lambda>b. b" "bits_of m"] by simp

lemma mask_bytes_eq:
  "n \<le> length ptr \<Longrightarrow> len + of_nat (8 * n) = 128 \<Longrightarrow>
   mask_bytes ptr n len = Some (len + of_nat (leading_ones (take n ptr)))"
proof (induction ptr n len rule: mask_bytes.induct)
  case (1 ptr len)
  then show ?case by (simp add: leading_ones_def)
next
  case (2 ptr n len)
  then obtain b ptr' where ptr: "ptr = b # ptr'" by (cases ptr) auto
  show ?case
  proof (cases "b = 0xFF")
    case True
    have "len + 8 + of_nat (8 * n) = 128" using 2(3) by (simp add: ac_simps)
    with 2(1) [of b] 2(2) True ptr show ?thesis
      by (simp add: rd8_def leading_ones_Cons ac_simps)
  next
    case False
    with ptr show ?thesis by (simp add: rd8_def leading_ones_Cons mask_bits_byte)
  qed
qed

lemma mask_length_bound:
  "unat (len :: byte) + 8 * n \<le> 128 \<Longrightarrow> k \<le> 8 * n \<Longrightarrow>
   len + of_nat k \<le> 128 \<and> unat (len + of_nat k) = unat len + k"
  by (simp add: word_le_nat_alt unat_word_ariths unat_of_nat)

section \<open>Bounds\<close>

lemma process_eid_total:
  assumes "abi_ok abi" and "300 \<le> length p"
  shows "\<exists>e. process_eid_ipv4 abi p h = Some e \<and> wf_eid e"
    and "\<exists>e. process_eid_ipv6 abi p h = Some e \<and> wf_eid e"
proof -
  have "16 \<le> length p" using assms(2) by simp
  with assms(1) obtain n where n: "SA_SIZE abi p = Some n" "n \<le> 256"
    unfolding abi_ok_def by blast
  have m4: "mask_bytes (drop (n + 4) p) 4 96 =
      Some (96 + of_nat (leading_ones (take 4 (drop (n + 4) p))))"
    by (rule mask_bytes_eq) (use n assms in auto)
  have m6: "mask_bytes (drop (n + 8) p) 16 0 =
      Some (0 + of_nat (leading_ones (take 16 (drop (n + 8) p))))"
    by (rule mask_bytes_eq) (use n assms in auto)
  have b4: "96 + of_nat (leading_ones (take 4 (drop (n + 4) p))) \<le> (128 :: byte)"
    using mask_length_bound [of 96 4] leading_ones_le [of "take 4 (drop (n + 4) p)"] n assms by simp
  have b6: "of_nat (leading_ones (take 16 (drop (n + 8) p))) \<le> (128 :: byte)"
    using mask_length_bound [of 0 16] leading_ones_le [of "take 16 (drop (n + 8) p)"] n assms by simp
  show "\<exists>e. process_eid_ipv4 abi p h = Some e \<and> wf_eid e"
    using n m4 b4 assms(2) by (simp add: process_eid_ipv4_def rdn_in wf_eid_def)
  show "\<exists>e. process_eid_ipv6 abi p h = Some e \<and> wf_eid e"
    using n m6 b6 assms(2) by (simp add: process_eid_ipv6_def rdn_in wf_eid_def)
qed

lemma extract_eid_mm_add_delete_total:
  assumes "abi_ok abi" and "600 \<le> length buf"
  shows "\<exists>e. extract_eid_mm_add_delete abi buf = Some e \<and> wf_eid e"
proof -
  have "300 \<le> length (drop sizeof_map_msghdr buf)"
    using assms(2) by (simp add: sizeof_map_msghdr_def)
  note p = process_eid_total [OF assms(1) this]
  have "16 \<le> length (drop sizeof_map_msghdr buf)"
    using assms(2) by (simp add: sizeof_map_msghdr_def)
  with assms(1) obtain f where "ss_family abi (drop sizeof_map_msghdr buf) = Some f"
    unfolding abi_ok_def by blast
  with p assms(2) show ?thesis
    by (auto simp: extract_eid_mm_add_delete_def rd16le_in Let_def)
qed

lemma extract_eid_mm_missheader_total:
  assumes "abi_ok abi" and "600 \<le> length buf"
  shows "\<exists>e. extract_eid_mm_missheader abi buf = Some e \<and> wf_eid e"
proof -
  obtain addrs where addrs: "rd16le buf 8 = Some addrs" using assms(2) by (simp add: rd16le_in)
  have step: "\<exists>o'. (if c then map_option (\<lambda>n. off + n) (SA_SIZE abi (drop off buf)) else Some off) = Some o' \<and>
      o' \<le> off + 256" if off: "off \<le> 284" for c off
  proof -
    have "16 \<le> length (drop off buf)" using assms(2) off by simp
    with assms(1) obtain n where "SA_SIZE abi (drop off buf) = Some n" "n \<le> 256"
      unfolding abi_ok_def by blast
    then show ?thesis by simp
  qed
  from step [of 28 "addrs AND MAPA_EID \<noteq> 0"] obtain o1 where
    o1: "(if addrs AND MAPA_EID \<noteq> 0 then map_option (\<lambda>n. 28 + n) (SA_SIZE abi (drop 28 buf))
      else Some 28) = Some o1" "o1 \<le> 284" by auto
  from step [OF o1(2), of "addrs AND MAPA_EIDMASK \<noteq> 0"] obtain o2 where
    o2: "(if addrs AND MAPA_EIDMASK \<noteq> 0 then map_option (\<lambda>n. o1 + n) (SA_SIZE abi (drop o1 buf))
      else Some o1) = Some o2" "o2 \<le> o1 + 256" by auto
  have "o2 + 24 \<le> length buf" using o1(2) o2(2) assms(2) by simp
  then show ?thesis
    unfolding extract_eid_mm_missheader_def addrs sizeof_map_msghdr_def Option.bind.simps o1(1) o2(1)
    by (auto simp: rd8_in rdn_in wf_eid_def get_undefined_eid_def)
qed

lemma extract_eid_mm_total:
  assumes "abi_ok abi" and "600 \<le> length buf"
  shows "\<exists>e. extract_eid_mm abi buf = Some e \<and> wf_eid e"
  using extract_eid_mm_add_delete_total [OF assms] extract_eid_mm_missheader_total [OF assms] assms(2)
  by (auto simp: extract_eid_mm_def rd16le_in)

text \<open>
  C20: every message read into a buffer of the size the hypervisor uses is parsed without a read
  outside the buffer, whatever its contents, its reported length and the address sizes in it; the
  EID has 16 bytes and a length of at most 128.
\<close>

theorem extract_eid_mm_in_bounds:
  assumes "abi_ok abi" and "600 \<le> length buf"
  shows "\<exists>e. extract_eid_mm abi buf = Some e \<and> length (prefix e) = 16 \<and> prefix_length e \<le> 128"
  using extract_eid_mm_total [OF assms] by (auto simp: wf_eid_def)

theorem extract_eid_mm_in_bounds_witness:
  "\<exists>e. extract_eid_mm linux_abi (replicate 8192 7) = Some e \<and> length (prefix e) = 16 \<and>
    prefix_length e \<le> 128"
  using extract_eid_mm_in_bounds [OF abi_ok_linux, of "replicate 8192 7"] by simp

section \<open>Netmasks\<close>

text \<open>The netmask of \<open>k\<close> leading ones in \<open>n\<close> bytes.\<close>

definition netmask :: "nat \<Rightarrow> byte list \<Rightarrow> bool" where
  "netmask k m \<longleftrightarrow> (\<exists>z. bits_of m = replicate k True @ replicate z False)"

lemma leading_ones_netmask: "netmask k m \<Longrightarrow> leading_ones m = k"
  by (auto simp: netmask_def leading_ones_def takeWhile_append_length takeWhile_replicate)

text \<open>
  An ADD or DELETE message that carries an EID and its mask yields that EID, an IPv4 one
  mapped into IPv6, with as many prefix bits as the mask has leading ones (plus the 96 of the
  mapping); for a netmask of \<open>k\<close> ones the length is exactly \<open>k\<close>.
\<close>

theorem extract_eid_mm_reads_netmask:
  assumes "rd16le buf 10 = Some 0" and "rd16le buf 2 \<in> {Some MAPM_ADD, Some MAPM_DELETE}"
    and "rd16le buf 8 = Some addrs" and "addrs AND MAPA_EID \<noteq> 0" and "addrs AND MAPA_EIDMASK \<noteq> 0"
    and "ss_family abi (drop 28 buf) = Some f" and "SA_SIZE abi (drop 28 buf) = Some n"
    and "28 + n + 24 \<le> length buf" and "AF_INET abi \<noteq> AF_INET6 abi"
  shows "(f = AF_INET abi \<and> netmask k (take 4 (drop (28 + n + 4) buf)) \<longrightarrow>
      extract_eid_mm abi buf = Some \<lparr>prefix = ipv4_mapped (take 4 (drop 32 buf)),
        prefix_length = of_nat (96 + k), reason = PRFX_ASIS\<rparr>) \<and>
    (f = AF_INET6 abi \<and> netmask k (take 16 (drop (28 + n + 8) buf)) \<longrightarrow>
      extract_eid_mm abi buf = Some \<lparr>prefix = take 16 (drop 36 buf),
        prefix_length = of_nat k, reason = PRFX_ASIS\<rparr>)"
proof -
  let ?p = "drop 28 buf"
  have m4: "mask_bytes (drop (n + 4) ?p) 4 96 =
      Some (96 + of_nat (leading_ones (take 4 (drop (n + 4) ?p))))"
    by (rule mask_bytes_eq) (use assms in auto)
  have m6: "mask_bytes (drop (n + 8) ?p) 16 0 =
      Some (0 + of_nat (leading_ones (take 16 (drop (n + 8) ?p))))"
    by (rule mask_bytes_eq) (use assms in auto)
  have top: "extract_eid_mm abi buf = (if f = AF_INET abi then process_eid_ipv4 abi ?p True
      else if f = AF_INET6 abi then process_eid_ipv6 abi ?p True
      else Some (get_undefined_eid UPRFX_UNKNIP))"
    using assms by (auto simp: extract_eid_mm_def extract_eid_mm_add_delete_def sizeof_map_msghdr_def)
  show ?thesis
    using m4 m6 assms
    by (auto simp: top process_eid_ipv4_def process_eid_ipv6_def rdn_in ac_simps
      dest: leading_ones_netmask)
qed

text \<open>An ADD message for 10.32.0.0/11, in the layout of \<open>linux_abi\<close>.\<close>

definition sample_add :: "byte list" where
  "sample_add = [0, 0, 1, 0, 0, 0, 0, 0, 3, 0, 0, 0] @ replicate 16 0 @
     [2, 0, 0, 0, 10, 32, 0, 0] @ replicate 8 0 @
     [2, 0, 0, 0, 255, 224, 0, 0] @ replicate 8 0 @ replicate 12 0"

lemma sample_netmask: "netmask 11 [255, 224, 0, 0]"
  by (auto simp: netmask_def byte_bits_def numeral_eq_Suc replicate_eq_replicate intro!: exI [of _ 21])

theorem extract_eid_mm_reads_netmask_witness:
  "extract_eid_mm linux_abi sample_add =
     Some \<lparr>prefix = ipv4_mapped [10, 32, 0, 0],
       prefix_length = 107, reason = PRFX_ASIS\<rparr>"
proof -
  have r: "rd16le sample_add 10 = Some 0" "rd16le sample_add 2 = Some MAPM_ADD"
    "rd16le sample_add 8 = Some 3" "ss_family linux_abi (drop 28 sample_add) = Some 2"
    "SA_SIZE linux_abi (drop 28 sample_add) = Some 16" "28 + 16 + 24 \<le> length sample_add"
    "take 4 (drop (28 + 16 + 4) sample_add) = [255, 224, 0, 0]"
    "take 4 (drop 32 sample_add) = [10, 32, 0, 0]"
    by code_simp+
  show ?thesis
    using extract_eid_mm_reads_netmask [of sample_add 3 linux_abi 2 16 11] r sample_netmask
    by (simp add: linux_abi_AF map_msg_defs)
qed

end
