(* ===== verification/Hv_Mux.thy ===== *)
theory Hv_Mux
  imports Hv_Parse_Message Hv_State
begin

text \<open>
  \<open>mapmessages/mux.c\<close>: the messages of the control planes are passed to the kernel's map table; an
  ADD or DELETE of a local EID (flag \<open>MAPF_DB\<close>) also assigns the EID to the plane that sent it.
  \<open>mmm_poll\<close> is the array \<open>poll\<close> waits on: cell 0 is the socket the registering server signals a
  change on, the others are the planes' sockets. The kernel's answers are arguments.
\<close>

section \<open>The array of polled descriptors\<close>

definition DYN_ARRAY_INIT :: nat where "DYN_ARRAY_INIT = 16"

definition init_mmm_poll :: "int \<Rightarrow> int \<Rightarrow> hv_state \<Rightarrow> hv_state handler" where
  "init_mmm_poll socket_r bind_r s =
     fatal_if (socket_r < 0) (fatal_if (bind_r < 0)
       (emit [] (s\<lparr>mmm_poll :=
          (dyn_store 0 \<lparr>fd = socket_r, pollin = False\<rparr> (dyn_alloc DYN_ARRAY_INIT))\<lparr>ctr := 1\<rparr>\<rparr>)))"

text \<open>\<open>ceil(1.5 * max)\<close>, or what was asked for when that is more.\<close>

definition expand_mmm_poll :: "nat \<Rightarrow> pollfd dyn \<Rightarrow> pollfd dyn" where
  "expand_mmm_poll guaranteed_capacity d =
     (let new_max = (3 * cap d + 1) div 2;
          new_max = (if 0 < guaranteed_capacity \<and> new_max < guaranteed_capacity
                     then guaranteed_capacity else new_max)
      in dyn_realloc new_max d)"

fun poll_fill :: "nat \<Rightarrow> control_plane option list \<Rightarrow> pollfd dyn \<Rightarrow> fault + pollfd dyn" where
  "poll_fill i [] d = Inr d"
| "poll_fill i (None # cells) d = Inl Undef"
| "poll_fill i (Some cp # cells) d =
     poll_fill (Suc i) cells
       (dyn_store (i + 1) \<lparr>fd = socket_descriptor cp, pollin = False\<rparr> d)"

definition update_mmm_poll :: "hv_state \<Rightarrow> hv_state handler" where
  "update_mmm_poll s =
     andthen (emit [RdLock CONTROL_PLANES_LOCK] s)
       (\<lambda>s. let n = ctr (control_planes (tables s));
                d = (if cap (mmm_poll s) - 1 < n then expand_mmm_poll (n + 1) (mmm_poll s)
                     else mmm_poll s)
            in (case poll_fill 0 (dyn_live (control_planes (tables s))) (d\<lparr>ctr := n + 1\<rparr>) of
                  Inl f \<Rightarrow> Inl f
                | Inr d \<Rightarrow> emit [Unlock CONTROL_PLANES_LOCK] (s\<lparr>mmm_poll := d\<rparr>)))"

section \<open>One message\<close>

definition MAP_BUF_LEN :: nat where "MAP_BUF_LEN = 8192"

fun find_socket :: "int \<Rightarrow> control_plane list \<Rightarrow> nat" where
  "find_socket s [] = 0"
| "find_socket s (cp # cps) = (if socket_descriptor cp = s then 0 else Suc (find_socket s cps))"

text \<open>The branch under the locks. Both are taken for reading.\<close>

definition update_assignments ::
  "sockaddr_abi \<Rightarrow> u16 \<Rightarrow> byte list \<Rightarrow> int \<Rightarrow> hv_state \<Rightarrow> hv_state handler" where
  "update_assignments abi msg_type buf sd s =
     andthen (emit [RdLock CONTROL_PLANES_LOCK, RdLock ASSIGNMENTS_LOCK] s)
       (\<lambda>s. case extract_eid_mm abi buf of
          None \<Rightarrow> Inl Undef
        | Some significant_eid \<Rightarrow>
            let i = find_socket sd (planes (tables s));
                item = \<lparr>eid = significant_eid, assignee_index = i\<rparr>
            in andthen
                 (if i < ctr (control_planes (tables s)) then
                    (if msg_type = MAPM_ADD then
                       (case add_assignment item (tables s) of
                          Inl f \<Rightarrow> Inl f
                        | Inr (ret, t) \<Rightarrow>
                            emit (if ret = -1 then [] else [TableWrite ASSIGNMENTS_LOCK])
                              (s\<lparr>tables := t\<rparr>))
                     else
                       (case remove_assignment item (tables s) of
                          Inl f \<Rightarrow> Inl f
                        | Inr t \<Rightarrow>
                            emit (if t = tables s then [] else [TableWrite ASSIGNMENTS_LOCK])
                              (s\<lparr>tables := t\<rparr>)))
                  else emit [] s)
                 (\<lambda>s. emit [Unlock ASSIGNMENTS_LOCK, Unlock CONTROL_PLANES_LOCK] s))"

text \<open>\<open>msg\<close> is what \<open>recv\<close> delivered (\<open>None\<close>: an error), \<open>err\<close> the \<open>errno\<close> of the write to the map
  socket, 0 when it succeeded, and \<open>tolerated\<close> tells the five error numbers that are not reported.\<close>

definition process_message ::
  "sockaddr_abi \<Rightarrow> (int \<Rightarrow> bool) \<Rightarrow> byte list option \<Rightarrow> int \<Rightarrow> int \<Rightarrow> hv_state \<Rightarrow> hv_state handler" where
  "process_message abi tolerated msg err sd s =
     (case msg of
        None \<Rightarrow> emit [Warn] s
      | Some received \<Rightarrow>
          let data = take MAP_BUF_LEN received;
              buf = data @ replicate (MAP_BUF_LEN - length data) 0
          in (case (extract_type_mm buf, extract_flags_mm buf) of
                (Some msg_type, Some msg_flags) \<Rightarrow>
                  andthen
                    (if msg_flags AND MAPF_DB \<noteq> 0 \<and> (msg_type = MAPM_ADD \<or> msg_type = MAPM_DELETE)
                     then update_assignments abi msg_type buf sd s else emit [] s)
                    (emit (WriteMap data # (if err = 0 \<or> tolerated err then [] else [Warn])))
              | _ \<Rightarrow> Inl Undef))"

section \<open>The loop of the muxer\<close>

text \<open>One turn: \<open>r\<close> is what \<open>poll\<close> returned and \<open>ready\<close> the \<open>POLLIN\<close> bit it stored in each live cell;
  \<open>msgs i\<close> and \<open>errs i\<close> are what \<open>recv\<close> and \<open>write\<close> answer for the descriptor in cell \<open>i\<close>.\<close>

fun muxer_loop ::
  "sockaddr_abi \<Rightarrow> (int \<Rightarrow> bool) \<Rightarrow> (nat \<Rightarrow> byte list option) \<Rightarrow> (nat \<Rightarrow> int) \<Rightarrow> nat \<Rightarrow>
   pollfd option list \<Rightarrow> hv_state \<Rightarrow> hv_state handler" where
  "muxer_loop abi tolerated msgs errs i [] s = emit [] s"
| "muxer_loop abi tolerated msgs errs i (None # cells) s = Inl Undef"
| "muxer_loop abi tolerated msgs errs i (Some p # cells) s =
     andthen (if pollin p then process_message abi tolerated (msgs i) (errs i) (fd p) s else emit [] s)
       (muxer_loop abi tolerated msgs errs (Suc i) cells)"

definition poll_result :: "bool list \<Rightarrow> pollfd dyn \<Rightarrow> pollfd dyn" where
  "poll_result ready d =
     d\<lparr>slots := map2 (\<lambda>c b. map_option (\<lambda>p. p\<lparr>pollin := b\<rparr>) c) (take (ctr d) (slots d)) ready @
               drop (ctr d) (slots d)\<rparr>"

definition muxer_turn ::
  "sockaddr_abi \<Rightarrow> (int \<Rightarrow> bool) \<Rightarrow> (nat \<Rightarrow> byte list option) \<Rightarrow> (nat \<Rightarrow> int) \<Rightarrow> int \<Rightarrow> bool list \<Rightarrow>
   hv_state \<Rightarrow> hv_state handler" where
  "muxer_turn abi tolerated msgs errs r ready s =
     fatal_if (r = -1)
       (let s = s\<lparr>mmm_poll := poll_result ready (mmm_poll s)\<rparr>
        in (case dyn_cell (mmm_poll s) 0 of
              None \<Rightarrow> Inl Undef
            | Some p \<Rightarrow>
                andthen (if pollin p then update_mmm_poll s else emit [] s)
                  (\<lambda>s. if pollin p \<and> r = 1 then emit [] s
                       else muxer_loop abi tolerated msgs errs 1 (drop 1 (dyn_live (mmm_poll s))) s)))"

section \<open>Lemmas\<close>

definition plane_pollfd :: "control_plane \<Rightarrow> pollfd" where
  "plane_pollfd cp = \<lparr>fd = socket_descriptor cp, pollin = False\<rparr>"

lemma poll_fill_eq:
  "i + length cps < length (slots d) \<Longrightarrow>
   poll_fill i (map Some cps) d = Inr (d\<lparr>slots := take (Suc i) (slots d) @
      map (Some \<circ> plane_pollfd) cps @ drop (Suc i + length cps) (slots d)\<rparr>)"
proof (induction cps arbitrary: i d)
  case (Cons cp cps)
  have l: "Suc i < length (slots d)" using Cons.prems by simp
  have "poll_fill i (map Some (cp # cps)) d =
      poll_fill (Suc i) (map Some cps) (dyn_store (Suc i) (plane_pollfd cp) d)"
    by (simp add: plane_pollfd_def)
  also have "\<dots> = Inr (d\<lparr>slots := take (Suc i) (slots d) @
      map (Some \<circ> plane_pollfd) (cp # cps) @ drop (Suc i + length (cp # cps)) (slots d)\<rparr>)"
    using Cons.IH [of "Suc i" "dyn_store (Suc i) (plane_pollfd cp) d"] Cons.prems l
    by (simp add: dyn_store_def take_Suc_conv_app_nth)
  finally show ?case .
qed simp

lemma expand_mmm_poll_simps:
  "n \<le> cap (expand_mmm_poll n d)" "cap d \<le> cap (expand_mmm_poll n d)"
  "ctr (expand_mmm_poll n d) = ctr d"
  "dyn_ok d \<Longrightarrow> dyn_ok (expand_mmm_poll n d)" "dyn_ok d \<Longrightarrow> dyn_list (expand_mmm_poll n d) = dyn_list d"
  by (auto simp: expand_mmm_poll_def Let_def dyn_simps)

lemma dyn_ok_head:
  assumes "dyn_ok d" and "0 < ctr d"
  shows "\<exists>rest. slots d = Some (hd (dyn_list d)) # rest \<and> length rest = cap d - 1"
  using assms by (cases "slots d"; cases "ctr d")
    (auto simp: dyn_ok_def dyn_list_def dyn_live_def)

lemma update_mmm_poll_Inr:
  assumes "tables_ok (tables s)" and "dyn_ok (mmm_poll s)" and "0 < ctr (mmm_poll s)"
  shows "\<exists>d. update_mmm_poll s =
      Inr (s\<lparr>mmm_poll := d\<rparr>, [RdLock CONTROL_PLANES_LOCK, Unlock CONTROL_PLANES_LOCK]) \<and>
    dyn_ok d \<and> dyn_list d = hd (dyn_list (mmm_poll s)) # map plane_pollfd (planes (tables s))"
proof -
  let ?n = "ctr (control_planes (tables s))"
  define d where "d = (if cap (mmm_poll s) - 1 < ?n then expand_mmm_poll (?n + 1) (mmm_poll s)
                       else mmm_poll s)"
  have d: "dyn_ok d" "dyn_list d = dyn_list (mmm_poll s)" "0 < ctr d" "?n + 1 \<le> cap d"
    using assms(2,3) expand_mmm_poll_simps [where n = "?n + 1" and d = "mmm_poll s"]
    by (auto simp: d_def dyn_ok_def)
  from dyn_ok_head [OF d(1,3)] obtain rest where
    rest: "slots d = Some (hd (dyn_list (mmm_poll s))) # rest" "length rest = cap d - 1"
    by (auto simp: d(2))
  have cells: "dyn_live (control_planes (tables s)) = map Some (planes (tables s))"
    using assms(1) by (simp add: tables_ok_def planes_def dyn_live_eq)
  have n: "length (planes (tables s)) = ?n" by (rule length_planes [OF assms(1)])
  define d' where "d' = d\<lparr>ctr := ?n + 1, slots := Some (hd (dyn_list (mmm_poll s))) #
    map (Some \<circ> plane_pollfd) (planes (tables s)) @ drop ?n rest\<rparr>"
  have "poll_fill 0 (map Some (planes (tables s))) (d\<lparr>ctr := ?n + 1\<rparr>) = Inr d'"
    using poll_fill_eq [of 0 "planes (tables s)" "d\<lparr>ctr := ?n + 1\<rparr>"] rest n d(4)
    by (simp add: d'_def)
  then have "update_mmm_poll s =
      Inr (s\<lparr>mmm_poll := d'\<rparr>, [RdLock CONTROL_PLANES_LOCK, Unlock CONTROL_PLANES_LOCK])"
    by (cases "cap (mmm_poll s) - 1 < ?n")
       (simp_all add: update_mmm_poll_def andthen_def emit_def cells d_def Let_def)
  moreover have "dyn_live d' = Some (hd (dyn_list (mmm_poll s))) #
      map (Some \<circ> plane_pollfd) (planes (tables s))"
    using n by (simp add: d'_def dyn_live_def)
  then have "dyn_list d' = hd (dyn_list (mmm_poll s)) # map plane_pollfd (planes (tables s))"
    and "None \<notin> set (dyn_live d')"
    by (auto simp: dyn_list_def comp_def)
  moreover have "length (slots d') = cap d'" "ctr d' \<le> cap d'" "0 < cap d'"
    using rest n d(4) by (simp_all add: d'_def)
  ultimately show ?thesis by (auto simp: dyn_ok_def)
qed

lemma find_socket_less: "find_socket s cps < length cps \<longleftrightarrow> (\<exists>cp\<in>set cps. socket_descriptor cp = s)"
  by (induction cps) auto

lemma find_socket_hit:
  "\<exists>cp\<in>set cps. socket_descriptor cp = s \<Longrightarrow> socket_descriptor (cps ! find_socket s cps) = s"
  by (induction cps) auto

lemma find_socket_le: "find_socket s cps \<le> length cps"
  by (induction cps) auto

section \<open>Properties\<close>

text \<open>
  After a signalled change the muxer polls its own socket and exactly the sockets of the
  registered planes, in their order, with no stale readiness; the array is always large enough,
  whatever the number of planes and its old capacity.
\<close>

theorem update_mmm_poll_follows_planes:
  assumes "tables_ok (tables s)" and "dyn_ok (mmm_poll s)" and "0 < ctr (mmm_poll s)"
  shows "\<exists>d. update_mmm_poll s =
      Inr (s\<lparr>mmm_poll := d\<rparr>, [RdLock CONTROL_PLANES_LOCK, Unlock CONTROL_PLANES_LOCK]) \<and>
    dyn_ok d \<and> length (planes (tables s)) < cap d \<and>
    dyn_list d = hd (dyn_list (mmm_poll s)) #
      map (\<lambda>cp. \<lparr>fd = socket_descriptor cp, pollin = False\<rparr>) (planes (tables s))"
proof -
  from update_mmm_poll_Inr [OF assms] obtain d where
    d: "update_mmm_poll s =
      Inr (s\<lparr>mmm_poll := d\<rparr>, [RdLock CONTROL_PLANES_LOCK, Unlock CONTROL_PLANES_LOCK])"
    "dyn_ok d" "dyn_list d = hd (dyn_list (mmm_poll s)) # map plane_pollfd (planes (tables s))" by blast
  from length_dyn_list [OF d(2)] d(2,3) have "length (planes (tables s)) < cap d"
    by (simp add: dyn_ok_def)
  with d show ?thesis by (auto simp: plane_pollfd_def [abs_def])
qed

definition sample_mux_state :: hv_state where
  "sample_mux_state =
     \<lparr>tables = sample_tables, ping_connected = True, ipv4_controlpackets_socket = 3,
      ipv6_controlpackets_socket = -1, mmm_poll = dyn_of 1 [\<lparr>fd = 9, pollin = True\<rparr>]\<rparr>"

lemma sample_mux_poll:
  "dyn_ok (mmm_poll sample_mux_state)" "ctr (mmm_poll sample_mux_state) = 1"
  "dyn_list (mmm_poll sample_mux_state) = [\<lparr>fd = 9, pollin = True\<rparr>]"
  "tables sample_mux_state = sample_tables"
  by (simp_all add: sample_mux_state_def dyn_simps)

theorem update_mmm_poll_follows_planes_witness:
  "\<exists>d. update_mmm_poll sample_mux_state =
      Inr (sample_mux_state\<lparr>mmm_poll := d\<rparr>, [RdLock CONTROL_PLANES_LOCK, Unlock CONTROL_PLANES_LOCK]) \<and>
    dyn_list d = [\<lparr>fd = 9, pollin = True\<rparr>, \<lparr>fd = 7, pollin = False\<rparr>, \<lparr>fd = 7, pollin = False\<rparr>]"
  using update_mmm_poll_follows_planes [of sample_mux_state] sample_mux_poll
  by (auto simp: sample_plane_def)

text \<open>What a received message becomes in the muxer's buffer.\<close>

definition mux_buffer :: "byte list \<Rightarrow> byte list" where
  "mux_buffer received = take MAP_BUF_LEN received @
     replicate (MAP_BUF_LEN - length (take MAP_BUF_LEN received)) 0"

definition db_message :: "u16 \<Rightarrow> byte list \<Rightarrow> bool" where
  "db_message t received \<longleftrightarrow> extract_type_mm (mux_buffer received) = Some t \<and>
     (\<exists>f. extract_flags_mm (mux_buffer received) = Some f \<and> f AND MAPF_DB \<noteq> 0)"

lemma length_mux_buffer [simp]: "length (mux_buffer m) = 8192"
  by (simp add: mux_buffer_def MAP_BUF_LEN_def)

lemma process_message_eq:
  assumes "extract_type_mm (mux_buffer m) = Some t" and "extract_flags_mm (mux_buffer m) = Some f"
  shows "process_message abi tolerated (Some m) err sd s =
    andthen (if f AND MAPF_DB \<noteq> 0 \<and> (t = MAPM_ADD \<or> t = MAPM_DELETE)
             then update_assignments abi t (mux_buffer m) sd s else emit [] s)
      (emit (WriteMap (take MAP_BUF_LEN m) # (if err = 0 \<or> tolerated err then [] else [Warn])))"
  using assms by (simp add: process_message_def mux_buffer_def Let_def)

lemma update_assignments_add:
  assumes "tables_ok (tables s)" and "extract_eid_mm abi buf = Some e"
    and "\<exists>cp\<in>set (planes (tables s)). socket_descriptor cp = sd"
    and "add_assignment \<lparr>eid = e, assignee_index = find_socket sd (planes (tables s))\<rparr> (tables s) = Inr (i, t)"
    and "0 \<le> i"
  shows "update_assignments abi MAPM_ADD buf sd s = Inr (s\<lparr>tables := t\<rparr>,
    [RdLock CONTROL_PLANES_LOCK, RdLock ASSIGNMENTS_LOCK, TableWrite ASSIGNMENTS_LOCK,
     Unlock ASSIGNMENTS_LOCK, Unlock CONTROL_PLANES_LOCK])"
proof -
  have "find_socket sd (planes (tables s)) < ctr (control_planes (tables s))"
    using find_socket_less [of sd "planes (tables s)"] assms(1,3) by (simp add: length_planes)
  with assms show ?thesis
    by (simp add: update_assignments_def andthen_def emit_def Let_def)
qed

lemma mux_add_result:
  assumes "tables_ok (tables s)" and "entries_wf (tables s)" and "db_message MAPM_ADD m"
    and "extract_eid_mm abi (mux_buffer m) = Some e" and "wf_eid e" and "\<not> special_eid e"
    and "\<exists>cp\<in>set (planes (tables s)). socket_descriptor cp = sd"
    and "\<forall>a\<in>set (entries (tables s)). \<not> same_eid (eid a) e"
  obtains t where "process_message abi tolerated (Some m) err sd s = Inr (s\<lparr>tables := t\<rparr>,
      [RdLock CONTROL_PLANES_LOCK, RdLock ASSIGNMENTS_LOCK, TableWrite ASSIGNMENTS_LOCK,
       Unlock ASSIGNMENTS_LOCK, Unlock CONTROL_PLANES_LOCK] @
      WriteMap (take 8192 m) # (if err = 0 \<or> tolerated err then [] else [Warn]))"
    and "planes t = planes (tables s)"
    and "entries t = entries (tables s) @ [\<lparr>eid = e, assignee_index = find_socket sd (planes t)\<rparr>]"
    and "sort_eid t e = Some (SORTING_ONE, Some (find_socket sd (planes t)), e)"
proof -
  let ?k = "find_socket sd (planes (tables s))"
  from assms(7) have ne: "planes (tables s) \<noteq> []" by auto
  from add_assignment_fresh [OF assms(1,2), of "\<lparr>eid = e, assignee_index = ?k\<rparr>"] assms(5,6,8) ne
  obtain t where t: "add_assignment \<lparr>eid = e, assignee_index = ?k\<rparr> (tables s) =
      Inr (int (length (entries (tables s))), t)" "planes t = planes (tables s)"
    "entries t = entries (tables s) @ [\<lparr>eid = e, assignee_index = ?k\<rparr>]"
    "sort_eid t e = Some (SORTING_ONE, Some ?k, e)" by auto
  from assms(3) obtain f where f: "extract_type_mm (mux_buffer m) = Some MAPM_ADD"
    "extract_flags_mm (mux_buffer m) = Some f" "f AND MAPF_DB \<noteq> 0" by (auto simp: db_message_def)
  show ?thesis
    using update_assignments_add [OF assms(1,4,7) t(1)] process_message_eq [OF f(1,2), of abi] f(3) t
    by (intro that [of t]) (simp_all add: andthen_def emit_def MAP_BUF_LEN_def)
qed

lemma mux_add_assigns:
  assumes "tables_ok (tables s)" and "entries_wf (tables s)" and "db_message MAPM_ADD m"
    and "extract_eid_mm abi (mux_buffer m) = Some e" and "wf_eid e" and "\<not> special_eid e"
    and "\<exists>cp\<in>set (planes (tables s)). socket_descriptor cp = sd"
    and "\<forall>a\<in>set (entries (tables s)). \<not> same_eid (eid a) e"
  shows "\<exists>t evs. process_message abi tolerated (Some m) err sd s = Inr (s\<lparr>tables := t\<rparr>, evs) \<and>
    WriteMap (take 8192 m) \<in> set evs \<and> planes t = planes (tables s) \<and>
    entries t = entries (tables s) @ [\<lparr>eid = e, assignee_index = find_socket sd (planes t)\<rparr>] \<and>
    sort_eid t e = Some (SORTING_ONE, Some (find_socket sd (planes t)), e) \<and>
    socket_descriptor (planes t ! find_socket sd (planes t)) = sd"
proof (rule mux_add_result [OF assms, of tolerated err])
  fix t
  assume "process_message abi tolerated (Some m) err sd s = Inr (s\<lparr>tables := t\<rparr>,
      [RdLock CONTROL_PLANES_LOCK, RdLock ASSIGNMENTS_LOCK, TableWrite ASSIGNMENTS_LOCK,
       Unlock ASSIGNMENTS_LOCK, Unlock CONTROL_PLANES_LOCK] @
      WriteMap (take 8192 m) # (if err = 0 \<or> tolerated err then [] else [Warn]))"
    "planes t = planes (tables s)"
    "entries t = entries (tables s) @ [\<lparr>eid = e, assignee_index = find_socket sd (planes t)\<rparr>]"
    "sort_eid t e = Some (SORTING_ONE, Some (find_socket sd (planes t)), e)"
  then show ?thesis
    using find_socket_hit [OF assms(7)] by (intro exI [of _ t] exI conjI) auto
qed

text \<open>
  C17: a local ADD message that a registered plane sends for an EID prefix no entry has assigns the
  prefix to the first plane with that socket, so that from then on that EID is sorted to it, and the
  message is passed on unchanged to the map table, whatever the map table answers.
\<close>

theorem mux_add_assigns_to_sender:
  assumes "tables_ok (tables s)" and "entries_wf (tables s)" and "db_message MAPM_ADD m"
    and "extract_eid_mm abi (mux_buffer m) = Some e" and "wf_eid e" and "\<not> special_eid e"
    and "\<exists>cp\<in>set (planes (tables s)). socket_descriptor cp = sd"
    and "\<forall>a\<in>set (entries (tables s)). \<not> same_eid (eid a) e"
  shows "\<exists>t evs. process_message abi tolerated (Some m) err sd s = Inr (s\<lparr>tables := t\<rparr>, evs) \<and>
    WriteMap (take 8192 m) \<in> set evs \<and> planes t = planes (tables s) \<and>
    entries t = entries (tables s) @ [\<lparr>eid = e, assignee_index = find_socket sd (planes t)\<rparr>] \<and>
    sort_eid t e = Some (SORTING_ONE, Some (find_socket sd (planes t)), e) \<and>
    socket_descriptor (planes t ! find_socket sd (planes t)) = sd"
  by (rule mux_add_assigns [OF assms])

text \<open>
  The same message changes the assignments table while the muxer holds its lock for reading
  only, against the requirement stated at \<open>add_assignment\<close>: the handler's actions violate the lock
  discipline that all handlers of the registering server and of the demuxers follow.
\<close>

theorem mux_add_not_guarded:
  assumes "tables_ok (tables s)" and "entries_wf (tables s)" and "db_message MAPM_ADD m"
    and "extract_eid_mm abi (mux_buffer m) = Some e" and "wf_eid e" and "\<not> special_eid e"
    and "\<exists>cp\<in>set (planes (tables s)). socket_descriptor cp = sd"
    and "\<forall>a\<in>set (entries (tables s)). \<not> same_eid (eid a) e"
  shows "\<exists>s' evs. process_message abi tolerated (Some m) err sd s = Inr (s', evs) \<and>
    \<not> guarded {} {} evs"
  by (rule mux_add_result [OF assms, of tolerated err]) (simp add: exI)

text \<open>The sample message with the local flag: 10.32.0.0/11 for the plane of socket 7.\<close>

definition sample_db_add :: "byte list" where
  "sample_db_add = [0, 0, 1, 0, 1, 0, 0, 0, 3, 0, 0, 0] @ drop 12 sample_add"

lemma sample_db_add_append:
  "extract_type_mm (sample_db_add @ z) = Some MAPM_ADD"
  "extract_flags_mm (sample_db_add @ z) = Some 1"
  "extract_eid_mm linux_abi (sample_db_add @ z) = Some (mapped [10, 32, 0, 0] 11)"
proof -
  let ?d = "drop 28 sample_db_add"
  have h: "rd16le (sample_db_add @ z) 10 = Some 0" "rd16le (sample_db_add @ z) 2 = Some 1"
    "rd16le (sample_db_add @ z) 8 = Some 3" "rd32le (sample_db_add @ z) 4 = Some 1"
    by (rule rd16le_append rd32le_append, code_simp)+
  have e: "rd16le (?d @ z) 0 = Some 2" "rdn (?d @ z) 4 4 = Some [10, 32, 0, 0]"
    by (rule rd16le_append rdn_append, code_simp)+
  have m: "drop 20 ?d = [255, 224, 0, 0] @ replicate 20 0" "28 \<le> length sample_db_add" "20 \<le> length ?d"
    by code_simp+
  show "extract_type_mm (sample_db_add @ z) = Some MAPM_ADD"
    "extract_flags_mm (sample_db_add @ z) = Some 1"
    using h by (simp_all add: extract_type_mm_def extract_flags_mm_def map_msg_defs)
  have "mask_bytes (drop 20 ?d @ z) 4 96 = Some 107"
    using mask_bytes_eq [of 4 "[255, 224, 0, 0] @ replicate 20 0 @ z" 96]
      leading_ones_netmask [OF sample_netmask]
    unfolding m by simp
  with h e m(2,3) show "extract_eid_mm linux_abi (sample_db_add @ z) = Some (mapped [10, 32, 0, 0] 11)"
    by (simp add: extract_eid_mm_def extract_eid_mm_add_delete_def process_eid_ipv4_def linux_abi_def
      map_msg_defs mapped_def)
qed

lemma sample_db_add_parts:
  "db_message MAPM_ADD sample_db_add"
  "extract_eid_mm linux_abi (mux_buffer sample_db_add) = Some (mapped [10, 32, 0, 0] 11)"
proof -
  have "length sample_db_add = 72" by code_simp
  then have "mux_buffer sample_db_add = sample_db_add @ replicate 8120 0"
    by (simp add: mux_buffer_def MAP_BUF_LEN_def)
  then show "db_message MAPM_ADD sample_db_add"
    "extract_eid_mm linux_abi (mux_buffer sample_db_add) = Some (mapped [10, 32, 0, 0] 11)"
    by (simp_all add: db_message_def sample_db_add_append MAPF_DB_def)
qed

lemma sample_add_fresh: "\<forall>a\<in>set (entries (tables sample_mux_state)). \<not> same_eid (eid a) (mapped [10, 32, 0, 0] 11)"
  by (simp add: sample_mux_poll same_eid_mapped)

lemma sample_sender: "\<exists>cp\<in>set (planes (tables sample_mux_state)). socket_descriptor cp = 7"
  by (simp add: sample_mux_poll sample_plane_def)

lemmas sample_mux_premises =
  sample_db_add_parts(1) sample_db_add_parts(2) mapped_wf [of "[10, 32, 0, 0]" 11] mapped_not_special
  sample_sender sample_add_fresh

theorem mux_add_assigns_to_sender_witness:
  "\<exists>t evs. process_message linux_abi (\<lambda>_. False) (Some sample_db_add) 0 7 sample_mux_state =
      Inr (sample_mux_state\<lparr>tables := t\<rparr>, evs) \<and>
    sort_eid t (mapped [10, 32, 0, 0] 11) = Some (SORTING_ONE, Some 0, mapped [10, 32, 0, 0] 11)"
  using mux_add_assigns_to_sender [of sample_mux_state sample_db_add linux_abi "mapped [10, 32, 0, 0] 11" 7
      "\<lambda>_. False" 0] sample_mux_premises
  by (auto simp: sample_mux_poll sample_plane_def)

theorem mux_add_not_guarded_witness:
  "\<exists>s' evs. process_message linux_abi (\<lambda>_. False) (Some sample_db_add) 0 7 sample_mux_state = Inr (s', evs) \<and>
    \<not> guarded {} {} evs"
  using mux_add_not_guarded [of sample_mux_state sample_db_add linux_abi "mapped [10, 32, 0, 0] 11" 7
      "\<lambda>_. False" 0] sample_mux_premises
  by (simp add: sample_mux_poll)

end
