(* ===== verification/Checksum.thy ===== *)
theory Checksum
  imports Prelude
begin

text \<open>
  The Internet checksum, as both programs compute it: \<open>checksum\<close> of the hypervisor's
  \<open>controlpackets/inject.c\<close> and \<open>ip_checksum\<close> of the control plane's \<open>udp.c\<close>. The two differ in when
  they fold the carries; what a receiver relies on is the interface \<open>ones_complement_sum\<close>, of which
  both are instances. \<open>unsigned long\<close> is 64 bits wide.
\<close>

section \<open>The two routines\<close>

definition add_word :: "u64 \<Rightarrow> u16 \<Rightarrow> u64" where
  "add_word acc w =
     (let s = acc + ucast w
      in if s AND 0x80000000 \<noteq> 0 then (s AND 0xFFFF) + drop_bit 16 s else s)"

text \<open>\<open>while (sum >> 16) sum = (sum & 0xFFFF) + (sum >> 16)\<close>\<close>

function fold_carries :: "u64 \<Rightarrow> u64" where
  "fold_carries s =
     (if drop_bit 16 s = 0 then s else fold_carries ((s AND 0xFFFF) + drop_bit 16 s))"
  by auto

definition ip_checksum :: "u16 list \<Rightarrow> u16" where
  "ip_checksum buf =
     (let acc = foldl (\<lambda>s w. s + ucast w) (0 :: u64) buf;
          acc = drop_bit 16 acc + (acc AND 0xFFFF);
          acc = acc + drop_bit 16 acc
      in ucast (NOT acc))"

lemma unat_low16: "unat ((s :: u64) AND 0xFFFF) = unat s mod 65536"
proof -
  have "s AND 0xFFFF = take_bit 16 s"
    by (simp add: take_bit_eq_mask mask_eq_exp_minus_1)
  then have "s AND 0xFFFF = s mod 65536" by (simp add: take_bit_eq_mod)
  then show ?thesis by (simp add: unat_mod)
qed

lemma unat_high16: "unat (drop_bit 16 (s :: u64)) = unat s div 65536"
  by (simp add: drop_bit_eq_div unat_div)

lemma high16_0: "drop_bit 16 (s :: u64) = 0 \<longleftrightarrow> unat s < 65536"
  using unat_high16 [of s] by (metis div_eq_0_iff unat_eq_zero zero_neq_numeral)

lemma unat_folded: "unat ((s AND 0xFFFF) + drop_bit 16 (s :: u64)) = unat s mod 65536 + unat s div 65536"
proof -
  have "unat s < 2 ^ 64" using unsigned_less [where ?'a = nat, of s] by simp
  then have "unat s div 65536 < 2 ^ 48" by (simp add: less_mult_imp_div_less)
  then have "unat s mod 65536 + unat s div 65536 < 2 ^ 64" by simp
  then show ?thesis by (simp add: unat_word_ariths unat_low16 unat_high16)
qed

termination fold_carries
proof (relation "measure unat")
  fix s :: u64
  assume "drop_bit 16 s \<noteq> 0"
  then have "0 < unat s div 65536" by (simp add: high16_0)
  moreover have "unat s = unat s div 65536 * 65536 + unat s mod 65536" by simp
  ultimately have "unat s mod 65536 + unat s div 65536 < unat s" by linarith
  then show "((s AND 0xFFFF) + drop_bit 16 s, s) \<in> measure unat"
    by (simp add: unat_folded)
qed simp

declare fold_carries.simps [simp del]

definition checksum :: "u16 list \<Rightarrow> u16" where
  "checksum subject = ucast (NOT (fold_carries (foldl add_word 0 subject)))"

section \<open>What a folded sum keeps\<close>

text \<open>Folding keeps a sum's residue modulo \<open>2 ^ 16 - 1\<close>, and whether it is zero.\<close>

definition same_sum :: "nat \<Rightarrow> nat \<Rightarrow> bool" where
  "same_sum m n \<longleftrightarrow> m mod 65535 = n mod 65535 \<and> (m = 0 \<longleftrightarrow> n = 0)"

lemma same_sum_refl [simp]: "same_sum n n"
  by (simp add: same_sum_def)

lemma same_sum_trans: "same_sum a b \<Longrightarrow> same_sum b c \<Longrightarrow> same_sum a c"
  by (simp add: same_sum_def)

lemma same_sum_add: "same_sum a b \<Longrightarrow> same_sum (a + n) (b + n)"
  by (auto simp: same_sum_def intro: mod_add_cong)

lemma same_sum_fold: "same_sum (n mod 65536 + n div 65536) n"
proof -
  have n: "n = n mod 65536 + n div 65536 + 65535 * (n div 65536)"
    using div_mult_mod_eq [of n 65536] by linarith
  then have "n mod 65535 = (n mod 65536 + n div 65536) mod 65535"
    by (metis mod_mult_self2)
  with n show ?thesis by (auto simp: same_sum_def)
qed

lemma fold_carries_sum: "same_sum (unat (fold_carries s)) (unat s) \<and> unat (fold_carries s) < 65536"
proof (induction s rule: fold_carries.induct)
  case (1 s)
  show ?case
  proof (cases "drop_bit 16 s = 0")
    case True
    then show ?thesis by (subst (1 2) fold_carries.simps) (simp add: high16_0)
  next
    case False
    have "same_sum (unat ((s AND 0xFFFF) + drop_bit 16 s)) (unat s)"
      unfolding unat_folded by (rule same_sum_fold)
    with 1 [OF False] False show ?thesis
      by (subst (1 2) fold_carries.simps) (auto intro: same_sum_trans)
  qed
qed

lemma bit31: "unat (s :: u64) < 2 ^ 32 \<Longrightarrow> s AND 0x80000000 = 0 \<longleftrightarrow> unat s < 2 ^ 31"
proof -
  assume s: "unat s < 2 ^ 32"
  have "bit (s AND 0x80000000) k \<longleftrightarrow> k = 31 \<and> bit s 31" for k
  proof -
    have "(0x80000000 :: u64) = 2 ^ 31" by simp
    then show ?thesis unfolding bit_and_iff by (auto simp only: bit_exp_iff) simp
  qed
  from this this [of 31] have "s AND 0x80000000 = 0 \<longleftrightarrow> \<not> bit s 31"
    by (metis bit_0_eq bit_eqI bot_apply bot_bool_def)
  also have "\<dots> \<longleftrightarrow> even (unat s div 2 ^ 31)"
    using bit_unsigned_iff [where ?'a = nat, of s 31] by (simp add: bit_iff_odd)
  also have "\<dots> \<longleftrightarrow> unat s < 2 ^ 31"
  proof -
    have "unat s div 2 ^ 31 < 2" using s by (simp add: less_mult_imp_div_less)
    then show ?thesis by (auto simp: less_2_cases_iff div_eq_0_iff)
  qed
  finally show ?thesis .
qed

lemma unat_add_ucast: "unat (s :: u64) < 2 ^ 31 \<Longrightarrow> unat (s + ucast (w :: u16)) = unat s + unat w"
proof -
  assume s: "unat s < 2 ^ 31"
  have w: "unat w < 2 ^ 16" using unsigned_less [where ?'a = nat, of w] by simp
  then have "unat (ucast w :: u64) = unat w" by (simp add: unsigned_ucast_eq take_bit_nat_eq_self)
  with s w show ?thesis by (simp add: unat_word_ariths)
qed

lemma add_word_sum:
  assumes "unat s < 2 ^ 31"
  shows "same_sum (unat (add_word s w)) (unat s + unat w) \<and> unat (add_word s w) < 2 ^ 31"
proof -
  have w: "unat w < 65536" using unsigned_less [where ?'a = nat, of w] by simp
  have sw: "unat (s + ucast w) = unat s + unat w"
    using assms by (rule unat_add_ucast)
  then have b: "unat (s + ucast w) < 2 ^ 32" using assms w by simp
  show ?thesis
  proof (cases "(s + ucast w) AND 0x80000000 = 0")
    case True
    then show ?thesis using bit31 [OF b] sw by (simp add: add_word_def)
  next
    case False
    then have "unat (add_word s w) = unat (s + ucast w) mod 65536 + unat (s + ucast w) div 65536"
      by (simp add: add_word_def Let_def unat_folded)
    moreover have "(unat s + unat w) div 65536 < 65536" using b sw by (simp add: less_mult_imp_div_less)
    moreover have "(unat s + unat w) mod 65536 < 65536" by simp
    ultimately show ?thesis using same_sum_fold [of "unat s + unat w"] sw by simp
  qed
qed

definition words_sum :: "u16 list \<Rightarrow> nat" where
  "words_sum ws = sum_list (map unat ws)"

lemma words_sum_simps [simp]:
  "words_sum [] = 0" "words_sum (w # ws) = unat w + words_sum ws"
  "words_sum (ws @ vs) = words_sum ws + words_sum vs"
  by (simp_all add: words_sum_def)

lemma words_sum_bound: "words_sum ws \<le> 65535 * length ws"
proof (induction ws)
  case (Cons w ws)
  have "unat w \<le> 65535" using unsigned_less [where ?'a = nat, of w] by simp
  with Cons show ?case by simp
qed simp

section \<open>The interface\<close>

text \<open>
  What a checksum routine promises: the complement of its result is the ones' complement sum of
  the words. A receiver accepts words whose sum is all ones (\<open>valid_words\<close>), that is for which the same
  routine gives zero.
\<close>

definition valid_words :: "u16 list \<Rightarrow> bool" where
  "valid_words ws \<longleftrightarrow> words_sum ws \<noteq> 0 \<and> words_sum ws mod 65535 = 0"

lemma unat_not16: "unat (NOT (c :: u16)) = 65535 - unat c"
proof -
  have "NOT c = - 1 - c" by (simp add: not_eq_complement)
  moreover have "unat (- 1 - c) = unat (- 1 :: u16) - unat c" by (rule unat_sub) simp
  moreover have "unat (- 1 :: u16) = 65535"
    using unsigned_minus_1_eq_mask [where ?'a = nat and ?'b = 16] by (simp add: mask_eq_exp_minus_1)
  ultimately show ?thesis by simp
qed

lemma unat_le16: "unat (c :: u16) \<le> 65535"
  using unsigned_less [where ?'a = nat, of c] by simp

locale ones_complement_sum =
  fixes csum :: "u16 list \<Rightarrow> u16" and bound :: nat
  assumes csum_same: "length ws \<le> bound \<Longrightarrow> same_sum (unat (NOT (csum ws))) (words_sum ws)"
begin

lemma csum_unat: "length ws \<le> bound \<Longrightarrow> same_sum (65535 - unat (csum ws)) (words_sum ws)"
  using csum_same [of ws] by (simp add: unat_not16)

lemma receiver_accepts: "length ws \<le> bound \<Longrightarrow> csum ws = 0 \<longleftrightarrow> valid_words ws"
proof -
  assume "length ws \<le> bound"
  then have s: "same_sum (65535 - unat (csum ws)) (words_sum ws)" by (rule csum_unat)
  have "csum ws = 0 \<longleftrightarrow> 65535 - unat (csum ws) = 65535"
    using unat_le16 [of "csum ws"] by (auto simp: unat_eq_zero [symmetric])
  also have "\<dots> \<longleftrightarrow> 65535 - unat (csum ws) \<noteq> 0 \<and> (65535 - unat (csum ws)) mod 65535 = 0"
    by (cases "unat (csum ws) = 0") (auto simp: mod_if)
  also have "\<dots> \<longleftrightarrow> valid_words ws"
    using s by (simp add: same_sum_def valid_words_def)
  finally show ?thesis .
qed

text \<open>Storing the checksum where the words had a zero makes them valid.\<close>

lemma csum_stored:
  assumes "length (xs @ 0 # ys) \<le> bound"
  shows "valid_words (xs @ csum (xs @ 0 # ys) # ys)"
proof -
  let ?c = "csum (xs @ 0 # ys)"
  have "same_sum (65535 - unat ?c + unat ?c) (words_sum (xs @ 0 # ys) + unat ?c)"
    by (intro same_sum_add csum_unat assms)
  then show ?thesis
    using unat_le16 [of ?c] by (simp add: same_sum_def valid_words_def ac_simps)
qed

text \<open>No error confined to one word passes, except 0 for all ones and the other way round.\<close>

lemma corrupted_word:
  assumes "valid_words (xs @ w # ys)" and "valid_words (xs @ w' # ys)"
  shows "unat w mod 65535 = unat w' mod 65535"
proof -
  let ?s = "words_sum (xs @ ys)"
  have *: "m mod 65535 = n mod 65535"
    if "m \<le> n" "(m + ?s) mod 65535 = 0" "(n + ?s) mod 65535 = 0" for m n
  proof -
    have "65535 dvd (n + ?s) - (m + ?s)" using that(2,3) by (intro dvd_diff_nat) (simp_all add: mod_0_imp_dvd)
    with that(1) show ?thesis by (simp add: mod_eq_dvd_iff_nat [of m n, THEN iffD2, symmetric])
  qed
  have "(unat w + ?s) mod 65535 = 0" "(unat w' + ?s) mod 65535 = 0"
    using assms by (simp_all add: valid_words_def ac_simps)
  then show ?thesis
    by (cases "unat w \<le> unat w'") (auto intro: * * [symmetric])
qed

end

lemma foldl_add_word:
  "unat s < 2 ^ 31 \<Longrightarrow>
   same_sum (unat (foldl add_word s ws)) (unat s + words_sum ws) \<and> unat (foldl add_word s ws) < 2 ^ 31"
proof (induction ws arbitrary: s)
  case (Cons w ws)
  from add_word_sum [OF Cons.prems, of w] Cons.IH [of "add_word s w"] show ?case
    by (auto simp: add.assoc [symmetric] intro: same_sum_trans same_sum_add)
qed simp

lemma not_ucast_not: "NOT (ucast (NOT (t :: u64))) = (ucast t :: u16)"
  by (rule bit_word_eqI) (simp add: bit_not_iff bit_unsigned_iff)

lemma checksum_same: "same_sum (unat (NOT (checksum ws))) (words_sum ws)"
proof -
  let ?t = "fold_carries (foldl add_word 0 ws)"
  have "NOT (checksum ws) = (ucast ?t :: u16)"
    unfolding checksum_def by (rule not_ucast_not)
  moreover have "unat (ucast ?t :: u16) = unat ?t"
    using fold_carries_sum [of "foldl add_word 0 ws"] by (simp add: unsigned_ucast_eq take_bit_nat_eq_self)
  ultimately show ?thesis
    using fold_carries_sum [of "foldl add_word 0 ws"] foldl_add_word [of 0 ws]
    by (auto intro: same_sum_trans)
qed

interpretation hv_sum: ones_complement_sum checksum n for n
  by unfold_locales (rule checksum_same)

text \<open>The control plane's routine folds twice, which is enough for up to 65536 words.\<close>

lemma foldl_plain:
  "unat s + words_sum ws < 2 ^ 32 \<Longrightarrow>
   unat (foldl (\<lambda>s w. s + ucast w) (s :: u64) ws) = unat s + words_sum ws"
proof (induction ws arbitrary: s)
  case (Cons w ws)
  have w: "unat w < 2 ^ 16" using unsigned_less [where ?'a = nat, of w] by simp
  have "unat s < 2 ^ 32" using Cons.prems by simp
  moreover from w have "unat (ucast w :: u64) = unat w"
    by (simp add: unsigned_ucast_eq take_bit_nat_eq_self)
  ultimately have "unat (s + ucast w) = unat s + unat w"
    using w by (simp add: unat_word_ariths)
  with Cons show ?case by simp
qed simp

lemma unat_carry:
  assumes "unat (t :: u64) \<le> 131070"
  shows "unat (t + drop_bit 16 t) = unat t + unat t div 65536"
proof -
  have "unat t div 65536 \<le> 131070" using assms by (meson div_le_dividend le_trans)
  then have "unat t + unat t div 65536 < 2 ^ 64" using assms by simp
  then show ?thesis by (simp add: unat_word_ariths unat_high16)
qed

lemma ip_checksum_same:
  assumes "length ws \<le> 65536"
  shows "same_sum (unat (NOT (ip_checksum ws))) (words_sum ws)"
proof -
  let ?n = "words_sum ws"
  let ?s = "foldl (\<lambda>s w. s + ucast w) (0 :: u64) ws"
  let ?t = "drop_bit 16 ?s + (?s AND 0xFFFF)"
  let ?u = "?t + drop_bit 16 ?t"
  have n: "?n \<le> 65535 * 65536"
    using words_sum_bound [of ws] assms by (meson le_trans mult_le_mono2)
  then have s: "unat ?s = ?n" using foldl_plain [of 0 ws] by simp
  have t: "unat ?t = ?n mod 65536 + ?n div 65536"
    using unat_folded [of ?s] s by (simp add: add.commute)
  have d: "?n div 65536 \<le> 65535" using n by (simp add: div_le_mono [of _ "65535 * 65536" 65536, simplified])
  have m: "?n mod 65536 \<le> 65535" using mod_less_divisor [of 65536 ?n] by linarith
  have u: "unat ?u = unat ?t + unat ?t div 65536"
    using t d m by (intro unat_carry) simp
  have "same_sum (unat ?u mod 65536) (unat ?t)"
  proof (cases "unat ?t < 65536")
    case True
    with u show ?thesis by simp
  next
    case False
    define r where "r = unat ?t - 65536"
    have r: "unat ?t = 65536 + r" "r \<le> 65534" using False t d m by (simp_all add: r_def)
    then have "unat ?t div 65536 = 1" by simp
    with u r have "unat ?u = 65536 + (r + 1)" by simp
    then have "unat ?u mod 65536 = (r + 1) mod 65536" by (metis mod_add_self1)
    with r(2) have "unat ?u mod 65536 = r + 1" by simp
    moreover have "(r + 1) mod 65535 = (65535 + (r + 1)) mod 65535" by (metis mod_add_self1)
    ultimately show ?thesis using r(1) by (simp add: same_sum_def)
  qed
  moreover have "unat (NOT (ip_checksum ws)) = unat ?u mod 65536"
  proof -
    have "NOT (ip_checksum ws) = ucast ?u"
      unfolding ip_checksum_def Let_def by (rule not_ucast_not)
    then show ?thesis by (simp add: unsigned_ucast_eq take_bit_eq_mod)
  qed
  ultimately show ?thesis
    using same_sum_fold [of ?n] t by (auto intro: same_sum_trans)
qed

interpretation cp_sum: ones_complement_sum ip_checksum 65536
  by unfold_locales (rule ip_checksum_same)

section \<open>Words and bytes\<close>

text \<open>16-bit loads from and stores to a buffer on a little-endian host; a last odd byte is not
  loaded. \<open>htons\<close> swaps the bytes.\<close>

fun le_words :: "byte list \<Rightarrow> u16 list" where
  "le_words (l # h # b) = word_cat h l # le_words b"
| "le_words _ = []"

definition word_bytes :: "u16 \<Rightarrow> byte list" where
  "word_bytes w = [ucast w, ucast (drop_bit 8 w)]"

definition le_bytes :: "u16 list \<Rightarrow> byte list" where
  "le_bytes ws = concat (map word_bytes ws)"

definition htons :: "u16 \<Rightarrow> u16" where
  "htons w = word_cat (ucast w :: byte) (ucast (drop_bit 8 w) :: byte)"

lemma word_cat_parts: "word_cat (ucast (drop_bit 8 (w :: u16)) :: byte) (ucast w :: byte) = w"
  by (rule bit_word_eqI) (auto simp: bit_simps)

lemma cat_parts:
  "ucast (word_cat (h :: byte) (l :: byte) :: u16) = l"
  "ucast (drop_bit 8 (word_cat (h :: byte) (l :: byte) :: u16)) = h"
  by (rule bit_word_eqI; auto simp: bit_simps)+

lemma le_words_bytes [simp]: "le_words (le_bytes ws @ b) = ws @ le_words b"
  by (induction ws) (simp_all add: le_bytes_def word_bytes_def word_cat_parts)

lemma le_bytes_simps:
  "le_bytes [] = []" "le_bytes (w # ws) = word_bytes w @ le_bytes ws"
  "le_bytes (ws @ vs) = le_bytes ws @ le_bytes vs"
  by (induction ws) (simp_all add: le_bytes_def)

lemma length_le_bytes [simp]: "length (word_bytes w) = 2" "length (le_bytes ws) = 2 * length ws"
  by (induction ws) (simp_all add: le_bytes_def word_bytes_def)

lemma take_le_bytes: "2 * n \<le> 2 * length ws \<Longrightarrow> take (2 * n) (le_bytes ws @ b) = le_bytes (take n ws)"
proof (induction ws arbitrary: n)
  case (Cons w ws)
  then show ?case by (cases n) (simp_all add: le_bytes_simps word_bytes_def)
qed (simp add: le_bytes_simps)

lemma drop_le_bytes: "2 * n \<le> 2 * length ws \<Longrightarrow> drop (2 * n) (le_bytes ws @ b) = le_bytes (drop n ws) @ b"
proof (induction ws arbitrary: n)
  case (Cons w ws)
  then show ?case by (cases n) (simp_all add: le_bytes_simps word_bytes_def)
qed (simp add: le_bytes_simps)

lemma le_words_bytes_only [simp]: "le_words (le_bytes ws) = ws"
  using le_words_bytes [of ws "[]"] by simp

lemma le_bytes_words: "even (length b) \<Longrightarrow> le_bytes (le_words b) = b"
  by (induction b rule: le_words.induct) (simp_all add: le_bytes_simps word_bytes_def cat_parts)

lemma length_le_words: "length (le_words b) = length b div 2"
  by (induction b rule: le_words.induct) auto

lemma htons_bytes: "word_bytes (htons w) = [ucast (drop_bit 8 w), ucast w]"
  by (simp add: word_bytes_def htons_def cat_parts)

lemma htons_htons [simp]: "htons (htons w) = w"
  by (simp add: htons_def cat_parts word_cat_parts)

end
