(* ===== verification/Hv_Inject.thy ===== *)
theory Hv_Inject
  imports Hv_State Checksum
begin

text \<open>
  \<open>controlpackets/inject.c\<close>: a datagram is sent to a control plane as a raw IPv4 packet that the
  hypervisor builds itself. What \<open>socket\<close> and \<open>sendto\<close> answer are arguments.
\<close>

text \<open>\<open>header[0..9]\<close> with the checksum still zero. \<open>header[1]\<close> is in host order.\<close>

definition ipv4_header :: "ipv4_datagram \<Rightarrow> u16 list" where
  "ipv4_header d =
     [htons 0x4500, of_nat (20 + 8 + payload_len d), htons 0x0001, htons 0x0000, htons 0x1111,
      0x0000] @ le_words (sin_addr (source d)) @ le_words (sin_addr (destination d))"

definition checksum_ipv4 :: "u16 list \<Rightarrow> u16" where
  "checksum_ipv4 header = checksum (take 10 header)"

definition checksum_udp :: "u16 list \<Rightarrow> byte list \<Rightarrow> u16" where
  "checksum_udp header pl =
     (let pseudo_header =
            [header ! 6, header ! 7, header ! 8, header ! 9, htons 0x0011,
             htons (8 + of_nat (length pl)), header ! 10, header ! 11, header ! 12, 0x0000];
          buf = le_bytes pseudo_header @ pl;
          buf = (if odd (length pl) then buf @ [0] else buf)
      in checksum (le_words buf))"

text \<open>The packet: the header with both checksums, then the payload.\<close>

definition build_packet :: "ipv4_datagram \<Rightarrow> byte list option" where
  "build_packet d =
     (case rdn (payload d) 0 (payload_len d) of
        None \<Rightarrow> None
      | Some pl \<Rightarrow>
          let header = ipv4_header d;
              header = header[5 := checksum_ipv4 header];
              header = header @ [sin_port (source d), htons (sin_port (destination d)),
                         htons (8 + of_nat (payload_len d)), 0x0000];
              header = header[13 := checksum_udp header pl]
          in Some (le_bytes header @ pl))"

definition inject_datagram_ipv4 :: "int \<Rightarrow> int \<Rightarrow> ipv4_datagram \<Rightarrow> int handler" where
  "inject_datagram_ipv4 socket_r sendto_r d =
     (if socket_r = -1 then emit [Warn] (-1)
      else case build_packet d of
             None \<Rightarrow> Inl Undef
           | Some buf \<Rightarrow>
               if sendto_r = -1 then emit [SendRaw buf (destination d), Warn] (-1)
               else emit [SendRaw buf (destination d)] 0)"

section \<open>What the receiver checks\<close>

text \<open>Defined on the bytes of a packet with a 20-byte header, as RFC 791 and RFC 768 have it: the
  header words, and the pseudo-header (addresses, protocol 17, UDP length) followed by the UDP
  header and payload, padded to an even length.\<close>

definition ip_header_words :: "byte list \<Rightarrow> u16 list" where
  "ip_header_words pkt = le_words (take 20 pkt)"

definition udp_words :: "byte list \<Rightarrow> u16 list" where
  "udp_words pkt =
     le_words (take 8 (drop 12 pkt) @ [0, 17] @ take 2 (drop 24 pkt) @ drop 20 pkt @
       (if odd (length pkt) then [0] else []))"

definition wf_datagram :: "ipv4_datagram \<Rightarrow> bool" where
  "wf_datagram d \<longleftrightarrow> length (sin_addr (source d)) = 4 \<and> length (sin_addr (destination d)) = 4 \<and>
     payload_len d \<le> length (payload d)"

lemma four_bytes:
  assumes "length b = 4"
  obtains u v where "le_words b = [u, v]" "b = word_bytes u @ word_bytes v"
proof -
  from assms obtain x y z t where b: "b = [x, y, z, t]"
    by (auto simp: length_Suc_conv numeral_eq_Suc)
  show ?thesis
    by (rule that [of "word_cat y x" "word_cat t z"]) (simp_all add: b word_bytes_def cat_parts)
qed

lemma checksum_udp_eq:
  "checksum_udp [h0, h1, h2, h3, h4, h5, s1, s2, d1, d2, sp, dp, len, c] pl =
     checksum ([s1, s2, d1, d2, htons 0x0011, htons (8 + of_nat (length pl)), sp, dp, len] @
       0 # le_words (pl @ (if odd (length pl) then [0] else [])))"
  by (simp add: checksum_udp_def Let_def)

lemma word_bytes_protocol: "word_bytes (htons 0x0011) = [0, 17]"
  by (simp add: htons_bytes)

lemma build_packet_parts:
  assumes "wf_datagram d" and "build_packet d = Some pkt"
  obtains s1 s2 d1 d2 c1 c2 pl where
    "pl = take (payload_len d) (payload d)" "length pl = payload_len d"
    "sin_addr (source d) = word_bytes s1 @ word_bytes s2"
    "sin_addr (destination d) = word_bytes d1 @ word_bytes d2"
    "c1 = checksum ([htons 0x4500, of_nat (28 + payload_len d), htons 1, htons 0, htons 0x1111] @
      0 # [s1, s2, d1, d2])"
    "c2 = checksum ([s1, s2, d1, d2, htons 0x0011, htons (8 + of_nat (payload_len d)),
       sin_port (source d), htons (sin_port (destination d)), htons (8 + of_nat (payload_len d))] @
       0 # le_words (pl @ (if odd (length pl) then [0] else [])))"
    "pkt = le_bytes ([htons 0x4500, of_nat (28 + payload_len d), htons 1, htons 0, htons 0x1111, c1,
       s1, s2, d1, d2, sin_port (source d), htons (sin_port (destination d)),
       htons (8 + of_nat (payload_len d)), c2]) @ pl"
proof -
  define pl where "pl = take (payload_len d) (payload d)"
  have pl: "rdn (payload d) 0 (payload_len d) = Some pl" "length pl = payload_len d"
    using assms(1) by (simp_all add: wf_datagram_def rdn_def pl_def)
  from assms(1) obtain s1 s2 d1 d2 where
    w: "le_words (sin_addr (source d)) = [s1, s2]" "sin_addr (source d) = word_bytes s1 @ word_bytes s2"
    "le_words (sin_addr (destination d)) = [d1, d2]"
    "sin_addr (destination d) = word_bytes d1 @ word_bytes d2"
    unfolding wf_datagram_def by (metis four_bytes)
  have h: "ipv4_header d = [htons 0x4500, of_nat (28 + payload_len d), htons 1, htons 0, htons 0x1111,
      0, s1, s2, d1, d2]"
    by (simp add: ipv4_header_def w(1,3))
  show ?thesis
    using assms(2) unfolding build_packet_def pl option.case Let_def h
    by (intro that [OF pl_def pl(2) w(2) w(4) refl refl])
       (simp add: checksum_ipv4_def checksum_udp_eq pl(2))
qed

text \<open>
  C12: every packet the hypervisor injects passes the receiver's checks: the ones' complement sum
  of the IP header is all ones, and so is that of the UDP pseudo-header, header and padded
  payload, recomputed from the bytes of the packet; and the packet is addressed as the datagram
  says, with the destination port in network order and the payload unchanged.
\<close>

theorem injected_packet_is_valid:
  assumes "wf_datagram d" and "build_packet d = Some pkt"
  shows "valid_words (ip_header_words pkt) \<and> valid_words (udp_words pkt) \<and>
    take 4 (drop 12 pkt) = sin_addr (source d) \<and> take 4 (drop 16 pkt) = sin_addr (destination d) \<and>
    take 2 (drop 22 pkt) = [ucast (drop_bit 8 (sin_port (destination d))), ucast (sin_port (destination d))] \<and>
    drop 28 pkt = take (payload_len d) (payload d)"
proof (rule build_packet_parts [OF assms])
  fix s1 s2 d1 d2 c1 c2 :: u16 and pl :: "byte list"
  let ?ip = "[htons 0x4500, of_nat (28 + payload_len d), htons 1, htons 0, htons 0x1111]"
  let ?udp = "[s1, s2, d1, d2, htons 0x0011, htons (8 + of_nat (payload_len d)),
     sin_port (source d), htons (sin_port (destination d)), htons (8 + of_nat (payload_len d))]"
  let ?data = "pl @ (if odd (length pl) then [0] else [])"
  let ?hs = "?ip @ c1 # [s1, s2, d1, d2, sin_port (source d), htons (sin_port (destination d)),
       htons (8 + of_nat (payload_len d)), c2]"
  assume pl: "pl = take (payload_len d) (payload d)" "length pl = payload_len d"
    and s: "sin_addr (source d) = word_bytes s1 @ word_bytes s2"
    and dd: "sin_addr (destination d) = word_bytes d1 @ word_bytes d2"
    and c1: "c1 = checksum (?ip @ 0 # [s1, s2, d1, d2])"
    and c2: "c2 = checksum (?udp @ 0 # le_words ?data)"
    and "pkt = le_bytes [htons 0x4500, of_nat (28 + payload_len d), htons 1, htons 0, htons 0x1111, c1,
       s1, s2, d1, d2, sin_port (source d), htons (sin_port (destination d)),
       htons (8 + of_nat (payload_len d)), c2] @ pl"
  then have pkt: "pkt = le_bytes ?hs @ pl" by simp
  have t: "take (2 * n) (drop (2 * m) pkt) = le_bytes (take n (drop m ?hs))" if "m + n \<le> 14" for m n
  proof -
    have "drop (2 * m) pkt = le_bytes (drop m ?hs) @ pl"
      unfolding pkt by (rule drop_le_bytes) (use that in simp)
    moreover have "take (2 * n) (le_bytes (drop m ?hs) @ pl) = le_bytes (take n (drop m ?hs))"
      by (rule take_le_bytes) (use that in simp)
    ultimately show ?thesis by simp
  qed
  have dr: "drop (2 * m) pkt = le_bytes (drop m ?hs) @ pl" if "m \<le> 14" for m
    using that unfolding pkt by (subst drop_le_bytes) simp_all
  have "ip_header_words pkt = ?ip @ c1 # [s1, s2, d1, d2]"
    using t [of 0 10] by (simp add: ip_header_words_def)
  then have 1: "valid_words (ip_header_words pkt)"
    using hv_sum.csum_stored [of ?ip "[s1, s2, d1, d2]" 10] c1 by simp
  have "udp_words pkt = le_words (le_bytes (?udp @ [c2]) @ ?data)"
    using t [of 6 4] t [of 12 1] dr [of 10]
    by (simp add: udp_words_def le_bytes_simps word_bytes_protocol pkt)
  then have "udp_words pkt = ?udp @ c2 # le_words ?data"
    by (simp only: le_words_bytes) simp
  then have 2: "valid_words (udp_words pkt)"
    using hv_sum.csum_stored [of ?udp "le_words ?data" "10 + length (le_words ?data)"]
    unfolding c2 by simp
  show ?thesis
    using 1 2 t [of 6 2] t [of 8 2] t [of 11 1] dr [of 14] s dd pl
    by (simp add: le_bytes_simps htons_bytes)
qed

text \<open>A 3-byte payload for port 61616.\<close>

definition sample_datagram :: ipv4_datagram where
  "sample_datagram =
     \<lparr>source = \<lparr>sin_addr = [192, 0, 2, 1], sin_port = 0xF610\<rparr>,
      destination = \<lparr>sin_addr = [127, 0, 0, 1], sin_port = 61616\<rparr>,
      payload = [1, 2, 3, 4], payload_len = 3\<rparr>"

theorem injected_packet_is_valid_witness:
  "\<exists>pkt. build_packet sample_datagram = Some pkt \<and> valid_words (ip_header_words pkt) \<and>
     valid_words (udp_words pkt) \<and> take 2 (drop 22 pkt) = [240, 176] \<and> drop 28 pkt = [1, 2, 3]"
proof -
  have wf: "wf_datagram sample_datagram" by (simp add: wf_datagram_def sample_datagram_def)
  obtain pkt where pkt: "build_packet sample_datagram = Some pkt"
    by (simp add: build_packet_def sample_datagram_def rdn_def Let_def)
  show ?thesis
    using injected_packet_is_valid [OF wf pkt] pkt by (simp add: sample_datagram_def)
qed

end
