(* ===== verification/Hv_Parse_Datagram.thy ===== *)
theory Hv_Parse_Datagram
  imports Hv_Common
begin

text \<open>
  \<open>controlpackets/parsedatagram.c\<close>: the significant EID of a LISP control datagram. A datagram is
  the receive buffer (the bytes after the message are what earlier datagrams left there) and the
  length of the message; a pointer into the buffer is the rest of the buffer from there. A read
  outside the buffer makes the result \<open>None\<close>. \<open>skip_afi_address_couple\<close> returns \<open>Some None\<close> for
  the C result \<open>-1\<close>.
\<close>

definition AFI_EMPTY :: u16 where "AFI_EMPTY = 0"
definition AFI_IPV4 :: u16 where "AFI_IPV4 = 1"
definition AFI_IPV6 :: u16 where "AFI_IPV6 = 2"

definition LISP_PKTTYPE_MAPREQUEST :: byte where "LISP_PKTTYPE_MAPREQUEST = 1"
definition LISP_PKTTYPE_MAPREPLY :: byte where "LISP_PKTTYPE_MAPREPLY = 2"
definition LISP_PKTTYPE_NOTIFY :: byte where "LISP_PKTTYPE_NOTIFY = 4"
definition LISP_PKTTYPE_ENCAPSULATED :: byte where "LISP_PKTTYPE_ENCAPSULATED = 8"

lemmas afi_defs = AFI_EMPTY_def AFI_IPV4_def AFI_IPV6_def
lemmas pkttype_defs = LISP_PKTTYPE_MAPREQUEST_def LISP_PKTTYPE_MAPREPLY_def
  LISP_PKTTYPE_NOTIFY_def LISP_PKTTYPE_ENCAPSULATED_def

definition skip_afi_address_couple :: "byte list \<Rightarrow> nat \<Rightarrow> nat option option" where
  "skip_afi_address_couple datagram offset = do {
     afi \<leftarrow> rd16be datagram offset;
     Some (if afi = AFI_EMPTY then Some (offset + 2 + 0)
           else if afi = AFI_IPV4 then Some (offset + 2 + 4)
           else if afi = AFI_IPV6 then Some (offset + 2 + 16)
           else None) }"

definition process_afi_address_couple :: "byte list \<Rightarrow> ipv6_prefix \<Rightarrow> ipv6_prefix option" where
  "process_afi_address_couple afi_ptr significant_eid = do {
     afi \<leftarrow> rd16be afi_ptr 0;
     if afi = AFI_IPV4 then do {
       a \<leftarrow> rdn afi_ptr 2 4;
       Some (significant_eid\<lparr>prefix := ipv4_mapped a,
               prefix_length := prefix_length significant_eid + 96\<rparr>) }
     else if afi = AFI_IPV6 then do {
       a \<leftarrow> rdn afi_ptr 2 16;
       Some (significant_eid\<lparr>prefix := a\<rparr>) }
     else if afi = AFI_EMPTY then Some (get_undefined_eid UPRFX_EMPTYAFI)
     else Some (get_undefined_eid UPRFX_UNKNIP) }"

text \<open>The loop over the ITR-RLOCs: \<open>Some None\<close> when one is malformed or the message ends.\<close>

fun skip_rlocs :: "byte list \<Rightarrow> nat \<Rightarrow> nat \<Rightarrow> nat \<Rightarrow> nat option option" where
  "skip_rlocs datagram len 0 offset = Some (Some offset)"
| "skip_rlocs datagram len (Suc n) offset =
     (case skip_afi_address_couple datagram offset of
        None \<Rightarrow> None
      | Some None \<Rightarrow> Some None
      | Some (Some offset') \<Rightarrow>
          if len \<le> offset' then Some None else skip_rlocs datagram len n offset')"

definition extract_eid_maprequest :: "byte list \<Rightarrow> nat \<Rightarrow> ipv6_prefix option" where
  "extract_eid_maprequest datagram len =
     (case skip_rlocs datagram len 1 12 of
        None \<Rightarrow> None
      | Some None \<Rightarrow> Some (get_undefined_eid UPRFX_MALFORMED)
      | Some (Some offset) \<Rightarrow> do {
          b \<leftarrow> rd8 datagram 2;
          r \<leftarrow> skip_rlocs datagram len (unat ((b AND 0x1F) + 1)) offset;
          case r of
            None \<Rightarrow> Some (get_undefined_eid UPRFX_MALFORMED)
          | Some offset \<Rightarrow> do {
              msk \<leftarrow> rd8 datagram (offset + 1);
              process_afi_address_couple (drop (offset + 2) datagram)
                \<lparr>prefix = replicate 16 0, prefix_length = msk, reason = PRFX_ASIS\<rparr> } })"

text \<open>The length of the encapsulation header: the LISP header, the outer IP header, UDP.\<close>

definition inner_offset :: "byte \<Rightarrow> nat option" where
  "inner_offset b =
     (let ip_version = drop_bit 4 (b AND 0xF0)
      in if ip_version = 4 then Some (4 + unat (b AND 0x0F) * 4 + 8)
         else if ip_version = 6 then Some (4 + 40 + 8)
         else None)"

lemma inner_offset_pos: "inner_offset b = Some k \<Longrightarrow> 12 \<le> k"
  by (auto simp: inner_offset_def Let_def split: if_splits)

function extract_eid_cp :: "byte list \<Rightarrow> nat \<Rightarrow> ipv6_prefix option"
  and extract_eid_encapsulated :: "byte list \<Rightarrow> nat \<Rightarrow> ipv6_prefix option" where
  "extract_eid_cp datagram len =
     (case rd8 datagram 0 of
        None \<Rightarrow> None
      | Some b \<Rightarrow>
          if drop_bit 4 b = LISP_PKTTYPE_MAPREQUEST then extract_eid_maprequest datagram len
          else if drop_bit 4 b = LISP_PKTTYPE_MAPREPLY then Some (get_broadcast_eid BPRFX_MAPREPLY)
          else if drop_bit 4 b = LISP_PKTTYPE_NOTIFY then Some (get_broadcast_eid BPRFX_MAPNOTIFY)
          else if drop_bit 4 b = LISP_PKTTYPE_ENCAPSULATED
          then extract_eid_encapsulated datagram len
          else Some (get_undefined_eid UPRFX_UNKNTYPE))"
| "extract_eid_encapsulated datagram len =
     (case rd8 datagram 4 of
        None \<Rightarrow> None
      | Some b \<Rightarrow>
          (case inner_offset b of
             None \<Rightarrow> Some (get_undefined_eid UPRFX_UNKNIP)
           | Some offset \<Rightarrow>
               if len \<le> offset then Some (get_undefined_eid UPRFX_MALFORMED)
               else extract_eid_cp (drop offset datagram) (len - offset)))"
  by pat_completeness auto
termination
  by (relation "measure (case_sum (\<lambda>(d, len). 2 * len + 1) (\<lambda>(d, len). 2 * len))")
     (auto dest: inner_offset_pos)

declare extract_eid_cp.simps [simp del] extract_eid_encapsulated.simps [simp del]

section \<open>Bounds\<close>

lemma skip_afi_bounds:
  "Suc offset < length d \<Longrightarrow> \<exists>r. skip_afi_address_couple d offset = Some r \<and>
     (\<forall>o'. r = Some o' \<longrightarrow> offset < o')"
  by (simp add: skip_afi_address_couple_def rd16be_in)

lemma skip_rlocs_bounds:
  "len < length d \<Longrightarrow> offset < len \<or> n = 0 \<or> Suc offset < length d \<Longrightarrow>
   \<exists>r. skip_rlocs d len n offset = Some r \<and>
     (\<forall>o'. r = Some o' \<longrightarrow> (0 < n \<longrightarrow> o' < len) \<and> offset \<le> o')"
proof (induction n arbitrary: offset)
  case 0
  then show ?case by simp
next
  case (Suc n)
  then have "Suc offset < length d" by auto
  from skip_afi_bounds [OF this] obtain r where
    r: "skip_afi_address_couple d offset = Some r" "\<And>o'. r = Some o' \<Longrightarrow> offset < o'" by blast
  show ?case
  proof (cases r)
    case None
    with r(1) show ?thesis by simp
  next
    case (Some o')
    show ?thesis
    proof (cases "len \<le> o'")
      case True
      with r(1) Some show ?thesis by simp
    next
      case False
      with Suc.IH [of o'] Suc.prems(1) obtain r' where
        "skip_rlocs d len n o' = Some r'" "\<And>o''. r' = Some o'' \<Longrightarrow> (0 < n \<longrightarrow> o'' < len) \<and> o' \<le> o''"
        by auto
      with r Some False show ?thesis
        by (cases n) fastforce+
    qed
  qed
qed

lemma process_afi_total: "18 \<le> length p \<Longrightarrow> \<exists>e. process_afi_address_couple p s = Some e"
  by (auto simp: process_afi_address_couple_def rd16be_in rdn_in)

lemma process_afi_wf:
  "process_afi_address_couple p s = Some e \<Longrightarrow> wf_prefix e"
  by (auto simp: process_afi_address_couple_def Option.bind_eq_Some_conv wf_prefix_def
      wf_eid_prefix [OF wf_special(1), unfolded wf_prefix_def] dest: rdn_length split: if_splits)

lemma extract_eid_maprequest_total:
  assumes "len + 19 \<le> length d"
  shows "\<exists>e. extract_eid_maprequest d len = Some e \<and> wf_prefix e"
proof -
  from skip_rlocs_bounds [of len d 12 1] assms obtain r where
    r: "skip_rlocs d len 1 12 = Some r" "\<And>o'. r = Some o' \<Longrightarrow> o' < len" by auto
  show ?thesis
  proof (cases r)
    case None
    with r(1) show ?thesis by (simp add: extract_eid_maprequest_def wf_eid_prefix)
  next
    case (Some off)
    obtain b where b: "rd8 d 2 = Some b" using assms by (simp add: rd8_def)
    define n where "n = unat ((b AND 0x1F) + 1)"
    have off: "off < len" using r(2) Some by simp
    with skip_rlocs_bounds [of len d off n] assms obtain r' where
      r': "skip_rlocs d len n off = Some r'" "\<And>o'. r' = Some o' \<Longrightarrow> (0 < n \<longrightarrow> o' < len)" by auto
    show ?thesis
    proof (cases r')
      case None
      with r(1) r'(1) Some b show ?thesis
        by (simp add: extract_eid_maprequest_def n_def [symmetric] wf_eid_prefix)
    next
      case (Some off')
      have "off' < len"
        using r' Some off by (cases "n = 0") auto
      then obtain msk where msk: "rd8 d (off' + 1) = Some msk" "18 \<le> length (drop (off' + 2) d)"
        using assms by (simp add: rd8_def)
      from process_afi_total [OF msk(2)] obtain e where
        e: "process_afi_address_couple (drop (off' + 2) d)
          \<lparr>prefix = replicate 16 0, prefix_length = msk, reason = PRFX_ASIS\<rparr> = Some e" by blast
      have "extract_eid_maprequest d len = Some e"
        using r(1) r'(1) \<open>r = Some off\<close> Some b msk(1) e
        by (simp add: extract_eid_maprequest_def n_def [symmetric])
      with process_afi_wf [OF e] show ?thesis by blast
    qed
  qed
qed

lemma extract_eid_total:
  "len + 19 \<le> length d \<Longrightarrow> \<exists>e. extract_eid_cp d len = Some e \<and> wf_prefix e"
  "len + 19 \<le> length d \<Longrightarrow> \<exists>e. extract_eid_encapsulated d len = Some e \<and> wf_prefix e"
proof (induction d len and d len rule: extract_eid_cp_extract_eid_encapsulated.induct)
  case (1 d len)
  have "0 < length d" using 1(2) by linarith
  then obtain b where "rd8 d 0 = Some b" by (auto simp: rd8_def)
  with 1 extract_eid_maprequest_total [of len d] show ?case
    by (auto simp: extract_eid_cp.simps [of d len] pkttype_defs wf_eid_prefix)
next
  case (2 d len)
  then obtain b where b: "rd8 d 4 = Some b" by (auto simp: rd8_def)
  show ?case
  proof (cases "inner_offset b")
    case None
    with b show ?thesis by (simp add: extract_eid_encapsulated.simps [of d len] wf_eid_prefix)
  next
    case (Some k)
    show ?thesis
    proof (cases "len \<le> k")
      case True
      with b Some show ?thesis by (simp add: extract_eid_encapsulated.simps [of d len] wf_eid_prefix)
    next
      case False
      then have "len - k + 19 \<le> length (drop k d)" using 2(2) by simp
      with 2(1) [OF b Some False] b Some False show ?thesis
        by (simp add: extract_eid_encapsulated.simps [of d len])
    qed
  qed
qed

section \<open>Well-formed messages\<close>

text \<open>The address fields of a Map-Request (AFI 0, 1 and 2) and their encoding.\<close>

datatype afi_addr = NoAddr | V4 "byte list" | V6 "byte list"

fun wf_addr :: "afi_addr \<Rightarrow> bool" where
  "wf_addr NoAddr \<longleftrightarrow> True"
| "wf_addr (V4 a) \<longleftrightarrow> length a = 4"
| "wf_addr (V6 a) \<longleftrightarrow> length a = 16"

fun enc_addr :: "afi_addr \<Rightarrow> byte list" where
  "enc_addr NoAddr = [0, 0]"
| "enc_addr (V4 a) = [0, 1] @ a"
| "enc_addr (V6 a) = [0, 2] @ a"

fun request_eid :: "byte \<Rightarrow> afi_addr \<Rightarrow> ipv6_prefix" where
  "request_eid msk NoAddr = get_undefined_eid UPRFX_EMPTYAFI"
| "request_eid msk (V4 a) =
     \<lparr>prefix = ipv4_mapped a, prefix_length = msk + 96, reason = PRFX_ASIS\<rparr>"
| "request_eid msk (V6 a) = \<lparr>prefix = a, prefix_length = msk, reason = PRFX_ASIS\<rparr>"

text \<open>A Map-Request: type 1, \<open>irc\<close> one less than the number of ITR-RLOCs, the nonce, the source
  EID, the ITR-RLOCs and the first record; \<open>rest\<close> is whatever follows it.\<close>

definition enc_map_request ::
  "byte \<Rightarrow> byte \<Rightarrow> byte \<Rightarrow> byte list \<Rightarrow> afi_addr \<Rightarrow> afi_addr list \<Rightarrow> byte \<Rightarrow> byte \<Rightarrow> afi_addr \<Rightarrow>
   byte list \<Rightarrow> byte list" where
  "enc_map_request flags irc rcount nonce src itrs reserved msk addr rest =
     [0x10 OR (flags AND 0x0F), 0, irc, rcount] @ nonce @ enc_addr src @ concat (map enc_addr itrs) @
     [reserved, msk] @ enc_addr addr @ rest"

text \<open>An encapsulation header: the LISP header of type 8, an IPv4 header of \<open>4 * ihl\<close> bytes, UDP.\<close>

definition enc_outer_ipv4 :: "byte list \<Rightarrow> byte list \<Rightarrow> byte list \<Rightarrow> byte list" where
  "enc_outer_ipv4 reserved ip udp = [0x80] @ reserved @ ip @ udp"

lemma rd16be_shift: "rd16be (xs @ ys) (length xs + i) = rd16be ys i"
  by (simp add: rd16be_def rd8_def nth_append)

lemma rd8_shift: "rd8 (xs @ ys) (length xs + i) = rd8 ys i"
  by (simp add: rd8_def nth_append)

lemma word_cat_small [simp]:
  "word_cat (0 :: byte) (0 :: byte) = (0 :: u16)" "word_cat (0 :: byte) (1 :: byte) = (1 :: u16)"
  "word_cat (0 :: byte) (2 :: byte) = (2 :: u16)"
  by (simp_all add: word_cat_eq' concat_bit_eq)

lemma skip_enc_addr:
  assumes "wf_addr a" and "length pre = off"
  shows "skip_afi_address_couple (pre @ enc_addr a @ suf) off = Some (Some (off + length (enc_addr a)))"
  using assms rd16be_shift [of pre "enc_addr a @ suf" 0]
  by (cases a) (auto simp: skip_afi_address_couple_def afi_defs rd16be_in)

lemma skip_rlocs_enc:
  "\<forall>a\<in>set as. wf_addr a \<Longrightarrow> length pre = off \<Longrightarrow>
   off + length (concat (map enc_addr as)) < len \<Longrightarrow>
   skip_rlocs (pre @ concat (map enc_addr as) @ suf) len (length as) off =
     Some (Some (off + length (concat (map enc_addr as))))"
proof (induction as arbitrary: pre off)
  case Nil
  then show ?case by simp
next
  case (Cons a as)
  have "skip_afi_address_couple (pre @ enc_addr a @ concat (map enc_addr as) @ suf) off =
      Some (Some (off + length (enc_addr a)))"
    by (rule skip_enc_addr) (use Cons.prems in auto)
  with Cons.IH [of "pre @ enc_addr a" "off + length (enc_addr a)"] Cons.prems show ?case
    by (simp add: add.assoc)
qed

lemma process_enc_addr:
  "wf_addr a \<Longrightarrow> process_afi_address_couple (enc_addr a @ suf)
     \<lparr>prefix = z, prefix_length = msk, reason = PRFX_ASIS\<rparr> = Some (request_eid msk a)"
  by (cases a) (auto simp: process_afi_address_couple_def afi_defs rd16be_in rdn_def)

lemma drop_bit_4_type: "drop_bit 4 (0x10 OR (flags AND 0x0F)) = (1 :: byte)"
  by (rule bit_word_eqI) (auto simp: bit_simps less_Suc_eq numeral_eq_Suc)

section \<open>Properties\<close>

text \<open>
  C18: extracting the significant EID of a control datagram always terminates, whatever the bytes
  and however deeply encapsulations nest, and reads at most 19 bytes past the message: with a
  receive buffer that long it returns a 16-byte prefix and never leaves the buffer. (IPv4 UDP
  messages are at most 65507 bytes and the buffer has 65535.)
\<close>

theorem extract_eid_cp_in_bounds:
  assumes "len + 19 \<le> length buf"
  shows "\<exists>e. extract_eid_cp buf len = Some e \<and> length (prefix e) = 16"
  using extract_eid_total(1) [OF assms] by (simp add: wf_prefix_def)

theorem extract_eid_cp_in_bounds_witness:
  "\<exists>e. extract_eid_cp (replicate 40 0) 21 = Some e \<and> length (prefix e) = 16"
  using extract_eid_cp_in_bounds [of 21 "replicate 40 0"] by simp

text \<open>
  C19: a well-formed Map-Request yields exactly the EID prefix of its first record: the address
  itself for IPv6, the IPv4-mapped address with the length moved by 96 for IPv4, and the undefined
  EID when the record is empty, whatever the number of ITR-RLOCs (1 to 32), the source EID, the
  records after the first and the bytes after the message.
\<close>

theorem extract_eid_map_request:
  assumes "length nonce = 8" and "wf_addr src" and "\<forall>a\<in>set itrs. wf_addr a" and "wf_addr addr"
    and "length itrs = unat ((irc AND 0x1F) + 1)"
    and "msg = enc_map_request flags irc rcount nonce src itrs reserved msk addr rest"
  shows "extract_eid_cp (msg @ stale) (length msg) = Some (request_eid msk addr)"
proof -
  define hd4 where "hd4 = [0x10 OR (flags AND 0x0F), 0, irc, rcount] @ nonce"
  define pre2 where "pre2 = hd4 @ enc_addr src"
  define pre3 where "pre3 = pre2 @ concat (map enc_addr itrs)"
  define tl where "tl = [reserved, msk] @ enc_addr addr @ rest @ stale"
  have len12: "length hd4 = 12" using assms(1) by (simp add: hd4_def)
  have buf: "msg @ stale = hd4 @ enc_addr src @ concat (map enc_addr itrs) @ tl"
    using assms(6) by (simp add: enc_map_request_def hd4_def tl_def)
  have buf2: "msg @ stale = pre2 @ concat (map enc_addr itrs) @ tl"
    by (simp add: buf pre2_def)
  have buf3: "msg @ stale = pre3 @ tl" by (simp add: buf2 pre3_def)
  have len: "length pre3 < length msg" "length pre2 \<le> length pre3"
    using assms(6) by (simp_all add: enc_map_request_def pre3_def pre2_def hd4_def)
  have skip: "skip_afi_address_couple (msg @ stale) 12 = Some (Some (length pre2))"
    unfolding buf using skip_enc_addr [OF assms(2) len12] by (simp add: pre2_def len12)
  then have s1: "skip_rlocs (msg @ stale) (length msg) 1 12 = Some (Some (length pre2))"
    using len by simp
  have s2: "skip_rlocs (msg @ stale) (length msg) (length itrs) (length pre2) =
      Some (Some (length pre3))"
    unfolding buf2 using skip_rlocs_enc [OF assms(3) refl, of pre2 "length msg" tl] len
    by (simp add: pre3_def)
  have b2: "rd8 (msg @ stale) 2 = Some irc" and b0: "rd8 (msg @ stale) 0 = Some (0x10 OR (flags AND 0x0F))"
    using assms(6) by (simp_all add: enc_map_request_def rd8_def)
  have m: "rd8 (msg @ stale) (length pre3 + 1) = Some msk"
    unfolding buf3 rd8_shift by (simp add: tl_def rd8_def)
  have d: "drop (Suc (Suc (length pre3))) (msg @ stale) = enc_addr addr @ rest @ stale"
    unfolding buf3 by (simp add: tl_def)
  have "extract_eid_maprequest (msg @ stale) (length msg) = Some (request_eid msk addr)"
    using s1 s2 b2 m process_enc_addr [OF assms(4)]
    by (simp add: extract_eid_maprequest_def assms(5) [symmetric] d del: drop_append)
  then show ?thesis
    using b0 by (simp add: extract_eid_cp.simps drop_bit_4_type LISP_PKTTYPE_MAPREQUEST_def)
qed

theorem extract_eid_map_request_witness:
  "extract_eid_cp (enc_map_request 0 1 1 (replicate 8 7) NoAddr [V4 [192, 0, 2, 1], V6 (replicate 16 1)]
       0 24 (V4 [10, 1, 2, 0]) [] @ [9, 9])
     (length (enc_map_request 0 1 1 (replicate 8 7) NoAddr
       [V4 [192, 0, 2, 1], V6 (replicate 16 1)] 0 24 (V4 [10, 1, 2, 0]) [])) =
   Some \<lparr>prefix = ipv4_mapped [10, 1, 2, 0], prefix_length = 120, reason = PRFX_ASIS\<rparr>"
proof -
  have "length [V4 [192, 0, 2, 1], V6 (replicate 16 1)] = unat (((1 :: byte) AND 0x1F) + 1)" by simp
  then show ?thesis
    using extract_eid_map_request [of "replicate 8 7" NoAddr "[V4 [192, 0, 2, 1], V6 (replicate 16 1)]"
        "V4 [10, 1, 2, 0]" 1 _ 0 1 0 24 "[]" "[9, 9]"] by simp
qed

text \<open>
  The EID of an encapsulated control message is the EID of the message inside it.
\<close>

theorem extract_eid_of_encapsulated:
  assumes "length reserved = 3" and "ip \<noteq> []" and "hd ip AND 0xF0 = 0x40"
    and "length ip = unat (hd ip AND 0x0F) * 4" and "length udp = 8" and "inner \<noteq> []"
    and "msg = enc_outer_ipv4 reserved ip udp @ inner"
  shows "extract_eid_cp (msg @ stale) (length msg) = extract_eid_cp (inner @ stale) (length inner)"
proof -
  have b4: "rd8 (msg @ stale) 4 = Some (hd ip)"
    using assms(1,2,7) rd8_shift [of "[0x80] @ reserved" "ip @ udp @ inner @ stale" 0]
    by (cases ip) (simp_all add: enc_outer_ipv4_def rd8_def)
  have b0: "rd8 (msg @ stale) 0 = Some 0x80"
    using assms(7) by (simp add: enc_outer_ipv4_def rd8_def)
  define k where "k = 4 + unat (hd ip AND 0x0F) * 4 + 8"
  have off: "inner_offset (hd ip) = Some k"
    using assms(3) by (simp add: inner_offset_def k_def)
  have k: "k = length (enc_outer_ipv4 reserved ip udp)"
    using assms(1,4,5) by (simp add: enc_outer_ipv4_def k_def)
  have ln: "\<not> length msg \<le> k" "length msg - k = length inner" "drop k (msg @ stale) = inner @ stale"
    using assms(6,7) by (simp_all add: k)
  show ?thesis
    using b0 b4 off ln
    by (simp add: extract_eid_cp.simps [of "msg @ stale"] extract_eid_encapsulated.simps [of "msg @ stale"]
      pkttype_defs)
qed

theorem extract_eid_of_encapsulated_witness:
  "extract_eid_cp ((enc_outer_ipv4 [0, 0, 0] (0x45 # replicate 19 0) (replicate 8 0) @ [0x20, 1]) @ [])
     (length (enc_outer_ipv4 [0, 0, 0] (0x45 # replicate 19 0) (replicate 8 0) @ [0x20, 1])) =
   extract_eid_cp ([0x20, 1] @ []) (length [0x20, 1 :: byte])"
  using extract_eid_of_encapsulated [of "[0, 0, 0]" "0x45 # replicate 19 0" "replicate 8 0" "[0x20, 1]"
      _ "[]"] by simp

text \<open>A Map-Request that ends right before its EID record.\<close>

definition truncated_request :: "byte list" where
  "truncated_request = [0x10, 0, 0, 1] @ replicate 8 0 @ enc_addr NoAddr @ enc_addr NoAddr @ [0]"

text \<open>
  A truncated Map-Request is not rejected: two buffers that hold the same 17-byte message and
  differ only after it yield different EIDs, each taken from the bytes after the message.
\<close>

theorem extract_eid_reads_stale_bytes:
  assumes "wf_addr addr"
  shows "extract_eid_cp (truncated_request @ [msk] @ enc_addr addr @ stale) (length truncated_request) =
    Some (request_eid msk addr)"
proof -
  define buf where "buf = truncated_request @ [msk] @ enc_addr addr @ stale"
  have b: "rd8 buf 0 = Some 0x10" "rd8 buf 2 = Some 0" "rd8 buf 17 = Some msk"
    "rd16be buf 12 = Some 0" "rd16be buf 14 = Some 0" "drop 18 buf = enc_addr addr @ stale"
    by (simp_all add: buf_def truncated_request_def rd8_def rd16be_def numeral_eq_Suc)
  then have "extract_eid_maprequest buf 17 = Some (request_eid msk addr)"
    using process_enc_addr [OF assms]
    by (simp add: extract_eid_maprequest_def skip_afi_address_couple_def afi_defs)
  with b have "extract_eid_cp buf 17 = Some (request_eid msk addr)"
    by (simp add: extract_eid_cp.simps pkttype_defs)
  then show ?thesis by (simp add: buf_def truncated_request_def)
qed

theorem extract_eid_reads_stale_bytes_witness:
  "extract_eid_cp (truncated_request @ [24] @ enc_addr (V4 [10, 0, 0, 0]) @ []) (length truncated_request) =
     Some (request_eid 24 (V4 [10, 0, 0, 0]))"
  using extract_eid_reads_stale_bytes [of "V4 [10, 0, 0, 0]" 24 "[]"] by simp

end
