(* ===== verification/Hv_Control_Demux.thy ===== *)
theory Hv_Control_Demux
  imports Hv_Inject Hv_Parse_Datagram
begin

text \<open>
  \<open>controlpackets/demux.c\<close>: a LISP control datagram that arrives at UDP port 4342 goes to the
  control plane its significant EID is sorted to, or to all of them. \<open>env n\<close> is what \<open>socket\<close> and
  \<open>sendto\<close> answer at the \<open>n\<close>-th injection of a handler; the handlers change no table.
\<close>

type_synonym inject_env = "nat \<Rightarrow> int \<times> int"

definition inject_at :: "inject_env \<Rightarrow> nat \<Rightarrow> ipv4_datagram \<Rightarrow> u16 \<Rightarrow> int handler" where
  "inject_at env n d p =
     inject_datagram_ipv4 (fst (env n)) (snd (env n))
       (d\<lparr>destination := (destination d)\<lparr>sin_port := p\<rparr>\<rparr>)"

text \<open>The loop of \<open>send_ipv4_datagram_to_all\<close> over the live cells of \<open>control_planes\<close>.\<close>

fun inject_loop ::
  "inject_env \<Rightarrow> nat \<Rightarrow> ipv4_datagram \<Rightarrow> control_plane option list \<Rightarrow> unit handler" where
  "inject_loop env n d [] = emit [] ()"
| "inject_loop env n d (None # cells) = Inl Undef"
| "inject_loop env n d (Some cp # cells) =
     andthen (inject_at env n d (port cp)) (\<lambda>_. inject_loop env (Suc n) d cells)"

definition send_ipv4_datagram_to_all ::
  "inject_env \<Rightarrow> ipv4_datagram \<Rightarrow> hv_tables \<Rightarrow> unit handler" where
  "send_ipv4_datagram_to_all env d st =
     andthen (emit [RdLock CONTROL_PLANES_LOCK] ())
       (\<lambda>_. andthen (inject_loop env 0 d (dyn_live (control_planes st)))
         (\<lambda>_. emit [Unlock CONTROL_PLANES_LOCK] ()))"

definition process_ipv4_datagram ::
  "inject_env \<Rightarrow> ipv4_datagram \<Rightarrow> hv_tables \<Rightarrow> unit handler" where
  "process_ipv4_datagram env d st =
     (case extract_eid_cp (payload d) (payload_len d) of
        None \<Rightarrow> Inl Undef
      | Some significant_eid \<Rightarrow>
          andthen (emit [RdLock CONTROL_PLANES_LOCK, RdLock ASSIGNMENTS_LOCK] ())
            (\<lambda>_. case sort_eid st significant_eid of
               None \<Rightarrow> Inl Undef
             | Some (r, control_plane_index, _) \<Rightarrow>
                 (let unlocked = emit [Unlock ASSIGNMENTS_LOCK, Unlock CONTROL_PLANES_LOCK] ()
                  in if r = SORTING_ONE \<or> r = SORTING_NON then
                       (case Option.bind control_plane_index (dyn_cell (control_planes st)) of
                          None \<Rightarrow> Inl Undef
                        | Some cp \<Rightarrow>
                            andthen unlocked
                              (\<lambda>_. andthen (inject_at env 0 d (port cp)) (\<lambda>_. emit [] ())))
                     else if r = SORTING_ALL then
                       andthen unlocked (\<lambda>_. send_ipv4_datagram_to_all env d st)
                     else unlocked)))"

text \<open>The loop of the listener: \<open>len\<close> is what \<open>recvmsg\<close> returned, \<open>cmsgs\<close> the control messages with
  their level, type and data. The destination is the last one received (\<open>dst0\<close>, what the variable
  held before, when there is none).\<close>

definition IPPROTO_IP :: int where "IPPROTO_IP = 0"

fun received_destination ::
  "int \<Rightarrow> (int \<times> int \<times> byte list) list \<Rightarrow> sockaddr_in \<Rightarrow> sockaddr_in" where
  "received_destination ip_recvdstaddr [] dst = dst"
| "received_destination ip_recvdstaddr ((level, type, a) # cmsgs) dst =
     (if level \<noteq> IPPROTO_IP \<or> type \<noteq> ip_recvdstaddr
      then received_destination ip_recvdstaddr cmsgs dst
      else received_destination ip_recvdstaddr cmsgs \<lparr>sin_addr = a, sin_port = 0\<rparr>)"

definition controlpackets_turn ::
  "int \<Rightarrow> inject_env \<Rightarrow> byte list \<Rightarrow> int \<Rightarrow> sockaddr_in \<Rightarrow> (int \<times> int \<times> byte list) list \<Rightarrow>
   sockaddr_in \<Rightarrow> hv_tables \<Rightarrow> unit handler" where
  "controlpackets_turn ip_recvdstaddr env buf len src cmsgs dst0 st =
     fatal_if (len < 0)
       (process_ipv4_datagram env
          \<lparr>source = src, destination = received_destination ip_recvdstaddr cmsgs dst0,
           payload = buf, payload_len = nat len\<rparr> st)"

section \<open>What is sent\<close>

fun raw_ports :: "event list \<Rightarrow> u16 list" where
  "raw_ports [] = []"
| "raw_ports (SendRaw buf dst # es) = sin_port dst # raw_ports es"
| "raw_ports (_ # es) = raw_ports es"

text \<open>The specification: the ports a datagram with significant EID \<open>e\<close> is for.\<close>

definition undefined_eid :: "ipv6_prefix \<Rightarrow> bool" where
  "undefined_eid e \<longleftrightarrow> list_all (\<lambda>b. b = 0) (prefix e) \<and> prefix_length e = 128"

definition broadcast_eid :: "ipv6_prefix \<Rightarrow> bool" where
  "broadcast_eid e \<longleftrightarrow> list_all (\<lambda>b. b = 0) (prefix e) \<and> prefix_length e = 0"

definition assigned_plane :: "hv_tables \<Rightarrow> ipv6_prefix \<Rightarrow> nat option" where
  "assigned_plane st e =
     map_option assignee_index (scan_best (\<lambda>a. covers (eid a) e) assignment_plen (entries st) None)"

definition control_recipients :: "hv_tables \<Rightarrow> ipv6_prefix \<Rightarrow> u16 list" where
  "control_recipients st e =
     (if planes st = [] \<or> undefined_eid e then []
      else if broadcast_eid e then map port (planes st)
      else case assigned_plane st e of
             Some k \<Rightarrow> [port (planes st ! k)]
           | None \<Rightarrow> [port (planes st ! control_planes_def st)])"

text \<open>The tables are such that every index a lookup can return is a live plane.\<close>

definition routable :: "hv_tables \<Rightarrow> bool" where
  "routable st \<longleftrightarrow> tables_ok st \<and> entries_wf st \<and>
     (planes st \<noteq> [] \<longrightarrow> assignees_ok st \<and> control_planes_def st < length (planes st))"

lemma special_eid_iff: "special_eid e \<longleftrightarrow> undefined_eid e \<or> broadcast_eid e"
  by (auto simp: special_eid_def undefined_eid_def broadcast_eid_def)

lemma sort_eid_undefined:
  "tables_ok st \<Longrightarrow> planes st = [] \<or> undefined_eid e \<Longrightarrow> sort_eid st e = Some (SORTING_ERR, None, e)"
  by (auto simp: sort_eid_def flex_sort_def planes_Nil_iff undefined_eid_def)

lemma sort_eid_broadcast:
  "tables_ok st \<Longrightarrow> planes st \<noteq> [] \<Longrightarrow> broadcast_eid e \<Longrightarrow> sort_eid st e = Some (SORTING_ALL, None, e)"
  by (auto simp: sort_eid_def flex_sort_def planes_Nil_iff broadcast_eid_def)

lemma sort_eid_scan:
  assumes "tables_ok st" and "entries_wf st" and "wf_prefix e" and "planes st \<noteq> []"
    and "\<not> special_eid e"
  shows "\<exists>e'. sort_eid st e = Some
    (case assigned_plane st e of
       None \<Rightarrow> (SORTING_NON, Some (control_planes_def st), e')
     | Some k \<Rightarrow> (SORTING_ONE, Some k, e'))"
  using flex_sort_scan [OF assms, of False]
  by (auto simp: sort_eid_def assigned_plane_def sel_False [abs_def] split: option.splits)

lemma sort_eid_assigned:
  assumes "routable st" and "wf_prefix e" and "planes st \<noteq> []" and "\<not> special_eid e"
  shows "\<exists>e'. sort_eid st e = Some
    (case assigned_plane st e of
       None \<Rightarrow> (SORTING_NON, Some (control_planes_def st), e')
     | Some k \<Rightarrow> (SORTING_ONE, Some k, e'))"
    and "\<And>k. assigned_plane st e = Some k \<Longrightarrow> k < length (planes st)"
proof -
  have ok: "tables_ok st" "entries_wf st" "assignees_ok st"
    using assms by (simp_all add: routable_def)
  show "\<exists>e'. sort_eid st e = Some
    (case assigned_plane st e of
       None \<Rightarrow> (SORTING_NON, Some (control_planes_def st), e')
     | Some k \<Rightarrow> (SORTING_ONE, Some k, e'))"
    by (rule sort_eid_scan [OF ok(1,2) assms(2-4)])
  show "k < length (planes st)" if "assigned_plane st e = Some k" for k
    using that ok(3) scan_best_sound [of "\<lambda>a. covers (eid a) e" assignment_plen "entries st"]
    by (auto simp: assigned_plane_def assignees_ok_def dest: is_lpm_max)
qed

lemma plane_cell:
  "tables_ok st \<Longrightarrow> k < length (planes st) \<Longrightarrow> dyn_cell (control_planes st) k = Some (planes st ! k)"
  by (simp add: length_planes) (simp add: tables_ok_def planes_def dyn_cell_live)

lemma live_planes: "tables_ok st \<Longrightarrow> dyn_live (control_planes st) = map Some (planes st)"
  by (simp add: tables_ok_def planes_def dyn_live_eq)

text \<open>One injection with working sockets.\<close>

lemma inject_at_ok:
  assumes "payload_len d \<le> length (payload d)" and "\<forall>i. fst (env i) \<noteq> -1 \<and> snd (env i) \<noteq> -1"
  shows "\<exists>pkt. inject_at env n d p =
    emit [SendRaw pkt ((destination d)\<lparr>sin_port := p\<rparr>)] 0"
  using assms by (auto simp: inject_at_def inject_datagram_ipv4_def build_packet_def rdn_def Let_def)

lemma inject_loop_ok:
  assumes "payload_len d \<le> length (payload d)" and "\<forall>i. fst (env i) \<noteq> -1 \<and> snd (env i) \<noteq> -1"
  shows "\<exists>evs. inject_loop env n d (map Some cps) = Inr ((), evs) \<and> raw_ports evs = map port cps \<and>
    (\<forall>w r rest. guarded w r (evs @ rest) = guarded w r rest)"
proof (induction cps arbitrary: n)
  case Nil
  then show ?case by (simp add: emit_def)
next
  case (Cons cp cps)
  from Cons [of "Suc n"] obtain evs where evs:
    "inject_loop env (Suc n) d (map Some cps) = Inr ((), evs)" "raw_ports evs = map port cps"
    "\<forall>w r rest. guarded w r (evs @ rest) = guarded w r rest" by blast
  from inject_at_ok [OF assms, of n "port cp"] obtain pkt where
    "inject_at env n d (port cp) = emit [SendRaw pkt ((destination d)\<lparr>sin_port := port cp\<rparr>)] 0"
    by blast
  with evs show ?case by (simp add: andthen_def emit_def)
qed

lemma raw_ports_append [simp]: "raw_ports (a @ b) = raw_ports a @ raw_ports b"
  by (induction a rule: raw_ports.induct) auto

lemma process_ipv4_datagram_delivered:
  assumes "routable st" and "payload_len d + 19 \<le> length (payload d)"
    and "\<forall>i. fst (env i) \<noteq> -1 \<and> snd (env i) \<noteq> -1"
  shows "\<exists>e evs. extract_eid_cp (payload d) (payload_len d) = Some e \<and>
    process_ipv4_datagram env d st = Inr ((), evs) \<and>
    raw_ports evs = control_recipients st e \<and> guarded {} {} evs"
proof -
  from extract_eid_total(1) [OF assms(2)] obtain e where
    e: "extract_eid_cp (payload d) (payload_len d) = Some e" "wf_prefix e" by blast
  have ok: "tables_ok st" using assms(1) by (simp add: routable_def)
  have len: "payload_len d \<le> length (payload d)" using assms(2) by simp
  consider (none) "planes st = [] \<or> undefined_eid e"
    | (all) "planes st \<noteq> []" "\<not> undefined_eid e" "broadcast_eid e"
    | (route) "planes st \<noteq> []" "\<not> special_eid e"
    by (auto simp: special_eid_iff)
  then show ?thesis
  proof cases
    case none
    then show ?thesis
      using e sort_eid_undefined [OF ok none]
      by (simp add: process_ipv4_datagram_def control_recipients_def andthen_def emit_def Let_def)
  next
    case all
    from inject_loop_ok [OF len assms(3), of 0 "planes st"] obtain evs where
      "inject_loop env 0 d (map Some (planes st)) = Inr ((), evs)"
      "raw_ports evs = map port (planes st)"
      "\<forall>w r rest. guarded w r (evs @ rest) = guarded w r rest" by blast
    with all show ?thesis
      using e sort_eid_broadcast [OF ok all(1,3)]
      by (simp add: process_ipv4_datagram_def control_recipients_def andthen_def emit_def Let_def
        send_ipv4_datagram_to_all_def live_planes [OF ok])
  next
    case route
    define k where "k = (case assigned_plane st e of None \<Rightarrow> control_planes_def st | Some k \<Rightarrow> k)"
    have k: "k < length (planes st)"
      using sort_eid_assigned(2) [OF assms(1) e(2) route] assms(1) route
      by (auto simp: k_def routable_def split: option.splits)
    from inject_at_ok [OF len assms(3), of 0 "port (planes st ! k)"] obtain pkt where
      "inject_at env 0 d (port (planes st ! k)) =
         emit [SendRaw pkt ((destination d)\<lparr>sin_port := port (planes st ! k)\<rparr>)] 0" by blast
    moreover from sort_eid_assigned(1) [OF assms(1) e(2) route] obtain r e' where
      "sort_eid st e = Some (r, Some k, e')" "r = SORTING_ONE \<or> r = SORTING_NON"
      by (auto simp: k_def split: option.splits)
    moreover have "control_recipients st e = [port (planes st ! k)]"
      using route by (auto simp: control_recipients_def k_def special_eid_iff split: option.splits)
    ultimately show ?thesis
      using e plane_cell [OF ok k]
      by (auto simp: process_ipv4_datagram_def andthen_def emit_def Let_def)
  qed
qed

text \<open>
  C9: when every assignment names a live plane, a control datagram is delivered to exactly the
  ports its significant EID calls for: to the plane of the longest assigned prefix, to the default
  plane when no prefix covers it, to every plane in order when it is the broadcast EID, to none
  when it is undefined; the handler never faults, and takes and releases both locks properly.
\<close>

theorem process_ipv4_datagram_delivers:
  assumes "routable st" and "payload_len d + 19 \<le> length (payload d)"
    and "\<forall>i. fst (env i) \<noteq> -1 \<and> snd (env i) \<noteq> -1"
  shows "\<exists>e evs. extract_eid_cp (payload d) (payload_len d) = Some e \<and>
    process_ipv4_datagram env d st = Inr ((), evs) \<and>
    raw_ports evs = control_recipients st e \<and> guarded {} {} evs"
  by (rule process_ipv4_datagram_delivered [OF assms])

text \<open>The sample planes, and a Map-Request for 10.1.2.3/32 without a source EID.\<close>

definition sample_request :: ipv4_datagram where
  "sample_request =
     \<lparr>source = \<lparr>sin_addr = [192, 0, 2, 1], sin_port = 0xF610\<rparr>,
      destination = \<lparr>sin_addr = [192, 0, 2, 9], sin_port = 0\<rparr>,
      payload = [0x10, 0, 0, 1] @ replicate 8 0 @ [0, 0, 0, 1, 192, 0, 2, 1] @
        [0, 32, 0, 1, 10, 1, 2, 3] @ replicate 40 0, payload_len = 28\<rparr>"

lemma sample_routable: "routable sample_tables"
  by (simp add: routable_def assignees_ok_def)

theorem process_ipv4_datagram_delivers_witness:
  "\<exists>e evs. extract_eid_cp (payload sample_request) (payload_len sample_request) = Some e \<and>
    process_ipv4_datagram (\<lambda>i. (3, 0)) sample_request sample_tables = Inr ((), evs) \<and>
    raw_ports evs = control_recipients sample_tables e \<and> guarded {} {} evs"
  using process_ipv4_datagram_delivers [OF sample_routable, of sample_request "\<lambda>i. (3, 0)"]
  by (simp add: sample_request_def)

end
