(* ===== verification/Hv_Map_Demux.thy ===== *)
theory Hv_Map_Demux
  imports Hv_Control_Demux Hv_Parse_Message
begin

text \<open>
  \<open>mapmessages/demux.c\<close>: a message the kernel's map table sends (a cache miss, an acknowledgement)
  is passed to the control plane its EID is sorted to; when there is no single one it is broadcast
  to all. \<open>wr n\<close> is what \<open>write\<close> answers at the \<open>n\<close>-th write of a handler. The length that \<open>read\<close>
  returned is not checked: a negative one reaches \<open>write\<close> as a huge size, which is \<open>Undef\<close>.
\<close>

definition write_socket :: "(nat \<Rightarrow> int) \<Rightarrow> nat \<Rightarrow> int \<Rightarrow> byte list \<Rightarrow> int \<Rightarrow> unit handler" where
  "write_socket wr n s buf msg_len =
     (if msg_len < 0 \<or> int (length buf) < msg_len then Inl Undef
      else emit (WriteSocket s (take (nat msg_len) buf) # (if wr n = -1 then [Warn] else [])) ())"

text \<open>The broadcast loop over the live cells.\<close>

fun broadcast_loop ::
  "(nat \<Rightarrow> int) \<Rightarrow> nat \<Rightarrow> byte list \<Rightarrow> int \<Rightarrow> control_plane option list \<Rightarrow> unit handler" where
  "broadcast_loop wr n buf msg_len [] = emit [] ()"
| "broadcast_loop wr n buf msg_len (None # cells) = Inl Undef"
| "broadcast_loop wr n buf msg_len (Some cp # cells) =
     andthen (write_socket wr n (socket_descriptor cp) buf msg_len)
       (\<lambda>_. broadcast_loop wr (Suc n) buf msg_len cells)"

definition demux_message ::
  "sockaddr_abi \<Rightarrow> (nat \<Rightarrow> int) \<Rightarrow> byte list \<Rightarrow> int \<Rightarrow> hv_tables \<Rightarrow> unit handler" where
  "demux_message abi wr buf msg_len st =
     (case extract_eid_mm abi buf of
        None \<Rightarrow> Inl Undef
      | Some significant_eid \<Rightarrow>
          andthen (emit [RdLock CONTROL_PLANES_LOCK, RdLock ASSIGNMENTS_LOCK] ())
            (\<lambda>_. case sort_eid st significant_eid of
               None \<Rightarrow> Inl Undef
             | Some (r, control_plane_index, _) \<Rightarrow>
                 (let unlocked = emit [Unlock ASSIGNMENTS_LOCK, Unlock CONTROL_PLANES_LOCK] ()
                  in if r = SORTING_ONE then
                       (case Option.bind control_plane_index (dyn_cell (control_planes st)) of
                          None \<Rightarrow> Inl Undef
                        | Some cp \<Rightarrow>
                            andthen unlocked
                              (\<lambda>_. write_socket wr 0 (socket_descriptor cp) buf msg_len))
                     else
                       andthen unlocked
                         (\<lambda>_. andthen (emit [RdLock CONTROL_PLANES_LOCK] ())
                           (\<lambda>_. andthen (broadcast_loop wr 0 buf msg_len (dyn_live (control_planes st)))
                             (\<lambda>_. emit [Unlock CONTROL_PLANES_LOCK] ()))))))"

section \<open>What is written\<close>

fun socket_writes :: "event list \<Rightarrow> (int \<times> byte list) list" where
  "socket_writes [] = []"
| "socket_writes (WriteSocket s b # es) = (s, b) # socket_writes es"
| "socket_writes (_ # es) = socket_writes es"

definition map_recipients :: "hv_tables \<Rightarrow> ipv6_prefix \<Rightarrow> int list" where
  "map_recipients st e =
     (if planes st = [] then []
      else if special_eid e then map socket_descriptor (planes st)
      else case assigned_plane st e of
             Some k \<Rightarrow> [socket_descriptor (planes st ! k)]
           | None \<Rightarrow> map socket_descriptor (planes st))"

lemma socket_writes_append [simp]: "socket_writes (a @ b) = socket_writes a @ socket_writes b"
  by (induction a rule: socket_writes.induct) auto

lemma broadcast_loop_ok:
  assumes "0 \<le> msg_len" and "msg_len \<le> int (length buf)"
  shows "\<exists>evs. broadcast_loop wr n buf msg_len (map Some cps) = Inr ((), evs) \<and>
    socket_writes evs = map (\<lambda>cp. (socket_descriptor cp, take (nat msg_len) buf)) cps \<and>
    (\<forall>w r rest. guarded w r (evs @ rest) = guarded w r rest)"
proof (induction cps arbitrary: n)
  case Nil
  then show ?case by (simp add: emit_def)
next
  case (Cons cp cps)
  from Cons [of "Suc n"] obtain evs where
    "broadcast_loop wr (Suc n) buf msg_len (map Some cps) = Inr ((), evs)"
    "socket_writes evs = map (\<lambda>cp. (socket_descriptor cp, take (nat msg_len) buf)) cps"
    "\<forall>w r rest. guarded w r (evs @ rest) = guarded w r rest" by blast
  with assms show ?case by (simp add: andthen_def emit_def write_socket_def)
qed

lemma broadcast_when_not_one:
  assumes "tables_ok st" and "extract_eid_mm abi buf = Some e"
    and "sort_eid st e = Some (r, idx, e')" and "r \<noteq> SORTING_ONE"
    and "0 \<le> msg_len" and "msg_len \<le> int (length buf)"
  shows "\<exists>evs. demux_message abi wr buf msg_len st = Inr ((), evs) \<and>
    socket_writes evs = map (\<lambda>cp. (socket_descriptor cp, take (nat msg_len) buf)) (planes st) \<and>
    guarded {} {} evs"
proof -
  from broadcast_loop_ok [OF assms(5,6), of wr 0 "planes st"] obtain evs where
    "broadcast_loop wr 0 buf msg_len (map Some (planes st)) = Inr ((), evs)"
    "socket_writes evs = map (\<lambda>cp. (socket_descriptor cp, take (nat msg_len) buf)) (planes st)"
    "\<forall>w r rest. guarded w r (evs @ rest) = guarded w r rest" by blast
  with assms show ?thesis
    by (simp add: demux_message_def andthen_def emit_def Let_def live_planes)
qed

text \<open>
  C16: when every assignment names a live plane, a message from the map table of at most the buffer's
  size is written, unchanged, to exactly the sockets its EID calls for: to the plane of the longest
  assigned prefix that covers it, and otherwise (no prefix covers it, or there is no usable EID) to
  every plane in order; a failing write does not stop the others and both locks are released.
\<close>

theorem demux_message_delivers:
  assumes "routable st" and "abi_ok abi" and "600 \<le> length buf"
    and "0 \<le> msg_len" and "msg_len \<le> int (length buf)"
  shows "\<exists>e evs. extract_eid_mm abi buf = Some e \<and> demux_message abi wr buf msg_len st = Inr ((), evs) \<and>
    socket_writes evs = map (\<lambda>s. (s, take (nat msg_len) buf)) (map_recipients st e) \<and>
    guarded {} {} evs"
proof -
  from extract_eid_mm_total [OF assms(2,3)] obtain e where
    e: "extract_eid_mm abi buf = Some e" "wf_prefix e" by (auto dest: wf_eid_prefix)
  have ok: "tables_ok st" using assms(1) by (simp add: routable_def)
  note broadcast = broadcast_when_not_one [OF ok e(1) _ _ assms(4,5), of _ _ _ wr]
  consider (special) "planes st = [] \<or> special_eid e"
    | (none) "planes st \<noteq> []" "\<not> special_eid e" "assigned_plane st e = None"
    | (one) k where "planes st \<noteq> []" "\<not> special_eid e" "assigned_plane st e = Some k"
    by (cases "assigned_plane st e") auto
  then show ?thesis
  proof cases
    case special
    then have "\<exists>r. r \<noteq> SORTING_ONE \<and> sort_eid st e = Some (r, None, e)"
      using sort_eid_undefined [OF ok, of e] sort_eid_broadcast [OF ok, of e]
      by (cases "planes st = [] \<or> undefined_eid e") (auto simp: special_eid_iff)
    then obtain r where "r \<noteq> SORTING_ONE" "sort_eid st e = Some (r, None, e)" by blast
    with broadcast [OF this(2,1)] special e show ?thesis
      by (auto simp: map_recipients_def)
  next
    case none
    with sort_eid_assigned(1) [OF assms(1) e(2)] obtain e' where
      "sort_eid st e = Some (SORTING_NON, Some (control_planes_def st), e')" by auto
    with broadcast [OF this] none e show ?thesis
      by (auto simp: map_recipients_def)
  next
    case (one k)
    with sort_eid_assigned [OF assms(1) e(2)] obtain e' where
      "sort_eid st e = Some (SORTING_ONE, Some k, e')" "k < length (planes st)" by auto
    with one e assms(4,5) plane_cell [OF ok, of k] show ?thesis
      by (auto simp: demux_message_def map_recipients_def andthen_def emit_def Let_def write_socket_def)
  qed
qed

theorem demux_message_delivers_witness:
  "\<exists>e evs. extract_eid_mm linux_abi (sample_add @ replicate 600 0) = Some e \<and>
    demux_message linux_abi (\<lambda>n. -1) (sample_add @ replicate 600 0) 60 sample_tables = Inr ((), evs) \<and>
    socket_writes evs = map (\<lambda>s. (s, take 60 (sample_add @ replicate 600 0)))
      (map_recipients sample_tables e) \<and> guarded {} {} evs"
  using demux_message_delivers [OF sample_routable abi_ok_linux, of "sample_add @ replicate 600 0" 60
      "\<lambda>n. -1"]
  by simp

end
