(* ===== verification/Hv_System.thy ===== *)
theory Hv_System
  imports Hv_Register Hv_Mux Hv_Map_Demux
begin

text \<open>
  The hypervisor as a whole (\<open>main.c\<close>): four threads, each a loop, over the shared tables. A step
  is one turn of one of the loops, with any input and any answers of the system calls; turns are
  atomic, which the locks are there for (\<open>mux_add_not_guarded\<close> in \<open>Hv_Mux\<close> shows where they fall
  short). A turn that ends in \<open>fatal()\<close> or in an undefined access is not a step.
\<close>

record hv_params =
  p_abi :: sockaddr_abi
  p_sun_path_size :: nat
  p_msg_size :: int
  p_ip_recvdstaddr :: int
  p_tolerated :: "int \<Rightarrow> bool"

datatype label = Registering reg_message | Muxing | Controlling | Demuxing

inductive hv_step :: "hv_params \<Rightarrow> hv_state \<Rightarrow> label \<Rightarrow> event list \<Rightarrow> hv_state \<Rightarrow> bool"
  for P :: hv_params where
  registering:
    "registering_server_turn (p_sun_path_size P) (p_msg_size P) env len msg s = Inr (s', evs) \<Longrightarrow>
     hv_step P s (Registering msg) evs s'"
| muxing:
    "muxer_turn (p_abi P) (p_tolerated P) msgs errs r ready s = Inr (s', evs) \<Longrightarrow>
     length ready = ctr (mmm_poll s) \<Longrightarrow>
     hv_step P s Muxing evs s'"
| controlling:
    "controlpackets_turn (p_ip_recvdstaddr P) ienv buf len src cmsgs dst0 (tables s) = Inr ((), evs) \<Longrightarrow>
     hv_step P s Controlling evs s"
| demuxing:
    "demux_message (p_abi P) wr buf msg_len (tables s) = Inr ((), evs) \<Longrightarrow>
     hv_step P s Demuxing evs s"

inductive_cases hv_stepE: "hv_step P s l evs s'"

text \<open>The state once \<open>main\<close> has initialised the tables and the muxer its array.\<close>

definition initial_state :: "hv_tables \<Rightarrow> int \<Rightarrow> int \<Rightarrow> int \<Rightarrow> hv_state" where
  "initial_state garbage poll_socket s4 s6 =
     \<lparr>tables = initial_tables garbage, ping_connected = False,
      ipv4_controlpackets_socket = s4, ipv6_controlpackets_socket = s6,
      mmm_poll = (dyn_store 0 \<lparr>fd = poll_socket, pollin = False\<rparr> (dyn_alloc DYN_ARRAY_INIT))\<lparr>ctr := 1\<rparr>\<rparr>"

text \<open>Reachable states; \<open>allowed\<close> restricts the registration messages that arrive.\<close>

inductive hv_reachable :: "hv_params \<Rightarrow> (reg_message \<Rightarrow> bool) \<Rightarrow> hv_state \<Rightarrow> bool"
  for P :: hv_params and allowed :: "reg_message \<Rightarrow> bool" where
  init: "hv_reachable P allowed (initial_state garbage poll_socket s4 s6)"
| step: "hv_reachable P allowed s \<Longrightarrow> hv_step P s l evs s' \<Longrightarrow>
    (\<forall>msg. l = Registering msg \<longrightarrow> allowed msg) \<Longrightarrow> hv_reachable P allowed s'"

section \<open>Invariants\<close>

definition hv_inv :: "hv_state \<Rightarrow> bool" where
  "hv_inv s \<longleftrightarrow> tables_ok (tables s) \<and> entries_wf (tables s) \<and> dyn_ok (mmm_poll s) \<and>
     0 < ctr (mmm_poll s)"

definition assignees_live :: "hv_tables \<Rightarrow> bool" where
  "assignees_live st \<longleftrightarrow> assignees_ok st \<and> control_planes_def st = 0"

lemma update_assignments_inv:
  assumes "abi_ok abi" and "600 \<le> length buf" and "hv_inv s"
    and "update_assignments abi t buf sd s = Inr (s', evs)"
  shows "hv_inv s'" and "mmm_poll s' = mmm_poll s"
    and "assignees_live (tables s) \<Longrightarrow> assignees_live (tables s')"
proof -
  from extract_eid_mm_total [OF assms(1,2)] obtain e where
    e: "extract_eid_mm abi buf = Some e" "wf_eid e" by blast
  define k where "k = find_socket sd (planes (tables s))"
  define item where "item = \<lparr>eid = e, assignee_index = k\<rparr>"
  have ok: "tables_ok (tables s)" "entries_wf (tables s)" using assms(3) by (simp_all add: hv_inv_def)
  have kl: "k < ctr (control_planes (tables s)) \<Longrightarrow> assignee_index item < length (planes (tables s))"
    using ok(1) by (simp add: item_def length_planes)
  have wi: "wf_eid (eid item)" using e(2) by (simp add: item_def)
  consider (same) "s' = s" | (add) i st where "add_assignment item (tables s) = Inr (i, st)"
      "s' = s\<lparr>tables := st\<rparr>" "k < ctr (control_planes (tables s))"
    | (remove) st where "remove_assignment item (tables s) = Inr st" "s' = s\<lparr>tables := st\<rparr>"
    using assms(4) e(1)
    by (auto simp: update_assignments_def handler_Inr Let_def k_def item_def
        split: if_splits sum.splits prod.splits)
  note cases = this
  show "hv_inv s'" using cases
  proof cases
    case (add i st)
    with add_assignment_invariants [OF ok wi add(1)] assms(3) show ?thesis by (simp add: hv_inv_def)
  next
    case (remove st)
    with remove_assignment_invariants [OF ok(1) remove(1)] assms(3) show ?thesis
      by (auto simp: hv_inv_def entries_wf_def)
  qed (use assms(3) in simp)
  show "mmm_poll s' = mmm_poll s" using cases by cases simp_all
  show "assignees_live (tables s')" if live: "assignees_live (tables s)" using cases
  proof cases
    case (add i st)
    with add_assignment_invariants(4) [OF ok wi add(1)] kl live assignment_ops_def_plane(1) [OF add(1)]
    show ?thesis by (simp add: assignees_live_def)
  next
    case (remove st)
    with remove_assignment_invariants [OF ok(1) remove(1)] live assignment_ops_def_plane(2) [OF remove(1)]
    show ?thesis by (auto simp: assignees_live_def assignees_ok_def)
  qed (use live in simp)
qed

lemma process_message_inv:
  assumes "abi_ok abi" and "hv_inv s" and "process_message abi tol msg err sd s = Inr (s', evs)"
  shows "hv_inv s' \<and> mmm_poll s' = mmm_poll s \<and>
    (assignees_live (tables s) \<longrightarrow> assignees_live (tables s'))"
proof (cases msg)
  case None
  with assms show ?thesis by (simp add: process_message_def emit_def)
next
  case (Some m)
  have "600 \<le> length (mux_buffer m)" by simp
  note u = update_assignments_inv [OF assms(1) this assms(2)]
  obtain t f where tf: "extract_type_mm (mux_buffer m) = Some t" "extract_flags_mm (mux_buffer m) = Some f"
    using rd32le_in [of 4 "mux_buffer m"]
    by (auto simp: extract_type_mm_def extract_flags_mm_def rd16le_in)
  from assms(3) show ?thesis
    unfolding Some process_message_eq [OF tf]
    using u assms(2) by (auto simp: handler_Inr split: if_splits)
qed

lemma muxer_loop_inv:
  "abi_ok abi \<Longrightarrow> hv_inv s \<Longrightarrow> muxer_loop abi tol msgs errs i cells s = Inr (s', evs) \<Longrightarrow>
   hv_inv s' \<and> (assignees_live (tables s) \<longrightarrow> assignees_live (tables s'))"
proof (induction abi tol msgs errs i cells s arbitrary: evs rule: muxer_loop.induct)
  case (3 abi tol msgs errs i p cells s)
  from 3(4) obtain s1 e1 e2 where
    1: "(if pollin p then process_message abi tol (msgs i) (errs i) (fd p) s else emit [] s) = Inr (s1, e1)"
    and 2: "muxer_loop abi tol msgs errs (Suc i) cells s1 = Inr (s', e2)"
    by (auto simp: andthen_Inr)
  have "hv_inv s1 \<and> (assignees_live (tables s) \<longrightarrow> assignees_live (tables s1))"
    using 1 process_message_inv [OF 3(2,3)] 3(3) by (auto simp: emit_def split: if_splits)
  with 3(1) [OF 3(2) _ 2] show ?case by blast
qed (auto simp: emit_def)

lemma poll_result_ok:
  assumes "dyn_ok d" and "length ready = ctr d"
  shows "dyn_ok (poll_result ready d)" and "ctr (poll_result ready d) = ctr d"
  using assms by (auto simp: dyn_ok_def poll_result_def dyn_live_def dest!: set_zip_leftD)

lemma muxer_turn_inv:
  assumes "abi_ok abi" and "hv_inv s" and "length ready = ctr (mmm_poll s)"
    and "muxer_turn abi tol msgs errs r ready s = Inr (s', evs)"
  shows "hv_inv s' \<and> (assignees_live (tables s) \<longrightarrow> assignees_live (tables s'))"
proof -
  define s0 where "s0 = s\<lparr>mmm_poll := poll_result ready (mmm_poll s)\<rparr>"
  have s0: "hv_inv s0" "tables s0 = tables s"
    using assms(2,3) poll_result_ok [of "mmm_poll s" ready] by (auto simp: hv_inv_def s0_def)
  note turn = assms(4) [unfolded muxer_turn_def fatal_if_Inr Let_def, folded s0_def]
  then obtain p where p: "dyn_cell (mmm_poll s0) 0 = Some p"
    by (cases "dyn_cell (mmm_poll s0) 0") simp_all
  have "andthen (if pollin p then update_mmm_poll s0 else emit [] s0)
      (\<lambda>s1. if pollin p \<and> r = 1 then emit [] s1
         else muxer_loop abi tol msgs errs 1 (drop 1 (dyn_live (mmm_poll s1))) s1) = Inr (s', evs)"
    using turn unfolding p by simp
  then obtain s1 e1 e2 where
    1: "(if pollin p then update_mmm_poll s0 else emit [] s0) = Inr (s1, e1)"
    and 2: "(if pollin p \<and> r = 1 then emit [] s1
       else muxer_loop abi tol msgs errs 1 (drop 1 (dyn_live (mmm_poll s1))) s1) = Inr (s', e2)"
    unfolding andthen_Inr by blast
  have s1: "hv_inv s1 \<and> tables s1 = tables s"
  proof (cases "pollin p")
    case True
    from s0 update_mmm_poll_Inr [of s0] obtain d where
      "update_mmm_poll s0 = Inr (s0\<lparr>mmm_poll := d\<rparr>, [RdLock CONTROL_PLANES_LOCK, Unlock CONTROL_PLANES_LOCK])"
      "dyn_ok d" "dyn_list d = hd (dyn_list (mmm_poll s0)) # map plane_pollfd (planes (tables s0))"
      by (auto simp: hv_inv_def)
    moreover from this have "0 < ctr d" by (simp add: length_dyn_list [symmetric])
    ultimately show ?thesis using 1 True s0 by (auto simp: hv_inv_def)
  next
    case False
    with 1 s0 show ?thesis by (simp add: emit_def)
  qed
  with 2 muxer_loop_inv [OF assms(1), of s1] show ?thesis
    by (auto simp: emit_def split: if_splits)
qed

lemma deregister_Inr_ping:
  assumes "deregister_control_plane env msg s = Inr (s', evs)"
  shows "\<not> (ping_connect_r env < 0 \<and> \<not> ping_connected s)"
proof
  assume *: "ping_connect_r env < 0 \<and> \<not> ping_connected s"
  then have "ping_mmm env (s\<lparr>tables := st\<rparr>) = Inl Fatal" for st by (simp add: ping_mmm_Inl)
  with assms show False
    by (auto simp: deregister_control_plane_def Let_def handler_Inr)
qed

lemma registering_turn_inv:
  assumes "hv_inv s" and "registering_server_turn n m env len msg s = Inr (s', evs)"
  shows "hv_inv s'"
    and "action msg \<noteq> ACTION_DEREGISTER \<Longrightarrow> assignees_live (tables s) \<Longrightarrow> assignees_live (tables s')"
proof -
  have ok: "tables_ok (tables s)" using assms(1) by (simp add: hv_inv_def)
  consider (reg) "register_control_plane n env msg s = Inr (s', evs)"
    | (dereg) "deregister_control_plane env msg s = Inr (s', evs)" "action msg = ACTION_DEREGISTER"
    | (none) "s' = s"
    using assms(2) by (auto simp: registering_server_turn_def handler_Inr split: if_splits)
  note cases = this
  show "hv_inv s'" using cases
  proof cases
    case reg
    from register_control_plane_Inr [OF ok reg] assms(1) show ?thesis
      by (simp add: hv_inv_def entries_wf_def)
  next
    case dereg
    have "\<exists>s2 e2. deregister_control_plane env msg s = Inr (s2, e2) \<and> tables_ok (tables s2) \<and>
        mmm_poll s2 = mmm_poll s \<and> set (entries (tables s2)) \<subseteq> set (entries (tables s))"
      using deregister_effect [OF ok refl deregister_Inr_ping [OF dereg(1)], of msg]
      by (elim exE conjE, intro exI conjI) (assumption | auto split: if_splits)+
    with dereg(1) have "tables_ok (tables s')" "mmm_poll s' = mmm_poll s"
      "set (entries (tables s')) \<subseteq> set (entries (tables s))" by auto
    with assms(1) show ?thesis by (auto simp: hv_inv_def entries_wf_def)
  qed (use assms(1) in simp)
  show "assignees_live (tables s')"
    if d: "action msg \<noteq> ACTION_DEREGISTER" and live: "assignees_live (tables s)" using cases
  proof cases
    case reg
    from register_control_plane_Inr [OF ok reg] live show ?thesis
      by (auto simp: assignees_live_def assignees_ok_def)
  qed (use d live in auto)
qed

lemma hv_step_inv:
  assumes "abi_ok (p_abi P)" and "hv_step P s l evs s'" and "hv_inv s"
  shows "hv_inv s'"
    and "\<forall>msg. l = Registering msg \<longrightarrow> action msg \<noteq> ACTION_DEREGISTER \<Longrightarrow>
      assignees_live (tables s) \<Longrightarrow> assignees_live (tables s')"
  using assms(2,3) muxer_turn_inv [OF assms(1) assms(3)]
  by (auto elim!: hv_stepE dest: registering_turn_inv)

lemma initial_state_inv: "hv_inv (initial_state g p s4 s6)" "assignees_live (tables (initial_state g p s4 s6))"
  by (simp_all add: hv_inv_def initial_state_def entries_wf_def assignees_live_def assignees_ok_def
    dyn_ok_def dyn_live_def dyn_store_def dyn_alloc_def DYN_ARRAY_INIT_def
    numeral_eq_Suc)

lemma hv_reachable_inv:
  assumes "abi_ok (p_abi P)" and "hv_reachable P allowed s"
  shows "hv_inv s"
  using assms(2)
proof induction
  case (init garbage poll_socket s4 s6)
  show ?case by (rule initial_state_inv)
next
  case (step s l evs s')
  then show ?case using hv_step_inv(1) [OF assms(1)] by blast
qed

lemma hv_reachable_live:
  assumes "abi_ok (p_abi P)"
    and "hv_reachable P (\<lambda>msg. action msg \<noteq> ACTION_DEREGISTER) s"
  shows "assignees_live (tables s)"
  using assms(2)
proof induction
  case (init garbage poll_socket s4 s6)
  show ?case by (rule initial_state_inv)
next
  case (step s l evs s')
  from hv_reachable_inv [OF assms(1) step(1)] step show ?case
    using hv_step_inv(2) [OF assms(1)] by blast
qed

lemma reachable_routable:
  assumes "abi_ok (p_abi P)"
    and "hv_reachable P (\<lambda>msg. action msg \<noteq> ACTION_DEREGISTER) s"
  shows "routable (tables s)"
  using hv_reachable_inv [OF assms] hv_reachable_live [OF assms]
  by (auto simp: routable_def hv_inv_def assignees_live_def)

section \<open>Properties\<close>

text \<open>
  C10: in every reachable state, whatever messages arrive in whatever order and whatever the system
  calls answer, the tables are well formed: every live cell has been written, every counter is within its
  capacity, every assigned prefix has 16 bytes and at most 128 bits, and no lookup in them makes an
  undefined access, for any 16-byte EID.
\<close>

theorem reachable_tables_ok:
  assumes "abi_ok (p_abi P)" and "hv_reachable P allowed s"
  shows "tables_ok (tables s) \<and> entries_wf (tables s) \<and> dyn_ok (mmm_poll s) \<and>
    (\<forall>e. length (prefix e) = 16 \<longrightarrow> sort_eid (tables s) e \<noteq> None)"
proof -
  have inv: "tables_ok (tables s)" "entries_wf (tables s)" "dyn_ok (mmm_poll s)"
    using hv_reachable_inv [OF assms] by (simp_all add: hv_inv_def)
  have "sort_eid (tables s) e \<noteq> None" if "length (prefix e) = 16" for e
    using flex_sort_total [OF inv(1,2), of e False] that
    by (auto simp: sort_eid_def wf_prefix_def)
  with inv show ?thesis by simp
qed

definition sample_params :: hv_params where
  "sample_params = \<lparr>p_abi = linux_abi, p_sun_path_size = 108, p_msg_size = 124,
     p_ip_recvdstaddr = 0, p_tolerated = (\<lambda>_. False)\<rparr>"

lemma sample_params_abi: "abi_ok (p_abi sample_params)"
  by (simp add: sample_params_def abi_ok_linux)

theorem reachable_tables_ok_witness:
  "tables_ok (tables (initial_state sample_tables 5 3 (-1))) \<and>
    sort_eid (tables (initial_state sample_tables 5 3 (-1))) (mapped [10, 0, 0, 1] 32) \<noteq> None"
  using reachable_tables_ok [OF sample_params_abi hv_reachable.init
      [of sample_params "\<lambda>_. True" sample_tables 5 3 "-1"]]
  by simp

text \<open>
  C11: as long as no control plane has deregistered, every control datagram that arrives is delivered:
  with working sockets one turn of the listener ends without a fault, sends a packet to exactly the
  ports that the longest assigned prefix, the default plane or the broadcast calls for, and leaves
  no lock held.
\<close>

theorem reachable_delivers:
  assumes "abi_ok (p_abi P)"
    and "hv_reachable P (\<lambda>msg. action msg \<noteq> ACTION_DEREGISTER) s"
    and "0 \<le> len" and "nat len + 19 \<le> length buf"
    and "\<forall>i. fst (env i) \<noteq> -1 \<and> snd (env i) \<noteq> -1"
  shows "\<exists>e evs. extract_eid_cp buf (nat len) = Some e \<and>
    controlpackets_turn rcv env buf len src cmsgs dst (tables s) = Inr ((), evs) \<and>
    raw_ports evs = control_recipients (tables s) e \<and> guarded {} {} evs"
  using process_ipv4_datagram_delivered [OF reachable_routable [OF assms(1,2)], of
      "\<lparr>source = src, destination = received_destination rcv cmsgs dst, payload = buf, payload_len = nat len\<rparr>"
      env] assms(3-5)
  by (simp add: controlpackets_turn_def fatal_if_def)

theorem reachable_delivers_witness:
  "\<exists>e evs. extract_eid_cp (replicate 60 0) 21 = Some e \<and>
    controlpackets_turn 0 (\<lambda>_. (3, 0)) (replicate 60 0) 21 (source sample_request) [] (source sample_request)
      (tables (initial_state sample_tables 5 3 (-1))) = Inr ((), evs) \<and>
    raw_ports evs = control_recipients (tables (initial_state sample_tables 5 3 (-1))) e \<and> guarded {} {} evs"
  using reachable_delivers [OF sample_params_abi hv_reachable.init
      [of sample_params "\<lambda>msg. action msg \<noteq> ACTION_DEREGISTER" sample_tables 5 3 "-1"],
      of 21 "replicate 60 0" "\<lambda>_. (3, 0)"]
  by simp

text \<open>
  C21: deregistering the last plane of the table leaves its assignments behind. An EID that was
  assigned to it is afterwards still sorted to its old index, which is no live plane any more: the
  guarantee of the previous property ends with the first deregistration.
\<close>

theorem deregistered_plane_keeps_eids:
  assumes "tables_ok (tables s)" and "entries_wf (tables s)" and "wf_prefix e" and "\<not> special_eid e"
    and "find_port (reg_port msg) (planes (tables s)) = i" and "Suc i = length (planes (tables s))"
    and "0 < i" and "assigned_plane (tables s) e = Some i"
    and "\<not> (ping_connect_r env < 0 \<and> \<not> ping_connected s)"
  shows "\<exists>s' evs e'. deregister_control_plane env msg s = Inr (s', evs) \<and>
    length (planes (tables s')) = i \<and> sort_eid (tables s') e = Some (SORTING_ONE, Some i, e')"
proof -
  from deregister_effect [OF assms(1) assms(5) [symmetric] assms(9)] assms(6) obtain s' evs where
    d: "deregister_control_plane env msg s = Inr (s', evs)" "tables_ok (tables s')"
      "planes (tables s') = remove_nth i (planes (tables s))"
      "entries (tables s') = entries (tables s)" by auto
  have len: "length (planes (tables s')) = i"
    using length_remove_nth [of i "planes (tables s)"] assms(6) d(3) by simp
  have "assigned_plane (tables s') e = Some i"
    using assms(8) d(4) by (simp add: assigned_plane_def)
  moreover have "entries_wf (tables s')" using assms(2) d(4) by (simp add: entries_wf_def)
  moreover have "planes (tables s') \<noteq> []" using len assms(7) by auto
  ultimately obtain e' where "sort_eid (tables s') e = Some (SORTING_ONE, Some i, e')"
    using sort_eid_scan [OF d(2) _ assms(3) _ assms(4)] by auto
  with d(1) len show ?thesis by blast
qed

lemma sample_assigned: "assigned_plane sample_tables (mapped [10, 1, 2, 3] 32) = Some 1"
proof -
  have "covers (mapped [10, 0, 0, 0] 8) (mapped [10, 1, 2, 3] 32)"
    and "covers (mapped [10, 1, 0, 0] 16) (mapped [10, 1, 2, 3] 32)" by code_simp+
  then show ?thesis by (simp add: assigned_plane_def assignment_plen_def)
qed

theorem deregistered_plane_keeps_eids_witness:
  "\<exists>s' evs e'. deregister_control_plane sample_env (sample_msg 5001) sample_state = Inr (s', evs) \<and>
    length (planes (tables s')) = 1 \<and>
    sort_eid (tables s') (mapped [10, 1, 2, 3] 32) = Some (SORTING_ONE, Some 1, e')"
  using deregistered_plane_keeps_eids [of sample_state "mapped [10, 1, 2, 3] 32" "sample_msg 5001" 1
      sample_env] sample_assigned
  by (simp add: sample_state_def sample_msg_def sample_plane_def sample_env_def mapped_wf
    wf_eid_prefix mapped_not_special)

end
