(* ===== verification/Cp_Prefix.thy ===== *)
theory Cp_Prefix
  imports Lpm Prelude
begin

text \<open>
  \<open>radix/db_prefix.c\<close> and the prefix functions of \<open>radix/db_table.c\<close>. \<open>struct prefix\<close> holds a family,
  a length in bits and a union of 16 bytes, of which IPv4 uses the first four. \<open>None\<close> is a failed
  assertion or an access outside the union. \<open>inet_aton\<close>, \<open>inet_pton\<close> and \<open>inet_ntop\<close> are parameters:
  \<open>None\<close> is their failure.
\<close>

datatype af = FAM_INET | FAM_INET6 | FAM_OTHER byte

record cp_prefix =
  family :: af
  prefixlen :: byte
  addr :: "byte list"

definition maskbit :: "byte list" where
  "maskbit = [0x00, 0x80, 0xc0, 0xe0, 0xf0, 0xf8, 0xfc, 0xfe, 0xff]"

definition plen :: "cp_prefix \<Rightarrow> nat" where
  "plen p = unat (prefixlen p)"

definition wf_cp :: "cp_prefix \<Rightarrow> bool" where
  "wf_cp p \<longleftrightarrow> length (addr p) = 16 \<and> plen p \<le> 128"

section \<open>Masking\<close>

text \<open>\<open>apply_mask_ipv4\<close> (\<open>n = 4\<close>) and \<open>apply_mask_ipv6\<close> (\<open>n = 16\<close>): the byte that holds the first
  bit past the prefix is masked, the bytes of the address after it are cleared.\<close>

fun clear_from :: "nat \<Rightarrow> nat \<Rightarrow> byte list \<Rightarrow> byte list" where
  "clear_from index 0 a = a"
| "clear_from index (Suc k) a = clear_from (Suc index) k (a[index := 0])"

definition apply_mask_n :: "nat \<Rightarrow> cp_prefix \<Rightarrow> cp_prefix" where
  "apply_mask_n n p =
     (let index = unat (prefixlen p) div 8
      in if index < n then
           (let offset = unat (prefixlen p) mod 8;
                a = (addr p)[index := addr p ! index AND maskbit ! offset]
            in p\<lparr>addr := clear_from (Suc index) (n - Suc index) a\<rparr>)
         else p)"

definition apply_mask_ipv4 :: "cp_prefix \<Rightarrow> cp_prefix" where
  "apply_mask_ipv4 p = apply_mask_n 4 p"

definition apply_mask_ipv6 :: "cp_prefix \<Rightarrow> cp_prefix" where
  "apply_mask_ipv6 p = apply_mask_n 16 p"

definition apply_mask :: "cp_prefix \<Rightarrow> cp_prefix" where
  "apply_mask p =
     (case family p of
        FAM_INET \<Rightarrow> apply_mask_ipv4 p
      | FAM_INET6 \<Rightarrow> apply_mask_ipv6 p
      | FAM_OTHER _ \<Rightarrow> p)"

section \<open>Reading a prefix\<close>

text \<open>\<open>atoi\<close>: white space, a sign, the digits up to the first other character.\<close>

definition isspace :: "char \<Rightarrow> bool" where
  "isspace c \<longleftrightarrow> c = CHR 0x20 \<or> (of_char c :: nat) \<in> {9, 10, 11, 12, 13}"

definition isdigit :: "char \<Rightarrow> bool" where
  "isdigit c \<longleftrightarrow> 48 \<le> (of_char c :: nat) \<and> (of_char c :: nat) \<le> 57"

definition digits_value :: "string \<Rightarrow> int" where
  "digits_value s = foldl (\<lambda>n c. 10 * n + (int (of_char c) - 48)) 0 (takeWhile isdigit s)"

definition atoi :: "string \<Rightarrow> int" where
  "atoi s =
     (case dropWhile isspace s of
        [] \<Rightarrow> 0
      | c # cs \<Rightarrow> if c = CHR ''-'' then - digits_value cs
                  else if c = CHR ''+'' then digits_value cs
                  else digits_value (c # cs))"

definition before_slash :: "string \<Rightarrow> string" where
  "before_slash s = takeWhile (\<lambda>c. c \<noteq> CHR ''/'') s"

definition after_slash :: "string \<Rightarrow> string" where
  "after_slash s = tl (dropWhile (\<lambda>c. c \<noteq> CHR ''/'') s)"

text \<open>The four bytes \<open>inet_aton\<close> stores are the head of the union.\<close>

definition set_prefix4 :: "byte list \<Rightarrow> cp_prefix \<Rightarrow> cp_prefix" where
  "set_prefix4 a p = p\<lparr>addr := a @ drop 4 (addr p)\<rparr>"

definition str2prefix_ipv4 ::
  "(string \<Rightarrow> byte list option) \<Rightarrow> string \<Rightarrow> cp_prefix \<Rightarrow> int \<times> cp_prefix" where
  "str2prefix_ipv4 inet_aton str p =
     (if CHR ''/'' \<notin> set str then
        (case inet_aton str of
           None \<Rightarrow> (0, p)
         | Some a \<Rightarrow> (1, (set_prefix4 a p)\<lparr>family := FAM_INET, prefixlen := 32\<rparr>))
      else
        (let (ret, p) = (case inet_aton (before_slash str) of
                           None \<Rightarrow> (0, p) | Some a \<Rightarrow> (1, set_prefix4 a p));
             len = (of_int (atoi (after_slash str)) :: byte)
         in if 32 < len then (0, p)
            else (ret, p\<lparr>family := FAM_INET, prefixlen := len\<rparr>)))"

definition str2prefix_ipv6 ::
  "(string \<Rightarrow> byte list option) \<Rightarrow> string \<Rightarrow> cp_prefix \<Rightarrow> int \<times> cp_prefix" where
  "str2prefix_ipv6 inet_pton str p =
     (if CHR ''/'' \<notin> set str then
        (case inet_pton str of
           None \<Rightarrow> (0, p)
         | Some a \<Rightarrow> (1, p\<lparr>addr := a, prefixlen := 128, family := FAM_INET6\<rparr>))
      else
        (case inet_pton (before_slash str) of
           None \<Rightarrow> (0, p)
         | Some a \<Rightarrow>
             (let len = (of_int (atoi (after_slash str)) :: byte)
              in if 128 < len then (0, p\<lparr>addr := a\<rparr>)
                 else (1, p\<lparr>addr := a, prefixlen := len, family := FAM_INET6\<rparr>))))"

definition str2prefix ::
  "(string \<Rightarrow> byte list option) \<Rightarrow> (string \<Rightarrow> byte list option) \<Rightarrow> string \<Rightarrow> cp_prefix \<Rightarrow> int \<times> cp_prefix" where
  "str2prefix inet_aton inet_pton str p =
     (let (ret, p) = str2prefix_ipv4 inet_aton str p
      in if ret \<noteq> 0 then (ret, p)
         else (let (ret, p) = str2prefix_ipv6 inet_pton str p
               in if ret \<noteq> 0 then (ret, p) else (0, p)))"

definition new_prefix :: "byte \<Rightarrow> byte list \<Rightarrow> cp_prefix" where
  "new_prefix preflen a =
     \<lparr>family = FAM_INET, prefixlen = preflen, addr = a @ replicate 12 0\<rparr>"

text \<open>\<open>prefix2str\<close> allocates \<open>rt_len\<close> bytes, prints into them and then stores a zero at index
  \<open>rt_len\<close>. A store outside an allocation is \<open>Undef\<close>.\<close>

definition INET_ADDRSTRLEN :: nat where "INET_ADDRSTRLEN = 16"
definition INET6_ADDRSTRLEN :: nat where "INET6_ADDRSTRLEN = 46"

fun decimal :: "nat \<Rightarrow> string" where
  "decimal n = (if n < 10 then [char_of (48 + n)] else decimal (n div 10) @ [char_of (48 + n mod 10)])"

declare decimal.simps [simp del]

definition prefix2str :: "(cp_prefix \<Rightarrow> string) \<Rightarrow> cp_prefix \<Rightarrow> fault + string" where
  "prefix2str inet_ntop p =
     (let buf = inet_ntop p;
          rt_len = (if family p = FAM_INET then INET_ADDRSTRLEN else INET6_ADDRSTRLEN);
          rt_len = rt_len + 5;
          rt = buf @ ''/'' @ decimal (unat (prefixlen p)) @ [CHR 0x00];
          store = (\<lambda>i s. if i < rt_len then Inr s else Inl Undef)
      in if rt_len < length rt then Inl Undef else store rt_len (buf @ ''/'' @ decimal (unat (prefixlen p))))"

section \<open>Comparing prefixes\<close>

definition prefix_copy :: "cp_prefix \<Rightarrow> cp_prefix \<Rightarrow> cp_prefix option" where
  "prefix_copy dest src =
     (let dest = dest\<lparr>family := family src, prefixlen := prefixlen src\<rparr>
      in case family src of
           FAM_INET \<Rightarrow> Some (dest\<lparr>addr := take 4 (addr src) @ drop 4 (addr dest)\<rparr>)
         | FAM_INET6 \<Rightarrow> Some (dest\<lparr>addr := addr src\<rparr>)
         | FAM_OTHER _ \<Rightarrow> None)"

text \<open>\<open>while (offset--) if (np[offset] != pp[offset]) return 0; return 1;\<close>\<close>

fun bytes_match :: "byte list \<Rightarrow> byte list \<Rightarrow> nat \<Rightarrow> bool option" where
  "bytes_match np pp 0 = Some True"
| "bytes_match np pp (Suc offset) = do {
     a \<leftarrow> rd8 np offset;
     b \<leftarrow> rd8 pp offset;
     if a \<noteq> b then Some False else bytes_match np pp offset }"

definition prefix_match :: "cp_prefix \<Rightarrow> cp_prefix \<Rightarrow> bool option" where
  "prefix_match n p =
     (if prefixlen p < prefixlen n then Some False
      else let offset = unat (prefixlen n) div 8; shift = unat (prefixlen n) mod 8
           in if shift \<noteq> 0 then do {
                a \<leftarrow> rd8 (addr n) offset;
                b \<leftarrow> rd8 (addr p) offset;
                if maskbit ! shift AND (a XOR b) \<noteq> 0 then Some False
                else bytes_match (addr n) (addr p) offset }
              else bytes_match (addr n) (addr p) offset)"

text \<open>The two loops of \<open>route_common\<close>: the bytes that agree, then the bits.\<close>

fun common_bytes :: "byte list \<Rightarrow> byte list \<Rightarrow> nat \<Rightarrow> nat \<Rightarrow> nat option" where
  "common_bytes np pp i 0 = Some i"
| "common_bytes np pp i (Suc k) = do {
     a \<leftarrow> rd8 np i;
     b \<leftarrow> rd8 pp i;
     if a = b then common_bytes np pp (Suc i) k else Some i }"

lemma unat_Suc_less: "(len :: byte) < limit \<Longrightarrow> unat (len + 1) = unat len + 1"
proof -
  assume "len < limit"
  then have "unat len < unat limit" by (simp add: word_less_nat_alt)
  moreover have "unat limit < 256" using unsigned_less [where ?'a = nat, of limit] by simp
  ultimately show ?thesis by (simp add: unat_word_ariths)
qed

function common_bits :: "byte \<Rightarrow> byte \<Rightarrow> byte \<Rightarrow> byte \<Rightarrow> byte" where
  "common_bits diff msk len limit =
     (if len < limit \<and> msk AND diff = 0 then common_bits diff (drop_bit 1 msk) (len + 1) limit
      else len)"
  by auto

termination
proof (relation "measure (\<lambda>(diff, msk, len, limit). unat limit - unat len)")
  fix diff msk len limit :: byte
  assume "len < limit \<and> msk AND diff = 0"
  then have "len < limit" by simp
  moreover from this have "unat (len + 1) = unat len + 1" by (rule unat_Suc_less)
  ultimately show "((diff, drop_bit 1 msk, len + 1, limit), diff, msk, len, limit)
      \<in> measure (\<lambda>(diff, msk, len, limit). unat limit - unat len)"
    by (simp add: word_less_nat_alt)
qed simp

declare common_bits.simps [simp del]

definition route_common :: "cp_prefix \<Rightarrow> cp_prefix \<Rightarrow> cp_prefix \<Rightarrow> cp_prefix option" where
  "route_common n p new = do {
     i \<leftarrow> common_bytes (addr n) (addr p) 0 (unat (prefixlen p) div 8);
     let new = new\<lparr>addr := take i (addr n) @ drop i (addr new), prefixlen := of_nat (i * 8)\<rparr>;
     if prefixlen new \<noteq> prefixlen p then do {
       a \<leftarrow> rd8 (addr n) i;
       b \<leftarrow> rd8 (addr p) i;
       let len = common_bits (a XOR b) 0x80 (prefixlen new) (prefixlen p);
       Some (new\<lparr>prefixlen := len, addr := (addr new)[i := a AND maskbit ! (unat len mod 8)]\<rparr>) }
     else Some new }"

definition check_bit :: "byte list \<Rightarrow> byte \<Rightarrow> bool option" where
  "check_bit pfx len =
     (if 128 < len then None
      else do {
        b \<leftarrow> rd8 pfx (unat len div 8);
        Some (drop_bit (7 - unat len mod 8) b AND 1 = 1) })"

section \<open>Lemmas\<close>

text \<open>The significant bits, and the address bits, of a prefix.\<close>

definition pkey :: "cp_prefix \<Rightarrow> bool list" where
  "pkey p = take (plen p) (bits_of (addr p))"

lemma length_pkey: "wf_cp p \<Longrightarrow> length (pkey p) = plen p"
  by (simp add: pkey_def wf_cp_def)

lemma lead_maskbit: "l \<le> 8 \<Longrightarrow> lead_mask l (maskbit ! l)"
proof -
  have "\<forall>l<8. lead_mask l (maskbit ! l)"
    by (simp add: all_less_8 maskbit_def lead_mask_def bit_simps)
  moreover have "lead_mask 8 (maskbit ! 8)"
    by (simp add: all_less_8 maskbit_def lead_mask_def bit_simps)
  ultimately show "l \<le> 8 \<Longrightarrow> lead_mask l (maskbit ! l)" by (cases "l = 8") auto
qed

lemma byte_bits_masked:
  assumes "lead_mask l m" and "l \<le> 8"
  shows "byte_bits (b AND m) = take l (byte_bits b) @ replicate (8 - l) False"
proof (rule nth_equalityI)
  fix i assume "i < length (byte_bits (b AND m))"
  then have i: "i < 8" by simp
  then have "bit m (7 - i) \<longleftrightarrow> 8 - l \<le> 7 - i"
    using assms(1) by (simp add: lead_mask_def)
  with i assms(2) show "byte_bits (b AND m) ! i = (take l (byte_bits b) @ replicate (8 - l) False) ! i"
    by (auto simp: nth_byte_bits nth_append bit_and_iff)
qed (use assms(2) in simp)

lemma clear_from_eq:
  "index + k \<le> length a \<Longrightarrow> clear_from index k a = take index a @ replicate k 0 @ drop (index + k) a"
proof (induction index k a rule: clear_from.induct)
  case (2 index k a)
  then show ?case
    by (simp add: take_Suc_conv_app_nth)
qed simp

lemma byte_bits_0: "byte_bits 0 = replicate 8 False"
  by (simp add: byte_bits_def numeral_eq_Suc)

lemma bits_of_zeros: "bits_of (replicate k 0) = replicate (8 * k) False"
  by (induction k) (simp_all add: byte_bits_0 replicate_add [symmetric])

lemma apply_mask_n_bits:
  assumes "length (addr p) = 16" and "n \<le> 16" and "plen p \<le> 8 * n"
  shows "bits_of (addr (apply_mask_n n p)) =
    take (plen p) (bits_of (addr p)) @ replicate (8 * n - plen p) False @
    drop (8 * n) (bits_of (addr p))"
    and "length (addr (apply_mask_n n p)) = 16"
    and "prefixlen (apply_mask_n n p) = prefixlen p" "family (apply_mask_n n p) = family p"
proof -
  define w l where "w = plen p div 8" and "l = plen p mod 8"
  have pl: "plen p = 8 * w + l" "l < 8" by (simp_all add: w_def l_def)
  show "bits_of (addr (apply_mask_n n p)) =
    take (plen p) (bits_of (addr p)) @ replicate (8 * n - plen p) False @
    drop (8 * n) (bits_of (addr p))"
  proof (cases "w < n")
    case False
    with pl assms(3) have "plen p = 8 * n" by simp
    with False show ?thesis by (simp add: apply_mask_n_def plen_def w_def Let_def)
  next
    case True
    let ?a = "addr p"
    have "addr (apply_mask_n n p) =
        take w ?a @ [?a ! w AND maskbit ! l] @ replicate (n - Suc w) 0 @ drop n ?a"
      using True assms(1,2) clear_from_eq [of "Suc w" "n - Suc w" "?a[w := ?a ! w AND maskbit ! l]"]
      by (simp add: apply_mask_n_def plen_def [symmetric] w_def [symmetric] l_def [symmetric] Let_def
        take_Suc_conv_app_nth)
    moreover have "byte_bits (?a ! w AND maskbit ! l) = take l (byte_bits (?a ! w)) @ replicate (8 - l) False"
      by (rule byte_bits_masked [OF lead_maskbit]) (use pl in simp_all)
    moreover have "take (plen p) (bits_of ?a) = bits_of (take w ?a) @ take l (byte_bits (?a ! w))"
    proof -
      have "?a = take w ?a @ ?a ! w # drop (Suc w) ?a"
        using True assms(1,2) by (simp add: id_take_nth_drop [symmetric])
      then have "bits_of ?a = bits_of (take w ?a) @ byte_bits (?a ! w) @ bits_of (drop (Suc w) ?a)"
        by (metis bits_of_Cons bits_of_append)
      then show ?thesis using True assms(1,2) pl by simp
    qed
    moreover have "8 * n - plen p = (8 - l) + 8 * (n - Suc w)" using True pl by simp
    ultimately show ?thesis
      by (simp add: bits_of_append bits_of_zeros drop_bits_of replicate_add)
  qed
  show "length (addr (apply_mask_n n p)) = 16"
    using assms clear_from_eq [of "Suc w" "n - Suc w" "(addr p)[w := addr p ! w AND maskbit ! l]"]
    by (auto simp: apply_mask_n_def plen_def [symmetric] w_def [symmetric] l_def [symmetric] Let_def)
  show "prefixlen (apply_mask_n n p) = prefixlen p" "family (apply_mask_n n p) = family p"
    by (simp_all add: apply_mask_n_def Let_def)
qed

lemma bytes_match_eq:
  "k \<le> length np \<Longrightarrow> k \<le> length pp \<Longrightarrow> bytes_match np pp k = Some (take k np = take k pp)"
  by (induction np pp k rule: bytes_match.induct) (auto simp: rd8_def take_Suc_conv_app_nth)

lemma mask_xor_eq_0: "(m :: byte) AND (a XOR b) = 0 \<longleftrightarrow> a AND m = b AND m"
proof -
  have "m AND (a XOR b) = (a AND m) XOR (b AND m)"
    by (rule bit_word_eqI) (auto simp: bit_simps)
  moreover have "x XOR y = 0 \<longleftrightarrow> x = y" for x y :: byte
    by (auto simp: bit_eq_iff bit_xor_iff)
  ultimately show ?thesis by simp
qed

lemma prefix_match_eq:
  assumes "wf_cp n" and "wf_cp p"
  shows "prefix_match n p = Some (plen n \<le> plen p \<and> take (plen n) (bits_of (addr p)) = pkey n)"
proof -
  define w l where "w = plen n div 8" and "l = plen n mod 8"
  have pl: "plen n = 8 * w + l" "l < 8" by (simp_all add: w_def l_def)
  have len: "length (addr n) = 16" "length (addr p) = 16" "plen n \<le> 128"
    using assms by (simp_all add: wf_cp_def)
  have w: "w \<le> 16" "l \<noteq> 0 \<Longrightarrow> w < 16" using len(3) pl by auto
  have m: "bytes_match (addr n) (addr p) w = Some (take w (addr n) = take w (addr p))"
    using w len by (intro bytes_match_eq) simp_all
  have c: "prefixlen p < prefixlen n \<longleftrightarrow> \<not> plen n \<le> plen p"
    by (simp add: word_less_nat_alt plen_def not_le)
  show ?thesis
  proof (cases "l = 0")
    case True
    then show ?thesis
      using m c w len pl take_bits_of_whole [of "addr n" "addr p" w]
      by (auto simp: prefix_match_def plen_def [symmetric] w_def [symmetric] l_def [symmetric]
          Let_def pkey_def)
  next
    case False
    have "maskbit ! l AND (addr n ! w XOR addr p ! w) = 0 \<longleftrightarrow>
        take l (byte_bits (addr n ! w)) = take l (byte_bits (addr p ! w))"
      unfolding mask_xor_eq_0 by (rule masked_eq_iff) (use lead_maskbit [of l] pl(2) in simp_all)
    with False show ?thesis
      using m c w len pl take_bits_of_split [of "addr n" "addr p" w l]
      by (auto simp: prefix_match_def plen_def [symmetric] w_def [symmetric] l_def [symmetric]
          Let_def pkey_def rd8_def)
  qed
qed

lemma check_bit_eq:
  "length a = 16 \<Longrightarrow> unat len < 128 \<Longrightarrow> check_bit a len = Some (bits_of a ! unat len)"
proof -
  assume a: "length a = 16" and l: "unat len < 128"
  then have "\<not> 128 < len" by (simp add: word_less_nat_alt)
  moreover have "unat len div 8 < 16" using l by simp
  moreover have "drop_bit k b AND 1 = 1 \<longleftrightarrow> bit b k" for k and b :: byte
    by (simp add: and_one_eq bit_iff_odd_drop_bit odd_iff_mod_2_eq_one)
  ultimately show ?thesis using a l by (simp add: check_bit_def rd8_def nth_bits_of)
qed

text \<open>A full-length prefix has no next bit: the read is one byte past an IPv6 address.\<close>

lemma check_bit_past_end: "length a = 16 \<Longrightarrow> check_bit a 128 = None"
  by (simp add: check_bit_def rd8_def)

subsection \<open>Common prefixes\<close>

definition common_len :: "'a list \<Rightarrow> 'a list \<Rightarrow> nat" where
  "common_len xs ys = length (takeWhile (\<lambda>(x, y). x = y) (zip xs ys))"

lemma common_len_eqI:
  "length xs = length ys \<Longrightarrow> m \<le> length xs \<Longrightarrow> take m xs = take m ys \<Longrightarrow>
   (m < length xs \<Longrightarrow> xs ! m \<noteq> ys ! m) \<Longrightarrow> common_len xs ys = m"
proof (induction xs ys arbitrary: m rule: list_induct2)
  case (Cons x xs y ys)
  then show ?case by (cases m) (auto simp: common_len_def)
qed (simp add: common_len_def)

lemma common_len_agree:
  "length xs = length ys \<Longrightarrow> take (common_len xs ys) xs = take (common_len xs ys) ys \<and>
   common_len xs ys \<le> length xs \<and>
   (common_len xs ys < length xs \<longrightarrow> xs ! common_len xs ys \<noteq> ys ! common_len xs ys)"
  by (induction xs ys rule: list_induct2) (auto simp: common_len_def)

lemma common_bytes_spec:
  assumes "i + k \<le> length np" and "i + k \<le> length pp" and "take i np = take i pp"
  shows "\<exists>r. common_bytes np pp i k = Some r \<and> i \<le> r \<and> r \<le> i + k \<and> take r np = take r pp \<and>
    (r < i + k \<longrightarrow> np ! r \<noteq> pp ! r)"
  using assms
proof (induction np pp i k rule: common_bytes.induct)
  case (2 np pp i k)
  show ?case
  proof (cases "np ! i = pp ! i")
    case True
    with 2(2-4) have "take (Suc i) np = take (Suc i) pp" by (simp add: take_Suc_conv_app_nth)
    with 2(1) [of "np ! i" "pp ! i"] 2(2,3) True show ?thesis by (auto simp: rd8_def)
  next
    case False
    with 2(2-4) show ?thesis by (auto simp: rd8_def)
  qed
qed simp

lemma window_bit: "j < 8 \<Longrightarrow> drop_bit j 0x80 AND d = 0 \<longleftrightarrow> \<not> bit (d :: byte) (7 - j)"
proof -
  assume j: "j < 8"
  have "drop_bit j (push_bit 7 1) = (push_bit (7 - j) 1 :: byte)"
    by (rule bit_word_eqI, simp only: bit_drop_bit_eq bit_push_bit_iff comp_def bit_1_iff) (use j in auto)
  moreover have "(push_bit 7 1 :: byte) = 0x80" by (simp add: push_bit_eq_mult)
  ultimately have "drop_bit j 0x80 = (push_bit (7 - j) 1 :: byte)" by metis
  moreover have "7 - j < 8" by simp
  ultimately show ?thesis using and_bit_nonzero [of "7 - j" d] by (auto simp: and.commute)
qed

lemma common_bits_spec:
  assumes "msk = drop_bit j 0x80" and "unat len = base + j" and "j \<le> 8"
    and "\<forall>s<j. \<not> bit d (7 - s)" and "base + j \<le> unat limit" and "unat limit < base + 8 \<or> d \<noteq> 0"
  shows "\<exists>t<8. unat (common_bits d msk len limit) = base + t \<and> base + t \<le> unat limit \<and>
    (\<forall>s<t. \<not> bit d (7 - s)) \<and> (base + t < unat limit \<longrightarrow> bit d (7 - t))"
  using assms
proof (induction d msk len limit arbitrary: j rule: common_bits.induct)
  case (1 d msk len limit)
  have j: "j < 8"
  proof (rule ccontr)
    assume "\<not> j < 8"
    with 1(4) have j8: "j = 8" by simp
    have "\<not> bit d k" if "k < 8" for k
    proof -
      have "7 - k < 8" "7 - (7 - k) = k" using that by simp_all
      with 1(5) j8 show ?thesis by metis
    qed
    then have "d = 0" by (simp add: byte_eq_iff)
    with 1(6,7) j8 show False by simp
  qed
  have stop: "msk AND d = 0 \<longleftrightarrow> \<not> bit d (7 - j)" using window_bit [OF j] 1(2) by simp
  show ?case
  proof (cases "len < limit \<and> msk AND d = 0")
    case True
    then have l: "unat (len + 1) = base + Suc j" using unat_Suc_less [of len limit] 1(3) by simp
    have "base + Suc j \<le> unat limit" using True 1(3) by (simp add: word_less_nat_alt)
    moreover have "drop_bit 1 msk = drop_bit (Suc j) 0x80" using 1(2) by (simp add: drop_bit_drop_bit)
    moreover have "\<forall>s<Suc j. \<not> bit d (7 - s)" using 1(5) True stop by (auto simp: less_Suc_eq)
    ultimately have "\<exists>t<8. unat (common_bits d (drop_bit 1 msk) (len + 1) limit) = base + t \<and>
        base + t \<le> unat limit \<and> (\<forall>s<t. \<not> bit d (7 - s)) \<and> (base + t < unat limit \<longrightarrow> bit d (7 - t))"
      using 1(1) [OF True _ l] 1(7) j by simp
    with True show ?thesis by (subst common_bits.simps) simp
  next
    case False
    have "base + j < unat limit \<longrightarrow> bit d (7 - j)"
      using False stop 1(3) by (simp add: word_less_nat_alt)
    with False 1(3,5,6) j show ?thesis by (subst common_bits.simps) (auto intro!: exI [of _ j])
  qed
qed

text \<open>\<open>route_common\<close> stores the longest common prefix of two addresses, up to the length of the second.\<close>

lemma route_common_spec:
  assumes "wf_cp n" and "wf_cp p" and "addr new = replicate 16 0"
  shows "\<exists>r. route_common n p new = Some r \<and> wf_cp r \<and> family r = family new \<and>
    plen r = common_len (take (plen p) (bits_of (addr n))) (pkey p) \<and> plen r \<le> plen p \<and>
    bits_of (addr r) = take (plen r) (bits_of (addr n)) @ replicate (128 - plen r) False"
proof -
  let ?n = "addr n" and ?p = "addr p"
  define k where "k = plen p div 8"
  have len: "length ?n = 16" "length ?p = 16" "plen p \<le> 128" using assms by (simp_all add: wf_cp_def)
  have k: "k \<le> 16" using len(3) by (simp add: k_def)
  from common_bytes_spec [of 0 k ?n ?p] k len obtain i where
    i: "common_bytes ?n ?p 0 k = Some i" "i \<le> k" "take i ?n = take i ?p" "i < k \<Longrightarrow> ?n ! i \<noteq> ?p ! i"
    by auto
  have ui: "unat (of_nat (i * 8) :: byte) = i * 8"
    unfolding unat_of_nat using i(2) k by (intro mod_less) simp
  define new' where "new' = new\<lparr>addr := take i ?n @ drop i (addr new), prefixlen := of_nat (i * 8)\<rparr>"
  have a': "addr new' = take i ?n @ replicate (16 - i) 0" using assms(3) by (simp add: new'_def)
  have pl: "plen new' = i * 8" using ui by (simp add: new'_def plen_def)
  have ik: "i * 8 \<le> plen p" using i(2) by (simp add: k_def)
  have key: "pkey p = take (plen p) (bits_of ?p)" by (simp add: pkey_def)
  have rc: "route_common n p new = (if prefixlen new' \<noteq> prefixlen p then do {
       a \<leftarrow> rd8 ?n i;
       b \<leftarrow> rd8 ?p i;
       let len = common_bits (a XOR b) 0x80 (prefixlen new') (prefixlen p);
       Some (new'\<lparr>prefixlen := len, addr := (addr new')[i := a AND maskbit ! (unat len mod 8)]\<rparr>) }
     else Some new')"
    using i(1) by (simp add: route_common_def k_def plen_def new'_def Let_def)
  show ?thesis
  proof (cases "i * 8 = plen p")
    case True
    then have eq: "prefixlen new' = prefixlen p" using pl by (simp add: plen_def word_unat_eq_iff)
    have "take (plen p) (bits_of ?n) = take (plen p) (bits_of ?p)"
      using True i(3) take_bits_of_whole [of ?n ?p i] len k i(2) by (simp add: mult.commute)
    then have "common_len (take (plen p) (bits_of ?n)) (pkey p) = plen p"
      using len by (intro common_len_eqI) (simp_all add: key)
    moreover have "bits_of (addr new') = take (plen p) (bits_of ?n) @ replicate (128 - plen p) False"
    proof -
      show ?thesis using a' True take_bits_of [of i ?n]
        by (simp add: bits_of_append bits_of_zeros mult.commute)
    qed
    ultimately show ?thesis
      using eq rc True pl len a' i(2) k
      by (simp add: new'_def wf_cp_def plen_def)
  next
    case False
    have ilt: "i < 16" using False ik len(3) by simp
    let ?a = "?n ! i" and ?b = "?p ! i"
    let ?d = "?a XOR ?b"
    have "?d \<noteq> 0 \<or> plen p < i * 8 + 8"
    proof (cases "i < k")
      case True
      then have "?a \<noteq> ?b" by (rule i(4))
      then show ?thesis by (auto simp: bit_eq_iff bit_xor_iff)
    next
      case False
      then have "i = k" using i(2) by simp
      moreover have "plen p = plen p div 8 * 8 + plen p mod 8" "plen p mod 8 < 8" by simp_all
      ultimately have "plen p < i * 8 + 8" unfolding k_def by linarith
      then show ?thesis ..
    qed
    then obtain t where t: "t < 8" "unat (common_bits ?d 0x80 (prefixlen new') (prefixlen p)) = i * 8 + t"
      "i * 8 + t \<le> plen p" "\<forall>s<t. \<not> bit ?d (7 - s)" "i * 8 + t < plen p \<longrightarrow> bit ?d (7 - t)"
      using common_bits_spec [of "0x80" 0 "prefixlen new'" "i * 8" ?d "prefixlen p"] pl ik
      by (auto simp: plen_def)
    define len' where "len' = common_bits ?d 0x80 (prefixlen new') (prefixlen p)"
    define r where "r = new'\<lparr>prefixlen := len', addr := (addr new')[i := ?a AND maskbit ! t]\<rparr>"
    have l': "unat len' = i * 8 + t" using t(2) by (simp add: len'_def)
    have "prefixlen new' \<noteq> prefixlen p" using False pl by (metis plen_def)
    then have res: "route_common n p new = Some r"
      using rc ilt len l' t(1) by (simp add: rd8_def len'_def [symmetric] r_def Let_def)
    have plr: "plen r = i * 8 + t" using l' by (simp add: r_def plen_def)
    have eqt: "take t (byte_bits ?a) = take t (byte_bits ?b)"
      using t(1,4) by (auto simp: list_eq_iff_nth_eq nth_byte_bits bit_xor_iff)
    have tk: "take (8 * i + t) (bits_of ?n) = take (8 * i + t) (bits_of ?p)"
      using take_bits_of_split [of ?n ?p i t] len ilt t(1) i(3) eqt by simp
    have cl: "common_len (take (plen p) (bits_of ?n)) (pkey p) = i * 8 + t"
    proof (rule common_len_eqI)
      show "take (i * 8 + t) (take (plen p) (bits_of ?n)) = take (i * 8 + t) (pkey p)"
        using tk t(3) by (simp add: key min_def mult.commute)
      assume "i * 8 + t < length (take (plen p) (bits_of ?n))"
      then have less: "i * 8 + t < plen p" by simp
      then have "bit ?d (7 - t)" using t(5) by simp
      moreover have "(i * 8 + t) div 8 = i" "(i * 8 + t) mod 8 = t" using t(1) by simp_all
      moreover have "i * 8 + t < 128" using less len(3) by simp
      ultimately show "take (plen p) (bits_of ?n) ! (i * 8 + t) \<noteq> pkey p ! (i * 8 + t)"
        using less len by (simp add: key nth_bits_of bit_xor_iff)
    qed (use t(3) len in \<open>simp_all add: key\<close>)
    note bb = take_bits_of [of i ?n, symmetric]
    have na: "addr r = take i ?n @ [?a AND maskbit ! t] @ replicate (15 - i) 0"
      using a' ilt len by (simp add: r_def list_update_append Cons_replicate_eq numeral_eq_Suc
        Suc_diff_le)
    have spl: "take (i * 8 + t) (bits_of ?n) = take (8 * i) (bits_of ?n) @ take t (byte_bits ?a)"
    proof -
      have "?n = take i ?n @ ?a # drop (Suc i) ?n" using ilt len by (simp add: id_take_nth_drop [symmetric])
      then have "bits_of ?n = bits_of (take i ?n) @ byte_bits ?a @ bits_of (drop (Suc i) ?n)"
        by (metis bits_of_Cons bits_of_append)
      then have "take (i * 8 + t) (bits_of ?n) =
          take (i * 8 + t) (bits_of (take i ?n) @ byte_bits ?a @ bits_of (drop (Suc i) ?n))" by simp
      also have "\<dots> = bits_of (take i ?n) @ take t (byte_bits ?a)" using ilt len t(1) by simp
      finally show ?thesis by (simp add: take_bits_of)
    qed
    have "bits_of (addr r) = take (i * 8 + t) (bits_of ?n) @ replicate (128 - (i * 8 + t)) False"
    proof -
      have "128 - (i * 8 + t) = (8 - t) + 8 * (15 - i)" using ilt t(1) by simp
      then have z: "replicate (128 - (i * 8 + t)) False =
          replicate (8 - t) False @ replicate (8 * (15 - i)) False" by (simp only: replicate_add)
      have "byte_bits (?a AND maskbit ! t) = take t (byte_bits ?a) @ replicate (8 - t) False"
        by (rule byte_bits_masked [OF lead_maskbit]) (use t(1) in simp_all)
      then show ?thesis unfolding z by (simp add: na bits_of_append bb spl bits_of_zeros)
    qed
    moreover have "wf_cp r" using na len ilt plr t(3) by (simp add: wf_cp_def)
    moreover have "family r = family new" by (simp add: r_def new'_def)
    ultimately show ?thesis using res cl plr t(3) by auto
  qed
qed

text \<open>The prefixes that match an address form a chain: the interface of longest-prefix matching.\<close>

definition prefix_includes :: "cp_prefix \<Rightarrow> cp_prefix \<Rightarrow> bool" where
  "prefix_includes n p \<longleftrightarrow> wf_cp n \<and> wf_cp p \<and> prefix_match n p = Some True"

lemma prefix_includes_iff:
  "prefix_includes n p \<longleftrightarrow> wf_cp n \<and> wf_cp p \<and> plen n \<le> plen p \<and> take (plen n) (pkey p) = pkey n"
  by (auto simp: prefix_includes_def prefix_match_eq pkey_def min_def)

interpretation routes: prefix_cover prefix_includes plen pkey
proof
  show "prefix_includes a e \<Longrightarrow> length (pkey a) = plen a" for a e
    by (simp add: prefix_includes_def length_pkey)
  show "prefix_includes a e \<Longrightarrow> prefix_includes b e \<Longrightarrow> plen a \<le> plen b \<Longrightarrow> take (plen a) (pkey b) = pkey a"
    for a b e by (auto simp: prefix_includes_iff min_def dest: sym)
qed

section \<open>Properties\<close>

definition net10 :: "byte \<Rightarrow> cp_prefix" where
  "net10 l = \<lparr>family = FAM_INET, prefixlen = l, addr = [10, 1, 2, 3] @ replicate 12 0\<rparr>"

lemma wf_net10: "l \<le> 128 \<Longrightarrow> wf_cp (net10 l)"
  by (simp add: wf_cp_def net10_def plen_def word_le_nat_alt)

text \<open>
  Masking an IPv4 prefix of at most 32 bits keeps exactly the bits of the prefix, clears the rest
  of the four address bytes and touches nothing else; masking again changes nothing.
\<close>

theorem apply_mask_clears_host_bits:
  assumes "wf_cp p" and "family p = FAM_INET" and "plen p \<le> 32"
  shows "bits_of (addr (apply_mask p)) =
      take (plen p) (bits_of (addr p)) @ replicate (32 - plen p) False @ drop 32 (bits_of (addr p)) \<and>
    prefixlen (apply_mask p) = prefixlen p \<and> family (apply_mask p) = FAM_INET \<and>
    apply_mask (apply_mask p) = apply_mask p"
proof -
  have len: "length (addr p) = 16" using assms(1) by (simp add: wf_cp_def)
  let ?q = "apply_mask_n 4 p"
  have q: "bits_of (addr ?q) =
      take (plen p) (bits_of (addr p)) @ replicate (32 - plen p) False @ drop 32 (bits_of (addr p))"
    "length (addr ?q) = 16" "prefixlen ?q = prefixlen p" "family ?q = FAM_INET"
    using apply_mask_n_bits [OF len, of 4] assms(2,3) by simp_all
  have pq: "plen ?q = plen p" using q(3) by (simp add: plen_def)
  have r: "bits_of (addr (apply_mask_n 4 ?q)) =
      take (plen p) (bits_of (addr ?q)) @ replicate (32 - plen p) False @ drop 32 (bits_of (addr ?q))"
    "length (addr (apply_mask_n 4 ?q)) = 16" "prefixlen (apply_mask_n 4 ?q) = prefixlen ?q"
    "family (apply_mask_n 4 ?q) = family ?q"
    using apply_mask_n_bits [OF q(2), of 4] assms(3) pq by simp_all
  have "bits_of (addr (apply_mask_n 4 ?q)) = bits_of (addr ?q)"
    unfolding r(1) q(1) using len assms(3) by simp
  then have "addr (apply_mask_n 4 ?q) = addr ?q" using r(2) q(2) by (simp add: bits_of_inject)
  then have "apply_mask_n 4 ?q = ?q" using r(3,4) by (cases ?q, cases "apply_mask_n 4 ?q") simp
  with q assms(2) show ?thesis by (simp add: apply_mask_def apply_mask_ipv4_def)
qed

theorem apply_mask_clears_host_bits_witness:
  "addr (apply_mask (net10 11)) = [10, 0, 0, 0] @ replicate 12 0 \<and>
    apply_mask (apply_mask (net10 11)) = apply_mask (net10 11)"
proof -
  have "wf_cp (net10 11)" "family (net10 11) = FAM_INET" "plen (net10 11) \<le> 32"
    by (simp_all add: wf_net10) (simp_all add: net10_def plen_def)
  from apply_mask_clears_host_bits [OF this] have "apply_mask (apply_mask (net10 11)) = apply_mask (net10 11)"
    by simp
  moreover have "addr (apply_mask (net10 11)) = [10, 0, 0, 0] @ replicate 12 0" by code_simp
  ultimately show ?thesis by simp
qed

text \<open>
  \<open>prefix_match\<close> answers, for any two prefixes of at most 128 bits, whether the first is no longer
  than the second and they agree on the bits of the first; it reads nothing outside the addresses.
\<close>

theorem prefix_match_correct:
  assumes "wf_cp n" and "wf_cp p"
  shows "prefix_match n p = Some (plen n \<le> plen p \<and>
    take (plen n) (bits_of (addr p)) = take (plen n) (bits_of (addr n)))"
  using prefix_match_eq [OF assms] by (simp add: pkey_def)

theorem prefix_match_correct_witness:
  "prefix_match (net10 9) (net10 32) = Some True \<and> prefix_match (net10 32) (net10 9) = Some False"
  using prefix_match_correct [OF wf_net10 wf_net10, of 9 32] prefix_match_correct [OF wf_net10 wf_net10, of 32 9]
  by (simp add: plen_def net10_def)

text \<open>
  The branch node of the radix tree gets the longest common prefix: \<open>route_common\<close> stops at the
  first bit in which the two addresses differ, or at the length of the second prefix, keeps those bits
  and clears all others, without an access outside the 16 bytes of an address.
\<close>

theorem route_common_longest:
  assumes "wf_cp n" and "wf_cp p" and "addr new = replicate 16 0"
  shows "\<exists>r. route_common n p new = Some r \<and> plen r \<le> plen p \<and>
    take (plen r) (bits_of (addr n)) = take (plen r) (bits_of (addr p)) \<and>
    (plen r < plen p \<longrightarrow> bits_of (addr n) ! plen r \<noteq> bits_of (addr p) ! plen r) \<and>
    bits_of (addr r) = take (plen r) (bits_of (addr n)) @ replicate (128 - plen r) False"
proof -
  from route_common_spec [OF assms] obtain r where
    r: "route_common n p new = Some r" "plen r \<le> plen p"
      "plen r = common_len (take (plen p) (bits_of (addr n))) (pkey p)"
      "bits_of (addr r) = take (plen r) (bits_of (addr n)) @ replicate (128 - plen r) False" by blast
  have len: "length (take (plen p) (bits_of (addr n))) = plen p" "length (pkey p) = plen p"
    using assms by (simp_all add: wf_cp_def pkey_def)
  show ?thesis
    using r common_len_agree [of "take (plen p) (bits_of (addr n))" "pkey p"] len
    by (auto simp: pkey_def min_def)
qed

theorem route_common_longest_witness:
  "\<exists>r. route_common (net10 24) ((net10 24)\<lparr>addr := [10, 9, 0, 0] @ replicate 12 0\<rparr>)
      \<lparr>family = FAM_INET, prefixlen = 0, addr = replicate 16 0\<rparr> = Some r \<and> plen r \<le> 24"
  using route_common_longest [OF wf_net10, of 24 "(net10 24)\<lparr>addr := [10, 9, 0, 0] @ replicate 12 0\<rparr>"
      "\<lparr>family = FAM_INET, prefixlen = 0, addr = replicate 16 0\<rparr>"]
  by (auto simp: wf_cp_def plen_def net10_def)

text \<open>
  The length after the slash is cut to eight bits before it is checked: any number whose residue
  modulo 256 is at most 32 is accepted, as that residue (10.0.0.0/264 is read as 10.0.0.0/8), and a missing
  number is read as 0.
\<close>

theorem str2prefix_ipv4_length_wraps:
  assumes "CHR ''/'' \<in> set str" and "inet_aton (before_slash str) = Some a"
    and "atoi (after_slash str) mod 256 \<le> 32"
  shows "\<exists>q. str2prefix_ipv4 inet_aton str p = (1, q) \<and> family q = FAM_INET \<and>
    int (plen q) = atoi (after_slash str) mod 256 \<and> take 4 (addr q) = take 4 (a @ drop 4 (addr p))"
proof -
  let ?l = "of_int (atoi (after_slash str)) :: byte"
  have l: "uint ?l = atoi (after_slash str) mod 256" by (simp add: uint_word_of_int)
  then have "\<not> 32 < ?l" using assms(3) by (simp add: word_less_def)
  with assms l show ?thesis by (simp add: str2prefix_ipv4_def Let_def set_prefix4_def plen_def)
qed

theorem str2prefix_ipv4_length_wraps_witness:
  "\<exists>q. str2prefix_ipv4 (\<lambda>s. if s = ''10.0.0.0'' then Some [10, 0, 0, 0] else None) ''10.0.0.0/264''
      (net10 0) = (1, q) \<and> int (plen q) = 8"
proof -
  have p: "CHR ''/'' \<in> set ''10.0.0.0/264''" "before_slash ''10.0.0.0/264'' = ''10.0.0.0''"
    "atoi (after_slash ''10.0.0.0/264'') mod 256 = 8" by code_simp+
  from str2prefix_ipv4_length_wraps [OF p(1), of "\<lambda>s. if s = ''10.0.0.0'' then Some [10, 0, 0, 0] else None"
      "[10, 0, 0, 0]" "net10 0"] p(2,3)
  show ?thesis by auto
qed

text \<open>
  \<open>prefix2str\<close> ends with a store one past its allocation, for every prefix and every text of its
  address.
\<close>

theorem prefix2str_overruns:
  "prefix2str inet_ntop p = Inl Undef"
  by (simp add: prefix2str_def Let_def)

end
