(* ===== verification/Cp_Table.thy ===== *)
theory Cp_Table
  imports Cp_Prefix
begin

text \<open>
  \<open>radix/db_table.c\<close>: the radix tree that keeps the EID databases of the control plane. Nodes are
  cells of a heap, with parent and child pointers and a reference count (\<open>lock\<close>); a table owns its
  heap. \<open>None\<close> is a failed assertion, a null dereference, a use after free or a read outside an
  address; a loop that does not end is \<open>None\<close> as well. \<open>removed\<close> lists the calls of the table's
  \<open>remove_fct\<close>, which frees the data of a node.
\<close>

type_synonym ref = nat

text \<open>The data behind a node's \<open>flags\<close> pointer; \<open>rsvd\<close> points to the site the EID belongs to. The
  bit fields are kept at their widths.\<close>

record mapping_flags =
  mf_iid :: u32
  mf_act :: "3 word"
  mf_A :: "1 word"
  mf_version :: "12 word"
  mf_proxy :: "1 word"
  mf_ttl :: u32
  mf_referral :: "4 word"
  mf_incomplete :: "1 word"
  mf_range :: byte
  mf_active :: "1 word"
  mf_rsvd :: "ref option"

record 'i db_node =
  n_p :: cp_prefix
  parent :: "ref option"
  l_left :: "ref option"
  l_right :: "ref option"
  info :: "'i option"
  flags :: "mapping_flags option"
  lock_ct :: u32

record 'i db_table =
  heap :: "ref \<Rightarrow> 'i db_node option"
  next_ref :: ref
  top :: "ref option"
  remove_fct :: bool
  count :: u64
  removed :: "'i option list"

definition link :: "'i db_node \<Rightarrow> bool \<Rightarrow> ref option" where
  "link n b = (if b then l_right n else l_left n)"

definition put :: "ref \<Rightarrow> 'i db_node \<Rightarrow> 'i db_table \<Rightarrow> 'i db_table" where
  "put a n t = t\<lparr>heap := (heap t)(a \<mapsto> n)\<rparr>"

definition db_table_init :: "bool \<Rightarrow> 'i db_table" where
  "db_table_init has_remove =
     \<lparr>heap = Map.empty, next_ref = 0, top = None, remove_fct = has_remove, count = 0, removed = []\<rparr>"

definition zero_prefix :: cp_prefix where
  "zero_prefix = \<lparr>family = FAM_OTHER 0, prefixlen = 0, addr = replicate 16 0\<rparr>"

definition db_node_create :: "'i db_table \<Rightarrow> ref \<times> 'i db_table" where
  "db_node_create t =
     (next_ref t,
      put (next_ref t) \<lparr>n_p = zero_prefix, parent = None, l_left = None, l_right = None, info = None,
        flags = None, lock_ct = 0\<rparr> (t\<lparr>next_ref := Suc (next_ref t)\<rparr>))"

definition db_node_set :: "cp_prefix \<Rightarrow> 'i db_table \<Rightarrow> (ref \<times> 'i db_table) option" where
  "db_node_set p t =
     (let (a, t) = db_node_create t
      in do {
        n \<leftarrow> heap t a;
        q \<leftarrow> prefix_copy (n_p n) p;
        Some (a, put a (n\<lparr>n_p := q\<rparr>) t) })"

definition db_node_free :: "ref \<Rightarrow> 'i db_table \<Rightarrow> 'i db_table option" where
  "db_node_free a t = do {
     n \<leftarrow> heap t a;
     Some (t\<lparr>heap := (heap t)(a := None),
             removed := (if remove_fct t then removed t @ [info n] else removed t)\<rparr>) }"

definition set_link :: "ref \<Rightarrow> ref \<Rightarrow> 'i db_table \<Rightarrow> 'i db_table option" where
  "set_link node new t = do {
     n \<leftarrow> heap t node;
     m \<leftarrow> heap t new;
     bit \<leftarrow> check_bit (addr (n_p m)) (prefixlen (n_p n));
     let t = put node (if bit then n\<lparr>l_right := Some new\<rparr> else n\<lparr>l_left := Some new\<rparr>) t;
     m \<leftarrow> heap t new;
     Some (put new (m\<lparr>parent := Some node\<rparr>) t) }"

definition db_lock_node :: "ref \<Rightarrow> 'i db_table \<Rightarrow> 'i db_table option" where
  "db_lock_node a t = do {
     n \<leftarrow> heap t a;
     Some (put a (n\<lparr>lock_ct := lock_ct n + 1\<rparr>) t) }"

text \<open>The test that every descent makes at a node, in this order.\<close>

definition covers_next :: "'i db_node \<Rightarrow> cp_prefix \<Rightarrow> bool option" where
  "covers_next n p =
     (if prefixlen (n_p n) \<le> prefixlen p then prefix_match (n_p n) p else Some False)"

text \<open>The descent of \<open>db_node_match\<close> (\<open>keep\<close>: the node has data) and of \<open>db_node_match_prefix\<close>
  (every node).\<close>

partial_function (option) match_loop ::
  "('i db_node \<Rightarrow> bool) \<Rightarrow> (ref \<Rightarrow> 'i db_node option) \<Rightarrow> cp_prefix \<Rightarrow> ref option \<Rightarrow> ref option \<Rightarrow>
   ref option option" where
  "match_loop keep h p node matched =
     (case node of
        None \<Rightarrow> Some matched
      | Some a \<Rightarrow> do {
          n \<leftarrow> h a;
          c \<leftarrow> covers_next n p;
          if c then do {
            b \<leftarrow> check_bit (addr p) (prefixlen (n_p n));
            match_loop keep h p (link n b) (if keep n then Some a else matched) }
          else Some matched })"

definition check_top_family :: "cp_prefix \<Rightarrow> 'i db_table \<Rightarrow> unit option" where
  "check_top_family p t = do {
     a \<leftarrow> top t;
     n \<leftarrow> heap t a;
     if family (n_p n) = family p then Some () else None }"

definition lock_matched :: "ref option \<Rightarrow> 'i db_table \<Rightarrow> (ref option \<times> 'i db_table) option" where
  "lock_matched m t =
     (case m of
        None \<Rightarrow> Some (None, t)
      | Some a \<Rightarrow> do { t \<leftarrow> db_lock_node a t; Some (Some a, t) })"

definition db_node_match :: "cp_prefix \<Rightarrow> 'i db_table \<Rightarrow> (ref option \<times> 'i db_table) option" where
  "db_node_match p t = do {
     _ \<leftarrow> check_top_family p t;
     m \<leftarrow> match_loop (\<lambda>n. info n \<noteq> None) (heap t) p (top t) None;
     lock_matched m t }"

definition db_node_match_prefix :: "cp_prefix \<Rightarrow> 'i db_table \<Rightarrow> (ref option \<times> 'i db_table) option" where
  "db_node_match_prefix p t = do {
     _ \<leftarrow> check_top_family p t;
     m \<leftarrow> match_loop (\<lambda>n. True) (heap t) p (top t) None;
     lock_matched m t }"

definition db_node_match_ipv4 :: "byte list \<Rightarrow> 'i db_table \<Rightarrow> (ref option \<times> 'i db_table) option" where
  "db_node_match_ipv4 a t =
     db_node_match \<lparr>family = FAM_INET, prefixlen = 32, addr = a @ replicate 12 0\<rparr> t"

definition db_node_match_ipv6 :: "byte list \<Rightarrow> 'i db_table \<Rightarrow> (ref option \<times> 'i db_table) option" where
  "db_node_match_ipv6 a t =
     db_node_match \<lparr>family = FAM_INET6, prefixlen = 128, addr = a\<rparr> t"

partial_function (option) exact_loop ::
  "(ref \<Rightarrow> 'i db_node option) \<Rightarrow> cp_prefix \<Rightarrow> ref option \<Rightarrow> ref option option" where
  "exact_loop h p node =
     (case node of
        None \<Rightarrow> Some None
      | Some a \<Rightarrow> do {
          n \<leftarrow> h a;
          c \<leftarrow> covers_next n p;
          if c then
            (if prefixlen (n_p n) = prefixlen p \<and> info n \<noteq> None then Some (Some a)
             else do {
               b \<leftarrow> check_bit (addr p) (prefixlen (n_p n));
               exact_loop h p (link n b) })
          else Some None })"

definition db_node_match_exact :: "cp_prefix \<Rightarrow> 'i db_table \<Rightarrow> (ref option \<times> 'i db_table) option" where
  "db_node_match_exact p t = do {
     _ \<leftarrow> check_top_family p t;
     m \<leftarrow> exact_loop (heap t) p (top t);
     lock_matched m t }"

text \<open>The descent of \<open>db_node_get\<close>: the node with exactly that prefix, or where to attach one.\<close>

partial_function (option) get_loop ::
  "(ref \<Rightarrow> 'i db_node option) \<Rightarrow> cp_prefix \<Rightarrow> ref option \<Rightarrow> ref option \<Rightarrow>
   (ref option \<times> ref option \<times> bool) option" where
  "get_loop h p match node =
     (case node of
        None \<Rightarrow> Some (match, None, False)
      | Some a \<Rightarrow> do {
          n \<leftarrow> h a;
          c \<leftarrow> covers_next n p;
          if c then
            (if prefixlen (n_p n) = prefixlen p then Some (match, Some a, True)
             else do {
               b \<leftarrow> check_bit (addr p) (prefixlen (n_p n));
               get_loop h p (Some a) (link n b) })
          else Some (match, Some a, False) })"

definition attach :: "ref option \<Rightarrow> ref \<Rightarrow> 'i db_table \<Rightarrow> 'i db_table option" where
  "attach match new t =
     (case match of
        Some m \<Rightarrow> set_link m new t
      | None \<Rightarrow> Some (t\<lparr>top := Some new\<rparr>))"

definition incr_count :: "'i db_table \<Rightarrow> 'i db_table" where
  "incr_count t = t\<lparr>count := count t + 1\<rparr>"

text \<open>The last branch: a node for the common prefix, and below it one for \<open>p\<close> when that is longer.\<close>

definition db_node_split ::
  "cp_prefix \<Rightarrow> ref option \<Rightarrow> ref \<Rightarrow> 'i db_table \<Rightarrow> (ref \<times> 'i db_table) option" where
  "db_node_split p match node t = do {
     let (new, t) = db_node_create t;
     n \<leftarrow> heap t node;
     m \<leftarrow> heap t new;
     c \<leftarrow> route_common (n_p n) p (n_p m);
     let c = c\<lparr>family := family p\<rparr>;
     let t = put new (m\<lparr>n_p := c\<rparr>) t;
     t \<leftarrow> set_link new node t;
     t \<leftarrow> attach match new t;
     if prefixlen c \<noteq> prefixlen p then do {
       (new2, t) \<leftarrow> db_node_set p t;
       t \<leftarrow> set_link new new2 t;
       Some (new2, incr_count t) }
     else Some (new, t) }"

definition db_node_get :: "cp_prefix \<Rightarrow> 'i db_table \<Rightarrow> (ref \<times> 'i db_table) option" where
  "db_node_get p t = do {
     _ \<leftarrow> (case top t of None \<Rightarrow> Some () | Some _ \<Rightarrow> check_top_family p t);
     (match, node, found) \<leftarrow> get_loop (heap t) p None (top t);
     case node of
       Some a \<Rightarrow>
         if found then do { t \<leftarrow> db_lock_node a t; Some (a, t) }
         else do {
           (new, t) \<leftarrow> db_node_split p match a t;
           t \<leftarrow> db_lock_node new (incr_count t);
           Some (new, t) }
     | None \<Rightarrow> do {
         (new, t) \<leftarrow> db_node_set p t;
         t \<leftarrow> attach match new t;
         t \<leftarrow> db_lock_node new (incr_count t);
         Some (new, t) } }"

text \<open>Deletion goes up while the parent is an unlocked stub.\<close>

definition relink_parent :: "ref \<Rightarrow> ref option \<Rightarrow> ref option \<Rightarrow> 'i db_table \<Rightarrow> 'i db_table option" where
  "relink_parent node par child t =
     (case par of
        Some q \<Rightarrow> do {
          n \<leftarrow> heap t q;
          Some (put q (if l_left n = Some node then n\<lparr>l_left := child\<rparr> else n\<lparr>l_right := child\<rparr>) t) }
      | None \<Rightarrow> Some (t\<lparr>top := child\<rparr>))"

definition reparent_child :: "ref option \<Rightarrow> ref option \<Rightarrow> 'i db_table \<Rightarrow> 'i db_table option" where
  "reparent_child child par t =
     (case child of
        None \<Rightarrow> Some t
      | Some c \<Rightarrow> do { n \<leftarrow> heap t c; Some (put c (n\<lparr>parent := par\<rparr>) t) })"

partial_function (option) db_node_delete :: "ref \<Rightarrow> 'i db_table \<Rightarrow> 'i db_table option" where
  "db_node_delete node t = do {
     n \<leftarrow> heap t node;
     if lock_ct n \<noteq> 0 \<or> info n \<noteq> None then None
     else if l_left n \<noteq> None \<and> l_right n \<noteq> None then Some t
     else do {
       let child = (if l_left n \<noteq> None then l_left n else l_right n);
       t \<leftarrow> reparent_child child (parent n) t;
       t \<leftarrow> relink_parent node (parent n) child t;
       t \<leftarrow> db_node_free node (t\<lparr>count := count t - 1\<rparr>);
       case parent n of
         None \<Rightarrow> Some t
       | Some q \<Rightarrow> do {
           m \<leftarrow> heap t q;
           if lock_ct m = 0 then db_node_delete q t else Some t } } }"

definition db_unlock_node :: "ref \<Rightarrow> 'i db_table \<Rightarrow> 'i db_table option" where
  "db_unlock_node a t = do {
     n \<leftarrow> heap t a;
     let n = n\<lparr>lock_ct := lock_ct n - 1\<rparr>;
     let t = put a n t;
     if lock_ct n = 0 then db_node_delete a t else Some t }"

definition db_table_top :: "'i db_table \<Rightarrow> (ref option \<times> 'i db_table) option" where
  "db_table_top t = lock_matched (top t) t"

text \<open>The climb of \<open>db_route_next\<close> (no limit) and \<open>db_route_next_until\<close>: the next right subtree.\<close>

partial_function (option) climb ::
  "(ref \<Rightarrow> 'i db_node option) \<Rightarrow> ref option \<Rightarrow> ref \<Rightarrow> ref option option" where
  "climb h limit node = do {
     n \<leftarrow> h node;
     case parent n of
       None \<Rightarrow> Some None
     | Some q \<Rightarrow>
         if limit = Some node then Some None
         else do {
           m \<leftarrow> h q;
           if l_left m = Some node \<and> l_right m \<noteq> None then Some (l_right m)
           else climb h limit q } }"

definition step_to :: "ref \<Rightarrow> ref \<Rightarrow> 'i db_table \<Rightarrow> (ref option \<times> 'i db_table) option" where
  "step_to next node t = do {
     t \<leftarrow> db_lock_node next t;
     t \<leftarrow> db_unlock_node node t;
     Some (Some next, t) }"

definition route_next_upto :: "ref option \<Rightarrow> ref \<Rightarrow> 'i db_table \<Rightarrow> (ref option \<times> 'i db_table) option" where
  "route_next_upto limit node t = do {
     n \<leftarrow> heap t node;
     case l_left n of
       Some next \<Rightarrow> step_to next node t
     | None \<Rightarrow>
         (case l_right n of
            Some next \<Rightarrow> step_to next node t
          | None \<Rightarrow> do {
              r \<leftarrow> climb (heap t) limit node;
              case r of
                Some next \<Rightarrow> step_to next node t
              | None \<Rightarrow> do { t \<leftarrow> db_unlock_node node t; Some (None, t) } }) }"

definition db_route_next :: "ref \<Rightarrow> 'i db_table \<Rightarrow> (ref option \<times> 'i db_table) option" where
  "db_route_next node t = route_next_upto None node t"

definition db_route_next_until :: "ref \<Rightarrow> ref \<Rightarrow> 'i db_table \<Rightarrow> (ref option \<times> 'i db_table) option" where
  "db_route_next_until node limit t = route_next_upto (Some limit) node t"

definition db_table_count :: "'i db_table \<Rightarrow> u64" where
  "db_table_count t = count t"

definition db_node_set_info ::
  "ref option \<Rightarrow> 'i option \<Rightarrow> 'i db_table \<Rightarrow> ('i option \<times> 'i db_table) option" where
  "db_node_set_info node i t =
     (case node of
        None \<Rightarrow> Some (None, t)
      | Some a \<Rightarrow> do { n \<leftarrow> heap t a; Some (info n, put a (n\<lparr>info := i\<rparr>) t) })"

definition db_node_get_info :: "ref option \<Rightarrow> 'i db_table \<Rightarrow> 'i option option" where
  "db_node_get_info node t =
     (case node of
        None \<Rightarrow> Some None
      | Some a \<Rightarrow> do { n \<leftarrow> heap t a; Some (info n) })"

text \<open>\<open>db_table_free\<close> walks to a leaf, unlinks it from its parent and frees it, until the root is freed.\<close>

partial_function (option) free_loop :: "ref option \<Rightarrow> 'i db_table \<Rightarrow> 'i db_table option" where
  "free_loop node t =
     (case node of
        None \<Rightarrow> Some t
      | Some a \<Rightarrow> do {
          n \<leftarrow> heap t a;
          if l_left n \<noteq> None then free_loop (l_left n) t
          else if l_right n \<noteq> None then free_loop (l_right n) t
          else case parent n of
            Some q \<Rightarrow> do {
              m \<leftarrow> heap t q;
              let t = put q (if l_left m = Some a then m\<lparr>l_left := None\<rparr> else m\<lparr>l_right := None\<rparr>) t;
              t \<leftarrow> db_node_free a t;
              free_loop (Some q) t }
          | None \<Rightarrow> db_node_free a t })"

definition db_table_free :: "'i db_table \<Rightarrow> 'i db_table option" where
  "db_table_free t = free_loop (top t) t"

definition db_table_finish :: "'i db_table \<Rightarrow> 'i db_table option" where
  "db_table_finish t = db_table_free t"

end
