(* ===== verification/Cp_Trie.thy ===== *)
theory Cp_Trie
  imports Cp_Table
begin

text \<open>
  The abstract view of \<open>Cp_Table\<close>: the tree that a heap holds (\<open>tree_at\<close>), when it is a radix tree
  (\<open>trie\<close>), and that the lookups of \<open>db_table.c\<close> return the longest matching prefix of its nodes.
\<close>

datatype 'i rtree =
    Tip
  | Nd ref cp_prefix "'i option" u32 "'i rtree" "'i rtree"

fun tree_at :: "(ref \<Rightarrow> 'i db_node option) \<Rightarrow> ref option \<Rightarrow> ref option \<Rightarrow> 'i rtree \<Rightarrow> bool" where
  "tree_at h par node Tip \<longleftrightarrow> node = None"
| "tree_at h par node (Nd a q i k l r) \<longleftrightarrow> node = Some a \<and>
     (\<exists>n. h a = Some n \<and> n_p n = q \<and> parent n = par \<and> info n = i \<and> lock_ct n = k \<and>
          tree_at h (Some a) (l_left n) l \<and> tree_at h (Some a) (l_right n) r)"

fun nodes :: "'i rtree \<Rightarrow> (ref \<times> cp_prefix \<times> 'i option) list" where
  "nodes Tip = []"
| "nodes (Nd a q i k l r) = (a, q, i) # nodes l @ nodes r"

fun refs :: "'i rtree \<Rightarrow> ref list" where
  "refs Tip = []"
| "refs (Nd a q i k l r) = a # refs l @ refs r"

text \<open>A node's subtrees hold the longer prefixes that continue its own with a 0 and with a 1.\<close>

definition extends :: "cp_prefix \<Rightarrow> bool \<Rightarrow> cp_prefix \<Rightarrow> bool" where
  "extends q b q' \<longleftrightarrow> plen q < plen q' \<and> take (Suc (plen q)) (pkey q') = pkey q @ [b]"

fun trie :: "'i rtree \<Rightarrow> bool" where
  "trie Tip \<longleftrightarrow> True"
| "trie (Nd a q i k l r) \<longleftrightarrow> wf_cp q \<and> trie l \<and> trie r \<and>
     (\<forall>(_, q', _)\<in>set (nodes l). extends q False q') \<and>
     (\<forall>(_, q', _)\<in>set (nodes r). extends q True q')"

lemma refs_nodes: "refs t = map fst (nodes t)"
  by (induction t) auto

lemma trie_wf: "trie t \<Longrightarrow> (a, q, i) \<in> set (nodes t) \<Longrightarrow> wf_cp q"
  by (induction t) auto

lemma extends_bit:
  assumes "wf_cp q" and "wf_cp q'" and "extends q b q'" and "prefix_includes q' p"
  shows "prefix_includes q p" and "plen q < plen p" and "pkey p ! plen q = b"
proof -
  have len: "length (pkey q) = plen q" "length (pkey q') = plen q'" using assms(1,2) by (simp_all add: length_pkey)
  have p: "wf_cp p" "plen q' \<le> plen p" "take (plen q') (pkey p) = pkey q'"
    using assms(4) by (simp_all add: prefix_includes_iff)
  have lt: "plen q < plen q'" and ext: "take (Suc (plen q)) (pkey q') = pkey q @ [b]"
    using assms(3) by (simp_all add: extends_def)
  have "take (Suc (plen q)) (pkey p) = take (Suc (plen q)) (pkey q')"
    using lt p(3) by (metis Suc_leI min.absorb1 take_take)
  with ext have pq: "take (Suc (plen q)) (pkey p) = pkey q @ [b]" by simp
  then have "take (plen q) (pkey p) = pkey q"
    using len(1) by (metis append_eq_conv_conj le_add2 min.absorb1 plus_1_eq_Suc take_take)
  then show "prefix_includes q p"
    using assms(1) p(1,2) lt by (simp add: prefix_includes_iff)
  show "plen q < plen p" using lt p(2) by simp
  have "pkey p ! plen q = take (Suc (plen q)) (pkey p) ! plen q" by simp
  with pq len(1) show "pkey p ! plen q = b" by (metis nth_append_length)
qed

lemma covers_next_eq:
  "wf_cp (n_p n) \<Longrightarrow> wf_cp p \<Longrightarrow> covers_next n p = Some (prefix_includes (n_p n) p)"
  using prefix_match_eq [of "n_p n" p]
  by (auto simp: covers_next_def prefix_includes_def plen_def word_le_nat_alt)

lemma check_bit_pkey:
  "wf_cp p \<Longrightarrow> plen q < 128 \<Longrightarrow> plen q < plen p \<Longrightarrow> check_bit (addr p) (prefixlen q) = Some (pkey p ! plen q)"
  by (simp add: wf_cp_def check_bit_eq plen_def pkey_def)

lemma check_bit_some: "wf_cp p \<Longrightarrow> plen q < 128 \<Longrightarrow> \<exists>b. check_bit (addr p) (prefixlen q) = Some b"
  by (simp add: wf_cp_def check_bit_eq plen_def)

section \<open>The descent finds the longest match\<close>

text \<open>The nodes a lookup of \<open>p\<close> may return, and that \<open>r\<close> is the longest of them (\<open>m\<close> when there is none).\<close>

definition matching ::
  "('i option \<Rightarrow> bool) \<Rightarrow> cp_prefix \<Rightarrow> 'i rtree \<Rightarrow> (ref \<times> cp_prefix \<times> 'i option) set" where
  "matching keep p t = {(a, q, i). (a, q, i) \<in> set (nodes t) \<and> keep i \<and> prefix_includes q p}"

definition longest :: "(ref \<times> cp_prefix \<times> 'i option) set \<Rightarrow> ref option \<Rightarrow> ref option \<Rightarrow> bool" where
  "longest M m r \<longleftrightarrow> M = {} \<and> r = m \<or>
     (\<exists>(a, q, i)\<in>M. r = Some a \<and> (\<forall>(a', q', i')\<in>M. plen q' \<le> plen q))"

definition short :: "'i rtree \<Rightarrow> bool" where
  "short t \<longleftrightarrow> (\<forall>(a, q, i)\<in>set (nodes t). plen q < 128)"

lemma matching_Tip [simp]: "matching keep p Tip = {}"
  by (simp add: matching_def)

lemma matching_none:
  assumes "trie (Nd a q i k l r)" and "\<not> prefix_includes q p"
  shows "matching keep p (Nd a q i k l r) = {}"
proof -
  have w: "wf_cp q" "trie l" "trie r" using assms(1) by auto
  have "\<not> prefix_includes q' p" if "(a', q', i') \<in> set (nodes l)" for a' q' i'
    using extends_bit(1) [OF w(1) trie_wf [OF w(2) that], of False p] assms that by auto
  moreover have "\<not> prefix_includes q' p" if "(a', q', i') \<in> set (nodes r)" for a' q' i'
    using extends_bit(1) [OF w(1) trie_wf [OF w(3) that], of True p] assms that by auto
  ultimately show ?thesis using assms(2) by (auto simp: matching_def)
qed

lemma matching_Nd:
  assumes "trie (Nd a q i k l r)" and "prefix_includes q p"
    and "plen q < plen p \<longrightarrow> b = pkey p ! plen q"
  shows "matching keep p (Nd a q i k l r) =
    (if keep i then {(a, q, i)} else {}) \<union> matching keep p (if b then r else l)"
proof -
  have w: "wf_cp q" "trie l" "trie r" using assms(1) by auto
  have "\<not> b" if "(a', q', i') \<in> set (nodes l)" "prefix_includes q' p" for a' q' i'
    using extends_bit(2,3) [OF w(1) trie_wf [OF w(2) that(1)] _ that(2), of False] assms that by auto
  then have 1: "b \<Longrightarrow> matching keep p l = {}" by (auto simp: matching_def)
  have "b" if "(a', q', i') \<in> set (nodes r)" "prefix_includes q' p" for a' q' i'
    using extends_bit(2,3) [OF w(1) trie_wf [OF w(3) that(1)] _ that(2), of True] assms that by auto
  then have 2: "\<not> b \<Longrightarrow> matching keep p r = {}" by (auto simp: matching_def)
  have "matching keep p (Nd a q i k l r) =
      (if keep i then {(a, q, i)} else {}) \<union> matching keep p l \<union> matching keep p r"
    using assms(2) by (auto simp: matching_def)
  with 1 2 show ?thesis by auto
qed

lemma longest_cons:
  assumes "longest M (if c then Some a else m) r"
    and "\<forall>(a', q', i')\<in>M. plen q < plen q'"
  shows "longest ((if c then {(a, q, i)} else {}) \<union> M) m r"
  using assms by (fastforce simp: longest_def)

lemma matching_extends:
  "trie (Nd a q i k l r) \<Longrightarrow> \<forall>(a', q', i')\<in>matching keep p (if b then r else l). plen q < plen q'"
  by (auto simp: matching_def extends_def)

lemma match_loop_longest:
  assumes "tree_at h par node t" and "trie t" and "wf_cp p" and "short t"
  shows "\<exists>r. match_loop (\<lambda>n. keep (info n)) h p node m = Some r \<and> longest (matching keep p t) m r"
  using assms
proof (induction t arbitrary: par node m)
  case Tip
  then show ?case by (simp add: match_loop.simps [of _ _ _ None] longest_def)
next
  case (Nd a q i k l r)
  from Nd.prems(1) obtain n where n: "node = Some a" "h a = Some n" "n_p n = q" "info n = i"
    "tree_at h (Some a) (l_left n) l" "tree_at h (Some a) (l_right n) r" by auto
  have q: "wf_cp q" "plen q < 128" "trie l" "trie r" using Nd.prems(2,4) by (auto simp: short_def)
  have sl: "short l" "short r" using Nd.prems(4) by (auto simp: short_def)
  have c: "covers_next n p = Some (prefix_includes q p)"
    using covers_next_eq [of n p] n(3) q(1) Nd.prems(3) by simp
  show ?case
  proof (cases "prefix_includes q p")
    case False
    then show ?thesis
      using matching_none [OF Nd.prems(2) False, of keep] n c
      by (subst match_loop.simps) (simp add: longest_def)
  next
    case True
    from check_bit_some [OF Nd.prems(3) q(2)] obtain b where b: "check_bit (addr p) (prefixlen q) = Some b"
      by blast
    have bp: "plen q < plen p \<longrightarrow> b = pkey p ! plen q"
      using check_bit_pkey [OF Nd.prems(3) q(2)] b by simp
    have "tree_at h (Some a) (link n b) (if b then r else l)" using n by (simp add: link_def)
    then have "\<exists>x. match_loop (\<lambda>n. keep (info n)) h p (link n b) (if keep i then Some a else m) = Some x \<and>
        longest (matching keep p (if b then r else l)) (if keep i then Some a else m) x"
      using Nd.IH q sl Nd.prems(3) by (cases b) simp_all
    then obtain x where x: "match_loop (\<lambda>n. keep (info n)) h p (link n b) (if keep i then Some a else m) = Some x"
      "longest (matching keep p (if b then r else l)) (if keep i then Some a else m) x" by blast
    have "longest (matching keep p (Nd a q i k l r)) m x"
      unfolding matching_Nd [OF Nd.prems(2) True bp]
      by (rule longest_cons [OF x(2) matching_extends [OF Nd.prems(2)]])
    moreover have "match_loop (\<lambda>n. keep (info n)) h p node m = Some x"
      using n c True b x(1) by (subst match_loop.simps) simp
    ultimately show ?thesis by blast
  qed
qed

section \<open>Tables\<close>

definition table_at :: "'i db_table \<Rightarrow> 'i rtree \<Rightarrow> bool" where
  "table_at T t \<longleftrightarrow> tree_at (heap T) None (top T) t \<and> trie t \<and> distinct (refs t) \<and>
     (\<forall>a\<in>set (refs t). a < next_ref T)"

definition all_family :: "af \<Rightarrow> 'i rtree \<Rightarrow> bool" where
  "all_family f t \<longleftrightarrow> (\<forall>(a, q, i)\<in>set (nodes t). family q = f)"

fun bump :: "ref \<Rightarrow> 'i rtree \<Rightarrow> 'i rtree" where
  "bump x Tip = Tip"
| "bump x (Nd a q i k l r) = Nd a q i (if a = x then k + 1 else k) (bump x l) (bump x r)"

lemma nodes_bump [simp]: "nodes (bump x t) = nodes t" "refs (bump x t) = refs t"
  by (induction t) auto

lemma trie_bump [simp]: "trie (bump x t) = trie t"
  by (induction t) auto

lemma tree_at_bump:
  "tree_at h par node t \<Longrightarrow> h x = Some n \<Longrightarrow>
   tree_at (h(x \<mapsto> n\<lparr>lock_ct := lock_ct n + 1\<rparr>)) par node (bump x t)"
  by (induction t arbitrary: par node) auto

lemma tree_at_ref:
  "tree_at h par node t \<Longrightarrow> a \<in> set (refs t) \<Longrightarrow> \<exists>n. h a = Some n"
  by (induction t arbitrary: par node) auto

lemma db_lock_node_table:
  assumes "table_at T t" and "a \<in> set (refs t)"
  shows "\<exists>T'. db_lock_node a T = Some T' \<and> table_at T' (bump a t) \<and> count T' = count T"
proof -
  from assms tree_at_ref obtain n where "heap T a = Some n" unfolding table_at_def by blast
  with assms tree_at_bump [of "heap T" None "top T" t a n] show ?thesis
    by (simp add: db_lock_node_def put_def table_at_def)
qed

lemma check_top_family_ok:
  "table_at T t \<Longrightarrow> t \<noteq> Tip \<Longrightarrow> all_family (family p) t \<Longrightarrow> check_top_family p T = Some ()"
  by (cases t) (auto simp: table_at_def check_top_family_def all_family_def)

lemma lock_matched_ok:
  assumes "table_at T t" and "\<And>a. m = Some a \<Longrightarrow> a \<in> set (refs t)"
  shows "\<exists>T' t'. lock_matched m T = Some (m, T') \<and> table_at T' t' \<and> nodes t' = nodes t"
  using assms db_lock_node_table [OF assms(1)]
  by (cases m) (fastforce simp: lock_matched_def)+

lemma longest_refs: "longest (matching keep p t) None (Some a) \<Longrightarrow> a \<in> set (refs t)"
  by (force simp: longest_def matching_def refs_nodes)

section \<open>Properties\<close>

text \<open>What a lookup promises: the node with data whose prefix is the longest that includes \<open>p\<close>.\<close>

definition longest_with_data :: "cp_prefix \<Rightarrow> 'i rtree \<Rightarrow> ref option \<Rightarrow> bool" where
  "longest_with_data p t m \<longleftrightarrow>
     m = None \<and> (\<forall>(a, q, i)\<in>set (nodes t). i \<noteq> None \<longrightarrow> prefix_match q p = Some False) \<or>
     (\<exists>a q i. m = Some a \<and> (a, q, Some i) \<in> set (nodes t) \<and> prefix_match q p = Some True \<and>
        (\<forall>(a', q', i')\<in>set (nodes t). i' \<noteq> None \<and> prefix_match q' p = Some True \<longrightarrow> plen q' \<le> plen q))"

lemma longest_with_data_iff:
  assumes "trie t" and "wf_cp p" and "longest (matching (\<lambda>i. i \<noteq> None) p t) None m"
  shows "longest_with_data p t m"
proof -
  have inc: "prefix_match q p = Some (prefix_includes q p)" if "(a, q, i) \<in> set (nodes t)" for a q i
    using prefix_match_eq [OF trie_wf [OF assms(1) that] assms(2)] trie_wf [OF assms(1) that] assms(2)
    by (auto simp: prefix_includes_def)
  show ?thesis
  proof (cases "matching (\<lambda>i. i \<noteq> None) p t = {}")
    case True
    then have none: "\<not> prefix_includes q p" if "(a, q, i) \<in> set (nodes t)" "i \<noteq> None" for a q i
      using that by (auto simp: matching_def)
    have "m = None" using assms(3) True by (auto simp: longest_def)
    moreover have "\<forall>(a, q, i)\<in>set (nodes t). i \<noteq> None \<longrightarrow> prefix_match q p = Some False"
      using none inc by fastforce
    ultimately show ?thesis by (simp add: longest_with_data_def)
  next
    case False
    with assms(3) obtain a q i where a: "(a, q, i) \<in> matching (\<lambda>i. i \<noteq> None) p t" "m = Some a"
      "\<forall>(a', q', i')\<in>matching (\<lambda>i. i \<noteq> None) p t. plen q' \<le> plen q"
      unfolding longest_def by blast
    then obtain j where j: "(a, q, Some j) \<in> set (nodes t)" "prefix_includes q p"
      by (auto simp: matching_def)
    have "\<forall>(a', q', i')\<in>set (nodes t). i' \<noteq> None \<and> prefix_match q' p = Some True \<longrightarrow> plen q' \<le> plen q"
      using a(3) inc by (fastforce simp: matching_def)
    with j a(2) inc [OF j(1)] show ?thesis unfolding longest_with_data_def by simp blast
  qed
qed

text \<open>
  C23: \<open>db_node_match\<close> on a radix tree whose prefixes are of the family of the address and shorter than
  128 bits ends, and returns the node with data whose prefix is the longest that includes the
  address, or nothing when no prefix with data does; it changes nothing but that node's lock count.
\<close>

theorem db_node_match_longest:
  assumes "table_at T t" and "t \<noteq> Tip" and "all_family (family p) t" and "short t" and "wf_cp p"
  shows "\<exists>m T' t'. db_node_match p T = Some (m, T') \<and> table_at T' t' \<and> nodes t' = nodes t \<and>
    longest_with_data p t m"
proof -
  have tr: "tree_at (heap T) None (top T) t" "trie t" using assms(1) by (simp_all add: table_at_def)
  from match_loop_longest [OF tr assms(5,4), of "\<lambda>i. i \<noteq> None" None] obtain m where
    m: "match_loop (\<lambda>n. info n \<noteq> None) (heap T) p (top T) None = Some m"
    "longest (matching (\<lambda>i. i \<noteq> None) p t) None m" by blast
  from m(2) lock_matched_ok [OF assms(1), of m] longest_refs obtain T' t' where
    l: "lock_matched m T = Some (m, T')" "table_at T' t'" "nodes t' = nodes t" by blast
  from longest_with_data_iff [OF tr(2) assms(5) m(2)] have "longest_with_data p t m" .
  with l m(1) check_top_family_ok [OF assms(1-3)] show ?thesis
    by (auto simp: db_node_match_def)
qed

text \<open>A table with the default prefix and 10.0.0.0/8, the second without data.\<close>

definition sample_root :: "nat db_node" where
  "sample_root = \<lparr>n_p = \<lparr>family = FAM_INET, prefixlen = 0, addr = replicate 16 0\<rparr>, parent = None,
     l_left = Some 1, l_right = None, info = Some 7, flags = None, lock_ct = 1\<rparr>"

definition sample_net :: "nat db_node" where
  "sample_net = \<lparr>n_p = \<lparr>family = FAM_INET, prefixlen = 8, addr = 10 # replicate 15 0\<rparr>, parent = Some 0,
     l_left = None, l_right = None, info = None, flags = None, lock_ct = 1\<rparr>"

definition sample_table :: "nat db_table" where
  "sample_table = \<lparr>heap = [0 \<mapsto> sample_root, 1 \<mapsto> sample_net], next_ref = 2, top = Some 0,
     remove_fct = False, count = 2, removed = []\<rparr>"

definition sample_tree :: "nat rtree" where
  "sample_tree = Nd 0 (n_p sample_root) (Some 7) 1 (Nd 1 (n_p sample_net) None 1 Tip Tip) Tip"

lemma sample_table_at:
  "table_at sample_table sample_tree" "sample_tree \<noteq> Tip" "all_family FAM_INET sample_tree"
  "short sample_tree"
  by (simp_all add: table_at_def sample_table_def sample_tree_def sample_root_def sample_net_def
    wf_cp_def plen_def extends_def pkey_def all_family_def short_def byte_bits_def)

theorem db_node_match_longest_witness:
  "\<exists>T'. db_node_match (net10 32) sample_table = Some (Some 0, T')"
proof -
  have "family (net10 32) = FAM_INET" by (simp add: net10_def)
  with db_node_match_longest [OF sample_table_at(1,2), of "net10 32"] sample_table_at(3,4) wf_net10 [of 32]
  obtain m T' where m: "db_node_match (net10 32) sample_table = Some (m, T')"
    "longest_with_data (net10 32) sample_tree m" by auto
  moreover have "prefix_match (n_p sample_root) (net10 32) = Some True" by code_simp
  ultimately show ?thesis by (auto simp: sample_tree_def longest_with_data_def)
qed

end
