(* ===== verification/Cp_Insert.thy ===== *)
theory Cp_Insert
  imports Cp_Trie
begin

text \<open>
  \<open>db_node_get\<close> on the abstract tree (\<open>tget\<close>), and the proof that the heap version implements it: the
  descent is a walk in a zipper, the new nodes are attached at its hole.
\<close>

section \<open>Insertion in the tree\<close>

definition wf_fam :: "cp_prefix \<Rightarrow> bool" where
  "wf_fam p \<longleftrightarrow> wf_cp p \<and> (family p = FAM_INET \<and> plen p \<le> 32 \<or> family p = FAM_INET6)"

text \<open>The prefix that \<open>db_node_set\<close> stores, and the one of a branch node.\<close>

definition copied :: "cp_prefix \<Rightarrow> cp_prefix" where
  "copied p = the (prefix_copy zero_prefix p)"

definition common :: "cp_prefix \<Rightarrow> cp_prefix \<Rightarrow> cp_prefix" where
  "common q p = (the (route_common q p zero_prefix))\<lparr>family := family p\<rparr>"

definition next_bit :: "cp_prefix \<Rightarrow> cp_prefix \<Rightarrow> bool" where
  "next_bit p q = pkey p ! plen q"

definition nd :: "ref \<Rightarrow> cp_prefix \<Rightarrow> 'i option \<Rightarrow> u32 \<Rightarrow> bool \<Rightarrow> 'i rtree \<Rightarrow> 'i rtree \<Rightarrow> 'i rtree" where
  "nd a q i k b t s = (if b then Nd a q i k s t else Nd a q i k t s)"

definition tsplit :: "cp_prefix \<Rightarrow> ref \<Rightarrow> cp_prefix \<Rightarrow> 'i rtree \<Rightarrow> 'i rtree" where
  "tsplit p f q t =
     (let c = common q p
      in nd f c None 0 (next_bit q c) t
           (if plen c = plen p then Tip else Nd (Suc f) (copied p) None 0 Tip Tip))"

fun tget :: "cp_prefix \<Rightarrow> ref \<Rightarrow> 'i rtree \<Rightarrow> 'i rtree" where
  "tget p f Tip = Nd f (copied p) None 0 Tip Tip"
| "tget p f (Nd a q i k l r) =
     (if prefix_includes q p then
        (if plen q = plen p then Nd a q i k l r
         else if next_bit p q then Nd a q i k l (tget p f r)
         else Nd a q i k (tget p f l) r)
      else tsplit p f q (Nd a q i k l r))"

fun tget_ref :: "cp_prefix \<Rightarrow> ref \<Rightarrow> 'i rtree \<Rightarrow> ref" where
  "tget_ref p f Tip = f"
| "tget_ref p f (Nd a q i k l r) =
     (if prefix_includes q p then
        (if plen q = plen p then a
         else if next_bit p q then tget_ref p f r else tget_ref p f l)
      else if plen (common q p) = plen p then f else Suc f)"

lemma copied_spec:
  assumes "wf_fam p"
  shows "prefix_copy zero_prefix p = Some (copied p)" and "wf_cp (copied p)"
    and "plen (copied p) = plen p" and "pkey (copied p) = pkey p" and "family (copied p) = family p"
    and "prefixlen (copied p) = prefixlen p"
proof -
  have len: "length (addr p) = 16" "plen p \<le> 128" using assms by (simp_all add: wf_fam_def wf_cp_def)
  show c: "prefix_copy zero_prefix p = Some (copied p)"
    using assms by (auto simp: copied_def prefix_copy_def wf_fam_def Let_def)
  show pl: "prefixlen (copied p) = prefixlen p" "family (copied p) = family p"
    using assms by (auto simp: copied_def prefix_copy_def wf_fam_def Let_def)
  then show pn: "plen (copied p) = plen p" by (simp add: plen_def)
  have a: "addr (copied p) = (if family p = FAM_INET then take 4 (addr p) @ replicate 12 0 else addr p)"
    using assms by (auto simp: copied_def prefix_copy_def wf_fam_def Let_def zero_prefix_def)
  with len pn show "wf_cp (copied p)" by (simp add: wf_cp_def)
  show "pkey (copied p) = pkey p"
  proof (cases "family p = FAM_INET")
    case True
    then have "plen p \<le> 32" using assms by (auto simp: wf_fam_def)
    then have "take (plen p) (bits_of (take 4 (addr p) @ replicate 12 0)) = take (plen p) (bits_of (addr p))"
      using len by (simp add: bits_of_append flip: take_bits_of)
    with True a pn show ?thesis by (simp add: pkey_def)
  next
    case False
    with a pn show ?thesis by (simp add: pkey_def)
  qed
qed

lemma common_spec:
  assumes "wf_cp q" and "wf_cp p" and "\<not> prefix_includes q p"
  shows "route_common q p zero_prefix = Some ((common q p)\<lparr>family := FAM_OTHER 0\<rparr>)"
    and "wf_cp (common q p)" and "family (common q p) = family p"
    and "plen (common q p) \<le> plen p" and "plen (common q p) < plen q"
    and "pkey (common q p) = take (plen (common q p)) (pkey q)"
    and "pkey (common q p) = take (plen (common q p)) (pkey p)"
    and "plen (common q p) < plen p \<Longrightarrow> next_bit q (common q p) \<noteq> next_bit p (common q p)"
proof -
  have z: "addr zero_prefix = replicate 16 0" "family zero_prefix = FAM_OTHER 0"
    by (simp_all add: zero_prefix_def)
  from route_common_spec [OF assms(1,2) z(1)] obtain r where
    r: "route_common q p zero_prefix = Some r" "wf_cp r" "family r = FAM_OTHER 0"
      "plen r = common_len (take (plen p) (bits_of (addr q))) (pkey p)" "plen r \<le> plen p"
      "bits_of (addr r) = take (plen r) (bits_of (addr q)) @ replicate (128 - plen r) False"
    using z(2) by auto
  have c: "common q p = r\<lparr>family := family p\<rparr>" by (simp add: common_def r(1))
  then have pc: "plen (common q p) = plen r" "pkey (common q p) = pkey r" "addr (common q p) = addr r"
    by (simp_all add: plen_def pkey_def)
  show "route_common q p zero_prefix = Some ((common q p)\<lparr>family := FAM_OTHER 0\<rparr>)"
    using r(1,3) c by (cases r) simp
  show "wf_cp (common q p)" using r(2) pc by (simp add: wf_cp_def)
  show "family (common q p) = family p" by (simp add: c)
  show le: "plen (common q p) \<le> plen p" using r(5) pc by simp
  have len: "length (bits_of (addr q)) = 128" "length (bits_of (addr p)) = 128"
    "length (pkey p) = plen p" "length (pkey q) = plen q" "plen p \<le> 128" "plen q \<le> 128"
    using assms(1,2) length_pkey by (simp_all add: wf_cp_def)
  have agree: "take (plen r) (bits_of (addr q)) = take (plen r) (pkey p)"
    "plen r < plen p \<Longrightarrow> bits_of (addr q) ! plen r \<noteq> pkey p ! plen r"
    using common_len_agree [of "take (plen p) (bits_of (addr q))" "pkey p"] len r(4,5)
    by (simp_all add: min_def)
  show lt: "plen (common q p) < plen q"
  proof (rule ccontr)
    assume "\<not> plen (common q p) < plen q"
    then have ge: "plen q \<le> plen r" using pc by simp
    then have "take (plen q) (take (plen r) (bits_of (addr q))) = take (plen q) (take (plen r) (pkey p))"
      using agree(1) by simp
    with ge have "take (plen q) (pkey p) = pkey q" by (simp add: pkey_def min_def)
    with assms ge r(5) show False by (simp add: prefix_includes_iff)
  qed
  have kr: "pkey r = take (plen r) (bits_of (addr q))"
    using r(6) len by (simp add: pkey_def)
  show "pkey (common q p) = take (plen (common q p)) (pkey q)"
    using kr lt pc by (simp add: pkey_def min_def)
  show "pkey (common q p) = take (plen (common q p)) (pkey p)"
    using kr agree(1) pc by simp
  show "plen (common q p) < plen p \<Longrightarrow> next_bit q (common q p) \<noteq> next_bit p (common q p)"
    using agree(2) lt pc by (simp add: next_bit_def pkey_def)
qed

subsection \<open>The result is a radix tree\<close>

text \<open>\<open>extends\<close> speaks of the significant bits of the longer prefix only.\<close>

definition continues :: "cp_prefix \<Rightarrow> bool \<Rightarrow> bool list \<Rightarrow> bool" where
  "continues q b key \<longleftrightarrow> plen q < length key \<and> take (Suc (plen q)) key = pkey q @ [b]"

lemma extends_continues: "wf_cp q' \<Longrightarrow> extends q b q' \<longleftrightarrow> continues q b (pkey q')"
  by (simp add: extends_def continues_def length_pkey)

lemma continues_next:
  assumes "wf_cp q" and "prefix_includes q p" and "plen q < plen p"
  shows "continues q (next_bit p q) (pkey p)"
proof -
  have p: "wf_cp p" "take (plen q) (pkey p) = pkey q" using assms(2) by (simp_all add: prefix_includes_iff)
  then show ?thesis
    using assms(3) by (simp add: continues_def next_bit_def length_pkey take_Suc_conv_app_nth)
qed

lemma continues_take:
  assumes "continues q b key" and "n \<le> length key" and "plen q < n"
  shows "continues q b (take n key)"
  using assms by (simp add: continues_def min_def)

lemma continues_both:
  "continues q b key \<Longrightarrow> continues q b key' \<Longrightarrow> take (Suc (plen q)) key = take (Suc (plen q)) key'"
  by (simp add: continues_def)

text \<open>When two prefixes continue a third one the same way, so does their common prefix.\<close>

lemma continues_common:
  assumes "wf_cp q" and "wf_cp q1" and "wf_cp p" and "\<not> prefix_includes q1 p"
    and "continues q b (pkey q1)" and "continues q b (pkey p)"
  shows "continues q b (pkey (common q1 p))"
proof -
  note c = common_spec [OF assms(2-4)]
  have len: "length (pkey p) = plen p" "length (pkey q1) = plen q1" using assms(2,3) by (simp_all add: length_pkey)
  have "plen q < plen (common q1 p)"
  proof (rule ccontr)
    assume n: "\<not> plen q < plen (common q1 p)"
    then have "plen (common q1 p) < plen p" using assms(6) len by (simp add: continues_def)
    with c(8) have "pkey q1 ! plen (common q1 p) \<noteq> pkey p ! plen (common q1 p)" by (simp add: next_bit_def)
    moreover have "pkey q1 ! plen (common q1 p) = take (Suc (plen q)) (pkey q1) ! plen (common q1 p)"
      "pkey p ! plen (common q1 p) = take (Suc (plen q)) (pkey p) ! plen (common q1 p)"
      using n by simp_all
    ultimately show False using continues_both [OF assms(5,6)] by simp
  qed
  then show ?thesis
    unfolding c(6) using assms(5) c(5) len by (intro continues_take) simp_all
qed

lemma nodes_nd: "set (nodes (nd a q i k b t s)) = {(a, q, i)} \<union> set (nodes t) \<union> set (nodes s)"
  by (auto simp: nd_def)

lemma nodes_tsplit:
  "set (nodes (tsplit p f q t)) = set (nodes t) \<union> {(f, common q p, None)} \<union>
     (if plen (common q p) = plen p then {} else {(Suc f, copied p, None)})"
  by (auto simp: tsplit_def Let_def nodes_nd)

lemma nodes_tget:
  "set (nodes t) \<subseteq> set (nodes (tget p f t))"
  "(a, q, i) \<in> set (nodes (tget p f t)) \<Longrightarrow> (a, q, i) \<in> set (nodes t) \<or> i = None \<and> (a = f \<or> a = Suc f)"
  by (induction t) (auto simp: nodes_tsplit split: if_splits)

lemma nodes_tget_continue:
  assumes "trie t" and "wf_fam p" and "wf_cp q0" and "continues q0 b (pkey p)"
    and "\<forall>(a, q, i)\<in>set (nodes t). continues q0 b (pkey q)"
  shows "\<forall>(a, q, i)\<in>set (nodes (tget p f t)). continues q0 b (pkey q)"
  using assms(1,5)
proof (induction t)
  case Tip
  then show ?case using assms(4) copied_spec(4) [OF assms(2)] by simp
next
  case (Nd a q i k l r)
  have p: "wf_cp p" using assms(2) by (simp add: wf_fam_def)
  show ?case
  proof (cases "prefix_includes q p")
    case True
    then show ?thesis using Nd by (auto simp: ball_Un)
  next
    case False
    have "continues q0 b (pkey (common q p))"
      using Nd.prems False by (intro continues_common [OF assms(3) _ p _ _ assms(4)]) auto
    then show ?thesis
      using False Nd.prems(2) assms(4) copied_spec(4) [OF assms(2)] by (auto simp: nodes_tsplit split: if_splits)
  qed
qed

lemma trie_subnodes:
  assumes "trie (Nd a q i k l r)" and "(a', q', i') \<in> set (nodes (Nd a q i k l r))"
  shows "plen q \<le> plen q' \<and> take (plen q) (pkey q') = pkey q"
proof -
  have w: "wf_cp q" "length (pkey q) = plen q" using assms(1) by (auto simp: length_pkey)
  have "plen q \<le> plen q' \<and> take (plen q) (pkey q') = pkey q" if "extends q b q'" for b
  proof -
    have "take (plen q) (take (Suc (plen q)) (pkey q')) = pkey q"
      using that w(2) by (simp add: extends_def)
    then show ?thesis using that by (simp add: extends_def min_def)
  qed
  with assms w show ?thesis by auto
qed

lemma trie_tsplit:
  assumes "trie (Nd a q i k l r)" and "wf_fam p" and "\<not> prefix_includes q p"
  shows "trie (tsplit p f q (Nd a q i k l r))"
proof -
  have w: "wf_cp q" "wf_cp p" using assms(1,2) by (simp_all add: wf_fam_def)
  let ?c = "common q p" and ?t = "Nd a q i k l r"
  note c = common_spec [OF w assms(3)]
  have lk: "length (pkey q) = plen q" using w by (simp add: length_pkey)
  have t: "extends ?c (next_bit q ?c) q'" if "(a', q', i') \<in> set (nodes ?t)" for a' q' i'
  proof -
    from trie_subnodes [OF assms(1) that] have s: "plen q \<le> plen q'" "take (plen q) (pkey q') = pkey q" by auto
    have "take (Suc (plen ?c)) (pkey q') = take (Suc (plen ?c)) (pkey q)"
      using s(2) c(5) by (metis Suc_leI min.absorb1 take_take)
    also have "\<dots> = pkey ?c @ [next_bit q ?c]"
      using c(5,6) lk by (simp add: take_Suc_conv_app_nth next_bit_def)
    finally show ?thesis using s(1) c(5) by (simp add: extends_def)
  qed
  have p: "extends ?c (\<not> next_bit q ?c) (copied p)" if "plen ?c \<noteq> plen p"
  proof -
    have lt: "plen ?c < plen p" using that c(4) by simp
    have "length (pkey p) = plen p" using w by (simp add: length_pkey)
    then have "take (Suc (plen ?c)) (pkey p) = pkey ?c @ [next_bit p ?c]"
      using lt c(7) by (simp add: take_Suc_conv_app_nth next_bit_def)
    then show ?thesis
      using lt c(8) copied_spec(3,4) [OF assms(2)] by (auto simp: extends_def)
  qed
  show ?thesis
    using c(2) t p assms(1) copied_spec(2) [OF assms(2)]
    by (cases "next_bit q ?c") (auto simp: tsplit_def nd_def Let_def)
qed

lemma trie_tget:
  assumes "trie t" and "wf_fam p"
  shows "trie (tget p f t)"
  using assms(1)
proof (induction t)
  case Tip
  then show ?case using copied_spec(2) [OF assms(2)] by simp
next
  case (Nd a q i k l r)
  have w: "wf_cp q" "wf_cp p" "trie l" "trie r" using Nd.prems assms(2) by (simp_all add: wf_fam_def)
  have wfn: "wf_cp q'" if "(a', q', i') \<in> set (nodes (tget p f s))" "trie (tget p f s)" for a' q' i' s
    using trie_wf that by blast
  show ?case
  proof (cases "prefix_includes q p \<and> plen q \<noteq> plen p")
    case True
    then have inc: "prefix_includes q p" "plen q < plen p" by (auto simp: prefix_includes_iff)
    note cn = continues_next [OF w(1) inc]
    show ?thesis
    proof (cases "next_bit p q")
      case True
      have "\<forall>(a', q', i')\<in>set (nodes r). continues q True (pkey q')"
        using Nd.prems trie_wf [OF w(4)] by (auto simp: extends_continues)
      from nodes_tget_continue [OF w(4) assms(2) w(1) _ this, of f] cn True
      have "\<forall>(a', q', i')\<in>set (nodes (tget p f r)). extends q True q'"
        using wfn Nd.IH(2) w(4) by (fastforce simp: extends_continues)
      with Nd True inc show ?thesis by simp
    next
      case False
      have "\<forall>(a', q', i')\<in>set (nodes l). continues q False (pkey q')"
        using Nd.prems trie_wf [OF w(3)] by (auto simp: extends_continues)
      from nodes_tget_continue [OF w(3) assms(2) w(1) _ this, of f] cn False
      have "\<forall>(a', q', i')\<in>set (nodes (tget p f l)). extends q False q'"
        using wfn Nd.IH(1) w(3) by (fastforce simp: extends_continues)
      with Nd False inc show ?thesis by simp
    qed
  next
    case False
    then show ?thesis using Nd.prems trie_tsplit [OF Nd.prems assms(2)] by auto
  qed
qed

text \<open>The node returned has the significant bits of \<open>p\<close>.\<close>

lemma tget_ref_node:
  assumes "trie t" and "wf_fam p"
  shows "\<exists>q i. (tget_ref p f t, q, i) \<in> set (nodes (tget p f t)) \<and> plen q = plen p \<and> pkey q = pkey p"
  using assms(1)
proof (induction t)
  case Tip
  then show ?case using copied_spec(3,4) [OF assms(2)] by simp
next
  case (Nd a q i k l r)
  have w: "wf_cp q" "wf_cp p" using Nd.prems assms(2) by (simp_all add: wf_fam_def)
  show ?case
  proof (cases "prefix_includes q p")
    case True
    have "plen q = plen p \<Longrightarrow> pkey q = pkey p"
      using True length_pkey [OF w(2)] by (simp add: prefix_includes_iff)
    with Nd True show ?thesis by auto
  next
    case False
    note c = common_spec [OF w False]
    have "plen (common q p) = plen p \<Longrightarrow> pkey (common q p) = pkey p"
      using c(7) length_pkey [OF w(2)] by simp
    with False copied_spec(3,4) [OF assms(2)] show ?thesis
      by (auto simp: nodes_tsplit)
  qed
qed

end
