(* ===== verification/Cp_Get.thy ===== *)
theory Cp_Get
  imports Cp_Insert
begin

text \<open>
  \<open>db_node_get\<close> on the heap implements \<open>tget\<close>. A frame of a zipper is a node without the subtree
  that the walk goes into (\<open>b\<close>: the right one); the innermost frame is first.
\<close>

type_synonym 'i frame = "ref \<times> cp_prefix \<times> 'i option \<times> u32 \<times> bool \<times> 'i rtree"

fun plug :: "'i frame list \<Rightarrow> 'i rtree \<Rightarrow> 'i rtree" where
  "plug [] t = t"
| "plug ((a, q, i, k, b, s) # c) t = plug c (nd a q i k b t s)"

definition par_of :: "'i frame list \<Rightarrow> ref option" where
  "par_of c = (case c of [] \<Rightarrow> None | f # _ \<Rightarrow> Some (fst f))"

fun crefs :: "'i frame list \<Rightarrow> ref list" where
  "crefs [] = []"
| "crefs ((a, q, i, k, b, s) # c) = a # refs s @ crefs c"

fun ctx_at :: "(ref \<Rightarrow> 'i db_node option) \<Rightarrow> ref option \<Rightarrow> 'i frame list \<Rightarrow> ref option \<Rightarrow> bool" where
  "ctx_at h tp [] hole \<longleftrightarrow> tp = hole"
| "ctx_at h tp ((a, q, i, k, b, s) # c) hole \<longleftrightarrow>
     (\<exists>n. h a = Some n \<and> n_p n = q \<and> parent n = par_of c \<and> info n = i \<and> lock_ct n = k \<and>
          link n b = hole \<and> tree_at h (Some a) (link n (\<not> b)) s) \<and> ctx_at h tp c (Some a)"

lemma tree_at_nd:
  "tree_at h par x (nd a q i k b t s) \<longleftrightarrow> x = Some a \<and>
     (\<exists>n. h a = Some n \<and> n_p n = q \<and> parent n = par \<and> info n = i \<and> lock_ct n = k \<and>
          tree_at h (Some a) (link n b) t \<and> tree_at h (Some a) (link n (\<not> b)) s)"
  by (auto simp: nd_def link_def)

lemma plug_at:
  "tree_at h None tp (plug c t) \<longleftrightarrow> (\<exists>hole. ctx_at h tp c hole \<and> tree_at h (par_of c) hole t)"
proof (induction c arbitrary: t)
  case Nil
  then show ?case by (auto simp: par_of_def)
next
  case (Cons f c)
  obtain a q i k b s where f: "f = (a, q, i, k, b, s)" by (cases f)
  show ?case by (auto simp: f Cons tree_at_nd par_of_def)
qed

lemma refs_plug: "set (refs (plug c t)) = set (crefs c) \<union> set (refs t)"
  by (induction c t rule: plug.induct) (auto simp: nd_def)

lemma distinct_plug: "distinct (refs (plug c t)) \<longleftrightarrow> distinct (crefs c @ refs t)"
  by (induction c t rule: plug.induct) (auto simp: nd_def)

lemma tree_at_cong:
  "(\<And>a. a \<in> set (refs t) \<Longrightarrow> h a = h' a) \<Longrightarrow> tree_at h par x t \<Longrightarrow> tree_at h' par x t"
proof (induction t arbitrary: par x)
  case (Nd a q i k l r)
  from Nd.prems(2) obtain n where n: "x = Some a" "h a = Some n" "n_p n = q" "parent n = par" "info n = i"
    "lock_ct n = k" "tree_at h (Some a) (l_left n) l" "tree_at h (Some a) (l_right n) r" by auto
  have "h' a = Some n" using Nd.prems(1) [of a] n(2) by simp
  moreover have "tree_at h' (Some a) (l_left n) l"
    by (rule Nd.IH(1) [OF _ n(7)]) (rule Nd.prems(1), simp)
  moreover have "tree_at h' (Some a) (l_right n) r"
    by (rule Nd.IH(2) [OF _ n(8)]) (rule Nd.prems(1), simp)
  ultimately show ?case using n(1,3-6) by simp
qed simp

lemma ctx_at_cong:
  "(\<And>a. a \<in> set (crefs c) \<Longrightarrow> h a = h' a) \<Longrightarrow> ctx_at h tp c hole \<Longrightarrow> ctx_at h' tp c hole"
proof (induction h tp c hole rule: ctx_at.induct)
  case (2 h tp a q i k b s c hole)
  from 2(3) obtain n where n: "h a = Some n" "n_p n = q" "parent n = par_of c" "info n = i" "lock_ct n = k"
    "link n b = hole" "tree_at h (Some a) (link n (\<not> b)) s" "ctx_at h tp c (Some a)" by auto
  have "h' a = Some n" using 2(2) [of a] n(1) by simp
  moreover have "tree_at h' (Some a) (link n (\<not> b)) s"
    by (rule tree_at_cong [OF _ n(7)]) (rule 2(2), simp)
  moreover have "ctx_at h' tp c (Some a)"
    by (rule 2(1) [OF _ n(8)]) (rule 2(2), simp)
  ultimately show ?case using n(2-6) by simp
qed simp

section \<open>The descent\<close>

definition dir_ok :: "cp_prefix \<Rightarrow> 'i frame list \<Rightarrow> bool" where
  "dir_ok p c \<longleftrightarrow> (\<forall>a q i k b s c'. c = (a, q, i, k, b, s) # c' \<longrightarrow>
     wf_cp q \<and> prefix_includes q p \<and> plen q < plen p \<and> b = next_bit p q)"

lemma get_loop_walk:
  assumes "tree_at h (par_of c) hole t" and "trie t" and "wf_cp p" and "dir_ok p c"
  shows "\<exists>c' t' hole'. plug c' t' = plug c t \<and> tree_at h (par_of c') hole' t' \<and> trie t' \<and> dir_ok p c' \<and>
    plug c' (tget p f t') = plug c (tget p f t) \<and> tget_ref p f t' = tget_ref p f t \<and>
    (t' = Tip \<and> get_loop h p (par_of c) hole = Some (par_of c', None, False) \<or>
     (\<exists>a q i k l r. t' = Nd a q i k l r \<and> (if prefix_includes q p
        then plen q = plen p \<and> get_loop h p (par_of c) hole = Some (par_of c', Some a, True)
        else get_loop h p (par_of c) hole = Some (par_of c', Some a, False))))"
  using assms
proof (induction t arbitrary: c hole)
  case Tip
  then show ?case
    by (intro exI [of _ c] exI [of _ Tip] exI [of _ None]) (simp add: get_loop.simps [of _ _ _ None])
next
  case (Nd a q i k l r)
  from Nd.prems(1) obtain n where n: "hole = Some a" "h a = Some n" "n_p n = q" "parent n = par_of c" "info n = i"
    "lock_ct n = k" "tree_at h (Some a) (l_left n) l" "tree_at h (Some a) (l_right n) r" by auto
  have q: "wf_cp q" "trie l" "trie r" using Nd.prems(2) by auto
  have cn: "covers_next n p = Some (prefix_includes q p)"
    using covers_next_eq [of n p] n(3) q(1) Nd.prems(3) by simp
  have pe: "prefixlen q = prefixlen p \<longleftrightarrow> plen q = plen p" by (simp add: plen_def word_unat_eq_iff)
  show ?case
  proof (cases "prefix_includes q p \<and> plen q \<noteq> plen p")
    case False
    then have "get_loop h p (par_of c) hole = Some (par_of c, Some a, prefix_includes q p)"
      using n(1-3) cn pe by (subst get_loop.simps) auto
    with False Nd.prems show ?thesis
      by (intro exI [of _ c] exI [of _ "Nd a q i k l r"] exI [of _ hole]) auto
  next
    case True
    then have inc: "prefix_includes q p" "plen q < plen p" by (auto simp: prefix_includes_iff)
    define b where "b = next_bit p q"
    define s t1 where "s = (if b then l else r)" and "t1 = (if b then r else l)"
    let ?c1 = "(a, q, i, k, b, s) # c"
    have "plen q < 128" using inc(2) Nd.prems(3) by (simp add: wf_cp_def)
    then have cb: "check_bit (addr p) (prefixlen q) = Some b"
      using check_bit_pkey [OF Nd.prems(3) _ inc(2)] by (simp add: b_def next_bit_def)
    have step: "get_loop h p (par_of c) hole = get_loop h p (par_of ?c1) (link n b)"
      using n(1-3) cn inc pe cb True by (subst get_loop.simps) (simp add: par_of_def)
    have t1: "tree_at h (par_of ?c1) (link n b) t1" "trie t1"
      using n q by (simp_all add: par_of_def link_def t1_def)
    have d: "dir_ok p ?c1" using q inc by (simp add: dir_ok_def b_def)
    have pl: "plug ?c1 t1 = plug c (Nd a q i k l r)"
      "plug ?c1 (tget p f t1) = plug c (tget p f (Nd a q i k l r))"
      "tget_ref p f t1 = tget_ref p f (Nd a q i k l r)"
      using True by (simp_all add: nd_def s_def t1_def b_def)
    show ?thesis
    proof (cases b)
      case True
      with Nd.IH(2) [of ?c1 "link n b"] t1 d Nd.prems(3) show ?thesis
        unfolding step pl(1,2,3) [symmetric] by (simp add: t1_def)
    next
      case False
      with Nd.IH(1) [of ?c1 "link n b"] t1 d Nd.prems(3) show ?thesis
        unfolding step pl(1,2,3) [symmetric] by (simp add: t1_def)
    qed
  qed
qed

section \<open>Attaching nodes\<close>

definition upd_link :: "'i db_node \<Rightarrow> bool \<Rightarrow> ref option \<Rightarrow> 'i db_node" where
  "upd_link n b x = (if b then n\<lparr>l_right := x\<rparr> else n\<lparr>l_left := x\<rparr>)"

lemma upd_link_simps [simp]:
  "n_p (upd_link n b x) = n_p n" "parent (upd_link n b x) = parent n" "info (upd_link n b x) = info n"
  "lock_ct (upd_link n b x) = lock_ct n" "link (upd_link n b x) b = x"
  "link (upd_link n b x) (\<not> b) = link n (\<not> b)"
  by (auto simp: upd_link_def link_def)

lemma link_parent [simp]: "link (n\<lparr>parent := x\<rparr>) b = link n b"
  by (simp add: link_def)

lemma set_link_eq:
  assumes "node \<noteq> new" and "heap T node = Some n" and "heap T new = Some m"
    and "check_bit (addr (n_p m)) (prefixlen (n_p n)) = Some b"
  shows "set_link node new T = Some (T\<lparr>heap := (heap T)(node \<mapsto> upd_link n b (Some new),
    new \<mapsto> m\<lparr>parent := Some node\<rparr>)\<rparr>)"
  using assms by (auto simp: set_link_def put_def upd_link_def Let_def)

lemma attach_ctx:
  assumes "ctx_at (heap T) (top T) c hole" and "distinct (crefs c)" and "heap T new = Some m"
    and "new \<notin> set (crefs c)" and "c = [] \<Longrightarrow> parent m = None"
    and "\<And>a q i k b s c'. c = (a, q, i, k, b, s) # c' \<Longrightarrow> check_bit (addr (n_p m)) (prefixlen q) = Some b"
  shows "\<exists>T'. attach (par_of c) new T = Some T' \<and> ctx_at (heap T') (top T') c (Some new) \<and>
    heap T' new = Some (m\<lparr>parent := par_of c\<rparr>) \<and>
    (\<forall>x. x \<noteq> new \<longrightarrow> x \<notin> set (crefs c) \<longrightarrow> heap T' x = heap T x) \<and>
    next_ref T' = next_ref T \<and> count T' = count T"
proof (cases c)
  case Nil
  have "m\<lparr>parent := None\<rparr> = m" using assms(5) Nil by (cases m) simp
  with Nil assms(3) show ?thesis by (simp add: attach_def par_of_def)
next
  case (Cons fr c')
  obtain a q i k b s where fr: "fr = (a, q, i, k, b, s)" by (cases fr)
  note c = Cons [unfolded fr]
  from assms(1) c obtain n where n: "heap T a = Some n" "n_p n = q" "parent n = par_of c'" "info n = i"
    "lock_ct n = k" "link n b = hole" "tree_at (heap T) (Some a) (link n (\<not> b)) s"
    "ctx_at (heap T) (top T) c' (Some a)" by auto
  have an: "a \<noteq> new" using assms(4) c by auto
  let ?h = "(heap T)(a \<mapsto> upd_link n b (Some new), new \<mapsto> m\<lparr>parent := Some a\<rparr>)"
  have s: "set_link a new T = Some (T\<lparr>heap := ?h\<rparr>)"
    using set_link_eq [OF an n(1) assms(3)] assms(6) [OF c] n(2) by simp
  have "tree_at ?h (Some a) (link n (\<not> b)) s"
    by (rule tree_at_cong [OF _ n(7)]) (use assms(2,4) c in auto)
  moreover have "ctx_at ?h (top T) c' (Some a)"
    by (rule ctx_at_cong [OF _ n(8)]) (use assms(2,4) c in auto)
  ultimately have "ctx_at ?h (top T) c (Some new)"
    using n an by (simp add: c)
  with s c an show ?thesis by (simp add: attach_def par_of_def)
qed

lemma reparent:
  assumes "tree_at h par (Some a) t" and "h a = Some n" and "distinct (refs t)"
  shows "tree_at (h(a \<mapsto> n\<lparr>parent := par'\<rparr>)) par' (Some a) t"
proof -
  from assms(1) obtain q i k l r where t: "t = Nd a q i k l r" by (cases t) auto
  have l: "tree_at h (Some a) (l_left n) l" "tree_at h (Some a) (l_right n) r"
    using assms(1,2) t by auto
  have "tree_at (h(a \<mapsto> n\<lparr>parent := par'\<rparr>)) (Some a) (l_left n) l"
    by (rule tree_at_cong [OF _ l(1)]) (use assms(3) t in auto)
  moreover have "tree_at (h(a \<mapsto> n\<lparr>parent := par'\<rparr>)) (Some a) (l_right n) r"
    by (rule tree_at_cong [OF _ l(2)]) (use assms(3) t in auto)
  ultimately show ?thesis using assms(1,2) t by auto
qed

definition new_node :: "cp_prefix \<Rightarrow> 'i db_node" where
  "new_node q = \<lparr>n_p = q, parent = None, l_left = None, l_right = None, info = None, flags = None, lock_ct = 0\<rparr>"

lemma new_node_simps [simp]:
  "n_p (new_node q) = q" "parent (new_node q) = None" "l_left (new_node q) = None"
  "l_right (new_node q) = None" "info (new_node q) = None" "lock_ct (new_node q) = 0"
  "link (new_node q) b = None" "(new_node q')\<lparr>n_p := q\<rparr> = new_node q"
  by (simp_all add: new_node_def link_def)

lemma db_node_create_eq:
  "db_node_create T = (next_ref T, T\<lparr>heap := (heap T)(next_ref T \<mapsto> new_node zero_prefix),
     next_ref := Suc (next_ref T)\<rparr>)"
  by (simp add: db_node_create_def put_def new_node_def)

lemma db_node_set_eq:
  "wf_fam p \<Longrightarrow> db_node_set p T = Some (next_ref T,
     T\<lparr>heap := (heap T)(next_ref T \<mapsto> new_node (copied p)), next_ref := Suc (next_ref T)\<rparr>)"
  by (simp add: db_node_set_def db_node_create_eq copied_spec(1) put_def)

lemma check_bit_copied:
  assumes "wf_fam p" and "wf_cp q" and "plen q < plen p"
  shows "check_bit (addr (copied p)) (prefixlen q) = Some (next_bit p q)"
proof -
  have "plen q < 128" using assms(1,3) by (simp add: wf_fam_def wf_cp_def)
  with check_bit_pkey [OF copied_spec(2) [OF assms(1)] this] copied_spec(3,4) [OF assms(1)] assms(3)
  show ?thesis by (simp add: next_bit_def)
qed

lemma trie_plug: "trie (plug c t) \<Longrightarrow> trie t"
  by (induction c t rule: plug.induct) (auto simp: nd_def split: if_splits)

lemma trie_frame:
  "trie (plug ((a, q, i, k, b, s) # c) t) \<Longrightarrow> \<forall>(a', q', i')\<in>set (nodes t). extends q b q'"
  using trie_plug [of c "nd a q i k b t s"] by (auto simp: nd_def split: if_splits)

text \<open>The state after the new nodes are in place.\<close>

definition placed ::
  "'i db_table \<Rightarrow> 'i frame list \<Rightarrow> 'i rtree \<Rightarrow> 'i db_table \<Rightarrow> nat \<Rightarrow> bool" where
  "placed T c t T' n \<longleftrightarrow> tree_at (heap T') None (top T') (plug c t) \<and>
     next_ref T' = next_ref T + n \<and> count T' + 1 = count T + of_nat n"

lemma place_leaf:
  assumes "ctx_at (heap T) (top T) c None" and "distinct (crefs c)" and "\<forall>a\<in>set (crefs c). a < next_ref T"
    and "wf_fam p" and "dir_ok p c"
  shows "\<exists>T1 T2. db_node_set p T = Some (next_ref T, T1) \<and> attach (par_of c) (next_ref T) T1 = Some T2 \<and>
    placed T c (tget p (next_ref T) Tip) T2 1"
proof -
  let ?f = "next_ref T"
  define T1 where "T1 = T\<lparr>heap := (heap T)(?f \<mapsto> new_node (copied p)), next_ref := Suc ?f\<rparr>"
  have f: "?f \<notin> set (crefs c)" using assms(3) by auto
  have "ctx_at (heap T1) (top T1) c None"
    unfolding T1_def using assms(1) f by (auto intro: ctx_at_cong [rotated])
  moreover have "heap T1 ?f = Some (new_node (copied p))" by (simp add: T1_def)
  moreover have "check_bit (addr (n_p (new_node (copied p) :: 'a db_node))) (prefixlen q) = Some b"
    if "c = (a, q, i, k, b, s) # c'" for a q i k b s c'
    using that assms(5) check_bit_copied [OF assms(4)] by (simp add: dir_ok_def)
  ultimately obtain T2 where
    "attach (par_of c) ?f T1 = Some T2" "ctx_at (heap T2) (top T2) c (Some ?f)"
    "heap T2 ?f = Some ((new_node (copied p))\<lparr>parent := par_of c\<rparr>)" "next_ref T2 = next_ref T1" "count T2 = count T1"
    using attach_ctx [OF _ assms(2) _ f, of T1 None "new_node (copied p)"] by auto
  moreover have "db_node_set p T = Some (?f, T1)" using db_node_set_eq [OF assms(4), of T] by (simp add: T1_def)
  ultimately show ?thesis by (auto simp: placed_def T1_def plug_at)
qed

lemma link_upd_other [simp]: "link (upd_link n (\<not> b) x) b = link n b"
  by (simp add: upd_link_def link_def)

lemma check_bit_frame:
  assumes "trie (plug ((a, q, i, k, b, s) # c) (Nd a1 q1 i1 k1 l1 r1))" and "wf_fam p"
    and "dir_ok p ((a, q, i, k, b, s) # c)" and "\<not> prefix_includes q1 p"
  shows "check_bit (addr (common q1 p)) (prefixlen q) = Some b"
proof -
  have w: "wf_cp q1" "wf_cp p" using trie_plug [OF assms(1)] assms(2) by (simp_all add: wf_fam_def)
  have q: "wf_cp q" "prefix_includes q p" "plen q < plen p" "b = next_bit p q"
    using assms(3) by (simp_all add: dir_ok_def)
  have "extends q b q1" using trie_frame [OF assms(1)] by simp
  then have "continues q b (pkey q1)" using w(1) by (simp add: extends_continues)
  moreover have "continues q b (pkey p)" using continues_next [OF q(1-3)] q(4) by simp
  ultimately have "continues q b (pkey (common q1 p))"
    by (rule continues_common [OF q(1) w assms(4)])
  then have lt: "plen q < plen (common q1 p)" and k: "take (Suc (plen q)) (pkey (common q1 p)) = pkey q @ [b]"
    using length_pkey [OF common_spec(2) [OF w assms(4)]] by (simp_all add: continues_def)
  have "pkey (common q1 p) ! plen q = take (Suc (plen q)) (pkey (common q1 p)) ! plen q" by simp
  also have "\<dots> = b" unfolding k using length_pkey [OF q(1)] by (metis nth_append_length)
  finally have "pkey (common q1 p) ! plen q = b" .
  moreover have "plen q < 128" using q(3) w(2) by (simp add: wf_cp_def)
  ultimately show ?thesis using check_bit_pkey [OF common_spec(2) [OF w assms(4)] _ lt] by simp
qed

lemma place_split:
  fixes T :: "'i db_table"
  assumes ctx: "ctx_at (heap T) (top T) c (Some a)" and tr: "tree_at (heap T) (par_of c) (Some a) t"
    and t: "t = Nd a q i k l r" and trie: "trie (plug c t)" and dist: "distinct (crefs c @ refs t)"
    and fresh: "\<forall>x\<in>set (crefs c @ refs t). x < next_ref T" and p: "wf_fam p" and dir: "dir_ok p c"
    and ninc: "\<not> prefix_includes q p"
  shows "\<exists>T'. db_node_split p (par_of c) a T = Some (tget_ref p (next_ref T) t, T') \<and>
    placed T c (tget p (next_ref T) t) T' (if plen (common q p) = plen p then 1 else 2)"
proof -
  let ?f = "next_ref T" and ?c = "common q p"
  define b where "b = next_bit q ?c"
  have w: "wf_cp q" "wf_cp p" using trie_plug [OF trie] p by (simp_all add: t wf_fam_def)
  note cs = common_spec [OF w ninc]
  obtain n where n: "heap T a = Some n" "n_p n = q" using tr t by auto
  have f: "?f \<notin> set (crefs c)" "?f \<notin> set (refs t)" "Suc ?f \<notin> set (crefs c)" "Suc ?f \<notin> set (refs t)"
    using fresh [rule_format, of ?f] fresh [rule_format, of "Suc ?f"] by auto
  have a: "a \<in> set (refs t)" "a \<noteq> ?f" "a \<noteq> Suc ?f" "a \<notin> set (crefs c)" using f t dist by auto
  define T0 where "T0 = T\<lparr>heap := (heap T)(?f \<mapsto> new_node ?c), next_ref := Suc ?f\<rparr>"
  define m where "m = (upd_link (new_node ?c) b (Some a) :: 'i db_node)"
  define T1 where "T1 = T0\<lparr>heap := (heap T0)(?f \<mapsto> m, a \<mapsto> n\<lparr>parent := Some ?f\<rparr>)\<rparr>"
  have c128: "plen ?c < 128" using cs(5) w(1) by (simp add: wf_cp_def)
  have sl: "set_link ?f a T0 = Some T1"
    using set_link_eq [of ?f a T0 "new_node ?c" n b] a n check_bit_pkey [OF w(1) c128 cs(5)]
    by (simp add: T1_def T0_def m_def b_def next_bit_def)
  have h1: "heap T1 ?f = Some m" "heap T1 a = Some (n\<lparr>parent := Some ?f\<rparr>)"
    "\<And>x. x \<noteq> ?f \<Longrightarrow> x \<noteq> a \<Longrightarrow> heap T1 x = heap T x"
    using a by (simp_all add: T1_def T0_def)
  have "tree_at ((heap T)(a \<mapsto> n\<lparr>parent := Some ?f\<rparr>)) (Some ?f) (Some a) t"
    using reparent [OF tr n(1)] dist by simp
  then have tr1: "tree_at (heap T1) (Some ?f) (Some a) t"
    by (rule tree_at_cong [rotated]) (use f h1 in \<open>auto simp: T1_def T0_def\<close>)
  have ctx1: "ctx_at (heap T1) (top T1) c (Some a)"
    using ctx by (auto simp: T1_def T0_def intro: ctx_at_cong [rotated]) (use f a h1 in \<open>auto intro: ctx_at_cong [rotated]\<close>)
  have "check_bit (addr (n_p m)) (prefixlen qf) = Some bf"
    if "c = (af, qf, iF, kf, bf, sf) # c'" for af qf iF kf bf sf c'
    using check_bit_frame [of af qf iF kf bf sf c' a q i k l r p] trie t p dir ninc that
    by (simp add: m_def)
  then obtain T2 where at: "attach (par_of c) ?f T1 = Some T2" "ctx_at (heap T2) (top T2) c (Some ?f)"
    "heap T2 ?f = Some (m\<lparr>parent := par_of c\<rparr>)"
    "\<And>x. x \<noteq> ?f \<Longrightarrow> x \<notin> set (crefs c) \<Longrightarrow> heap T2 x = heap T1 x"
    "next_ref T2 = Suc ?f" "count T2 = count T"
    using attach_ctx [OF ctx1 _ h1(1) f(1)] dist
    by (auto simp: T1_def T0_def m_def)
  have tr2: "tree_at (heap T2) (Some ?f) (Some a) t"
  proof (rule tree_at_cong [OF _ tr1])
    fix x assume "x \<in> set (refs t)"
    then have "x \<noteq> ?f" "x \<notin> set (crefs c)" using f dist by auto
    then show "heap T1 x = heap T2 x" using at(4) by simp
  qed
  have pe: "prefixlen ?c = prefixlen p \<longleftrightarrow> plen ?c = plen p" by (simp add: plen_def word_unat_eq_iff)
  have "\<And>x :: cp_prefix. family x = family p \<Longrightarrow> x\<lparr>family := family p\<rparr> = x" by (metis cp_prefix.surjective cp_prefix.update_convs(1))
  then have cfam: "?c\<lparr>family := family p\<rparr> = ?c" using cs(3) by blast
  have T0eq: "T\<lparr>next_ref := Suc ?f, heap := (heap T)(?f \<mapsto> new_node ?c)\<rparr> = T0" by (simp add: T0_def)
  have split: "db_node_split p (par_of c) a T = (if prefixlen ?c \<noteq> prefixlen p then do {
       (new2, t) \<leftarrow> db_node_set p T2;
       t \<leftarrow> set_link ?f new2 t;
       Some (new2, incr_count t) }
     else Some (?f, T2))"
    using n a cs(1) sl at(1) cfam T0eq by (simp add: db_node_split_def db_node_create_eq put_def)
  show ?thesis
  proof (cases "plen ?c = plen p")
    case True
    have "tree_at (heap T2) (par_of c) (Some ?f) (tget p ?f t)"
      using at(3) tr2 True ninc t by (simp add: tsplit_def tree_at_nd b_def [symmetric] m_def)
    with at split pe True ninc t show ?thesis by (auto simp: placed_def plug_at)
  next
    case False
    define T3 where "T3 = T2\<lparr>heap := (heap T2)(Suc ?f \<mapsto> new_node (copied p)), next_ref := Suc (Suc ?f)\<rparr>"
    define T4 where "T4 = T3\<lparr>heap := (heap T3)(?f \<mapsto> upd_link (m\<lparr>parent := par_of c\<rparr>) (\<not> b) (Some (Suc ?f)),
      Suc ?f \<mapsto> (new_node (copied p))\<lparr>parent := Some ?f\<rparr>)\<rparr>"
    have lt: "plen ?c < plen p" using False cs(4) by simp
    have nb: "next_bit p ?c = (\<not> b)" using cs(8) [OF lt] by (auto simp: b_def)
    have s3: "db_node_set p T2 = Some (Suc ?f, T3)"
      using db_node_set_eq [OF p, of T2] at(5) by (simp add: T3_def)
    have s4: "set_link ?f (Suc ?f) T3 = Some T4"
      using set_link_eq [of ?f "Suc ?f" T3 "m\<lparr>parent := par_of c\<rparr>" "new_node (copied p)" "\<not> b"]
        at(3) check_bit_copied [OF p cs(2) lt] nb
      by (simp add: T4_def T3_def m_def)
    have h4: "\<And>x. x \<noteq> ?f \<Longrightarrow> x \<noteq> Suc ?f \<Longrightarrow> heap T4 x = heap T2 x" by (simp add: T4_def T3_def)
    have tr4: "tree_at (heap T4) (Some ?f) (Some a) t"
    proof (rule tree_at_cong [OF _ tr2])
      fix x assume "x \<in> set (refs t)"
      then have "x \<noteq> ?f" "x \<noteq> Suc ?f" using f by auto
      then show "heap T2 x = heap T4 x" using h4 by simp
    qed
    have "heap T4 (Suc ?f) = Some ((new_node (copied p))\<lparr>parent := Some ?f\<rparr>)"
      "heap T4 ?f = Some (upd_link (m\<lparr>parent := par_of c\<rparr>) (\<not> b) (Some (Suc ?f)))"
      by (simp_all add: T4_def)
    then have "tree_at (heap T4) (par_of c) (Some ?f) (tget p ?f t)"
      using tr4 False ninc t by (simp add: tsplit_def tree_at_nd b_def [symmetric] m_def)
    moreover have "ctx_at (heap T4) (top T4) c (Some ?f)"
    proof -
      have "top T4 = top T2" by (simp add: T4_def T3_def)
      moreover have "ctx_at (heap T4) (top T2) c (Some ?f)"
      proof (rule ctx_at_cong [OF _ at(2)])
        fix x assume "x \<in> set (crefs c)"
        then have "x \<noteq> ?f" "x \<noteq> Suc ?f" using f by auto
        then show "heap T2 x = heap T4 x" using h4 by simp
      qed
      ultimately show ?thesis by simp
    qed
    moreover have "next_ref T4 = ?f + 2" "count T4 = count T"
      using at(6) by (simp_all add: T4_def T3_def)
    ultimately show ?thesis
      using split pe False ninc t s3 s4 by (auto simp: placed_def plug_at incr_count_def)
  qed
qed


section \<open>\<open>db_node_get\<close>\<close>

lemma distinct_tget:
  assumes "distinct (refs t)" and "\<forall>x\<in>set (refs t). x < f"
  shows "distinct (refs (tget p f t)) \<and> set (refs (tget p f t)) \<subseteq> set (refs t) \<union> {f, Suc f}"
  using assms
proof (induction t)
  case (Nd a q i k l r)
  have f: "f \<notin> set (refs (Nd a q i k l r))" "Suc f \<notin> set (refs (Nd a q i k l r))"
    using Nd.prems(2) [rule_format, of f] Nd.prems(2) [rule_format, of "Suc f"] by auto
  have l: "distinct (refs (tget p f l)) \<and> set (refs (tget p f l)) \<subseteq> set (refs l) \<union> {f, Suc f}"
    and r: "distinct (refs (tget p f r)) \<and> set (refs (tget p f r)) \<subseteq> set (refs r) \<union> {f, Suc f}"
    using Nd by auto
  show ?case
  proof (cases "prefix_includes q p")
    case True
    then show ?thesis using l r f Nd.prems(1) by auto
  next
    case False
    then show ?thesis using f Nd.prems(1) by (auto simp: tsplit_def nd_def Let_def)
  qed
qed simp

lemma tget_ref_in: "tget_ref p f t \<in> set (refs (tget p f t))"
  by (induction t) (auto simp: tsplit_def nd_def Let_def)

lemma tget_ref_refs: "tget_ref p f t \<in> set (refs t) \<union> {f, Suc f}"
  by (induction t) auto

lemma table_at_tget:
  assumes "table_at T t" and "wf_fam p" and "tree_at (heap T') None (top T') (tget p (next_ref T) t)"
    and "set (refs (tget p (next_ref T) t)) \<subseteq> {..<next_ref T'}"
  shows "table_at T' (tget p (next_ref T) t)"
  using assms distinct_tget [of t "next_ref T" p] trie_tget [of t p "next_ref T"]
  by (auto simp: table_at_def)

text \<open>The number of nodes that \<open>tget\<close> adds.\<close>

lemma length_nodes_plug: "length (nodes (plug c t)) = length (nodes (plug c Tip)) + length (nodes t)"
proof (induction c arbitrary: t)
  case (Cons fr c)
  obtain a q i k b s where fr: "fr = (a, q, i, k, b, s)" by (cases fr)
  have n: "length (nodes (nd a q i k b u s)) = Suc (length (nodes u) + length (nodes s))" for u
    by (simp add: nd_def)
  have "length (nodes (plug (fr # c) t)) = length (nodes (plug c Tip)) + length (nodes (nd a q i k b t s))"
    unfolding fr by (simp add: Cons.IH [of "nd a q i k b t s"])
  moreover have "length (nodes (plug (fr # c) Tip)) = length (nodes (plug c Tip)) + length (nodes (nd a q i k b Tip s))"
    unfolding fr by (simp add: Cons.IH [of "nd a q i k b Tip s"])
  ultimately show ?case by (simp add: n)
qed simp

lemma all_family_tget:
  assumes "trie t" and "all_family (family p) t" and "wf_fam p"
  shows "all_family (family p) (tget p f t)"
  using assms(1,2)
proof (induction t)
  case (Nd a q i k l r)
  have w: "wf_cp q" "wf_cp p" using Nd.prems assms(3) by (simp_all add: wf_fam_def)
  have al: "all_family (family p) l" "all_family (family p) r" using Nd.prems(2) by (auto simp: all_family_def)
  show ?case
  proof (cases "prefix_includes q p")
    case True
    have tl: "trie l" "trie r" using Nd.prems(1) by simp_all
    have ih: "all_family (family p) (tget p f l)" "all_family (family p) (tget p f r)"
      using Nd.IH(1) [OF tl(1) al(1)] Nd.IH(2) [OF tl(2) al(2)] by blast+
    show ?thesis using True ih al Nd.prems(2) by (simp add: all_family_def ball_Un)
  next
    case False
    then show ?thesis
      using Nd.prems(2) common_spec(3) [OF w False] copied_spec(5) [OF assms(3)]
      by (auto simp: all_family_def nodes_tsplit split: if_splits)
  qed
qed (simp add: all_family_def copied_spec(5) [OF assms(3)])

lemma db_node_get_refines:
  assumes "table_at T t" and "all_family (family p) t" and "wf_fam p"
  shows "\<exists>T' t'. t' = bump (tget_ref p (next_ref T) t) (tget p (next_ref T) t) \<and>
    db_node_get p T = Some (tget_ref p (next_ref T) t, T') \<and> table_at T' t' \<and>
    count T' = count T + of_nat (length (nodes t') - length (nodes t))"
proof -
  let ?f = "next_ref T"
  have tr: "tree_at (heap T) None (top T) t" "trie t" "distinct (refs t)" "\<forall>a\<in>set (refs t). a < ?f"
    using assms(1) by (simp_all add: table_at_def)
  have p: "wf_cp p" using assms(3) by (simp add: wf_fam_def)
  have fam: "(case top T of None \<Rightarrow> Some () | Some _ \<Rightarrow> check_top_family p T) = Some ()"
    using check_top_family_ok [OF assms(1) _ assms(2)] tr(1) by (cases t) auto
  have d0: "dir_ok p []" by (simp add: dir_ok_def)
  have par0: "par_of [] = None" by (simp add: par_of_def)
  from get_loop_walk [of "heap T" "[]" "top T" t p ?f] tr(1,2) p d0 obtain c t1 hole where
    w: "plug c t1 = t" "tree_at (heap T) (par_of c) hole t1" "trie t1" "dir_ok p c"
      "plug c (tget p ?f t1) = tget p ?f t" "tget_ref p ?f t1 = tget_ref p ?f t"
      "t1 = Tip \<and> get_loop (heap T) p None (top T) = Some (par_of c, None, False) \<or>
       (\<exists>a q i k l r. t1 = Nd a q i k l r \<and> (if prefix_includes q p
          then plen q = plen p \<and> get_loop (heap T) p None (top T) = Some (par_of c, Some a, True)
          else get_loop (heap T) p None (top T) = Some (par_of c, Some a, False)))"
    unfolding par0 plug.simps(1) by blast
  have "tree_at (heap T) None (top T) (plug c t1)" using tr(1) w(1) by simp
  then obtain hole' where ctx: "ctx_at (heap T) (top T) c hole'" "tree_at (heap T) (par_of c) hole' t1"
    by (auto simp: plug_at)
  have dist: "distinct (crefs c @ refs t1)" using tr(3) w(1) distinct_plug [of c t1] by simp
  have fresh: "\<forall>x\<in>set (crefs c @ refs t1). x < ?f" using tr(4) refs_plug [of c t1] w(1) by auto
  have len: "length (nodes (tget p ?f t)) - length (nodes t) = length (nodes (tget p ?f t1)) - length (nodes t1)"
    using length_nodes_plug [of c t1] length_nodes_plug [of c "tget p ?f t1"] w(1,5) by simp
  have lock: "\<exists>T2. db_lock_node (tget_ref p ?f t) T1 = Some T2 \<and>
      table_at T2 (bump (tget_ref p ?f t) (tget p ?f t)) \<and> count T2 = count T1"
    if "tree_at (heap T1) None (top T1) (tget p ?f t)" "set (refs (tget p ?f t)) \<subseteq> {..<next_ref T1}" for T1
    by (rule db_lock_node_table [OF table_at_tget [OF assms(1,3) that] tget_ref_in])
  consider (leaf) "t1 = Tip" "get_loop (heap T) p None (top T) = Some (par_of c, None, False)"
    | (found) a q i k l r where "t1 = Nd a q i k l r" "prefix_includes q p" "plen q = plen p"
        "get_loop (heap T) p None (top T) = Some (par_of c, Some a, True)"
    | (split) a q i k l r where "t1 = Nd a q i k l r" "\<not> prefix_includes q p"
        "get_loop (heap T) p None (top T) = Some (par_of c, Some a, False)"
    using w(7) by (auto split: if_splits)
  then show ?thesis
  proof cases
    case leaf
    have "hole' = None" using ctx(2) leaf(1) by simp
    with place_leaf [of T c p] ctx(1) dist fresh assms(3) w(4) obtain T1 T2 where
      s: "db_node_set p T = Some (?f, T1)" "attach (par_of c) ?f T1 = Some T2" "placed T c (tget p ?f Tip) T2 1"
      by auto
    have "tree_at (heap (incr_count T2)) None (top (incr_count T2)) (tget p ?f t)"
      using s(3) w(5) leaf(1) by (simp add: placed_def incr_count_def)
    moreover have "set (refs (tget p ?f t)) \<subseteq> {..<next_ref (incr_count T2)}"
      using w(5) leaf(1) s(3) fresh refs_plug [of c "tget p ?f Tip"]
      by (auto simp: placed_def incr_count_def)
    ultimately obtain T3 where "db_lock_node (tget_ref p ?f t) (incr_count T2) = Some T3"
      "table_at T3 (bump (tget_ref p ?f t) (tget p ?f t))" "count T3 = count (incr_count T2)"
      using lock [of "incr_count T2"] by blast
    with leaf s fam len w(6) show ?thesis
      by (simp add: db_node_get_def placed_def incr_count_def)
  next
    case (found a q i k l r)
    then have same: "tget p ?f t1 = t1" "tget_ref p ?f t = a" using w(6) by simp_all
    then have "tget p ?f t = t" using w(1,5) by simp
    with lock [of T] tr(1,4) obtain T2 where "db_lock_node a T = Some T2" "table_at T2 (bump a t)" "count T2 = count T"
      by (auto simp: same(2))
    with found fam same \<open>tget p ?f t = t\<close> show ?thesis by (simp add: db_node_get_def)
  next
    case (split a q i k l r)
    have "hole' = Some a" using ctx(2) split(1) by simp
    with place_split [of T c a t1 q i k l r p] ctx split(1,2) tr(2) w(1,4) dist fresh assms(3) obtain T1 where
      s: "db_node_split p (par_of c) a T = Some (tget_ref p ?f t1, T1)"
        "placed T c (tget p ?f t1) T1 (if plen (common q p) = plen p then 1 else 2)" by auto
    have "tree_at (heap (incr_count T1)) None (top (incr_count T1)) (tget p ?f t)"
      using s(2) w(5) by (simp add: placed_def incr_count_def)
    moreover have "set (refs (tget p ?f t)) \<subseteq> {..<next_ref (incr_count T1)}"
    proof -
      have "set (refs (tget p ?f t1)) \<subseteq> {..<next_ref T1}"
      proof
        fix x assume "x \<in> set (refs (tget p ?f t1))"
        then have "x \<in> set (refs t1) \<or> x = ?f \<or> (x = Suc ?f \<and> plen (common q p) \<noteq> plen p)"
          using split(1,2) by (auto simp: tsplit_def nd_def Let_def split: if_splits)
        moreover have "x < ?f" if "x \<in> set (refs t1)" using fresh that by simp
        moreover have "next_ref T1 = ?f + (if plen (common q p) = plen p then 1 else 2)"
          using s(2) by (simp add: placed_def)
        ultimately show "x \<in> {..<next_ref T1}" by (auto split: if_splits)
      qed
      moreover have "set (crefs c) \<subseteq> {..<next_ref T1}"
      proof
        fix x assume "x \<in> set (crefs c)"
        then have "x < ?f" using fresh by simp
        then show "x \<in> {..<next_ref T1}" using s(2) by (simp add: placed_def)
      qed
      ultimately show ?thesis
        using w(5) refs_plug [of c "tget p ?f t1"] by (auto simp: incr_count_def)
    qed
    ultimately obtain T3 where "db_lock_node (tget_ref p ?f t) (incr_count T1) = Some T3"
      "table_at T3 (bump (tget_ref p ?f t) (tget p ?f t))" "count T3 = count (incr_count T1)"
      using lock [of "incr_count T1"] by blast
    moreover have "length (nodes (tget p ?f t1)) - length (nodes t1) =
        (if plen (common q p) = plen p then 1 else 2)"
      using split(1,2) by (auto simp: tsplit_def nd_def Let_def)
    ultimately show ?thesis
      using split s fam len w(6) by (simp add: db_node_get_def placed_def incr_count_def)
  qed
qed

lemma tget_bump: "trie t \<Longrightarrow> tget p f (bump x t) = bump x t \<longleftrightarrow> tget p f t = t"
  by (induction t) (auto simp: tsplit_def nd_def Let_def)

lemma tget_ref_bump [simp]: "tget_ref p f (bump x t) = tget_ref p f t"
  by (induction t) auto

text \<open>Asking again for the same prefix finds the node and adds none.\<close>

lemma tget_copied_self [simp]:
  "wf_fam p \<Longrightarrow> prefix_includes (copied p) p \<and> plen (copied p) = plen p"
  using copied_spec(2-4) [of p] length_pkey [of p] by (simp add: prefix_includes_iff wf_fam_def)

lemma tget_again:
  assumes "trie t" and "wf_fam p"
  shows "tget p g (tget p f t) = tget p f t \<and> tget_ref p g (tget p f t) = tget_ref p f t"
  using assms(1)
proof (induction t)
  case Tip
  then show ?case using tget_copied_self [OF assms(2)] by simp
next
  case (Nd a q i k l r)
  have w: "wf_cp q" "wf_cp p" "trie l" "trie r" using Nd.prems assms(2) by (simp_all add: wf_fam_def)
  show ?case
  proof (cases "prefix_includes q p")
    case True
    with Nd.IH w show ?thesis by auto
  next
    case False
    note c = common_spec [OF w(1,2) False]
    have inc: "prefix_includes (common q p) p"
      using c(2,4,7) w(2) by (simp add: prefix_includes_iff)
    show ?thesis
    proof (cases "plen (common q p) = plen p")
      case True
      then show ?thesis using False inc by (simp add: tsplit_def nd_def Let_def)
    next
      case False
      have "next_bit p (common q p) \<noteq> next_bit q (common q p)" using False c(4,8) by auto
      then show ?thesis
        using False \<open>\<not> prefix_includes q p\<close> inc tget_copied_self [OF assms(2)]
        by (auto simp: tsplit_def nd_def Let_def)
    qed
  qed
qed

lemma short_tget:
  assumes "trie t" and "wf_fam p" and "short t" and "plen p < 128"
  shows "short (tget p f t)"
  using assms(1,3)
proof (induction t)
  case (Nd a q i k l r)
  have w: "wf_cp q" "wf_cp p" using Nd.prems assms(2) by (simp_all add: wf_fam_def)
  have s: "short l" "short r" using Nd.prems(2) by (auto simp: short_def)
  show ?case
  proof (cases "prefix_includes q p")
    case True
    have "short (tget p f l)" "short (tget p f r)" using Nd.IH s Nd.prems(1) by simp_all
    then show ?thesis using True s Nd.prems(2) by (simp add: short_def ball_Un)
  next
    case False
    then show ?thesis
      using Nd.prems(2) common_spec(4) [OF w False] copied_spec(3) [OF assms(2)] assms(4)
      by (auto simp: short_def nodes_tsplit split: if_splits)
  qed
qed (simp add: short_def copied_spec(3) [OF assms(2)] assms(4))

lemma db_node_get_ok:
  assumes "table_at T t" and "all_family (family p) t" and "wf_fam p"
  shows "\<exists>a T' t'. db_node_get p T = Some (a, T') \<and> table_at T' t' \<and> all_family (family p) t' \<and>
    (short t \<longrightarrow> plen p < 128 \<longrightarrow> short t') \<and>
    (\<exists>q i. (a, q, i) \<in> set (nodes t') \<and> plen q = plen p \<and> pkey q = pkey p) \<and>
    set (nodes t) \<subseteq> set (nodes t') \<and>
    (\<forall>(b, q, i)\<in>set (nodes t'). (b, q, i) \<in> set (nodes t) \<or> i = None \<and> b \<in> {next_ref T, Suc (next_ref T)}) \<and>
    count T' = count T + of_nat (length (nodes t') - length (nodes t))"
proof -
  let ?f = "next_ref T"
  have tr: "trie t" using assms(1) by (simp add: table_at_def)
  from db_node_get_refines [OF assms] obtain T' where
    "db_node_get p T = Some (tget_ref p ?f t, T')"
    "table_at T' (bump (tget_ref p ?f t) (tget p ?f t))"
    "count T' = count T + of_nat (length (nodes (tget p ?f t)) - length (nodes t))" by auto
  moreover have "all_family (family p) (bump (tget_ref p ?f t) (tget p ?f t))"
    using all_family_tget [OF tr assms(2,3)] by (simp add: all_family_def)
  moreover have "short t \<longrightarrow> plen p < 128 \<longrightarrow> short (bump (tget_ref p ?f t) (tget p ?f t))"
    using short_tget [OF tr assms(3), of ?f] by (simp add: short_def)
  ultimately show ?thesis
    using tget_ref_node [OF tr assms(3), of ?f] nodes_tget(1) [of t p ?f] nodes_tget(2) [of _ _ _ p ?f t]
    by (intro exI [of _ "tget_ref p ?f t"] exI [of _ T']
        exI [of _ "bump (tget_ref p ?f t) (tget p ?f t)"]) auto
qed

text \<open>
  C22: \<open>db_node_get\<close> on a well-formed table of the family of the prefix ends with the table well-formed:
  it returns a node whose prefix has exactly the significant bits asked for, no node of the table is
  lost, moved or changed in prefix or data, the added nodes (at most the one asked for and one
  branch node) carry no data, and the table's counter grows by the number of nodes added.
\<close>

theorem db_node_get_inserts:
  assumes "table_at T t" and "all_family (family p) t" and "wf_fam p"
  shows "\<exists>a T' t'. db_node_get p T = Some (a, T') \<and> table_at T' t' \<and> all_family (family p) t' \<and>
    (\<exists>q i. (a, q, i) \<in> set (nodes t') \<and> plen q = plen p \<and> pkey q = pkey p) \<and>
    set (nodes t) \<subseteq> set (nodes t') \<and>
    (\<forall>(b, q, i)\<in>set (nodes t'). (b, q, i) \<in> set (nodes t) \<or> i = None \<and> b \<in> {next_ref T, Suc (next_ref T)}) \<and>
    count T' = count T + of_nat (length (nodes t') - length (nodes t))"
  using db_node_get_ok [OF assms] by blast

lemma sample_get:
  "wf_fam (net10 16) \<and> all_family (family (net10 16)) sample_tree"
  "\<exists>T'. db_node_get (net10 16) sample_table = Some (2, T') \<and> count T' = 3"
proof -
  show p: "wf_fam (net10 16) \<and> all_family (family (net10 16)) sample_tree"
    using wf_net10 [of 16] sample_table_at(3) by (simp add: wf_fam_def net10_def plen_def)
  have "next_ref sample_table = 2" "count sample_table = 2" by (simp_all add: sample_table_def)
  moreover have "tget_ref (net10 16) 2 sample_tree = 2" "length (nodes (tget (net10 16) 2 sample_tree)) = 3"
    "length (nodes sample_tree) = 2" by code_simp+
  ultimately show "\<exists>T'. db_node_get (net10 16) sample_table = Some (2, T') \<and> count T' = 3"
    using db_node_get_refines [OF sample_table_at(1), of "net10 16"] p by auto
qed

theorem db_node_get_inserts_witness:
  "\<exists>T' t'. db_node_get (net10 16) sample_table = Some (2, T') \<and> table_at T' t' \<and> count T' = 3"
proof -
  have "wf_fam (net10 16)" "all_family (family (net10 16)) sample_tree" using sample_get(1) by blast+
  from db_node_get_inserts [OF sample_table_at(1) this(2,1)] obtain a T' t' where
    g: "db_node_get (net10 16) sample_table = Some (a, T')" "table_at T' t'" by blast
  with sample_get(2) show ?thesis by auto
qed

text \<open>
  Asking a table twice for the same prefix returns the same node, and the second call adds no
  node: it changes nothing but that node's lock count.
\<close>

theorem db_node_get_again:
  assumes "table_at T t" and "all_family (family p) t" and "wf_fam p" and "db_node_get p T = Some (a, T')"
  shows "\<exists>T'' t' t''. db_node_get p T' = Some (a, T'') \<and> table_at T' t' \<and> table_at T'' t'' \<and>
    t'' = bump a t' \<and> count T'' = count T'"
proof -
  let ?f = "next_ref T"
  define t' where "t' = bump (tget_ref p ?f t) (tget p ?f t)"
  have tr: "trie t" using assms(1) by (simp add: table_at_def)
  from db_node_get_refines [OF assms(1-3)] assms(4) have
    a: "a = tget_ref p ?f t" and T': "table_at T' t'" by (auto simp: t'_def)
  have "all_family (family p) t'"
    using all_family_tget [OF tr assms(2,3)] by (simp add: t'_def all_family_def)
  from db_node_get_refines [OF T' this assms(3)] obtain T'' where
    g: "db_node_get p T' = Some (tget_ref p (next_ref T') t', T'')"
      "table_at T'' (bump (tget_ref p (next_ref T') t') (tget p (next_ref T') t'))"
      "count T'' = count T' + of_nat (length (nodes (tget p (next_ref T') t')) - length (nodes t'))" by auto
  have "tget p (next_ref T') t' = t'" "tget_ref p (next_ref T') t' = a"
    using tget_again [OF tr assms(3), of "next_ref T'" ?f] trie_tget [OF tr assms(3)] a
    by (simp_all add: t'_def tget_bump)
  with g T' show ?thesis by (auto intro!: exI [of _ t'])
qed

theorem db_node_get_again_witness:
  "\<exists>T1 T2. db_node_get (net10 16) sample_table = Some (2, T1) \<and> db_node_get (net10 16) T1 = Some (2, T2)"
proof -
  obtain T1 where "db_node_get (net10 16) sample_table = Some (2, T1)" using sample_get(2) by blast
  with db_node_get_again [OF sample_table_at(1) _ _ this] sample_get(1) show ?thesis by blast
qed

end
