(* ===== verification/Sha_Spec.thy ===== *)
theory Sha_Spec
  imports Prelude
begin

text \<open>
  SHA-1 as FIPS 180-4 states it and HMAC as RFC 2104 does, over a whole message: the message
  schedule as a recurrence, the round on five named variables, the padding of the message, and the
  two nested hashes of HMAC. The control plane's streaming code (\<open>hmac/sha.c\<close>, \<open>hmac/hmac_sha.c\<close>) is
  shown to compute exactly these functions in \<open>Cp_Sha\<close> and \<open>Cp_Hmac\<close>.
\<close>

definition rol :: "u32 \<Rightarrow> nat \<Rightarrow> u32" where
  "rol x n = push_bit n x OR drop_bit (32 - n) x"

definition be32 :: "byte \<Rightarrow> byte \<Rightarrow> byte \<Rightarrow> byte \<Rightarrow> u32" where
  "be32 a b c d = push_bit 24 (ucast a) OR push_bit 16 (ucast b) OR push_bit 8 (ucast c) OR ucast d"

fun be_quads :: "byte list \<Rightarrow> u32 list" where
  "be_quads (a # b # c # d # r) = be32 a b c d # be_quads r"
| "be_quads _ = []"

definition be_bytes :: "u32 \<Rightarrow> byte list" where
  "be_bytes w = [ucast (drop_bit 24 w), ucast (drop_bit 16 w), ucast (drop_bit 8 w), ucast w]"

type_synonym sha_vars = "u32 \<times> u32 \<times> u32 \<times> u32 \<times> u32"

fun schedule :: "u32 list \<Rightarrow> nat \<Rightarrow> u32" where
  "schedule m t = (if t < 16 then m ! t
     else rol (schedule m (t - 3) XOR schedule m (t - 8) XOR schedule m (t - 14) XOR schedule m (t - 16)) 1)"

declare schedule.simps [simp del]

definition sha_f :: "nat \<Rightarrow> u32 \<Rightarrow> u32 \<Rightarrow> u32 \<Rightarrow> u32" where
  "sha_f t b c d =
     (if t < 20 then (b AND c) OR (NOT b AND d)
      else if t < 40 then b XOR c XOR d
      else if t < 60 then (b AND c) OR (b AND d) OR (c AND d)
      else b XOR c XOR d)"

definition sha_k :: "nat \<Rightarrow> u32" where
  "sha_k t = (if t < 20 then 0x5A827999 else if t < 40 then 0x6ED9EBA1
     else if t < 60 then 0x8F1BBCDC else 0xCA62C1D6)"

definition spec_round :: "(nat \<Rightarrow> u32) \<Rightarrow> nat \<Rightarrow> sha_vars \<Rightarrow> sha_vars" where
  "spec_round w t = (\<lambda>(a, b, c, d, e).
     (rol a 5 + sha_f t b c d + e + sha_k t + w t, a, rol b 30, c, d))"

definition spec_block :: "sha_vars \<Rightarrow> byte list \<Rightarrow> sha_vars" where
  "spec_block h bs =
     (case (h, fold (spec_round (schedule (be_quads bs))) [0..<80] h) of
        ((h0, h1, h2, h3, h4), (a, b, c, d, e)) \<Rightarrow> (h0 + a, h1 + b, h2 + c, h3 + d, h4 + e))"

function sha_blocks :: "sha_vars \<Rightarrow> byte list \<Rightarrow> sha_vars" where
  "sha_blocks h m = (if length m < 64 then h else sha_blocks (spec_block h (take 64 m)) (drop 64 m))"
  by auto
termination by (relation "measure (length \<circ> snd)") auto

declare sha_blocks.simps [simp del]

definition sha_h0 :: sha_vars where
  "sha_h0 = (0x67452301, 0xEFCDAB89, 0x98BADCFE, 0x10325476, 0xC3D2E1F0)"

definition sha_len :: "nat \<Rightarrow> byte list" where
  "sha_len n = (let l = of_nat (8 * n) :: u64 in be_bytes (ucast (drop_bit 32 l)) @ be_bytes (ucast l))"

definition sha_pad :: "byte list \<Rightarrow> byte list" where
  "sha_pad m = m @ [0x80] @ replicate ((119 - length m mod 64) mod 64) 0 @ sha_len (length m)"

definition vars_bytes :: "sha_vars \<Rightarrow> byte list" where
  "vars_bytes = (\<lambda>(a, b, c, d, e). be_bytes a @ be_bytes b @ be_bytes c @ be_bytes d @ be_bytes e)"

definition sha1_spec :: "byte list \<Rightarrow> byte list" where
  "sha1_spec m = vars_bytes (sha_blocks sha_h0 (sha_pad m))"

definition hmac_key :: "byte list \<Rightarrow> byte list" where
  "hmac_key k = (let k0 = if length k > 64 then sha1_spec k else k in k0 @ replicate (64 - length k0) 0)"

definition hmac_spec :: "byte list \<Rightarrow> byte list \<Rightarrow> byte list" where
  "hmac_spec k m = sha1_spec (map ((XOR) 0x5c) (hmac_key k) @ sha1_spec (map ((XOR) 0x36) (hmac_key k) @ m))"

section \<open>Hashing block by block\<close>

lemma sha_blocks_short [simp]: "length m < 64 \<Longrightarrow> sha_blocks h m = h"
  by (subst sha_blocks.simps) simp

lemma sha_blocks_block: "length b = 64 \<Longrightarrow> sha_blocks h (b @ m) = sha_blocks (spec_block h b) m"
  by (subst sha_blocks.simps) simp

lemma sha_blocks_append:
  "64 dvd length x \<Longrightarrow> sha_blocks h (x @ y) = sha_blocks (sha_blocks h x) y"
proof (induction h x rule: sha_blocks.induct)
  case (1 h x)
  show ?case
  proof (cases "length x < 64")
    case True
    with 1(2) have "x = []" by (auto dest: dvd_imp_le)
    then show ?thesis by simp
  next
    case False
    have d: "64 dvd length (drop 64 x)" using 1(2) False by (simp add: dvd_diff_nat)
    have "sha_blocks h (x @ y) = sha_blocks (spec_block h (take 64 x)) (drop 64 x @ y)"
      using False by (subst sha_blocks.simps) simp
    also have "\<dots> = sha_blocks (sha_blocks (spec_block h (take 64 x)) (drop 64 x)) y"
      using 1(1) False d by simp
    also have "sha_blocks (spec_block h (take 64 x)) (drop 64 x) = sha_blocks h x"
      using False by (subst (2) sha_blocks.simps) simp
    finally show ?thesis .
  qed
qed

lemma length_be_bytes [simp]: "length (be_bytes w) = 4"
  by (simp add: be_bytes_def)

lemma length_sha_len [simp]: "length (sha_len n) = 8"
  by (simp add: sha_len_def Let_def)

lemma length_vars_bytes [simp]: "length (vars_bytes h) = 20"
  by (simp add: vars_bytes_def split: prod.splits)

lemma length_sha1_spec [simp]: "length (sha1_spec m) = 20"
  by (simp add: sha1_spec_def)

lemma length_hmac_key [simp]: "length (hmac_key k) = 64"
  by (simp add: hmac_key_def Let_def)

lemma pad_room: "(r :: nat) < 64 \<Longrightarrow> (119 - r) mod 64 = (if r < 56 then 55 - r else 119 - r)"
proof -
  assume "r < 64"
  have "119 - r = 55 - r + 64" if "r < 56" using that by simp
  then have "(119 - r) mod 64 = (55 - r) mod 64" if "r < 56" using that by (simp only: mod_add_self2)
  with \<open>r < 64\<close> show ?thesis by simp
qed

lemma length_sha_pad: "64 dvd length (sha_pad m)"
proof -
  define r where "r = length m mod 64"
  have r: "r < 64" by (simp add: r_def)
  have "length (sha_pad m) = 64 * (length m div 64) + (r + (119 - r) mod 64 + 9)"
    by (simp add: sha_pad_def r_def)
  moreover have "r + (119 - r) mod 64 + 9 = (if r < 56 then 64 else 128)"
    unfolding pad_room [OF r] using r by auto
  ultimately show ?thesis by auto
qed

end
