(* ===== verification/Cp_Sha.thy ===== *)
theory Cp_Sha
  imports Sha_Spec
begin

text \<open>
  The control plane's SHA-1 (\<open>hmac/sha.c\<close>), on the little-endian machines it is built for: the
  unrolled rounds of \<open>SHA1_Transform\<close> over the five working variables, the message schedule kept in
  place in the block that is hashed (so that hashing a block overwrites it), and the streaming
  interface with its 64-bit bit counter in two words. The functions return \<open>None\<close> where the C code
  would access a buffer outside its bounds. \<open>Sha_Spec\<close> is what they are proved to compute.
\<close>

section \<open>The block\<close>

text \<open>\<open>block->l[i]\<close> of the union: the four bytes at \<open>4 * i\<close>, least significant first.\<close>

definition le32 :: "byte \<Rightarrow> byte \<Rightarrow> byte \<Rightarrow> byte \<Rightarrow> u32" where
  "le32 a b c d = ucast a OR push_bit 8 (ucast b) OR push_bit 16 (ucast c) OR push_bit 24 (ucast d)"

fun le_quads :: "byte list \<Rightarrow> u32 list" where
  "le_quads (a # b # c # d # r) = le32 a b c d # le_quads r"
| "le_quads _ = []"

definition le_quad_bytes :: "u32 \<Rightarrow> byte list" where
  "le_quad_bytes w = [ucast w, ucast (drop_bit 8 w), ucast (drop_bit 16 w), ucast (drop_bit 24 w)]"

definition blk0 :: "u32 list \<Rightarrow> nat \<Rightarrow> u32 \<times> u32 list" where
  "blk0 l i = (let x = (rol (l ! i) 24 AND 0xFF00FF00) OR (rol (l ! i) 8 AND 0x00FF00FF) in (x, l[i := x]))"

definition blk :: "u32 list \<Rightarrow> nat \<Rightarrow> u32 \<times> u32 list" where
  "blk l i = (let x = rol (l ! ((i + 13) mod 16) XOR l ! ((i + 8) mod 16) XOR l ! ((i + 2) mod 16) XOR
      l ! (i mod 16)) 1 in (x, l[i mod 16 := x]))"

section \<open>The rounds\<close>

text \<open>
  The working variables \<open>a\<close> to \<open>e\<close> are a list of five, and a macro call names the positions
  of the variables it is applied to.
\<close>

type_synonym sha_work = "u32 list \<times> u32 list"

definition R0 :: "nat \<Rightarrow> nat \<Rightarrow> nat \<Rightarrow> nat \<Rightarrow> nat \<Rightarrow> nat \<Rightarrow> sha_work \<Rightarrow> sha_work" where
  "R0 v w x y z i = (\<lambda>(r, l). let (k, l) = blk0 l i;
      r = r[z := r ! z + (((r ! w AND (r ! x XOR r ! y)) XOR r ! y) + k + 0x5A827999 + rol (r ! v) 5)]
    in (r[w := rol (r ! w) 30], l))"

definition R1 :: "nat \<Rightarrow> nat \<Rightarrow> nat \<Rightarrow> nat \<Rightarrow> nat \<Rightarrow> nat \<Rightarrow> sha_work \<Rightarrow> sha_work" where
  "R1 v w x y z i = (\<lambda>(r, l). let (k, l) = blk l i;
      r = r[z := r ! z + (((r ! w AND (r ! x XOR r ! y)) XOR r ! y) + k + 0x5A827999 + rol (r ! v) 5)]
    in (r[w := rol (r ! w) 30], l))"

definition R2 :: "nat \<Rightarrow> nat \<Rightarrow> nat \<Rightarrow> nat \<Rightarrow> nat \<Rightarrow> nat \<Rightarrow> sha_work \<Rightarrow> sha_work" where
  "R2 v w x y z i = (\<lambda>(r, l). let (k, l) = blk l i;
      r = r[z := r ! z + ((r ! w XOR r ! x XOR r ! y) + k + 0x6ED9EBA1 + rol (r ! v) 5)]
    in (r[w := rol (r ! w) 30], l))"

definition R3 :: "nat \<Rightarrow> nat \<Rightarrow> nat \<Rightarrow> nat \<Rightarrow> nat \<Rightarrow> nat \<Rightarrow> sha_work \<Rightarrow> sha_work" where
  "R3 v w x y z i = (\<lambda>(r, l). let (k, l) = blk l i;
      r = r[z := r ! z + ((((r ! w OR r ! x) AND r ! y) OR (r ! w AND r ! x)) + k + 0x8F1BBCDC + rol (r ! v) 5)]
    in (r[w := rol (r ! w) 30], l))"

definition R4 :: "nat \<Rightarrow> nat \<Rightarrow> nat \<Rightarrow> nat \<Rightarrow> nat \<Rightarrow> nat \<Rightarrow> sha_work \<Rightarrow> sha_work" where
  "R4 v w x y z i = (\<lambda>(r, l). let (k, l) = blk l i;
      r = r[z := r ! z + ((r ! w XOR r ! x XOR r ! y) + k + 0xCA62C1D6 + rol (r ! v) 5)]
    in (r[w := rol (r ! w) 30], l))"

text \<open>
  The 80 calls: the macro changes at 16, 20, 40 and 60, and call \<open>i\<close> is applied to
  \<open>(a, b, c, d, e)\<close> rotated right by \<open>i\<close> positions.
\<close>

definition sha_call :: "nat \<Rightarrow> sha_work \<Rightarrow> sha_work" where
  "sha_call i =
     (let p = (\<lambda>k. (4 * i + k) mod 5);
          R = (if i < 16 then R0 else if i < 20 then R1 else if i < 40 then R2 else if i < 60 then R3 else R4)
      in R (p 0) (p 1) (p 2) (p 3) (p 4) i)"

definition sha1_transform :: "u32 list \<Rightarrow> byte list \<Rightarrow> u32 list \<times> byte list" where
  "sha1_transform st buf =
     (let (r, l) = fold sha_call [0..<80] (st, le_quads buf)
      in (map2 (+) st r, concat (map le_quad_bytes l)))"

section \<open>The streaming interface\<close>

record sha_ctx =
  sha_state :: "u32 list"
  count0 :: u32
  count1 :: u32
  sha_buffer :: "byte list"

definition sha1_init :: "sha_ctx \<Rightarrow> sha_ctx" where
  "sha1_init ctx = ctx\<lparr>sha_state := [0x67452301, 0xEFCDAB89, 0x98BADCFE, 0x10325476, 0xC3D2E1F0],
     count0 := 0, count1 := 0\<rparr>"

text \<open>\<open>for ( ; i + 63 < len; i += 64) SHA1_Transform(context->state, &data[i])\<close>: the caller's own
  data is the block.\<close>

partial_function (option) update_loop ::
  "u32 list \<Rightarrow> byte list \<Rightarrow> u32 \<Rightarrow> u32 \<Rightarrow> (u32 list \<times> byte list \<times> u32) option" where
  "update_loop st data i len =
     (if i + 63 < len then do {
        b \<leftarrow> rdn data (unat i) 64;
        case sha1_transform st b of (st, b) \<Rightarrow>
          update_loop st (take (unat i) data @ b @ drop (unat i + 64) data) (i + 64) len }
      else Some (st, data, i))"

text \<open>\<open>memcpy(&dst[j], &src[i], n)\<close>\<close>

definition memcpy_at :: "byte list \<Rightarrow> nat \<Rightarrow> byte list \<Rightarrow> nat \<Rightarrow> nat \<Rightarrow> byte list option" where
  "memcpy_at dst j src i n =
     (if j + n \<le> length dst then do { b \<leftarrow> rdn src i n; Some (take j dst @ b @ drop (j + n) dst) } else None)"

definition sha1_update :: "sha_ctx \<Rightarrow> byte list \<Rightarrow> u32 \<Rightarrow> (sha_ctx \<times> byte list) option" where
  "sha1_update ctx data len = do {
     let j = drop_bit 3 (count0 ctx) AND 63;
     let c0 = count0 ctx + push_bit 3 len;
     let c1 = (if c0 < push_bit 3 len then count1 ctx + 1 else count1 ctx);
     let c1 = c1 + drop_bit 29 len;
     let ctx = ctx\<lparr>count0 := c0, count1 := c1\<rparr>;
     (if j + len > 63 then do {
        let i = 64 - j;
        buf \<leftarrow> memcpy_at (sha_buffer ctx) (unat j) data 0 (unat i);
        let (st, buf) = sha1_transform (sha_state ctx) buf;
        (st, data, i) \<leftarrow> update_loop st data i len;
        buf \<leftarrow> memcpy_at buf 0 data (unat i) (unat (len - i));
        Some (ctx\<lparr>sha_state := st, sha_buffer := buf\<rparr>, data) }
      else do {
        buf \<leftarrow> memcpy_at (sha_buffer ctx) (unat j) data 0 (unat len);
        Some (ctx\<lparr>sha_buffer := buf\<rparr>, data) }) }"

text \<open>\<open>while ((context->count[0] & 504) != 448) SHA1_Update(context, "\0", 1)\<close>\<close>

partial_function (option) pad_loop :: "sha_ctx \<Rightarrow> sha_ctx option" where
  "pad_loop ctx =
     (if count0 ctx AND 504 \<noteq> 448 then do { (ctx, _) \<leftarrow> sha1_update ctx [0] 1; pad_loop ctx }
      else Some ctx)"

definition final_count :: "sha_ctx \<Rightarrow> byte list" where
  "final_count ctx = map (\<lambda>i. ucast (drop_bit ((3 - i mod 4) * 8) (if i \<ge> 4 then count0 ctx else count1 ctx) AND 255))
     [0..<8]"

definition sha1_final :: "sha_ctx \<Rightarrow> (byte list \<times> sha_ctx) option" where
  "sha1_final ctx = do {
     let finalcount = final_count ctx;
     (ctx, _) \<leftarrow> sha1_update ctx [0x80] 1;
     ctx \<leftarrow> pad_loop ctx;
     (ctx, _) \<leftarrow> sha1_update ctx finalcount 8;
     let digest = map (\<lambda>i. ucast (drop_bit ((3 - i mod 4) * 8) (sha_state ctx ! (i div 4)) AND 255)) [0..<20];
     Some (digest, ctx\<lparr>sha_state := replicate 5 0, count0 := 0, count1 := 0, sha_buffer := replicate 64 0\<rparr>) }"

section \<open>One block\<close>

lemma u32_eq_iff: "(x :: u32) = y \<longleftrightarrow> (\<forall>k<32. bit x k = bit y k)"
  by (auto simp: bit_eq_iff dest: bit_imp_le_length)

lemma all_less_32: "(\<forall>k<32. P (k::nat)) \<longleftrightarrow> (\<forall>k<8. P k) \<and> (\<forall>k<8. P (k + 8)) \<and> (\<forall>k<8. P (k + 16)) \<and> (\<forall>k<8. P (k + 24))"
proof safe
  fix k :: nat
  assume *: "\<forall>k<8. P k" "\<forall>k<8. P (k + 8)" "\<forall>k<8. P (k + 16)" "\<forall>k<8. P (k + 24)" "k < 32"
  consider "k < 8" | "k - 8 < 8" "8 \<le> k" | "k - 16 < 8" "16 \<le> k" | "k - 24 < 8" "24 \<le> k"
    using *(5) by linarith
  then show "P k"
  proof cases
    case 2 with *(2) show ?thesis by (metis le_add_diff_inverse2)
  next
    case 3 with *(3) show ?thesis by (metis le_add_diff_inverse2)
  next
    case 4 with *(4) show ?thesis by (metis le_add_diff_inverse2)
  qed (use * in blast)
qed auto

lemma byte_bit_high: "8 \<le> n \<Longrightarrow> \<not> bit (x :: byte) n"
  by (auto dest: bit_imp_le_length)

lemma swap_le32:
  "(rol (le32 a b c d) 24 AND 0xFF00FF00) OR (rol (le32 a b c d) 8 AND 0x00FF00FF) = be32 a b c d"
  unfolding u32_eq_iff all_less_32 all_less_8
  by (simp add: rol_def le32_def be32_def bit_simps byte_bit_high)

lemma choice_eq: "((w AND (x XOR y)) XOR y) = (w AND x) OR (NOT w AND (y :: u32))"
  by (rule bit_eqI) (auto simp: bit_simps)

lemma majority_eq: "((w OR x) AND y) OR (w AND x) = (w AND x) OR (w AND y) OR (x AND (y :: u32))"
  by (rule bit_eqI) (auto simp: bit_simps)

text \<open>The block as it is loaded, and the block of the specification.\<close>

lemma quads_length:
  "length bs = 4 * n \<Longrightarrow> length (le_quads bs) = n \<and> length (be_quads bs) = n"
proof (induction n arbitrary: bs)
  case (Suc n)
  then obtain a b c d r where "bs = a # b # c # d # r" "length r = 4 * n"
    by (auto simp: length_Suc_conv numeral_eq_Suc)
  with Suc.IH show ?case by simp
qed simp

lemma quads_nth:
  "length bs = 4 * n \<Longrightarrow> i < n \<Longrightarrow>
   (rol (le_quads bs ! i) 24 AND 0xFF00FF00) OR (rol (le_quads bs ! i) 8 AND 0x00FF00FF) = be_quads bs ! i"
proof (induction n arbitrary: bs i)
  case (Suc n)
  then obtain a b c d r where "bs = a # b # c # d # r" "length r = 4 * n"
    by (auto simp: length_Suc_conv numeral_eq_Suc)
  with Suc show ?case by (cases i) (auto simp: swap_le32)
qed simp

text \<open>After \<open>t\<close> calls the block holds the last 16 words of the schedule, word \<open>s\<close> at \<open>s mod 16\<close>.\<close>

definition window :: "byte list \<Rightarrow> nat \<Rightarrow> u32 list \<Rightarrow> bool" where
  "window bs t l \<longleftrightarrow> length l = 16 \<and>
     (\<forall>s. s < t \<and> t \<le> s + 16 \<longrightarrow> l ! (s mod 16) = schedule (be_quads bs) s) \<and>
     (\<forall>s<16. t \<le> s \<longrightarrow> l ! s = le_quads bs ! s)"

lemma window_0: "length bs = 64 \<Longrightarrow> window bs 0 (le_quads bs)"
  using quads_length [of bs 16] by (simp add: window_def)

lemma window_update:
  assumes "window bs t l" and "l' = l[t mod 16 := schedule (be_quads bs) t]"
  shows "window bs (Suc t) l'"
proof -
  have l: "length l = 16" "\<And>s. s < t \<Longrightarrow> t \<le> s + 16 \<Longrightarrow> l ! (s mod 16) = schedule (be_quads bs) s"
    "\<And>s. s < 16 \<Longrightarrow> t \<le> s \<Longrightarrow> l ! s = le_quads bs ! s"
    using assms(1) by (auto simp: window_def)
  have "l' ! (s mod 16) = schedule (be_quads bs) s" if "s < Suc t" "Suc t \<le> s + 16" for s
  proof (cases "s = t")
    case False
    with that have "s < t" "t - s < 16" "0 < t - s" by linarith+
    have "t mod 16 \<noteq> s mod 16"
    proof
      assume "t mod 16 = s mod 16"
      then have "16 dvd t - s" using \<open>s < t\<close> by (metis less_imp_le_nat mod_eq_dvd_iff_nat)
      then show False using \<open>t - s < 16\<close> \<open>0 < t - s\<close> by (auto dest: dvd_imp_le)
    qed
    with l(2) [of s] \<open>s < t\<close> that show ?thesis by (simp add: assms(2))
  qed (simp add: assms(2) l(1))
  moreover have "l' ! s = le_quads bs ! s" if "s < 16" "Suc t \<le> s" for s
    using l(3) [of s] that by (simp add: assms(2))
  ultimately show ?thesis by (simp add: window_def assms(2) l(1))
qed

lemma blk0_window:
  assumes "window bs t l" and "t < 16" and "length bs = 64"
  shows "\<exists>l'. blk0 l t = (schedule (be_quads bs) t, l') \<and> window bs (Suc t) l'"
proof -
  have "l ! t = le_quads bs ! t" using assms(1,2) by (simp add: window_def)
  then have "blk0 l t = (schedule (be_quads bs) t, l[t mod 16 := schedule (be_quads bs) t])"
    using quads_nth [of bs 16 t] assms(2,3) by (simp add: blk0_def Let_def schedule.simps [of _ t])
  with window_update [OF assms(1) refl] show ?thesis by simp
qed

lemma blk_window:
  assumes "window bs t l" and "16 \<le> t"
  shows "\<exists>l'. blk l t = (schedule (be_quads bs) t, l') \<and> window bs (Suc t) l'"
proof -
  have w: "l ! (s mod 16) = schedule (be_quads bs) s" if "s < t" "t \<le> s + 16" for s
    using assms(1) that by (simp add: window_def)
  have e: "(t + (16 - k)) mod 16 = (t - k) mod 16" if "k \<le> 16" for k
  proof -
    have "t + (16 - k) = t - k + 16" using assms(2) that by simp
    then show ?thesis by (simp only: mod_add_self2)
  qed
  have m: "(t + 13) mod 16 = (t - 3) mod 16" "(t + 8) mod 16 = (t - 8) mod 16"
    "(t + 2) mod 16 = (t - 14) mod 16"
    using e [of 3] e [of 8] e [of 14] by simp_all
  have m16: "l ! (t mod 16) = schedule (be_quads bs) (t - 16)"
    using w [of "t - 16"] e [of 16] assms(2) by simp
  have "blk l t = (schedule (be_quads bs) t, l[t mod 16 := schedule (be_quads bs) t])"
    using assms(2) w [of "t - 3"] w [of "t - 8"] w [of "t - 14"]
    unfolding blk_def m m16 Let_def by (simp add: schedule.simps [of _ t])
  with window_update [OF assms(1) refl] show ?thesis by simp
qed

text \<open>The variables in the order in which round \<open>t\<close> of the specification names them.\<close>

definition rotated :: "nat \<Rightarrow> u32 list \<Rightarrow> sha_vars" where
  "rotated t r = (r ! (4 * t mod 5), r ! ((4 * t + 1) mod 5), r ! ((4 * t + 2) mod 5),
     r ! ((4 * t + 3) mod 5), r ! ((4 * t + 4) mod 5))"

definition call_regs :: "nat \<Rightarrow> u32 \<Rightarrow> u32 list \<Rightarrow> u32 list" where
  "call_regs i k r = (let p = (\<lambda>k. (4 * i + k) mod 5);
     r = r[p 4 := r ! p 4 + (sha_f i (r ! p 1) (r ! p 2) (r ! p 3) + k + sha_k i + rol (r ! p 0) 5)]
     in r[p 1 := rol (r ! p 1) 30])"

lemma list_of_5: "length r = 5 \<Longrightarrow> \<exists>a b c d e. r = [a, b, c, d, e]"
  by (auto simp: length_Suc_conv numeral_eq_Suc)

lemma mod5: "(4 * (5 * q + j) + k) mod 5 = (4 * j + k) mod (5 :: nat)"
proof -
  have "4 * (5 * q + j) + k = (4 * j + k) + 5 * (4 * q)" by simp
  then show ?thesis by (simp only: mod_mult_self2)
qed

lemma call_regs_rotated:
  assumes "length r = 5"
  shows "length (call_regs i (w i) r) = 5 \<and> rotated (Suc i) (call_regs i (w i) r) = spec_round w i (rotated i r)"
proof -
  obtain a b c d e where r: "r = [a, b, c, d, e]" using list_of_5 [OF assms] by blast
  define q j where qj: "q = i div 5" "j = i mod 5"
  have i: "i = 5 * q + j" and j: "j < 5" by (simp_all add: qj)
  have p: "(4 * i + k) mod 5 = (4 * j + k) mod 5" "4 * i mod 5 = 4 * j mod 5"
    "(4 * Suc i + k) mod 5 = (4 * j + (4 + k)) mod 5" "4 * Suc i mod 5 = (4 * j + 4) mod 5" for k
    using mod5 [of q j k] mod5 [of q j 0] mod5 [of q j "4 + k"] mod5 [of q j 4]
    by (simp_all add: i [symmetric] add.assoc add.left_commute add.commute [of 4])
  define W F K where "W = w i" "F = sha_f i" "K = sha_k i"
  have A: "call_regs i (w i) r = (let r = r[(4 * j + 4) mod 5 := r ! ((4 * j + 4) mod 5) +
      (F (r ! ((4 * j + 1) mod 5)) (r ! ((4 * j + 2) mod 5)) (r ! ((4 * j + 3) mod 5)) + W + K +
       rol (r ! (4 * j mod 5)) 5)] in r[(4 * j + 1) mod 5 := rol (r ! ((4 * j + 1) mod 5)) 30])"
    using p(1) [of 0] unfolding call_regs_def Let_def p W_F_K_def by simp
  have B: "spec_round w i v = (case v of (a, b, c, d, e) \<Rightarrow> (rol a 5 + F b c d + e + K + W, a, rol b 30, c, d))" for v
    by (simp add: spec_round_def W_F_K_def split: prod.splits)
  consider "j = 0" | "j = 1" | "j = 2" | "j = 3" | "j = 4" using j by linarith
  then show ?thesis
    unfolding rotated_def p A B by cases (simp_all add: r Let_def ac_simps)
qed

lemma sha_call_window:
  assumes "window bs t l" and "length bs = 64"
  shows "\<exists>l'. sha_call t (r, l) = (call_regs t (schedule (be_quads bs) t) r, l') \<and> window bs (Suc t) l'"
proof (cases "t < 16")
  case True
  with blk0_window [OF assms(1) True assms(2)] show ?thesis
    by (auto simp: sha_call_def R0_def call_regs_def sha_f_def sha_k_def choice_eq Let_def)
next
  case False
  then have "16 \<le> t" by simp
  from blk_window [OF assms(1) this] obtain l' where
    l': "blk l t = (schedule (be_quads bs) t, l')" "window bs (Suc t) l'" by blast
  consider "t < 20" | "\<not> t < 20" "t < 40" | "\<not> t < 40" "t < 60" | "\<not> t < 60" by linarith
  then have "sha_call t (r, l) = (call_regs t (schedule (be_quads bs) t) r, l')"
  proof cases
    case 1
    then show ?thesis using False l'(1)
      by (simp add: sha_call_def R1_def call_regs_def sha_f_def sha_k_def choice_eq Let_def)
  next
    case 2
    then show ?thesis using l'(1)
      by (simp add: sha_call_def R2_def call_regs_def sha_f_def sha_k_def Let_def)
  next
    case 3
    then show ?thesis using l'(1)
      by (simp add: sha_call_def R3_def call_regs_def sha_f_def sha_k_def majority_eq Let_def)
  next
    case 4
    then show ?thesis using l'(1)
      by (simp add: sha_call_def R4_def call_regs_def sha_f_def sha_k_def Let_def)
  qed
  with l'(2) show ?thesis by blast
qed

lemma fold_calls:
  assumes "length bs = 64" and "length st = 5"
  shows "\<exists>r l. fold sha_call [0..<n] (st, le_quads bs) = (r, l) \<and> window bs n l \<and> length r = 5 \<and>
    rotated n r = fold (spec_round (schedule (be_quads bs))) [0..<n] (rotated 0 st)"
proof (induction n)
  case 0
  then show ?case using assms by (simp add: window_0)
next
  case (Suc n)
  then obtain r l where "fold sha_call [0..<n] (st, le_quads bs) = (r, l)" "window bs n l" "length r = 5"
    "rotated n r = fold (spec_round (schedule (be_quads bs))) [0..<n] (rotated 0 st)" by blast
  with sha_call_window [of bs n l r] assms(1) call_regs_rotated [of r n "schedule (be_quads bs)"]
  show ?case by auto
qed

definition vars_list :: "sha_vars \<Rightarrow> u32 list" where
  "vars_list = (\<lambda>(a, b, c, d, e). [a, b, c, d, e])"

lemma length_vars_list [simp]: "length (vars_list h) = 5"
  by (simp add: vars_list_def split: prod.splits)

lemma rotated_vars_list [simp]: "rotated 0 (vars_list h) = h" "length r = 5 \<Longrightarrow> vars_list (rotated 80 r) = r"
  by (auto simp: rotated_def vars_list_def dest!: list_of_5 split: prod.splits)

lemma sha1_transform_spec:
  assumes "length bs = 64"
  shows "\<exists>bs'. sha1_transform (vars_list h) bs = (vars_list (spec_block h bs), bs') \<and> length bs' = 64"
proof -
  from fold_calls [OF assms, of "vars_list h" 80] obtain r l where
    f: "fold sha_call [0..<80] (vars_list h, le_quads bs) = (r, l)" "length l = 16" "length r = 5"
      "rotated 80 r = fold (spec_round (schedule (be_quads bs))) [0..<80] h" by (auto simp: window_def)
  have "vars_list (spec_block h bs) = map2 (+) (vars_list h) r"
    using rotated_vars_list(2) [OF f(3)]
    by (auto simp: spec_block_def f(4) [symmetric] vars_list_def split: prod.splits)
  moreover have "length (concat (map le_quad_bytes l)) = 4 * length l"
    by (induction l) (simp_all add: le_quad_bytes_def)
  ultimately show ?thesis using f by (simp add: sha1_transform_def)
qed

text \<open>What hashing a block leaves in it.\<close>

lemma window_80: "window bs 80 l \<Longrightarrow> l = map (schedule (be_quads bs)) [64..<80]"
  unfolding window_def
proof (elim conjE, rule nth_equalityI)
  fix i
  assume l: "length l = 16" "\<forall>s. s < 80 \<and> 80 \<le> s + 16 \<longrightarrow> l ! (s mod 16) = schedule (be_quads bs) s" "i < length l"
  have "(64 + i) mod 16 = i" using l(1,3) mod_mult_self3 [of 4 16 i] by simp
  then show "l ! i = map (schedule (be_quads bs)) [64..<80] ! i"
    using l(1,3) l(2) [rule_format, of "64 + i"] by (simp del: upt_rec_numeral)
qed simp

lemma sha1_transform_eq:
  assumes "length bs = 64"
  shows "sha1_transform (vars_list h) bs = (vars_list (spec_block h bs),
    concat (map (\<lambda>t. le_quad_bytes (schedule (be_quads bs) t)) [64..<80]))"
proof -
  from fold_calls [OF assms, of "vars_list h" 80] obtain r l where
    f: "fold sha_call [0..<80] (vars_list h, le_quads bs) = (r, l)" "window bs 80 l" by auto
  from sha1_transform_spec [OF assms, of h] have "fst (sha1_transform (vars_list h) bs) = vars_list (spec_block h bs)"
    by auto
  moreover have "snd (sha1_transform (vars_list h) bs) = concat (map le_quad_bytes l)"
    using f(1) by (simp add: sha1_transform_def)
  ultimately show ?thesis by (simp add: window_80 [OF f(2)] prod_eq_iff comp_def)
qed

text \<open>
  \<open>SHA1_Transform\<close> on any 64-byte block adds to the state exactly the 80 rounds of FIPS 180-4 over
  the big-endian words of the block, although it runs them with the schedule kept in a window of 16
  words inside the block; and it leaves in the caller's block not the input but the last 16 words of
  the schedule.
\<close>

theorem sha1_transform_correct:
  assumes "length bs = 64" and "length st = 5"
  shows "sha1_transform st bs = (vars_list (spec_block (rotated 0 st) bs),
    concat (map (\<lambda>t. le_quad_bytes (schedule (be_quads bs) t)) [64..<80]))"
proof -
  obtain a b c d e where "st = [a, b, c, d, e]" using list_of_5 [OF assms(2)] by blast
  then have "vars_list (rotated 0 st) = st" by (simp add: rotated_def vars_list_def)
  with sha1_transform_eq [OF assms(1), of "rotated 0 st"] show ?thesis by simp
qed

theorem sha1_transform_correct_witness:
  "fst (sha1_transform [1, 2, 3, 4, 5] (replicate 64 7)) =
    vars_list (spec_block (1, 2, 3, 4, 5) (replicate 64 7))"
  by (simp add: sha1_transform_correct rotated_def)

end
