(* ===== verification/Cp_Sha_Stream.thy ===== *)
theory Cp_Sha_Stream
  imports Cp_Sha
begin

text \<open>
  The streaming interface of \<open>hmac/sha.c\<close> computes the hash of the concatenation of what it was
  fed. \<open>sha_ok ctx m\<close> says that a context has taken in the message \<open>m\<close>: the state is that of the
  complete blocks of \<open>m\<close>, the buffer starts with what is left of it, and the two counter words are
  the 64-bit number of its bits.
\<close>

definition sha_ok :: "sha_ctx \<Rightarrow> byte list \<Rightarrow> bool" where
  "sha_ok ctx m \<longleftrightarrow> sha_state ctx = vars_list (sha_blocks sha_h0 m) \<and> length (sha_buffer ctx) = 64 \<and>
     take (length m mod 64) (sha_buffer ctx) = drop (64 * (length m div 64)) m \<and>
     count0 ctx = of_nat (8 * length m) \<and> count1 ctx = of_nat (8 * length m div 2 ^ 32)"

lemma sha_ok_init: "length (sha_buffer ctx) = 64 \<Longrightarrow> sha_ok (sha1_init ctx) []"
  by (simp add: sha_ok_def sha1_init_def vars_list_def sha_h0_def)

subsection \<open>The counter\<close>

lemma unat_of_nat_32: "unat (of_nat n :: u32) = n mod 2 ^ 32"
  by (simp add: unsigned_of_nat take_bit_eq_mod)

lemma fill_level: "unat (drop_bit 3 (of_nat (8 * n) :: u32) AND 63) = n mod 64"
proof -
  have "x AND 63 = x mod 64" for x :: u32
  proof -
    have "x AND 63 = take_bit 6 x" by (simp add: take_bit_eq_mask mask_eq_exp_minus_1)
    then show ?thesis by (simp add: take_bit_eq_mod)
  qed
  then have "unat (drop_bit 3 (of_nat (8 * n) :: u32) AND 63) = (8 * n mod 2 ^ 32 div 8) mod 64"
    by (simp add: drop_bit_eq_div unat_div unat_mod unat_of_nat_32 del: of_nat_mult)
  also have "8 * n mod 2 ^ 32 div 8 = n mod 2 ^ 29"
    using mult_mod_right [of 8 n "2 ^ 29 :: nat"] by simp
  also have "n mod 2 ^ 29 mod 64 = n mod 64"
    by (rule mod_mod_cancel) simp
  finally show ?thesis .
qed

lemma sum_of_mods:
  fixes a b M :: nat
  assumes "0 < M"
  shows "(a mod M + b mod M) div M = (if M \<le> a mod M + b mod M then 1 else 0)"
    and "(a mod M + b mod M) mod M = (if M \<le> a mod M + b mod M then a mod M + b mod M - M else a mod M + b mod M)"
proof -
  define s where "s = a mod M + b mod M"
  have "a mod M < M" "b mod M < M" using assms by simp_all
  then have "s - M < M" unfolding s_def by linarith
  then have "s div M = (if M \<le> s then 1 else 0)" "s mod M = (if M \<le> s then s - M else s)"
    using assms by (auto simp: le_div_geq le_mod_geq)
  then show "(a mod M + b mod M) div M = (if M \<le> a mod M + b mod M then 1 else 0)"
    "(a mod M + b mod M) mod M = (if M \<le> a mod M + b mod M then a mod M + b mod M - M else a mod M + b mod M)"
    by (simp_all only: s_def)
qed

lemma add_carry:
  fixes a b M :: nat
  assumes "0 < M"
  shows "(a + b) mod M < b mod M \<longleftrightarrow> M \<le> a mod M + b mod M"
proof -
  have "a mod M < M" "b mod M < M" using assms by simp_all
  moreover have "(a + b) mod M = (if M \<le> a mod M + b mod M then a mod M + b mod M - M else a mod M + b mod M)"
    unfolding sum_of_mods(2) [OF assms, symmetric] by (simp only: mod_add_eq)
  ultimately show ?thesis by (simp only: split: if_split) linarith
qed

lemma add_div_carry:
  fixes a b M :: nat
  assumes "0 < M"
  shows "(a + b) div M = a div M + b div M + (if M \<le> a mod M + b mod M then 1 else 0)"
  using div_add1_eq [of a b M] sum_of_mods(1) [OF assms, of a b] by simp

lemma counter_step:
  fixes len :: u32 and n :: nat
  defines "c0 \<equiv> of_nat (8 * n) + push_bit 3 len"
  shows "c0 = of_nat (8 * (n + unat len))"
    and "(if c0 < push_bit 3 len then of_nat (8 * n div 2 ^ 32) + 1 else of_nat (8 * n div 2 ^ 32)) +
      drop_bit 29 len = (of_nat (8 * (n + unat len) div 2 ^ 32) :: u32)"
proof -
  define L where "L = unat len"
  have len: "len = of_nat L" by (simp add: L_def)
  have p: "push_bit 3 len = (of_nat (8 * L) :: u32)" by (simp add: len push_bit_eq_mult)
  show c0: "c0 = of_nat (8 * (n + unat len))" by (simp add: c0_def p L_def [symmetric] algebra_simps)
  have d: "drop_bit 29 len = (of_nat (L div 2 ^ 29) :: u32)"
  proof -
    have "unat (drop_bit 29 len) = L div 2 ^ 29" by (simp add: drop_bit_eq_div unat_div L_def)
    moreover have "L div 2 ^ 29 < 2 ^ 32"
      using unsigned_less [where ?'a = nat, of len] by (simp add: L_def div_less_dividend le_less_trans)
    ultimately show ?thesis by (simp only: word_unat_eq_iff unat_of_nat_32 mod_less)
  qed
  have "c0 < push_bit 3 len \<longleftrightarrow> (8 * n + 8 * L) mod 2 ^ 32 < 8 * L mod 2 ^ 32"
    unfolding p c0 word_less_nat_alt unat_of_nat_32 by (simp add: L_def algebra_simps)
  then have "c0 < push_bit 3 len \<longleftrightarrow> 2 ^ 32 \<le> 8 * n mod 2 ^ 32 + 8 * L mod 2 ^ 32"
    using add_carry [of "2 ^ 32" "8 * n" "8 * L"] by simp
  moreover have "8 * (n + L) div 2 ^ 32 = 8 * n div 2 ^ 32 + 8 * L div 2 ^ 32 +
      (if 2 ^ 32 \<le> 8 * n mod 2 ^ 32 + 8 * L mod 2 ^ 32 then 1 else 0)"
    using add_div_carry [of "2 ^ 32" "8 * n" "8 * L"] by (simp add: algebra_simps)
  moreover have "8 * L div 2 ^ 32 = L div 2 ^ 29"
    using div_mult_mult1 [of 8 L "2 ^ 29"] by simp
  ultimately show "(if c0 < push_bit 3 len then of_nat (8 * n div 2 ^ 32) + 1 else of_nat (8 * n div 2 ^ 32)) +
      drop_bit 29 len = (of_nat (8 * (n + unat len) div 2 ^ 32) :: u32)"
    by (simp add: d L_def [symmetric])
qed

subsection \<open>Update\<close>

lemma update_loop_blocks:
  assumes "unat i \<le> unat len" and "unat len + 63 < 2 ^ 32" and "unat len \<le> length data"
  shows "\<exists>data' i'. update_loop (vars_list h) data i len =
      Some (vars_list (sha_blocks h (take (unat i' - unat i) (drop (unat i) data))), data', i') \<and>
    unat i \<le> unat i' \<and> unat i' \<le> unat len \<and> unat len - unat i' < 64 \<and> 64 dvd unat i' - unat i \<and>
    length data' = length data \<and> take (unat i) data' = take (unat i) data \<and>
    drop (unat i') data' = drop (unat i') data \<and> (unat len - unat i < 64 \<longrightarrow> data' = data)"
  using assms
proof (induction "unat len - unat i" arbitrary: i h data rule: less_induct)
  case less
  have lt: "i + 63 < len \<longleftrightarrow> unat i + 63 < unat len"
    using less.prems(1,2) by (simp add: word_less_nat_alt unat_word_ariths)
  show ?case
  proof (cases "unat i + 63 < unat len")
    case False
    with less.prems lt show ?thesis
      by (subst update_loop.simps) (auto intro!: exI [of _ data] exI [of _ i])
  next
    case True
    define n where "n = unat i"
    define b where "b = take 64 (drop n data)"
    have lb: "length b = 64" using True less.prems(3) by (simp add: b_def n_def)
    have rd: "rdn data (unat i) 64 = Some b" using True less.prems(3) by (simp add: rdn_def b_def n_def)
    obtain b' where t: "sha1_transform (vars_list h) b = (vars_list (spec_block h b), b')" "length b' = 64"
      using sha1_transform_spec [OF lb] by blast
    define data1 where "data1 = take n data @ b' @ drop (n + 64) data"
    have i64: "unat (i + 64) = n + 64" using True less.prems(2) by (simp add: unat_word_ariths n_def)
    have d1: "length data1 = length data" "drop (n + 64) data1 = drop (n + 64) data" "take n data1 = take n data"
      using True less.prems(3) t(2) by (simp_all add: data1_def n_def)
    have pre: "unat len - unat (i + 64) < unat len - unat i" "unat (i + 64) \<le> unat len"
      "unat len \<le> length data1" using True less.prems(3) i64 d1(1) by (simp_all add: n_def)
    from less.hyps [OF pre(1,2) less.prems(2) pre(3), of "spec_block h b"] obtain data' i' where
      r: "update_loop (vars_list (spec_block h b)) data1 (i + 64) len = Some
          (vars_list (sha_blocks (spec_block h b) (take (unat i' - (n + 64)) (drop (n + 64) data))), data', i')"
        "n + 64 \<le> unat i'" "unat i' \<le> unat len" "unat len - unat i' < 64" "64 dvd unat i' - (n + 64)"
        "length data' = length data" "take (n + 64) data' = take (n + 64) data1" "drop (unat i') data' = drop (unat i') data1"
      unfolding i64 d1(1,2) by blast
    have "update_loop (vars_list h) data i len = update_loop (vars_list (spec_block h b)) data1 (i + 64) len"
      using rd t(1) lt True by (subst update_loop.simps) (simp add: data1_def n_def)
    moreover have "take (unat i' - n) (drop n data) = b @ take (unat i' - (n + 64)) (drop (n + 64) data)"
    proof -
      have "unat i' - n = 64 + (unat i' - (n + 64))" using r(2) by simp
      then show ?thesis by (simp only: take_add b_def drop_drop add.commute)
    qed
    moreover have "64 dvd unat i' - n"
    proof -
      have "unat i' - n = (unat i' - (n + 64)) + 64" using r(2) by simp
      with r(5) show ?thesis by (simp only: dvd_add_triv_right_iff)
    qed
    moreover have "take n data' = take n data"
      using arg_cong [OF r(7), of "take n"] d1(3) by simp
    moreover have "drop (unat i') data' = drop (unat i') data"
    proof -
      have "drop (unat i') data1 = drop (unat i' - (n + 64)) (drop (n + 64) data1)" using r(2) by simp
      also have "\<dots> = drop (unat i') data" using r(2) d1(2) by simp
      finally show ?thesis using r(8) by simp
    qed
    moreover have "\<not> unat len - unat i < 64" using True by simp
    ultimately show ?thesis
      using r(1-4,6) sha_blocks_block [OF lb, of h]
      by (intro exI [of _ data'] exI [of _ i']) (simp add: n_def [symmetric])
  qed
qed

lemma sha_ok_iff:
  assumes "64 dvd length big" and "length rest < 64"
  shows "sha_ok ctx (big @ rest) \<longleftrightarrow> sha_state ctx = vars_list (sha_blocks sha_h0 big) \<and>
    length (sha_buffer ctx) = 64 \<and> take (length rest) (sha_buffer ctx) = rest \<and>
    count0 ctx = of_nat (8 * length (big @ rest)) \<and> count1 ctx = of_nat (8 * length (big @ rest) div 2 ^ 32)"
proof -
  obtain k where k: "length big = 64 * k" using assms(1) by blast
  have "length (big @ rest) mod 64 = length rest" "length (big @ rest) div 64 = k"
    using assms(2) by (simp_all add: k)
  moreover have "sha_blocks sha_h0 (big @ rest) = sha_blocks sha_h0 big"
    using sha_blocks_append [OF assms(1), of sha_h0 rest] assms(2) by simp
  ultimately show ?thesis by (simp add: sha_ok_def k)
qed

lemma split_message: "\<exists>big rest. m = big @ rest \<and> 64 dvd length big \<and> length rest < 64 \<and> length rest = length m mod 64"
proof (intro exI conjI)
  let ?k = "64 * (length m div 64)"
  have "?k \<le> length m" by simp
  show "m = take ?k m @ drop ?k m" by simp
  show "64 dvd length (take ?k m)" using \<open>?k \<le> length m\<close> by (simp only: length_take min_absorb2) simp
  have "length (drop ?k m) = length m mod 64" by (simp only: length_drop minus_mult_div_eq_mod)
  then show "length (drop ?k m) < 64" "length (drop ?k m) = length m mod 64" by simp_all
qed

lemma memcpy_at_in:
  "j + n \<le> length dst \<Longrightarrow> i + n \<le> length src \<Longrightarrow>
   memcpy_at dst j src i n = Some (take j dst @ take n (drop i src) @ drop (j + n) dst)"
  by (simp add: memcpy_at_def rdn_def)

lemma sha1_update_ok:
  assumes "sha_ok ctx m" and "unat len \<le> length data" and "unat len + 127 < 2 ^ 32"
  shows "\<exists>ctx' data'. sha1_update ctx data len = Some (ctx', data') \<and> sha_ok ctx' (m @ take (unat len) data) \<and>
    length data' = length data \<and> (length m mod 64 + unat len < 128 \<longrightarrow> data' = data)"
proof -
  define n L where nL: "n = length m" "L = unat len"
  obtain big rest where m: "m = big @ rest" "64 dvd length big" "length rest < 64" "length rest = n mod 64"
    using split_message [of m] nL by blast
  have ok: "sha_state ctx = vars_list (sha_blocks sha_h0 big)" "length (sha_buffer ctx) = 64"
    "take (length rest) (sha_buffer ctx) = rest" "count0 ctx = of_nat (8 * n)" "count1 ctx = of_nat (8 * n div 2 ^ 32)"
    using assms(1) unfolding m(1) sha_ok_iff [OF m(2,3)] by (simp_all add: nL m(1))
  define j where "j = drop_bit 3 (count0 ctx) AND 63"
  have j: "unat j = length rest" using fill_level [of n] by (simp add: j_def ok(4) m(4))
  define c0 c1 where c: "c0 = count0 ctx + push_bit 3 len"
    "c1 = (if c0 < push_bit 3 len then count1 ctx + 1 else count1 ctx) + drop_bit 29 len"
  have cs: "c0 = of_nat (8 * length (m @ take L data))" "c1 = of_nat (8 * length (m @ take L data) div 2 ^ 32)"
  proof -
    have e: "length (m @ take L data) = n + unat len" using assms(2) by (simp add: nL)
    show "c0 = of_nat (8 * length (m @ take L data))"
      unfolding e c ok(4) by (rule counter_step(1))
    show "c1 = of_nat (8 * length (m @ take L data) div 2 ^ 32)"
      unfolding e c ok(4,5) by (rule counter_step(2))
  qed
  define ctx1 where "ctx1 = ctx\<lparr>count0 := c0, count1 := c1\<rparr>"
  have over: "j + len > 63 \<longleftrightarrow> 63 < length rest + L"
    using assms(3) m(3) j by (simp add: word_less_nat_alt unat_word_ariths nL)
  have upd: "sha1_update ctx data len = (if j + len > 63 then do {
        buf \<leftarrow> memcpy_at (sha_buffer ctx) (unat j) data 0 (unat (64 - j));
        (case sha1_transform (sha_state ctx) buf of (st, buf) \<Rightarrow> do {
          (st, data, i) \<leftarrow> update_loop st data (64 - j) len;
          buf \<leftarrow> memcpy_at buf 0 data (unat i) (unat (len - i));
          Some (ctx1\<lparr>sha_state := st, sha_buffer := buf\<rparr>, data) }) }
      else do {
        buf \<leftarrow> memcpy_at (sha_buffer ctx) (unat j) data 0 (unat len);
        Some (ctx1\<lparr>sha_buffer := buf\<rparr>, data) })"
    by (simp add: sha1_update_def j_def ctx1_def c Let_def)
  show ?thesis
  proof (cases "63 < length rest + L")
    case False
    have "memcpy_at (sha_buffer ctx) (unat j) data 0 (unat len) =
        Some (rest @ take L data @ drop (length rest + L) (sha_buffer ctx))"
      using memcpy_at_in [of "unat j" "unat len" "sha_buffer ctx" 0 data] False assms(2) ok(2,3) j by (simp add: nL)
    moreover have "sha_ok (ctx1\<lparr>sha_buffer := rest @ take L data @ drop (length rest + L) (sha_buffer ctx)\<rparr>)
        (big @ (rest @ take L data))"
      using False assms(2) ok(1,2) cs
      by (subst sha_ok_iff [OF m(2)]) (simp_all add: ctx1_def m(1) nL)
    ultimately show ?thesis using False over upd by (simp add: nL m(1))
  next
    case True
    define k where "k = 64 - length rest"
    have k: "unat (64 - j) = k" "length rest + k = 64" "k \<le> L"
      using m(3) j True by (simp_all add: k_def unat_sub word_le_nat_alt)
    define first where "first = rest @ take k data"
    have lf: "length first = 64" using k assms(2) by (simp add: first_def nL)
    have c1: "memcpy_at (sha_buffer ctx) (unat j) data 0 (unat (64 - j)) = Some first"
      using memcpy_at_in [of "unat j" k "sha_buffer ctx" 0 data] k assms(2) ok(2,3) j by (simp add: first_def nL)
    obtain buf where t: "sha1_transform (sha_state ctx) first = (vars_list (spec_block (sha_blocks sha_h0 big) first), buf)"
      "length buf = 64" using sha1_transform_spec [OF lf] ok(1) by metis
    obtain data' i where l: "update_loop (vars_list (spec_block (sha_blocks sha_h0 big) first)) data (64 - j) len =
        Some (vars_list (sha_blocks (spec_block (sha_blocks sha_h0 big) first) (take (unat i - k) (drop k data))), data', i)"
      "k \<le> unat i" "unat i \<le> L" "L - unat i < 64" "64 dvd unat i - k" "length data' = length data"
      "drop (unat i) data' = drop (unat i) data" "L - k < 64 \<longrightarrow> data' = data"
      using update_loop_blocks [of "64 - j" len data "spec_block (sha_blocks sha_h0 big) first"] k assms(2,3)
      unfolding k(1) nL(2) [symmetric] by auto
    define mid last where ml: "mid = take (unat i - k) (drop k data)" "last = take (L - unat i) (drop (unat i) data)"
    have ll: "length last = L - unat i" using assms(2) l(3) by (simp add: ml nL)
    have lm: "length mid = unat i - k" using assms(2) l(2,3) by (simp add: ml nL)
    have tL: "take L data = take k data @ mid @ last"
    proof -
      have "L = k + ((unat i - k) + (L - unat i))" using l(2,3) by simp
      then have "take L data = take (k + ((unat i - k) + (L - unat i))) data" by simp
      also have "\<dots> = take k data @ take (unat i - k) (drop k data) @
          take (L - unat i) (drop (unat i - k) (drop k data))" by (simp only: take_add)
      also have "drop (unat i - k) (drop k data) = drop (unat i) data" using l(2) by simp
      finally have "take L data = take k data @ mid @ last" unfolding ml .
      then show ?thesis .
    qed
    have "unat (len - i) = L - unat i" using l(3) by (simp add: unat_sub word_le_nat_alt nL)
    then have c2: "memcpy_at buf 0 data' (unat i) (unat (len - i)) = Some (last @ drop (L - unat i) buf)"
      using memcpy_at_in [of 0 "L - unat i" buf "unat i" data'] t(2) l(3,4,6,7) assms(2) by (simp add: ml nL)
    define ctx2 where "ctx2 = ctx1\<lparr>sha_state := vars_list (sha_blocks (spec_block (sha_blocks sha_h0 big) first) mid),
      sha_buffer := last @ drop (L - unat i) buf\<rparr>"
    have whole: "sha_blocks sha_h0 (big @ first @ mid) = sha_blocks (spec_block (sha_blocks sha_h0 big) first) mid"
      using sha_blocks_append [OF m(2)] sha_blocks_block [OF lf] by simp
    have d64: "64 dvd length (big @ first @ mid)" using m(2) lf lm l(5) by simp
    have mcat: "m @ take L data = (big @ first @ mid) @ last" by (simp add: m(1) tL first_def)
    have "sha_ok ctx2 ((big @ first @ mid) @ last)"
      using l(3,4) t(2) ll cs unfolding mcat
      by (subst sha_ok_iff [OF d64]) (simp_all add: ctx2_def ctx1_def whole [simplified] mcat)
    moreover have "sha1_update ctx data len = Some (ctx2, data')"
      using True over upd c1 t(1) l(1) c2 by (simp add: ctx2_def ml)
    moreover have "length m mod 64 + unat len < 128 \<longrightarrow> L - k < 64"
      using m(4) k(2) unfolding nL by linarith
    ultimately show ?thesis using l(6,8) unfolding nL(2) [symmetric] mcat by blast
  qed
qed

subsection \<open>Final\<close>

lemma pad_guard: "(of_nat (8 * n) :: u32) AND 504 = 448 \<longleftrightarrow> n mod 64 = 56"
proof -
  have u: "unat (y AND 63) = unat y mod 64" for y :: u32
  proof -
    have "y AND 63 = take_bit 6 y" by (simp add: take_bit_eq_mask mask_eq_exp_minus_1)
    then show ?thesis by (simp add: take_bit_eq_mod unat_mod)
  qed
  have "(of_nat (8 * n) :: u32) = push_bit 3 (of_nat n)" by (simp add: push_bit_eq_mult)
  moreover have "(504 :: u32) = push_bit 3 63" "(448 :: u32) = push_bit 3 56" by (simp_all add: push_bit_eq_mult)
  ultimately have "(of_nat (8 * n) :: u32) AND 504 = 448 \<longleftrightarrow> push_bit 3 ((of_nat n :: u32) AND 63) = push_bit 3 56"
    by (simp only: push_bit_and)
  also have "\<dots> \<longleftrightarrow> 8 * unat ((of_nat n :: u32) AND 63) = 8 * 56"
  proof -
    define z where "z = (of_nat n :: u32) AND 63"
    have "unat z < 64" by (simp add: z_def u)
    then have "unat (push_bit 3 z) = 8 * unat z" by (simp add: push_bit_eq_mult unat_word_ariths)
    moreover have "push_bit 3 z = push_bit 3 56 \<longleftrightarrow> unat (push_bit 3 z) = 448"
      by (simp add: word_unat_eq_iff push_bit_eq_mult)
    ultimately show ?thesis by (simp add: z_def)
  qed
  also have "\<dots> \<longleftrightarrow> n mod 2 ^ 32 mod 64 = 56" by (simp add: u unat_of_nat_32)
  also have "n mod 2 ^ 32 mod 64 = n mod 64" by (rule mod_mod_cancel) simp
  finally show ?thesis .
qed

lemma pad_loop_ok:
  assumes "sha_ok ctx m" and "(length m + d) mod 64 = 56" and "d < 64"
  shows "\<exists>ctx'. pad_loop ctx = Some ctx' \<and> sha_ok ctx' (m @ replicate d 0)"
  using assms
proof (induction d arbitrary: ctx m)
  case 0
  then have "count0 ctx AND 504 = 448" using pad_guard [of "length m"] by (simp add: sha_ok_def del: of_nat_mult)
  with 0 show ?case by (subst pad_loop.simps) simp
next
  case (Suc d)
  have "length m mod 64 \<noteq> 56"
  proof
    assume "length m mod 64 = 56"
    with Suc.prems(2) have "(length m + Suc d) mod 64 = (length m + 0) mod 64" by simp
    then have "64 dvd Suc d" by (metis add_diff_cancel_left' diff_zero le_add1 add_0_right mod_eq_dvd_iff_nat)
    with Suc.prems(3) show False by (auto dest: dvd_imp_le)
  qed
  then have g: "count0 ctx AND 504 \<noteq> 448"
    using Suc.prems(1) pad_guard [of "length m"] by (simp add: sha_ok_def del: of_nat_mult)
  from sha1_update_ok [OF Suc.prems(1), of 1 "[0]"] obtain ctx1 data where
    u: "sha1_update ctx [0] 1 = Some (ctx1, data)" "sha_ok ctx1 (m @ [0])" by auto
  from Suc.IH [OF u(2)] Suc.prems(2,3) obtain ctx2 where
    "pad_loop ctx1 = Some ctx2" "sha_ok ctx2 ((m @ [0]) @ replicate d 0)" by auto
  with g u(1) show ?case by (subst pad_loop.simps) simp
qed

lemma low_byte: "(ucast (w AND 255 :: u32) :: byte) = ucast w"
proof -
  have m: "(255 :: u32) = mask 8" by (simp add: mask_eq_exp_minus_1)
  show ?thesis unfolding m by (rule bit_word_eqI) (auto simp: bit_simps)
qed

lemma final_count_ok:
  assumes "sha_ok ctx m"
  shows "final_count ctx = sha_len (length m)"
proof -
  have c: "(of_nat (x div 2 ^ 32) :: u32) = ucast (drop_bit 32 (of_nat x :: u64))" for x
    by (simp add: word_unat_eq_iff unsigned_ucast_eq unsigned_drop_bit_eq unsigned_of_nat
        drop_bit_take_bit) (simp add: drop_bit_eq_div)
  have "count0 ctx = ucast (of_nat (8 * length m) :: u64)"
    "count1 ctx = ucast (drop_bit 32 (of_nat (8 * length m) :: u64))"
  proof -
    have "count0 ctx = of_nat (8 * length m)" using assms by (simp only: sha_ok_def)
    moreover have "(of_nat x :: u32) = ucast (of_nat x :: u64)" for x
      by (simp add: word_unat_eq_iff unsigned_ucast_eq unsigned_of_nat)
    ultimately show "count0 ctx = ucast (of_nat (8 * length m) :: u64)" by simp
    have "count1 ctx = of_nat (8 * length m div 2 ^ 32)" using assms by (simp only: sha_ok_def)
    then show "count1 ctx = ucast (drop_bit 32 (of_nat (8 * length m) :: u64))"
      using c [of "8 * length m"] by (rule trans)
  qed
  then show ?thesis
    by (simp add: final_count_def sha_len_def be_bytes_def low_byte upt_rec Let_def)
qed

lemma digest_ok:
  "map (\<lambda>i. ucast (drop_bit ((3 - i mod 4) * 8) (vars_list h ! (i div 4)) AND 255)) [0..<20] = vars_bytes h"
  by (cases h) (simp add: vars_list_def vars_bytes_def be_bytes_def low_byte upt_rec)

lemma sha1_final_ok:
  assumes "sha_ok ctx m"
  shows "\<exists>ctx'. sha1_final ctx = Some (sha1_spec m, ctx') \<and> length (sha_buffer ctx') = 64"
proof -
  define d where "d = (119 - length m mod 64) mod 64"
  from sha1_update_ok [OF assms, of 1 "[0x80]"] obtain c1 d1 where
    c1: "sha1_update ctx [0x80] 1 = Some (c1, d1)" "sha_ok c1 (m @ [0x80])" by auto
  have "(length (m @ [0x80 :: byte]) + d) mod 64 = 56"
  proof -
    define r where "r = length m mod 64"
    have "r < 64" by (simp add: r_def)
    have "(length (m @ [0x80 :: byte]) + d) mod 64 = (r + (1 + d)) mod 64"
      using mod_add_left_eq [of "length m" 64 "1 + d"] by (simp add: r_def)
    also have "\<dots> = 56" using pad_room [OF \<open>r < 64\<close>] \<open>r < 64\<close> by (auto simp: d_def r_def [symmetric])
    finally show ?thesis .
  qed
  from pad_loop_ok [OF c1(2) this] obtain c2 where
    c2: "pad_loop c1 = Some c2" "sha_ok c2 ((m @ [0x80]) @ replicate d 0)" by (auto simp: d_def)
  from sha1_update_ok [OF c2(2), of 8 "sha_len (length m)"] obtain c3 d3 where
    c3: "sha1_update c2 (sha_len (length m)) 8 = Some (c3, d3)"
      "sha_ok c3 (((m @ [0x80]) @ replicate d 0) @ sha_len (length m))" by auto
  have "((m @ [0x80]) @ replicate d 0) @ sha_len (length m) = sha_pad m" by (simp add: sha_pad_def d_def)
  with c3(2) have "sha_state c3 = vars_list (sha_blocks sha_h0 (sha_pad m))" by (simp add: sha_ok_def)
  with c1(1) c2(1) c3(1) show ?thesis
    by (simp add: sha1_final_def final_count_ok [OF assms] Let_def digest_ok sha1_spec_def del: upt_rec)
qed

subsection \<open>Hashing a message in pieces\<close>

fun sha1_feed :: "sha_ctx \<Rightarrow> byte list list \<Rightarrow> sha_ctx option" where
  "sha1_feed ctx [] = Some ctx"
| "sha1_feed ctx (d # ds) = do { (ctx, _) \<leftarrow> sha1_update ctx d (of_nat (length d)); sha1_feed ctx ds }"

lemma sha1_update_whole:
  assumes "sha_ok ctx m" and "length d < 2 ^ 31"
  shows "\<exists>ctx' d'. sha1_update ctx d (of_nat (length d)) = Some (ctx', d') \<and> sha_ok ctx' (m @ d) \<and>
    length d' = length d \<and> (length m mod 64 + length d < 128 \<longrightarrow> d' = d)"
proof -
  have "unat (of_nat (length d) :: u32) = length d" using assms(2) by (simp add: unat_of_nat_32)
  with sha1_update_ok [OF assms(1), of "of_nat (length d)" d] assms(2) show ?thesis by simp
qed

lemma sha1_feed_ok:
  "sha_ok ctx m \<Longrightarrow> \<forall>d\<in>set ds. length d < 2 ^ 31 \<Longrightarrow>
   \<exists>ctx'. sha1_feed ctx ds = Some ctx' \<and> sha_ok ctx' (m @ concat ds)"
proof (induction ds arbitrary: ctx m)
  case (Cons d ds)
  then obtain ctx1 d1 where u: "sha1_update ctx d (of_nat (length d)) = Some (ctx1, d1)" "sha_ok ctx1 (m @ d)"
    using sha1_update_whole [of ctx m d] by auto
  with Cons.IH [OF u(2)] Cons.prems(2) show ?case by auto
qed simp

text \<open>
  C25: Feeding a message to \<open>SHA1_Update\<close> in any pieces (each under 2 GiB) and then calling
  \<open>SHA1_Final\<close> stays within every buffer, ends, and returns the SHA-1 of the concatenation as FIPS
  180-4 defines it.
\<close>

theorem sha1_hashes_concatenation:
  assumes "length (sha_buffer ctx) = 64" and "\<forall>d\<in>set ds. length d < 2 ^ 31"
  shows "\<exists>c c'. sha1_feed (sha1_init ctx) ds = Some c \<and> sha1_final c = Some (sha1_spec (concat ds), c')"
  using sha1_feed_ok [OF sha_ok_init [OF assms(1)] assms(2)] sha1_final_ok by fastforce

theorem sha1_hashes_concatenation_witness:
  "\<exists>c c'. sha1_feed (sha1_init \<lparr>sha_state = [], count0 = 9, count1 = 9, sha_buffer = replicate 64 1\<rparr>)
     [[0x61], replicate 200 0x62] = Some c \<and> sha1_final c = Some (sha1_spec (0x61 # replicate 200 0x62), c')"
  using sha1_hashes_concatenation [of "\<lparr>sha_state = [], count0 = 9, count1 = 9, sha_buffer = replicate 64 1\<rparr>"
      "[[0x61], replicate 200 0x62]"] by simp

end
