(* ===== verification/Cp_Hmac.thy ===== *)
theory Cp_Hmac
  imports Cp_Sha_Stream
begin

text \<open>
  The control plane's HMAC-SHA1 (\<open>hmac/hmac_sha.c\<close>), with which Map-Register and Map-Notify messages are
  authenticated: a context that collects the key, in pieces and hashed once it exceeds a block, two
  pads, and one SHA-1 context used in turn for the key, the inner and the outer hash.
\<close>

record hmac_ctx =
  ipad :: "byte list"
  opad :: "byte list"
  shactx :: sha_ctx
  hkey :: "byte list"
  keylen :: u32
  hashkey :: u32

definition hmac_sha1_init :: "hmac_ctx \<Rightarrow> hmac_ctx" where
  "hmac_sha1_init ctx = ctx\<lparr>hkey := replicate 64 0, ipad := replicate 64 0x36, opad := replicate 64 0x5c,
     keylen := 0, hashkey := 0\<rparr>"

definition hmac_sha1_update_key :: "hmac_ctx \<Rightarrow> byte list \<Rightarrow> u32 \<Rightarrow> hmac_ctx option" where
  "hmac_sha1_update_key ctx key len =
     (if len < 1 then Some ctx
      else if hashkey ctx \<noteq> 0 \<or> len + keylen ctx > 64 then do {
        ctx \<leftarrow> (if hashkey ctx = 0 then do {
            let ctx = ctx\<lparr>hashkey := 1, shactx := sha1_init (shactx ctx)\<rparr>;
            ctx \<leftarrow> (if keylen ctx > 0 then do {
                (c, k) \<leftarrow> sha1_update (shactx ctx) (hkey ctx) (keylen ctx);
                Some (ctx\<lparr>shactx := c, hkey := k\<rparr>) }
              else Some ctx);
            Some (ctx\<lparr>keylen := 20\<rparr>) }
          else Some ctx);
        (c, _) \<leftarrow> sha1_update (shactx ctx) key len;
        Some (ctx\<lparr>shactx := c\<rparr>) }
      else do {
        k \<leftarrow> memcpy_at (hkey ctx) (unat (keylen ctx)) key 0 (unat len);
        Some (ctx\<lparr>hkey := k, keylen := keylen ctx + len\<rparr>) })"

definition hmac_sha1_end_key :: "hmac_ctx \<Rightarrow> hmac_ctx option" where
  "hmac_sha1_end_key ctx = do {
     ctx \<leftarrow> (if hashkey ctx \<noteq> 0 then do {
         (d, c) \<leftarrow> sha1_final (shactx ctx);
         k \<leftarrow> memcpy_at (replicate 64 0) 0 d 0 20;
         Some (ctx\<lparr>hkey := k, shactx := c\<rparr>) }
       else Some ctx);
     let i = 64 - unat (keylen ctx);
     let k = (if 0 < i then take (unat (keylen ctx)) (hkey ctx) @ replicate i 0 else hkey ctx);
     let ctx = ctx\<lparr>hkey := k\<rparr>;
     if unat (keylen ctx) \<le> 64 then
       Some (ctx\<lparr>ipad := map (\<lambda>i. if i < unat (keylen ctx) then ipad ctx ! i XOR hkey ctx ! i else ipad ctx ! i) [0..<64],
         opad := map (\<lambda>i. if i < unat (keylen ctx) then opad ctx ! i XOR hkey ctx ! i else opad ctx ! i) [0..<64]\<rparr>)
     else None }"

definition hmac_sha1_start_message :: "hmac_ctx \<Rightarrow> hmac_ctx option" where
  "hmac_sha1_start_message ctx = do {
     (c, p) \<leftarrow> sha1_update (sha1_init (shactx ctx)) (ipad ctx) 64;
     Some (ctx\<lparr>shactx := c, ipad := p\<rparr>) }"

definition hmac_sha1_update_message :: "hmac_ctx \<Rightarrow> byte list \<Rightarrow> u32 \<Rightarrow> (hmac_ctx \<times> byte list) option" where
  "hmac_sha1_update_message ctx data len = do {
     (c, data) \<leftarrow> sha1_update (shactx ctx) data len;
     Some (ctx\<lparr>shactx := c\<rparr>, data) }"

definition hmac_sha1_end_message :: "hmac_ctx \<Rightarrow> (byte list \<times> hmac_ctx) option" where
  "hmac_sha1_end_message ctx = do {
     (buf, c) \<leftarrow> sha1_final (shactx ctx);
     (c, p) \<leftarrow> sha1_update (sha1_init c) (opad ctx) 64;
     (c, _) \<leftarrow> sha1_update c buf 20;
     (out, c) \<leftarrow> sha1_final c;
     Some (out, ctx\<lparr>shactx := c, opad := p\<rparr>) }"

text \<open>The second of the two \<open>memset\<close>s of \<open>ipad\<close> was meant for \<open>opad\<close>.\<close>

definition hmac_sha1_done :: "hmac_ctx \<Rightarrow> hmac_ctx" where
  "hmac_sha1_done ctx = ctx\<lparr>ipad := replicate 64 0, hkey := replicate 64 0, keylen := 0, hashkey := 0\<rparr>"

section \<open>The key\<close>

text \<open>\<open>key_ok ctx k\<close>: the context has taken in the key \<open>k\<close>.\<close>

definition key_ok :: "hmac_ctx \<Rightarrow> byte list \<Rightarrow> bool" where
  "key_ok ctx k \<longleftrightarrow> ipad ctx = replicate 64 0x36 \<and> opad ctx = replicate 64 0x5c \<and> length (hkey ctx) = 64 \<and>
     (if length k \<le> 64 then hashkey ctx = 0 \<and> keylen ctx = of_nat (length k) \<and> take (length k) (hkey ctx) = k \<and>
        length (sha_buffer (shactx ctx)) = 64
      else hashkey ctx = 1 \<and> keylen ctx = 20 \<and> sha_ok (shactx ctx) k)"

lemma key_ok_init: "length (sha_buffer (shactx ctx)) = 64 \<Longrightarrow> key_ok (hmac_sha1_init ctx) []"
  by (simp add: key_ok_def hmac_sha1_init_def)

lemma update_key_ok:
  assumes "key_ok ctx k" and "length d < 2 ^ 31"
  shows "\<exists>ctx'. hmac_sha1_update_key ctx d (of_nat (length d)) = Some ctx' \<and> key_ok ctx' (k @ d)"
proof -
  have ul: "unat (of_nat (length d) :: u32) = length d" using assms(2) by (simp add: unat_of_nat_32)
  have z: "(of_nat (length d) :: u32) < 1 \<longleftrightarrow> d = []"
    using ul by (auto simp: word_less_nat_alt)
  show ?thesis
  proof (cases "d = []")
    case True
    with assms(1) show ?thesis by (simp add: hmac_sha1_update_key_def)
  next
    case False
    show ?thesis
    proof (cases "length k \<le> 64")
      case True
      have k: "hashkey ctx = 0" "keylen ctx = of_nat (length k)" "take (length k) (hkey ctx) = k"
        "length (hkey ctx) = 64" "length (sha_buffer (shactx ctx)) = 64"
        using assms(1) True by (simp_all add: key_ok_def)
      have uk: "unat (keylen ctx) = length k" using True by (simp add: k(2) unat_of_nat_32)
      have big: "of_nat (length d) + keylen ctx > 64 \<longleftrightarrow> 64 < length k + length d"
      proof -
        have "unat (of_nat (length d) + keylen ctx) = length k + length d"
          using True assms(2) unfolding unat_word_ariths ul uk by simp
        then show ?thesis by (simp add: word_less_nat_alt)
      qed
      show ?thesis
      proof (cases "64 < length k + length d")
        case True: True
        have k0: "keylen ctx > 0 \<longleftrightarrow> k \<noteq> []" using uk by (auto simp: word_less_nat_alt)
        have ok0: "sha_ok (sha1_init (shactx ctx)) []" by (rule sha_ok_init [OF k(5)])
        obtain c1 hk where c1: "sha_ok c1 k" "length hk = 64"
          "(if keylen ctx > 0 then do { (c, k) \<leftarrow> sha1_update (sha1_init (shactx ctx)) (hkey ctx) (keylen ctx); Some (c, k) }
            else Some (sha1_init (shactx ctx), hkey ctx)) = Some (c1, hk)"
        proof (cases "k = []")
          case True
          then show ?thesis using that [of "sha1_init (shactx ctx)" "hkey ctx"] ok0 k(4) k0 by simp
        next
          case False
          from sha1_update_ok [OF ok0, of "keylen ctx" "hkey ctx"] uk \<open>length k \<le> 64\<close> k(3,4) obtain c1 hk where
            "sha1_update (sha1_init (shactx ctx)) (hkey ctx) (keylen ctx) = Some (c1, hk)" "sha_ok c1 k" "length hk = 64"
            by auto
          then show ?thesis using that [of c1 hk] False k0 by simp
        qed
        from sha1_update_whole [OF c1(1) assms(2)] obtain c2 d2 where
          c2: "sha1_update c1 d (of_nat (length d)) = Some (c2, d2)" "sha_ok c2 (k @ d)" by blast
        have "hmac_sha1_update_key ctx d (of_nat (length d)) =
            Some (ctx\<lparr>hashkey := 1, shactx := c2, hkey := hk, keylen := 20\<rparr>)"
          using False z big True k(1) c1(3) c2(1)
          by (auto simp: hmac_sha1_update_key_def Let_def split: if_splits bind_splits)
        moreover have "key_ok (ctx\<lparr>hashkey := 1, shactx := c2, hkey := hk, keylen := 20\<rparr>) (k @ d)"
          using assms(1) True c2(2) c1(2) by (simp add: key_ok_def)
        ultimately show ?thesis by blast
      next
        case le: False
        have "memcpy_at (hkey ctx) (unat (keylen ctx)) d 0 (length d) =
            Some (k @ d @ drop (length k + length d) (hkey ctx))"
          using memcpy_at_in [of "length k" "length d" "hkey ctx" 0 d] le k(3,4) uk by simp
        then have "hmac_sha1_update_key ctx d (of_nat (length d)) =
            Some (ctx\<lparr>hkey := k @ d @ drop (length k + length d) (hkey ctx), keylen := keylen ctx + of_nat (length d)\<rparr>)"
          using False z big le k(1) ul by (simp add: hmac_sha1_update_key_def)
        moreover have "key_ok (ctx\<lparr>hkey := k @ d @ drop (length k + length d) (hkey ctx),
            keylen := keylen ctx + of_nat (length d)\<rparr>) (k @ d)"
          using assms(1) le k by (simp add: key_ok_def)
        ultimately show ?thesis by blast
      qed
    next
      case big: False
      have k: "hashkey ctx = 1" "keylen ctx = 20" "sha_ok (shactx ctx) k"
        using assms(1) big by (simp_all add: key_ok_def)
      from sha1_update_whole [OF k(3) assms(2)] obtain c2 d2 where
        "sha1_update (shactx ctx) d (of_nat (length d)) = Some (c2, d2)" "sha_ok c2 (k @ d)" by blast
      with False z k big assms(1) show ?thesis
        by (simp add: hmac_sha1_update_key_def key_ok_def)
    qed
  qed
qed

lemma xor_pad_bytes:
  assumes "length k0 \<le> 64" and "n = length k0" and "p = replicate 64 c" and "take n h = k0"
  shows "map (\<lambda>i. if i < n then p ! i XOR h ! i else p ! i) [0..<64] = map ((XOR) c) (k0 @ replicate (64 - n) 0)"
proof (rule nth_equalityI)
  fix i
  assume "i < length (map (\<lambda>i. if i < n then p ! i XOR h ! i else p ! i) [0..<64])"
  then have i: "i < 64" by simp
  have "h ! i = k0 ! i" if "i < n" using that assms(4) by (metis nth_take)
  with i assms(1-3) show "map (\<lambda>i. if i < n then p ! i XOR h ! i else p ! i) [0..<64] ! i =
      map ((XOR) c) (k0 @ replicate (64 - n) 0) ! i"
    by (auto simp: nth_append simp del: upt_rec_numeral)
qed (use assms in simp)

lemma end_key_ok:
  assumes "key_ok ctx k"
  shows "\<exists>ctx'. hmac_sha1_end_key ctx = Some ctx' \<and> ipad ctx' = map ((XOR) 0x36) (hmac_key k) \<and>
    opad ctx' = map ((XOR) 0x5c) (hmac_key k) \<and> length (sha_buffer (shactx ctx')) = 64"
proof -
  define k0 where "k0 = (if length k > 64 then sha1_spec k else k)"
  have k0: "length k0 \<le> 64" by (simp add: k0_def)
  obtain c hk where step: "(if hashkey ctx \<noteq> 0 then do {
         (d, c) \<leftarrow> sha1_final (shactx ctx);
         k \<leftarrow> memcpy_at (replicate 64 0) 0 d 0 20;
         Some (ctx\<lparr>hkey := k, shactx := c\<rparr>) }
       else Some ctx) = Some (ctx\<lparr>hkey := hk, shactx := c\<rparr>)"
    "take (length k0) hk = k0" "unat (keylen ctx) = length k0" "length (sha_buffer c) = 64"
  proof (cases "length k \<le> 64")
    case True
    with assms have "hashkey ctx = 0" "take (length k) (hkey ctx) = k" "unat (keylen ctx) = length k"
      "length (sha_buffer (shactx ctx)) = 64" by (simp_all add: key_ok_def unat_of_nat_32)
    with True show ?thesis using that [of "shactx ctx" "hkey ctx"] by (simp add: k0_def)
  next
    case False
    with assms have h: "hashkey ctx = 1" "keylen ctx = 20" "sha_ok (shactx ctx) k" by (simp_all add: key_ok_def)
    from sha1_final_ok [OF h(3)] obtain c where c: "sha1_final (shactx ctx) = Some (sha1_spec k, c)"
      "length (sha_buffer c) = 64" by blast
    have "memcpy_at (replicate 64 0) 0 (sha1_spec k) 0 20 = Some (sha1_spec k @ replicate 44 0)"
      using memcpy_at_in [of 0 20 "replicate 64 0" 0 "sha1_spec k"] by simp
    with h c False show ?thesis using that [of c "sha1_spec k @ replicate 44 0"] by (simp add: k0_def)
  qed
  define hk1 where "hk1 = (if 0 < 64 - length k0 then take (length k0) hk @ replicate (64 - length k0) 0 else hk)"
  have t: "take (length k0) hk1 = k0" using step(2) by (auto simp: hk1_def min_def)
  define ctx' where "ctx' = ctx\<lparr>hkey := hk1, shactx := c,
    ipad := map (\<lambda>i. if i < length k0 then ipad ctx ! i XOR hk1 ! i else ipad ctx ! i) [0..<64],
    opad := map (\<lambda>i. if i < length k0 then opad ctx ! i XOR hk1 ! i else opad ctx ! i) [0..<64]\<rparr>"
  have "hmac_sha1_end_key ctx = Some ctx'"
    using step(3) k0 unfolding hmac_sha1_end_key_def step(1)
    by (simp add: Let_def ctx'_def hk1_def del: upt_rec_numeral)
  moreover have "ipad ctx = replicate 64 0x36" "opad ctx = replicate 64 0x5c" using assms by (simp_all add: key_ok_def)
  ultimately show ?thesis
    using xor_pad_bytes [OF k0 refl _ t] step(4)
    by (simp add: ctx'_def hmac_key_def k0_def [symmetric] del: upt_rec_numeral)
qed

section \<open>The message\<close>

fun key_feed :: "hmac_ctx \<Rightarrow> byte list list \<Rightarrow> hmac_ctx option" where
  "key_feed ctx [] = Some ctx"
| "key_feed ctx (d # ds) = do { ctx \<leftarrow> hmac_sha1_update_key ctx d (of_nat (length d)); key_feed ctx ds }"

fun message_feed :: "hmac_ctx \<Rightarrow> byte list list \<Rightarrow> hmac_ctx option" where
  "message_feed ctx [] = Some ctx"
| "message_feed ctx (d # ds) = do { (ctx, _) \<leftarrow> hmac_sha1_update_message ctx d (of_nat (length d)); message_feed ctx ds }"

text \<open>The calls the control plane makes, in order; the key and the message may come in pieces.\<close>

definition hmac_sha1_run :: "hmac_ctx \<Rightarrow> byte list list \<Rightarrow> byte list list \<Rightarrow> (byte list \<times> hmac_ctx) option" where
  "hmac_sha1_run ctx ks ms = do {
     ctx \<leftarrow> key_feed (hmac_sha1_init ctx) ks;
     ctx \<leftarrow> hmac_sha1_end_key ctx;
     ctx \<leftarrow> hmac_sha1_start_message ctx;
     ctx \<leftarrow> message_feed ctx ms;
     hmac_sha1_end_message ctx }"

lemma key_feed_ok:
  "key_ok ctx k \<Longrightarrow> \<forall>d\<in>set ds. length d < 2 ^ 31 \<Longrightarrow> \<exists>ctx'. key_feed ctx ds = Some ctx' \<and> key_ok ctx' (k @ concat ds)"
proof (induction ds arbitrary: ctx k)
  case (Cons d ds)
  then obtain ctx1 where u: "hmac_sha1_update_key ctx d (of_nat (length d)) = Some ctx1" "key_ok ctx1 (k @ d)"
    using update_key_ok [of ctx k d] by auto
  with Cons.IH [OF u(2)] Cons.prems(2) show ?case by auto
qed simp

lemma message_feed_ok:
  "sha_ok (shactx ctx) m \<Longrightarrow> \<forall>d\<in>set ds. length d < 2 ^ 31 \<Longrightarrow>
   \<exists>c. message_feed ctx ds = Some (ctx\<lparr>shactx := c\<rparr>) \<and> sha_ok c (m @ concat ds)"
proof (induction ds arbitrary: ctx m)
  case Nil
  then show ?case by (intro exI [of _ "shactx ctx"]) simp
next
  case (Cons d ds)
  then obtain c1 d1 where u: "sha1_update (shactx ctx) d (of_nat (length d)) = Some (c1, d1)" "sha_ok c1 (m @ d)"
    using sha1_update_whole [of "shactx ctx" m d] by auto
  with Cons.IH [of "ctx\<lparr>shactx := c1\<rparr>" "m @ d"] Cons.prems(2) show ?case
    by (auto simp: hmac_sha1_update_message_def)
qed

lemma end_message_ok:
  assumes "sha_ok (shactx ctx) m" and "length (opad ctx) = 64"
  shows "\<exists>ctx'. hmac_sha1_end_message ctx = Some (sha1_spec (opad ctx @ sha1_spec m), ctx')"
proof -
  from sha1_final_ok [OF assms(1)] obtain c1 where c1: "sha1_final (shactx ctx) = Some (sha1_spec m, c1)"
    "length (sha_buffer c1) = 64" by blast
  from sha1_update_whole [OF sha_ok_init [OF c1(2)], of "opad ctx"] assms(2) obtain c2 p where
    c2: "sha1_update (sha1_init c1) (opad ctx) 64 = Some (c2, p)" "sha_ok c2 (opad ctx)" by auto
  from sha1_update_whole [OF c2(2), of "sha1_spec m"] obtain c3 q where
    c3: "sha1_update c2 (sha1_spec m) 20 = Some (c3, q)" "sha_ok c3 (opad ctx @ sha1_spec m)" by auto
  from sha1_final_ok [OF c3(2)] c1 c2 c3 show ?thesis by (auto simp: hmac_sha1_end_message_def)
qed

lemma hmac_run_ok:
  assumes "length (sha_buffer (shactx ctx)) = 64" and "\<forall>d\<in>set ks. length d < 2 ^ 31" and "\<forall>d\<in>set ms. length d < 2 ^ 31"
  shows "\<exists>ctx'. hmac_sha1_run ctx ks ms = Some (hmac_spec (concat ks) (concat ms), ctx')"
proof -
  from key_feed_ok [OF key_ok_init [OF assms(1)] assms(2)] obtain c1 where
    c1: "key_feed (hmac_sha1_init ctx) ks = Some c1" "key_ok c1 (concat ks)" by auto
  from end_key_ok [OF c1(2)] obtain c2 where
    c2: "hmac_sha1_end_key c1 = Some c2" "ipad c2 = map ((XOR) 0x36) (hmac_key (concat ks))"
      "opad c2 = map ((XOR) 0x5c) (hmac_key (concat ks))" "length (sha_buffer (shactx c2)) = 64" by blast
  from sha1_update_whole [OF sha_ok_init [OF c2(4)], of "ipad c2"] c2(2) obtain s p where
    s: "sha1_update (sha1_init (shactx c2)) (ipad c2) 64 = Some (s, p)" "sha_ok s (ipad c2)" by auto
  define c3 where "c3 = c2\<lparr>shactx := s, ipad := p\<rparr>"
  from message_feed_ok [of c3 "ipad c2" ms] s(2) assms(3) obtain s' where
    f: "message_feed c3 ms = Some (c3\<lparr>shactx := s'\<rparr>)" "sha_ok s' (ipad c2 @ concat ms)" by (auto simp: c3_def)
  from end_message_ok [of "c3\<lparr>shactx := s'\<rparr>"] f(2) c2(3) obtain c4 where
    "hmac_sha1_end_message (c3\<lparr>shactx := s'\<rparr>) = Some (sha1_spec (opad c2 @ sha1_spec (ipad c2 @ concat ms)), c4)"
    by (auto simp: c3_def)
  with c1 c2 s f show ?thesis
    by (simp add: hmac_sha1_run_def hmac_sha1_start_message_def hmac_spec_def c3_def [symmetric])
qed

text \<open>
  C24: The sequence of calls that authenticates a message (\<open>Init\<close>, \<open>UpdateKey\<close>s, \<open>EndKey\<close>, \<open>StartMessage\<close>,
  \<open>UpdateMessage\<close>s, \<open>EndMessage\<close>) stays within every buffer, ends, and returns the HMAC-SHA1 of RFC 2104
  for the whole key and the whole message, whatever pieces they come in and whatever the length of
  the key, keys longer than a block included.
\<close>

theorem hmac_sha1_correct:
  assumes "length (sha_buffer (shactx ctx)) = 64" and "\<forall>d\<in>set ks. length d < 2 ^ 31" and "\<forall>d\<in>set ms. length d < 2 ^ 31"
  shows "\<exists>ctx'. hmac_sha1_run ctx ks ms = Some (hmac_spec (concat ks) (concat ms), ctx')"
  using assms by (rule hmac_run_ok)

definition blank_hmac :: hmac_ctx where
  "blank_hmac = \<lparr>ipad = [], opad = [], shactx = \<lparr>sha_state = [], count0 = 0, count1 = 0, sha_buffer = replicate 64 0\<rparr>,
     hkey = [], keylen = 0, hashkey = 0\<rparr>"

theorem hmac_sha1_correct_witness:
  "\<exists>ctx'. hmac_sha1_run blank_hmac [replicate 40 1, replicate 40 2] [[3], [4, 5]] =
     Some (hmac_spec (replicate 40 1 @ replicate 40 2) [3, 4, 5], ctx')"
  using hmac_sha1_correct [of blank_hmac "[replicate 40 1, replicate 40 2]" "[[3], [4, 5]]"]
  by (simp add: blank_hmac_def)

text \<open>\<open>Done\<close> wipes the inner pad twice and leaves the outer one, key material included, in place.\<close>

lemma hmac_done_keeps_opad: "opad (hmac_sha1_done ctx) = opad ctx"
  by (simp add: hmac_sha1_done_def)

end
