(* ===== verification/Cp_List.thy ===== *)
theory Cp_List
  imports Prelude "HOL-Library.Multiset"
begin

text \<open>
  \<open>list/list.c\<close>: the doubly linked list that the control plane keeps its sites, map servers, locators
  and packets in. A list is a heap of cells between two sentinels that are part of the list itself;
  the data of a cell is a pointer that may be \<open>NULL\<close>. \<open>None\<close> is a null dereference or an access to a
  freed cell, and a walk that does not end. The cells are shown to be the sequence of data that a
  user of the list sees. Allocation is taken to succeed.
\<close>

datatype lref = Head | Tail | Ent nat

record 'd list_entry =
  e_data :: "'d option"
  e_prev :: "lref option"
  e_next :: "lref option"

record 'd clist =
  cells :: "lref \<Rightarrow> 'd list_entry option"
  fresh_cell :: nat
  l_count :: u32

definition put_cell :: "lref \<Rightarrow> 'd list_entry \<Rightarrow> 'd clist \<Rightarrow> 'd clist" where
  "put_cell a e l = l\<lparr>cells := (cells l)(a \<mapsto> e)\<rparr>"

definition set_next :: "lref option \<Rightarrow> lref option \<Rightarrow> 'd clist \<Rightarrow> 'd clist option" where
  "set_next a x l = do { a \<leftarrow> a; e \<leftarrow> cells l a; Some (put_cell a (e\<lparr>e_next := x\<rparr>) l) }"

definition set_prev :: "lref option \<Rightarrow> lref option \<Rightarrow> 'd clist \<Rightarrow> 'd clist option" where
  "set_prev a x l = do { a \<leftarrow> a; e \<leftarrow> cells l a; Some (put_cell a (e\<lparr>e_prev := x\<rparr>) l) }"

definition list_init :: "'d clist" where
  "list_init = \<lparr>cells = [Head \<mapsto> \<lparr>e_data = None, e_prev = None, e_next = Some Tail\<rparr>,
      Tail \<mapsto> \<lparr>e_data = None, e_prev = Some Head, e_next = None\<rparr>], fresh_cell = 0, l_count = 0\<rparr>"

text \<open>The cell before which a new entry goes: the first that is not before the data.\<close>

partial_function (option) insert_pos ::
  "('d option \<Rightarrow> 'd option \<Rightarrow> int) \<Rightarrow> (lref \<Rightarrow> 'd list_entry option) \<Rightarrow> 'd option \<Rightarrow> lref \<Rightarrow> lref option" where
  "insert_pos cmp h data c =
     (if c = Tail then Some c
      else do {
        e \<leftarrow> h c;
        if cmp data (e_data e) \<le> 0 then Some c
        else do { c' \<leftarrow> e_next e; insert_pos cmp h data c' } })"

definition list_insert ::
  "('d option \<Rightarrow> 'd option \<Rightarrow> int) option \<Rightarrow> 'd option \<Rightarrow> 'd clist \<Rightarrow> (nat \<times> 'd clist) option" where
  "list_insert entry_cmp_fct data l = do {
     let r = fresh_cell l;
     let l = l\<lparr>fresh_cell := Suc r\<rparr>;
     c \<leftarrow> (case entry_cmp_fct of
         None \<Rightarrow> Some Tail
       | Some cmp \<Rightarrow> do { hd \<leftarrow> cells l Head; c \<leftarrow> e_next hd; insert_pos cmp (cells l) data c });
     e \<leftarrow> cells l c;
     let p = e_prev e;
     let l = put_cell (Ent r) \<lparr>e_data = data, e_prev = p, e_next = Some c\<rparr> l;
     l \<leftarrow> set_next p (Some (Ent r)) l;
     l \<leftarrow> set_prev (Some c) (Some (Ent r)) l;
     Some (r, l\<lparr>l_count := l_count l + 1\<rparr>) }"

text \<open>The entries that \<open>list_destroy\<close> frees and the calls of \<open>destroy_fct\<close> it makes, in order.\<close>

function destroy_loop ::
  "bool \<Rightarrow> u32 \<Rightarrow> lref option \<Rightarrow> (lref \<Rightarrow> 'd list_entry option) \<Rightarrow> 'd list \<Rightarrow> ((lref \<Rightarrow> 'd list_entry option) \<times> 'd list) option"
where
  "destroy_loop has_fct n entry h calls =
     (if n > 0 then do {
        old \<leftarrow> entry;
        e \<leftarrow> h old;
        let calls = (case e_data e of Some d \<Rightarrow> if has_fct then calls @ [d] else calls | None \<Rightarrow> calls);
        destroy_loop has_fct (n - 1) (e_next e) (h(old := None)) calls }
      else Some (h, calls))"
  by auto
termination
  by (relation "measure (\<lambda>(_, n, _). unat n)") (auto simp: word_gt_0 unat_minus_one unat_gt_0 intro!: diff_less)

declare destroy_loop.simps [simp del]

definition list_destroy :: "bool \<Rightarrow> 'd clist \<Rightarrow> ((lref \<Rightarrow> 'd list_entry option) \<times> 'd list) option" where
  "list_destroy has_fct l = do { hd \<leftarrow> cells l Head; destroy_loop has_fct (l_count l) (e_next hd) (cells l) [] }"

text \<open>Returns whether an entry was removed, and the data that \<open>destroy_fct\<close> is called on.\<close>

definition list_remove :: "bool \<Rightarrow> nat option \<Rightarrow> 'd clist \<Rightarrow> (bool \<times> 'd option list \<times> 'd clist) option" where
  "list_remove has_fct entry l =
     (case entry of
        None \<Rightarrow> Some (False, [], l)
      | Some r \<Rightarrow>
          if l_count l = 0 then Some (False, [], l)
          else do {
            e \<leftarrow> cells l (Ent r);
            l \<leftarrow> set_next (e_prev e) (e_next e) l;
            l \<leftarrow> set_prev (e_next e) (e_prev e) l;
            let l = l\<lparr>l_count := l_count l - 1\<rparr>;
            e \<leftarrow> cells l (Ent r);
            Some (True, if has_fct then [e_data e] else [], l\<lparr>cells := (cells l)(Ent r := None)\<rparr>) })"

text \<open>\<open>foreach_fct\<close> acts on a context.\<close>

partial_function (option) foreach_loop ::
  "('d option \<Rightarrow> 's \<Rightarrow> int \<times> 's) \<Rightarrow> (lref \<Rightarrow> 'd list_entry option) \<Rightarrow> lref \<Rightarrow> int \<Rightarrow> 's \<Rightarrow> (int \<times> 's) option" where
  "foreach_loop f h entry ret s =
     (if entry = Tail then Some (ret, s)
      else do {
        e \<leftarrow> h entry;
        case f (e_data e) s of (r, s) \<Rightarrow> do {
          n \<leftarrow> e_next e;
          foreach_loop f h n (max ret r) s } })"

definition list_foreach :: "('d option \<Rightarrow> 's \<Rightarrow> int \<times> 's) \<Rightarrow> 'd clist \<Rightarrow> 's \<Rightarrow> (int \<times> 's) option" where
  "list_foreach f l s = do { hd \<leftarrow> cells l Head; n \<leftarrow> e_next hd; foreach_loop f (cells l) n 0 s }"

partial_function (option) search_loop ::
  "('d option \<Rightarrow> 'd option \<Rightarrow> int) \<Rightarrow> (lref \<Rightarrow> 'd list_entry option) \<Rightarrow> 'd option \<Rightarrow> lref \<Rightarrow> lref option option" where
  "search_loop cmp h data c =
     (if c = Tail then Some None
      else do {
        e \<leftarrow> h c;
        if cmp data (e_data e) = 0 then Some (Some c)
        else do { n \<leftarrow> e_next e; search_loop cmp h data n } })"

definition list_search :: "('d option \<Rightarrow> 'd option \<Rightarrow> int) \<Rightarrow> 'd option \<Rightarrow> 'd clist \<Rightarrow> lref option option" where
  "list_search cmp data l = do { hd \<leftarrow> cells l Head; n \<leftarrow> e_next hd; search_loop cmp (cells l) data n }"

section \<open>The sequence a list holds\<close>

definition nxt :: "(lref \<Rightarrow> 'd list_entry option) \<Rightarrow> lref \<Rightarrow> lref option" where
  "nxt h a = Option.bind (h a) e_next"

definition prv :: "(lref \<Rightarrow> 'd list_entry option) \<Rightarrow> lref \<Rightarrow> lref option" where
  "prv h a = Option.bind (h a) e_prev"

fun linked :: "(lref \<Rightarrow> 'd list_entry option) \<Rightarrow> lref list \<Rightarrow> bool" where
  "linked h (a # b # cs) \<longleftrightarrow> nxt h a = Some b \<and> prv h b = Some a \<and> linked h (b # cs)"
| "linked h _ \<longleftrightarrow> True"

definition list_at :: "'d clist \<Rightarrow> (nat \<times> 'd option) list \<Rightarrow> bool" where
  "list_at l xs \<longleftrightarrow> linked (cells l) (Head # map (\<lambda>x. Ent (fst x)) xs @ [Tail]) \<and> distinct (map fst xs) \<and>
     (\<forall>(r, d)\<in>set xs. r < fresh_cell l \<and> (\<exists>e. cells l (Ent r) = Some e \<and> e_data e = d)) \<and>
     l_count l = of_nat (length xs)"

lemma linked_split: "linked h (xs @ a # ys) \<longleftrightarrow> linked h (xs @ [a]) \<and> linked h (a # ys)"
proof (induction xs)
  case (Cons x xs)
  then show ?case by (cases xs) auto
qed simp

text \<open>A sequence stays linked under changes to the \<open>next\<close> of its last cell and the \<open>previous\<close> of its
  first.\<close>

lemma linked_cong:
  "(\<And>a. a \<in> set (butlast cs) \<Longrightarrow> nxt h a = nxt h' a) \<Longrightarrow> (\<And>a. a \<in> set (tl cs) \<Longrightarrow> prv h a = prv h' a) \<Longrightarrow>
   linked h cs \<Longrightarrow> linked h' cs"
proof (induction h cs rule: linked.induct)
  case (1 h a b cs)
  have "linked h' (b # cs)"
    using 1(4) by (intro 1(1)) (use 1(2,3) in \<open>auto dest: in_set_butlastD list.set_sel(2) split: if_splits\<close>)
  moreover have "nxt h' a = Some b" "prv h' b = Some a" using 1(2) [of a] 1(3) [of b] 1(4) by auto
  ultimately show ?case by simp
qed simp_all

lemma list_at_init: "list_at list_init []"
  by (simp add: list_at_def list_init_def nxt_def prv_def)

abbreviation cells_of :: "(nat \<times> 'd option) list \<Rightarrow> lref list" where
  "cells_of xs \<equiv> map (\<lambda>x. Ent (fst x)) xs @ [Tail]"

lemma distinct_cells: "distinct (Head # cells_of xs) \<longleftrightarrow> distinct (map fst xs)"
  by (auto simp: distinct_map inj_on_def)

text \<open>The same with data: what a walk meets from the first of \<open>cs\<close> on.\<close>

definition holds :: "(lref \<Rightarrow> 'd list_entry option) \<Rightarrow> (nat \<times> 'd option) list \<Rightarrow> bool" where
  "holds h xs \<longleftrightarrow> (\<forall>(r, d)\<in>set xs. \<exists>e. h (Ent r) = Some e \<and> e_data e = d)"

lemma step_cell:
  assumes "linked h (Ent r # cells_of xs)" and "holds h ((r, d) # xs)"
  shows "\<exists>e. h (Ent r) = Some e \<and> e_data e = d \<and> e_next e = Some (hd (cells_of xs)) \<and>
    linked h (cells_of xs) \<and> holds h xs"
  using assms by (cases xs) (auto simp: holds_def nxt_def)

lemma insert_pos_walk:
  assumes "linked h (cells_of xs)" and "holds h xs"
  shows "insert_pos f h d (hd (cells_of xs)) = Some (hd (cells_of (dropWhile (\<lambda>x. f d (snd x) > 0) xs)))"
  using assms
proof (induction xs)
  case Nil
  then show ?case by (simp add: insert_pos.simps)
next
  case (Cons x xs)
  obtain r d' where x: "x = (r, d')" by (cases x)
  have "linked h (Ent r # cells_of xs)" "holds h ((r, d') # xs)" using Cons.prems x by simp_all
  from step_cell [OF this] obtain e where
    "h (Ent r) = Some e" "e_data e = d'" "e_next e = Some (hd (cells_of xs))" "linked h (cells_of xs)" "holds h xs"
    by blast
  with Cons.IH show ?case
    by (subst insert_pos.simps) (simp add: x)
qed

lemma list_at_first:
  assumes "list_at l xs"
  shows "\<exists>e. cells l Head = Some e \<and> e_next e = Some (hd (cells_of xs)) \<and> linked (cells l) (cells_of xs) \<and>
    holds (cells l) xs"
proof -
  have "linked (cells l) (Head # cells_of xs)" using assms by (simp add: list_at_def)
  then have "nxt (cells l) Head = Some (hd (cells_of xs))" "linked (cells l) (cells_of xs)"
    by (cases xs; simp)+
  moreover have "holds (cells l) xs" using assms by (auto simp: list_at_def holds_def)
  ultimately show ?thesis by (auto simp: nxt_def bind_eq_Some_conv)
qed

lemma list_atI:
  assumes "linked (cells l) (Head # cells_of xs)" and "distinct (map fst xs)" and "l_count l = of_nat (length xs)"
    and "\<And>r d. (r, d) \<in> set xs \<Longrightarrow> r < fresh_cell l \<and> (\<exists>e. cells l (Ent r) = Some e \<and> e_data e = d)"
  shows "list_at l xs"
  using assms unfolding list_at_def by blast

lemma list_at_data:
  assumes "list_at l xs" and "(r, d) \<in> set xs"
  shows "r < fresh_cell l \<and> (\<exists>e. cells l (Ent r) = Some e \<and> e_data e = d)"
proof -
  have "\<forall>(r, d)\<in>set xs. r < fresh_cell l \<and> (\<exists>e. cells l (Ent r) = Some e \<and> e_data e = d)"
    using assms(1) unfolding list_at_def by (elim conjE)
  from bspec [OF this assms(2)] show ?thesis by simp
qed

section \<open>Insertion and removal\<close>

text \<open>The cells around a gap between \<open>ys\<close> and \<open>zs\<close>.\<close>

lemma gap:
  obtains A p c B where "Head # map (\<lambda>x. Ent (fst x)) ys = A @ [p]" "cells_of zs = c # B" "c = hd (cells_of zs)"
proof -
  have "Head # map (\<lambda>x. Ent (fst x)) ys \<noteq> []" by simp
  then obtain A p where "Head # map (\<lambda>x. Ent (fst x)) ys = A @ [p]" by (metis rev_exhaust)
  moreover obtain c B where "cells_of zs = c # B" by (cases "cells_of zs") auto
  ultimately show ?thesis using that by fastforce
qed

lemma link_in:
  assumes at: "list_at l (ys @ zs)" and r: "r = fresh_cell l" and c: "c = hd (cells_of zs)"
  shows "\<exists>e p l1 l2. cells l c = Some e \<and> e_prev e = Some p \<and>
    set_next (Some p) (Some (Ent r)) (put_cell (Ent r) \<lparr>e_data = d, e_prev = Some p, e_next = Some c\<rparr>
      (l\<lparr>fresh_cell := Suc r\<rparr>)) = Some l1 \<and>
    set_prev (Some c) (Some (Ent r)) l1 = Some l2 \<and>
    list_at (l2\<lparr>l_count := l_count l2 + 1\<rparr>) (ys @ (r, d) # zs)"
proof -
  obtain A p B where g: "Head # map (\<lambda>x. Ent (fst x)) ys = A @ [p]" "cells_of zs = c # B"
    using gap [of ys zs] c by metis
  have all: "Head # cells_of (ys @ zs) = A @ p # c # B"
    using g by simp
  have lk: "linked (cells l) (A @ p # c # B)" and dist: "distinct (A @ p # c # B)"
    using at distinct_cells [of "ys @ zs"] unfolding all [symmetric] by (simp_all only: list_at_def)
  have fresh: "Ent r \<notin> set (A @ p # c # B)"
    using at unfolding all [symmetric] by (auto simp: list_at_def r)
  have lk2: "linked (cells l) (A @ [p])" "nxt (cells l) p = Some c" "prv (cells l) c = Some p" "linked (cells l) (c # B)"
    using lk linked_split [of "cells l" A p "c # B"] by auto
  obtain pe e where e: "cells l p = Some pe" "cells l c = Some e" "e_prev e = Some p"
    using lk2(2,3) by (auto simp: nxt_def prv_def bind_eq_Some_conv)
  define h where "h = (cells l)(Ent r \<mapsto> \<lparr>e_data = d, e_prev = Some p, e_next = Some c\<rparr>,
    p \<mapsto> pe\<lparr>e_next := Some (Ent r)\<rparr>, c \<mapsto> e\<lparr>e_prev := Some (Ent r)\<rparr>)"
  define l2 where "l2 = l\<lparr>fresh_cell := Suc r, cells := h\<rparr>"
  have ne: "p \<noteq> Ent r" "c \<noteq> Ent r" "p \<noteq> c" using fresh dist by auto
  have l1: "set_next (Some p) (Some (Ent r)) (put_cell (Ent r) \<lparr>e_data = d, e_prev = Some p, e_next = Some c\<rparr>
      (l\<lparr>fresh_cell := Suc r\<rparr>)) = Some (l\<lparr>fresh_cell := Suc r, cells := (cells l)(Ent r \<mapsto>
      \<lparr>e_data = d, e_prev = Some p, e_next = Some c\<rparr>, p \<mapsto> pe\<lparr>e_next := Some (Ent r)\<rparr>)\<rparr>)"
    using ne e(1) by (simp add: set_next_def put_cell_def)
  have l2: "set_prev (Some c) (Some (Ent r)) (l\<lparr>fresh_cell := Suc r, cells := (cells l)(Ent r \<mapsto>
      \<lparr>e_data = d, e_prev = Some p, e_next = Some c\<rparr>, p \<mapsto> pe\<lparr>e_next := Some (Ent r)\<rparr>)\<rparr>) = Some l2"
    using ne e(2) by (simp add: set_prev_def put_cell_def l2_def h_def)
  have nx: "nxt (cells l) a = nxt h a" if "a \<noteq> p" "a \<noteq> Ent r" for a
    using that e(2) by (simp add: nxt_def h_def)
  have pv: "prv (cells l) a = prv h a" if "a \<noteq> c" "a \<noteq> Ent r" for a
    using that e(1) by (simp add: prv_def h_def)
  have "linked h (A @ [p])"
  proof (rule linked_cong [OF _ _ lk2(1)])
    fix a assume "a \<in> set (butlast (A @ [p]))"
    then have "a \<noteq> p" "a \<noteq> Ent r" using fresh dist by auto
    then show "nxt (cells l) a = nxt h a" by (rule nx)
  next
    fix a assume "a \<in> set (tl (A @ [p]))"
    then have "a \<in> set (A @ [p])" by (cases A) auto
    then have "a \<noteq> c" "a \<noteq> Ent r" using fresh dist by auto
    then show "prv (cells l) a = prv h a" by (rule pv)
  qed
  moreover have "linked h (c # B)"
  proof (rule linked_cong [OF _ _ lk2(4)])
    fix a assume "a \<in> set (butlast (c # B))"
    then have "a \<in> set (c # B)" by (rule in_set_butlastD)
    then have "a \<noteq> p" "a \<noteq> Ent r" using fresh dist by auto
    then show "nxt (cells l) a = nxt h a" by (rule nx)
  next
    fix a assume "a \<in> set (tl (c # B))"
    then have "a \<noteq> c" "a \<noteq> Ent r" using fresh dist by auto
    then show "prv (cells l) a = prv h a" by (rule pv)
  qed
  moreover have "nxt h p = Some (Ent r)" "prv h (Ent r) = Some p" "nxt h (Ent r) = Some c" "prv h c = Some (Ent r)"
    using ne by (simp_all add: h_def nxt_def prv_def)
  ultimately have "linked h (A @ p # Ent r # c # B)"
    by (subst linked_split) simp
  moreover have "A @ p # Ent r # c # B = Head # cells_of (ys @ (r, d) # zs)" using g by simp
  ultimately have "linked h (Head # cells_of (ys @ (r, d) # zs))" by simp
  moreover have "\<exists>e'. h (Ent q) = Some e' \<and> e_data e' = d'" if "(q, d') \<in> set (ys @ (r, d) # zs)" for q d'
  proof (cases "q = r")
    case True
    have "d' = d" using that True at by (auto simp: list_at_def r)
    then show ?thesis using True ne by (simp add: h_def)
  next
    case False
    with that have "(q, d') \<in> set (ys @ zs)" by simp
    then have "\<exists>e'. cells l (Ent q) = Some e' \<and> e_data e' = d'" using list_at_data [OF at] by blast
    then obtain e' where "cells l (Ent q) = Some e'" "e_data e' = d'" by blast
    then show ?thesis using False e by (auto simp: h_def)
  qed
  moreover have "distinct (map fst (ys @ (r, d) # zs))"
    using at by (auto simp: list_at_def r)
  moreover have "q < Suc r" if "(q, d') \<in> set (ys @ (r, d) # zs)" for q d'
  proof (cases "q = r")
    case False
    with that have "(q, d') \<in> set (ys @ zs)" by simp
    from list_at_data [OF at this] show ?thesis by (simp add: r)
  qed simp
  moreover have "l_count l + 1 = of_nat (length (ys @ (r, d) # zs))" using at by (simp add: list_at_def)
  ultimately have "list_at (l2\<lparr>l_count := l_count l2 + 1\<rparr>) (ys @ (r, d) # zs)"
    by (intro list_atI conjI) (simp_all add: l2_def)
  with l1 l2 e show ?thesis by blast
qed

lemma list_insert_at:
  assumes "list_at l xs"
  shows "\<exists>l' ys zs. list_insert cmp d l = Some (fresh_cell l, l') \<and> list_at l' (ys @ (fresh_cell l, d) # zs) \<and>
    xs = ys @ zs \<and> (case cmp of None \<Rightarrow> zs = []
      | Some f \<Rightarrow> ys = takeWhile (\<lambda>x. f d (snd x) > 0) xs \<and> zs = dropWhile (\<lambda>x. f d (snd x) > 0) xs)"
proof -
  obtain e0 where e0: "cells l Head = Some e0" "e_next e0 = Some (hd (cells_of xs))"
    "linked (cells l) (cells_of xs)" "holds (cells l) xs" using list_at_first [OF assms] by blast
  obtain ys zs where yz: "xs = ys @ zs" "case cmp of None \<Rightarrow> zs = []
      | Some f \<Rightarrow> ys = takeWhile (\<lambda>x. f d (snd x) > 0) xs \<and> zs = dropWhile (\<lambda>x. f d (snd x) > 0) xs"
  proof (cases cmp)
    case None
    then show ?thesis using that [of xs "[]"] by simp
  next
    case (Some f)
    then show ?thesis
      using that [of "takeWhile (\<lambda>x. f d (snd x) > 0) xs" "dropWhile (\<lambda>x. f d (snd x) > 0) xs"] by simp
  qed
  have pos: "(case cmp of None \<Rightarrow> Some Tail
       | Some cmp \<Rightarrow> do { hd \<leftarrow> cells l Head; c \<leftarrow> e_next hd; insert_pos cmp (cells l) d c }) = Some (hd (cells_of zs))"
    using yz(2) e0(1,2) insert_pos_walk [OF e0(3,4)] by (cases cmp) simp_all
  from link_in [OF assms [unfolded yz(1)] refl refl, of d] obtain e p l1 l2 where
    "cells l (hd (cells_of zs)) = Some e" "e_prev e = Some p"
    "set_next (Some p) (Some (Ent (fresh_cell l))) (put_cell (Ent (fresh_cell l))
      \<lparr>e_data = d, e_prev = Some p, e_next = Some (hd (cells_of zs))\<rparr> (l\<lparr>fresh_cell := Suc (fresh_cell l)\<rparr>)) = Some l1"
    "set_prev (Some (hd (cells_of zs))) (Some (Ent (fresh_cell l))) l1 = Some l2"
    "list_at (l2\<lparr>l_count := l_count l2 + 1\<rparr>) (ys @ (fresh_cell l, d) # zs)" by blast
  with pos have "list_insert cmp d l = Some (fresh_cell l, l2\<lparr>l_count := l_count l2 + 1\<rparr>)"
    by (simp add: list_insert_def Let_def cong: option.case_cong)
  with yz \<open>list_at (l2\<lparr>l_count := l_count l2 + 1\<rparr>) (ys @ (fresh_cell l, d) # zs)\<close> show ?thesis by blast
qed

lemma link_out:
  assumes at: "list_at l (ys @ (r, d) # zs)"
  shows "\<exists>e p c l1 l2. cells l (Ent r) = Some e \<and> e_data e = d \<and> e_prev e = Some p \<and> e_next e = Some c \<and>
    set_next (Some p) (Some c) l = Some l1 \<and> set_prev (Some c) (Some p) l1 = Some l2 \<and>
    cells l2 (Ent r) = Some e \<and> l_count l2 = l_count l \<and>
    list_at (l2\<lparr>l_count := l_count l - 1, cells := (cells l2)(Ent r := None)\<rparr>) (ys @ zs)"
proof -
  obtain A p c B where g: "Head # map (\<lambda>x. Ent (fst x)) ys = A @ [p]" "cells_of zs = c # B"
    using gap [of ys zs] by metis
  have all: "Head # cells_of (ys @ (r, d) # zs) = A @ p # Ent r # c # B" using g by simp
  have lk: "linked (cells l) (A @ p # Ent r # c # B)" and dist: "distinct (A @ p # Ent r # c # B)"
    using at distinct_cells [of "ys @ (r, d) # zs"] unfolding all [symmetric] by (simp_all only: list_at_def)
  have lk2: "linked (cells l) (A @ [p])" "nxt (cells l) p = Some (Ent r)" "prv (cells l) (Ent r) = Some p"
    "nxt (cells l) (Ent r) = Some c" "prv (cells l) c = Some (Ent r)" "linked (cells l) (c # B)"
    using lk linked_split [of "cells l" A p "Ent r # c # B"] by auto
  obtain pe e ce where e: "cells l p = Some pe" "cells l (Ent r) = Some e" "cells l c = Some ce"
    "e_prev e = Some p" "e_next e = Some c"
    using lk2(2-5) by (auto simp: nxt_def prv_def bind_eq_Some_conv)
  have ed: "e_data e = d" using at e(2) by (auto simp: list_at_def)
  define l2 where "l2 = l\<lparr>cells := (cells l)(p \<mapsto> pe\<lparr>e_next := Some c\<rparr>, c \<mapsto> ce\<lparr>e_prev := Some p\<rparr>)\<rparr>"
  have ne: "p \<noteq> Ent r" "c \<noteq> Ent r" "p \<noteq> c" using dist by auto
  have l1: "set_next (Some p) (Some c) l = Some (l\<lparr>cells := (cells l)(p \<mapsto> pe\<lparr>e_next := Some c\<rparr>)\<rparr>)"
    using e(1) by (simp add: set_next_def put_cell_def)
  have l2: "set_prev (Some c) (Some p) (l\<lparr>cells := (cells l)(p \<mapsto> pe\<lparr>e_next := Some c\<rparr>)\<rparr>) = Some l2"
    using ne e(3) by (simp add: set_prev_def put_cell_def l2_def)
  define h where "h = (cells l2)(Ent r := None)"
  have nx: "nxt (cells l) a = nxt h a" if "a \<noteq> p" "a \<noteq> Ent r" for a
    using that e(3) by (simp add: nxt_def h_def l2_def)
  have pv: "prv (cells l) a = prv h a" if "a \<noteq> c" "a \<noteq> Ent r" for a
    using that e(1) by (simp add: prv_def h_def l2_def)
  have "linked h (A @ [p])"
  proof (rule linked_cong [OF _ _ lk2(1)])
    fix a assume "a \<in> set (butlast (A @ [p]))"
    then have "a \<noteq> p" "a \<noteq> Ent r" using dist by auto
    then show "nxt (cells l) a = nxt h a" by (rule nx)
  next
    fix a assume "a \<in> set (tl (A @ [p]))"
    then have "a \<in> set (A @ [p])" by (cases A) auto
    then have "a \<noteq> c" "a \<noteq> Ent r" using dist by auto
    then show "prv (cells l) a = prv h a" by (rule pv)
  qed
  moreover have "linked h (c # B)"
  proof (rule linked_cong [OF _ _ lk2(6)])
    fix a assume "a \<in> set (butlast (c # B))"
    then have "a \<in> set (c # B)" by (rule in_set_butlastD)
    then have "a \<noteq> p" "a \<noteq> Ent r" using dist by auto
    then show "nxt (cells l) a = nxt h a" by (rule nx)
  next
    fix a assume "a \<in> set (tl (c # B))"
    then have "a \<noteq> c" "a \<noteq> Ent r" using dist by auto
    then show "prv (cells l) a = prv h a" by (rule pv)
  qed
  moreover have "nxt h p = Some c" "prv h c = Some p" using ne by (simp_all add: h_def l2_def nxt_def prv_def)
  ultimately have "linked h (A @ p # c # B)" by (subst linked_split) simp
  moreover have "A @ p # c # B = Head # cells_of (ys @ zs)" using g by simp
  ultimately have "linked h (Head # cells_of (ys @ zs))" by simp
  moreover have "\<exists>e'. h (Ent q) = Some e' \<and> e_data e' = d'" if q: "(q, d') \<in> set (ys @ zs)" for q d'
  proof -
    have "distinct (map fst (ys @ (r, d) # zs))" using at by (simp add: list_at_def)
    then have "r \<notin> fst ` set (ys @ zs)" by auto
    then have "q \<noteq> r" using q by (metis fst_conv imageI)
    moreover have "(q, d') \<in> set (ys @ (r, d) # zs)" using q by auto
    then have "\<exists>e'. cells l (Ent q) = Some e' \<and> e_data e' = d'" using list_at_data [OF at] by blast
    ultimately show ?thesis using e by (auto simp: h_def l2_def)
  qed
  moreover have "q < fresh_cell l" if "(q, d') \<in> set (ys @ zs)" for q d'
    using list_at_data [OF at, of q d'] that by auto
  moreover have "distinct (map fst (ys @ zs))" "l_count l - 1 = of_nat (length (ys @ zs))"
    using at by (auto simp: list_at_def)
  ultimately have "list_at (l2\<lparr>l_count := l_count l - 1, cells := h\<rparr>) (ys @ zs)"
    by (intro list_atI conjI) (simp_all add: l2_def)
  moreover have "cells l2 (Ent r) = Some e" "l_count l2 = l_count l" using ne e(2) by (simp_all add: l2_def)
  ultimately show ?thesis using l1 l2 e ed unfolding h_def by blast
qed

lemma list_remove_at:
  assumes "list_at l (ys @ (r, d) # zs)" and "length (ys @ zs) < 2 ^ 32 - 1"
  shows "\<exists>l'. list_remove f (Some r) l = Some (True, if f then [d] else [], l') \<and> list_at l' (ys @ zs)"
proof -
  have "l_count l = of_nat (Suc (length (ys @ zs)))" using assms(1) by (simp add: list_at_def)
  then have "unat (l_count l) = Suc (length (ys @ zs))"
    using assms(2) by (simp add: unsigned_of_nat take_bit_nat_eq_self del: of_nat_Suc)
  then have "l_count l \<noteq> 0" by auto
  with link_out [OF assms(1)] show ?thesis by (auto simp: list_remove_def)
qed

section \<open>Walks\<close>

fun foreach_spec :: "('d option \<Rightarrow> 's \<Rightarrow> int \<times> 's) \<Rightarrow> 'd option list \<Rightarrow> int \<Rightarrow> 's \<Rightarrow> int \<times> 's" where
  "foreach_spec f [] ret s = (ret, s)"
| "foreach_spec f (d # ds) ret s = (case f d s of (r, s) \<Rightarrow> foreach_spec f ds (max ret r) s)"

lemma foreach_walk:
  "linked h (cells_of xs) \<Longrightarrow> holds h xs \<Longrightarrow>
   foreach_loop f h (hd (cells_of xs)) ret s = Some (foreach_spec f (map snd xs) ret s)"
proof (induction xs arbitrary: ret s)
  case Nil
  then show ?case by (simp add: foreach_loop.simps)
next
  case (Cons x xs)
  obtain r d where x: "x = (r, d)" by (cases x)
  have "linked h (Ent r # cells_of xs)" "holds h ((r, d) # xs)" using Cons.prems x by simp_all
  from step_cell [OF this] obtain e where
    "h (Ent r) = Some e" "e_data e = d" "e_next e = Some (hd (cells_of xs))" "linked h (cells_of xs)" "holds h xs"
    by blast
  with Cons.IH show ?case
    by (subst foreach_loop.simps) (simp add: x split: prod.splits)
qed

lemma search_walk:
  "linked h (cells_of xs) \<Longrightarrow> holds h xs \<Longrightarrow>
   search_loop f h d (hd (cells_of xs)) =
     Some (map_option (\<lambda>x. Ent (fst x)) (find (\<lambda>x. f d (snd x) = 0) xs))"
proof (induction xs)
  case Nil
  then show ?case by (simp add: search_loop.simps)
next
  case (Cons x xs)
  obtain r d' where x: "x = (r, d')" by (cases x)
  have "linked h (Ent r # cells_of xs)" "holds h ((r, d') # xs)" using Cons.prems x by simp_all
  from step_cell [OF this] obtain e where
    "h (Ent r) = Some e" "e_data e = d'" "e_next e = Some (hd (cells_of xs))" "linked h (cells_of xs)" "holds h xs"
    by blast
  with Cons.IH show ?case by (subst search_loop.simps) (simp add: x)
qed

text \<open>\<open>list_destroy\<close> frees every entry, each once, reading none after it is freed.\<close>

lemma destroy_walk:
  assumes "linked h (cells_of xs)" and "holds h xs" and "distinct (map fst xs)" and "length xs < 2 ^ 32"
  shows "\<exists>h'. destroy_loop b (of_nat (length xs)) (Some (hd (cells_of xs))) h calls =
      Some (h', calls @ (if b then List.map_filter snd xs else [])) \<and>
    (\<forall>(r, d)\<in>set xs. h' (Ent r) = None) \<and> (\<forall>a. a \<notin> Ent ` fst ` set xs \<longrightarrow> h' a = h a)"
  using assms
proof (induction xs arbitrary: h calls)
  case Nil
  then show ?case by (simp add: destroy_loop.simps map_filter_simps)
next
  case (Cons x xs)
  obtain r d where x: "x = (r, d)" by (cases x)
  have "linked h (Ent r # cells_of xs)" "holds h ((r, d) # xs)" using Cons.prems x by simp_all
  from step_cell [OF this] obtain e where e:
    "h (Ent r) = Some e" "e_data e = d" "e_next e = Some (hd (cells_of xs))" "linked h (cells_of xs)" "holds h xs"
    by blast
  define calls' where "calls' = (case d of Some y \<Rightarrow> if b then calls @ [y] else calls | None \<Rightarrow> calls)"
  have r: "r \<notin> fst ` set xs" using Cons.prems(3) by (simp add: x)
  have other: "(h(Ent r := None)) a = h a" if "a \<in> set (cells_of xs)" for a
    using that r by (auto simp: image_iff)
  have A: "linked (h(Ent r := None)) (cells_of xs)"
  proof (rule linked_cong [OF _ _ e(4)])
    fix a assume "a \<in> set (butlast (cells_of xs))"
    then have "a \<in> set (cells_of xs)" by (rule in_set_butlastD)
    from other [OF this] show "nxt h a = nxt (h(Ent r := None)) a" unfolding nxt_def by simp
  next
    fix a assume "a \<in> set (tl (cells_of xs))"
    then have "a \<in> set (cells_of xs)" by (rule list.set_sel(2) [rotated]) simp
    from other [OF this] show "prv h a = prv (h(Ent r := None)) a" unfolding prv_def by simp
  qed
  have B: "holds (h(Ent r := None)) xs"
    unfolding holds_def
  proof clarify
    fix q d' assume q: "(q, d') \<in> set xs"
    then have "q \<noteq> r" using r by (metis fst_conv imageI)
    with e(5) q show "\<exists>e. (h(Ent r := None)) (Ent q) = Some e \<and> e_data e = d'" unfolding holds_def by auto
  qed
  have "distinct (map fst xs)" "length xs < 2 ^ 32" using Cons.prems(3,4) by simp_all
  from Cons.IH [OF A B this, of calls'] obtain h' where h': "destroy_loop b (of_nat (length xs)) (Some (hd (cells_of xs))) (h(Ent r := None)) calls' =
      Some (h', calls' @ (if b then List.map_filter snd xs else []))"
    "\<forall>(r, d)\<in>set xs. h' (Ent r) = None" "\<forall>a. a \<notin> Ent ` fst ` set xs \<longrightarrow> h' a = (h(Ent r := None)) a"
    by blast
  have n: "(of_nat (length (x # xs)) :: u32) > 0" "(of_nat (length (x # xs)) :: u32) - 1 = of_nat (length xs)"
  proof -
    have "unat (of_nat (length (x # xs)) :: u32) = length (x # xs)"
      using Cons.prems(4) by (simp add: unsigned_of_nat take_bit_nat_eq_self del: of_nat_Suc)
    then show "(of_nat (length (x # xs)) :: u32) > 0" by (simp add: word_less_nat_alt del: of_nat_Suc)
  qed simp
  have "destroy_loop b (of_nat (length (x # xs))) (Some (hd (cells_of (x # xs)))) h calls =
      destroy_loop b (of_nat (length xs)) (Some (hd (cells_of xs))) (h(Ent r := None)) calls'"
    using n e(1-3) by (subst destroy_loop.simps) (simp add: x calls'_def Let_def)
  moreover have "calls' @ (if b then List.map_filter snd xs else []) = calls @ (if b then List.map_filter snd (x # xs) else [])"
    by (simp add: calls'_def x map_filter_simps split: option.splits)
  moreover have "h' (Ent r) = None" using h'(3) r by (auto simp: image_iff)
  ultimately show ?case using h' by (intro exI [of _ h']) (auto simp: x)
qed

section \<open>Properties\<close>

text \<open>
  C26: \<open>list_insert\<close> on a well-formed list keeps it well-formed and adds exactly one entry, whose cell it
  returns: with an order the new data goes before the first entry that the order does not place
  before it, and without one at the end.
\<close>

theorem list_insert_refines:
  assumes "list_at l xs"
  shows "\<exists>l'. list_insert cmp d l = Some (fresh_cell l, l') \<and>
    list_at l' (case cmp of None \<Rightarrow> xs @ [(fresh_cell l, d)]
      | Some f \<Rightarrow> takeWhile (\<lambda>x. f d (snd x) > 0) xs @ (fresh_cell l, d) # dropWhile (\<lambda>x. f d (snd x) > 0) xs)"
  using list_insert_at [OF assms, of cmp d] by (cases cmp) auto

theorem list_insert_refines_witness:
  "\<exists>l'. list_insert (Some (\<lambda>a b. the a - the b)) (Some (3::int)) list_init = Some (0, l') \<and> list_at l' [(0, Some 3)]"
  using list_insert_refines [OF list_at_init, of "Some (\<lambda>a b. the a - the b)" "Some (3::int)"]
  by (simp add: list_init_def)

text \<open>
  With an order given by a key, as \<open>list.h\<close> asks, inserting into a list ordered by that key leaves
  it ordered: the list with 2 inserted into 1, 3, 4 is 1, 2, 3, 4.
\<close>

theorem list_insert_keeps_order:
  fixes key :: "'d option \<Rightarrow> int"
  assumes "list_at l xs" and "sorted (map (key \<circ> snd) xs)"
  shows "\<exists>l' xs'. list_insert (Some (\<lambda>a b. key a - key b)) d l = Some (fresh_cell l, l') \<and> list_at l' xs' \<and>
    sorted (map (key \<circ> snd) xs') \<and> mset xs' = add_mset (fresh_cell l, d) (mset xs)"
proof -
  let ?P = "\<lambda>x. key d - key (snd x) > 0"
  from list_insert_at [OF assms(1), of "Some (\<lambda>a b. key a - key b)" d] obtain l' where
    l': "list_insert (Some (\<lambda>a b. key a - key b)) d l = Some (fresh_cell l, l')"
      "list_at l' (takeWhile ?P xs @ (fresh_cell l, d) # dropWhile ?P xs)" by auto
  have "sorted (map (key \<circ> snd) (takeWhile ?P xs @ (fresh_cell l, d) # dropWhile ?P xs))"
  proof -
    have s: "sorted (map (key \<circ> snd) (takeWhile ?P xs))" "sorted (map (key \<circ> snd) (dropWhile ?P xs))"
      using assms(2) sorted_append [of "map (key \<circ> snd) (takeWhile ?P xs)" "map (key \<circ> snd) (dropWhile ?P xs)"]
      by (simp_all flip: map_append)
    have lo: "key (snd x) < key d" if "x \<in> set (takeWhile ?P xs)" for x
      using set_takeWhileD [OF that] by simp
    have hi: "key d \<le> key (snd x)" if "x \<in> set (dropWhile ?P xs)" for x
    proof -
      have "dropWhile ?P xs \<noteq> []" using that by (metis list.set(1) empty_iff)
      then obtain y ys where dw: "dropWhile ?P xs = y # ys" by (meson neq_Nil_conv)
      then have "key d \<le> key (snd y)" using hd_dropWhile [of ?P xs] by simp
      moreover have "key (snd y) \<le> key (snd x)" using s(2) that unfolding dw by auto
      ultimately show ?thesis by simp
    qed
    show ?thesis using s lo hi by (force simp: sorted_append)
  qed
  moreover have "mset (takeWhile ?P xs @ (fresh_cell l, d) # dropWhile ?P xs) = add_mset (fresh_cell l, d) (mset xs)"
    using arg_cong [OF takeWhile_dropWhile_id [of ?P xs], of mset] by (simp only: mset_append) simp
  ultimately show ?thesis using l' by blast
qed

theorem list_insert_keeps_order_witness:
  "\<exists>l' xs'. list_insert (Some (\<lambda>a b. the a - the b)) (Some (2::int)) list_init = Some (0, l') \<and> list_at l' xs' \<and>
     mset xs' = {#(0, Some 2)#}"
  using list_insert_keeps_order [OF list_at_init, of the "Some 2"] by (simp add: list_init_def)

text \<open>
  \<open>list_remove\<close> of an entry of a well-formed list takes out that entry and no other, keeps the order
  of the rest, and calls the destructor on its data once.
\<close>

theorem list_remove_refines:
  assumes "list_at l (ys @ (r, d) # zs)" and "length (ys @ zs) < 2 ^ 32 - 1"
  shows "\<exists>l'. list_remove f (Some r) l = Some (True, if f then [d] else [], l') \<and> list_at l' (ys @ zs)"
  using assms by (rule list_remove_at)

theorem list_remove_refines_witness:
  "\<exists>l l'. list_insert None (Some True) list_init = Some (0, l) \<and> list_remove True (Some 0) l = Some (True, [Some True], l') \<and>
     list_at l' []"
proof -
  from list_insert_at [OF list_at_init, of None "Some True"] obtain l where
    l: "list_insert None (Some True) list_init = Some (0, l)" "list_at l ([] @ (0, Some True) # [])"
    by (auto simp: list_init_def)
  from list_remove_refines [OF l(2), of True] l(1) show ?thesis by auto
qed

text \<open>
  The walks over a well-formed list end and see its entries in order, each once: \<open>list_search\<close>
  returns the first entry that compares equal, \<open>list_foreach\<close> the maximum of the codes of all calls,
  and \<open>list_destroy\<close> frees every entry and calls the destructor on every datum that is not \<open>NULL\<close>.
\<close>

theorem list_walks_refine:
  assumes "list_at l xs" and "length xs < 2 ^ 32"
  shows "list_search cmp d l = Some (map_option (\<lambda>x. Ent (fst x)) (find (\<lambda>x. cmp d (snd x) = 0) xs)) \<and>
    list_foreach f l s = Some (foreach_spec f (map snd xs) 0 s) \<and>
    (\<exists>h. list_destroy True l = Some (h, List.map_filter snd xs) \<and> (\<forall>(r, d)\<in>set xs. h (Ent r) = None))"
proof -
  obtain e where e: "cells l Head = Some e" "e_next e = Some (hd (cells_of xs))"
    "linked (cells l) (cells_of xs)" "holds (cells l) xs" using list_at_first [OF assms(1)] by blast
  have n: "distinct (map fst xs)" "l_count l = of_nat (length xs)" using assms(1) by (simp_all add: list_at_def)
  from destroy_walk [OF e(3,4) n(1) assms(2), of True "[]"]
  have "\<exists>h. list_destroy True l = Some (h, List.map_filter snd xs) \<and> (\<forall>(r, d)\<in>set xs. h (Ent r) = None)"
    using e(1,2) n(2) by (auto simp: list_destroy_def)
  with e search_walk [OF e(3,4), of cmp d] foreach_walk [OF e(3,4), of f 0 s] show ?thesis
    by (simp add: list_search_def list_foreach_def)
qed

theorem list_walks_refine_witness:
  "list_search (\<lambda>a b. the a - the b) (Some (1::int)) list_init = Some None"
  using list_walks_refine [OF list_at_init, of "\<lambda>a b. the a - the b" "Some (1::int)" "\<lambda>_ s. (0, s)" "()"] by simp

end
