(* ===== verification/Cp_Thr_Pool.thy ===== *)
theory Cp_Thr_Pool
  imports Prelude "HOL-Library.Multiset"
begin

text \<open>
  \<open>thr_pool/thr_pool.c\<close>: the pool of worker threads that runs the control plane's requests. Everything
  between locking and unlocking (or waiting on a condition, which unlocks) the pool's mutex is one
  atomic step; \<open>inductive tp_step\<close> interleaves the steps of the callers and of the workers. Waits may
  end spuriously, as POSIX allows, so signals and broadcasts need no state of their own. The job
  queue (\<open>pool_head\<close> to \<open>pool_tail\<close>) and the list of active threads are lists, first element first.
  The outcome of \<open>pthread_create\<close> is an argument. The attributes of the threads and the global ring
  of pools are not modelled.
\<close>

type_synonym tid = nat

text \<open>A worker: created but not yet running, waiting (with or without a time limit) on
  \<open>pool_workcv\<close>, or running a job.\<close>

datatype 'j wstate = WNew | WWait bool | WRun 'j

record 'j pool =
  pool_active :: "tid list"
  pool_jobs :: "'j list"
  flag_wait :: bool
  flag_destroy :: bool
  pool_linger :: u32
  pool_minimum :: int
  pool_maximum :: int
  pool_nthreads :: int
  pool_idle :: int

text \<open>The threads of the pool, and the history of its jobs.\<close>

record 'j tp_state = "'j pool" +
  workers :: "tid \<Rightarrow> 'j wstate option"
  next_tid :: tid
  submitted :: "'j list"
  started :: "'j list"
  finished :: "'j list"
  create_failed :: bool

definition thr_pool_create :: "u32 \<Rightarrow> u32 \<Rightarrow> u32 \<Rightarrow> 'j tp_state option" where
  "thr_pool_create min_threads max_threads linger =
     (if min_threads > max_threads \<or> max_threads < 1 then None
      else Some \<lparr>pool_active = [], pool_jobs = [], flag_wait = False, flag_destroy = False,
        pool_linger = linger, pool_minimum = sint min_threads, pool_maximum = sint max_threads,
        pool_nthreads = 0, pool_idle = 0,
        workers = Map.empty, next_tid = 0, submitted = [], started = [], finished = [], create_failed = False\<rparr>)"

definition create_worker :: "bool \<Rightarrow> 'j tp_state \<Rightarrow> bool \<times> 'j tp_state" where
  "create_worker ok s =
     (if ok then (True, s\<lparr>workers := (workers s)(next_tid s \<mapsto> WNew), next_tid := Suc (next_tid s)\<rparr>)
      else (False, s\<lparr>create_failed := True\<rparr>))"

text \<open>\<open>if (pool_nthreads < pool_maximum && create_worker(pool) == 0) pool_nthreads++\<close>\<close>

definition grow :: "bool \<Rightarrow> 'j tp_state \<Rightarrow> 'j tp_state" where
  "grow ok s =
     (if pool_nthreads s < pool_maximum s then
        (case create_worker ok s of
           (True, s) \<Rightarrow> s\<lparr>pool_nthreads := pool_nthreads s + 1\<rparr>
         | (False, s) \<Rightarrow> s)
      else s)"

definition notify_waiters :: "'j tp_state \<Rightarrow> 'j tp_state" where
  "notify_waiters s = (if pool_jobs s = [] \<and> pool_active s = [] then s\<lparr>flag_wait := False\<rparr> else s)"

definition worker_cleanup :: "bool \<Rightarrow> tid \<Rightarrow> 'j tp_state \<Rightarrow> 'j tp_state" where
  "worker_cleanup ok t s =
     (let s = s\<lparr>pool_nthreads := pool_nthreads s - 1, workers := (workers s)(t := None)\<rparr>
      in if flag_destroy s then s
         else if pool_jobs s \<noteq> [] then grow ok s
         else s)"

definition job_cleanup :: "tid \<Rightarrow> 'j \<Rightarrow> 'j tp_state \<Rightarrow> 'j tp_state" where
  "job_cleanup t j s =
     (let s = s\<lparr>pool_active := remove1 t (pool_active s), finished := finished s @ [j]\<rparr>
      in if flag_wait s then notify_waiters s else s)"

text \<open>
  The main loop of a worker, up to the point where it waits, runs a job or exits: \<open>worker_leave\<close> is
  what follows the wait loop. A worker that timed out while the pool is at its minimum goes round
  the loop once more and waits without a limit.
\<close>

definition worker_leave :: "bool \<Rightarrow> tid \<Rightarrow> bool \<Rightarrow> 'j tp_state \<Rightarrow> 'j tp_state" where
  "worker_leave ok t timedout s =
     (let s = s\<lparr>pool_idle := pool_idle s - 1\<rparr>
      in if flag_destroy s then worker_cleanup ok t s
         else (case pool_jobs s of
             j # js \<Rightarrow> s\<lparr>pool_jobs := js, pool_active := t # pool_active s, workers := (workers s)(t \<mapsto> WRun j),
                started := started s @ [j]\<rparr>
           | [] \<Rightarrow>
             if timedout \<and> pool_nthreads s > pool_minimum s then worker_cleanup ok t s
             else (let s = s\<lparr>pool_idle := pool_idle s + 1\<rparr>;
                       s = (if flag_wait s then notify_waiters s else s)
                   in s\<lparr>workers := (workers s)(t \<mapsto> WWait False)\<rparr>)))"

definition worker_test :: "bool \<Rightarrow> tid \<Rightarrow> 'j tp_state \<Rightarrow> 'j tp_state" where
  "worker_test ok t s =
     (if pool_jobs s = [] \<and> \<not> flag_destroy s then
        (if pool_nthreads s \<le> pool_minimum s then s\<lparr>workers := (workers s)(t \<mapsto> WWait False)\<rparr>
         else if pool_linger s = 0 then worker_leave ok t True s
         else s\<lparr>workers := (workers s)(t \<mapsto> WWait True)\<rparr>)
      else worker_leave ok t False s)"

definition worker_top :: "bool \<Rightarrow> tid \<Rightarrow> 'j tp_state \<Rightarrow> 'j tp_state" where
  "worker_top ok t s =
     (let s = s\<lparr>pool_idle := pool_idle s + 1, workers := (workers s)(t \<mapsto> WWait False)\<rparr>;
          s = (if flag_wait s then notify_waiters s else s)
      in worker_test ok t s)"

definition thr_pool_queue :: "bool \<Rightarrow> 'j \<Rightarrow> 'j tp_state \<Rightarrow> 'j tp_state" where
  "thr_pool_queue ok j s =
     (let s = s\<lparr>pool_jobs := pool_jobs s @ [j], submitted := submitted s @ [j]\<rparr>
      in if pool_idle s > 0 then s else grow ok s)"

text \<open>One test of the loop of \<open>thr_pool_wait\<close>: whether it returns, or the state it waits in.\<close>

definition thr_pool_wait :: "'j tp_state \<Rightarrow> bool \<times> 'j tp_state" where
  "thr_pool_wait s =
     (if pool_jobs s \<noteq> [] \<or> pool_active s \<noteq> [] then (False, s\<lparr>flag_wait := True\<rparr>) else (True, s))"

text \<open>\<open>thr_pool_destroy\<close> marks the pool, and then tests its two wait loops until both let it pass.
  Cancelling the active workers makes their jobs exit.\<close>

definition destroy_mark :: "'j tp_state \<Rightarrow> 'j tp_state" where
  "destroy_mark s = s\<lparr>flag_destroy := True\<rparr>"

definition destroy_wait :: "'j tp_state \<Rightarrow> bool \<times> 'j tp_state" where
  "destroy_wait s =
     (if pool_active s \<noteq> [] then (False, s\<lparr>flag_wait := True\<rparr>) else (pool_nthreads s = 0, s))"

inductive tp_step :: "'j tp_state \<Rightarrow> 'j tp_state \<Rightarrow> bool" where
  pool_queue: "tp_step s (thr_pool_queue ok j s)"
| worker_start: "workers s t = Some WNew \<Longrightarrow> tp_step s (worker_top ok t s)"
| worker_wake: "workers s t = Some (WWait b) \<Longrightarrow> tp_step s (worker_test ok t s)"
| worker_expire: "workers s t = Some (WWait True) \<Longrightarrow> tp_step s (worker_leave ok t True s)"
| job_return: "workers s t = Some (WRun j) \<Longrightarrow> tp_step s (worker_top ok t (job_cleanup t j s))"
| job_exit: "workers s t = Some (WRun j) \<Longrightarrow> tp_step s (worker_cleanup ok t (job_cleanup t j s))"
| pool_wait: "tp_step s (snd (thr_pool_wait s))"
| pool_mark: "tp_step s (destroy_mark s)"
| pool_destroy: "tp_step s (snd (destroy_wait s))"

inductive tp_reachable :: "'j tp_state \<Rightarrow> 'j tp_state \<Rightarrow> bool" for s0 where
  tp_start: "tp_reachable s0 s0"
| tp_next: "tp_reachable s0 s \<Longrightarrow> tp_step s s' \<Longrightarrow> tp_reachable s0 s'"

section \<open>Counting workers\<close>

definition is_idle :: "'j wstate option \<Rightarrow> bool" where
  "is_idle w \<longleftrightarrow> (\<exists>b. w = Some (WWait b))"

definition job_of :: "'j tp_state \<Rightarrow> tid \<Rightarrow> 'j" where
  "job_of s t = (case workers s t of Some (WRun j) \<Rightarrow> j)"

definition is_run :: "'j wstate option \<Rightarrow> bool" where
  "is_run w \<longleftrightarrow> (\<exists>j. w = Some (WRun j))"

definition num :: "('j wstate option \<Rightarrow> bool) \<Rightarrow> (tid \<Rightarrow> 'j wstate option) \<Rightarrow> int" where
  "num P w = int (card {t. w t \<noteq> None \<and> P (w t)})"

lemma num_upd:
  assumes "finite (dom w)"
  shows "num P (w(t := v)) = num P w - (if w t \<noteq> None \<and> P (w t) then 1 else 0) + (if v \<noteq> None \<and> P v then 1 else 0)"
proof -
  define B where "B = {x. w x \<noteq> None \<and> P (w x)} - {t}"
  have fin: "finite B" using assms by (rule finite_subset [rotated]) (auto simp: dom_def B_def)
  have t: "t \<notin> B" by (simp add: B_def)
  have "{x. (w(t := v)) x \<noteq> None \<and> P ((w(t := v)) x)} = (if v \<noteq> None \<and> P v then insert t B else B)"
    by (auto simp: B_def)
  moreover have "{x. w x \<noteq> None \<and> P (w x)} = (if w t \<noteq> None \<and> P (w t) then insert t B else B)"
    by (auto simp: B_def)
  ultimately show ?thesis
    unfolding num_def using card_insert_disjoint [OF fin t] by simp
qed

lemma num_empty [simp]: "num P Map.empty = 0"
  by (simp add: num_def)

lemma num_nonneg: "0 \<le> num P w"
  by (simp add: num_def)

lemma num_mono: "finite (dom w) \<Longrightarrow> num P w \<le> num (\<lambda>_. True) w"
  unfolding num_def by (auto intro!: card_mono simp: dom_def)

section \<open>The invariant\<close>

definition tp_core :: "'j tp_state \<Rightarrow> bool" where
  "tp_core s \<longleftrightarrow> finite (dom (workers s)) \<and> (\<forall>t. workers s t \<noteq> None \<longrightarrow> t < next_tid s) \<and>
     pool_nthreads s = num (\<lambda>_. True) (workers s) \<and> pool_idle s = num is_idle (workers s) \<and>
     pool_nthreads s \<le> pool_maximum s \<and> 1 \<le> pool_maximum s \<and>
     distinct (pool_active s) \<and> (\<forall>t. t \<in> set (pool_active s) \<longleftrightarrow> is_run (workers s t)) \<and>
     submitted s = started s @ pool_jobs s \<and>
     mset (started s) = mset (finished s) + mset (map (job_of s) (pool_active s))"

text \<open>While no thread creation has failed, pending jobs have a worker.\<close>

definition tp_live :: "'j tp_state \<Rightarrow> bool" where
  "tp_live s \<longleftrightarrow> (\<not> flag_destroy s \<and> \<not> create_failed s \<and> pool_jobs s \<noteq> [] \<longrightarrow> 0 < pool_nthreads s)"

definition tp_inv :: "'j tp_state \<Rightarrow> bool" where
  "tp_inv s \<longleftrightarrow> tp_core s \<and> tp_live s"

lemma tp_inv_create:
  assumes "thr_pool_create mn mx lg = Some s" and "mx < 2 ^ 31"
  shows "tp_inv s"
proof -
  have "1 \<le> sint mx"
  proof -
    have "\<not> mx < 1" using assms(1) by (simp add: thr_pool_create_def split: if_splits)
    then have "1 \<le> uint mx" by (simp add: word_less_def)
    moreover have "uint mx < 2 ^ 31" using assms(2) by (simp add: word_less_def)
    then have "signed_take_bit 31 (uint mx) = uint mx"
      using uint_nonnegative [of mx] by (intro signed_take_bit_int_eq_self) linarith+
    then have "sint mx = uint mx" by (simp add: sint_uint)
    ultimately show ?thesis by simp
  qed
  then show ?thesis using assms(1)
    by (auto simp: thr_pool_create_def tp_inv_def tp_core_def tp_live_def is_run_def split: if_splits)
qed

lemma flag_wait_irrelevant [simp]: "tp_core (s\<lparr>flag_wait := b\<rparr>) = tp_core s" "tp_live (s\<lparr>flag_wait := b\<rparr>) = tp_live s"
  "tp_core (s\<lparr>flag_destroy := b\<rparr>) = tp_core s"
  by (simp_all add: tp_core_def tp_live_def job_of_def cong: map_cong)

lemma map_job_of:
  assumes "\<And>x. x \<in> set ts \<Longrightarrow> workers s' x = workers s x"
  shows "map (job_of s') ts = map (job_of s) ts"
  using assms by (simp add: job_of_def cong: map_cong)

text \<open>A worker that starts to wait, ends its job or exits.\<close>

lemma core_change:
  assumes c: "tp_core s" and w: "workers s t = Some w" and v: "\<not> is_run v"
    and s': "workers s' = (workers s)(t := v)" "next_tid s' = next_tid s" "pool_maximum s' = pool_maximum s"
      "submitted s' = submitted s" "started s' = started s" "pool_jobs s' = pool_jobs s"
      "pool_nthreads s' = pool_nthreads s - (if v = None then 1 else 0)"
      "pool_idle s' = pool_idle s - (if is_idle (Some w) then 1 else 0) + (if is_idle v then 1 else 0)"
      "pool_active s' = remove1 t (pool_active s)"
      "finished s' = finished s @ (case w of WRun j \<Rightarrow> [j] | _ \<Rightarrow> [])"
  shows "tp_core s'"
proof -
  have fin: "finite (dom (workers s))" and act: "distinct (pool_active s)"
    "\<And>x. x \<in> set (pool_active s) \<longleftrightarrow> is_run (workers s x)"
    using c by (simp_all add: tp_core_def)
  have iv: "v = None \<Longrightarrow> \<not> is_idle v" by (auto simp: is_idle_def)
  have "mset (started s) = mset (finished s') + mset (map (job_of s') (pool_active s'))"
  proof -
    have m: "map (job_of s') (remove1 t (pool_active s)) = map (job_of s) (remove1 t (pool_active s))"
      using act(1) s'(1) by (intro map_job_of) auto
    have "mset (map (job_of s) (pool_active s)) =
        mset (case w of WRun j \<Rightarrow> [j] | _ \<Rightarrow> []) + mset (map (job_of s) (remove1 t (pool_active s)))"
    proof (cases "is_run (Some w)")
      case True
      then obtain j where j: "w = WRun j" by (auto simp: is_run_def)
      have "t \<in> set (pool_active s)" using act(2) w True by simp
      then have "mset (pool_active s) = add_mset t (mset (remove1 t (pool_active s)))" by simp
      then have "mset (map (job_of s) (pool_active s)) = add_mset (job_of s t) (mset (map (job_of s) (remove1 t (pool_active s))))"
        by (simp only: mset_map image_mset_add_mset)
      then show ?thesis using w j by (simp add: job_of_def)
    next
      case False
      then have "t \<notin> set (pool_active s)" using act(2) w by simp
      with False show ?thesis by (cases w) (auto simp: remove1_idem is_run_def)
    qed
    moreover have "mset (started s) = mset (finished s) + mset (map (job_of s) (pool_active s))"
      using c by (simp add: tp_core_def)
    ultimately show ?thesis unfolding s'(9,10) m by simp
  qed
  moreover have "\<forall>x. x \<in> set (pool_active s') \<longleftrightarrow> is_run (workers s' x)"
    using act v by (simp add: s'(1,9))
  moreover have "num (\<lambda>_. True) (workers s') = num (\<lambda>_. True) (workers s) - (if v = None then 1 else 0)"
    "num is_idle (workers s') = num is_idle (workers s) - (if is_idle (Some w) then 1 else 0) + (if is_idle v then 1 else 0)"
    using num_upd [OF fin, of _ t v] w iv by (auto simp: s'(1))
  moreover have "\<forall>x. workers s' x \<noteq> None \<longrightarrow> x < next_tid s'" using c w by (auto simp: tp_core_def s'(1,2))
  moreover have "finite (dom (workers s'))" using fin by (simp add: s'(1))
  ultimately show ?thesis using c act(1) unfolding tp_core_def
    by (simp add: s'(2-9) del: mset_map)
qed

text \<open>A waiting worker that takes the first job.\<close>

lemma core_run:
  assumes c: "tp_core s" and w: "is_idle (workers s t)" and j: "pool_jobs s = j # js"
    and s': "workers s' = (workers s)(t \<mapsto> WRun j)" "next_tid s' = next_tid s" "pool_maximum s' = pool_maximum s"
      "submitted s' = submitted s" "started s' = started s @ [j]" "pool_jobs s' = js"
      "pool_nthreads s' = pool_nthreads s" "pool_idle s' = pool_idle s - 1"
      "pool_active s' = t # pool_active s" "finished s' = finished s"
  shows "tp_core s'"
proof -
  have fin: "finite (dom (workers s))" and act: "distinct (pool_active s)"
    "\<And>x. x \<in> set (pool_active s) \<longleftrightarrow> is_run (workers s x)"
    using c by (simp_all add: tp_core_def)
  have t: "t \<notin> set (pool_active s)" using act(2) w by (auto simp: is_idle_def is_run_def)
  have m: "map (job_of s') (pool_active s) = map (job_of s) (pool_active s)"
    using t s'(1) by (intro map_job_of) auto
  have "mset (started s') = mset (finished s') + mset (map (job_of s') (pool_active s'))"
  proof -
    have "mset (started s) = mset (finished s) + mset (map (job_of s) (pool_active s))" "job_of s' t = j"
      using c by (simp_all add: tp_core_def job_of_def s'(1))
    then show ?thesis unfolding s'(5,9,10) list.map m by simp
  qed
  moreover have "\<forall>x. x \<in> set (pool_active s') \<longleftrightarrow> is_run (workers s' x)"
    using act(2) by (auto simp: s'(1,9) is_run_def)
  moreover have "num (\<lambda>_. True) (workers s') = num (\<lambda>_. True) (workers s)"
    "num is_idle (workers s') = num is_idle (workers s) - 1"
    using num_upd [OF fin, of _ t "Some (WRun j)"] w by (auto simp: s'(1) is_idle_def)
  moreover have "\<forall>x. workers s' x \<noteq> None \<longrightarrow> x < next_tid s'"
    using c w by (auto simp: tp_core_def s'(1,2) is_idle_def)
  moreover have "finite (dom (workers s'))" using fin by (simp add: s'(1))
  ultimately show ?thesis using c t act(1) unfolding tp_core_def
    by (simp add: s'(2-9) j del: mset_map)
qed

lemma core_grow:
  assumes "tp_core s"
  shows "tp_core (grow ok s)" and "pool_jobs (grow ok s) = pool_jobs s" and "flag_destroy (grow ok s) = flag_destroy s"
    and "\<not> create_failed (grow ok s) \<Longrightarrow> 0 < pool_nthreads (grow ok s)"
proof -
  have fin: "finite (dom (workers s))" using assms by (simp add: tp_core_def)
  have fresh: "workers s (next_tid s) = None" using assms by (auto simp: tp_core_def)
  have pos: "0 \<le> pool_nthreads s" "1 \<le> pool_maximum s" using assms num_nonneg by (auto simp: tp_core_def)
  show "pool_jobs (grow ok s) = pool_jobs s" "flag_destroy (grow ok s) = flag_destroy s"
    by (simp_all add: grow_def create_worker_def)
  show "0 < pool_nthreads (grow ok s)" if "\<not> create_failed (grow ok s)"
    using that pos by (auto simp: grow_def create_worker_def split: if_splits)
  show "tp_core (grow ok s)"
  proof (cases "pool_nthreads s < pool_maximum s \<and> ok")
    case True
    define s' where "s' = s\<lparr>workers := (workers s)(next_tid s \<mapsto> WNew), next_tid := Suc (next_tid s),
      pool_nthreads := pool_nthreads s + 1\<rparr>"
    have g: "grow ok s = s'" using True by (simp add: grow_def create_worker_def s'_def)
    have a: "next_tid s \<notin> set (pool_active s)" using assms fresh by (auto simp: tp_core_def is_run_def)
    have m: "map (job_of s') (pool_active s) = map (job_of s) (pool_active s)"
      using a by (intro map_job_of) (auto simp: s'_def)
    have "num (\<lambda>_. True) (workers s') = num (\<lambda>_. True) (workers s) + 1"
      "num is_idle (workers s') = num is_idle (workers s)"
      using num_upd [OF fin, of _ "next_tid s" "Some WNew"] fresh by (auto simp: s'_def is_idle_def)
    moreover have "\<forall>t. t \<in> set (pool_active s') \<longleftrightarrow> is_run (workers s' t)"
      using assms a by (auto simp: tp_core_def s'_def is_run_def)
    moreover have "\<forall>t. workers s' t \<noteq> None \<longrightarrow> t < next_tid s'"
      using assms by (auto simp: tp_core_def s'_def less_SucI)
    moreover have "mset (started s') = mset (finished s') + mset (map (job_of s') (pool_active s'))"
    proof -
      have f: "pool_active s' = pool_active s" "started s' = started s" "finished s' = finished s" by (simp_all add: s'_def)
      show ?thesis unfolding f m using assms by (simp add: tp_core_def)
    qed
    moreover have "pool_nthreads s' = pool_nthreads s + 1" "pool_idle s' = pool_idle s" "pool_maximum s' = pool_maximum s"
      "submitted s' = submitted s" "started s' = started s" "pool_jobs s' = pool_jobs s" "pool_active s' = pool_active s"
      "finite (dom (workers s'))" using fin by (simp_all add: s'_def)
    ultimately show ?thesis using assms True unfolding g tp_core_def
      by (simp del: mset_map)
  next
    case False
    then show ?thesis using assms
      by (auto simp: grow_def create_worker_def tp_core_def job_of_def cong: map_cong)
  qed
qed

section \<open>Every step keeps the invariant\<close>

lemma notify_irrelevant [simp]:
  "tp_core (notify_waiters s) = tp_core s" "workers (notify_waiters s) = workers s"
  "pool_jobs (notify_waiters s) = pool_jobs s" "pool_nthreads (notify_waiters s) = pool_nthreads s"
  "pool_minimum (notify_waiters s) = pool_minimum s" "pool_idle (notify_waiters s) = pool_idle s"
  "create_failed (notify_waiters s) = create_failed s" "flag_destroy (notify_waiters s) = flag_destroy s"
  "next_tid (notify_waiters s) = next_tid s" "pool_maximum (notify_waiters s) = pool_maximum s"
  "submitted (notify_waiters s) = submitted s" "started (notify_waiters s) = started s"
  "pool_active (notify_waiters s) = pool_active s" "finished (notify_waiters s) = finished s"
  "pool_linger (notify_waiters s) = pool_linger s"
  by (simp_all add: notify_waiters_def)

text \<open>An exiting worker leaves pending jobs to another one.\<close>

lemma inv_cleanup:
  assumes c: "tp_core s" and w: "workers s t = Some w"
    and s': "workers s' = workers s" "next_tid s' = next_tid s" "pool_maximum s' = pool_maximum s"
      "submitted s' = submitted s" "started s' = started s" "pool_jobs s' = pool_jobs s"
      "pool_nthreads s' = pool_nthreads s" "pool_idle s' = pool_idle s - (if is_idle (Some w) then 1 else 0)"
      "pool_active s' = remove1 t (pool_active s)" "finished s' = finished s @ (case w of WRun j \<Rightarrow> [j] | _ \<Rightarrow> [])"
  shows "tp_inv (worker_cleanup ok t s')"
proof -
  define u where "u = s'\<lparr>pool_nthreads := pool_nthreads s' - 1, workers := (workers s')(t := None)\<rparr>"
  have "\<not> is_run None" "\<not> is_idle None" by (simp_all add: is_run_def is_idle_def)
  then have u: "tp_core u" by (intro core_change [OF c w]) (simp_all add: u_def s')
  have e: "worker_cleanup ok t s' = (if flag_destroy u then u else if pool_jobs u \<noteq> [] then grow ok u else u)"
    by (simp add: worker_cleanup_def u_def Let_def)
  show ?thesis
    unfolding e using u core_grow [OF u, of ok] by (auto simp: tp_inv_def tp_live_def)
qed

lemma inv_wait:
  assumes c: "tp_core s" and w: "workers s t = Some w" and f: "flag_destroy s' \<or> create_failed s' \<or> 0 < pool_nthreads s \<or> pool_jobs s = []"
    and s': "workers s' = (workers s)(t \<mapsto> WWait b)" "next_tid s' = next_tid s" "pool_maximum s' = pool_maximum s"
      "submitted s' = submitted s" "started s' = started s" "pool_jobs s' = pool_jobs s"
      "pool_nthreads s' = pool_nthreads s" "pool_idle s' = pool_idle s + (if is_idle (Some w) then 0 else 1)"
      "pool_active s' = remove1 t (pool_active s)" "finished s' = finished s @ (case w of WRun j \<Rightarrow> [j] | _ \<Rightarrow> [])"
  shows "tp_inv s'"
proof -
  have "tp_core s'"
    by (intro core_change [OF c w, of "Some (WWait b)"]) (simp_all add: s' is_idle_def is_run_def)
  then show ?thesis using f s'(6,7) by (auto simp: tp_inv_def tp_live_def)
qed

lemma nthreads_pos:
  assumes "tp_core s" and "workers s t \<noteq> None"
  shows "0 < pool_nthreads s"
proof -
  have "0 < card {x. workers s x \<noteq> None \<and> True}"
    using assms by (intro card_gt_0_iff [THEN iffD2]) (auto simp: tp_core_def dom_def)
  then show ?thesis using assms(1) by (simp add: tp_core_def num_def)
qed

lemma idle_not_active: "tp_core s \<Longrightarrow> is_idle (workers s t) \<Longrightarrow> t \<notin> set (pool_active s)"
  by (auto simp: tp_core_def is_idle_def is_run_def)

lemma inv_leave:
  assumes c: "tp_core s" and w: "is_idle (workers s t)"
  shows "tp_inv (worker_leave ok t timedout s)"
proof -
  obtain b where b: "workers s t = Some (WWait b)" using w by (auto simp: is_idle_def)
  have a: "remove1 t (pool_active s) = pool_active s" using idle_not_active [OF c w] by (simp add: remove1_idem)
  have i: "is_idle (Some (WWait b))" by (simp add: is_idle_def)
  have ex: "tp_inv (worker_cleanup ok t (s\<lparr>pool_idle := pool_idle s - 1\<rparr>))"
    by (rule inv_cleanup [OF c b]) (simp_all add: a i)
  show ?thesis
  proof (cases "flag_destroy s")
    case True
    with ex show ?thesis by (simp add: worker_leave_def)
  next
    case False
    show ?thesis
    proof (cases "pool_jobs s")
      case Nil
      define u where "u = (if flag_wait s then notify_waiters s else s)"
      have "tp_inv (s\<lparr>workers := (workers s)(t \<mapsto> WWait False)\<rparr>)"
        by (rule inv_wait [OF c b]) (simp_all add: Nil a i)
      moreover have "tp_inv (notify_waiters s\<lparr>workers := (workers s)(t \<mapsto> WWait False)\<rparr>)"
        by (rule inv_wait [OF c b]) (simp_all add: Nil a i)
      moreover have "s\<lparr>pool_idle := pool_idle s\<rparr> = s" by simp
      ultimately show ?thesis using ex False Nil by (auto simp: worker_leave_def Let_def)
    next
      case (Cons j js)
      let ?s = "s\<lparr>pool_idle := pool_idle s - 1, pool_jobs := js, pool_active := t # pool_active s,
        workers := (workers s)(t \<mapsto> WRun j), started := started s @ [j]\<rparr>"
      have "tp_core ?s" by (rule core_run [OF c w Cons]) simp_all
      moreover have "0 < pool_nthreads s" using nthreads_pos [OF c, of t] b by simp
      ultimately have "tp_inv ?s" by (simp add: tp_inv_def tp_live_def)
      then show ?thesis using False Cons by (simp add: worker_leave_def Let_def)
    qed
  qed
qed

lemma inv_test:
  assumes c: "tp_core s" and w: "is_idle (workers s t)"
  shows "tp_inv (worker_test ok t s)"
proof -
  obtain b where b: "workers s t = Some (WWait b)" using w by (auto simp: is_idle_def)
  have a: "remove1 t (pool_active s) = pool_active s" using idle_not_active [OF c w] by (simp add: remove1_idem)
  have i: "is_idle (Some (WWait b))" by (simp add: is_idle_def)
  have "tp_inv (s\<lparr>workers := (workers s)(t \<mapsto> WWait b')\<rparr>)" if "pool_jobs s = []" for b'
    by (rule inv_wait [OF c b]) (simp_all add: that a i)
  then show ?thesis using inv_leave [OF c w] by (auto simp: worker_test_def)
qed

text \<open>A worker that comes to the top of its loop from its start or from a job.\<close>

lemma inv_top:
  assumes c: "tp_core s" and w: "workers s t = Some w" and ni: "\<not> is_idle (Some w)"
    and s': "workers s' = workers s" "next_tid s' = next_tid s" "pool_maximum s' = pool_maximum s"
      "submitted s' = submitted s" "started s' = started s" "pool_jobs s' = pool_jobs s"
      "pool_nthreads s' = pool_nthreads s" "pool_idle s' = pool_idle s"
      "pool_active s' = remove1 t (pool_active s)" "finished s' = finished s @ (case w of WRun j \<Rightarrow> [j] | _ \<Rightarrow> [])"
  shows "tp_inv (worker_top ok t s')"
proof -
  define u where "u = s'\<lparr>pool_idle := pool_idle s' + 1, workers := (workers s')(t \<mapsto> WWait False)\<rparr>"
  have i: "is_idle (Some (WWait False))" "\<not> is_run (Some (WWait False))" by (auto simp: is_idle_def is_run_def)
  have u: "tp_core u"
    by (rule core_change [OF c w, of "Some (WWait False)"]) (simp_all add: u_def s' ni i)
  have "is_idle (workers u t)" using i by (simp add: u_def)
  then have "tp_inv (worker_test ok t (if flag_wait u then notify_waiters u else u))"
    using u by (intro inv_test) simp_all
  moreover have "worker_top ok t s' = worker_test ok t (if flag_wait u then notify_waiters u else u)"
    by (simp add: worker_top_def u_def Let_def)
  ultimately show ?thesis by simp
qed

lemma job_cleanup_fields [simp]:
  "workers (job_cleanup t j s) = workers s" "next_tid (job_cleanup t j s) = next_tid s"
  "pool_maximum (job_cleanup t j s) = pool_maximum s" "submitted (job_cleanup t j s) = submitted s"
  "started (job_cleanup t j s) = started s" "pool_jobs (job_cleanup t j s) = pool_jobs s"
  "pool_nthreads (job_cleanup t j s) = pool_nthreads s" "pool_idle (job_cleanup t j s) = pool_idle s"
  "pool_active (job_cleanup t j s) = remove1 t (pool_active s)" "finished (job_cleanup t j s) = finished s @ [j]"
  by (simp_all add: job_cleanup_def Let_def)

lemma inv_queue:
  assumes "tp_inv s"
  shows "tp_inv (thr_pool_queue ok j s)"
proof -
  define u where "u = s\<lparr>pool_jobs := pool_jobs s @ [j], submitted := submitted s @ [j]\<rparr>"
  have u: "tp_core u"
    using assms by (auto simp: tp_inv_def tp_core_def u_def job_of_def cong: map_cong)
  have "0 < pool_nthreads u" if "0 < pool_idle u"
    using u that num_mono [of "workers u" is_idle] by (simp add: tp_core_def)
  then show ?thesis using u core_grow [OF u, of ok]
    by (auto simp: thr_pool_queue_def u_def [symmetric] Let_def tp_inv_def tp_live_def)
qed

lemma tp_step_inv:
  assumes "tp_step s s'" and "tp_inv s"
  shows "tp_inv s'"
  using assms
proof (induction rule: tp_step.induct)
  case (pool_queue s ok j)
  then show ?case by (rule inv_queue)
next
  case (worker_start s t ok)
  then have "tp_core s" "t \<notin> set (pool_active s)" by (auto simp: tp_inv_def tp_core_def is_run_def)
  with worker_start(1) show ?case
    by (intro inv_top [of s t WNew s]) (simp_all add: is_idle_def remove1_idem)
next
  case (worker_wake s t b ok)
  then show ?case by (intro inv_test) (auto simp: tp_inv_def is_idle_def)
next
  case (worker_expire s t ok)
  then show ?case by (intro inv_leave) (auto simp: tp_inv_def is_idle_def)
next
  case (job_return s t j ok)
  then show ?case by (intro inv_top [of s t "WRun j"]) (simp_all add: tp_inv_def is_idle_def)
next
  case (job_exit s t j ok)
  then show ?case by (intro inv_cleanup [of s t "WRun j"]) (simp_all add: tp_inv_def is_idle_def)
next
  case (pool_mark s)
  then show ?case by (simp add: destroy_mark_def tp_inv_def tp_live_def)
qed (simp_all add: thr_pool_wait_def destroy_wait_def tp_inv_def)

lemma tp_reachable_inv:
  "tp_reachable s0 s \<Longrightarrow> tp_inv s0 \<Longrightarrow> tp_inv s"
  by (induction rule: tp_reachable.induct) (auto intro: tp_step_inv)

section \<open>Progress\<close>

text \<open>What one pass of a worker through its loop does to the jobs.\<close>

definition passed :: "tid \<Rightarrow> 'j tp_state \<Rightarrow> 'j tp_state \<Rightarrow> bool" where
  "passed t s s' \<longleftrightarrow> pool_jobs s' = tl (pool_jobs s) \<and>
     pool_active s' = (if pool_jobs s = [] then pool_active s else t # pool_active s) \<and>
     \<not> flag_destroy s' \<and> create_failed s' = create_failed s \<and> submitted s' = submitted s"

lemma passed_test: "\<not> flag_destroy s \<Longrightarrow> passed t s (worker_test ok t s)"
  by (auto simp: passed_def worker_test_def worker_leave_def worker_cleanup_def Let_def split: list.splits)

lemma passed_top:
  assumes "\<not> flag_destroy s"
  shows "passed t s (worker_top ok t s)"
proof -
  define u where "u = s\<lparr>pool_idle := pool_idle s + 1, workers := (workers s)(t \<mapsto> WWait False)\<rparr>"
  define v where "v = (if flag_wait u then notify_waiters u else u)"
  have "passed t v (worker_test ok t v)" using assms by (intro passed_test) (simp add: v_def u_def)
  moreover have "worker_top ok t s = worker_test ok t v" by (simp add: worker_top_def v_def u_def Let_def)
  ultimately show ?thesis by (simp add: passed_def v_def u_def)
qed

definition work_left :: "'j tp_state \<Rightarrow> nat" where
  "work_left s = 2 * length (pool_jobs s) + length (pool_active s)"

lemma tp_progress:
  assumes "tp_inv s" and "\<not> flag_destroy s" and "\<not> create_failed s" and "pool_jobs s \<noteq> [] \<or> pool_active s \<noteq> []"
  shows "\<exists>s'. tp_step s s' \<and> work_left s' < work_left s \<and> \<not> flag_destroy s' \<and> \<not> create_failed s' \<and>
    submitted s' = submitted s"
proof (cases "pool_active s")
  case (Cons t ts)
  then have "is_run (workers s t)" using assms(1) by (auto simp: tp_inv_def tp_core_def)
  then obtain j where j: "workers s t = Some (WRun j)" by (auto simp: is_run_def)
  have "\<not> flag_destroy (job_cleanup t j s)" "create_failed (job_cleanup t j s) = create_failed s"
    using assms(2) by (simp_all add: job_cleanup_def Let_def)
  with passed_top [of "job_cleanup t j s" t True] job_return [OF j, of True] Cons assms(3) show ?thesis
    by (intro exI [of _ "worker_top True t (job_cleanup t j s)"])
      (cases "pool_jobs s"; simp add: passed_def work_left_def)
next
  case Nil
  then obtain j js where js: "pool_jobs s = j # js" using assms(4) by (cases "pool_jobs s") auto
  have "0 < pool_nthreads s" using assms js by (simp add: tp_inv_def tp_live_def)
  then have "card {t. workers s t \<noteq> None \<and> True} \<noteq> 0" using assms(1) by (simp add: tp_inv_def tp_core_def num_def)
  then have "{t. workers s t \<noteq> None \<and> True} \<noteq> {}" by (metis card.empty)
  then obtain t w where w: "workers s t = Some w" by auto
  have "\<not> is_run (workers s t)" using assms(1) Nil by (auto simp: tp_inv_def tp_core_def)
  then consider "w = WNew" | b where "w = WWait b" using w by (cases w) (auto simp: is_run_def)
  then show ?thesis
  proof cases
    case 1
    with passed_top [OF assms(2), of t True] worker_start [of s t True] w Nil js assms(3) show ?thesis
      by (intro exI [of _ "worker_top True t s"]) (simp add: passed_def work_left_def)
  next
    case 2
    with passed_test [OF assms(2), of t True] worker_wake [of s t b True] w Nil js assms(3) show ?thesis
      by (intro exI [of _ "worker_test True t s"]) (simp add: passed_def work_left_def)
  qed
qed

lemma tp_finishes:
  assumes "tp_inv s" and "\<not> flag_destroy s" and "\<not> create_failed s"
  shows "\<exists>s'. tp_step\<^sup>*\<^sup>* s s' \<and> submitted s' = submitted s \<and> pool_jobs s' = [] \<and> pool_active s' = []"
  using assms
proof (induction "work_left s" arbitrary: s rule: less_induct)
  case less
  show ?case
  proof (cases "pool_jobs s \<noteq> [] \<or> pool_active s \<noteq> []")
    case True
    from tp_progress [OF less.prems True] obtain s1 where
      s1: "tp_step s s1" "work_left s1 < work_left s" "\<not> flag_destroy s1" "\<not> create_failed s1" "submitted s1 = submitted s"
      by blast
    from less.hyps [OF s1(2) tp_step_inv [OF s1(1) less.prems(1)] s1(3,4)] s1(1,5) show ?thesis
      by (metis converse_rtranclp_into_rtranclp)
  qed auto
qed

section \<open>Properties\<close>

text \<open>
  C27: In every state that the callers and workers of a pool can reach, under every interleaving and
  every outcome of thread creation: the number of threads is the number of live workers and stays
  within the maximum, the idle count is the number of waiting workers, the active list names
  exactly the running workers, each once, and jobs are started in the order in which they were
  queued, none lost and none run twice.
\<close>

theorem thr_pool_invariant:
  assumes "thr_pool_create mn mx lg = Some s0" and "mx < 2 ^ 31" and "tp_reachable s0 s"
  shows "pool_nthreads s = int (card {t. workers s t \<noteq> None}) \<and> pool_nthreads s \<le> pool_maximum s \<and>
    pool_idle s = int (card {t. \<exists>b. workers s t = Some (WWait b)}) \<and>
    distinct (pool_active s) \<and> set (pool_active s) = {t. \<exists>j. workers s t = Some (WRun j)} \<and>
    submitted s = started s @ pool_jobs s \<and>
    mset (started s) = mset (finished s) + mset (map (job_of s) (pool_active s))"
proof -
  have "tp_core s" using tp_reachable_inv [OF assms(3) tp_inv_create [OF assms(1,2)]] by (simp add: tp_inv_def)
  moreover have "{t. workers s t \<noteq> None \<and> is_idle (workers s t)} = {t. \<exists>b. workers s t = Some (WWait b)}"
    by (auto simp: is_idle_def)
  ultimately show ?thesis by (auto simp: tp_core_def num_def is_run_def)
qed

definition sample_pool :: "nat tp_state" where
  "sample_pool = the (thr_pool_create 1 2 5)"

lemma sample_pool: "thr_pool_create 1 2 5 = Some sample_pool"
  by (simp add: sample_pool_def thr_pool_create_def)

theorem thr_pool_invariant_witness:
  "\<exists>s. tp_reachable sample_pool s \<and> submitted s = [7] \<and> pool_nthreads s = 1 \<and> card {t. workers s t \<noteq> None} = 1"
proof -
  let ?s = "thr_pool_queue True 7 sample_pool"
  have r: "tp_reachable sample_pool ?s" by (rule tp_next [OF tp_start pool_queue])
  have "submitted ?s = [7]" "pool_nthreads ?s = 1"
    by (simp_all add: thr_pool_queue_def sample_pool_def thr_pool_create_def grow_def create_worker_def Let_def)
  with thr_pool_invariant [OF sample_pool _ r] r show ?thesis by (intro exI [of _ ?s]) auto
qed

text \<open>
  When \<open>thr_pool_wait\<close> returns, every job queued so far has been run to its end exactly once; when the
  wait of \<open>thr_pool_destroy\<close> ends, no worker is left.
\<close>

theorem thr_pool_wait_complete:
  assumes "thr_pool_create mn mx lg = Some s0" and "mx < 2 ^ 31" and "tp_reachable s0 s"
  shows "(fst (thr_pool_wait s) \<longrightarrow> mset (finished s) = mset (submitted s)) \<and>
    (fst (destroy_wait s) \<longrightarrow> (\<forall>t. workers s t = None))"
proof -
  have c: "tp_core s" using tp_reachable_inv [OF assms(3) tp_inv_create [OF assms(1,2)]] by (simp add: tp_inv_def)
  have "workers s t = None" if "fst (destroy_wait s)" for t
  proof (rule ccontr)
    assume "workers s t \<noteq> None"
    with nthreads_pos [OF c] that show False by (auto simp: destroy_wait_def split: if_splits)
  qed
  moreover have "mset (finished s) = mset (submitted s)" if "fst (thr_pool_wait s)"
    using c that by (auto simp: tp_core_def thr_pool_wait_def split: if_splits)
  ultimately show ?thesis by blast
qed

theorem thr_pool_wait_complete_witness:
  "fst (thr_pool_wait sample_pool) \<and> mset (finished sample_pool) = mset (submitted sample_pool)"
proof -
  have "fst (thr_pool_wait sample_pool)"
    by (simp add: thr_pool_wait_def sample_pool_def thr_pool_create_def)
  with thr_pool_wait_complete [OF sample_pool _ tp_start] show ?thesis by auto
qed



text \<open>Without a worker \<open>thr_pool_queue\<close> still reports success: a first job whose thread cannot be created
  stays in the queue.\<close>

lemma queue_without_worker:
  "thr_pool_create mn mx lg = Some s0 \<Longrightarrow>
   pool_jobs (thr_pool_queue False j s0) = [j] \<and> pool_nthreads (thr_pool_queue False j s0) = 0"
  by (auto simp: thr_pool_create_def thr_pool_queue_def grow_def create_worker_def Let_def split: if_splits)

end
