(* ===== verification/Cp_Db.thy ===== *)
theory Cp_Db
  imports Cp_Get Cp_List
begin

text \<open>
  \<open>db.c\<close>: the mapping database of the control plane. It is two radix tables, one for each address
  family, whose nodes carry \<open>mapping_flags\<close> with a set of roles (\<open>range\<close>), and a list of sites whose
  EIDs are such nodes. \<open>None\<close> is a failed assertion or an undefined access. The printing of the
  database (\<open>list_db\<close>, \<open>show_*\<close>) is not modelled.
\<close>

section \<open>State\<close>

record 'i lisp_db =
  lisp_db4 :: "'i db_table"
  lisp_db6 :: "'i db_table"

text \<open>A site lists its EIDs by pointers to nodes; such a pointer is the family of the table and the cell.\<close>

record site_info =
  si_name :: "string option"
  si_key :: "string option"
  si_contact :: "string option"
  si_active :: byte
  si_hashing :: "byte list option"
  si_eid :: "(af \<times> ref) clist"

definition ROLE_MAPP :: byte where "ROLE_MAPP = 1"
definition ROLE_MAPP_XTR :: byte where "ROLE_MAPP_XTR = 2"
definition ROLE_EID :: byte where "ROLE_EID = 4"
definition ROLE_GEID :: byte where "ROLE_GEID = 8"
definition ROLE_GREID :: byte where "ROLE_GREID = 16"
definition ROLE_ROOT :: byte where "ROLE_ROOT = 0"

lemmas role_defs = ROLE_MAPP_def ROLE_MAPP_XTR_def ROLE_EID_def ROLE_GEID_def ROLE_GREID_def ROLE_ROOT_def

section \<open>Sites\<close>

definition ms_new_site_info :: site_info where
  "ms_new_site_info = \<lparr>si_name = None, si_key = None, si_contact = None, si_active = 1, si_hashing = None,
     si_eid = list_init\<rparr>"

definition ms_new_site :: "site_info clist \<Rightarrow> (nat \<times> site_info clist) option" where
  "ms_new_site l_site = list_insert None (Some ms_new_site_info) l_site"

section \<open>Nodes\<close>

definition ms_new_node_ex :: "byte \<Rightarrow> mapping_flags" where
  "ms_new_node_ex n_type = \<lparr>mf_iid = 0, mf_act = 0, mf_A = 0, mf_version = 0, mf_proxy = 0, mf_ttl = 0,
     mf_referral = 0, mf_incomplete = 0, mf_range = n_type, mf_active = 1, mf_rsvd = None\<rparr>"

definition ms_node_update_type :: "ref \<Rightarrow> byte \<Rightarrow> 'i db_table \<Rightarrow> 'i db_table option" where
  "ms_node_update_type node n_type T = do {
     n \<leftarrow> heap T node;
     Some (put node (case flags n of
         None \<Rightarrow> n\<lparr>flags := Some (ms_new_node_ex n_type)\<rparr>
       | Some f \<Rightarrow> n\<lparr>flags := Some (f\<lparr>mf_range := mf_range f OR n_type\<rparr>)\<rparr>) T) }"

definition ms_node_is_type :: "'i db_node \<Rightarrow> byte \<Rightarrow> bool" where
  "ms_node_is_type n n_type =
     (case flags n of None \<Rightarrow> False | Some f \<Rightarrow> mf_range f AND n_type \<noteq> 0)"

definition ms_node_is_referral :: "'i db_node \<Rightarrow> bool" where
  "ms_node_is_referral n = (case flags n of None \<Rightarrow> False | Some f \<Rightarrow> mf_referral f \<noteq> 0)"

definition ms_node_is_proxy_reply :: "'i db_node \<Rightarrow> bool" where
  "ms_node_is_proxy_reply n = (case flags n of None \<Rightarrow> False | Some f \<Rightarrow> mf_proxy f \<noteq> 0)"

definition ms_get_db_table :: "'i lisp_db \<Rightarrow> cp_prefix \<Rightarrow> 'i db_table option" where
  "ms_get_db_table db pf =
     (case family pf of
        FAM_INET \<Rightarrow> Some (lisp_db4 db)
      | FAM_INET6 \<Rightarrow> Some (lisp_db6 db)
      | FAM_OTHER _ \<Rightarrow> None)"

definition has_role :: "'i db_node \<Rightarrow> bool" where
  "has_role n = (case flags n of None \<Rightarrow> False | Some f \<Rightarrow> mf_range f \<noteq> 0)"

partial_function (option) ms_get_target :: "(ref \<Rightarrow> 'i db_node option) \<Rightarrow> ref option \<Rightarrow> ref \<Rightarrow> ref option" where
  "ms_get_target h tp node = do {
     n \<leftarrow> h node;
     if \<not> has_role n \<and> tp \<noteq> Some node then do { q \<leftarrow> parent n; ms_get_target h tp q }
     else Some node }"

text \<open>The nodes with a role, appended to a list in preorder; the result is the length of the list.\<close>

partial_function (option) ms_get_tree ::
  "byte \<Rightarrow> (ref \<Rightarrow> 'i db_node option) \<Rightarrow> ref option \<Rightarrow> ref clist \<Rightarrow> (u32 \<times> ref clist) option" where
  "ms_get_tree flag h node rt =
     (case node of
        None \<Rightarrow> Some (0, rt)
      | Some a \<Rightarrow> do {
          n \<leftarrow> h a;
          rt \<leftarrow> (if ms_node_is_type n flag then do { (_, rt) \<leftarrow> list_insert None (Some a) rt; Some rt } else Some rt);
          (_, rt) \<leftarrow> ms_get_tree flag h (l_left n) rt;
          (_, rt) \<leftarrow> ms_get_tree flag h (l_right n) rt;
          Some (l_count rt, rt) })"

section \<open>Initialisation\<close>

text \<open>One of the two halves of \<open>ms_init_db\<close>: the prefix is read and masked, its node must be the top.\<close>

definition init_root :: "cp_prefix \<Rightarrow> 'i db_table \<Rightarrow> 'i db_table option" where
  "init_root p T = do {
     (dn, T) \<leftarrow> db_node_get p T;
     if top T = Some dn then do {
       n \<leftarrow> heap T dn;
       Some (put dn (n\<lparr>flags := Some (ms_new_node_ex ROLE_ROOT)\<rparr>) T) }
     else None }"

definition ms_init_db ::
  "(string \<Rightarrow> byte list option) \<Rightarrow> (string \<Rightarrow> byte list option) \<Rightarrow> cp_prefix \<Rightarrow> 'i lisp_db option" where
  "ms_init_db inet_aton inet_pton p = do {
     let (_, p) = str2prefix inet_aton inet_pton ''0.0.0.0/0'' p;
     let p = apply_mask p;
     db4 \<leftarrow> init_root p (db_table_init True);
     let (_, p) = str2prefix inet_aton inet_pton ''0::/0'' p;
     let p = apply_mask p;
     db6 \<leftarrow> init_root p (db_table_init True);
     Some \<lparr>lisp_db4 = db4, lisp_db6 = db6\<rparr> }"

text \<open>\<open>ms_finish_db\<close> empties both tables.\<close>

definition ms_finish_db :: "'i lisp_db \<Rightarrow> ('i db_table \<times> 'i db_table) option" where
  "ms_finish_db db = do {
     t4 \<leftarrow> db_table_finish (lisp_db4 db);
     t6 \<leftarrow> db_table_finish (lisp_db6 db);
     Some (t4, t6) }"

section \<open>The name of a node's roles\<close>

text \<open>The table of names has 33 cells of which seven are set; reading another is undefined.\<close>

definition node_type :: "nat \<Rightarrow> string option" where
  "node_type i =
     (if i = 0 then Some ''ROOT'' else if i = 1 then Some ''MAPP'' else if i = 2 then Some ''MAPP_xTR''
      else if i = 4 then Some ''EID'' else if i = 8 then Some ''GEID'' else if i = 16 then Some ''GREID''
      else if i = 32 then Some ''TMP'' else None)"

lemma drop_bit_less: "n \<noteq> 0 \<Longrightarrow> unat (drop_bit (Suc 0) (n :: byte)) < unat n"
  by (simp add: drop_bit_eq_div unat_div div_less_dividend unat_gt_0)

function type_loop :: "byte \<Rightarrow> byte \<Rightarrow> string \<Rightarrow> string option" where
  "type_loop n_type i buf =
     (if n_type = 0 then Some buf
      else if n_type AND 1 \<noteq> 0 then do {
        s \<leftarrow> node_type (unat i);
        type_loop (drop_bit 1 n_type) (i * 2) ((if buf = [] then buf else buf @ ''|'') @ s) }
      else type_loop (drop_bit 1 n_type) (i * 2) buf)"
  by auto

termination by (relation "measure (\<lambda>(n, _, _). unat n)") (auto simp: drop_bit_less)

declare type_loop.simps [simp del]

definition node_type2_str :: "'i db_node \<Rightarrow> string option" where
  "node_type2_str rn =
     (case flags rn of
        None \<Rightarrow> node_type 32
      | Some f \<Rightarrow> if mf_range f = 0 then node_type 0 else type_loop (mf_range f) 1 [])"

section \<open>Roles do not change the tree\<close>

lemma tree_at_flags:
  "tree_at h par x t \<Longrightarrow> h a = Some n \<Longrightarrow> tree_at (h(a \<mapsto> n\<lparr>flags := f\<rparr>)) par x t"
  by (induction t arbitrary: par x) auto

lemma table_at_flags:
  "table_at T t \<Longrightarrow> heap T a = Some n \<Longrightarrow> table_at (put a (n\<lparr>flags := f\<rparr>) T) t"
  by (simp add: table_at_def put_def tree_at_flags)

section \<open>Walks over the tree\<close>

text \<open>The references from the root of a tree down to a node.\<close>

fun path_to :: "ref \<Rightarrow> 'i rtree \<Rightarrow> ref list" where
  "path_to x Tip = []"
| "path_to x (Nd a q i k l r) =
     (if a = x then [a]
      else if path_to x l \<noteq> [] then a # path_to x l
      else if path_to x r \<noteq> [] then a # path_to x r
      else [])"

lemma path_to_ref: "path_to x t \<noteq> [] \<longleftrightarrow> x \<in> set (refs t)"
  by (induction t) auto

lemma hd_path_to: "path_to x (Nd a q i k l r) \<noteq> [] \<Longrightarrow> hd (path_to x (Nd a q i k l r)) = a"
  by (auto split: if_splits)

lemma last_path_to: "x \<in> set (refs t) \<Longrightarrow> last (path_to x t) = x"
proof (induction t)
  case (Nd a q i k l r)
  show ?case
  proof (cases "a = x")
    case False
    then show ?thesis using Nd path_to_ref [of x l] path_to_ref [of x r] by auto
  qed simp
qed simp

text \<open>Going up from the end of a path, to the nearest cell with a role or to the top.\<close>

definition typed :: "(ref \<Rightarrow> 'i db_node option) \<Rightarrow> ref \<Rightarrow> bool" where
  "typed h a = (case h a of None \<Rightarrow> False | Some n \<Rightarrow> has_role n)"

fun climbs :: "(ref \<Rightarrow> 'i db_node option) \<Rightarrow> ref list \<Rightarrow> bool" where
  "climbs h (a # b # p) \<longleftrightarrow> (\<exists>n. h b = Some n \<and> parent n = Some a) \<and> climbs h (b # p)"
| "climbs h p \<longleftrightarrow> True"

lemma path_climbs:
  "tree_at h par x t \<Longrightarrow> climbs h (path_to y t) \<and> set (path_to y t) \<subseteq> set (refs t)"
proof (induction t arbitrary: par x)
  case (Nd a q i k l r)
  obtain n where n: "h a = Some n" "tree_at h (Some a) (l_left n) l" "tree_at h (Some a) (l_right n) r"
    using Nd.prems by auto
  have step: "climbs h (a # path_to y s)" if "tree_at h (Some a) z s" "climbs h (path_to y s)" for z s
  proof (cases s)
    case (Nd a' q' i' k' l' r')
    show ?thesis
    proof (cases "path_to y s")
      case (Cons b p)
      have "b = a'" using hd_path_to [of y a' q' i' k' l' r'] Cons Nd by simp
      with that Nd Cons show ?thesis by auto
    qed simp
  qed simp
  from Nd.IH(1) [OF n(2)] Nd.IH(2) [OF n(3)] step [OF n(2)] step [OF n(3)] show ?case by auto
qed simp

lemma climbs_split: "climbs h (p @ a # s) \<longleftrightarrow> climbs h (p @ [a]) \<and> climbs h (a # s)"
proof (induction p)
  case (Cons x p)
  then show ?case by (cases p) auto
qed simp

lemma get_target_up:
  assumes "climbs h p" and "p \<noteq> []" and "tp = Some (hd p)" and "distinct p" and "\<forall>a\<in>set p. h a \<noteq> None"
  shows "ms_get_target h tp (last p) = Some (last (hd p # filter (typed h) p))"
  using assms
proof (induction p rule: rev_induct)
  case (snoc a p)
  obtain n where n: "h a = Some n" using snoc.prems(5) by auto
  show ?case
  proof (cases "has_role n \<or> p = []")
    case True
    then show ?thesis using n snoc.prems(3) by (subst ms_get_target.simps) (auto simp: typed_def)
  next
    case False
    then obtain b p' where p: "p = p' @ [b]" by (metis rev_exhaust)
    have "climbs h (b # [a])" "climbs h p" using snoc.prems(1) climbs_split [of h p' b "[a]"] p by auto
    then have "parent n = Some b" using n by auto
    moreover have "tp \<noteq> Some a" using snoc.prems(3,4) False by (cases p) auto
    ultimately have "ms_get_target h tp a = ms_get_target h tp (last p)"
      using False n p by (subst ms_get_target.simps) simp
    with snoc.IH \<open>climbs h p\<close> False snoc.prems n show ?thesis by (auto simp: typed_def)
  qed
qed simp

lemma path_to_in: "y \<in> set (path_to x t) \<Longrightarrow> y \<in> set (refs t)"
proof (induction t)
  case (Nd a q i k l r)
  show ?case
  proof (cases "y = a \<or> y \<in> set (path_to x l)")
    case False
    with Nd.prems have "y \<in> set (path_to x r)"
      by (cases "a = x"; cases "path_to x l = []"; cases "path_to x r = []") simp_all
    then show ?thesis using Nd.IH(2) by simp
  qed (use Nd.IH(1) in auto)
qed simp

lemma path_to_subset: "set (path_to x t) \<subseteq> set (refs t)"
  using path_to_in by fast

lemma distinct_path_to: "distinct (refs t) \<Longrightarrow> distinct (path_to x t)"
proof (induction t)
  case (Nd a q i k l r)
  with path_to_subset [of x l] path_to_subset [of x r] show ?case by auto
qed simp

text \<open>The nodes that \<open>ms_get_tree\<close> collects.\<close>

definition of_type :: "(ref \<Rightarrow> 'i db_node option) \<Rightarrow> byte \<Rightarrow> ref \<Rightarrow> bool" where
  "of_type h flag a = (case h a of None \<Rightarrow> False | Some n \<Rightarrow> ms_node_is_type n flag)"

lemma list_append_at:
  assumes "list_at l xs"
  shows "\<exists>r l'. list_insert None d l = Some (r, l') \<and> list_at l' (xs @ [(r, d)])"
  using list_insert_at [OF assms, of None d] by auto

lemma get_tree_preorder:
  assumes "tree_at h par x t" and "list_at l xs"
  shows "\<exists>c l' ys. ms_get_tree flag h x l = Some (c, l') \<and> list_at l' (xs @ ys) \<and>
    map snd ys = map Some (filter (of_type h flag) (refs t)) \<and> (t \<noteq> Tip \<longrightarrow> c = l_count l')"
  using assms
proof (induction t arbitrary: par x l xs)
  case Tip
  then show ?case by (subst ms_get_tree.simps) auto
next
  case (Nd a q i k lt rt)
  obtain n where n: "x = Some a" "h a = Some n" "tree_at h (Some a) (l_left n) lt" "tree_at h (Some a) (l_right n) rt"
    using Nd.prems(1) by auto
  obtain l1 ys1 where l1: "(if ms_node_is_type n flag then do { (_, l) \<leftarrow> list_insert None (Some a) l; Some l } else Some l) = Some l1"
    "list_at l1 (xs @ ys1)" "map snd ys1 = map Some (filter (of_type h flag) [a])"
  proof (cases "ms_node_is_type n flag")
    case True
    from list_append_at [OF Nd.prems(2), of "Some a"] obtain r l' where
      "list_insert None (Some a) l = Some (r, l')" "list_at l' (xs @ [(r, Some a)])" by blast
    with True n(2) show ?thesis using that [of l' "[(r, Some a)]"] by (simp add: of_type_def)
  next
    case False
    with n(2) Nd.prems(2) show ?thesis using that [of l "[]"] by (simp add: of_type_def)
  qed
  from Nd.IH(1) [OF n(3) l1(2)] obtain c2 l2 ys2 where l2: "ms_get_tree flag h (l_left n) l1 = Some (c2, l2)"
    "list_at l2 ((xs @ ys1) @ ys2)" "map snd ys2 = map Some (filter (of_type h flag) (refs lt))" by blast
  from Nd.IH(2) [OF n(4) l2(2)] obtain c3 l3 ys3 where l3: "ms_get_tree flag h (l_right n) l2 = Some (c3, l3)"
    "list_at l3 (((xs @ ys1) @ ys2) @ ys3)" "map snd ys3 = map Some (filter (of_type h flag) (refs rt))" by blast
  have "ms_get_tree flag h x l = Some (l_count l3, l3)"
    unfolding n(1) using n(2) l1(1) l2(1) l3(1) by (subst ms_get_tree.simps) simp
  moreover have "map snd (ys1 @ ys2 @ ys3) = map Some (filter (of_type h flag) (refs (Nd a q i k lt rt)))"
    using l1(3) l2(3) l3(3) by (simp split: if_splits)
  ultimately show ?case using l3(2)
    by (intro exI [of _ "l_count l3"] exI [of _ l3] exI [of _ "ys1 @ ys2 @ ys3"]) simp
qed

section \<open>The properties\<close>

lemma path_to_top:
  assumes "tree_at h par (Some a) t" shows "path_to x t \<noteq> [] \<Longrightarrow> hd (path_to x t) = a"
  using assms by (cases t) (auto split: if_splits)

lemma tree_at_heap: "tree_at h par x t \<Longrightarrow> b \<in> set (refs t) \<Longrightarrow> h b \<noteq> None"
  by (induction t arbitrary: par x) auto

lemma tree_at_Some: "tree_at h par x t \<Longrightarrow> b \<in> set (refs t) \<Longrightarrow> \<exists>a. x = Some a"
  by (cases t) auto

text \<open>\<open>ms_get_target\<close> returns, for every node of a table, the nearest node on its way to the top
  that has a role; when no node on the way has one it returns the top. The walk ends.\<close>

theorem ms_get_target_nearest:
  assumes "table_at T t" and "x \<in> set (refs t)"
  shows "top T = Some (hd (path_to x t)) \<and> ms_get_target (heap T) (top T) x =
    Some (last (hd (path_to x t) # filter (typed (heap T)) (path_to x t)))"
proof -
  let ?p = "path_to x t"
  have tr: "tree_at (heap T) None (top T) t" "distinct (refs t)" using assms(1) by (simp_all add: table_at_def)
  obtain a where a: "top T = Some a" using tree_at_Some [OF tr(1) assms(2)] ..
  have ne: "?p \<noteq> []" using assms(2) path_to_ref by blast
  have top: "top T = Some (hd ?p)" using path_to_top [OF _ ne] tr(1) a by simp
  have "climbs (heap T) ?p" using path_climbs [OF tr(1)] by blast
  moreover have "\<forall>a\<in>set ?p. heap T a \<noteq> None" using path_to_in tree_at_heap [OF tr(1)] by blast
  ultimately show ?thesis
    using get_target_up [of "heap T" ?p "top T"] ne top distinct_path_to [OF tr(2)] last_path_to [OF assms(2)] by simp
qed

definition eid_table :: "nat db_table" where
  "eid_table = put 0 (sample_root\<lparr>flags := Some (ms_new_node_ex ROLE_EID)\<rparr>) sample_table"

lemma eid_table_at: "table_at eid_table sample_tree"
  using table_at_flags [OF sample_table_at(1), of 0 sample_root] by (simp add: eid_table_def sample_table_def)

lemma eid_table_nodes:
  "heap eid_table 0 = Some (sample_root\<lparr>flags := Some (ms_new_node_ex ROLE_EID)\<rparr>)"
  "heap eid_table 1 = Some sample_net" "top eid_table = Some 0" "refs sample_tree = [0, 1]"
  "path_to 1 sample_tree = [0, 1]" "flags sample_net = None"
  by (simp_all add: eid_table_def put_def sample_table_def sample_tree_def sample_net_def)

theorem ms_get_target_nearest_witness: "ms_get_target (heap eid_table) (top eid_table) 1 = Some 0"
  using ms_get_target_nearest [OF eid_table_at, of 1]
  by (simp add: eid_table_nodes typed_def has_role_def ms_new_node_ex_def ROLE_EID_def del: One_nat_def)

text \<open>\<open>ms_get_tree\<close> appends to a list, in preorder, exactly the nodes of a table that have one of
  the roles it is asked for, keeps what the list held, and returns the length of the list.\<close>

theorem ms_get_tree_preorder:
  assumes "table_at T t" and "t \<noteq> Tip" and "list_at l xs"
  shows "\<exists>l' ys. ms_get_tree flag (heap T) (top T) l = Some (l_count l', l') \<and> list_at l' (xs @ ys) \<and>
    map snd ys = map Some (filter (of_type (heap T) flag) (refs t))"
  using get_tree_preorder [of "heap T" None "top T" t l xs flag] assms by (auto simp: table_at_def)

theorem ms_get_tree_preorder_witness:
  "\<exists>l'. ms_get_tree ROLE_EID (heap eid_table) (top eid_table) list_init = Some (l_count l', l') \<and>
    (\<exists>r. list_at l' [(r, Some 0)])"
proof -
  have "sample_tree \<noteq> Tip" by (simp add: sample_tree_def)
  from ms_get_tree_preorder [OF eid_table_at this list_at_init, of ROLE_EID] obtain l' ys where
    "ms_get_tree ROLE_EID (heap eid_table) (top eid_table) list_init = Some (l_count l', l')" "list_at l' ys"
    "map snd ys = map Some (filter (of_type (heap eid_table) ROLE_EID) [0, 1])"
    by (auto simp: eid_table_nodes)
  moreover have "filter (of_type (heap eid_table) ROLE_EID) [0, 1] = [0]"
    by (simp add: eid_table_nodes of_type_def ms_node_is_type_def ms_new_node_ex_def ROLE_EID_def del: One_nat_def)
  ultimately show ?thesis by (auto simp: map_eq_Cons_conv)
qed

text \<open>The two roots.\<close>

lemma init_root_single:
  assumes "wf_fam p" and "plen p = 0"
  shows "\<exists>T q n. init_root p (db_table_init r) = Some T \<and> table_at T (Nd 0 q None 1 Tip Tip) \<and>
    family q = family p \<and> plen q = 0 \<and> db_table.count T = 1 \<and> heap T 0 = Some n \<and>
    flags n = Some (ms_new_node_ex ROLE_ROOT)"
proof -
  let ?T = "db_table_init r :: 'a db_table"
  have "table_at ?T Tip" "next_ref ?T = 0" "db_table.count ?T = 0" by (simp_all add: table_at_def db_table_init_def)
  with db_node_get_refines [of ?T Tip p] assms(1) obtain T' where
    g: "db_node_get p ?T = Some (0, T')" "table_at T' (Nd 0 (copied p) None 1 Tip Tip)" "db_table.count T' = 1"
    by (auto simp: all_family_def)
  then obtain n where n: "top T' = Some 0" "heap T' 0 = Some n" by (auto simp: table_at_def)
  let ?T2 = "put 0 (n\<lparr>flags := Some (ms_new_node_ex ROLE_ROOT)\<rparr>) T'"
  have "init_root p ?T = Some ?T2" using g(1) n by (simp add: init_root_def)
  with table_at_flags [OF g(2) n(2)] copied_spec(3,5) [OF assms(1)] assms(2) g(3) show ?thesis
    by (intro exI [of _ ?T2] exI [of _ "copied p"]) (simp add: put_def)
qed

lemma init_root_strings:
  "CHR ''/'' \<in> set ''0.0.0.0/0''" "before_slash ''0.0.0.0/0'' = ''0.0.0.0''" "atoi (after_slash ''0.0.0.0/0'') = 0"
  "CHR ''/'' \<in> set ''0::/0''" "before_slash ''0::/0'' = ''0::''" "atoi (after_slash ''0::/0'') = 0"
  by code_simp+

lemma apply_mask_keeps:
  assumes "length (addr p) = 16" and "prefixlen p = 0"
  shows "length (addr (apply_mask p)) = 16 \<and> prefixlen (apply_mask p) = 0 \<and> family (apply_mask p) = family p"
  using assms apply_mask_n_bits(2-4) [of p 4] apply_mask_n_bits(2-4) [of p 16]
  by (cases "family p") (simp_all add: apply_mask_def apply_mask_ipv4_def apply_mask_ipv6_def plen_def)

text \<open>\<open>ms_init_db\<close> succeeds: each of its two tables holds one node, the prefix of length 0 of its
  family, with the role of a root. The assumptions are what \<open>inet_aton\<close> and \<open>inet_pton\<close> answer on the
  two strings the code gives them.\<close>

theorem ms_init_db_roots:
  assumes "inet_aton ''0.0.0.0'' = Some [0, 0, 0, 0]" and "inet_aton ''0::'' = None"
    and "inet_pton ''0::'' = Some (replicate 16 0)" and "length (addr p) = 16"
  shows "\<exists>db q4 q6 n4 n6. ms_init_db inet_aton inet_pton p = Some db \<and>
    table_at (lisp_db4 db) (Nd 0 q4 None 1 Tip Tip) \<and> table_at (lisp_db6 db) (Nd 0 q6 None 1 Tip Tip) \<and>
    family q4 = FAM_INET \<and> family q6 = FAM_INET6 \<and> plen q4 = 0 \<and> plen q6 = 0 \<and>
    heap (lisp_db4 db) 0 = Some n4 \<and> heap (lisp_db6 db) 0 = Some n6 \<and>
    flags n4 = Some (ms_new_node_ex ROLE_ROOT) \<and> flags n6 = Some (ms_new_node_ex ROLE_ROOT) \<and>
    db_table.count (lisp_db4 db) = 1 \<and> db_table.count (lisp_db6 db) = 1"
proof -
  define p4 where "p4 = apply_mask (p\<lparr>addr := [0, 0, 0, 0] @ drop 4 (addr p), family := FAM_INET, prefixlen := 0\<rparr>)"
  define p6 where "p6 = apply_mask (p4\<lparr>addr := replicate 16 0, prefixlen := 0, family := FAM_INET6\<rparr>)"
  have s4: "snd (str2prefix inet_aton inet_pton ''0.0.0.0/0'' p) =
      p\<lparr>addr := [0, 0, 0, 0] @ drop 4 (addr p), family := FAM_INET, prefixlen := 0\<rparr>"
    using assms(1) init_root_strings(1-3) by (simp add: str2prefix_def str2prefix_ipv4_def set_prefix4_def)
  have k4: "length (addr p4) = 16 \<and> prefixlen p4 = 0 \<and> family p4 = FAM_INET"
    unfolding p4_def using assms(4) apply_mask_keeps
      [of "p\<lparr>addr := [0, 0, 0, 0] @ drop 4 (addr p), family := FAM_INET, prefixlen := 0\<rparr>"] by simp
  then have k6: "length (addr p6) = 16 \<and> prefixlen p6 = 0 \<and> family p6 = FAM_INET6"
    unfolding p6_def
    using apply_mask_keeps [of "p4\<lparr>addr := replicate 16 0, prefixlen := 0, family := FAM_INET6\<rparr>"] by simp
  have s6: "snd (str2prefix inet_aton inet_pton ''0::/0'' p4) =
      p4\<lparr>addr := replicate 16 0, prefixlen := 0, family := FAM_INET6\<rparr>"
    using assms(2,3) init_root_strings(4-6)
    by (simp add: str2prefix_def str2prefix_ipv4_def str2prefix_ipv6_def)
  have w: "wf_fam p4" "plen p4 = 0" "wf_fam p6" "plen p6 = 0"
    using k4 k6 by (simp_all add: wf_fam_def wf_cp_def plen_def)
  obtain T4 q4 n4 where r4: "init_root p4 (db_table_init True) = Some (T4 :: 'a db_table)"
    "table_at T4 (Nd 0 q4 None 1 Tip Tip)" "family q4 = FAM_INET" "plen q4 = 0" "db_table.count T4 = 1"
    "heap T4 0 = Some n4" "flags n4 = Some (ms_new_node_ex ROLE_ROOT)"
    using init_root_single [OF w(1,2), of True] k4 by auto
  obtain T6 q6 n6 where r6: "init_root p6 (db_table_init True) = Some (T6 :: 'a db_table)"
    "table_at T6 (Nd 0 q6 None 1 Tip Tip)" "family q6 = FAM_INET6" "plen q6 = 0" "db_table.count T6 = 1"
    "heap T6 0 = Some n6" "flags n6 = Some (ms_new_node_ex ROLE_ROOT)"
    using init_root_single [OF w(3,4), of True] k6 by auto
  have "ms_init_db inet_aton inet_pton p = Some \<lparr>lisp_db4 = T4, lisp_db6 = T6\<rparr>"
    using r4(1) r6(1) s4 s6 unfolding p4_def p6_def
    by (simp add: ms_init_db_def Let_def case_prod_beta)
  with r4 r6 show ?thesis by (intro exI [of _ "\<lparr>lisp_db4 = T4, lisp_db6 = T6\<rparr>"]) auto
qed

definition sample_aton :: "string \<Rightarrow> byte list option" where
  "sample_aton s = (if s = ''0.0.0.0'' then Some [0, 0, 0, 0] else None)"

definition sample_pton :: "string \<Rightarrow> byte list option" where
  "sample_pton s = (if s = ''0::'' then Some (replicate 16 0) else None)"

theorem ms_init_db_roots_witness:
  "\<exists>db :: nat lisp_db. ms_init_db sample_aton sample_pton zero_prefix = Some db \<and>
    db_table.count (lisp_db4 db) = 1 \<and> db_table.count (lisp_db6 db) = 1"
proof -
  have "sample_aton ''0.0.0.0'' = Some [0, 0, 0, 0]" "sample_aton ''0::'' = None"
    "sample_pton ''0::'' = Some (replicate 16 0)" "length (addr zero_prefix) = 16"
    by (simp_all add: sample_aton_def sample_pton_def zero_prefix_def)
  from ms_init_db_roots [of sample_aton sample_pton zero_prefix] this show ?thesis by blast
qed

section \<open>The names\<close>

fun join_bar :: "string list \<Rightarrow> string" where
  "join_bar [] = []"
| "join_bar [s] = s"
| "join_bar (s # t # ss) = s @ ''|'' @ join_bar (t # ss)"

lemma type_loop_names:
  "\<forall>k\<in>set [0..<64]. type_loop (of_nat k) 1 [] =
     Some (join_bar (map (\<lambda>j. the (node_type (2 ^ j))) (filter (bit (of_nat k :: byte)) [0..<6])))"
  by code_simp

text \<open>The name of a node with roles is the names of its roles, in the order of their bits and
  separated by bars, when only the roles the table of names knows are set.\<close>

theorem node_type2_str_names:
  assumes "flags rn = Some f" and "mf_range f \<noteq> 0" and "mf_range f < 64"
  shows "node_type2_str rn =
    Some (join_bar (map (\<lambda>j. the (node_type (2 ^ j))) (filter (bit (mf_range f)) [0..<6])))"
proof -
  have "unat (mf_range f) \<in> set [0..<64]" using assms(3) by (simp add: word_less_nat_alt)
  from bspec [OF type_loop_names this] assms(1,2) show ?thesis by (simp add: node_type2_str_def)
qed

lemma node_type2_str_unknown:
  assumes "flags rn = Some f" and "mf_range f = 64" shows "node_type2_str rn = None"
proof -
  have "type_loop 64 1 [] = None" by code_simp
  with assms show ?thesis by (simp add: node_type2_str_def)
qed

theorem node_type2_str_names_witness:
  "node_type2_str (sample_root\<lparr>flags := Some (ms_new_node_ex (ROLE_MAPP OR ROLE_EID))\<rparr>) = Some ''MAPP|EID''"
proof -
  have "join_bar (map (\<lambda>j. the (node_type (2 ^ j))) (filter (bit (ROLE_MAPP OR ROLE_EID)) [0..<6])) = ''MAPP|EID''"
    "ROLE_MAPP OR ROLE_EID \<noteq> 0" "ROLE_MAPP OR ROLE_EID < 64" by code_simp+
  with node_type2_str_names [of "sample_root\<lparr>flags := Some (ms_new_node_ex (ROLE_MAPP OR ROLE_EID))\<rparr>"
      "ms_new_node_ex (ROLE_MAPP OR ROLE_EID)"]
  show ?thesis by (simp add: ms_new_node_ex_def)
qed

end
