(* ===== verification/Cp_Wire.thy ===== *)
theory Cp_Wire
  imports Cp_Prefix Checksum
begin

text \<open>
  What the message code of \<open>udp.c\<close> stands on: socket addresses, locator entries and the wire
  structures of \<open>udp.h\<close>. A packet is a list of bytes, a pointer into it an offset; a load or a store
  outside it is \<open>None\<close>, like a failed assertion. Bit fields are laid out as on the little-endian hosts
  the program is built for. The lists of \<open>list.c\<close> are lists here: \<open>Cp_List\<close> proves that the operations
  used (\<open>list_insert\<close> without and with a comparison, \<open>list_search\<close>, the walk) act on them as such.
\<close>

section \<open>Loads and stores\<close>

definition rd32be :: "byte list \<Rightarrow> nat \<Rightarrow> u32 option" where
  "rd32be b i = do { h \<leftarrow> rd16be b i; l \<leftarrow> rd16be b (i + 2); Some (word_cat h l) }"

definition wr :: "nat \<Rightarrow> byte list \<Rightarrow> byte list \<Rightarrow> byte list option" where
  "wr i bs b = (if i + length bs \<le> length b then Some (take i b @ bs @ drop (i + length bs) b) else None)"

definition net16 :: "u16 \<Rightarrow> byte list" where
  "net16 w = [ucast (drop_bit 8 w), ucast w]"

definition net32 :: "u32 \<Rightarrow> byte list" where
  "net32 w = net16 (ucast (drop_bit 16 w)) @ net16 (ucast w)"

text \<open>A bit field of \<open>n\<close> bits from bit \<open>lo\<close> of a byte.\<close>

definition get_field :: "nat \<Rightarrow> nat \<Rightarrow> byte \<Rightarrow> byte" where
  "get_field lo n v = take_bit n (drop_bit lo v)"

definition put_field :: "nat \<Rightarrow> nat \<Rightarrow> byte \<Rightarrow> byte \<Rightarrow> byte" where
  "put_field lo n x v = (v AND NOT (push_bit lo (mask n))) OR push_bit lo (take_bit n x)"

section \<open>Socket addresses\<close>

text \<open>\<open>union sockunion\<close>: the family, the port, and what follows them, which an IPv4 address shares
  with the flow label and the first bytes of an IPv6 address. A port is the number that its two
  network-order bytes denote.\<close>

record sockunion =
  su_family :: af
  su_port :: u16
  su_rest :: "byte list"

definition zero_sockunion :: sockunion where
  "zero_sockunion = \<lparr>su_family = FAM_OTHER 0, su_port = 0, su_rest = replicate 124 0\<rparr>"

definition sin_addr :: "sockunion \<Rightarrow> byte list" where
  "sin_addr s = take 4 (su_rest s)"

definition sin6_addr :: "sockunion \<Rightarrow> byte list" where
  "sin6_addr s = take 16 (drop 4 (su_rest s))"

definition set_sin_addr :: "byte list \<Rightarrow> sockunion \<Rightarrow> sockunion" where
  "set_sin_addr a s = s\<lparr>su_rest := a @ drop 4 (su_rest s)\<rparr>"

definition set_sin6_addr :: "byte list \<Rightarrow> sockunion \<Rightarrow> sockunion" where
  "set_sin6_addr a s = s\<lparr>su_rest := take 4 (su_rest s) @ a @ drop 20 (su_rest s)\<rparr>"

text \<open>The sizes of a socket address and of the address in it.\<close>

definition SA_LEN :: "af \<Rightarrow> nat" where
  "SA_LEN f = (if f = FAM_INET then 16 else 28)"

definition SIN_LEN :: "af \<Rightarrow> nat" where
  "SIN_LEN f = (if f = FAM_INET then 4 else 16)"

definition wf_su :: "sockunion \<Rightarrow> bool" where
  "wf_su s \<longleftrightarrow> length (su_rest s) = 124"

fun memcmp :: "byte list \<Rightarrow> byte list \<Rightarrow> int" where
  "memcmp (x # xs) (y # ys) = (if x = y then memcmp xs ys else if x < y then -1 else 1)"
| "memcmp _ _ = 0"

definition addrcmp :: "sockunion \<Rightarrow> sockunion \<Rightarrow> int" where
  "addrcmp src dst =
     (if su_family src \<noteq> su_family dst then -1
      else case su_family src of
        FAM_INET \<Rightarrow> memcmp (sin_addr src) (sin_addr dst)
      | FAM_INET6 \<Rightarrow> memcmp (sin6_addr src) (sin6_addr dst)
      | FAM_OTHER _ \<Rightarrow> -1)"

definition sockunioncmp :: "sockunion \<Rightarrow> sockunion \<Rightarrow> int" where
  "sockunioncmp sp dp =
     (if su_family sp \<noteq> su_family dp then -1
      else case su_family sp of
        FAM_INET \<Rightarrow> memcmp (sin_addr sp) (sin_addr dp)
      | FAM_INET6 \<Rightarrow> memcmp (sin6_addr sp) (sin6_addr dp)
      | FAM_OTHER _ \<Rightarrow> -1)"

definition sk_get_port :: "sockunion \<Rightarrow> u16" where
  "sk_get_port sk =
     (case su_family sk of FAM_INET \<Rightarrow> su_port sk | FAM_INET6 \<Rightarrow> su_port sk | FAM_OTHER _ \<Rightarrow> 0)"

definition sk_set_port :: "sockunion \<Rightarrow> u16 \<Rightarrow> sockunion" where
  "sk_set_port sk port =
     (case su_family sk of
        FAM_INET \<Rightarrow> sk\<lparr>su_port := port\<rparr> | FAM_INET6 \<Rightarrow> sk\<lparr>su_port := port\<rparr> | FAM_OTHER _ \<Rightarrow> sk)"

definition LISP_CP_PORT :: u16 where "LISP_CP_PORT = 4342"

section \<open>Locators\<close>

type_synonym flag = "1 word"

record hop_entry =
  he_L :: flag
  he_P :: flag
  he_S :: flag
  he_addr :: sockunion

record pe_entry =
  pe_priority :: byte
  pe_weight :: byte
  pe_m_priority :: byte
  pe_m_weight :: byte
  pe_L :: flag
  pe_p :: flag
  pe_r :: flag
  pe_hop :: "hop_entry list"

record map_entry =
  me_rloc :: sockunion
  me_priority :: byte
  me_weight :: byte
  me_m_priority :: byte
  me_m_weight :: byte
  me_L :: flag
  me_p :: flag
  me_r :: flag
  me_pe :: "pe_entry list option"

definition entrycmp :: "map_entry option \<Rightarrow> map_entry option \<Rightarrow> int" where
  "entrycmp esrc edst =
     (case (esrc, edst) of (Some src, Some dst) \<Rightarrow> addrcmp (me_rloc src) (me_rloc dst) | _ \<Rightarrow> -1)"

text \<open>The order of locators in a mapping: IPv4 before IPv6, then by the bytes from \<open>sin_addr\<close> on.\<close>

definition insert_ip_ordered :: "map_entry \<Rightarrow> map_entry \<Rightarrow> int" where
  "insert_ip_ordered data entry =
     (let ins = me_rloc data; exis = me_rloc entry
      in if su_family ins \<noteq> su_family exis then (if su_family ins = FAM_INET then -1 else 1)
         else case su_family ins of
           FAM_INET \<Rightarrow> memcmp (take 4 (su_rest ins)) (take 4 (su_rest exis))
         | FAM_INET6 \<Rightarrow> memcmp (take 16 (su_rest ins)) (take 16 (su_rest exis))
         | FAM_OTHER _ \<Rightarrow> 0)"

section \<open>The structures of the wire\<close>

definition LISP_AFI_IP :: u16 where "LISP_AFI_IP = 1"
definition LISP_AFI_IPV6 :: u16 where "LISP_AFI_IPV6 = 2"
definition LCAF_AFI :: u16 where "LCAF_AFI = 16387"
definition LCAF_TE :: byte where "LCAF_TE = 10"

lemmas afi_defs = LISP_AFI_IP_def LISP_AFI_IPV6_def LCAF_AFI_def LCAF_TE_def

definition LISP_TYPE_MAP_REQUEST :: byte where "LISP_TYPE_MAP_REQUEST = 1"
definition LISP_TYPE_MAP_REPLY :: byte where "LISP_TYPE_MAP_REPLY = 2"
definition LISP_TYPE_MAP_REGISTER :: byte where "LISP_TYPE_MAP_REGISTER = 3"
definition LISP_TYPE_MAP_NOTIFY :: byte where "LISP_TYPE_MAP_NOTIFY = 4"
definition LISP_TYPE_MAP_REFERRAL :: byte where "LISP_TYPE_MAP_REFERRAL = 6"
definition LISP_TYPE_ENCAPSULATED_CONTROL_MESSAGE :: byte where
  "LISP_TYPE_ENCAPSULATED_CONTROL_MESSAGE = 8"

lemmas type_defs = LISP_TYPE_MAP_REQUEST_def LISP_TYPE_MAP_REPLY_def LISP_TYPE_MAP_REGISTER_def
  LISP_TYPE_MAP_NOTIFY_def LISP_TYPE_MAP_REFERRAL_def LISP_TYPE_ENCAPSULATED_CONTROL_MESSAGE_def

text \<open>The type of a message is the high half of its first byte in every header.\<close>

definition lisp_type :: "byte list \<Rightarrow> nat \<Rightarrow> byte option" where
  "lisp_type b i = map_option (get_field 4 4) (rd8 b i)"

text \<open>\<open>map_reply_record\<close>, which Map-Register messages use as well: ten bytes, the AFI and the address
  of the EID prefix.\<close>

record map_reply_record =
  rr_ttl :: u32
  rr_locator_count :: byte
  rr_mask_len :: byte
  rr_act :: byte
  rr_a :: flag
  rr_version :: "12 word"
  rr_afi :: u16

definition read_reply_record :: "byte list \<Rightarrow> nat \<Rightarrow> map_reply_record option" where
  "read_reply_record b i = do {
     ttl \<leftarrow> rd32be b i;
     lc \<leftarrow> rd8 b (i + 4);
     ml \<leftarrow> rd8 b (i + 5);
     f \<leftarrow> rd8 b (i + 6);
     v \<leftarrow> rd16le b (i + 8);
     afi \<leftarrow> rd16be b (i + 10);
     Some \<lparr>rr_ttl = ttl, rr_locator_count = lc, rr_mask_len = ml, rr_act = get_field 5 3 f,
       rr_a = ucast (get_field 4 1 f), rr_version = ucast v, rr_afi = afi\<rparr> }"

text \<open>\<open>map_reply_locator\<close>: eight bytes and the address.\<close>

record map_reply_locator =
  rl_priority :: byte
  rl_weight :: byte
  rl_m_priority :: byte
  rl_m_weight :: byte
  rl_R :: flag
  rl_p :: flag
  rl_L :: flag
  rl_afi :: u16

definition read_reply_locator :: "byte list \<Rightarrow> nat \<Rightarrow> map_reply_locator option" where
  "read_reply_locator b i = do {
     p \<leftarrow> rd8 b i;
     w \<leftarrow> rd8 b (i + 1);
     mp \<leftarrow> rd8 b (i + 2);
     mw \<leftarrow> rd8 b (i + 3);
     f \<leftarrow> rd8 b (i + 5);
     afi \<leftarrow> rd16be b (i + 6);
     Some \<lparr>rl_priority = p, rl_weight = w, rl_m_priority = mp, rl_m_weight = mw,
       rl_R = ucast (get_field 0 1 f), rl_p = ucast (get_field 1 1 f), rl_L = ucast (get_field 2 1 f),
       rl_afi = afi\<rparr> }"

section \<open>Sizes on the wire\<close>

definition get_address_type :: "byte list \<Rightarrow> nat \<Rightarrow> u16 option" where
  "get_address_type b i = rd16be b i"

definition get_address_size :: "byte list \<Rightarrow> nat \<Rightarrow> nat option" where
  "get_address_size b i = do {
     t \<leftarrow> get_address_type b i;
     if t = LISP_AFI_IP then Some 6 else if t = LISP_AFI_IPV6 then Some 18 else None }"

definition get_record_size :: "byte list \<Rightarrow> nat \<Rightarrow> nat option" where
  "get_record_size b i = do {
     t \<leftarrow> rd16be b (i + 2);
     Some (if t = LISP_AFI_IP then 8 else if t = LISP_AFI_IPV6 then 20 else 0) }"

definition get_reply_record_size :: "byte list \<Rightarrow> nat \<Rightarrow> nat option" where
  "get_reply_record_size b i = do {
     t \<leftarrow> rd16be b (i + 10);
     if t = LISP_AFI_IP then Some 16 else if t = LISP_AFI_IPV6 then Some 28 else None }"

definition get_referral_record_size :: "byte list \<Rightarrow> nat \<Rightarrow> nat option" where
  "get_referral_record_size b i = do {
     t \<leftarrow> rd16be b (i + 22);
     if t = LISP_AFI_IP then Some 28 else if t = LISP_AFI_IPV6 then Some 40 else None }"

section \<open>Reading what was written\<close>

named_theorems at_simps \<open>reads behind a prefix of a buffer\<close>

lemma rd8_at [at_simps]: "rd8 (xs @ ys) (length xs + k) = rd8 ys k"
  by (simp add: rd8_def nth_append)

lemma rd16be_at [at_simps]: "rd16be (xs @ ys) (length xs + k) = rd16be ys k"
  by (simp add: rd16be_def rd8_at flip: add_Suc_right)

lemma rd16le_at [at_simps]: "rd16le (xs @ ys) (length xs + k) = rd16le ys k"
  by (simp add: rd16le_def rd8_at flip: add_Suc_right)

lemma rd32be_at [at_simps]: "rd32be (xs @ ys) (length xs + k) = rd32be ys k"
  using rd16be_at [of xs ys "k + 2"] by (simp add: rd32be_def rd16be_at add.assoc)

lemma rdn_at [at_simps]: "rdn (xs @ ys) (length xs + k) n = rdn ys k n"
  by (simp add: rdn_def add.assoc)

lemmas at_simps0 [at_simps] = rd8_at [where k = 0, simplified] rd16be_at [where k = 0, simplified]
  rd16le_at [where k = 0, simplified] rd32be_at [where k = 0, simplified] rdn_at [where k = 0, simplified]

lemma length_net [simp]: "length (net16 w) = 2" "length (net32 w') = 4"
  by (simp_all add: net16_def net32_def)

lemma rd16be_net16 [simp]: "rd16be (net16 w @ ys) 0 = Some w"
  by (simp add: rd16be_def rd8_def net16_def word_cat_parts)

lemma word_cat_parts32: "word_cat (ucast (drop_bit 16 (w :: u32)) :: u16) (ucast w :: u16) = w"
  by (rule bit_word_eqI) (auto simp: bit_simps)

lemma rd32be_net32 [simp]: "rd32be (net32 w @ ys) 0 = Some w"
proof -
  let ?h = "net16 (ucast (drop_bit 16 w))" and ?l = "net16 (ucast w)"
  have "rd16be (?h @ ?l @ ys) 0 = Some (ucast (drop_bit 16 w))" by simp
  moreover have "rd16be (?h @ ?l @ ys) 2 = Some (ucast w)"
    using rd16be_at [of ?h "?l @ ys" 0] by simp
  ultimately show ?thesis by (simp add: rd32be_def net32_def word_cat_parts32 numeral_2_eq_2)
qed

lemma rdn_append_0 [simp]: "length xs = n \<Longrightarrow> rdn (xs @ ys) 0 n = Some xs"
  by (simp add: rdn_def)

text \<open>Reads of a list that is written out.\<close>

lemma rd8_Cons [simp]: "rd8 (x # xs) 0 = Some x" "rd8 (x # xs) (Suc k) = rd8 xs k"
  by (simp_all add: rd8_def)

lemma rd16be_Cons [simp]: "rd16be (x # xs) (Suc k) = rd16be xs k"
  by (simp add: rd16be_def)

lemma rd16le_Cons [simp]: "rd16le (x # xs) (Suc k) = rd16le xs k"
  by (simp add: rd16le_def)

lemma rd32be_Cons [simp]: "rd32be (x # xs) (Suc k) = rd32be xs k"
  by (simp add: rd32be_def)

lemma rdn_Cons [simp]: "rdn (x # xs) (Suc k) n = rdn xs k n"
  by (simp add: rdn_def)

lemmas cons_reads = rd8_Cons rd16be_Cons rd16le_Cons rd32be_Cons rdn_Cons

text \<open>Bit fields.\<close>

lemma put_field_low: "lo + n \<le> 8 \<Longrightarrow> get_field lo n (put_field lo n x v) = take_bit n x"
  by (rule bit_word_eqI) (auto simp: get_field_def put_field_def bit_simps)

lemma put_field_other:
  "lo + n \<le> 8 \<Longrightarrow> lo + n \<le> lo' \<or> lo' + n' \<le> lo \<Longrightarrow> get_field lo n (put_field lo' n' x v) = get_field lo n v"
  by (rule bit_word_eqI) (auto simp: get_field_def put_field_def bit_simps)

lemma get_field_0 [simp]: "get_field lo n 0 = 0"
  by (simp add: get_field_def)

lemma flag_cases: "(f :: flag) = 0 \<or> f = 1"
proof -
  have "unat f < 2" using unsigned_less [of f] by simp
  then have "unat f = 0 \<or> unat f = 1" by linarith
  then show ?thesis by (metis unsigned_0 unsigned_1 word_unat_eq_iff)
qed

lemma take_bit_flag: "take_bit 1 (ucast (f :: flag)) = (ucast f :: byte)"
  using flag_cases [of f] by auto

lemma flag_ucast: "(ucast (ucast (f :: flag) :: byte) :: flag) = f"
  using flag_cases [of f] by auto

lemmas field_simps = put_field_low put_field_other take_bit_flag flag_ucast

lemma memcmp_eq_0: "length a = length b \<Longrightarrow> memcmp a b = 0 \<longleftrightarrow> a = b"
  by (induction a b rule: memcmp.induct) auto

end
