(* ===== verification/Cp_Request.thy ===== *)
theory Cp_Request
  imports Cp_Wire
begin

text \<open>
  The requests of \<open>udp.c\<close>: the entry a received datagram is kept in, \<open>udp_preparse_pk\<close> that finds
  the control message behind the headers of an Encapsulated Control Message, \<open>udp_prc_request\<close> that
  reads the ITRs and EIDs of a Map-Request, and the getters of \<open>udp_fct\<close>. Offsets stand for the
  pointers into the packet; a null one is \<open>None\<close>. \<open>nonce_0\<close> and \<open>nonce_1\<close>, which nothing reads, are
  left out.
\<close>

section \<open>State\<close>

text \<open>An entry of the list of ITRs. Its AFI field holds the host's address family, in network order.\<close>

record afi_address =
  aa_family :: af
  aa_addr :: "byte list"

record pk_req_entry =
  pk_ecm :: bool
  pk_ddt :: flag
  pk_type :: byte
  pk_nonce0 :: u32
  pk_nonce1 :: u32
  pk_si :: sockunion
  pk_di :: sockunion
  pk_lh :: "nat option"
  pk_ih_si :: sockunion
  pk_ih :: "nat option"
  pk_udp :: "nat option"
  pk_lcm :: "nat option"
  pk_buf :: "byte list"
  pk_itr :: "afi_address list option"
  pk_eid :: "cp_prefix list option"
  pk_buf_len :: u16
  pk_ttl :: byte
  pk_hop :: byte

text \<open>The entry of a datagram, as \<open>udp_get_pk\<close> makes it when the type is one it knows.\<close>

definition known_type :: "byte \<Rightarrow> bool" where
  "known_type t \<longleftrightarrow> t \<in> {LISP_TYPE_MAP_REQUEST, LISP_TYPE_MAP_REPLY, LISP_TYPE_MAP_REGISTER,
     LISP_TYPE_MAP_NOTIFY, LISP_TYPE_MAP_REFERRAL}"

definition new_request :: "byte list \<Rightarrow> sockunion \<Rightarrow> sockunion \<Rightarrow> pk_req_entry" where
  "new_request pk ssk dsk =
     \<lparr>pk_ecm = False, pk_ddt = 0, pk_type = 0, pk_nonce0 = 0, pk_nonce1 = 0, pk_si = ssk, pk_di = dsk,
      pk_lh = None, pk_ih_si = zero_sockunion, pk_ih = None, pk_udp = None, pk_lcm = None, pk_buf = pk,
      pk_itr = None, pk_eid = None, pk_buf_len = of_nat (length pk), pk_ttl = 0, pk_hop = 0\<rparr>"

text \<open>The received buffer is cleared before the datagram is read into it, so an empty datagram has
  type 0.\<close>

definition udp_get_pk :: "byte list \<Rightarrow> sockunion \<Rightarrow> sockunion \<Rightarrow> pk_req_entry option" where
  "udp_get_pk pk ssk dsk =
     (let t = (case pk of [] \<Rightarrow> 0 | b # _ \<Rightarrow> get_field 4 4 b)
      in if t = LISP_TYPE_ENCAPSULATED_CONTROL_MESSAGE \<or> known_type t
         then Some (new_request pk ssk dsk) else None)"

section \<open>Finding the control message\<close>

definition preparse_lcm :: "nat \<Rightarrow> pk_req_entry \<Rightarrow> (int \<times> pk_req_entry) option" where
  "preparse_lcm lh pke =
     (if unat (pk_buf_len pke) < lh + 4 + 8 then Some (-1, pke)
      else do {
        t \<leftarrow> lisp_type (pk_buf pke) lh;
        if known_type t then do {
          n0 \<leftarrow> rd32be (pk_buf pke) (lh + 4);
          n1 \<leftarrow> rd32be (pk_buf pke) (lh + 8);
          Some (1, pke\<lparr>pk_lcm := Some lh, pk_type := t, pk_nonce0 := n0, pk_nonce1 := n1\<rparr>) }
        else Some (-1, pke) })"

definition udp_preparse_pk :: "pk_req_entry \<Rightarrow> (int \<times> pk_req_entry) option" where
  "udp_preparse_pk pke =
     (let pke = pke\<lparr>pk_ttl := 0, pk_hop := 0, pk_itr := None, pk_eid := None\<rparr>; b = pk_buf pke
      in if unat (pk_buf_len pke) < 4 then Some (-1, pke)
         else do {
           t \<leftarrow> lisp_type b 0;
           if t = LISP_TYPE_ENCAPSULATED_CONTROL_MESSAGE then do {
             f \<leftarrow> rd8 b 0;
             let pke = pke\<lparr>pk_lh := Some 0, pk_ecm := True, pk_ddt := ucast (get_field 2 1 f), pk_ih := Some 4\<rparr>;
             if unat (pk_buf_len pke) < 4 + 20 + 8 then Some (-1, pke)
             else do {
               v \<leftarrow> rd8 b 4;
               if get_field 4 4 v = 4 then do {
                 port \<leftarrow> rd16be b 24;
                 a \<leftarrow> rdn b 16 4;
                 preparse_lcm 32 (pke\<lparr>pk_udp := Some 24,
                   pk_ih_si := set_sin_addr a ((pk_ih_si pke)\<lparr>su_family := FAM_INET, su_port := port\<rparr>)\<rparr>) }
               else if get_field 4 4 v = 6 then do {
                 port \<leftarrow> rd16be b 44;
                 a \<leftarrow> rdn b 12 16;
                 preparse_lcm 52 (pke\<lparr>pk_udp := Some 44,
                   pk_ih_si := set_sin6_addr a ((pk_ih_si pke)\<lparr>su_family := FAM_INET6, su_port := port\<rparr>)\<rparr>) }
               else Some (-1, pke) } }
           else preparse_lcm 0 pke })"

section \<open>Reading a Map-Request\<close>

text \<open>\<open>_afi_address_str\<close> prints an address: it reads it, and tells whether there is one.\<close>

definition afi_address_str :: "byte list \<Rightarrow> nat \<Rightarrow> bool option" where
  "afi_address_str b i = do {
     t \<leftarrow> get_address_type b i;
     if t = LISP_AFI_IP then do { _ \<leftarrow> rdn b (i + 2) 4; Some True }
     else if t = LISP_AFI_IPV6 then do { _ \<leftarrow> rdn b (i + 2) 16; Some True }
     else Some False }"

fun itr_loop :: "byte list \<Rightarrow> nat \<Rightarrow> nat \<Rightarrow> afi_address list \<Rightarrow> (bool \<times> nat \<times> afi_address list) option" where
  "itr_loop b 0 i itr = Some (True, i, itr)"
| "itr_loop b (Suc icount) i itr = do {
     t \<leftarrow> get_address_type b i;
     if t = LISP_AFI_IP then do {
       a \<leftarrow> rdn b (i + 2) 4;
       itr_loop b icount (i + 6) (itr @ [\<lparr>aa_family = FAM_INET, aa_addr = a @ replicate 12 0\<rparr>]) }
     else if t = LISP_AFI_IPV6 then do {
       a \<leftarrow> rdn b (i + 2) 16;
       itr_loop b icount (i + 18) (itr @ [\<lparr>aa_family = FAM_INET6, aa_addr = a\<rparr>]) }
     else Some (False, i, itr) }"

fun eid_loop :: "byte list \<Rightarrow> nat \<Rightarrow> nat \<Rightarrow> cp_prefix list \<Rightarrow> (bool \<times> cp_prefix list) option" where
  "eid_loop b 0 i eids = Some (True, eids)"
| "eid_loop b (Suc rcount) i eids = do {
     ml \<leftarrow> rd8 b (i + 1);
     t \<leftarrow> rd16be b (i + 2);
     let i = (if t = LCAF_AFI then i + 12 else i);
     t \<leftarrow> rd16be b (i + 2);
     if t = LISP_AFI_IP then do {
       a \<leftarrow> rdn b (i + 4) 4;
       s \<leftarrow> get_record_size b i;
       eid_loop b rcount (i + s) (eids @ [\<lparr>family = FAM_INET, prefixlen = ml, addr = a @ replicate 12 0\<rparr>]) }
     else if t = LISP_AFI_IPV6 then do {
       a \<leftarrow> rdn b (i + 4) 16;
       s \<leftarrow> get_record_size b i;
       eid_loop b rcount (i + s) (eids @ [\<lparr>family = FAM_INET6, prefixlen = ml, addr = a\<rparr>]) }
     else Some (False, eids) }"

definition udp_prc_request :: "pk_req_entry \<Rightarrow> (int \<times> pk_req_entry) option" where
  "udp_prc_request pke = do {
     lcm \<leftarrow> pk_lcm pke;
     let b = pk_buf pke;
     t \<leftarrow> lisp_type b lcm;
     if t \<noteq> LISP_TYPE_MAP_REQUEST then Some (0, pke)
     else do {
       irc \<leftarrow> rd8 b (lcm + 2);
       rcount \<leftarrow> rd8 b (lcm + 3);
       let eid_source = lcm + 12;
       ret \<leftarrow> afi_address_str b eid_source;
       eid_size \<leftarrow> (if ret then get_address_size b eid_source else Some 2);
       (ok, i, itr) \<leftarrow> itr_loop b (unat (get_field 0 5 irc) + 1) (eid_source + eid_size) [];
       let pke = pke\<lparr>pk_itr := Some itr\<rparr>;
       if \<not> ok then Some (-1, pke)
       else do {
         (ok, eids) \<leftarrow> eid_loop b (unat rcount) i [];
         let pke = pke\<lparr>pk_eid := Some eids\<rparr>;
         Some (if ok then 1 else -1, pke) } } }"

section \<open>What a request answers\<close>

definition udp_request_get_eid :: "pk_req_entry \<Rightarrow> cp_prefix \<Rightarrow> int \<times> cp_prefix" where
  "udp_request_get_eid pke pr =
     (case pk_eid pke of None \<Rightarrow> (-1, pr) | Some [] \<Rightarrow> (-1, pr) | Some (p # _) \<Rightarrow> (1, p))"

definition udp_request_get_nonce :: "pk_req_entry \<Rightarrow> u32 \<times> u32" where
  "udp_request_get_nonce pke = (pk_nonce0 pke, pk_nonce1 pke)"

definition udp_request_is_ddt :: "pk_req_entry \<Rightarrow> flag" where
  "udp_request_is_ddt pke = pk_ddt pke"

text \<open>\<open>afi = None\<close> is the argument 0, any family.\<close>

definition udp_request_get_itr :: "pk_req_entry \<Rightarrow> af option \<Rightarrow> sockunion \<Rightarrow> int \<times> sockunion" where
  "udp_request_get_itr pke afi itr =
     (case pk_itr pke of
        None \<Rightarrow> (-1, itr)
      | Some [] \<Rightarrow> (-1, itr)
      | Some l \<Rightarrow>
          (case find (\<lambda>a. afi = Some (aa_family a) \<or> afi = None) l of
             None \<Rightarrow> (0, itr)
           | Some a \<Rightarrow>
               (case aa_family a of
                  FAM_INET \<Rightarrow> (1, (set_sin_addr (take 4 (aa_addr a)) itr)\<lparr>su_family := FAM_INET\<rparr>)
                | FAM_INET6 \<Rightarrow> (1, (set_sin6_addr (aa_addr a) itr)\<lparr>su_family := FAM_INET6\<rparr>)
                | FAM_OTHER _ \<Rightarrow> (-1, itr))))"

definition udp_request_get_port :: "pk_req_entry \<Rightarrow> u16" where
  "udp_request_get_port pke = su_port (if pk_ecm pke then pk_ih_si pke else pk_si pke)"

end
