(* ===== verification/Cp_Message.thy ===== *)
theory Cp_Message
  imports Cp_Request
begin

text \<open>
  The messages \<open>udp.c\<close> builds: Map-Reply, Map-Register, Map-Referral and the Map-Request it forwards.
  The buffer of a message is allocated zeroed and every function writes at the cursor and moves it
  past what it wrote, so a message is kept as the bytes below the cursor; what is written must fit in
  \<open>PKBUFLEN\<close> bytes. \<open>None\<close> is a failed assertion or an access outside a buffer. Logging is left out.
\<close>

section \<open>Messages\<close>

definition PKBUFLEN :: nat where "PKBUFLEN = 65527"

record pk_rpl_entry =
  rp_buf :: "byte list"
  rp_req :: "pk_req_entry option"

record cp_config =
  cf_fncs :: byte
  cf_lisp_te :: bool

definition FNC_XTR :: byte where "FNC_XTR = 1"
definition FNC_MS :: byte where "FNC_MS = 2"
definition FNC_MR :: byte where "FNC_MR = 4"
definition FNC_NODE :: byte where "FNC_NODE = 8"

lemmas fnc_defs = FNC_XTR_def FNC_MS_def FNC_MR_def FNC_NODE_def

definition has_fnc :: "cp_config \<Rightarrow> byte \<Rightarrow> bool" where
  "has_fnc cf f \<longleftrightarrow> cf_fncs cf AND f \<noteq> 0"

definition emit :: "byte list \<Rightarrow> pk_rpl_entry \<Rightarrow> pk_rpl_entry option" where
  "emit bs rpk =
     (if length (rp_buf rpk) + length bs \<le> PKBUFLEN then Some (rpk\<lparr>rp_buf := rp_buf rpk @ bs\<rparr>) else None)"

definition poke :: "nat \<Rightarrow> (byte \<Rightarrow> byte) \<Rightarrow> pk_rpl_entry \<Rightarrow> pk_rpl_entry" where
  "poke i f rpk = rpk\<lparr>rp_buf := (rp_buf rpk)[i := f (rp_buf rpk ! i)]\<rparr>"

definition udp_new_reply_entry :: "pk_req_entry option \<Rightarrow> pk_rpl_entry" where
  "udp_new_reply_entry pke = \<lparr>rp_buf = [], rp_req = pke\<rparr>"

text \<open>\<open>htonl\<close> on the little-endian hosts the program is built for, and the value that storing it into a
  12-bit field leaves.\<close>

definition htonl :: "u32 \<Rightarrow> u32" where
  "htonl w = word_cat (htons (ucast w)) (htons (ucast (drop_bit 16 w)))"

definition version_field :: "u32 \<Rightarrow> 12 word" where
  "version_field version = ucast (htonl version)"

definition le_version :: "12 word \<Rightarrow> byte \<Rightarrow> byte list" where
  "le_version v high = [ucast v, put_field 0 4 (ucast (drop_bit 8 v)) (put_field 4 4 high 0)]"

definition locator_address :: "sockunion \<Rightarrow> byte list option" where
  "locator_address s =
     (case su_family s of
        FAM_INET \<Rightarrow> Some (net16 LISP_AFI_IP @ sin_addr s)
      | FAM_INET6 \<Rightarrow> Some (net16 LISP_AFI_IPV6 @ sin6_addr s)
      | FAM_OTHER _ \<Rightarrow> None)"

definition prefix_address :: "cp_prefix \<Rightarrow> byte list option" where
  "prefix_address p =
     (case family p of
        FAM_INET \<Rightarrow> Some (net16 LISP_AFI_IP @ take 4 (addr p))
      | FAM_INET6 \<Rightarrow> Some (net16 LISP_AFI_IPV6 @ take 16 (addr p))
      | FAM_OTHER _ \<Rightarrow> None)"

section \<open>Map-Reply and Map-Register\<close>

definition udp_register_add :: "pk_req_entry option \<Rightarrow> pk_rpl_entry option" where
  "udp_register_add pke =
     emit ([put_field 4 4 LISP_TYPE_MAP_REGISTER 0, 0, 0, 0] @ replicate 12 0 @ replicate 20 0)
       (udp_new_reply_entry pke)"

definition udp_reply_add :: "pk_req_entry \<Rightarrow> pk_rpl_entry option" where
  "udp_reply_add pke =
     (let (nonce0, nonce1) = udp_request_get_nonce pke
      in emit ([put_field 4 4 LISP_TYPE_MAP_REPLY 0, 0, 0, 0] @ net32 nonce0 @ net32 nonce1)
           (udp_new_reply_entry (Some pke)))"

text \<open>Whether the request a message answers is a probe of a locator.\<close>

definition request_probes :: "pk_rpl_entry \<Rightarrow> bool option" where
  "request_probes rpk =
     (case rp_req rpk of
        None \<Rightarrow> Some False
      | Some pke \<Rightarrow>
          (case pk_lcm pke of
             None \<Rightarrow> Some False
           | Some m \<Rightarrow> map_option (\<lambda>v. get_field 1 1 v \<noteq> 0) (rd8 (pk_buf pke) m)))"

definition udp_reply_add_record ::
  "pk_rpl_entry \<Rightarrow> cp_prefix \<Rightarrow> u32 \<Rightarrow> byte \<Rightarrow> u32 \<Rightarrow> byte \<Rightarrow> byte \<Rightarrow> pk_rpl_entry option" where
  "udp_reply_add_record rpk p ttl lcount version A act = do {
     let rpk = poke 3 (\<lambda>c. c + 1) rpk;
     probe \<leftarrow> request_probes rpk;
     let rpk = (if probe then poke 0 (put_field 3 1 1) rpk else rpk);
     let f = (if lcount = 0 then put_field 5 3 act 0 else 0);
     a \<leftarrow> prefix_address p;
     emit (net32 ttl @ [lcount, prefixlen p, put_field 4 1 A f, 0] @ le_version (version_field version) 0 @ a) rpk }"

definition udp_register_add_record ::
  "pk_rpl_entry \<Rightarrow> cp_prefix \<Rightarrow> u32 \<Rightarrow> byte \<Rightarrow> u32 \<Rightarrow> byte \<Rightarrow> byte \<Rightarrow> pk_rpl_entry option" where
  "udp_register_add_record rpk p ttl lcount version A act =
     udp_reply_add_record rpk p ttl lcount version A act"

text \<open>The byte of the three flags of a locator.\<close>

definition locator_flags :: "flag \<Rightarrow> flag \<Rightarrow> flag \<Rightarrow> byte" where
  "locator_flags L p R = put_field 0 1 (ucast R) (put_field 1 1 (ucast p) (put_field 2 1 (ucast L) 0))"

definition hop_bytes :: "hop_entry \<Rightarrow> byte list option" where
  "hop_bytes h =
     (let f = put_field 7 1 (ucast (he_S h)) (put_field 6 1 (ucast (he_P h)) (put_field 5 1 (ucast (he_L h)) 0))
      in case su_family (he_addr h) of
           FAM_INET \<Rightarrow> Some (net16 LISP_AFI_IP @ [0, f] @ sin_addr (he_addr h))
         | FAM_INET6 \<Rightarrow> Some (net16 LISP_AFI_IPV6 @ [0, f] @ sin6_addr (he_addr h))
         | FAM_OTHER _ \<Rightarrow> None)"

fun hops_bytes :: "hop_entry list \<Rightarrow> byte list option" where
  "hops_bytes [] = Some []"
| "hops_bytes (h # hs) = do { b \<leftarrow> hop_bytes h; bs \<leftarrow> hops_bytes hs; Some (b @ bs) }"

text \<open>The locator as the last hop of an explicit path. \<open>udp_reply_add_locator\<close> copies the 16 bytes of an
  IPv6 address from \<open>sin_addr\<close>.\<close>

definition last_hop_register :: "sockunion \<Rightarrow> byte list option" where
  "last_hop_register s =
     (case su_family s of
        FAM_INET \<Rightarrow> Some (net16 LISP_AFI_IP @ [0, 0] @ sin_addr s)
      | FAM_INET6 \<Rightarrow> Some (net16 LISP_AFI_IPV6 @ [0, 0] @ sin6_addr s)
      | FAM_OTHER _ \<Rightarrow> None)"

definition last_hop_reply :: "sockunion \<Rightarrow> byte list option" where
  "last_hop_reply s =
     (case su_family s of
        FAM_INET \<Rightarrow> Some (net16 LISP_AFI_IP @ [0, 0] @ sin_addr s)
      | FAM_INET6 \<Rightarrow> Some (net16 LISP_AFI_IPV6 @ [0, 0] @ take 16 (su_rest s))
      | FAM_OTHER _ \<Rightarrow> None)"

definition te_locator ::
  "(sockunion \<Rightarrow> byte list option) \<Rightarrow> flag \<Rightarrow> map_entry \<Rightarrow> pe_entry \<Rightarrow> byte list option" where
  "te_locator last_hop p e pe = do {
     hs \<leftarrow> hops_bytes (pe_hop pe);
     l \<leftarrow> last_hop (me_rloc e);
     Some ([pe_priority pe, pe_weight pe, pe_m_priority pe, pe_m_weight pe, 0,
        locator_flags (me_L e) p (me_r e)] @
       net16 LCAF_AFI @ [0, 0, LCAF_TE, 0] @ net16 (of_nat (length (hs @ l))) @ hs @ l) }"

fun te_loop ::
  "(sockunion \<Rightarrow> byte list option) \<Rightarrow> flag \<Rightarrow> map_entry \<Rightarrow> pe_entry list \<Rightarrow> pk_rpl_entry \<Rightarrow> pk_rpl_entry option" where
  "te_loop last_hop p e [] rpk = Some rpk"
| "te_loop last_hop p e (pe # pes) rpk = do {
     bs \<leftarrow> te_locator last_hop p e pe;
     rpk \<leftarrow> emit bs rpk;
     te_loop last_hop p e pes rpk }"

definition plain_locator :: "flag \<Rightarrow> map_entry \<Rightarrow> byte list option" where
  "plain_locator p e = do {
     a \<leftarrow> locator_address (me_rloc e);
     Some ([me_priority e, me_weight e, me_m_priority e, me_m_weight e, 0,
       locator_flags (me_L e) p (me_r e)] @ a) }"

definition udp_register_add_locator :: "cp_config \<Rightarrow> pk_rpl_entry \<Rightarrow> map_entry \<Rightarrow> bool \<Rightarrow> pk_rpl_entry option" where
  "udp_register_add_locator cf rpk e ex_info =
     (case me_pe e of
        Some pes \<Rightarrow>
          if has_fnc cf FNC_XTR \<and> cf_lisp_te cf \<and> ex_info then te_loop last_hop_register (me_p e) e pes rpk
          else do { bs \<leftarrow> plain_locator (me_p e) e; emit bs rpk }
      | None \<Rightarrow> do { bs \<leftarrow> plain_locator (me_p e) e; emit bs rpk })"

text \<open>The locators of a mapping, as \<open>general_register_process\<close> adds them.\<close>

fun register_add_locators :: "cp_config \<Rightarrow> pk_rpl_entry \<Rightarrow> map_entry list \<Rightarrow> pk_rpl_entry option" where
  "register_add_locators cf rpk [] = Some rpk"
| "register_add_locators cf rpk (e # es) = do {
     rpk \<leftarrow> udp_register_add_locator cf rpk e False;
     register_add_locators cf rpk es }"

text \<open>The \<open>p\<close> bit of a reply: the request was a probe of this locator.\<close>

definition probed :: "pk_rpl_entry \<Rightarrow> map_entry \<Rightarrow> flag option" where
  "probed rpk e =
     (if get_field 3 1 (rp_buf rpk ! 0) \<noteq> 0
      then do { pke \<leftarrow> rp_req rpk; Some (if sockunioncmp (me_rloc e) (pk_di pke) = 0 then 1 else 0) }
      else Some 0)"

definition udp_reply_add_locator :: "cp_config \<Rightarrow> pk_rpl_entry \<Rightarrow> map_entry \<Rightarrow> pk_rpl_entry option" where
  "udp_reply_add_locator cf rpk e =
     (case me_pe e of
        Some pes \<Rightarrow>
          if has_fnc cf (FNC_XTR OR FNC_MS) \<and> cf_lisp_te cf
          then if pes = [] then Some rpk else do { p \<leftarrow> probed rpk e; te_loop last_hop_reply p e pes rpk }
          else do { p \<leftarrow> probed rpk e; bs \<leftarrow> plain_locator p e; emit bs rpk }
      | None \<Rightarrow> do { p \<leftarrow> probed rpk e; bs \<leftarrow> plain_locator p e; emit bs rpk })"

section \<open>Map-Referral\<close>

definition udp_referral_add :: "pk_req_entry \<Rightarrow> pk_rpl_entry option" where
  "udp_referral_add pke =
     (let (nonce0, nonce1) = udp_request_get_nonce pke
      in emit ([put_field 4 4 LISP_TYPE_MAP_REFERRAL 0, 0, 0, 0] @ net32 nonce0 @ net32 nonce1)
           (udp_new_reply_entry (Some pke)))"

text \<open>The instance identifier is stored in the order of the host.\<close>

definition udp_referral_add_record ::
  "pk_rpl_entry \<Rightarrow> u32 \<Rightarrow> cp_prefix \<Rightarrow> u32 \<Rightarrow> byte \<Rightarrow> u32 \<Rightarrow> byte \<Rightarrow> byte \<Rightarrow> byte \<Rightarrow> byte \<Rightarrow> pk_rpl_entry option" where
  "udp_referral_add_record rpk iid p ttl lcount version A act i sigcnt = do {
     let rpk = poke 3 (\<lambda>c. c + 1) rpk;
     let f = put_field 3 1 i (put_field 4 1 A (put_field 5 3 act 0));
     a \<leftarrow> prefix_address p;
     let len = (if family p = FAM_INET then 4 + 2 + 4 else 4 + 2 + 16);
     emit (net32 ttl @ [lcount, prefixlen p, f, 0] @ le_version (version_field version) sigcnt @
       net16 LCAF_AFI @ [0, 0, 2, 0] @ net16 len @ rev (net32 iid) @ a) rpk }"

definition udp_referral_add_locator :: "pk_rpl_entry \<Rightarrow> map_entry \<Rightarrow> pk_rpl_entry option" where
  "udp_referral_add_locator rpk e = do {
     a \<leftarrow> locator_address (me_rloc e);
     emit ([me_priority e, me_weight e, me_m_priority e, me_m_weight e, 0, put_field 0 1 (ucast (me_r e)) 0] @ a) rpk }"

section \<open>Map-Request\<close>

definition sockunion_to_afi_address :: "sockunion \<Rightarrow> byte list option" where
  "sockunion_to_afi_address su =
     (case su_family su of
        FAM_INET \<Rightarrow> Some (sin_addr su @ replicate 12 0)
      | FAM_INET6 \<Rightarrow> Some (sin6_addr su)
      | FAM_OTHER _ \<Rightarrow> None)"

fun itr_bytes :: "afi_address list \<Rightarrow> byte list" where
  "itr_bytes [] = []"
| "itr_bytes (a # as) =
     (if aa_family a = FAM_INET then net16 LISP_AFI_IP @ take 4 (aa_addr a)
      else net16 LISP_AFI_IPV6 @ aa_addr a) @ itr_bytes as"

definition request_flags0 :: "byte \<Rightarrow> byte \<Rightarrow> byte \<Rightarrow> byte \<Rightarrow> byte" where
  "request_flags0 A M P S =
     put_field 0 1 S (put_field 1 1 P (put_field 2 1 M (put_field 3 1 A (put_field 4 4 LISP_TYPE_MAP_REQUEST 0))))"

definition request_message ::
  "byte \<Rightarrow> byte \<Rightarrow> byte \<Rightarrow> byte \<Rightarrow> byte \<Rightarrow> byte \<Rightarrow> u32 \<Rightarrow> u32 \<Rightarrow> afi_address list \<Rightarrow> cp_prefix \<Rightarrow> byte list option" where
  "request_message A M P S p s nonce0 nonce1 itr eid = do {
     a \<leftarrow> prefix_address eid;
     Some ([request_flags0 A M P S, put_field 6 1 s (put_field 7 1 p 0),
         put_field 0 5 (of_nat (length itr) - 1) 0, 1] @ net32 nonce0 @ net32 nonce1 @ [0, 0] @
       itr_bytes itr @ [0, prefixlen eid] @ a) }"

definition udp_header :: "u16 \<Rightarrow> nat \<Rightarrow> byte list" where
  "udp_header source_port len = net16 source_port @ net16 LISP_CP_PORT @ net16 (of_nat len) @ [0, 0]"

text \<open>The IPv4 header. Its checksum is read from the bytes of the header in the order of the host and
  goes through \<open>htons\<close> before it is stored.\<close>

definition ip_header :: "nat \<Rightarrow> byte list \<Rightarrow> byte list \<Rightarrow> byte list" where
  "ip_header ip_len src dst =
     (let h = (\<lambda>sum. [0x45, 0] @ net16 (of_nat ip_len) @ [0, 0, 0, 0, 255, 17] @ sum @ src @ dst)
      in h (word_bytes (htons (ip_checksum (le_words (h [0, 0]))))))"

definition ip6_header :: "nat \<Rightarrow> byte list \<Rightarrow> byte list \<Rightarrow> byte list" where
  "ip6_header len src dst = [0x6E, 0, 0, 0] @ net16 (of_nat len) @ [17, 64] @ src @ dst"

definition udp_request_add ::
  "pk_req_entry \<Rightarrow> byte \<Rightarrow> byte \<Rightarrow> byte \<Rightarrow> byte \<Rightarrow> byte \<Rightarrow> byte \<Rightarrow> byte \<Rightarrow> byte \<Rightarrow> u32 \<Rightarrow> u32 \<Rightarrow>
   sockunion \<Rightarrow> sockunion \<Rightarrow> u16 \<Rightarrow> cp_prefix \<Rightarrow> pk_rpl_entry option option" where
  "udp_request_add pke security ddt A M P S p s nonce0 nonce1 src dst source_port eid = do {
     afi_addr_src \<leftarrow> sockunion_to_afi_address src;
     afi_addr_dst \<leftarrow> sockunion_to_afi_address dst;
     case (family eid, pk_itr pke) of
       (FAM_OTHER _, _) \<Rightarrow> Some None
     | (_, None) \<Rightarrow> Some None
     | (_, Some itr) \<Rightarrow> do {
         let lh = [put_field 2 1 ddt (put_field 3 1 security
                     (put_field 4 4 LISP_TYPE_ENCAPSULATED_CONTROL_MESSAGE 0)), 0, 0, 0];
         m \<leftarrow> request_message A M P S p s nonce0 nonce1 itr eid;
         let udp = udp_header source_port (8 + length m) @ m;
         let ih = (if family eid = FAM_INET
                   then ip_header (20 + length udp) (take 4 afi_addr_src) (take 4 afi_addr_dst)
                   else ip6_header (length udp) afi_addr_src afi_addr_dst);
         rpk \<leftarrow> emit (lh @ ih @ udp) (udp_new_reply_entry (Some pke));
         Some (Some rpk) } }"

section \<open>Sending\<close>

text \<open>A function that sends answers with its return value and the datagram it gave to \<open>sendtov\<close>, whose
  success is the argument \<open>sent\<close>. The two sockets are open.\<close>

type_synonym datagram = "sockunion \<times> byte list"

definition send_to :: "bool \<Rightarrow> sockunion \<Rightarrow> byte list \<Rightarrow> int \<times> datagram option" where
  "send_to sent local b =
     (case su_family local of
        FAM_OTHER _ \<Rightarrow> (0, None)
      | _ \<Rightarrow> (if sent then 1 else 0, Some (local, b)))"

definition udp_reply_terminate :: "bool \<Rightarrow> pk_rpl_entry \<Rightarrow> (int \<times> datagram option) option" where
  "udp_reply_terminate sent rpk = do {
     pke \<leftarrow> rp_req rpk;
     if pk_type pke \<noteq> LISP_TYPE_MAP_REQUEST then Some (send_to sent (pk_si pke) (rp_buf rpk))
     else
       let (r, itr) = udp_request_get_itr pke None zero_sockunion;
           local = itr\<lparr>su_port := su_port (if pk_ecm pke then pk_ih_si pke else pk_si pke)\<rparr>
       in Some (if r \<le> 0 then (-1, None) else send_to sent local (rp_buf rpk)) }"

definition udp_referral_terminate :: "bool \<Rightarrow> pk_rpl_entry \<Rightarrow> (int \<times> datagram option) option" where
  "udp_referral_terminate sent rpk = do {
     pke \<leftarrow> rp_req rpk;
     Some (send_to sent (sk_set_port (pk_si pke) LISP_CP_PORT) (rp_buf rpk)) }"

definition udp_request_ddt_terminate :: "bool \<Rightarrow> pk_rpl_entry \<Rightarrow> sockunion \<Rightarrow> int \<times> datagram option" where
  "udp_request_ddt_terminate sent rpk server = send_to sent (sk_set_port server LISP_CP_PORT) (rp_buf rpk)"

end
