(* ===== verification/Cp_Register.thy ===== *)
theory Cp_Register
  imports Cp_Message Cp_Db Cp_Hmac
begin

text \<open>
  The map server of \<open>udp.c\<close>: a Map-Register message is validated (its EIDs must belong to one site,
  its authentication data must be the HMAC of the message under the key of the site), replaces the
  mappings of the site and is answered with a Map-Notify. The \<open>info\<close> of a node is its list of
  locators; \<open>rsvd\<close> of its flags names the site. \<open>None\<close> is a failed assertion or an access outside a
  buffer, a read of digest bytes that were never written included. A key shorter than 128 bytes is
  not changed by the hash functions; longer ones are not considered. Logging is left out.
\<close>

section \<open>State\<close>

type_synonym db_nodes = "map_entry list db_table"

record ms_state =
  ms_db :: "map_entry list lisp_db"
  ms_sites :: "ref \<Rightarrow> site_info option"

definition set_table :: "af \<Rightarrow> db_nodes \<Rightarrow> map_entry list lisp_db \<Rightarrow> map_entry list lisp_db" where
  "set_table f T db =
     (case f of
        FAM_INET \<Rightarrow> db\<lparr>lisp_db4 := T\<rparr> | FAM_INET6 \<Rightarrow> db\<lparr>lisp_db6 := T\<rparr> | FAM_OTHER _ \<Rightarrow> db)"

section \<open>The hash of a message\<close>

definition key_bytes :: "string \<Rightarrow> byte list" where
  "key_bytes k = map of_char (takeWhile (\<lambda>c. c \<noteq> CHR 0x00) k)"

definition hmac_of :: "byte list \<Rightarrow> byte list \<Rightarrow> byte list option" where
  "hmac_of key packet = map_option fst (hmac_sha1_run blank_hmac [key] [packet])"

text \<open>\<open>_ms_recal_hashing\<close>: the authentication data, whose length is cut to a byte, and on demand the
  nonce are cleared before the message is hashed.\<close>

definition cleared :: "byte list \<Rightarrow> bool \<Rightarrow> byte list option" where
  "cleared packet no_nonce = do {
     al \<leftarrow> rd16be packet 14;
     p \<leftarrow> wr 16 (replicate (unat (ucast al :: byte)) 0) packet;
     if no_nonce then wr 4 (replicate 8 0) p else Some p }"

definition ms_recal_hashing :: "byte list \<Rightarrow> string option \<Rightarrow> bool \<Rightarrow> byte list option" where
  "ms_recal_hashing packet key no_nonce = do {
     al \<leftarrow> rd16be packet 14;
     let auth_len = unat (ucast al :: byte);
     p \<leftarrow> cleared packet no_nonce;
     k \<leftarrow> key;
     buf \<leftarrow> hmac_of (key_bytes k) p;
     if auth_len \<le> length buf then Some (take auth_len buf @ replicate (unat al - auth_len) 0) else None }"

fun strncmp :: "nat \<Rightarrow> byte list \<Rightarrow> byte list \<Rightarrow> int option" where
  "strncmp 0 _ _ = Some 0"
| "strncmp (Suc n) (x # xs) (y # ys) =
     (if x \<noteq> y then Some (if x < y then -1 else 1) else if x = 0 then Some 0 else strncmp n xs ys)"
| "strncmp (Suc n) _ _ = None"

section \<open>The size of a record\<close>

text \<open>The hops of an explicit locator path, from \<open>hop\<close> to \<open>barr\<close>: where the walk ends, or that it met an
  unknown address family.\<close>

function te_walk :: "byte list \<Rightarrow> nat \<Rightarrow> nat \<Rightarrow> (bool \<times> nat) option" where
  "te_walk b hop barr =
     (if hop < barr then do {
        t \<leftarrow> rd16be b hop;
        if t = LISP_AFI_IP then te_walk b (hop + 8) barr
        else if t = LISP_AFI_IPV6 then te_walk b (hop + 20) barr
        else Some (False, hop) }
      else Some (True, hop))"
  by auto

termination by (relation "measure (\<lambda>(_, hop, barr). barr - hop)") auto

declare te_walk.simps [simp del]

definition locator_len :: "byte list \<Rightarrow> nat \<Rightarrow> nat option option" where
  "locator_len b i = do {
     t \<leftarrow> rd16be b (i + 6);
     if t = LISP_AFI_IP then Some (Some 12)
     else if t = LISP_AFI_IPV6 then Some (Some 24)
     else if t = LCAF_AFI then do {
       ty \<leftarrow> rd8 b (i + 10);
       if ty \<noteq> LCAF_TE then Some None
       else do {
         pl \<leftarrow> rd16be b (i + 12);
         (ok, hop) \<leftarrow> te_walk b (i + 14) (i + 14 + unat pl);
         Some (if ok then Some (hop - i) else None) } }
     else Some None }"

fun locators_len :: "byte list \<Rightarrow> nat \<Rightarrow> nat \<Rightarrow> nat option option" where
  "locators_len b 0 i = Some (Some 0)"
| "locators_len b (Suc lcount) i = do {
     l \<leftarrow> locator_len b i;
     case l of
       None \<Rightarrow> Some None
     | Some l \<Rightarrow> do {
         r \<leftarrow> locators_len b lcount (i + l);
         Some (map_option (\<lambda>r. l + r) r) } }"

text \<open>The EID prefix of a record.\<close>

definition record_eid :: "byte list \<Rightarrow> nat \<Rightarrow> map_reply_record \<Rightarrow> cp_prefix option option" where
  "record_eid b i r =
     (if rr_afi r = LISP_AFI_IP then do {
        a \<leftarrow> rdn b (i + 12) 4;
        Some (Some \<lparr>family = FAM_INET, prefixlen = rr_mask_len r, addr = a @ replicate 12 0\<rparr>) }
      else if rr_afi r = LISP_AFI_IPV6 then do {
        a \<leftarrow> rdn b (i + 12) 16;
        Some (Some \<lparr>family = FAM_INET6, prefixlen = rr_mask_len r, addr = a\<rparr>) }
      else Some None)"

section \<open>Validation\<close>

partial_function (option) climb_eid :: "(ref \<Rightarrow> 'i db_node option) \<Rightarrow> ref option \<Rightarrow> ref \<Rightarrow> ref option" where
  "climb_eid h tp node =
     (if tp = Some node then Some node
      else do {
        n \<leftarrow> h node;
        if ms_node_is_type n ROLE_EID then Some node
        else do { q \<leftarrow> parent n; climb_eid h tp q } })"

text \<open>The site an EID belongs to, the size of its record, and the database, in which the lookup has
  locked the node it found.\<close>

definition ms_validate_eid ::
  "map_entry list lisp_db \<Rightarrow> byte list \<Rightarrow> nat \<Rightarrow> (ref option \<times> nat \<times> map_entry list lisp_db) option" where
  "ms_validate_eid db b i = do {
     r \<leftarrow> read_reply_record b i;
     e \<leftarrow> record_eid b i r;
     case e of
       None \<Rightarrow> Some (None, 0, db)
     | Some eid \<Rightarrow> do {
         rhdr_len \<leftarrow> get_reply_record_size b i;
         ll \<leftarrow> locators_len b (unat (rr_locator_count r)) (i + rhdr_len);
         case ll of
           None \<Rightarrow> Some (None, rhdr_len, db)
         | Some ll \<Rightarrow> do {
             T \<leftarrow> ms_get_db_table db eid;
             (m, T) \<leftarrow> db_node_match_prefix eid T;
             let db = set_table (family eid) T db;
             case m of
               None \<Rightarrow> Some (None, rhdr_len + ll, db)
             | Some node \<Rightarrow> do {
                 node \<leftarrow> climb_eid (heap T) (top T) node;
                 if Some node = top T then Some (None, rhdr_len + ll, db)
                 else do {
                   n \<leftarrow> heap T node;
                   f \<leftarrow> flags n;
                   Some (mf_rsvd f, rhdr_len + ll, db) } } } } }"

fun validate_records ::
  "map_entry list lisp_db \<Rightarrow> byte list \<Rightarrow> nat \<Rightarrow> nat \<Rightarrow> ref option \<Rightarrow>
   (ref option \<times> map_entry list lisp_db) option" where
  "validate_records db b 0 i site = Some (site, db)"
| "validate_records db b (Suc rcount) i site = do {
     (pt, rlen, db) \<leftarrow> ms_validate_eid db b i;
     if pt = None \<or> site \<noteq> None \<and> site \<noteq> pt then Some (None, db)
     else validate_records db b rcount (i + rlen) pt }"

text \<open>\<open>1\<close>: the registration is authentic and new; \<open>0\<close>: it is the one that is stored; \<open>-1\<close>: it is
  refused.\<close>

definition ms_validate_register :: "ms_state \<Rightarrow> byte list \<Rightarrow> (int \<times> ref option \<times> ms_state) option" where
  "ms_validate_register st packet = do {
     rcount \<leftarrow> rd8 packet 3;
     al \<leftarrow> rd16be packet 14;
     let auth_len = unat al;
     if rcount = 0 then Some (-1, None, st)
     else do {
       (site, db) \<leftarrow> validate_records (ms_db st) packet (unat rcount) (16 + auth_len) None;
       let st = st\<lparr>ms_db := db\<rparr>;
       case site of
         None \<Rightarrow> Some (-1, None, st)
       | Some site \<Rightarrow> do {
           s_info \<leftarrow> ms_sites st site;
           s_hashing \<leftarrow> ms_recal_hashing packet (si_key s_info) True;
           same \<leftarrow> (case si_hashing s_info of
                      None \<Rightarrow> Some False
                    | Some h \<Rightarrow> map_option (\<lambda>c. c = 0) (strncmp auth_len h s_hashing));
           if same then Some (0, Some site, st)
           else do {
             s_hmac \<leftarrow> ms_recal_hashing packet (si_key s_info) False;
             c \<leftarrow> strncmp auth_len (drop 16 packet) s_hmac;
             if c \<noteq> 0 then Some (-1, Some site, st)
             else Some (1, Some site,
               st\<lparr>ms_sites := (ms_sites st)(site \<mapsto> s_info\<lparr>si_hashing := Some s_hashing\<rparr>)\<rparr>) } } } }"

section \<open>Reads behind a prefix of the message\<close>

lemma read_reply_record_at: "read_reply_record (xs @ ys) (length xs + k) = read_reply_record ys k"
  by (simp add: read_reply_record_def at_simps add.assoc)

lemma read_reply_locator_at: "read_reply_locator (xs @ ys) (length xs + k) = read_reply_locator ys k"
  using rd8_at [of xs ys "k + 1"] rd8_at [of xs ys "k + 2"]
  by (simp add: read_reply_locator_def at_simps add.assoc)

lemma record_eid_at: "record_eid (xs @ ys) (length xs + k) r = record_eid ys k r"
  by (simp add: record_eid_def at_simps add.assoc)

lemma get_reply_record_size_at: "get_reply_record_size (xs @ ys) (length xs + k) = get_reply_record_size ys k"
  by (simp add: get_reply_record_size_def at_simps add.assoc)

end
