(* ===== verification/Cp_Mapping.thy ===== *)
theory Cp_Mapping
  imports Cp_Register
begin

text \<open>
  How an accepted registration reaches the database: the mappings of the site are removed, every
  record of the message makes a mapping with its locators (\<open>udp.c\<close>, with the mapping functions of
  \<open>server.c\<close>), and a Map-Notify answers. A list of locators is owned by its node, and a path entry by
  its locator, so both are kept as values; memory that is lost is not tracked.
\<close>

section \<open>Mappings\<close>

definition db_table_of :: "af \<Rightarrow> map_entry list lisp_db \<Rightarrow> db_nodes option" where
  "db_table_of f db =
     (case f of FAM_INET \<Rightarrow> Some (lisp_db4 db) | FAM_INET6 \<Rightarrow> Some (lisp_db6 db) | FAM_OTHER _ \<Rightarrow> None)"

definition generic_mapping_new ::
  "cp_prefix \<Rightarrow> map_entry list lisp_db \<Rightarrow> (ref \<times> map_entry list lisp_db) option" where
  "generic_mapping_new eid db = do {
     T \<leftarrow> ms_get_db_table db eid;
     (rn, T) \<leftarrow> db_node_get eid T;
     (_, T) \<leftarrow> db_node_set_info (Some rn) (Some []) T;
     Some (rn, set_table (family eid) T db) }"

definition generic_mapping_set_flags :: "ref \<Rightarrow> mapping_flags \<Rightarrow> 'i db_table \<Rightarrow> 'i db_table option" where
  "generic_mapping_set_flags rn mflags T = do {
     n \<leftarrow> heap T rn;
     let (fns, rsvd) = (case flags n of None \<Rightarrow> (0, None) | Some f \<Rightarrow> (mf_range f, mf_rsvd f));
     Some (put rn (n\<lparr>flags := Some (mflags\<lparr>mf_range := mf_range mflags OR fns,
       mf_rsvd := (if mf_rsvd mflags = None then rsvd else mf_rsvd mflags)\<rparr>)\<rparr>) T) }"

text \<open>\<open>list_insert\<close> with the order of locators.\<close>

fun insert_ordered :: "(map_entry \<Rightarrow> map_entry \<Rightarrow> int) \<Rightarrow> map_entry \<Rightarrow> map_entry list \<Rightarrow> map_entry list" where
  "insert_ordered cmp x [] = [x]"
| "insert_ordered cmp x (y # ys) = (if cmp x y \<le> 0 then x # y # ys else y # insert_ordered cmp x ys)"

definition generic_mapping_add_rloc :: "ref \<Rightarrow> map_entry \<Rightarrow> db_nodes \<Rightarrow> db_nodes option" where
  "generic_mapping_add_rloc rn entry T = do {
     n \<leftarrow> heap T rn;
     locs \<leftarrow> info n;
     Some (put rn (n\<lparr>info := Some (insert_ordered insert_ip_ordered entry locs)\<rparr>) T) }"

definition ms_generic_mapping_new :: "cp_prefix \<Rightarrow> db_nodes \<Rightarrow> (ref \<times> db_nodes) option" where
  "ms_generic_mapping_new eid T = do {
     (rn, T) \<leftarrow> db_node_get eid T;
     T \<leftarrow> ms_node_update_type rn ROLE_MAPP T;
     (_, T) \<leftarrow> db_node_set_info (Some rn) (Some []) T;
     Some (rn, T) }"

section \<open>Removing the mappings of a site\<close>

definition unlink_from :: "ref \<Rightarrow> ref \<Rightarrow> 'i db_table \<Rightarrow> 'i db_table option" where
  "unlink_from q node T = do {
     m \<leftarrow> heap T q;
     Some (put q (if l_left m = Some node then m\<lparr>l_left := None\<rparr> else m\<lparr>l_right := None\<rparr>) T) }"

partial_function (option) clean_loop :: "ref \<Rightarrow> 'i db_table \<Rightarrow> 'i db_table option" where
  "clean_loop node T = do {
     n \<leftarrow> heap T node;
     case l_left n of
       Some l \<Rightarrow> clean_loop l T
     | None \<Rightarrow>
         (case l_right n of
            Some r \<Rightarrow> clean_loop r T
          | None \<Rightarrow>
              (case parent n of
                 None \<Rightarrow> Some (T\<lparr>heap := (heap T)(node := None)\<rparr>)
               | Some q \<Rightarrow> do {
                   T \<leftarrow> unlink_from q node T;
                   clean_loop q (T\<lparr>heap := (heap T)(node := None)\<rparr>) })) }"

definition ms_clean_eid_mapping :: "ref \<Rightarrow> 'i db_table \<Rightarrow> 'i db_table option" where
  "ms_clean_eid_mapping node T = do {
     n \<leftarrow> heap T node;
     T \<leftarrow> (case parent n of None \<Rightarrow> Some T | Some papa \<Rightarrow> unlink_from papa node T);
     n \<leftarrow> heap T node;
     clean_loop node (put node (n\<lparr>parent := None\<rparr>) T) }"

text \<open>The flags of an EID of the site: everything but the other roles and the site is cleared.\<close>

definition cleaned_flags :: "mapping_flags \<Rightarrow> mapping_flags" where
  "cleaned_flags f =
     \<lparr>mf_iid = 0, mf_act = 0, mf_A = 0, mf_version = 0, mf_proxy = 0, mf_ttl = 0, mf_referral = 0,
      mf_incomplete = 0, mf_range = (if mf_range f > ROLE_MAPP then mf_range f AND NOT ROLE_MAPP else mf_range f),
      mf_active = 0, mf_rsvd = mf_rsvd f\<rparr>"

definition clean_node :: "ref \<Rightarrow> 'i db_table \<Rightarrow> 'i db_table option" where
  "clean_node node T = do {
     n \<leftarrow> heap T node;
     T \<leftarrow> (case l_left n of
             None \<Rightarrow> Some T
           | Some l \<Rightarrow> do {
               T \<leftarrow> ms_clean_eid_mapping l T;
               n \<leftarrow> heap T node;
               Some (put node (n\<lparr>l_left := None\<rparr>) T) });
     n \<leftarrow> heap T node;
     T \<leftarrow> (case l_right n of
             None \<Rightarrow> Some T
           | Some r \<Rightarrow> do {
               T \<leftarrow> ms_clean_eid_mapping r T;
               n \<leftarrow> heap T node;
               Some (put node (n\<lparr>l_right := None\<rparr>) T) });
     (_, T) \<leftarrow> db_node_set_info (Some node) None T;
     n \<leftarrow> heap T node;
     Some (put node (n\<lparr>flags := map_option cleaned_flags (flags n)\<rparr>) T) }"

definition list_items :: "'d clist \<Rightarrow> 'd option list option" where
  "list_items l = map_option snd (list_foreach (\<lambda>d xs. (0, xs @ [d])) l [])"

fun clean_nodes :: "(af \<times> ref) option list \<Rightarrow> map_entry list lisp_db \<Rightarrow> map_entry list lisp_db option" where
  "clean_nodes [] db = Some db"
| "clean_nodes (d # ds) db = do {
     (f, a) \<leftarrow> d;
     T \<leftarrow> db_table_of f db;
     T \<leftarrow> clean_node a T;
     clean_nodes ds (set_table f T db) }"

definition ms_clean_site_mapping :: "site_info \<Rightarrow> map_entry list lisp_db \<Rightarrow> map_entry list lisp_db option" where
  "ms_clean_site_mapping site db = do { eids \<leftarrow> list_items (si_eid site); clean_nodes eids db }"

section \<open>The locators of a record\<close>

text \<open>Both tests of the hop loop compare the size of a hop with a pointer inside the argument of the
  macro \<open>CO\<close>; the pointers they yield are not null, so every hop is listed (when paths are kept) and
  every hop becomes the locator, the last one last.\<close>

definition read_hop :: "byte list \<Rightarrow> nat \<Rightarrow> sockunion \<Rightarrow> hop_entry option" where
  "read_hop b hop s = do {
     f \<leftarrow> rd8 b (hop + 3);
     Some \<lparr>he_L = ucast (get_field 5 1 f), he_P = ucast (get_field 6 1 f), he_S = ucast (get_field 7 1 f),
       he_addr = s\<rparr> }"

function register_hops ::
  "bool \<Rightarrow> byte list \<Rightarrow> nat \<Rightarrow> nat \<Rightarrow> hop_entry list \<Rightarrow> sockunion \<Rightarrow> (bool \<times> hop_entry list \<times> sockunion) option" where
  "register_hops keep b hop barr hops rloc =
     (if hop < barr then do {
        t \<leftarrow> rd16be b hop;
        if t = LISP_AFI_IP then do {
          a \<leftarrow> rdn b (hop + 4) 4;
          he \<leftarrow> read_hop b hop (set_sin_addr a (zero_sockunion\<lparr>su_family := FAM_INET\<rparr>));
          register_hops keep b (hop + 8) barr (if keep then hops @ [he] else hops)
            (set_sin_addr a (rloc\<lparr>su_family := FAM_INET\<rparr>)) }
        else if t = LISP_AFI_IPV6 then do {
          a \<leftarrow> rdn b (hop + 4) 16;
          he \<leftarrow> read_hop b hop (set_sin6_addr a (zero_sockunion\<lparr>su_family := FAM_INET6\<rparr>));
          register_hops keep b (hop + 20) barr (if keep then hops @ [he] else hops)
            (set_sin6_addr a (rloc\<lparr>su_family := FAM_INET6\<rparr>)) }
        else Some (False, hops, rloc) }
      else Some (True, hops, rloc))"
  by auto

termination by (relation "measure (\<lambda>(_, _, hop, barr, _). barr - hop)") auto

declare register_hops.simps [simp del]

definition entry_of :: "map_reply_locator \<Rightarrow> sockunion \<Rightarrow> pe_entry list option \<Rightarrow> map_entry" where
  "entry_of l rloc pe =
     \<lparr>me_rloc = rloc, me_priority = rl_priority l, me_weight = rl_weight l, me_m_priority = rl_m_priority l,
      me_m_weight = rl_m_weight l, me_L = rl_L l, me_p = rl_p l, me_r = rl_R l, me_pe = pe\<rparr>"

definition pe_of :: "map_reply_locator \<Rightarrow> hop_entry list \<Rightarrow> pe_entry" where
  "pe_of l hops =
     \<lparr>pe_priority = rl_priority l, pe_weight = rl_weight l, pe_m_priority = rl_m_priority l,
      pe_m_weight = rl_m_weight l, pe_L = rl_L l, pe_p = rl_p l, pe_r = rl_R l, pe_hop = hops\<rparr>"

text \<open>One locator: the entry and the offset behind it, or that its family is unknown.\<close>

definition read_locator :: "bool \<Rightarrow> byte list \<Rightarrow> nat \<Rightarrow> (map_entry \<times> nat) option option" where
  "read_locator keep b i = do {
     l \<leftarrow> read_reply_locator b i;
     te \<leftarrow> (if rl_afi l = LCAF_AFI then map_option (\<lambda>ty. ty = LCAF_TE) (rd8 b (i + 10)) else Some False);
     if te then do {
       pl \<leftarrow> rd16be b (i + 12);
       let barr = i + 14 + unat pl;
       (ok, hops, rloc) \<leftarrow> register_hops keep b (i + 14) barr [] zero_sockunion;
       Some (if ok then Some (entry_of l rloc (Some [pe_of l hops]), barr) else None) }
     else if rl_afi l = LISP_AFI_IP then do {
       a \<leftarrow> rdn b (i + 8) 4;
       Some (Some (entry_of l (set_sin_addr a (zero_sockunion\<lparr>su_family := FAM_INET\<rparr>)) None, i + 12)) }
     else if rl_afi l = LISP_AFI_IPV6 then do {
       a \<leftarrow> rdn b (i + 8) 16;
       Some (Some (entry_of l (set_sin6_addr a (zero_sockunion\<lparr>su_family := FAM_INET6\<rparr>)) None, i + 24)) }
     else Some None }"

text \<open>A locator that the mapping has already only changes its priority or adds its paths.\<close>

definition merge_entry :: "map_entry \<Rightarrow> map_entry \<Rightarrow> map_entry" where
  "merge_entry n_entry entry =
     (case (me_pe n_entry, me_pe entry) of
        (None, None) \<Rightarrow> if me_priority n_entry > me_priority entry then entry else n_entry
      | (None, Some pe) \<Rightarrow> n_entry\<lparr>me_pe := Some pe\<rparr>
      | (Some pe, Some pe') \<Rightarrow> n_entry\<lparr>me_pe := Some (pe @ pe')\<rparr>
      | (Some pe, None) \<Rightarrow> n_entry)"

fun add_locator :: "map_entry \<Rightarrow> map_entry list \<Rightarrow> map_entry list" where
  "add_locator entry [] = [entry]"
| "add_locator entry (n # locs) =
     (if entrycmp (Some entry) (Some n) = 0 then merge_entry n entry # locs
      else n # add_locator entry locs)"

fun record_locators ::
  "bool \<Rightarrow> byte list \<Rightarrow> nat \<Rightarrow> nat \<Rightarrow> map_entry list \<Rightarrow> (nat option \<times> map_entry list) option" where
  "record_locators keep b 0 loc locs = Some (Some loc, locs)"
| "record_locators keep b (Suc lcount) loc locs = do {
     r \<leftarrow> read_locator keep b loc;
     case r of
       None \<Rightarrow> Some (None, locs)
     | Some (entry, loc) \<Rightarrow>
         if su_family (me_rloc entry) = FAM_OTHER 0 then Some (None, locs)
         else record_locators keep b lcount loc (add_locator entry locs) }"

section \<open>Records\<close>

definition record_flags :: "map_reply_record \<Rightarrow> flag \<Rightarrow> mapping_flags" where
  "record_flags r proxy =
     \<lparr>mf_iid = 0, mf_act = ucast (rr_act r), mf_A = rr_a r, mf_version = rr_version r, mf_proxy = proxy,
      mf_ttl = rr_ttl r, mf_referral = 0, mf_incomplete = 0, mf_range = ROLE_MAPP, mf_active = 0, mf_rsvd = None\<rparr>"

text \<open>The result is the size of the record; 0 when a family in it is unknown, the locators before it
  staying in the mapping.\<close>

definition ms_process_register_record ::
  "cp_config \<Rightarrow> byte list \<Rightarrow> nat \<Rightarrow> flag \<Rightarrow> map_entry list lisp_db \<Rightarrow> (nat \<times> map_entry list lisp_db) option" where
  "ms_process_register_record cf b i proxy db = do {
     r \<leftarrow> read_reply_record b i;
     e \<leftarrow> record_eid b i r;
     case e of
       None \<Rightarrow> Some (0, db)
     | Some eid \<Rightarrow> do {
         (mapping, db) \<leftarrow> generic_mapping_new eid db;
         T \<leftarrow> ms_get_db_table db eid;
         T \<leftarrow> generic_mapping_set_flags mapping (record_flags r proxy) T;
         rhdr_len \<leftarrow> get_reply_record_size b i;
         n \<leftarrow> heap T mapping;
         locs \<leftarrow> info n;
         (loc, locs) \<leftarrow> record_locators (cf_lisp_te cf \<and> proxy \<noteq> 0) b (unat (rr_locator_count r)) (i + rhdr_len) locs;
         let T = put mapping (n\<lparr>info := Some locs\<rparr>) T;
         Some (case loc of None \<Rightarrow> 0 | Some loc \<Rightarrow> loc - i, set_table (family eid) T db) } }"

fun register_records ::
  "cp_config \<Rightarrow> byte list \<Rightarrow> nat \<Rightarrow> nat \<Rightarrow> flag \<Rightarrow> map_entry list lisp_db \<Rightarrow> map_entry list lisp_db option" where
  "register_records cf b 0 i proxy db = Some db"
| "register_records cf b (Suc rcount) i proxy db = do {
     (rlen, db) \<leftarrow> ms_process_register_record cf b i proxy db;
     register_records cf b rcount (i + rlen) proxy db }"

section \<open>Map-Notify\<close>

text \<open>The message with another type, without its two flags, with an HMAC of 20 bytes.\<close>

definition register_notify :: "bool \<Rightarrow> pk_req_entry \<Rightarrow> site_info \<Rightarrow> (int \<times> datagram option) option" where
  "register_notify sent pke site = do {
     f0 \<leftarrow> rd8 (pk_buf pke) 0;
     f2 \<leftarrow> rd8 (pk_buf pke) 2;
     b \<leftarrow> wr 0 [put_field 3 1 0 (put_field 4 4 LISP_TYPE_MAP_NOTIFY f0)] (pk_buf pke);
     b \<leftarrow> wr 2 [put_field 0 1 0 f2] b;
     b \<leftarrow> wr 16 (replicate 20 0) b;
     k \<leftarrow> si_key site;
     mac \<leftarrow> hmac_of (key_bytes k) b;
     b \<leftarrow> wr 16 (take 20 mac) b;
     let ds = sk_set_port (pk_si pke) LISP_CP_PORT;
     Some (case su_family ds of
             FAM_OTHER _ \<Rightarrow> (-1, None)
           | _ \<Rightarrow> (if sent then 1 else -1, Some (ds, b))) }"

section \<open>Map-Register\<close>

definition udp_register :: "cp_config \<Rightarrow> bool \<Rightarrow> pk_req_entry \<Rightarrow> ms_state \<Rightarrow> (int \<times> datagram option \<times> ms_state) option" where
  "udp_register cf sent pke st = do {
     let packet = pk_buf pke;
     f0 \<leftarrow> rd8 packet 0;
     f2 \<leftarrow> rd8 packet 2;
     rcount \<leftarrow> rd8 packet 3;
     al \<leftarrow> rd16be packet 14;
     (rt, site, st) \<leftarrow> ms_validate_register st packet;
     if rt < 0 then Some (0, None, st)
     else do {
       site \<leftarrow> site;
       st \<leftarrow> (if rt = 0 then Some st
              else do {
                s_info \<leftarrow> ms_sites st site;
                db \<leftarrow> ms_clean_site_mapping s_info (ms_db st);
                db \<leftarrow> register_records cf packet (unat rcount) (16 + unat al) (ucast (get_field 3 1 f0)) db;
                Some (st\<lparr>ms_db := db\<rparr>) });
       out \<leftarrow> (case ms_sites st site of
                 Some s_info \<Rightarrow>
                   if get_field 0 1 f2 \<noteq> 0 then map_option snd (register_notify sent pke s_info) else Some None
               | None \<Rightarrow> Some None);
       Some (1, out, st) } }"

end
