(* ===== verification/Cp_Auth.thy ===== *)
theory Cp_Auth
  imports Cp_Mapping
begin

text \<open>
  What the authentication of Map-Register messages gives, and what it does not: no mapping and no site
  changes unless the authentication data agrees with the HMAC of the message under the key of the
  site, up to the first zero byte; a message with the right HMAC is accepted; a message whose
  authentication data has a length that is a multiple of 256 is accepted without a key.
\<close>

section \<open>Hashes\<close>

lemma hmac_of_spec:
  "length key < 2 ^ 31 \<Longrightarrow> length p < 2 ^ 31 \<Longrightarrow> hmac_of key p = Some (hmac_spec key p)"
  using hmac_run_ok [of blank_hmac "[key]" "[p]"] by (auto simp: hmac_of_def blank_hmac_def)

text \<open>A C string in a field: the bytes before the first zero.\<close>

definition cstr :: "byte list \<Rightarrow> byte list" where
  "cstr xs = takeWhile (\<lambda>x. x \<noteq> 0) xs"

lemma strncmp_cstr: "strncmp n a b = Some 0 \<Longrightarrow> cstr (take n a) = cstr (take n b)"
  by (induction n a b rule: strncmp.induct) (auto simp: cstr_def split: if_splits)

lemma strncmp_same: "n \<le> length a \<Longrightarrow> strncmp n a a = Some 0"
proof (induction n arbitrary: a)
  case (Suc n)
  then show ?case by (cases a) auto
qed simp

lemma strncmp_prefix:
  assumes "take n a = take n b" and "n \<le> length a" and "n \<le> length b" shows "strncmp n a b = Some 0"
  using assms
proof (induction n arbitrary: a b)
  case (Suc n)
  then show ?case by (cases a; cases b) auto
qed simp

lemma length_wr: "wr i bs b = Some b' \<Longrightarrow> length b' = length b"
  by (auto simp: wr_def split: if_splits)

lemma length_cleared: "cleared packet nn = Some p \<Longrightarrow> length p = length packet"
  by (auto simp: cleared_def Option.bind_eq_Some_conv dest!: length_wr split: if_splits)

section \<open>Lookups only lock\<close>

definition unlocked :: "'i db_table \<Rightarrow> 'i db_table" where
  "unlocked T = T\<lparr>heap := (\<lambda>a. map_option (\<lambda>n. n\<lparr>lock_ct := 0\<rparr>) (heap T a))\<rparr>"

definition unlocked_db :: "'i lisp_db \<Rightarrow> 'i lisp_db" where
  "unlocked_db db = \<lparr>lisp_db4 = unlocked (lisp_db4 db), lisp_db6 = unlocked (lisp_db6 db)\<rparr>"

lemma lock_unlocked: "db_lock_node a T = Some T' \<Longrightarrow> unlocked T' = unlocked T"
  by (auto simp: db_lock_node_def unlocked_def put_def fun_eq_iff Option.bind_eq_Some_conv)

lemma match_prefix_unlocked: "db_node_match_prefix p T = Some (m, T') \<Longrightarrow> unlocked T' = unlocked T"
  by (auto simp: db_node_match_prefix_def lock_matched_def Option.bind_eq_Some_conv dest: lock_unlocked
    split: option.splits)

lemma set_table_unlocked:
  "ms_get_db_table db p = Some T \<Longrightarrow> unlocked T' = unlocked T \<Longrightarrow>
    unlocked_db (set_table (family p) T' db) = unlocked_db db"
  by (auto simp: ms_get_db_table_def set_table_def unlocked_db_def split: af.splits)

lemma validate_eid_unlocked:
  "ms_validate_eid db b i = Some (s, l, db') \<Longrightarrow> unlocked_db db' = unlocked_db db"
  by (auto simp: ms_validate_eid_def Option.bind_eq_Some_conv Let_def split: option.splits if_splits prod.splits
    dest!: match_prefix_unlocked intro!: set_table_unlocked)

lemma validate_records_unlocked:
  "validate_records db b n i s = Some (s', db') \<Longrightarrow> unlocked_db db' = unlocked_db db"
proof (induction n arbitrary: db i s)
  case (Suc n)
  from Suc.prems obtain pt rlen db1 where "ms_validate_eid db b i = Some (pt, rlen, db1)"
    "(if pt = None \<or> s \<noteq> None \<and> s \<noteq> pt then Some (None, db1) else validate_records db1 b n (i + rlen) pt) = Some (s', db')"
    by (auto simp: Option.bind_eq_Some_conv split: prod.splits)
  with Suc.IH validate_eid_unlocked show ?case by (fastforce split: if_splits)
qed simp

lemma validate_register_cases:
  assumes "ms_validate_register st packet = Some (rt, site, st')"
  shows "unlocked_db (ms_db st') = unlocked_db (ms_db st)"
    and "rt \<in> {-1, 0, 1}" and "0 \<le> rt \<Longrightarrow> \<exists>a. site = Some a \<and> ms_sites st a \<noteq> None"
    and "rt \<noteq> 1 \<Longrightarrow> ms_sites st' = ms_sites st"
    and "rt = 1 \<Longrightarrow> \<exists>a s al mac. site = Some a \<and> ms_sites st a = Some s \<and> rd16be packet 14 = Some al \<and>
      ms_recal_hashing packet (si_key s) False = Some mac \<and> strncmp (unat al) (drop 16 packet) mac = Some 0"
  using assms validate_records_unlocked
  by (auto simp: ms_validate_register_def Option.bind_eq_Some_conv Let_def split: option.splits if_splits)

section \<open>Acceptance\<close>

lemma cstr_zeros: "cstr (take n (take k xs @ replicate (n - k) 0)) = cstr (take (min n k) xs)"
proof (cases "n \<le> k")
  case False
  then have "take n (take k xs @ replicate (n - k) 0) = take k xs @ take (n - length (take k xs)) (replicate (n - k) 0)"
    by simp
  moreover have "cstr (ys @ replicate j 0) = cstr ys" for ys j
    by (induction ys) (auto simp: cstr_def)
  ultimately show ?thesis using False by (simp add: min_def del: take_append)
qed (simp add: min_def)

lemma unat_ucast_byte: "unat (ucast (al :: u16) :: byte) = unat al mod 256"
  by (simp add: unsigned_ucast_eq take_bit_eq_mod)


definition empty_state :: ms_state where
  "empty_state = \<lparr>ms_db = \<lparr>lisp_db4 = db_table_init True, lisp_db6 = db_table_init True\<rparr>, ms_sites = Map.empty\<rparr>"


lemma ms_recal_ok:
  assumes "rd16be packet 14 = Some al" and "cleared packet nn = Some p" and "unat al mod 256 \<le> 20"
    and "length packet < 2 ^ 31" and "length k < 2 ^ 31"
  shows "ms_recal_hashing packet (Some k) nn = Some (take (unat al mod 256) (hmac_spec (key_bytes k) p) @
    replicate (unat al - unat al mod 256) 0)"
proof -
  have "length (takeWhile (\<lambda>c. c \<noteq> CHR 0x00) k) \<le> length k" by (rule length_takeWhile_le)
  with assms(5) have "length (key_bytes k) < 2 ^ 31" by (simp add: key_bytes_def)
  moreover have "length p < 2 ^ 31" using length_cleared [OF assms(2)] assms(4) by simp
  ultimately have "hmac_of (key_bytes k) p = Some (hmac_spec (key_bytes k) p)" by (rule hmac_of_spec)
  moreover have "length (hmac_spec key m) = 20" for key m by (simp add: hmac_spec_def length_sha1_spec)
  ultimately show ?thesis using assms(1-3) by (simp add: ms_recal_hashing_def Let_def unat_ucast_byte)
qed

lemma cleared_ok:
  assumes "rd16be packet 14 = Some al" and "16 + unat al mod 256 \<le> length packet"
  shows "\<exists>p. cleared packet nn = Some p"
  using assms by (auto simp: cleared_def wr_def unat_ucast_byte)

text \<open>A Map-Register whose EIDs belong to one site and whose 20 bytes of authentication data are
  the HMAC-SHA-1 of the message under the site's key is accepted: as new, or as the one already stored
  when the hash of the last one agrees.\<close>

theorem ms_validate_register_accepts:
  assumes "rd8 packet 3 = Some rc" and "rc \<noteq> 0" and "rd16be packet 14 = Some 20" and "36 \<le> length packet"
    and "length packet < 2 ^ 31" and "validate_records (ms_db st) packet (unat rc) 36 None = Some (Some site, db)"
    and "ms_sites st site = Some s" and "si_key s = Some k" and "length k < 2 ^ 31"
    and "cleared packet False = Some p" and "take 20 (drop 16 packet) = hmac_spec (key_bytes k) p"
    and "\<And>h. si_hashing s = Some h \<Longrightarrow> 20 \<le> length h"
  shows "\<exists>rt st'. ms_validate_register st packet = Some (rt, Some site, st') \<and> rt \<in> {0, 1} \<and>
    (si_hashing s = None \<longrightarrow> rt = 1)"
proof -
  obtain q where q: "cleared packet True = Some q" using cleared_ok [OF assms(3)] assms(4) by auto
  have n: "unat (20 :: u16) = 20" by simp
  have len: "length (hmac_spec key m) = 20" for key m by (simp add: hmac_spec_def)
  have r: "ms_recal_hashing packet (Some k) False = Some (hmac_spec (key_bytes k) p)"
    "ms_recal_hashing packet (Some k) True = Some (hmac_spec (key_bytes k) q)"
    using ms_recal_ok [OF assms(3,10) _ assms(5,9)] ms_recal_ok [OF assms(3) q _ assms(5,9)] len by simp_all
  have c: "strncmp 20 (drop 16 packet) (hmac_spec (key_bytes k) p) = Some 0"
    using strncmp_prefix [of 20 "drop 16 packet" "hmac_spec (key_bytes k) p"] assms(4,11) len by simp
  show ?thesis
  proof (cases "si_hashing s")
    case None
    then show ?thesis using assms(1-3,6-8) r c by (simp add: ms_validate_register_def)
  next
    case (Some h)
    have "\<exists>x. strncmp j a b = Some x" if "j \<le> length a" "j \<le> length b" for j a b
      using that by (induction j a b rule: strncmp.induct) auto
    then obtain x where "strncmp 20 h (hmac_spec (key_bytes k) q) = Some x" using assms(12) [OF Some] len by force
    then show ?thesis using Some assms(1-3,6-8) r c
      by (cases "x = 0") (simp_all add: ms_validate_register_def Let_def)
  qed
qed


section \<open>Concrete registrations\<close>

definition reg_root :: "map_entry list db_node" where
  "reg_root = \<lparr>n_p = \<lparr>family = FAM_INET, prefixlen = 0, addr = replicate 16 0\<rparr>, parent = None, l_left = Some 1,
     l_right = None, info = None, flags = Some (ms_new_node_ex ROLE_ROOT), lock_ct = 1\<rparr>"

definition reg_net :: "map_entry list db_node" where
  "reg_net = \<lparr>n_p = \<lparr>family = FAM_INET, prefixlen = 8, addr = 10 # replicate 15 0\<rparr>, parent = Some 0, l_left = None,
     l_right = None, info = None, flags = Some ((ms_new_node_ex ROLE_EID)\<lparr>mf_rsvd := Some 0\<rparr>), lock_ct = 1\<rparr>"

definition reg_site :: site_info where
  "reg_site = ms_new_site_info\<lparr>si_key := Some ''key''\<rparr>"

definition reg_state :: ms_state where
  "reg_state = \<lparr>ms_db = \<lparr>lisp_db4 = \<lparr>heap = [0 \<mapsto> reg_root, 1 \<mapsto> reg_net], next_ref = 2, top = Some 0,
       remove_fct = True, count = 2, removed = []\<rparr>, lisp_db6 = db_table_init True\<rparr>,
     ms_sites = [0 \<mapsto> reg_site]\<rparr>"

text \<open>A record for 10.1.2.0/24 without locators.\<close>

definition reg_record :: "byte list" where
  "reg_record = [0, 0, 0, 60, 0, 24, 0, 0, 0, 0, 0, 1, 10, 1, 2, 0]"

definition reg_eid :: cp_prefix where
  "reg_eid = \<lparr>family = FAM_INET, prefixlen = 24, addr = [10, 1, 2, 0] @ replicate 12 0\<rparr>"

lemma reg_match:
  "covers_next reg_root reg_eid = Some True" "check_bit (addr reg_eid) (prefixlen (n_p reg_root)) = Some False"
  "covers_next reg_net reg_eid = Some True" "check_bit (addr reg_eid) (prefixlen (n_p reg_net)) = Some False"
  by code_simp+

lemma reg_lookup:
  "\<exists>T. db_node_match_prefix reg_eid (lisp_db4 (ms_db reg_state)) = Some (Some 1, T) \<and> top T = Some 0 \<and>
     heap T 1 = Some (reg_net\<lparr>lock_ct := 2\<rparr>)"
proof -
  let ?T = "lisp_db4 (ms_db reg_state)"
  have h: "heap ?T 0 = Some reg_root" "heap ?T 1 = Some reg_net" "top ?T = Some 0" by (simp_all add: reg_state_def)
  have k: "link reg_root False = Some 1" "link reg_net False = None" by (simp_all add: link_def reg_root_def reg_net_def)
  have "match_loop (\<lambda>n. True) (heap ?T) reg_eid (Some 1) m = Some (Some 1)" for m
    by (subst match_loop.simps) (simp add: h reg_match k match_loop.simps [of _ _ _ None] del: One_nat_def)
  then have "match_loop (\<lambda>n. True) (heap ?T) reg_eid (Some 0) None = Some (Some 1)"
    by (subst match_loop.simps) (simp add: h reg_match k del: One_nat_def)
  moreover have "check_top_family reg_eid ?T = Some ()"
    by (simp add: check_top_family_def h) (simp add: reg_root_def reg_eid_def)
  ultimately show ?thesis
    by (simp add: db_node_match_prefix_def lock_matched_def db_lock_node_def h put_def del: One_nat_def)
      (simp add: reg_net_def)
qed

lemma reg_validates:
  assumes "read_reply_record b i = Some r" and "record_eid b i r = Some (Some reg_eid)"
    and "rr_locator_count r = 0" and "rr_afi r = LISP_AFI_IP"
  shows "\<exists>db. validate_records (ms_db reg_state) b (Suc 0) i None = Some (Some 0, db)"
proof -
  from reg_lookup obtain T where T: "db_node_match_prefix reg_eid (lisp_db4 (ms_db reg_state)) = Some (Some 1, T)"
    "top T = Some 0" "heap T 1 = Some (reg_net\<lparr>lock_ct := 2\<rparr>)" by blast
  have "rd16be b (i + 10) = Some LISP_AFI_IP"
    using assms(1,4) by (auto simp: read_reply_record_def Option.bind_eq_Some_conv)
  then have s: "get_reply_record_size b i = Some 16" by (simp add: get_reply_record_size_def)
  have t: "ms_node_is_type (reg_net\<lparr>lock_ct := 2\<rparr>) ROLE_EID"
    by (simp add: ms_node_is_type_def reg_net_def ms_new_node_ex_def ROLE_EID_def)
  have "climb_eid (heap T) (top T) 1 = Some 1"
    by (subst climb_eid.simps) (simp add: T t del: One_nat_def)
  moreover have "ms_get_db_table (ms_db reg_state) reg_eid = Some (lisp_db4 (ms_db reg_state))"
    by (simp add: ms_get_db_table_def reg_eid_def)
  moreover have "\<exists>f. flags reg_net = Some f \<and> mf_rsvd f = Some 0" by (simp add: reg_net_def)
  ultimately have "\<exists>db. ms_validate_eid (ms_db reg_state) b i = Some (Some 0, 16, db)"
    using assms s T by (auto simp: ms_validate_eid_def Let_def simp del: One_nat_def)
  then show ?thesis by auto
qed

lemma reg_record_reads:
  "\<exists>r. read_reply_record reg_record 0 = Some r \<and> record_eid reg_record 0 r = Some (Some reg_eid) \<and>
    rr_locator_count r = 0 \<and> rr_afi r = LISP_AFI_IP"
proof -
  have "rd32be reg_record 0 = Some 60" "rd8 reg_record 4 = Some 0" "rd8 reg_record 5 = Some 24"
    "rd8 reg_record 6 = Some 0" "rd16le reg_record 8 = Some 0" "rd16be reg_record 10 = Some LISP_AFI_IP"
    "rdn reg_record 12 4 = Some [10, 1, 2, 0]" by code_simp+
  then show ?thesis by (simp add: read_reply_record_def record_eid_def reg_eid_def)
qed

lemma reg_validates_behind:
  "\<exists>db. validate_records (ms_db reg_state) (h @ reg_record) (Suc 0) (length h) None = Some (Some 0, db)"
proof -
  obtain r where r: "read_reply_record reg_record 0 = Some r" "record_eid reg_record 0 r = Some (Some reg_eid)"
    "rr_locator_count r = 0" "rr_afi r = LISP_AFI_IP" using reg_record_reads by blast
  show ?thesis
    by (rule reg_validates [of _ _ r])
      (use r read_reply_record_at [of h reg_record 0] record_eid_at [of h reg_record 0] in simp_all)
qed


theorem ms_validate_register_accepts_witness:
  "\<exists>packet st'. length packet = 52 \<and> ms_validate_register reg_state packet = Some (1, Some 0, st')"
proof -
  define hd where "hd = [0x30, 0, 0, 1, 0, 0, 0, 0, 0, 0, 0, 0, 0, 1, 0, 20 :: byte]"
  define p where "p = hd @ replicate 20 0 @ reg_record"
  define mac where "mac = hmac_spec (key_bytes ''key'') p"
  define b where "b = hd @ mac @ reg_record"
  have len: "length mac = 20" "length hd = 16" "length b = 52"
    by (simp_all add: mac_def hmac_spec_def hd_def b_def reg_record_def)
  have "rd8 hd 3 = Some 1" "rd16be hd 14 = Some 20" by (simp_all add: hd_def) code_simp+
  then have r: "rd8 b 3 = Some 1" "rd16be b 14 = Some 20"
    using rd8_append [of hd 3 1] rd16be_append [of hd 14 20] by (simp_all add: b_def)
  have c: "cleared b False = Some p"
    using len by (simp add: cleared_def r wr_def unat_ucast_byte) (simp add: b_def p_def len)
  have "\<exists>db. validate_records (ms_db reg_state) b (Suc 0) 36 None = Some (Some 0, db)"
    using reg_validates_behind [of "hd @ mac"] len by (simp add: b_def)
  then obtain db where v: "validate_records (ms_db reg_state) b (unat (1 :: byte)) 36 None = Some (Some 0, db)" by auto
  have "\<exists>rt st'. ms_validate_register reg_state b = Some (rt, Some 0, st') \<and> rt \<in> {0, 1} \<and> (si_hashing reg_site = None \<longrightarrow> rt = 1)"
    by (rule ms_validate_register_accepts [OF r(1) _ r(2) _ _ v _ _ _ c, where k = "''key''"])
      (use len in \<open>simp_all add: reg_state_def reg_site_def ms_new_site_info_def b_def mac_def\<close>)
  then show ?thesis using len(3) by (auto simp: reg_site_def ms_new_site_info_def)
qed

end
