(* ===== verification/Cp_Roundtrip.thy ===== *)
theory Cp_Roundtrip
  imports Cp_Message
begin

text \<open>
  What the program reads in the messages it writes itself: a Map-Request that it forwards is the
  request it stands for, and the replies carry the nonce of the request.
\<close>

section \<open>Map-Requests\<close>

text \<open>An address as \<open>udp_prc_request\<close> stores it: 16 bytes, of which IPv4 uses four.\<close>

definition wf_padded :: "af \<Rightarrow> byte list \<Rightarrow> bool" where
  "wf_padded f a \<longleftrightarrow>
     f = FAM_INET \<and> (\<exists>b. length b = 4 \<and> a = b @ replicate 12 0) \<or> f = FAM_INET6 \<and> length a = 16"

definition wf_itr :: "afi_address \<Rightarrow> bool" where
  "wf_itr a \<longleftrightarrow> wf_padded (aa_family a) (aa_addr a)"

lemma wf_padded_cases:
  assumes "wf_padded f a"
  obtains (v4) b where "f = FAM_INET" "length b = 4" "a = b @ replicate 12 0"
  | (v6) "f = FAM_INET6" "length a = 16"
  using assms by (auto simp: wf_padded_def)

lemma itr_loop_reads:
  assumes "\<forall>a\<in>set itr. wf_itr a"
  shows "itr_loop (pre @ itr_bytes itr @ post) (length itr) (length pre) acc =
    Some (True, length pre + length (itr_bytes itr), acc @ itr)"
  using assms
proof (induction itr arbitrary: pre acc)
  case (Cons a itr)
  have "wf_padded (aa_family a) (aa_addr a)" using Cons.prems by (simp add: wf_itr_def)
  then show ?case
  proof (cases rule: wf_padded_cases)
    case (v4 b)
    let ?h = "net16 LISP_AFI_IP @ b"
    have e: "\<lparr>aa_family = FAM_INET, aa_addr = b @ replicate 12 0\<rparr> = a" using v4 by simp
    have "rd16be (pre @ ?h @ itr_bytes itr @ post) (length pre) = Some LISP_AFI_IP"
      "rdn (pre @ ?h @ itr_bytes itr @ post) (length pre + 2) 4 = Some b"
      using rdn_at [of "pre @ net16 LISP_AFI_IP" "b @ itr_bytes itr @ post" 0 4] v4(2) by (simp_all add: at_simps)
    then show ?thesis
      using Cons.IH [of "pre @ ?h" "acc @ [a]"] Cons.prems v4
      by (simp add: e get_address_type_def add.commute add.left_commute)
  next
    case v6
    let ?h = "net16 LISP_AFI_IPV6 @ aa_addr a"
    have e: "\<lparr>aa_family = FAM_INET6, aa_addr = aa_addr a\<rparr> = a" using v6 by simp
    have "rd16be (pre @ ?h @ itr_bytes itr @ post) (length pre) = Some LISP_AFI_IPV6"
      "rdn (pre @ ?h @ itr_bytes itr @ post) (length pre + 2) 16 = Some (aa_addr a)"
      using rdn_at [of "pre @ net16 LISP_AFI_IPV6" "aa_addr a @ itr_bytes itr @ post" 0 16] v6 by (simp_all add: at_simps)
    then show ?thesis
      using Cons.IH [of "pre @ ?h" "acc @ [a]"] Cons.prems v6
      by (simp add: e get_address_type_def afi_defs add.commute add.left_commute)
  qed
qed simp

lemma eid_loop_reads:
  assumes "wf_padded (family eid) (addr eid)" and "prefix_address eid = Some a"
  shows "eid_loop (pre @ [0, prefixlen eid] @ a @ post) 1 (length pre) acc = Some (True, acc @ [eid])"
  using assms(1)
proof (cases rule: wf_padded_cases)
  case (v4 b)
  have a: "a = net16 LISP_AFI_IP @ b" using v4 assms(2) by (simp add: prefix_address_def)
  have e: "eid = \<lparr>family = FAM_INET, prefixlen = prefixlen eid, addr = b @ replicate 12 0\<rparr>" using v4 by simp
  let ?b = "pre @ [0, prefixlen eid] @ a @ post"
  have "rd8 ?b (length pre + 1) = Some (prefixlen eid)" using rd8_at [of pre "[0, prefixlen eid] @ a @ post" 1] by simp
  moreover have "rd16be ?b (length pre + 2) = Some LISP_AFI_IP"
    using rd16be_at [of "pre @ [0, prefixlen eid]" "a @ post" 0] a by simp
  moreover have "rdn ?b (length pre + 4) 4 = Some b"
    using rdn_at [of "pre @ [0, prefixlen eid] @ net16 LISP_AFI_IP" "b @ post" 0 4] a v4(2) by simp
  ultimately show ?thesis using e
    by (simp add: afi_defs get_record_size_def Let_def)
next
  case v6
  have a: "a = net16 LISP_AFI_IPV6 @ addr eid" using v6 assms(2) by (simp add: prefix_address_def)
  have e: "eid = \<lparr>family = FAM_INET6, prefixlen = prefixlen eid, addr = addr eid\<rparr>" using v6 by simp
  let ?b = "pre @ [0, prefixlen eid] @ a @ post"
  have "rd8 ?b (length pre + 1) = Some (prefixlen eid)" using rd8_at [of pre "[0, prefixlen eid] @ a @ post" 1] by simp
  moreover have "rd16be ?b (length pre + 2) = Some LISP_AFI_IPV6"
    using rd16be_at [of "pre @ [0, prefixlen eid]" "a @ post" 0] a by simp
  moreover have "rdn ?b (length pre + 4) 16 = Some (addr eid)"
    using rdn_at [of "pre @ [0, prefixlen eid] @ net16 LISP_AFI_IPV6" "addr eid @ post" 0 16] a v6(2) by simp
  ultimately show ?thesis using e
    by (simp add: afi_defs get_record_size_def Let_def)
qed

text \<open>The control message of a request, behind any headers.\<close>

lemma message_split:
  assumes "request_message A M P S p s nonce0 nonce1 itr eid = Some m"
  obtains a where "prefix_address eid = Some a"
    "m = [request_flags0 A M P S, put_field 6 1 s (put_field 7 1 p 0), put_field 0 5 (of_nat (length itr) - 1) 0, 1] @
       net32 nonce0 @ net32 nonce1 @ [0, 0] @ itr_bytes itr @ [0, prefixlen eid] @ a"
  using assms by (auto simp: request_message_def Option.bind_eq_Some_conv)

lemma type_request: "get_field 4 4 (request_flags0 A M P S) = LISP_TYPE_MAP_REQUEST"
proof -
  have "take_bit 4 LISP_TYPE_MAP_REQUEST = LISP_TYPE_MAP_REQUEST" by (simp add: type_defs)
  then show ?thesis by (simp add: request_flags0_def field_simps)
qed

lemma preparse_reads:
  assumes "request_message A M P S p s nonce0 nonce1 itr eid = Some m" and "pk_buf pke = pre @ m"
    and "unat (pk_buf_len pke) = length (pre @ m)"
  shows "preparse_lcm (length pre) pke = Some (1, pke\<lparr>pk_lcm := Some (length pre),
    pk_type := LISP_TYPE_MAP_REQUEST, pk_nonce0 := nonce0, pk_nonce1 := nonce1\<rparr>)"
proof -
  from message_split [OF assms(1)] obtain a r where
    m: "m = [request_flags0 A M P S, put_field 6 1 s (put_field 7 1 p 0), put_field 0 5 (of_nat (length itr) - 1) 0, 1] @
       net32 nonce0 @ net32 nonce1 @ r" and r: "r = [0, 0] @ itr_bytes itr @ [0, prefixlen eid] @ a" by metis
  let ?h = "[request_flags0 A M P S, put_field 6 1 s (put_field 7 1 p 0), put_field 0 5 (of_nat (length itr) - 1) 0, 1]"
  have "lisp_type (pre @ m) (length pre) = Some LISP_TYPE_MAP_REQUEST"
    unfolding lisp_type_def m by (simp add: at_simps type_request)
  moreover have "rd32be (pre @ m) (length pre + 4) = Some nonce0"
    using rd32be_at [of "pre @ ?h" "net32 nonce0 @ net32 nonce1 @ r" 0] m by (simp add: numeral_eq_Suc)
  moreover have "rd32be (pre @ m) (length pre + 8) = Some nonce1"
    using rd32be_at [of "pre @ ?h @ net32 nonce0" "net32 nonce1 @ r" 0] m by (simp add: numeral_eq_Suc)
  moreover have "length m \<ge> 14" using m r by simp
  ultimately show ?thesis using assms(2,3)
    by (simp add: preparse_lcm_def known_type_def)
qed

lemma prc_reads:
  assumes "request_message A M P S p s nonce0 nonce1 itr eid = Some m" and "pk_buf pke = pre @ m"
    and "pk_lcm pke = Some (length pre)" and "\<forall>a\<in>set itr. wf_itr a" and "itr \<noteq> []" and "length itr \<le> 32"
    and "wf_padded (family eid) (addr eid)"
  shows "udp_prc_request pke = Some (1, pke\<lparr>pk_itr := Some itr, pk_eid := Some [eid]\<rparr>)"
proof -
  from message_split [OF assms(1)] obtain a where a: "prefix_address eid = Some a" and
    m: "m = [request_flags0 A M P S, put_field 6 1 s (put_field 7 1 p 0), put_field 0 5 (of_nat (length itr) - 1) 0, 1] @
       net32 nonce0 @ net32 nonce1 @ [0, 0] @ itr_bytes itr @ [0, prefixlen eid] @ a" by metis
  let ?r = "itr_bytes itr @ [0, prefixlen eid] @ a"
  let ?pre = "pre @ take 12 m @ [0, 0]"
  have len: "length (take 12 m) = 12" and pm: "pre @ m = ?pre @ ?r"
    using m by (simp_all add: net32_def net16_def)
  have t: "lisp_type (pre @ m) (length pre) = Some LISP_TYPE_MAP_REQUEST"
    unfolding lisp_type_def m by (simp add: at_simps type_request)
  have c: "rd8 (pre @ m) (length pre + 3) = Some 1"
    using rd8_at [of pre m 3] m by (simp add: numeral_3_eq_3)
  obtain n where n: "length itr = Suc n" "n < 32" using assms(5,6) by (cases itr) auto
  then have "of_nat (length itr) - 1 = (of_nat n :: byte)" by simp
  moreover have "take_bit 5 (of_nat n :: byte) = of_nat n"
    using n(2) by (simp add: take_bit_of_nat take_bit_nat_eq_self)
  ultimately have "get_field 0 5 (put_field 0 5 (of_nat (length itr) - 1) 0) = (of_nat n :: byte)"
    by (simp add: field_simps)
  moreover have "rd8 (pre @ m) (length pre + 2) = Some (put_field 0 5 (of_nat (length itr) - 1) 0)"
    using rd8_at [of pre m 2] m by (simp add: numeral_2_eq_2)
  moreover have "unat (of_nat n :: byte) = n" using n(2) by (simp add: unat_of_nat)
  ultimately have irc: "\<exists>irc. rd8 (pre @ m) (length pre + 2) = Some irc \<and> unat (get_field 0 5 irc) + 1 = length itr"
    using n(1) by simp
  have "rd16be ([0, 0] @ ?r) 0 = Some 0" by (simp add: rd16be_def)
  then have "rd16be (pre @ m) (length pre + 12) = Some 0"
    using rd16be_at [of "pre @ take 12 m" "[0, 0] @ ?r" 0] pm len by simp
  then have src: "afi_address_str (pre @ m) (length pre + 12) = Some False"
    by (simp add: afi_address_str_def get_address_type_def afi_defs)
  have il: "itr_loop (pre @ m) (length itr) (14 + length pre) [] =
      Some (True, 14 + (length pre + length (itr_bytes itr)), itr)"
    using itr_loop_reads [OF assms(4), of ?pre "[0, prefixlen eid] @ a" "[]"] pm len
    by (simp add: add.commute add.left_commute)
  have el: "eid_loop (pre @ m) 1 (14 + (length pre + length (itr_bytes itr))) [] = Some (True, [eid])"
    using eid_loop_reads [OF assms(7) a, of "?pre @ itr_bytes itr" "[]" "[]"] pm len
    by (simp add: add.commute add.left_commute del: One_nat_def)
  from irc obtain irc where "rd8 (pre @ m) (length pre + 2) = Some irc" "unat (get_field 0 5 irc) + 1 = length itr" by blast
  then show ?thesis using t c src il el assms(2,3)
    by (simp add: udp_prc_request_def Let_def del: One_nat_def)
qed

text \<open>The headers in front of it.\<close>

lemma ip_header_shape:
  "\<exists>w. ip_header n src dst = [0x45, 0] @ net16 (of_nat n) @ [0, 0, 0, 0, 255, 17] @ word_bytes w @ src @ dst"
  by (auto simp: ip_header_def Let_def)

lemma length_word_bytes [simp]: "length (word_bytes w) = 2"
  by (simp add: word_bytes_def)

lemma length_headers [simp]:
  "length (udp_header port n) = 8" "length src = 4 \<Longrightarrow> length dst = 4 \<Longrightarrow> length (ip_header n src dst) = 20"
  "length src = 16 \<Longrightarrow> length dst = 16 \<Longrightarrow> length (ip6_header n src dst) = 40"
  using ip_header_shape [of n src dst] by (auto simp: udp_header_def ip6_header_def)

definition ecm_byte :: "byte \<Rightarrow> byte \<Rightarrow> byte" where
  "ecm_byte security ddt =
     put_field 2 1 ddt (put_field 3 1 security (put_field 4 4 LISP_TYPE_ENCAPSULATED_CONTROL_MESSAGE 0))"

lemma ecm_fields:
  "get_field 4 4 (ecm_byte security ddt) = LISP_TYPE_ENCAPSULATED_CONTROL_MESSAGE"
  "get_field 2 1 (ecm_byte security ddt) = take_bit 1 ddt"
proof -
  have "take_bit 4 LISP_TYPE_ENCAPSULATED_CONTROL_MESSAGE = LISP_TYPE_ENCAPSULATED_CONTROL_MESSAGE"
    by (simp add: type_defs)
  then show "get_field 4 4 (ecm_byte security ddt) = LISP_TYPE_ENCAPSULATED_CONTROL_MESSAGE"
    "get_field 2 1 (ecm_byte security ddt) = take_bit 1 ddt"
    by (simp_all add: ecm_byte_def field_simps)
qed

lemma preparse_ecm4_any:
  assumes "length src = 4" and "length dst = 4" and "pk_buf pke = [ecm_byte security ddt, 0, 0, 0] @
    ([0x45, 0] @ net16 (of_nat n) @ [0, 0, 0, 0, 255, 17] @ word_bytes w @ src @ dst) @ udp_header port k @ m" and "unat (pk_buf_len pke) = 32 + length m"
  shows "\<exists>pke'. udp_preparse_pk pke = preparse_lcm 32 pke' \<and> pk_buf pke' = pk_buf pke \<and>
    pk_buf_len pke' = pk_buf_len pke \<and> pk_ecm pke' \<and> pk_ddt pke' = ucast (get_field 2 1 (ecm_byte security ddt)) \<and>
    su_port (pk_ih_si pke') = port \<and> pk_si pke' = pk_si pke \<and> pk_di pke' = pk_di pke"
proof -
  let ?b = "pk_buf pke"
  let ?l = "[ecm_byte security ddt, 0, 0, 0]"
  let ?ih = "[0x45, 0] @ net16 (of_nat n) @ [0, 0, 0, 0, 255, 17] @ word_bytes w @ src @ dst"
  have b0: "rd8 ?b 0 = Some (ecm_byte security ddt)" using assms(3) by simp
  have b4: "rd8 ?b 4 = Some 0x45"
    using rd8_at [of ?l "?ih @ udp_header port k @ m" 0] assms(3) by (simp add: numeral_eq_Suc)
  have p: "rd16be ?b 24 = Some port"
    using rd16be_at [of "?l @ ?ih" "net16 port @ drop 2 (udp_header port k) @ m" 0] assms(1-3)
    by (simp add: udp_header_def)
  have a: "rdn ?b 16 4 = Some src"
    using rdn_at [of "?l @ [0x45, 0] @ net16 (of_nat n) @ [0, 0, 0, 0, 255, 17] @ word_bytes w"
        "src @ dst @ udp_header port k @ m" 0 4] assms(1,3) by simp
  have v: "get_field 4 4 (0x45 :: byte) = 4" by (simp add: get_field_def)
  show ?thesis using assms(4) b0 b4 p a v
    by (simp add: udp_preparse_pk_def Let_def lisp_type_def ecm_fields set_sin_addr_def del: One_nat_def)
      (intro exI conjI, rule refl, simp_all)
qed

lemma preparse_ecm4:
  assumes "length src = 4" and "length dst = 4" and "pk_buf pke = [ecm_byte security ddt, 0, 0, 0] @
    ip_header n src dst @ udp_header port k @ m" and "unat (pk_buf_len pke) = 32 + length m"
  shows "\<exists>pke'. udp_preparse_pk pke = preparse_lcm 32 pke' \<and> pk_buf pke' = pk_buf pke \<and>
    pk_buf_len pke' = pk_buf_len pke \<and> pk_ecm pke' \<and> pk_ddt pke' = ucast (get_field 2 1 (ecm_byte security ddt)) \<and>
    su_port (pk_ih_si pke') = port \<and> pk_si pke' = pk_si pke \<and> pk_di pke' = pk_di pke"
proof -
  obtain w where "ip_header n src dst = [0x45, 0] @ net16 (of_nat n) @ [0, 0, 0, 0, 255, 17] @ word_bytes w @ src @ dst"
    using ip_header_shape by blast
  with assms show ?thesis using preparse_ecm4_any [OF assms(1,2)] by metis
qed

lemma preparse_ecm6:
  assumes "length src = 16" and "length dst = 16" and "pk_buf pke = [ecm_byte security ddt, 0, 0, 0] @
    ip6_header n src dst @ udp_header port k @ m" and "unat (pk_buf_len pke) = 52 + length m"
  shows "\<exists>pke'. udp_preparse_pk pke = preparse_lcm 52 pke' \<and> pk_buf pke' = pk_buf pke \<and>
    pk_buf_len pke' = pk_buf_len pke \<and> pk_ecm pke' \<and> pk_ddt pke' = ucast (get_field 2 1 (ecm_byte security ddt)) \<and>
    su_port (pk_ih_si pke') = port \<and> pk_si pke' = pk_si pke \<and> pk_di pke' = pk_di pke"
proof -
  let ?b = "pk_buf pke"
  let ?l = "[ecm_byte security ddt, 0, 0, 0]"
  have b0: "rd8 ?b 0 = Some (ecm_byte security ddt)" using assms(3) by simp
  have b4: "rd8 ?b 4 = Some 0x6E"
    using rd8_at [of ?l "ip6_header n src dst @ udp_header port k @ m" 0] assms(3)
    by (simp add: numeral_eq_Suc ip6_header_def)
  have p: "rd16be ?b 44 = Some port"
    using rd16be_at [of "?l @ ip6_header n src dst" "net16 port @ drop 2 (udp_header port k) @ m" 0] assms(1-3)
    by (simp add: udp_header_def)
  have a: "rdn ?b 12 16 = Some src"
    using rdn_at [of "?l @ [0x6E, 0, 0, 0] @ net16 (of_nat n) @ [17, 64]" "src @ dst @ udp_header port k @ m" 0 16]
      assms(1,3) by (simp add: ip6_header_def)
  have v: "get_field 4 4 (0x6E :: byte) = 6" by (simp add: get_field_def)
  show ?thesis using assms(4) b0 b4 p a v
    by (simp add: udp_preparse_pk_def Let_def lisp_type_def ecm_fields set_sin6_addr_def del: One_nat_def)
      (intro exI conjI, rule refl, simp_all)
qed

lemma ucast_take_bit: "ucast (take_bit 1 (x :: byte)) = (ucast x :: flag)"
  by (rule bit_word_eqI) (simp only: bit_unsigned_iff bit_take_bit_iff, simp)

lemma length_sin_addr: "wf_su s \<Longrightarrow> length (sin_addr s) = 4" "wf_su s \<Longrightarrow> length (sin6_addr s) = 16"
  by (simp_all add: wf_su_def sin_addr_def sin6_addr_def)

lemma sockunion_to_afi_length:
  "wf_su s \<Longrightarrow> sockunion_to_afi_address s = Some a \<Longrightarrow> length a = 16"
  by (auto simp: sockunion_to_afi_address_def length_sin_addr split: af.splits)

text \<open>What is read of a request behind its headers, for both kinds of inner packet.\<close>

definition inner_header :: "byte list \<Rightarrow> bool" where
  "inner_header ih \<longleftrightarrow>
     (\<exists>n w src dst. length src = 4 \<and> length dst = 4 \<and>
        ih = [0x45, 0] @ net16 (of_nat n) @ [0, 0, 0, 0, 255, 17] @ word_bytes w @ src @ dst) \<or>
     (\<exists>n src dst. length src = 16 \<and> length dst = 16 \<and> ih = ip6_header n src dst)"

lemma ecm_request_trip:
  assumes m: "request_message A M P S p s nonce0 nonce1 itr eid = Some m"
    and b: "b = [ecm_byte security ddt, 0, 0, 0] @ ih @ udp_header port k @ m" "length b \<le> 65527" and ih: "inner_header ih"
    and "itr \<noteq> []" and "length itr \<le> 32" and "\<forall>a\<in>set itr. wf_itr a" and "wf_padded (family eid) (addr eid)"
  shows "\<exists>r1 r2 i. udp_preparse_pk (new_request b ssk dsk) = Some (1, r1) \<and>
    udp_prc_request r1 = Some (1, r2) \<and> pk_ecm r2 \<and> pk_ddt r2 = ucast ddt \<and> pk_type r2 = LISP_TYPE_MAP_REQUEST \<and>
    udp_request_get_nonce r2 = (nonce0, nonce1) \<and> udp_request_get_port r2 = port \<and> pk_si r2 = ssk \<and>
    pk_itr r2 = Some itr \<and> pk_eid r2 = Some [eid] \<and> pk_buf r2 = b \<and> pk_buf r1 = b \<and>
    pk_lcm r2 = Some i \<and> rd8 b i = Some (request_flags0 A M P S)"
proof -
  let ?r = "new_request b ssk dsk"
  let ?pre = "[ecm_byte security ddt, 0, 0, 0] @ ih @ udp_header port k"
  have n: "unat (pk_buf_len ?r) = length b" using b(2) by (simp add: new_request_def unat_of_nat)
  have buf: "pk_buf ?r = b" "pk_si ?r = ssk" by (simp_all add: new_request_def)
  from ih obtain r' where r': "udp_preparse_pk ?r = preparse_lcm (length ?pre) r'" "pk_buf r' = pk_buf ?r"
    "pk_buf_len r' = pk_buf_len ?r" "pk_ecm r'" "pk_ddt r' = ucast (get_field 2 1 (ecm_byte security ddt))"
    "su_port (pk_ih_si r') = port" "pk_si r' = pk_si ?r"
    unfolding inner_header_def
  proof (elim disjE exE conjE)
    fix h w src dst
    assume l: "length src = 4" "length dst = 4"
      and ih: "ih = [0x45, 0] @ net16 (of_nat h) @ [0, 0, 0, 0, 255, 17] @ word_bytes w @ src @ dst"
    have "length ?pre = 32" using l ih by simp
    with preparse_ecm4_any [OF l, of ?r security ddt h w port k m] b ih buf n l that show thesis by auto
  next
    fix h src dst
    assume l: "length src = 16" "length dst = 16" and ih: "ih = ip6_header h src dst"
    have "length ?pre = 52" using l ih by simp
    with preparse_ecm6 [OF l, of ?r security ddt h port k m] b ih buf n l that show thesis by auto
  qed
  have bm: "b = ?pre @ m" using b(1) by simp
  let ?r1 = "r'\<lparr>pk_lcm := Some (length ?pre), pk_type := LISP_TYPE_MAP_REQUEST, pk_nonce0 := nonce0, pk_nonce1 := nonce1\<rparr>"
  let ?r2 = "?r1\<lparr>pk_itr := Some itr, pk_eid := Some [eid]\<rparr>"
  have "pk_buf r' = ?pre @ m" "unat (pk_buf_len r') = length (?pre @ m)" using r'(2,3) buf(1) n bm by simp_all
  then have 1: "udp_preparse_pk ?r = Some (1, ?r1)" unfolding r'(1) by (rule preparse_reads [OF m])
  have 2: "udp_prc_request ?r1 = Some (1, ?r2)"
    by (rule prc_reads [OF m, where pre = ?pre]) (use r'(2) buf bm assms(5-8) in simp_all)
  have 3: "pk_ddt r' = ucast ddt" unfolding r'(5) ecm_fields(2) by (rule ucast_take_bit)
  have "rd8 m 0 = Some (request_flags0 A M P S)" using m by (auto simp: request_message_def rd8_def Option.bind_eq_Some_conv)
  then have 4: "rd8 b (length ?pre) = Some (request_flags0 A M P S)" using rd8_at [of ?pre m 0] bm by simp
  show ?thesis using 1 2 3 4 r' buf
    by (intro exI [of _ ?r1] exI [of _ ?r2] exI [of _ "length ?pre"])
      (simp add: udp_request_get_nonce_def udp_request_get_port_def)
qed

lemma request_trip:
  assumes "udp_request_add pke security ddt A M P S p s nonce0 nonce1 src dst port eid = Some (Some rpk)"
    and "wf_su src" and "wf_su dst" and "pk_itr pke = Some itr" and "itr \<noteq> []" and "length itr \<le> 32"
    and "\<forall>a\<in>set itr. wf_itr a" and "wf_padded (family eid) (addr eid)"
  shows "\<exists>r1 r2. udp_preparse_pk (new_request (rp_buf rpk) ssk dsk) = Some (1, r1) \<and>
    udp_prc_request r1 = Some (1, r2) \<and> pk_ecm r2 \<and> pk_ddt r2 = ucast ddt \<and> pk_type r2 = LISP_TYPE_MAP_REQUEST \<and>
    udp_request_get_nonce r2 = (nonce0, nonce1) \<and> udp_request_get_port r2 = port \<and> pk_si r2 = ssk \<and>
    pk_itr r2 = Some itr \<and> pk_eid r2 = Some [eid] \<and> pk_buf r2 = rp_buf rpk \<and> pk_buf r1 = rp_buf rpk"
proof -
  have wf: "family eid = FAM_INET \<or> family eid = FAM_INET6" using assms(8) by (auto simp: wf_padded_def)
  obtain as ad m where ad: "sockunion_to_afi_address src = Some as" "sockunion_to_afi_address dst = Some ad"
    and m: "request_message A M P S p s nonce0 nonce1 itr eid = Some m"
    and e: "emit ([ecm_byte security ddt, 0, 0, 0] @
      (if family eid = FAM_INET then ip_header (20 + length (udp_header port (8 + length m) @ m)) (take 4 as) (take 4 ad)
       else ip6_header (length (udp_header port (8 + length m) @ m)) as ad) @
      udp_header port (8 + length m) @ m) (udp_new_reply_entry (Some pke)) = Some rpk"
    using assms(1,4) wf
    by (auto simp: udp_request_add_def Option.bind_eq_Some_conv Let_def ecm_byte_def simp del: length_append length_headers)
  have l: "length as = 16" "length ad = 16" using ad assms(2,3) sockunion_to_afi_length by blast+
  let ?ih = "if family eid = FAM_INET then ip_header (20 + length (udp_header port (8 + length m) @ m)) (take 4 as) (take 4 ad)
       else ip6_header (length (udp_header port (8 + length m) @ m)) as ad"
  have b: "rp_buf rpk = [ecm_byte security ddt, 0, 0, 0] @ ?ih @ udp_header port (8 + length m) @ m"
    "length (rp_buf rpk) \<le> 65527"
    using e by (auto simp: emit_def PKBUFLEN_def udp_new_reply_entry_def split: if_splits)
  have "inner_header ?ih"
  proof (cases "family eid = FAM_INET")
    case True
    have "length (take 4 as) = 4" "length (take 4 ad) = 4" using l by simp_all
    then show ?thesis using True ip_header_shape unfolding inner_header_def by (metis (no_types, lifting))
  next
    case False
    then show ?thesis using l unfolding inner_header_def by (metis (no_types, lifting))
  qed
  from ecm_request_trip [OF m b this assms(5-8), of ssk dsk] show ?thesis by blast
qed

text \<open>C30: The Map-Request that \<open>udp_request_add\<close> builds for forwarding, received and taken apart by
  \<open>udp_preparse_pk\<close> and \<open>udp_prc_request\<close>, is the request it stands for: the nonce, the DDT bit, the
  source port, every ITR in order and the EID prefix, for both address families.\<close>

theorem udp_request_roundtrip:
  assumes "udp_request_add pke security ddt A M P S p s nonce0 nonce1 src dst port eid = Some (Some rpk)"
    and "wf_su src" and "wf_su dst" and "pk_itr pke = Some itr" and "itr \<noteq> []" and "length itr \<le> 32"
    and "\<forall>a\<in>set itr. wf_itr a" and "wf_padded (family eid) (addr eid)"
  shows "\<exists>r1 r2. udp_preparse_pk (new_request (rp_buf rpk) ssk dsk) = Some (1, r1) \<and>
    udp_prc_request r1 = Some (1, r2) \<and> pk_ecm r2 \<and> pk_ddt r2 = ucast ddt \<and> pk_type r2 = LISP_TYPE_MAP_REQUEST \<and>
    udp_request_get_nonce r2 = (nonce0, nonce1) \<and> udp_request_get_port r2 = port \<and> pk_si r2 = ssk \<and>
    pk_itr r2 = Some itr \<and> pk_eid r2 = Some [eid]"
  using request_trip [OF assms, of ssk dsk] by blast

definition sample_su :: sockunion where
  "sample_su = \<lparr>su_family = FAM_INET, su_port = 61000, su_rest = [10, 0, 0, 1] @ replicate 120 0\<rparr>"

definition sample_eid :: cp_prefix where
  "sample_eid = \<lparr>family = FAM_INET, prefixlen = 24, addr = [192, 168, 1, 0] @ replicate 12 0\<rparr>"

definition sample_itr :: afi_address where
  "sample_itr = \<lparr>aa_family = FAM_INET, aa_addr = [10, 0, 0, 1] @ replicate 12 0\<rparr>"

definition sample_req :: pk_req_entry where
  "sample_req = (new_request [] sample_su sample_su)\<lparr>pk_itr := Some [sample_itr]\<rparr>"

theorem udp_request_roundtrip_witness:
  "\<exists>rpk r1 r2. udp_request_add sample_req 0 1 1 0 0 0 0 0 7 8 sample_su sample_su 61000 sample_eid = Some (Some rpk) \<and>
    udp_preparse_pk (new_request (rp_buf rpk) sample_su sample_su) = Some (1, r1) \<and>
    udp_prc_request r1 = Some (1, r2) \<and> pk_eid r2 = Some [sample_eid]"
proof -
  have w: "wf_su sample_su" "wf_itr sample_itr" "wf_padded (family sample_eid) (addr sample_eid)"
    "pk_itr sample_req = Some [sample_itr]"
    by (simp_all add: wf_su_def sample_su_def wf_itr_def wf_padded_def sample_itr_def sample_eid_def sample_req_def)
  have "\<exists>rpk. udp_request_add sample_req 0 1 1 0 0 0 0 0 7 8 sample_su sample_su 61000 sample_eid = Some (Some rpk)"
    by (simp add: udp_request_add_def sockunion_to_afi_address_def sample_su_def sample_eid_def sample_req_def sample_itr_def
      request_message_def prefix_address_def emit_def udp_new_reply_entry_def PKBUFLEN_def Let_def sin_addr_def)
  then obtain rpk where r: "udp_request_add sample_req 0 1 1 0 0 0 0 0 7 8 sample_su sample_su 61000 sample_eid = Some (Some rpk)" ..
  from udp_request_roundtrip [OF r w(1,1,4) _ _ _ w(3), of sample_su sample_su] w(2) r show ?thesis by auto
qed

text \<open>A Map-Reply carries the nonce of the request it answers and its type, and starts with no
  record.\<close>

theorem udp_reply_add_echoes_nonce:
  "\<exists>rpk. udp_reply_add pke = Some rpk \<and> rp_req rpk = Some pke \<and> length (rp_buf rpk) = 12 \<and>
    lisp_type (rp_buf rpk) 0 = Some LISP_TYPE_MAP_REPLY \<and> rd8 (rp_buf rpk) 3 = Some 0 \<and>
    rd32be (rp_buf rpk) 4 = Some (pk_nonce0 pke) \<and> rd32be (rp_buf rpk) 8 = Some (pk_nonce1 pke)"
proof -
  let ?h = "[put_field 4 4 LISP_TYPE_MAP_REPLY 0, 0, 0, 0]"
  let ?b = "?h @ net32 (pk_nonce0 pke) @ net32 (pk_nonce1 pke)"
  have "take_bit 4 LISP_TYPE_MAP_REPLY = LISP_TYPE_MAP_REPLY" by (simp add: type_defs)
  then have "lisp_type ?b 0 = Some LISP_TYPE_MAP_REPLY" by (simp add: lisp_type_def field_simps)
  moreover have "rd32be ?b 4 = Some (pk_nonce0 pke)"
    using rd32be_at [of ?h "net32 (pk_nonce0 pke) @ net32 (pk_nonce1 pke)" 0] by (simp add: numeral_eq_Suc)
  moreover have "rd32be ?b 8 = Some (pk_nonce1 pke)"
    using rd32be_at [of "?h @ net32 (pk_nonce0 pke)" "net32 (pk_nonce1 pke) @ []" 0]
      rd32be_net32 [of "pk_nonce1 pke" "[]"] by (simp add: numeral_eq_Suc)
  moreover have "rd8 ?b 3 = Some 0" by (simp add: numeral_3_eq_3)
  ultimately show ?thesis
    by (simp add: udp_reply_add_def udp_request_get_nonce_def emit_def udp_new_reply_entry_def PKBUFLEN_def)
qed

section \<open>The version of a mapping\<close>

text \<open>The records a reply carries have version 0 for every version a mapping can have (twelve
  bits): the version is converted with \<open>htonl\<close> before it is stored in a bit field of the host, so the
  field gets the high half of the word.\<close>

theorem version_lost: "version < 2 ^ 16 \<Longrightarrow> version_field version = 0"
proof -
  assume "version < 2 ^ 16"
  then have "unat version < 2 ^ 16" by (simp add: word_less_nat_alt)
  then have "drop_bit 16 version = 0" by (simp add: word_unat_eq_iff drop_bit_eq_div unat_div)
  moreover have "ucast (word_cat (a :: u16) (0 :: u16) :: u32) = (0 :: 12 word)" for a
    by (rule bit_word_eqI) (simp add: bit_simps)
  ultimately show ?thesis by (simp add: version_field_def htonl_def htons_def)
qed

theorem version_lost_witness: "version_field 4095 = 0"
  using version_lost [of 4095] by simp

end
