(* ===== verification/Cp_Record_Trip.thy ===== *)
theory Cp_Record_Trip
  imports Cp_Auth Cp_Roundtrip
begin

text \<open>
  Records from the writer to the reader: what \<open>udp_register_add_record\<close> and
  \<open>udp_register_add_locator\<close> put into a message, \<open>_ms_validate_eid\<close> measures and
  \<open>_ms_process_register_record\<close> stores in the database.
\<close>

section \<open>Locators\<close>

text \<open>A socket address as it is read back: family and address only.\<close>

definition plain_su :: "sockunion \<Rightarrow> sockunion" where
  "plain_su s =
     (case su_family s of
        FAM_INET \<Rightarrow> set_sin_addr (sin_addr s) (zero_sockunion\<lparr>su_family := FAM_INET\<rparr>)
      | FAM_INET6 \<Rightarrow> set_sin6_addr (sin6_addr s) (zero_sockunion\<lparr>su_family := FAM_INET6\<rparr>)
      | FAM_OTHER f \<Rightarrow> zero_sockunion)"

definition plain_entry :: "map_entry \<Rightarrow> map_entry" where
  "plain_entry e = e\<lparr>me_rloc := plain_su (me_rloc e)\<rparr>"

definition wf_entry :: "map_entry \<Rightarrow> bool" where
  "wf_entry e \<longleftrightarrow> wf_su (me_rloc e) \<and> me_pe e = None \<and> su_family (me_rloc e) \<in> {FAM_INET, FAM_INET6}"

lemma locator_flags_read:
  "ucast (get_field 0 1 (locator_flags L p R)) = R" "ucast (get_field 1 1 (locator_flags L p R)) = p"
  "ucast (get_field 2 1 (locator_flags L p R)) = L"
  unfolding locator_flags_def by (simp_all add: field_simps del: One_nat_def)

lemma read_locator_plain:
  assumes "read_reply_locator b i = Some l"
  shows "rl_afi l = LISP_AFI_IP \<Longrightarrow> rdn b (i + 8) 4 = Some a \<Longrightarrow> read_locator keep b i =
      Some (Some (entry_of l (set_sin_addr a (zero_sockunion\<lparr>su_family := FAM_INET\<rparr>)) None, i + 12))"
    and "rl_afi l = LISP_AFI_IPV6 \<Longrightarrow> rdn b (i + 8) 16 = Some a \<Longrightarrow> read_locator keep b i =
      Some (Some (entry_of l (set_sin6_addr a (zero_sockunion\<lparr>su_family := FAM_INET6\<rparr>)) None, i + 24))"
  using assms by (simp_all add: read_locator_def afi_defs)

lemma plain_locator_shape:
  assumes "plain_locator p e = Some bs" and "wf_entry e"
  obtains (v4) "su_family (me_rloc e) = FAM_INET" "length bs = 12"
    "read_reply_locator (bs @ post) 0 = Some \<lparr>rl_priority = me_priority e, rl_weight = me_weight e,
       rl_m_priority = me_m_priority e, rl_m_weight = me_m_weight e, rl_R = me_r e, rl_p = p, rl_L = me_L e,
       rl_afi = LISP_AFI_IP\<rparr>" "rdn (bs @ post) 8 4 = Some (sin_addr (me_rloc e))"
  | (v6) "su_family (me_rloc e) = FAM_INET6" "length bs = 24"
    "read_reply_locator (bs @ post) 0 = Some \<lparr>rl_priority = me_priority e, rl_weight = me_weight e,
       rl_m_priority = me_m_priority e, rl_m_weight = me_m_weight e, rl_R = me_r e, rl_p = p, rl_L = me_L e,
       rl_afi = LISP_AFI_IPV6\<rparr>" "rdn (bs @ post) 8 16 = Some (sin6_addr (me_rloc e))"
proof -
  let ?h = "[me_priority e, me_weight e, me_m_priority e, me_m_weight e, 0, locator_flags (me_L e) p (me_r e)]"
  have rd: "read_reply_locator (?h @ net16 afi @ a @ post) 0 = Some \<lparr>rl_priority = me_priority e, rl_weight = me_weight e,
       rl_m_priority = me_m_priority e, rl_m_weight = me_m_weight e, rl_R = me_r e, rl_p = p, rl_L = me_L e,
       rl_afi = afi\<rparr>" for afi a
    unfolding read_reply_locator_def
    by (simp add: numeral_eq_Suc locator_flags_read [unfolded One_nat_def numeral_2_eq_2])
  have ra: "length a = n \<Longrightarrow> rdn (?h @ net16 afi @ a @ post) 8 n = Some a" for afi a n
    using rdn_at [of "?h @ net16 afi" "a @ post" 0 n] by simp
  consider "su_family (me_rloc e) = FAM_INET" | "su_family (me_rloc e) = FAM_INET6"
    using assms(2) by (auto simp: wf_entry_def)
  then show ?thesis
  proof cases
    case 1
    then have "bs = ?h @ net16 LISP_AFI_IP @ sin_addr (me_rloc e)" "length (sin_addr (me_rloc e)) = 4"
      using assms by (auto simp: plain_locator_def locator_address_def wf_entry_def length_sin_addr)
    with 1 rd [of LISP_AFI_IP] ra [of "sin_addr (me_rloc e)" 4 LISP_AFI_IP] show ?thesis by (intro v4) simp_all
  next
    case 2
    then have "bs = ?h @ net16 LISP_AFI_IPV6 @ sin6_addr (me_rloc e)" "length (sin6_addr (me_rloc e)) = 16"
      using assms by (auto simp: plain_locator_def locator_address_def wf_entry_def length_sin_addr)
    with 2 rd [of LISP_AFI_IPV6] ra [of "sin6_addr (me_rloc e)" 16 LISP_AFI_IPV6] show ?thesis by (intro v6) simp_all
  qed
qed

lemma plain_locator_reads:
  assumes "plain_locator (me_p e) e = Some bs" and "wf_entry e"
  shows "read_locator keep (pre @ bs @ post) (length pre) = Some (Some (plain_entry e, length pre + length bs))"
    and "locator_len (pre @ bs @ post) (length pre) = Some (Some (length bs))"
proof -
  have e: "entry_of \<lparr>rl_priority = me_priority e, rl_weight = me_weight e, rl_m_priority = me_m_priority e,
      rl_m_weight = me_m_weight e, rl_R = me_r e, rl_p = me_p e, rl_L = me_L e, rl_afi = afi\<rparr> (plain_su (me_rloc e)) None =
    plain_entry e" for afi
    using assms(2) by (simp add: entry_of_def plain_entry_def wf_entry_def)
  have afi: "rd16be (pre @ bs @ post) (length pre + 6) = rd16be (bs @ post) 6" by (rule rd16be_at)
  have at: "read_reply_locator (pre @ bs @ post) (length pre) = read_reply_locator (bs @ post) 0"
    "rdn (pre @ bs @ post) (length pre + 8) n = rdn (bs @ post) 8 n" for n
    using read_reply_locator_at [of pre "bs @ post" 0] rdn_at [of pre "bs @ post" 8 n] by simp_all
  from assms show "read_locator keep (pre @ bs @ post) (length pre) = Some (Some (plain_entry e, length pre + length bs))"
  proof (cases rule: plain_locator_shape [of _ _ _ post])
    case v4
    with e [of LISP_AFI_IP] read_locator_plain(1) [OF trans [OF at(1) v4(3)]] at(2) [of 4] show ?thesis
      by (simp add: plain_su_def)
  next
    case v6
    with e [of LISP_AFI_IPV6] read_locator_plain(2) [OF trans [OF at(1) v6(3)]] at(2) [of 16] show ?thesis
      by (simp add: plain_su_def)
  qed
  from assms show "locator_len (pre @ bs @ post) (length pre) = Some (Some (length bs))"
  proof (cases rule: plain_locator_shape [of _ _ _ post])
    case v4
    then have "rd16be (bs @ post) 6 = Some LISP_AFI_IP" by (auto simp: read_reply_locator_def Option.bind_eq_Some_conv)
    with v4 afi show ?thesis by (simp add: locator_len_def)
  next
    case v6
    then have "rd16be (bs @ post) 6 = Some LISP_AFI_IPV6" by (auto simp: read_reply_locator_def Option.bind_eq_Some_conv)
    with v6 afi show ?thesis by (simp add: locator_len_def afi_defs)
  qed
qed

text \<open>Lists of locators.\<close>

lemma register_add_locator_plain:
  assumes "udp_register_add_locator cf rpk e ex = Some rpk'" and "me_pe e = None"
  obtains bs where "plain_locator (me_p e) e = Some bs" "rpk' = rpk\<lparr>rp_buf := rp_buf rpk @ bs\<rparr>"
  using assms by (auto simp: udp_register_add_locator_def emit_def Option.bind_eq_Some_conv split: if_splits)

lemma wf_plain: "wf_entry e \<Longrightarrow> su_family (me_rloc (plain_entry e)) = su_family (me_rloc e)"
  by (auto simp: wf_entry_def plain_entry_def plain_su_def set_sin_addr_def set_sin6_addr_def)

lemma register_add_locators_reads:
  assumes "register_add_locators cf rpk es = Some rpk'" and "\<forall>e\<in>set es. wf_entry e"
  shows "\<exists>bs. rpk' = rpk\<lparr>rp_buf := rp_buf rpk @ bs\<rparr> \<and> (\<forall>pre post keep locs.
    locators_len (pre @ bs @ post) (length es) (length pre) = Some (Some (length bs)) \<and>
    record_locators keep (pre @ bs @ post) (length es) (length pre) locs =
      Some (Some (length pre + length bs), fold add_locator (map plain_entry es) locs))"
  using assms
proof (induction es arbitrary: rpk)
  case (Cons e es)
  obtain rpk1 where 1: "udp_register_add_locator cf rpk e False = Some rpk1"
    "register_add_locators cf rpk1 es = Some rpk'" using Cons.prems(1) by (auto simp: Option.bind_eq_Some_conv)
  have w: "wf_entry e" "me_pe e = None" using Cons.prems(2) by (simp_all add: wf_entry_def)
  obtain b1 where b1: "plain_locator (me_p e) e = Some b1" "rpk1 = rpk\<lparr>rp_buf := rp_buf rpk @ b1\<rparr>"
    using register_add_locator_plain [OF 1(1) w(2)] .
  obtain bs where bs: "rpk' = rpk1\<lparr>rp_buf := rp_buf rpk1 @ bs\<rparr>"
    "\<And>pre post. locators_len (pre @ bs @ post) (length es) (length pre) = Some (Some (length bs))"
    "\<And>pre post keep locs. record_locators keep (pre @ bs @ post) (length es) (length pre) locs =
      Some (Some (length pre + length bs), fold add_locator (map plain_entry es) locs)"
    using Cons.IH [OF 1(2)] Cons.prems(2) by auto
  have fam: "su_family (me_rloc (plain_entry e)) \<noteq> FAM_OTHER 0" using w(1) wf_plain [of e] by (auto simp: wf_entry_def)
  show ?case
  proof (intro exI [of _ "b1 @ bs"] conjI allI)
    show "rpk' = rpk\<lparr>rp_buf := rp_buf rpk @ b1 @ bs\<rparr>" using bs(1) b1(2) by simp
  next
    fix pre post keep locs
    show "locators_len (pre @ (b1 @ bs) @ post) (length (e # es)) (length pre) = Some (Some (length (b1 @ bs)))"
      using plain_locator_reads(2) [OF b1(1) w(1), of pre "bs @ post"] bs(2) [of "pre @ b1" post] by simp
    show "record_locators keep (pre @ (b1 @ bs) @ post) (length (e # es)) (length pre) locs =
      Some (Some (length pre + length (b1 @ bs)), fold add_locator (map plain_entry (e # es)) locs)"
      using plain_locator_reads(1) [OF b1(1) w(1), of keep pre "bs @ post"]
        bs(3) [of keep "pre @ b1" post "add_locator (plain_entry e) locs"] fam by (simp add: add.assoc)
  qed
qed simp

definition loc_key :: "map_entry \<Rightarrow> af \<times> byte list" where
  "loc_key e = (su_family (me_rloc e),
     if su_family (me_rloc e) = FAM_INET then sin_addr (me_rloc e) else sin6_addr (me_rloc e))"

lemma plain_addr:
  "wf_su s \<Longrightarrow> su_family s = FAM_INET \<Longrightarrow> sin_addr (plain_su s) = sin_addr s"
  "wf_su s \<Longrightarrow> su_family s = FAM_INET6 \<Longrightarrow> sin6_addr (plain_su s) = sin6_addr s"
  by (simp_all add: plain_su_def sin_addr_def sin6_addr_def set_sin_addr_def set_sin6_addr_def wf_su_def zero_sockunion_def)

lemma entrycmp_plain:
  assumes "wf_entry e" and "wf_entry f"
  shows "entrycmp (Some (plain_entry e)) (Some (plain_entry f)) = 0 \<longleftrightarrow> loc_key e = loc_key f"
proof -
  have w: "wf_su (me_rloc e)" "wf_su (me_rloc f)" using assms by (simp_all add: wf_entry_def)
  have f: "su_family (plain_su (me_rloc e)) = su_family (me_rloc e)" "su_family (plain_su (me_rloc f)) = su_family (me_rloc f)"
    using wf_plain [OF assms(1)] wf_plain [OF assms(2)] by (simp_all add: plain_entry_def)
  have "su_family (me_rloc e) \<in> {FAM_INET, FAM_INET6}" using assms(1) by (simp add: wf_entry_def)
  then show ?thesis
    using f plain_addr [OF w(1)] plain_addr [OF w(2)] memcmp_eq_0 length_sin_addr [OF w(1)] length_sin_addr [OF w(2)]
    by (auto simp: entrycmp_def plain_entry_def addrcmp_def loc_key_def)
qed

lemma add_locator_new:
  "\<forall>n\<in>set locs. entrycmp (Some e) (Some n) \<noteq> 0 \<Longrightarrow> add_locator e locs = locs @ [e]"
  by (induction locs) auto

lemma fold_add_locator:
  assumes "\<forall>e\<in>set es. wf_entry e" and "distinct (map loc_key es)"
  shows "fold add_locator (map plain_entry es) [] = map plain_entry es"
  using assms
proof (induction es rule: rev_induct)
  case (snoc e es)
  have "\<forall>n\<in>set (map plain_entry es). entrycmp (Some (plain_entry e)) (Some n) \<noteq> 0"
  proof
    fix n
    assume "n \<in> set (map plain_entry es)"
    then obtain f where f: "f \<in> set es" "n = plain_entry f" by auto
    then have "loc_key e \<noteq> loc_key f" using snoc.prems(2) by (auto simp: image_iff)
    then show "entrycmp (Some (plain_entry e)) (Some n) \<noteq> 0" using entrycmp_plain [of e f] snoc.prems(1) f by simp
  qed
  then show ?case using snoc by (simp add: add_locator_new)
qed simp

section \<open>Records\<close>

lemma le_version_read: "ucast (word_cat (put_field 0 4 (ucast (drop_bit 8 v)) (put_field 4 4 0 0)) (ucast v :: byte) :: u16) = (v :: 12 word)"
proof (rule bit_word_eqI)
  fix n :: nat
  assume "n < LENGTH(12)"
  then show "bit (ucast (word_cat (put_field 0 4 (ucast (drop_bit 8 v)) (put_field 4 4 0 0)) (ucast v :: byte) :: u16) :: 12 word) n = bit v n"
    by (auto simp: bit_simps put_field_def)
qed

lemma record_reads:
  fixes f :: byte
  assumes "prefix_address p = Some a" and "wf_padded (family p) (addr p)"
    and "rec = net32 ttl @ [lcount, prefixlen p, f, 0] @ le_version v 0 @ a"
  shows "\<exists>r. read_reply_record (rec @ post) 0 = Some r \<and> rr_ttl r = ttl \<and> rr_locator_count r = lcount \<and>
    rr_act r = get_field 5 3 f \<and> rr_a r = ucast (get_field 4 1 f) \<and> rr_version r = v \<and>
    record_eid (rec @ post) 0 r = Some (Some p) \<and> get_reply_record_size (rec @ post) 0 = Some (length rec)"
proof -
  let ?m = "[lcount, prefixlen p, f, 0]"
  let ?b = "rec @ post"
  have b: "?b = net32 ttl @ ?m @ le_version v 0 @ a @ post" using assms(3) by simp
  have lv: "length (le_version v 0) = 2" by (simp add: le_version_def)
  have 1: "rd32be ?b 0 = Some ttl" unfolding b by simp
  have 2: "rd8 ?b 4 = Some lcount" "rd8 ?b 5 = Some (prefixlen p)" "rd8 ?b 6 = Some f"
    using rd8_at [of "net32 ttl" "?m @ le_version v 0 @ a @ post" 0] rd8_at [of "net32 ttl" "?m @ le_version v 0 @ a @ post" 1]
      rd8_at [of "net32 ttl" "?m @ le_version v 0 @ a @ post" 2] unfolding b by (simp_all add: numeral_2_eq_2)
  have 3: "\<exists>w. rd16le ?b 8 = Some w \<and> ucast w = v"
    using rd16le_at [of "net32 ttl @ ?m" "le_version v 0 @ a @ post" 0] le_version_read [of v] unfolding b
    by (simp add: le_version_def rd16le_def)
  have at: "rd16be ?b 10 = rd16be (a @ post) 0" "rdn ?b 12 n = rdn (a @ post) 2 n" for n
    using rd16be_at [of "net32 ttl @ ?m @ le_version v 0" "a @ post" 0] rdn_at [of "net32 ttl @ ?m @ le_version v 0" "a @ post" 2]
      lv unfolding b by simp_all
  from assms(2) show ?thesis
  proof (cases rule: wf_padded_cases)
    case (v4 ad)
    then have a: "a = net16 LISP_AFI_IP @ ad" using assms(1) by (simp add: prefix_address_def)
    have "rdn (a @ post) 2 4 = Some ad" using rdn_at [of "net16 LISP_AFI_IP" "ad @ post" 0 4] v4 a by simp
    moreover have "length rec = 16" using assms(3) a v4 lv by simp
    moreover have "p = \<lparr>family = FAM_INET, prefixlen = prefixlen p, addr = ad @ replicate 12 0\<rparr>" using v4 by simp
    ultimately show ?thesis using 1 2 3 at a
      by (auto simp: read_reply_record_def record_eid_def get_reply_record_size_def)
  next
    case v6
    then have a: "a = net16 LISP_AFI_IPV6 @ addr p" using assms(1) by (simp add: prefix_address_def)
    have "rdn (a @ post) 2 16 = Some (addr p)" using rdn_at [of "net16 LISP_AFI_IPV6" "addr p @ post" 0 16] v6 a by simp
    moreover have "length rec = 28" using assms(3) a v6 lv by simp
    moreover have "p = \<lparr>family = FAM_INET6, prefixlen = prefixlen p, addr = addr p\<rparr>" using v6 by simp
    ultimately show ?thesis using 1 2 3 at a
      by (auto simp: read_reply_record_def record_eid_def get_reply_record_size_def afi_defs)
  qed
qed

lemma add_record_shape:
  assumes "udp_register_add_record rpk p ttl lcount version A act = Some rpk'"
  obtains pre a f where "prefix_address p = Some a" "length pre = length (rp_buf rpk)" "get_field 4 1 f = take_bit 1 A"
    "rp_buf rpk' = pre @ net32 ttl @ [lcount, prefixlen p, f, 0] @ le_version (version_field version) 0 @ a"
proof -
  let ?f = "put_field 4 1 A (if lcount = 0 then put_field 5 3 act 0 else 0)"
  from assms obtain probe a where a: "prefix_address p = Some a" and
    e: "emit (net32 ttl @ [lcount, prefixlen p, ?f, 0] @ le_version (version_field version) 0 @ a)
      (if probe then poke 0 (put_field 3 1 1) (poke 3 (\<lambda>c. c + 1) rpk) else poke 3 (\<lambda>c. c + 1) rpk) = Some rpk'"
    unfolding udp_register_add_record_def udp_reply_add_record_def Let_def by (auto simp: Option.bind_eq_Some_conv)
  let ?r = "if probe then poke 0 (put_field 3 1 1) (poke 3 (\<lambda>c. c + 1) rpk) else poke 3 (\<lambda>c. c + 1) rpk"
  have "length (rp_buf ?r) = length (rp_buf rpk)" by (simp add: poke_def)
  moreover have "rp_buf rpk' = rp_buf ?r @ net32 ttl @ [lcount, prefixlen p, ?f, 0] @ le_version (version_field version) 0 @ a"
    using e by (auto simp: emit_def split: if_splits)
  moreover have "get_field 4 1 ?f = take_bit 1 A" by (rule put_field_low) simp
  ultimately show thesis using that a by blast
qed

lemma nodes_heap: "tree_at h par x t \<Longrightarrow> (a, q, i) \<in> set (nodes t) \<Longrightarrow> \<exists>n. h a = Some n \<and> n_p n = q"
  by (induction t arbitrary: par x) auto

lemma ms_get_set_table:
  "ms_get_db_table db p = Some T \<Longrightarrow> ms_get_db_table (set_table (family p) T' db) p = Some T'"
  "ms_get_db_table db p = Some T \<Longrightarrow> set_table (family p) T1 (set_table (family p) T' db) = set_table (family p) T1 db"
  by (auto simp: ms_get_db_table_def set_table_def split: af.splits)

text \<open>Writing the data and the flags of a node keeps the table in order.\<close>

fun set_data :: "ref \<Rightarrow> 'i option \<Rightarrow> 'i rtree \<Rightarrow> 'i rtree" where
  "set_data x d Tip = Tip"
| "set_data x d (Nd a q i k l r) = Nd a q (if a = x then d else i) k (set_data x d l) (set_data x d r)"

lemma nodes_set_data: "nodes (set_data x d t) = map (\<lambda>(a, q, i). (a, q, if a = x then d else i)) (nodes t)"
  by (induction t) auto

lemma set_data_same [simp]:
  "refs (set_data x d t) = refs t" "all_family f (set_data x d t) = all_family f t" "short (set_data x d t) = short t"
proof -
  show "refs (set_data x d t) = refs t" by (induction t) auto
  show "all_family f (set_data x d t) = all_family f t" "short (set_data x d t) = short t"
    by (simp_all add: all_family_def short_def nodes_set_data split_beta)
qed

lemma trie_set_data [simp]: "trie (set_data x d t) = trie t"
  by (induction t) (simp_all add: nodes_set_data split_beta)

lemma tree_at_set_data:
  "tree_at h par y t \<Longrightarrow> h x = Some n \<Longrightarrow> tree_at (h(x \<mapsto> n\<lparr>flags := f, info := d\<rparr>)) par y (set_data x d t)"
  by (induction t arbitrary: par y) auto

lemma table_at_set_data:
  "table_at T t \<Longrightarrow> heap T x = Some n \<Longrightarrow> table_at (put x (n\<lparr>flags := f, info := d\<rparr>) T) (set_data x d t)"
  by (simp add: table_at_def put_def tree_at_set_data)

lemma table_at_set_info:
  "table_at T t \<Longrightarrow> heap T x = Some n \<Longrightarrow> table_at (put x (n\<lparr>info := d\<rparr>) T) (set_data x d t)"
  using table_at_set_data [where n = n and f = "flags n"] by (cases n) simp

lemma generic_mapping_new_ok:
  assumes "ms_get_db_table db p = Some T" and "table_at T t" and "all_family (family p) t" and "wf_fam p"
  shows "\<exists>rn T' n t'. generic_mapping_new p db = Some (rn, set_table (family p) T' db) \<and> heap T' rn = Some n \<and>
    info n = Some [] \<and> plen (n_p n) = plen p \<and> pkey (n_p n) = pkey p \<and> table_at T' t' \<and> all_family (family p) t' \<and>
    (short t \<longrightarrow> plen p < 128 \<longrightarrow> short t') \<and> rn \<in> set (refs t')"
proof -
  from db_node_get_ok [OF assms(2-4)] obtain a T1 t' q i where g: "db_node_get p T = Some (a, T1)" "table_at T1 t'"
    "(a, q, i) \<in> set (nodes t')" "plen q = plen p" "pkey q = pkey p" "all_family (family p) t'"
    "short t \<longrightarrow> plen p < 128 \<longrightarrow> short t'" by blast
  then obtain n where n: "heap T1 a = Some n" "n_p n = q" using nodes_heap by (metis table_at_def)
  have "a \<in> set (refs t')" using g(3) by (force simp: refs_nodes)
  then show ?thesis
    by (intro exI [of _ a] exI [of _ "put a (n\<lparr>info := Some []\<rparr>) T1"] exI [of _ "n\<lparr>info := Some []\<rparr>"]
        exI [of _ "set_data a (Some []) t'"])
      (use assms(1) g n table_at_set_info [OF g(2) n(1)] in
        \<open>simp add: generic_mapping_new_def db_node_set_info_def put_def\<close>)
qed

text \<open>What a piece of a message carries for its readers, wherever it stands.\<close>

definition carries :: "byte list \<Rightarrow> cp_prefix \<Rightarrow> map_reply_record \<Rightarrow> map_entry list \<Rightarrow> bool" where
  "carries rec p r es \<longleftrightarrow> unat (rr_locator_count r) = length es \<and> (\<exists>hl \<le> length rec. \<forall>q.
     read_reply_record (q @ rec) (length q) = Some r \<and> record_eid (q @ rec) (length q) r = Some (Some p) \<and>
     get_reply_record_size (q @ rec) (length q) = Some hl \<and>
     locators_len (q @ rec) (length es) (length q + hl) = Some (Some (length rec - hl)) \<and>
     (\<forall>keep. record_locators keep (q @ rec) (length es) (length q + hl) [] =
        Some (Some (length q + length rec), map plain_entry es)))"

lemma written_carries:
  assumes "udp_register_add_record rpk p ttl (of_nat (length es)) version A act = Some rpk1"
    and "register_add_locators cf rpk1 es = Some rpk2" and "length es < 256" and "\<forall>e\<in>set es. wf_entry e"
    and "distinct (map loc_key es)" and "wf_padded (family p) (addr p)"
  obtains pre rec r where "rp_buf rpk2 = pre @ rec" "length pre = length (rp_buf rpk)" "carries rec p r es"
    "rr_ttl r = ttl" "rr_a r = ucast A" "rr_version r = version_field version"
proof -
  obtain pre a f where r1: "prefix_address p = Some a" "length pre = length (rp_buf rpk)" "get_field 4 1 f = take_bit 1 A"
    "rp_buf rpk1 = pre @ net32 ttl @ [of_nat (length es), prefixlen p, f, 0] @ le_version (version_field version) 0 @ a"
    using add_record_shape [OF assms(1)] .
  define rec where "rec = net32 ttl @ [of_nat (length es), prefixlen p, f, 0] @ le_version (version_field version) 0 @ a"
  obtain bs where b: "rpk2 = rpk1\<lparr>rp_buf := rp_buf rpk1 @ bs\<rparr>" "\<forall>pre post keep locs.
    locators_len (pre @ bs @ post) (length es) (length pre) = Some (Some (length bs)) \<and>
    record_locators keep (pre @ bs @ post) (length es) (length pre) locs =
      Some (Some (length pre + length bs), fold add_locator (map plain_entry es) locs)"
    using register_add_locators_reads [OF assms(2,4)] by blast
  have ll: "locators_len (q @ rec @ bs) (length es) (length q + length rec) = Some (Some (length bs))" for q
    using b(2) [rule_format, of "q @ rec" "[]"] by simp
  have rl: "record_locators keep (q @ rec @ bs) (length es) (length q + length rec) [] =
      Some (Some (length q + length (rec @ bs)), map plain_entry es)" for keep q
    using b(2) [rule_format, of "q @ rec" "[]" keep "[]"] fold_add_locator [OF assms(4,5)] by (simp add: add.assoc)
  from record_reads [OF r1(1) assms(6) rec_def, of bs] obtain r where
    r: "read_reply_record (rec @ bs) 0 = Some r" "rr_ttl r = ttl" "rr_locator_count r = of_nat (length es)"
      "rr_a r = ucast (get_field 4 1 f)" "rr_version r = version_field version" "record_eid (rec @ bs) 0 r = Some (Some p)"
      "get_reply_record_size (rec @ bs) 0 = Some (length rec)" by blast
  have "carries (rec @ bs) p r es"
    unfolding carries_def
    using r ll rl read_reply_record_at [of _ "rec @ bs" 0] record_eid_at [of _ "rec @ bs" 0 r]
      get_reply_record_size_at [of _ "rec @ bs" 0] assms(3)
    by (intro conjI exI [of _ "length rec"] allI) (simp_all add: unat_of_nat)
  moreover have "rr_a r = ucast A" using r(4) r1(3) ucast_take_bit by simp
  moreover have "rp_buf rpk2 = pre @ rec @ bs" using b(1) r1(4) rec_def by simp
  ultimately show thesis using that r1(2) r(2,5) by blast
qed

lemma carries_stored:
  assumes "carries rec p r es" and "wf_fam p"
    and "ms_get_db_table db p = Some T" and "table_at T t" and "all_family (family p) t"
  shows "\<exists>db' T' rn n f t'. ms_process_register_record cf (q @ rec) (length q) proxy db = Some (length rec, db') \<and>
    ms_get_db_table db' p = Some T' \<and> heap T' rn = Some n \<and> plen (n_p n) = plen p \<and> pkey (n_p n) = pkey p \<and>
    info n = Some (map plain_entry es) \<and> flags n = Some f \<and> mf_ttl f = rr_ttl r \<and> mf_A f = rr_a r \<and>
    mf_version f = rr_version r \<and> mf_proxy f = proxy \<and> mf_range f AND ROLE_MAPP \<noteq> 0 \<and> mf_referral f = 0 \<and>
    table_at T' t' \<and> all_family (family p) t' \<and> (short t \<longrightarrow> plen p < 128 \<longrightarrow> short t') \<and> rn \<in> set (refs t')"
proof -
  obtain hl where lc: "unat (rr_locator_count r) = length es" and
    rd: "read_reply_record (q @ rec) (length q) = Some r" "record_eid (q @ rec) (length q) r = Some (Some p)"
      "get_reply_record_size (q @ rec) (length q) = Some hl"
      "\<And>keep. record_locators keep (q @ rec) (length es) (length q + hl) [] =
        Some (Some (length q + length rec), map plain_entry es)"
    using assms(1) unfolding carries_def by blast
  from generic_mapping_new_ok [OF assms(3-5,2)] obtain rn T1 n t1 where
    g: "generic_mapping_new p db = Some (rn, set_table (family p) T1 db)" "heap T1 rn = Some n" "info n = Some []"
      "plen (n_p n) = plen p" "pkey (n_p n) = pkey p" "table_at T1 t1" "all_family (family p) t1"
      "short t \<longrightarrow> plen p < 128 \<longrightarrow> short t1" "rn \<in> set (refs t1)" by blast
  obtain fns rsvd where fr: "(case flags n of None \<Rightarrow> (0, None) | Some f \<Rightarrow> (mf_range f, mf_rsvd f)) = (fns, rsvd)"
    by (cases "case flags n of None \<Rightarrow> (0, None) | Some f \<Rightarrow> (mf_range f, mf_rsvd f)")
  let ?f = "(record_flags r proxy)\<lparr>mf_range := ROLE_MAPP OR fns, mf_rsvd := rsvd\<rparr>"
  let ?n = "n\<lparr>flags := Some ?f\<rparr>"
  let ?T = "put rn (?n\<lparr>info := Some (map plain_entry es)\<rparr>) (put rn ?n T1)"
  have sf: "generic_mapping_set_flags rn (record_flags r proxy) T1 = Some (put rn ?n T1)"
    using g(2) fr by (simp add: generic_mapping_set_flags_def record_flags_def)
  have "ms_process_register_record cf (q @ rec) (length q) proxy db = Some (length rec, set_table (family p) ?T db)"
    using rd g sf lc ms_get_set_table [OF assms(3)]
    by (simp add: ms_process_register_record_def put_def [of rn ?n])
  moreover have "(ROLE_MAPP OR fns) AND ROLE_MAPP \<noteq> 0"
  proof -
    have "bit ((ROLE_MAPP OR fns) AND ROLE_MAPP) 0" by (simp add: bit_simps ROLE_MAPP_def bit_0)
    then show ?thesis by auto
  qed
  moreover have "heap ?T rn = Some (?n\<lparr>info := Some (map plain_entry es)\<rparr>)" by (simp add: put_def)
  moreover have "table_at ?T (set_data rn (Some (map plain_entry es)) t1)"
  proof -
    have "?T = put rn (n\<lparr>flags := Some ?f, info := Some (map plain_entry es)\<rparr>) T1" by (simp add: put_def)
    then show ?thesis using table_at_set_data [OF g(6,2)] by simp
  qed
  ultimately show ?thesis
    by (intro exI [of _ "set_table (family p) ?T db"] exI [of _ ?T] exI [of _ rn]
        exI [of _ "?n\<lparr>info := Some (map plain_entry es)\<rparr>"] exI [of _ ?f]
        exI [of _ "set_data rn (Some (map plain_entry es)) t1"])
      (use g ms_get_set_table [OF assms(3)] in \<open>simp add: record_flags_def\<close>)
qed

text \<open>C29: A record and its locators, written by \<open>udp_register_add_record\<close> and
  \<open>udp_register_add_locator\<close>, are stored by \<open>_ms_process_register_record\<close> as what they were: the node of
  the EID prefix gets the same locators in the same order, the TTL and the A bit, and the reader stops
  where the writer did. The map version is what \<open>version_field\<close> leaves of it.\<close>

theorem register_record_roundtrip:
  assumes "udp_register_add_record rpk p ttl (of_nat (length es)) version A act = Some rpk1"
    and "register_add_locators cf rpk1 es = Some rpk2" and "length es < 256" and "\<forall>e\<in>set es. wf_entry e"
    and "distinct (map loc_key es)" and "wf_padded (family p) (addr p)" and "wf_fam p"
    and "ms_get_db_table db p = Some T" and "table_at T t" and "all_family (family p) t"
  shows "\<exists>db' T' rn n f. ms_process_register_record cf' (rp_buf rpk2) (length (rp_buf rpk)) proxy db =
      Some (length (rp_buf rpk2) - length (rp_buf rpk), db') \<and>
    ms_get_db_table db' p = Some T' \<and> heap T' rn = Some n \<and> plen (n_p n) = plen p \<and> pkey (n_p n) = pkey p \<and>
    info n = Some (map plain_entry es) \<and> flags n = Some f \<and> mf_ttl f = ttl \<and> mf_A f = ucast A \<and>
    mf_version f = version_field version \<and> mf_proxy f = proxy \<and> mf_range f AND ROLE_MAPP \<noteq> 0"
proof -
  obtain pre rec r where w: "rp_buf rpk2 = pre @ rec" "length pre = length (rp_buf rpk)" "carries rec p r es"
    "rr_ttl r = ttl" "rr_a r = ucast A" "rr_version r = version_field version"
    using written_carries [OF assms(1-6)] .
  from carries_stored [OF w(3) assms(7-10), of cf' pre proxy] w show ?thesis by (simp, blast)
qed

definition reg_tree :: "map_entry list rtree" where
  "reg_tree = Nd 0 (n_p reg_root) None 1 (Nd 1 (n_p reg_net) None 1 Tip Tip) Tip"

lemma reg_table_at: "table_at (lisp_db4 (ms_db reg_state)) reg_tree" "all_family FAM_INET reg_tree"
  by (simp_all add: table_at_def reg_state_def reg_tree_def reg_root_def reg_net_def
    wf_cp_def plen_def extends_def pkey_def all_family_def byte_bits_def)

definition reg_entry :: map_entry where
  "reg_entry = \<lparr>me_rloc = sample_su, me_priority = 1, me_weight = 100, me_m_priority = 255, me_m_weight = 0,
     me_L = 1, me_p = 0, me_r = 1, me_pe = None\<rparr>"

theorem register_record_roundtrip_witness:
  "\<exists>rpk (rpk2 :: pk_rpl_entry) n db' T' rn. udp_register_add None = Some rpk \<and>
    ms_process_register_record \<lparr>cf_fncs = FNC_MS, cf_lisp_te = False\<rparr> (rp_buf rpk2) 36 1 (ms_db reg_state) = Some (28, db') \<and>
    ms_get_db_table db' reg_eid = Some T' \<and> heap T' rn = Some n \<and> info n = Some [plain_entry reg_entry]"
proof -
  let ?cf = "\<lparr>cf_fncs = FNC_XTR, cf_lisp_te = False\<rparr>"
  obtain rpk where rpk: "udp_register_add None = Some rpk" "length (rp_buf rpk) = 36" "rp_req rpk = None"
    by (simp add: udp_register_add_def emit_def udp_new_reply_entry_def PKBUFLEN_def)
  have "\<exists>rpk1. udp_register_add_record rpk reg_eid 60 (of_nat (length [reg_entry])) 0 1 0 = Some rpk1 \<and> length (rp_buf rpk1) = 52"
    using rpk(2,3) by (simp add: udp_register_add_record_def udp_reply_add_record_def request_probes_def poke_def
      prefix_address_def reg_eid_def emit_def PKBUFLEN_def le_version_def)
  then obtain rpk1 where 1: "udp_register_add_record rpk reg_eid 60 (of_nat (length [reg_entry])) 0 1 0 = Some rpk1"
    "length (rp_buf rpk1) = 52" by blast
  then have "\<exists>rpk2. register_add_locators ?cf rpk1 [reg_entry] = Some rpk2 \<and> length (rp_buf rpk2) = 64"
    by (simp add: udp_register_add_locator_def reg_entry_def plain_locator_def locator_address_def sample_su_def
      emit_def PKBUFLEN_def sin_addr_def)
  then obtain rpk2 where 2: "register_add_locators ?cf rpk1 [reg_entry] = Some rpk2" "length (rp_buf rpk2) = 64" by blast
  have w: "wf_entry reg_entry" "wf_padded (family reg_eid) (addr reg_eid)" "wf_fam reg_eid" "family reg_eid = FAM_INET"
    "ms_get_db_table (ms_db reg_state) reg_eid = Some (lisp_db4 (ms_db reg_state))"
    by (simp_all add: wf_entry_def reg_entry_def wf_su_def sample_su_def wf_padded_def reg_eid_def wf_fam_def wf_cp_def
      plen_def ms_get_db_table_def)
  have h: "length [reg_entry] < 256" "\<forall>e\<in>set [reg_entry]. wf_entry e" "distinct (map loc_key [reg_entry])"
    "all_family (family reg_eid) reg_tree" using w(1,4) reg_table_at(2) by simp_all
  have l: "length (rp_buf rpk2) - 36 = 28" "map plain_entry [reg_entry] = [plain_entry reg_entry]"
    using 2(2) by simp_all
  from register_record_roundtrip [OF 1(1) 2(1) h(1-3) w(2,3,5) reg_table_at(1) h(4),
      of "\<lparr>cf_fncs = FNC_MS, cf_lisp_te = False\<rparr>" 1]
  show ?thesis unfolding rpk(2) l using rpk(1) by blast
qed

end
