(* ===== verification/Cp_Resolver.thy ===== *)
theory Cp_Resolver
  imports Cp_Mapping
begin

text \<open>
  The table of pending lookups of the map resolver (\<open>udp.c\<close>): a Map-Request that the resolver cannot
  answer waits in a slot with the locators it can still be sent to, until a Map-Referral ends it.
  \<open>None\<close> is a null pointer, an index outside the table or a use of a list that was freed. The sockets
  of a lookup, the clock and the success of \<open>sendtov\<close> are arguments. The threads that share the table
  take no lock; the functions are modelled as if each ran alone.
\<close>

section \<open>State\<close>

type_synonym timespec = "int \<times> int"

definition MAX_LOOKUPS :: nat where "MAX_LOOKUPS = 100"
definition MR_MAX_LOOKUP :: int where "MR_MAX_LOOKUP = 10"
definition MAP_REPLY_TIMEOUT :: int where "MAP_REPLY_TIMEOUT = 2"

text \<open>\<open>lk_rlocs\<close> is \<open>None\<close> before the first use of the slot and after the list was destroyed, \<open>lk_pke\<close> when
  there is no request or it was freed.\<close>

record lookup =
  lk_last_eid :: "cp_prefix option"
  lk_rx :: int
  lk_rx6 :: int
  lk_nonce0 :: u32
  lk_nonce1 :: u32
  lk_start :: timespec
  lk_count :: int
  lk_active :: u64
  lk_rlocs :: "map_entry clist option"
  lk_rloc_cur :: "lref option"
  lk_orgi_pkg :: "byte list"
  lk_pke :: "pk_req_entry option"

text \<open>The table, the length of the poll table, and \<open>ipq_no\<close>, the number of requests in the process.\<close>

record mr_state =
  mr_lookups :: "lookup list"
  mr_nfds :: u64
  ipq_no :: u32

definition empty_lookup :: lookup where
  "empty_lookup = \<lparr>lk_last_eid = None, lk_rx = 0, lk_rx6 = 0, lk_nonce0 = 0, lk_nonce1 = 0, lk_start = (0, 0),
     lk_count = 0, lk_active = 0, lk_rlocs = None, lk_rloc_cur = None, lk_orgi_pkg = [], lk_pke = None\<rparr>"

definition get_lookup :: "mr_state \<Rightarrow> nat \<Rightarrow> lookup option" where
  "get_lookup st i = (if i < length (mr_lookups st) then Some (mr_lookups st ! i) else None)"

definition set_lookup :: "nat \<Rightarrow> lookup \<Rightarrow> mr_state \<Rightarrow> mr_state" where
  "set_lookup i k st = st\<lparr>mr_lookups := (mr_lookups st)[i := k]\<rparr>"

definition udp_free_pk :: "pk_req_entry option \<Rightarrow> mr_state \<Rightarrow> int \<times> mr_state" where
  "udp_free_pk pke st = (case pke of None \<Rightarrow> (-1, st) | Some _ \<Rightarrow> (0, st\<lparr>ipq_no := ipq_no st - 1\<rparr>))"

section \<open>Sending the request of a lookup\<close>

text \<open>The cell the lookup points to is removed, and the pointer goes to the one before it.\<close>

definition pop_rloc :: "lref \<Rightarrow> map_entry clist \<Rightarrow> (lref option \<times> map_entry clist) option" where
  "pop_rloc lr l =
     (if l_count l \<ge> 1 then do {
        c \<leftarrow> cells l lr;
        let next = (if l_count l > 1 then e_prev c else None);
        r \<leftarrow> (case lr of Ent r \<Rightarrow> Some r | _ \<Rightarrow> None);
        (_, _, l) \<leftarrow> list_remove False (Some r) l;
        Some (next, l) }
      else Some (None, l))"

definition send_mr_ddt :: "bool \<Rightarrow> nat \<Rightarrow> mr_state \<Rightarrow> (int \<times> datagram option \<times> mr_state) option" where
  "send_mr_ddt sent idx st = do {
     k \<leftarrow> get_lookup st idx;
     if lk_active k = 0 then Some (1, None, st)
     else
       (case lk_rloc_cur k of
          None \<Rightarrow> Some (1, None, set_lookup idx (k\<lparr>lk_count := MR_MAX_LOOKUP + 1\<rparr>) st)
        | Some cur \<Rightarrow> do {
            l \<leftarrow> lk_rlocs k;
            c \<leftarrow> cells l cur;
            e \<leftarrow> e_data c;
            let counted = k\<lparr>lk_count := lk_count k + 1\<rparr>;
            case su_family (me_rloc e) of
              FAM_OTHER _ \<Rightarrow> Some (1, None, set_lookup idx counted st)
            | _ \<Rightarrow>
                let d = (sk_set_port (me_rloc e) LISP_CP_PORT, lk_orgi_pkg k)
                in if \<not> sent then Some (0, Some d, set_lookup idx counted st)
                   else do {
                     (cur, l) \<leftarrow> pop_rloc cur l;
                     Some (1, Some d, set_lookup idx (counted\<lparr>lk_rlocs := Some l, lk_rloc_cur := cur\<rparr>) st) } }) }"

section \<open>A new lookup\<close>

definition free_slot :: "lookup list \<Rightarrow> nat" where
  "free_slot ks = length (takeWhile (\<lambda>k. lk_active k \<noteq> 0) ks)"

fun copy_rlocs :: "map_entry list \<Rightarrow> map_entry clist \<Rightarrow> map_entry clist option" where
  "copy_rlocs [] l = Some l"
| "copy_rlocs (e # es) l = do { (_, l) \<leftarrow> list_insert None (Some e) l; copy_rlocs es l }"

definition last_rloc :: "map_entry clist \<Rightarrow> lref option option" where
  "last_rloc l = (if l_count l > 0 then do { t \<leftarrow> cells l Tail; Some (e_prev t) } else Some None)"

text \<open>The bytes from the control header of the request on, marked as sent by a DDT client.\<close>

definition saved_package :: "pk_req_entry \<Rightarrow> byte list option" where
  "saved_package pke = do {
     lh \<leftarrow> pk_lh pke;
     b \<leftarrow> rdn (pk_buf pke) lh (unat (pk_buf_len pke) - lh);
     f \<leftarrow> rd8 b 0;
     wr 0 [put_field 2 1 1 f] b }"

text \<open>\<open>socks\<close> are the two sockets; it is \<open>None\<close> when the loops that bind them to a port do not end.\<close>

definition mr_new_lookup ::
  "bool \<Rightarrow> (int \<times> int) option \<Rightarrow> timespec \<Rightarrow> pk_req_entry \<Rightarrow> map_entry list option \<Rightarrow> mr_state \<Rightarrow>
   (datagram option \<times> mr_state) option" where
  "mr_new_lookup sent socks now pke rn_info st =
     (let i = free_slot (mr_lookups st)
      in if i \<ge> MAX_LOOKUPS then Some (None, st)
         else do {
           (r, r6) \<leftarrow> socks;
           k \<leftarrow> get_lookup st i;
           pkg \<leftarrow> saved_package pke;
           let (nonce0, nonce1) = udp_request_get_nonce pke;
           l \<leftarrow> copy_rlocs (case rn_info of None \<Rightarrow> [] | Some es \<Rightarrow> es) list_init;
           cur \<leftarrow> last_rloc l;
           let k = k\<lparr>lk_last_eid := None, lk_rx := r, lk_rx6 := r6, lk_count := 0, lk_active := 1,
             lk_pke := Some pke, lk_orgi_pkg := pkg, lk_nonce0 := nonce0, lk_nonce1 := nonce1,
             lk_rlocs := Some l, lk_rloc_cur := cur, lk_start := now\<rparr>;
           (_, out, st) \<leftarrow> send_mr_ddt sent i (set_lookup i k st);
           Some (out, st) })"

section \<open>A request that waits\<close>

text \<open>The first active lookup with the nonce.\<close>

definition same_nonce :: "u32 \<Rightarrow> u32 \<Rightarrow> lookup \<Rightarrow> bool" where
  "same_nonce nonce0 nonce1 k \<longleftrightarrow> lk_active k \<noteq> 0 \<and> nonce0 = lk_nonce0 k \<and> nonce1 = lk_nonce1 k"

definition pending_request ::
  "bool \<Rightarrow> (int \<times> int) option \<Rightarrow> timespec \<Rightarrow> pk_req_entry \<Rightarrow> map_entry list option \<Rightarrow> mr_state \<Rightarrow>
   (int \<times> datagram option \<times> mr_state) option" where
  "pending_request sent socks now pke rn_info st =
     (let (nonce0, nonce1) = udp_request_get_nonce pke;
          l = length (takeWhile (\<lambda>k. \<not> same_nonce nonce0 nonce1 k) (mr_lookups st))
      in if l < length (mr_lookups st) then do {
           k \<leftarrow> get_lookup st l;
           (_, out, st) \<leftarrow> send_mr_ddt sent l (set_lookup l (k\<lparr>lk_count := 0\<rparr>) st);
           Some (0, out, st) }
         else do {
           (out, st) \<leftarrow> mr_new_lookup sent socks now pke rn_info st;
           Some (0, out, st) })"

section \<open>The end of a lookup\<close>

definition free_lookups :: "nat \<Rightarrow> mr_state \<Rightarrow> mr_state option" where
  "free_lookups idx st = do {
     k \<leftarrow> get_lookup st idx;
     if lk_active k \<noteq> 0 then do {
       let (_, st) = udp_free_pk (lk_pke k) st;
       l \<leftarrow> lk_rlocs k;
       _ \<leftarrow> list_destroy True l;
       Some (set_lookup idx (k\<lparr>lk_pke := None, lk_last_eid := None, lk_rlocs := None, lk_active := 0\<rparr>) st) }
     else Some st }"

end
