(* ===== verification/Cp_Referral.thy ===== *)
theory Cp_Referral
  imports Cp_Resolver
begin

text \<open>
  Map-Referrals at the map resolver (\<open>udp.c\<close>): what a record adds to the database, what it does to
  the lookup that waits for it, and the loop that resends requests and ends lookups. A message is the
  bytes that were received; reading past them is \<open>None\<close>. \<open>best_rloc\<close>, which no caller reads, is left
  out, as is logging.
\<close>

section \<open>The records of a referral\<close>

record map_referral_record =
  fr_ttl :: u32
  fr_count :: byte
  fr_mask_len :: byte
  fr_i :: byte
  fr_act :: byte
  fr_version :: "12 word"
  fr_lcaf_afi :: u16
  fr_lcaf_type :: byte
  fr_iid :: u32
  fr_afi :: u16

definition read_referral_record :: "byte list \<Rightarrow> nat \<Rightarrow> map_referral_record option" where
  "read_referral_record b i = do {
     ttl \<leftarrow> rd32be b i;
     c \<leftarrow> rd8 b (i + 4);
     ml \<leftarrow> rd8 b (i + 5);
     f \<leftarrow> rd8 b (i + 6);
     v \<leftarrow> rd16le b (i + 8);
     la \<leftarrow> rd16be b (i + 10);
     lt \<leftarrow> rd8 b (i + 14);
     iid \<leftarrow> rd32le b (i + 18);
     afi \<leftarrow> rd16be b (i + 22);
     Some \<lparr>fr_ttl = ttl, fr_count = c, fr_mask_len = ml, fr_i = get_field 3 1 f, fr_act = get_field 5 3 f,
       fr_version = ucast v, fr_lcaf_afi = la, fr_lcaf_type = lt, fr_iid = iid, fr_afi = afi\<rparr> }"

definition LISP_REFERRAL_NODE_REFERRAL :: byte where "LISP_REFERRAL_NODE_REFERRAL = 0"
definition LISP_REFERRAL_MS_REFERRAL :: byte where "LISP_REFERRAL_MS_REFERRAL = 1"
definition LISP_REFERRAL_MS_ACK :: byte where "LISP_REFERRAL_MS_ACK = 2"
definition LISP_REFERRAL_MS_NOT_REGISTERED :: byte where "LISP_REFERRAL_MS_NOT_REGISTERED = 3"
definition LISP_REFERRAL_DELEGATION_HOLE :: byte where "LISP_REFERRAL_DELEGATION_HOLE = 4"
definition LISP_REFERRAL_NOT_AUTHORITATIVE :: byte where "LISP_REFERRAL_NOT_AUTHORITATIVE = 5"

lemmas referral_defs = LISP_REFERRAL_NODE_REFERRAL_def LISP_REFERRAL_MS_REFERRAL_def
  LISP_REFERRAL_MS_ACK_def LISP_REFERRAL_MS_NOT_REGISTERED_def LISP_REFERRAL_DELEGATION_HOLE_def
  LISP_REFERRAL_NOT_AUTHORITATIVE_def

definition referral_eid :: "byte list \<Rightarrow> nat \<Rightarrow> map_referral_record \<Rightarrow> cp_prefix option option" where
  "referral_eid b i r =
     (if fr_afi r = LISP_AFI_IP then do {
        a \<leftarrow> rdn b (i + 24) 4;
        Some (Some \<lparr>family = FAM_INET, prefixlen = fr_mask_len r, addr = a @ replicate 12 0\<rparr>) }
      else if fr_afi r = LISP_AFI_IPV6 then do {
        a \<leftarrow> rdn b (i + 24) 16;
        Some (Some \<lparr>family = FAM_INET6, prefixlen = fr_mask_len r, addr = a\<rparr>) }
      else Some None)"

definition referral_flags :: "map_referral_record \<Rightarrow> mapping_flags" where
  "referral_flags r =
     \<lparr>mf_iid = fr_iid r, mf_act = ucast (fr_act r), mf_A = 0, mf_version = fr_version r, mf_proxy = 0,
      mf_ttl = fr_ttl r, mf_referral = ucast (fr_act r + 1), mf_incomplete = ucast (fr_i r), mf_range = 0,
      mf_active = 0, mf_rsvd = None\<rparr>"

text \<open>A locator and its size; \<open>Some None\<close> is a family the code does not know.\<close>

definition referral_locator :: "byte list \<Rightarrow> nat \<Rightarrow> (map_entry \<times> nat) option option" where
  "referral_locator b i = do {
     r \<leftarrow> read_reply_locator b i;
     let entry = (\<lambda>s. \<lparr>me_rloc = s, me_priority = rl_priority r, me_weight = rl_weight r,
       me_m_priority = rl_m_priority r, me_m_weight = rl_m_weight r, me_L = 0, me_p = 0, me_r = rl_R r,
       me_pe = None\<rparr>);
     if rl_afi r = LISP_AFI_IP then do {
       a \<leftarrow> rdn b (i + 8) 4;
       Some (Some (entry (set_sin_addr a (zero_sockunion\<lparr>su_family := FAM_INET\<rparr>)), 12)) }
     else if rl_afi r = LISP_AFI_IPV6 then do {
       a \<leftarrow> rdn b (i + 8) 16;
       Some (Some (entry (set_sin6_addr a (zero_sockunion\<lparr>su_family := FAM_INET6\<rparr>)), 24)) }
     else Some None }"

text \<open>The end of the locators, or \<open>None\<close> when one was of an unknown family.\<close>

fun referral_locators ::
  "byte list \<Rightarrow> nat \<Rightarrow> nat \<Rightarrow> ref option \<Rightarrow> db_nodes \<Rightarrow> (nat option \<times> db_nodes) option" where
  "referral_locators b 0 i mapping T = Some (Some i, T)"
| "referral_locators b (Suc lcount) i mapping T = do {
     l \<leftarrow> referral_locator b i;
     case l of
       None \<Rightarrow> Some (None, T)
     | Some (e, len) \<Rightarrow> do {
         T \<leftarrow> (case mapping of None \<Rightarrow> Some T | Some m \<Rightarrow> generic_mapping_add_rloc m e T);
         referral_locators b lcount (i + len) mapping T } }"

definition referral_mapping ::
  "map_referral_record \<Rightarrow> cp_prefix \<Rightarrow> map_entry list lisp_db \<Rightarrow> (ref option \<times> map_entry list lisp_db) option" where
  "referral_mapping r eid db =
     (if fr_i r \<noteq> 0 then Some (None, db)
      else do {
        (m, db) \<leftarrow> generic_mapping_new eid db;
        T \<leftarrow> ms_get_db_table db eid;
        T \<leftarrow> generic_mapping_set_flags m (referral_flags r) T;
        T \<leftarrow> ms_node_update_type m ROLE_MAPP T;
        Some (Some m, set_table (family eid) T db) })"

text \<open>The size of the record (a \<open>size_t\<close>, where \<open>-1\<close> stands for its greatest value, which moves a pointer
  back by one), and the node of the mapping with the family of its table.\<close>

definition process_referral_record ::
  "byte list \<Rightarrow> nat \<Rightarrow> map_entry list lisp_db \<Rightarrow> (int \<times> (af \<times> ref) option \<times> map_entry list lisp_db) option" where
  "process_referral_record b i db = do {
     r \<leftarrow> read_referral_record b i;
     if fr_lcaf_afi r = LCAF_AFI \<and> fr_lcaf_type r \<noteq> 2 then Some (0, None, db)
     else do {
       e \<leftarrow> referral_eid b i r;
       case e of
         None \<Rightarrow> Some (-1, None, db)
       | Some eid \<Rightarrow> do {
           (mapping, db) \<leftarrow> referral_mapping r eid db;
           rhdr_len \<leftarrow> get_referral_record_size b i;
           T \<leftarrow> ms_get_db_table db eid;
           (stop, T) \<leftarrow> referral_locators b (unat (fr_count r)) (i + rhdr_len) mapping T;
           let db = set_table (family eid) T db;
           Some (case stop of
                   None \<Rightarrow> -1
                 | Some j \<Rightarrow> if fr_act r = LISP_REFERRAL_MS_ACK then 0 else int j - int i,
                 map_option (Pair (family eid)) mapping, db) } } }"

section \<open>What a referral does to a lookup\<close>

text \<open>A referral to a longer prefix than the last one becomes the last one, and the locators of its
  mapping are put behind those the lookup still has.\<close>

definition node_info :: "(af \<times> ref) option \<Rightarrow> map_entry list lisp_db \<Rightarrow> map_entry list option option" where
  "node_info node db =
     (case node of
        None \<Rightarrow> Some None
      | Some (f, a) \<Rightarrow> do { T \<leftarrow> db_table_of f db; db_node_get_info (Some a) T })"

definition referral_update ::
  "nat \<Rightarrow> cp_prefix \<Rightarrow> (af \<times> ref) option \<Rightarrow> map_entry list lisp_db \<Rightarrow> mr_state \<Rightarrow> mr_state option" where
  "referral_update idx pf node db st = do {
     k \<leftarrow> get_lookup st idx;
     if (case lk_last_eid k of None \<Rightarrow> True | Some q \<Rightarrow> prefixlen q < prefixlen pf) then do {
       let k = k\<lparr>lk_last_eid := Some pf\<rparr>;
       lr \<leftarrow> node_info node db;
       case lr of
         None \<Rightarrow> Some (set_lookup idx k st)
       | Some es \<Rightarrow> do {
           l \<leftarrow> lk_rlocs k;
           l \<leftarrow> copy_rlocs es l;
           cur \<leftarrow> last_rloc l;
           Some (set_lookup idx (k\<lparr>lk_rlocs := Some l, lk_rloc_cur := cur\<rparr>) st) } }
     else Some st }"

text \<open>Whether the prefix leads away from the last one.\<close>

definition referral_loops :: "nat \<Rightarrow> cp_prefix \<Rightarrow> mr_state \<Rightarrow> bool option" where
  "referral_loops idx pf st = do {
     k \<leftarrow> get_lookup st idx;
     case lk_last_eid k of None \<Rightarrow> Some False | Some q \<Rightarrow> map_option Not (prefix_match q pf) }"

definition next_record :: "nat \<Rightarrow> int \<Rightarrow> nat" where
  "next_record i rlen = nat (int i + rlen)"

text \<open>The value of \<open>AF_INET\<close> and \<open>AF_INET6\<close> on Linux.\<close>

definition raw_family :: "byte \<Rightarrow> af" where
  "raw_family v = (if v = 2 then FAM_INET else if v = 10 then FAM_INET6 else FAM_OTHER v)"

text \<open>\<open>read_mr_ddt\<close> stores the AFI as it is on the wire into the family, which has eight bits.\<close>

definition read_prefix :: "byte list \<Rightarrow> nat \<Rightarrow> cp_prefix \<Rightarrow> cp_prefix option" where
  "read_prefix b i pf = do {
     w \<leftarrow> rd16le b (i + 22);
     ml \<leftarrow> rd8 b (i + 5);
     let f = raw_family (ucast w);
     a \<leftarrow> rdn b (i + 24) (SIN_LEN f);
     Some (pf\<lparr>family := f, prefixlen := ml, addr := a @ drop (SIN_LEN f) (addr pf)\<rparr>) }"

fun read_records ::
  "bool \<Rightarrow> byte list \<Rightarrow> nat \<Rightarrow> nat \<Rightarrow> int \<Rightarrow> cp_prefix \<Rightarrow> nat \<Rightarrow> mr_state \<Rightarrow> map_entry list lisp_db \<Rightarrow>
   (datagram option \<times> mr_state \<times> map_entry list lisp_db) option" where
  "read_records sent b 0 i rlen pf idx st db = do {
     (_, out, st) \<leftarrow> send_mr_ddt sent idx st;
     Some (out, st, db) }"
| "read_records sent b (Suc rcount) i rlen pf idx st db = do {
     pf \<leftarrow> read_prefix b i pf;
     act \<leftarrow> map_option (get_field 5 3) (rd8 b (i + 6));
     if act = LISP_REFERRAL_MS_ACK then do {
       (_, _, db) \<leftarrow> process_referral_record b i db;
       st \<leftarrow> free_lookups idx st;
       Some (None, st, db) }
     else if act = LISP_REFERRAL_NODE_REFERRAL \<or> act = LISP_REFERRAL_MS_REFERRAL then do {
       (rlen, node, db) \<leftarrow> process_referral_record b i db;
       loops \<leftarrow> referral_loops idx pf st;
       if loops then do { st \<leftarrow> free_lookups idx st; Some (None, st, db) }
       else do {
         st \<leftarrow> referral_update idx pf node db st;
         read_records sent b rcount (next_record i rlen) rlen pf idx st db } }
     else if act = LISP_REFERRAL_MS_NOT_REGISTERED then do {
       k \<leftarrow> get_lookup st idx;
       _ \<leftarrow> lk_rlocs k;
       read_records sent b rcount (next_record i rlen) rlen pf idx st db }
     else if act = LISP_REFERRAL_DELEGATION_HOLE \<or> act = LISP_REFERRAL_NOT_AUTHORITATIVE then do {
       st \<leftarrow> free_lookups idx st;
       Some (None, st, db) }
     else read_records sent b rcount (next_record i rlen) rlen pf idx st db }"

text \<open>A datagram for one of the two sockets of a lookup; \<open>None\<close> is a failing \<open>recvfrom\<close>.\<close>

definition read_mr_ddt ::
  "bool \<Rightarrow> byte list option \<Rightarrow> nat \<Rightarrow> mr_state \<Rightarrow> map_entry list lisp_db \<Rightarrow>
   (datagram option \<times> mr_state \<times> map_entry list lisp_db) option" where
  "read_mr_ddt sent received idx st db = do {
     k \<leftarrow> get_lookup st idx;
     case received of
       None \<Rightarrow> Some (None, st, db)
     | Some b \<Rightarrow> do {
         t \<leftarrow> lisp_type b 0;
         if t \<noteq> LISP_TYPE_MAP_REFERRAL then Some (None, st, db)
         else do {
           nonce0 \<leftarrow> rd32be b 4;
           nonce1 \<leftarrow> rd32be b 8;
           if lk_nonce0 k \<noteq> nonce0 \<or> lk_nonce1 k \<noteq> nonce1 then Some (None, st, db)
           else do {
             rcount \<leftarrow> rd8 b 3;
             if rcount = 0 then Some (None, st, db)
             else read_records sent b (unat rcount) 12 0 zero_prefix idx st db } } } }"

section \<open>A referral on the socket of the control plane\<close>

text \<open>\<open>get_mr_ddt\<close> reads the family of the prefix and answers the request of a lookup for which there is
  a hole with a negative Map-Reply; \<open>Some None\<close> is a family it does not know.\<close>

definition get_prefix :: "byte list \<Rightarrow> nat \<Rightarrow> cp_prefix \<Rightarrow> cp_prefix option option" where
  "get_prefix b i pf = do {
     afi \<leftarrow> rd16be b (i + 22);
     let f = (if afi = LISP_AFI_IP then Some FAM_INET else if afi = LISP_AFI_IPV6 then Some FAM_INET6 else None);
     case f of
       None \<Rightarrow> Some None
     | Some f \<Rightarrow> do {
         ml \<leftarrow> rd8 b (i + 5);
         a \<leftarrow> rdn b (i + 24) (SIN_LEN f);
         Some (Some (pf\<lparr>family := f, prefixlen := ml, addr := a @ drop (SIN_LEN f) (addr pf)\<rparr>)) } }"

definition hole_reply :: "bool \<Rightarrow> nat \<Rightarrow> cp_prefix \<Rightarrow> mr_state \<Rightarrow> datagram option option" where
  "hole_reply sent idx pf st = do {
     k \<leftarrow> get_lookup st idx;
     pke \<leftarrow> lk_pke k;
     rpk \<leftarrow> udp_reply_add pke;
     rpk \<leftarrow> udp_reply_add_record rpk pf 15 0 0 0 1;
     (_, out) \<leftarrow> udp_reply_terminate sent rpk;
     Some out }"

fun get_records ::
  "bool \<Rightarrow> byte list \<Rightarrow> nat \<Rightarrow> nat \<Rightarrow> int \<Rightarrow> cp_prefix \<Rightarrow> nat \<Rightarrow> mr_state \<Rightarrow> map_entry list lisp_db \<Rightarrow>
   (datagram option \<times> mr_state \<times> map_entry list lisp_db) option" where
  "get_records sent b 0 i rlen pf idx st db = do {
     (_, out, st) \<leftarrow> send_mr_ddt sent idx st;
     Some (out, st, db) }"
| "get_records sent b (Suc rcount) i rlen pf idx st db = do {
     p \<leftarrow> get_prefix b i pf;
     case p of
       None \<Rightarrow> Some (None, st, db)
     | Some pf \<Rightarrow> do {
         act \<leftarrow> map_option (get_field 5 3) (rd8 b (i + 6));
         if act = LISP_REFERRAL_MS_ACK then do {
           (_, _, db) \<leftarrow> process_referral_record b i db;
           st \<leftarrow> free_lookups idx st;
           Some (None, st, db) }
         else if act = LISP_REFERRAL_NODE_REFERRAL \<or> act = LISP_REFERRAL_MS_REFERRAL then do {
           (rlen, node, db) \<leftarrow> process_referral_record b i db;
           loops \<leftarrow> referral_loops idx pf st;
           if loops then do { st \<leftarrow> free_lookups idx st; Some (None, st, db) }
           else do {
             st \<leftarrow> referral_update idx pf node db st;
             get_records sent b rcount (next_record i rlen) rlen pf idx st db } }
         else if act = LISP_REFERRAL_MS_NOT_REGISTERED then do {
           k \<leftarrow> get_lookup st idx;
           _ \<leftarrow> lk_rlocs k;
           get_records sent b rcount (next_record i rlen) rlen pf idx st db }
         else if act = LISP_REFERRAL_DELEGATION_HOLE then do {
           out \<leftarrow> hole_reply sent idx pf st;
           st \<leftarrow> free_lookups idx st;
           Some (out, st, db) }
         else if act = LISP_REFERRAL_NOT_AUTHORITATIVE then do {
           st \<leftarrow> free_lookups idx st;
           Some (None, st, db) }
         else get_records sent b rcount (next_record i rlen) rlen pf idx st db } }"

text \<open>The index of the lookup with the nonce, below the length of the poll table less one, computed as
  an \<open>unsigned long\<close>; lookups that ended keep their nonce.\<close>

function find_nonce :: "mr_state \<Rightarrow> u32 \<Rightarrow> u32 \<Rightarrow> nat \<Rightarrow> nat option" where
  "find_nonce st nonce0 nonce1 idx =
     (if idx < unat (mr_nfds st - 1) then
        (if idx < length (mr_lookups st) then
           (let k = mr_lookups st ! idx
            in if lk_nonce0 k = nonce0 \<and> lk_nonce1 k = nonce1 then Some idx
               else find_nonce st nonce0 nonce1 (Suc idx))
         else None)
      else Some idx)"
  by auto
termination by (relation "measure (\<lambda>(st, _, _, idx). length (mr_lookups st) - idx)") auto

declare find_nonce.simps [simp del]

definition get_mr_ddt ::
  "bool \<Rightarrow> pk_req_entry \<Rightarrow> mr_state \<Rightarrow> map_entry list lisp_db \<Rightarrow>
   (datagram option \<times> mr_state \<times> map_entry list lisp_db) option" where
  "get_mr_ddt sent pke st db = do {
     let b = pk_buf pke;
     t \<leftarrow> lisp_type b 0;
     if t \<noteq> LISP_TYPE_MAP_REFERRAL then Some (None, st, db)
     else do {
       nonce0 \<leftarrow> rd32be b 4;
       nonce1 \<leftarrow> rd32be b 8;
       idx \<leftarrow> find_nonce st nonce0 nonce1 0;
       if idx \<ge> unat (mr_nfds st - 1) then Some (None, st, db)
       else do {
         rcount \<leftarrow> rd8 b 3;
         if rcount = 0 then Some (None, st, db)
         else get_records sent b (unat rcount) 12 0 zero_prefix idx st db } } }"

section \<open>The event loop\<close>

text \<open>\<open>res = x - y\<close>; \<open>y\<close> is changed as well, and the result tells whether the difference is negative.\<close>

definition timespec_subtract :: "timespec \<Rightarrow> timespec \<Rightarrow> timespec \<times> timespec \<times> bool" where
  "timespec_subtract x y =
     (let (xs, xn) = x; (ys, yn) = y;
          (ys, yn) = (if xn < yn then let sec = (yn - xn) div 1000000000 + 1 in (ys + sec, yn - 1000000000 * sec)
                      else (ys, yn));
          (ys, yn) = (if xn - yn > 1000000000 then let sec = (xn - yn) div 1000000000 in (ys - sec, yn + 1000000000 * sec)
                      else (ys, yn))
      in ((xs - ys, xn - yn), (ys, yn), xs < ys))"

text \<open>The tables of \<open>poll\<close> have \<open>MAX_LOOKUPS + 1\<close> cells. Of the two cells of a lookup only the first gets
  a descriptor: that of the IPv6 socket goes to another table, which is not polled.\<close>

record poll_state =
  ps_fds :: "int list"
  ps_idx :: "nat list"
  ps_n :: nat
  ps_timeout :: int
  ps_to :: timespec
  ps_now :: timespec
  ps_l :: "nat option"

definition poll_put :: "'a \<Rightarrow> nat \<Rightarrow> 'a list \<Rightarrow> 'a list option" where
  "poll_put x j xs = (if j < length xs then Some (xs[j := x]) else None)"

definition poll_lookup :: "nat \<Rightarrow> lookup \<Rightarrow> poll_state \<Rightarrow> poll_state option" where
  "poll_lookup i k ps = do {
     let deadline = (fst (lk_start k) + lk_count k * MAP_REPLY_TIMEOUT, snd (lk_start k));
     let (delta, now, _) = timespec_subtract deadline (ps_now ps);
     let delta = (if fst delta < 0 then (MAP_REPLY_TIMEOUT div 2, 0) else delta);
     fds \<leftarrow> poll_put (lk_rx k) (ps_n ps) (ps_fds ps);
     idx \<leftarrow> poll_put i (ps_n ps) (ps_idx ps);
     idx \<leftarrow> poll_put i (ps_n ps + 1) idx;
     let (_, to, less) = timespec_subtract delta (ps_to ps);
     let ps = ps\<lparr>ps_fds := fds, ps_idx := idx, ps_n := ps_n ps + 2, ps_now := now, ps_to := to\<rparr>;
     Some (if less then ps\<lparr>ps_to := delta, ps_timeout := fst delta * 1000 + snd delta div 1000000, ps_l := Some i\<rparr>
           else ps) }"

fun scan_lookups :: "nat list \<Rightarrow> poll_state \<Rightarrow> mr_state \<Rightarrow> (poll_state \<times> mr_state) option" where
  "scan_lookups [] ps st = Some (ps, st)"
| "scan_lookups (i # is) ps st = do {
     k \<leftarrow> get_lookup st i;
     if lk_active k = 0 then scan_lookups is ps st
     else if lk_count k > MR_MAX_LOOKUP then do { st \<leftarrow> free_lookups i st; scan_lookups is ps st }
     else do { ps \<leftarrow> poll_lookup i k ps; scan_lookups is ps st } }"

text \<open>The sockets that are ready, from the last one down.\<close>

fun read_ready ::
  "(nat \<Rightarrow> bool) \<Rightarrow> (nat \<Rightarrow> bool \<Rightarrow> byte list option) \<Rightarrow> (nat \<Rightarrow> bool) \<Rightarrow> nat list \<Rightarrow> nat \<Rightarrow> mr_state \<Rightarrow>
   map_entry list lisp_db \<Rightarrow> (datagram list \<times> mr_state \<times> map_entry list lisp_db) option" where
  "read_ready sent recv revents idxs 0 st db = Some ([], st, db)"
| "read_ready sent recv revents idxs (Suc j) st db =
     (if revents j then do {
        let idx = idxs ! j;
        (out, st, db) \<leftarrow> read_mr_ddt (sent idx) (recv idx (even j)) idx st db;
        (outs, st, db) \<leftarrow> read_ready sent recv revents idxs j st db;
        Some ((case out of None \<Rightarrow> [] | Some d \<Rightarrow> [d]) @ outs, st, db) }
      else read_ready sent recv revents idxs j st db)"

text \<open>One turn: \<open>poll\<close> gets the descriptors and the timeout and answers with its result and the cells
  that are ready.\<close>

definition mr_event_turn ::
  "(nat \<Rightarrow> bool) \<Rightarrow> (nat \<Rightarrow> bool \<Rightarrow> byte list option) \<Rightarrow> (int list \<Rightarrow> int \<Rightarrow> int \<times> (nat \<Rightarrow> bool)) \<Rightarrow> timespec \<Rightarrow>
   int list \<Rightarrow> nat list \<Rightarrow> mr_state \<Rightarrow> map_entry list lisp_db \<Rightarrow>
   (datagram list \<times> poll_state \<times> mr_state \<times> map_entry list lisp_db) option" where
  "mr_event_turn sent recv poll now fds idxs st db = do {
     (ps, st) \<leftarrow> scan_lookups [0..<MAX_LOOKUPS]
       \<lparr>ps_fds = fds, ps_idx = idxs, ps_n = 0, ps_timeout = MAP_REPLY_TIMEOUT * 1000, ps_to = (MAP_REPLY_TIMEOUT, 0),
        ps_now = now, ps_l = None\<rparr> st;
     let st = st\<lparr>mr_nfds := of_nat (ps_n ps)\<rparr>;
     let (e, revents) = poll (take (ps_n ps) (ps_fds ps)) (ps_timeout ps);
     if e < 0 then Some ([], ps, st, db)
     else do {
       (out, st) \<leftarrow> (case ps_l ps of
           Some l \<Rightarrow> if e = 0 then map_option (\<lambda>(_, out, st). (out, st)) (send_mr_ddt (sent l) l st) else Some (None, st)
         | None \<Rightarrow> Some (None, st));
       (outs, st, db) \<leftarrow> read_ready sent recv revents (ps_idx ps) (ps_n ps) st db;
       Some ((case out of None \<Rightarrow> [] | Some d \<Rightarrow> [d]) @ outs, ps, st, db) } }"

end
