(* ===== verification/Cp_Server.thy ===== *)
theory Cp_Server
  imports Cp_Referral
begin

text \<open>
  \<open>server.c\<close>: what the control plane answers to a Map-Request. The functions call the operations of
  \<open>udp_fct\<close>, the only table of functions they are given. An answer is a return value with the
  datagrams that were sent. \<open>None\<close> is a null pointer, a failed assertion, an access outside a prefix
  or the use of a prefix that was never set. The results of \<open>sendtov\<close>, the sockets of a new lookup and
  the clock are the fields of an environment.
\<close>

section \<open>Environment and answers\<close>

record cp_env =
  ev_reply :: bool
  ev_referral :: bool
  ev_forward :: bool
  ev_ddt :: bool
  ev_raw_socket :: bool
  ev_raw :: bool
  ev_socks :: "(int \<times> int) option"
  ev_now :: timespec

definition option_list :: "'a option \<Rightarrow> 'a list" where
  "option_list x = (case x of None \<Rightarrow> [] | Some a \<Rightarrow> [a])"

section \<open>Map-Referrals\<close>

fun referral_add_locators :: "pk_rpl_entry \<Rightarrow> map_entry list \<Rightarrow> pk_rpl_entry option" where
  "referral_add_locators rpk [] = Some rpk"
| "referral_add_locators rpk (e # es) = do { rpk \<leftarrow> udp_referral_add_locator rpk e; referral_add_locators rpk es }"

definition request_referral ::
  "cp_env \<Rightarrow> pk_req_entry \<Rightarrow> map_entry list db_node \<Rightarrow> (int \<times> datagram list) option" where
  "request_referral ev pke rn = do {
     rpk \<leftarrow> udp_referral_add pke;
     l \<leftarrow> info rn;
     mflags \<leftarrow> flags rn;
     let act = (if mf_referral mflags = 0 \<and> ms_node_is_type rn ROLE_MAPP then LISP_REFERRAL_MS_ACK
                else ucast (mf_referral mflags) - 1);
     rpk \<leftarrow> udp_referral_add_record rpk (mf_iid mflags) (n_p rn) (mf_ttl mflags) (of_nat (length l))
       (ucast (mf_version mflags)) (ucast (mf_A mflags)) act (ucast (mf_incomplete mflags)) 0;
     rpk \<leftarrow> referral_add_locators rpk l;
     (_, out) \<leftarrow> udp_referral_terminate (ev_referral ev) rpk;
     Some (1, option_list out) }"

definition request_referral_negative ::
  "cp_env \<Rightarrow> pk_req_entry \<Rightarrow> map_entry list db_node \<Rightarrow> cp_prefix \<Rightarrow> u32 \<Rightarrow> byte \<Rightarrow> byte \<Rightarrow> byte \<Rightarrow> byte \<Rightarrow>
   (int \<times> datagram list) option" where
  "request_referral_negative ev pke rn pf ttl A act version incomplete = do {
     rpk \<leftarrow> udp_referral_add pke;
     let iid = (case flags rn of None \<Rightarrow> 0 | Some f \<Rightarrow> mf_iid f);
     rpk \<leftarrow> udp_referral_add_record rpk iid pf ttl 0 (ucast version) A act incomplete 0;
     (_, out) \<leftarrow> udp_referral_terminate (ev_referral ev) rpk;
     Some (1, option_list out) }"

section \<open>Map-Replies\<close>

text \<open>The prefix of the answer is that of the node whenever there is one, not the one the caller passes.\<close>

definition request_reply_negative ::
  "cp_env \<Rightarrow> pk_req_entry \<Rightarrow> map_entry list db_node option \<Rightarrow> cp_prefix option \<Rightarrow> u32 \<Rightarrow> byte \<Rightarrow> byte \<Rightarrow> byte \<Rightarrow>
   (int \<times> datagram list) option" where
  "request_reply_negative ev pke rn pf ttl A act version = do {
     rpk \<leftarrow> udp_reply_add pke;
     case (rn, pf) of
       (None, None) \<Rightarrow> Some (0, [])
     | _ \<Rightarrow> do {
         let p = (case rn of Some n \<Rightarrow> n_p n | None \<Rightarrow> the pf);
         rpk \<leftarrow> udp_reply_add_record rpk p ttl 0 (ucast version) A act;
         (_, out) \<leftarrow> udp_reply_terminate (ev_reply ev) rpk;
         Some (1, option_list out) } }"

definition entry_paths :: "map_entry \<Rightarrow> nat" where
  "entry_paths e = (case me_pe e of None \<Rightarrow> 1 | Some pes \<Rightarrow> length pes)"

definition reply_count :: "cp_config \<Rightarrow> map_entry list \<Rightarrow> byte" where
  "reply_count cf l =
     (if has_fnc cf (FNC_XTR OR FNC_MS) \<and> cf_lisp_te cf then of_nat (sum_list (map entry_paths l))
      else of_nat (length l))"

fun reply_add_locators :: "cp_config \<Rightarrow> pk_rpl_entry \<Rightarrow> map_entry list \<Rightarrow> pk_rpl_entry option" where
  "reply_add_locators cf rpk [] = Some rpk"
| "reply_add_locators cf rpk (e # es) = do {
     rpk \<leftarrow> udp_reply_add_locator cf rpk e;
     reply_add_locators cf rpk es }"

text \<open>One record for each node of the subtree that has a mapping, all with the flags of the first.\<close>

fun reply_records ::
  "cp_config \<Rightarrow> mapping_flags \<Rightarrow> (ref \<Rightarrow> map_entry list db_node option) \<Rightarrow> pk_rpl_entry \<Rightarrow> ref option list \<Rightarrow>
   pk_rpl_entry option" where
  "reply_records cf mflags h rpk [] = Some rpk"
| "reply_records cf mflags h rpk (d # ds) = do {
     a \<leftarrow> d;
     rn \<leftarrow> h a;
     l \<leftarrow> info rn;
     rpk \<leftarrow> udp_reply_add_record rpk (n_p rn) (mf_ttl mflags) (reply_count cf l) (ucast (mf_version mflags))
       (ucast (mf_A mflags)) (ucast (mf_act mflags));
     rpk \<leftarrow> reply_add_locators cf rpk l;
     reply_records cf mflags h rpk ds }"

definition request_reply ::
  "cp_config \<Rightarrow> cp_env \<Rightarrow> pk_req_entry \<Rightarrow> ref \<Rightarrow> db_nodes \<Rightarrow> (int \<times> datagram list) option" where
  "request_reply cf ev pke node T = do {
     rn \<leftarrow> heap T node;
     rpk \<leftarrow> udp_reply_add pke;
     (_, overlap) \<leftarrow> ms_get_tree (ROLE_MAPP OR ROLE_MAPP_XTR) (heap T) (Some node) list_init;
     items \<leftarrow> list_items overlap;
     rpk \<leftarrow> (if items = [] then Some rpk
             else do { mflags \<leftarrow> flags rn; reply_records cf mflags (heap T) rpk items });
     (_, out) \<leftarrow> udp_reply_terminate (ev_reply ev) rpk;
     Some (1, option_list out) }"

section \<open>The prefix of a negative answer\<close>

definition upbit :: "byte list" where
  "upbit = [0x1, 0x80, 0x40, 0x20, 0x10, 0x8, 0x4, 0x2]"

text \<open>Whether the bit differs. A child that is no longer followed is \<open>None\<close>; an index past the 16 bytes of
  a prefix is undefined.\<close>

definition keep_child ::
  "byte list \<Rightarrow> nat \<Rightarrow> (byte list \<times> nat) option \<Rightarrow> nat \<Rightarrow> (byte list \<times> nat) option option" where
  "keep_child res ri child c =
     (case child of
        None \<Rightarrow> Some None
      | Some (a, i) \<Rightarrow> do {
          x \<leftarrow> rd8 res ri;
          y \<leftarrow> rd8 a i;
          Some (if upbit ! (c mod 8) AND (x XOR y) \<noteq> 0 then None else Some (a, i)) })"

function hole_loop ::
  "byte list \<Rightarrow> nat \<Rightarrow> nat \<Rightarrow> nat \<Rightarrow> nat \<Rightarrow> (byte list \<times> nat) option \<Rightarrow> (byte list \<times> nat) option \<Rightarrow> nat option" where
  "hole_loop res start stop c ri left right =
     (if stop < c then Some c
      else do {
        left \<leftarrow> keep_child res ri left c;
        right \<leftarrow> keep_child res ri right c;
        if left = None \<and> right = None then Some c
        else
          let k = (if start + 1 < c \<and> c mod 8 = 0 then 1 else 0);
              next = map_option (\<lambda>(a, i). (a, i + k))
          in hole_loop res start stop (Suc c) (ri + k) (next left) (next right) })"
  by auto
termination by (relation "measure (\<lambda>(_, _, stop, c, _). Suc stop - c)") auto

declare hole_loop.simps [simp del]

text \<open>The address cut after \<open>c\<close> bits, as the code cuts it; the number of bytes to clear is computed in
  eight bits.\<close>

definition cut_address :: "cp_prefix \<Rightarrow> nat \<Rightarrow> byte list option" where
  "cut_address pf c = do {
     x \<leftarrow> rd8 (addr pf) (c div 8);
     let a = (addr pf)[c div 8 := x AND maskbit ! (c mod 8)];
     let d = int (plen pf) - int c;
     let n = unat (of_int (if d < 0 then - ((- d) div 8) else d div 8) :: byte);
     if c div 8 + 1 + n \<le> length a \<or> n = 0
     then Some (take (c div 8 + 1) a @ replicate n 0 @ drop (c div 8 + 1 + n) a)
     else None }"

definition get_hole_eid ::
  "(ref \<Rightarrow> 'i db_node option) \<Rightarrow> 'i db_node \<Rightarrow> cp_prefix \<Rightarrow> (int \<times> cp_prefix) option" where
  "get_hole_eid h nega pf = do {
     let start = plen (n_p nega);
     left \<leftarrow> (case l_left nega of None \<Rightarrow> Some None | Some a \<Rightarrow> map_option Some (h a));
     right \<leftarrow> (case l_right nega of None \<Rightarrow> Some None | Some a \<Rightarrow> map_option Some (h a));
     let child = (\<lambda>n. (addr (n_p n), start div 8));
     let longer = (\<lambda>n e. case n of None \<Rightarrow> e | Some m \<Rightarrow> max e (plen (n_p m)));
     let stop = longer right (longer left (plen pf));
     if left = None \<and> right = None then Some (0, n_p nega)
     else do {
       c \<leftarrow> hole_loop (addr pf) start stop (start + 1) 0 (map_option child left) (map_option child right);
       if c \<le> stop then do {
         a \<leftarrow> cut_address pf c;
         Some (0, pf\<lparr>addr := a, prefixlen := of_nat c\<rparr>) }
       else Some (1, pf) } }"

section \<open>DDT requests\<close>

text \<open>The locator with the least priority; among equals a coin decides whether the later one replaces the
  earlier. A priority of 255 is never chosen.\<close>

fun best_rloc :: "bool \<Rightarrow> map_entry list \<Rightarrow> byte \<Rightarrow> sockunion option \<Rightarrow> byte \<times> sockunion option" where
  "best_rloc brloc [] best rloc = (best, rloc)"
| "best_rloc brloc (e # es) best rloc =
     (if me_priority e \<le> best \<and> (me_priority e < best \<or> brloc)
      then best_rloc brloc es (me_priority e) (Some (me_rloc e))
      else best_rloc brloc es best rloc)"

definition MTTL :: byte where "MTTL = 10"

text \<open>\<open>_request_ddt\<close>, which nothing calls. The third component tells whether the request was freed.\<close>

definition request_ddt ::
  "cp_env \<Rightarrow> bool \<Rightarrow> pk_req_entry \<Rightarrow> map_entry list db_node \<Rightarrow> (int \<times> datagram list \<times> bool \<times> pk_req_entry) option" where
  "request_ddt ev brloc pke rn = do {
     let (r, eid) = udp_request_get_eid pke zero_prefix;
     _ \<leftarrow> (if r = 1 then Some () else None);
     case (case family eid of
         FAM_INET \<Rightarrow> Some (set_sin_addr (take 4 (addr eid)) (zero_sockunion\<lparr>su_family := FAM_INET\<rparr>))
       | FAM_INET6 \<Rightarrow> Some (set_sin6_addr (addr eid) (zero_sockunion\<lparr>su_family := FAM_INET6\<rparr>))
       | FAM_OTHER _ \<Rightarrow> None) of
       None \<Rightarrow> Some (0, [], False, pke)
     | Some dst \<Rightarrow> do {
         l \<leftarrow> info rn;
         if l = [] then Some (1, [], False, pke)
         else
           (let (best, rloc) = best_rloc brloc l 0xFF None
            in if best = 0xFF then Some (0, [], False, pke)
               else do {
                 let (nonce0, nonce1) = udp_request_get_nonce pke;
                 rpk \<leftarrow> udp_request_add pke 0 1 1 0 0 0 0 0 nonce0 nonce1 (pk_ih_si pke) dst
                   (udp_request_get_port pke) eid;
                 case rpk of
                   None \<Rightarrow> Some (0, [], False, pke)
                 | Some rpk \<Rightarrow> do {
                     rloc \<leftarrow> rloc;
                     mflags \<leftarrow> flags rn;
                     let last = mf_referral mflags = 2 \<or> mf_referral mflags = 3;
                     let terminal = last \<or> MTTL < pk_hop pke;
                     let pke = (if last then pke else pke\<lparr>pk_hop := pk_hop pke + 1\<rparr>);
                     let (r, out) = udp_request_ddt_terminate (ev_ddt ev) rpk rloc;
                     Some (1, option_list out, terminal \<and> r = 1, pke) } }) } }"

section \<open>Forwarding to an ETR\<close>

text \<open>The whole message goes to port 4342 of the first locator that is reachable; the sign that a DDT client
  sent it is cleared in the packet of the request.\<close>

definition forward_to_etr ::
  "cp_env \<Rightarrow> pk_req_entry \<Rightarrow> map_entry list db_node \<Rightarrow> (int \<times> datagram list \<times> pk_req_entry) option" where
  "forward_to_etr ev pke rn = do {
     t \<leftarrow> lisp_type (pk_buf pke) 0;
     if t \<noteq> LISP_TYPE_ENCAPSULATED_CONTROL_MESSAGE then Some (0, [], pke)
     else do {
       f \<leftarrow> rd8 (pk_buf pke) 0;
       b \<leftarrow> wr 0 [put_field 2 1 0 f] (pk_buf pke);
       let pke = pke\<lparr>pk_buf := b\<rparr>;
       l \<leftarrow> info rn;
       case find (\<lambda>e. me_r e \<noteq> 0) l of
         None \<Rightarrow> Some (0, [], pke)
       | Some e \<Rightarrow> do {
           let rloc = me_rloc e;
           sin \<leftarrow> (case su_family rloc of
               FAM_INET \<Rightarrow> Some (set_sin_addr (sin_addr rloc) (zero_sockunion\<lparr>su_family := FAM_INET\<rparr>))
             | FAM_INET6 \<Rightarrow> Some (set_sin6_addr (sin6_addr rloc) (zero_sockunion\<lparr>su_family := FAM_INET6\<rparr>))
             | FAM_OTHER _ \<Rightarrow> None);
           Some (if ev_forward ev then 1 else -1, [(sk_set_port sin LISP_CP_PORT, b)], pke) } } }"

section \<open>Requests at a map server, DDT node or map resolver\<close>

text \<open>What the handlers share: the EID of the request, the table and the node of its longest match.\<close>

record cp_state =
  cs_ms :: ms_state
  cs_mr :: mr_state

definition request_eid :: "pk_req_entry \<Rightarrow> cp_prefix option" where
  "request_eid pke = (case udp_request_get_eid pke zero_prefix of (r, p) \<Rightarrow> if r = 1 then Some p else None)"

definition match_request ::
  "pk_req_entry \<Rightarrow> cp_state \<Rightarrow> (cp_prefix \<times> ref option \<times> db_nodes \<times> cp_state) option" where
  "match_request pke st = do {
     p \<leftarrow> request_eid pke;
     T \<leftarrow> ms_get_db_table (ms_db (cs_ms st)) p;
     (rn, T) \<leftarrow> db_node_match_prefix p T;
     let ms = cs_ms st;
     Some (p, rn, T, st\<lparr>cs_ms := ms\<lparr>ms_db := set_table (family p) T (ms_db ms)\<rparr>\<rparr>) }"

definition request_node :: "db_nodes \<Rightarrow> ref \<Rightarrow> (ref \<times> map_entry list db_node) option" where
  "request_node T rn = do {
     n \<leftarrow> heap T rn;
     a \<leftarrow> (if has_role n then Some rn else ms_get_target (heap T) (top T) rn);
     n \<leftarrow> heap T a;
     Some (a, n) }"

partial_function (option) climb_roles ::
  "byte \<Rightarrow> (ref \<Rightarrow> 'i db_node option) \<Rightarrow> ref option \<Rightarrow> ref \<Rightarrow> ref option" where
  "climb_roles roles h tp node =
     (if tp = Some node then Some node
      else do {
        n \<leftarrow> h node;
        if ms_node_is_type n roles then Some node
        else do { q \<leftarrow> parent n; climb_roles roles h tp q } })"

text \<open>A negative referral for the hole around the requested prefix.\<close>

definition hole_referral ::
  "cp_env \<Rightarrow> pk_req_entry \<Rightarrow> db_nodes \<Rightarrow> ref \<Rightarrow> cp_prefix \<Rightarrow> u32 \<Rightarrow> byte \<Rightarrow> byte \<Rightarrow> (int \<times> datagram list) option" where
  "hole_referral ev pke T rn p ttl A act = do {
     n \<leftarrow> heap T rn;
     (_, p) \<leftarrow> get_hole_eid (heap T) n p;
     (_, outs) \<leftarrow> request_referral_negative ev pke n p ttl A act 0 1;
     Some (1, outs) }"

definition ddt_request ::
  "cp_config \<Rightarrow> cp_env \<Rightarrow> pk_req_entry \<Rightarrow> cp_prefix \<Rightarrow> ref \<Rightarrow> db_nodes \<Rightarrow> (int \<times> datagram list \<times> pk_req_entry) option" where
  "ddt_request cf ev pke p rn T = do {
     (a, node) \<leftarrow> request_node T rn;
     if ms_node_is_type node ROLE_MAPP then
       (if \<not> ms_node_is_referral node then
          (if has_fnc cf FNC_MS then
             (if ms_node_is_proxy_reply node then do {
                (_, outs) \<leftarrow> request_reply cf ev pke a T;
                Some (1, outs, pke) }
              else do {
                (_, outs) \<leftarrow> request_referral ev pke node;
                (_, outs', pke) \<leftarrow> forward_to_etr ev pke node;
                Some (1, outs @ outs', pke) })
           else Some (0, [], pke))
        else if has_fnc cf FNC_NODE then do {
          f \<leftarrow> flags node;
          (_, outs) \<leftarrow> (if mf_A f \<noteq> 0 then request_referral ev pke node
                      else hole_referral ev pke T rn p 0 0 LISP_REFERRAL_NOT_AUTHORITATIVE);
          Some (1, outs, pke) }
        else Some (0, [], pke))
     else if has_fnc cf FNC_MS \<or> has_fnc cf FNC_NODE then do {
       a \<leftarrow> climb_roles (ROLE_EID OR ROLE_GEID OR ROLE_GREID) (heap T) (top T) a;
       node \<leftarrow> heap T a;
       if top T = Some a then do {
         (rt, outs) \<leftarrow> (if ms_node_is_type node (ROLE_GEID OR ROLE_GREID)
                       then hole_referral ev pke T rn p 15 0 LISP_REFERRAL_DELEGATION_HOLE
                       else hole_referral ev pke T rn p 0 0 LISP_REFERRAL_NOT_AUTHORITATIVE);
         Some (1, outs, pke) }
       else do {
         f \<leftarrow> flags node;
         if mf_range f = ROLE_EID \<and> has_fnc cf FNC_MS then do {
           (rt, outs) \<leftarrow> hole_referral ev pke T rn p 1 1 LISP_REFERRAL_MS_NOT_REGISTERED;
           Some (1, outs, pke) }
         else if mf_range f = ROLE_GEID \<and> has_fnc cf FNC_MS then do {
           (rt, outs) \<leftarrow> hole_referral ev pke T rn p 15 1 LISP_REFERRAL_DELEGATION_HOLE;
           Some (1, outs, pke) }
         else if mf_range f = ROLE_GREID \<and> has_fnc cf FNC_NODE then do {
           (rt, outs) \<leftarrow> hole_referral ev pke T rn p 15 0 LISP_REFERRAL_DELEGATION_HOLE;
           Some (1, outs, pke) }
         else Some (0, [], pke) } }
     else Some (0, [], pke) }"

definition wait_request ::
  "cp_env \<Rightarrow> pk_req_entry \<Rightarrow> map_entry list db_node \<Rightarrow> cp_state \<Rightarrow> (int \<times> datagram list \<times> pk_req_entry \<times> cp_state) option" where
  "wait_request ev pke node st = do {
     (_, out, mr) \<leftarrow> pending_request (ev_ddt ev) (ev_socks ev) (ev_now ev) pke (info node) (cs_mr st);
     Some (2, option_list out, pke, st\<lparr>cs_mr := mr\<rparr>) }"

definition map_request ::
  "cp_config \<Rightarrow> cp_env \<Rightarrow> pk_req_entry \<Rightarrow> cp_prefix \<Rightarrow> ref option \<Rightarrow> db_nodes \<Rightarrow> cp_state \<Rightarrow>
   (int \<times> datagram list \<times> pk_req_entry \<times> cp_state) option" where
  "map_request cf ev pke p rn T st = do {
     rn \<leftarrow> rn;
     (a, node) \<leftarrow> request_node T rn;
     if ms_node_is_type node ROLE_MAPP then
       (if \<not> ms_node_is_referral node then
          (if has_fnc cf FNC_MS then
             (if ms_node_is_proxy_reply node then do {
                (rt, outs) \<leftarrow> request_reply cf ev pke a T;
                Some (rt, outs, pke, st) }
              else do {
                (rt, outs, pke) \<leftarrow> forward_to_etr ev pke node;
                Some (rt, outs, pke, st) })
           else Some (0, [], pke, st))
        else if has_fnc cf FNC_MR then wait_request ev pke node st
        else Some (0, [], pke, st))
     else do {
       a \<leftarrow> climb_roles (ROLE_EID OR ROLE_GEID) (heap T) (top T) a;
       node \<leftarrow> heap T a;
       if has_fnc cf FNC_MS then
         (if top T = Some a then Some (0, [], pke, st)
          else do {
            n \<leftarrow> heap T rn;
            (_, p) \<leftarrow> get_hole_eid (heap T) n p;
            (_, outs) \<leftarrow> request_reply_negative ev pke (Some node) (Some p)
              (if ms_node_is_type node ROLE_EID then 60 else 900) 1 1 0;
            Some (1, outs, pke, st) })
       else if has_fnc cf FNC_MR then wait_request ev pke node st
       else Some (0, [], pke, st) } }"

definition generic_process_request ::
  "cp_config \<Rightarrow> cp_env \<Rightarrow> pk_req_entry \<Rightarrow> cp_state \<Rightarrow> (int \<times> datagram list \<times> pk_req_entry \<times> cp_state) option" where
  "generic_process_request cf ev pke st = do {
     (p, rn, T, st) \<leftarrow> match_request pke st;
     if udp_request_is_ddt pke \<noteq> 0 then
       (case rn of
          None \<Rightarrow> Some (1, [], pke, st)
        | Some rn \<Rightarrow> do { (rt, outs, pke) \<leftarrow> ddt_request cf ev pke p rn T; Some (rt, outs, pke, st) })
     else map_request cf ev pke p rn T st }"

section \<open>Requests at an xTR\<close>

definition xtr_generic_process_request ::
  "cp_config \<Rightarrow> cp_env \<Rightarrow> pk_req_entry \<Rightarrow> cp_state \<Rightarrow> (int \<times> datagram list \<times> cp_state) option" where
  "xtr_generic_process_request cf ev pke st = do {
     (p, rn, T, st) \<leftarrow> match_request pke st;
     case rn of
       None \<Rightarrow> Some (0, [], st)
     | Some rn \<Rightarrow> do {
         (a, node) \<leftarrow> request_node T rn;
         if ms_node_is_type node ROLE_MAPP_XTR then do {
           (rt, outs) \<leftarrow> request_reply cf ev pke a T;
           Some (rt, outs, st) }
         else Some (0, [], st) } }"

end
