(* ===== verification/Cp_Process.thy ===== *)
theory Cp_Process
  imports Cp_Server
begin

text \<open>
  What a worker of the control plane does with a datagram (\<open>_lisp_process\<close> of \<open>udp.c\<close>): the message is
  found behind its headers and goes to the handler of its type; a request that no handler answers is
  forwarded. Map-Replies are only freed, as with \<open>srcport_rand\<close> at its default of 1; with 0 the OpenLISP front end,
  which has a state of its own, reads them first.
\<close>

section \<open>Forwarding to the network\<close>

text \<open>\<open>_forward\<close> sends the inner datagram of an Encapsulated Control Message over a raw socket. For an inner
  IPv6 datagram the pointer it goes on with is null. The number of bytes it sends is the length the inner
  header claims. The address it sends to is that of no host, with the family and port of the sender.\<close>

definition forward :: "cp_env \<Rightarrow> pk_req_entry \<Rightarrow> (int \<times> datagram option) option" where
  "forward ev pke = do {
     let b = pk_buf pke;
     t \<leftarrow> lisp_type b 0;
     if t \<noteq> LISP_TYPE_ENCAPSULATED_CONTROL_MESSAGE then Some (0, None)
     else do {
       v \<leftarrow> rd8 b 4;
       if get_field 4 4 v = 4 then do {
         t \<leftarrow> lisp_type b 32;
         if t \<noteq> LISP_TYPE_MAP_REQUEST then Some (0, None)
         else do {
           let sin = zero_sockunion\<lparr>su_family := su_family (pk_si pke), su_port := su_port (pk_si pke)\<rparr>;
           len \<leftarrow> rd16be b 6;
           b \<leftarrow> wr 6 (word_bytes len) b;
           b \<leftarrow> wr 14 [0, 0] b;
           b \<leftarrow> wr 30 [0, 0] b;
           if \<not> ev_raw_socket ev then Some (0, None)
           else do {
             d \<leftarrow> rdn b 4 (unat len);
             Some (if ev_raw ev then 1 else 0, Some (sin, d)) } } }
       else if get_field 4 4 v = 6 then None
       else Some (0, None) } }"

section \<open>Processing a datagram\<close>

text \<open>\<open>udp_free_pk\<close> for the request at hand.\<close>

definition free_request :: "cp_state \<Rightarrow> cp_state" where
  "free_request st = st\<lparr>cs_mr := (cs_mr st)\<lparr>ipq_no := ipq_no (cs_mr st) - 1\<rparr>\<rparr>"

text \<open>What was sent: through the sockets of the control plane, and through the raw socket.\<close>

type_synonym sent_out = "datagram list \<times> datagram option"

definition process_request :: "cp_config \<Rightarrow> cp_env \<Rightarrow> pk_req_entry \<Rightarrow> cp_state \<Rightarrow> (sent_out \<times> cp_state) option" where
  "process_request cf ev pke st =
     (if has_fnc cf FNC_XTR then do {
        (rt, pke) \<leftarrow> udp_prc_request pke;
        if rt \<le> 0 then Some (([], None), free_request st)
        else do {
          (_, outs, st) \<leftarrow> xtr_generic_process_request cf ev pke st;
          Some ((outs, None), free_request st) } }
      else Some (([], None), free_request st))"

definition process_encapsulated :: "cp_config \<Rightarrow> cp_env \<Rightarrow> pk_req_entry \<Rightarrow> cp_state \<Rightarrow> (sent_out \<times> cp_state) option" where
  "process_encapsulated cf ev pke st = do {
     (rt, pke) \<leftarrow> udp_prc_request pke;
     if rt \<le> 0 then Some (([], None), free_request st)
     else if has_fnc cf FNC_XTR then do {
       (_, outs, st) \<leftarrow> xtr_generic_process_request cf ev pke st;
       Some ((outs, None), free_request st) }
     else do {
       (rt, outs, pke, st) \<leftarrow> generic_process_request cf ev pke st;
       raw \<leftarrow> (if rt \<le> 0 then map_option snd (forward ev pke) else Some None);
       Some ((outs, raw), if rt < 2 then free_request st else st) } }"

definition process_register :: "cp_config \<Rightarrow> cp_env \<Rightarrow> pk_req_entry \<Rightarrow> cp_state \<Rightarrow> (sent_out \<times> cp_state) option" where
  "process_register cf ev pke st =
     (if has_fnc cf FNC_MS then do {
        (_, out, ms) \<leftarrow> udp_register cf (ev_reply ev) pke (cs_ms st);
        Some ((option_list out, None), free_request (st\<lparr>cs_ms := ms\<rparr>)) }
      else Some (([], None), free_request st))"

definition process_referral :: "cp_env \<Rightarrow> pk_req_entry \<Rightarrow> cp_state \<Rightarrow> (sent_out \<times> cp_state) option" where
  "process_referral ev pke st = do {
     let ms = cs_ms st;
     (out, mr, db) \<leftarrow> get_mr_ddt (ev_ddt ev) pke (cs_mr st) (ms_db ms);
     Some ((option_list out, None), free_request (st\<lparr>cs_mr := mr, cs_ms := ms\<lparr>ms_db := db\<rparr>\<rparr>)) }"

definition lisp_process :: "cp_config \<Rightarrow> cp_env \<Rightarrow> pk_req_entry \<Rightarrow> cp_state \<Rightarrow> (sent_out \<times> cp_state) option" where
  "lisp_process cf ev pke st = do {
     (_, pke) \<leftarrow> udp_preparse_pk pke;
     t \<leftarrow> lisp_type (pk_buf pke) 0;
     if t = LISP_TYPE_MAP_REQUEST then process_request cf ev pke st
     else if t = LISP_TYPE_ENCAPSULATED_CONTROL_MESSAGE then process_encapsulated cf ev pke st
     else if t = LISP_TYPE_MAP_REGISTER then process_register cf ev pke st
     else if t = LISP_TYPE_MAP_REFERRAL then process_referral ev pke st
     else Some (([], None), free_request st) }"

end
