(* ===== verification/Cp_Lookup.thy ===== *)
theory Cp_Lookup
  imports Cp_Process Cp_Record_Trip
begin

text \<open>
  Which node answers a request: the longest match in the radix tree and the walk up to a node with a
  role, taken together, select among the nodes that cover the EID and have a role the one with the
  longest prefix.
\<close>

section \<open>The nodes that cover a prefix\<close>

fun spine :: "cp_prefix \<Rightarrow> 'i rtree \<Rightarrow> ref list" where
  "spine p Tip = []"
| "spine p (Nd a q i k l r) = (if prefix_includes q p then a # spine p l @ spine p r else [])"

lemma spine_in: "a \<in> set (spine p t) \<Longrightarrow> \<exists>q i. (a, q, i) \<in> set (nodes t) \<and> prefix_includes q p"
  by (induction t) (auto split: if_splits)

lemma spine_set:
  "trie t \<Longrightarrow> (a, q, i) \<in> set (nodes t) \<Longrightarrow> prefix_includes q p \<Longrightarrow> a \<in> set (spine p t)"
proof (induction t)
  case (Nd b q' j k l r)
  have "prefix_includes q' p"
  proof (rule ccontr)
    assume "\<not> prefix_includes q' p"
    from matching_none [OF Nd.prems(1) this, of "\<lambda>_. True"] Nd.prems(2,3) show False by (auto simp: matching_def)
  qed
  with Nd show ?case by auto
qed simp

text \<open>Only one of the two subtrees can cover a prefix.\<close>

lemma spine_side:
  assumes "trie (Nd a q i k l r)" and "prefix_includes q p" and "plen q < plen p \<longrightarrow> b = pkey p ! plen q"
  shows "spine p (Nd a q i k l r) = a # spine p (if b then r else l)"
proof -
  let ?M = "matching (\<lambda>_. True) p"
  have "?M (Nd a q i k l r) = {(a, q, i)} \<union> ?M (if b then r else l)"
    using matching_Nd [OF assms, of "\<lambda>_. True"] by simp
  moreover have "(a', q', i') \<in> ?M (if b then l else r) \<Longrightarrow> (a', q', i') \<in> ?M (Nd a q i k l r)" for a' q' i'
    by (auto simp: matching_def split: if_splits)
  moreover have "\<not> (a', q', i') \<in> ?M (if b then l else r)" for a' q' i'
  proof
    assume m: "(a', q', i') \<in> ?M (if b then l else r)"
    then have n: "(a', q', i') \<in> set (nodes (if b then l else r))" "prefix_includes q' p" by (auto simp: matching_def)
    have "wf_cp q" "wf_cp q'" "extends q (\<not> b) q'"
      using assms(1) n(1) trie_wf [of l] trie_wf [of r] by (auto split: if_splits)
    from extends_bit(2,3) [OF this n(2)] assms(3) show False by simp
  qed
  then have "spine p (if b then l else r) = []"
    using spine_in [OF hd_in_set, of p "if b then l else r"] unfolding matching_def by blast
  ultimately show ?thesis using assms(2) by auto
qed

lemma match_all_spine:
  assumes "tree_at h par node t" and "trie t" and "wf_cp p" and "short t"
  shows "match_loop (\<lambda>n. True) h p node m = Some (if spine p t = [] then m else Some (last (spine p t)))"
  using assms
proof (induction t arbitrary: par node m)
  case Tip
  then show ?case by (simp add: match_loop.simps [of _ _ _ None])
next
  case (Nd a q i k l r)
  from Nd.prems(1) obtain n where n: "node = Some a" "h a = Some n" "n_p n = q"
    "tree_at h (Some a) (l_left n) l" "tree_at h (Some a) (l_right n) r" by auto
  have q: "wf_cp q" "plen q < 128" "trie l" "trie r" "short l" "short r"
    using Nd.prems(2,4) by (auto simp: short_def)
  have c: "covers_next n p = Some (prefix_includes q p)"
    using covers_next_eq [of n p] n(3) q(1) Nd.prems(3) by simp
  show ?case
  proof (cases "prefix_includes q p")
    case False
    with n c show ?thesis by (subst match_loop.simps) simp
  next
    case True
    from check_bit_some [OF Nd.prems(3) q(2)] obtain b where b: "check_bit (addr p) (prefixlen q) = Some b"
      by blast
    have bp: "plen q < plen p \<longrightarrow> b = pkey p ! plen q"
      using check_bit_pkey [OF Nd.prems(3) q(2)] b by simp
    have "match_loop (\<lambda>n. True) h p (link n b) (Some a) =
        Some (if spine p (if b then r else l) = [] then Some a else Some (last (spine p (if b then r else l))))"
      using Nd.IH(1) [OF n(4) q(3) Nd.prems(3) q(5)] Nd.IH(2) [OF n(5) q(4) Nd.prems(3) q(6)]
      by (cases b) (simp_all add: link_def)
    then have "match_loop (\<lambda>n. True) h p node m =
        Some (if spine p (if b then r else l) = [] then Some a else Some (last (spine p (if b then r else l))))"
      using n c True b by (subst match_loop.simps) simp
    then show ?thesis unfolding spine_side [OF Nd.prems(2) True bp] by simp
  qed
qed

lemma spine_climbs:
  "tree_at h par x t \<Longrightarrow> trie t \<Longrightarrow> wf_cp p \<Longrightarrow> short t \<Longrightarrow>
   climbs h (spine p t) \<and> (spine p t \<noteq> [] \<longrightarrow> x = Some (hd (spine p t)))"
proof (induction t arbitrary: par x)
  case (Nd a q i k l r)
  from Nd.prems(1) obtain n where n: "x = Some a" "h a = Some n" "tree_at h (Some a) (l_left n) l"
    "tree_at h (Some a) (l_right n) r" by auto
  show ?case
  proof (cases "prefix_includes q p")
    case True
    define b where "b = pkey p ! plen q"
    define s where "s = (if b then r else l)"
    have sp: "spine p (Nd a q i k l r) = a # spine p s"
      unfolding s_def by (rule spine_side [OF Nd.prems(2) True]) (simp add: b_def)
    have t: "tree_at h (Some a) (if b then l_right n else l_left n) s" "trie s" "short s"
      using n Nd.prems(2,4) by (auto simp: s_def short_def)
    have IH: "climbs h (spine p s) \<and>
        (spine p s \<noteq> [] \<longrightarrow> (if b then l_right n else l_left n) = Some (hd (spine p s)))"
      using Nd.IH t Nd.prems(3) by (cases b) (auto simp: s_def)
    have "climbs h (a # spine p s)"
    proof (cases "spine p s")
      case (Cons c cs)
      then obtain c' q' i' k' l' r' where s: "s = Nd c' q' i' k' l' r'" by (cases s) auto
      with Cons have "c = c'" by (auto split: if_splits)
      moreover obtain m where "h c' = Some m" "parent m = Some a" using t(1) s by auto
      moreover have "climbs h (c # cs)" using IH Cons by simp
      ultimately show ?thesis using Cons by simp
    qed simp
    with sp n(1) show ?thesis by simp
  qed simp
qed simp

lemma tree_at_node_prefix:
  "tree_at h par x t \<Longrightarrow> (a, q, i) \<in> set (nodes t) \<Longrightarrow> h a = Some n \<Longrightarrow> n_p n = q"
proof (induction t arbitrary: par x)
  case (Nd b q' j k l r)
  from Nd.prems(1) obtain m where m: "h b = Some m" "n_p m = q'" "tree_at h (Some b) (l_left m) l"
    "tree_at h (Some b) (l_right m) r" by auto
  from Nd.prems(2) consider "a = b" "q = q'" | "(a, q, i) \<in> set (nodes l)" | "(a, q, i) \<in> set (nodes r)" by auto
  then show ?case
    using m(1,2) Nd.prems(3) Nd.IH(1) [OF m(3)] Nd.IH(2) [OF m(4)] by cases simp_all
qed simp

lemma spine_sorted:
  "tree_at h par x t \<Longrightarrow> trie t \<Longrightarrow> wf_cp p \<Longrightarrow> short t \<Longrightarrow>
   sorted_wrt (\<lambda>a b. \<forall>n m. h a = Some n \<longrightarrow> h b = Some m \<longrightarrow> plen (n_p n) < plen (n_p m)) (spine p t)"
proof (induction t arbitrary: par x)
  case (Nd a q i k l r)
  from Nd.prems(1) obtain n where n: "h a = Some n" "n_p n = q" "tree_at h (Some a) (l_left n) l"
    "tree_at h (Some a) (l_right n) r" by auto
  show ?case
  proof (cases "prefix_includes q p")
    case True
    define b where "b = pkey p ! plen q"
    define s where "s = (if b then r else l)"
    have sp: "spine p (Nd a q i k l r) = a # spine p s"
      unfolding s_def by (rule spine_side [OF Nd.prems(2) True]) (simp add: b_def)
    have t: "tree_at h (Some a) (if b then l_right n else l_left n) s" "trie s" "short s"
      using n Nd.prems(2,4) by (auto simp: s_def short_def)
    have "plen q < plen (n_p m)" if "c \<in> set (spine p s)" "h c = Some m" for c m
    proof -
      from spine_in [OF that(1)] obtain q' i' where c: "(c, q', i') \<in> set (nodes s)" by blast
      have "n_p m = q'" using tree_at_node_prefix [OF t(1) c that(2)] .
      moreover have "plen q < plen q'" using c Nd.prems(2) by (auto simp: s_def extends_def split: if_splits)
      ultimately show ?thesis by simp
    qed
    moreover have "sorted_wrt (\<lambda>a b. \<forall>n m. h a = Some n \<longrightarrow> h b = Some m \<longrightarrow> plen (n_p n) < plen (n_p m)) (spine p s)"
      using Nd.IH t Nd.prems(3) by (cases b) (auto simp: s_def)
    ultimately show ?thesis using n(1,2) sp by simp
  qed simp
qed simp

lemma spine_refs: "set (spine p t) \<subseteq> set (refs t)"
  using spine_in [of _ p t] by (force simp: refs_nodes)

lemma distinct_spine: "distinct (refs t) \<Longrightarrow> distinct (spine p t)"
proof (induction t)
  case (Nd a q i k l r)
  with spine_refs [of p l] spine_refs [of p r] show ?case by auto
qed simp

lemma spine_bump [simp]: "spine p (bump x t) = spine p t"
  by (induction t) auto

section \<open>The node with the longest prefix among those with a role\<close>

lemma last_filter_greatest:
  assumes "sorted_wrt R xs" and "b \<in> set xs" and "P b"
  shows "b = last (c # filter P xs) \<or> R b (last (c # filter P xs))"
proof -
  have s: "sorted_wrt R (filter P xs)" using assms(1) by (rule sorted_wrt_filter)
  have "b \<in> set (filter P xs)" using assms(2,3) by simp
  moreover then obtain ys z where z: "filter P xs = ys @ [z]" by (cases "filter P xs" rule: rev_cases) auto
  ultimately show ?thesis using s by (auto simp: sorted_wrt_append)
qed

text \<open>What \<open>request_node\<close> finds from the end of the spine.\<close>

lemma request_node_up:
  assumes "table_at T t" and "wf_cp p" and "short t" and "spine p t \<noteq> []"
  shows "\<exists>n. request_node T (last (spine p t)) = Some (last (hd (spine p t) # filter (typed (heap T)) (spine p t)), n) \<and>
    heap T (last (hd (spine p t) # filter (typed (heap T)) (spine p t))) = Some n"
proof -
  let ?S = "spine p t" and ?h = "heap T"
  let ?a = "last (hd ?S # filter (typed ?h) ?S)"
  have tr: "tree_at ?h None (top T) t" "trie t" "distinct (refs t)" using assms(1) by (simp_all add: table_at_def)
  have cl: "climbs ?h ?S" "top T = Some (hd ?S)" using spine_climbs [OF tr(1,2) assms(2,3)] assms(4) by auto
  have all: "\<forall>a\<in>set ?S. ?h a \<noteq> None" using spine_refs tree_at_heap [OF tr(1)] by blast
  have up: "ms_get_target ?h (top T) (last ?S) = Some ?a"
    by (rule get_target_up [OF cl(1) assms(4) cl(2) distinct_spine [OF tr(3)] all])
  have "?a \<in> set ?S"
    using last_in_set [of "filter (typed ?h) ?S"] assms(4) by (auto split: if_splits)
  then obtain n where n: "?h ?a = Some n" using all by blast
  obtain n0 where n0: "?h (last ?S) = Some n0" using all assms(4) last_in_set by blast
  have "last (hd ?S # filter (typed ?h) ?S) = last ?S" if "has_role n0"
  proof -
    have "typed ?h (last ?S)" using n0 that by (simp add: typed_def)
    then have "filter (typed ?h) (butlast ?S @ [last ?S]) = filter (typed ?h) (butlast ?S) @ [last ?S]" by simp
    then show ?thesis by (simp only: append_butlast_last_id [OF assms(4)]) simp
  qed
  with up n n0 have "request_node T (last ?S) = Some (?a, n)"
    by (cases "has_role n0") (simp_all add: request_node_def)
  with n show ?thesis by blast
qed

lemma db_lock_node_heap:
  assumes "db_lock_node x T = Some T'"
  shows "heap T' b = map_option (\<lambda>m. if b = x then m\<lparr>lock_ct := lock_ct m + 1\<rparr> else m) (heap T b)" and "top T' = top T"
  using assms by (auto simp: db_lock_node_def put_def bind_eq_Some_conv option.map_ident)

lemma match_prefix_spine:
  assumes "table_at T t" and "all_family (family p) t" and "short t" and "wf_cp p" and "spine p t \<noteq> []"
  shows "\<exists>T'. db_node_match_prefix p T = Some (Some (last (spine p t)), T') \<and>
    db_lock_node (last (spine p t)) T = Some T' \<and> table_at T' (bump (last (spine p t)) t)"
proof -
  have tr: "tree_at (heap T) None (top T) t" "trie t" using assms(1) by (simp_all add: table_at_def)
  have "match_loop (\<lambda>n. True) (heap T) p (top T) None = Some (Some (last (spine p t)))"
    using match_all_spine [OF tr assms(4,3)] assms(5) by simp
  moreover have rS: "last (spine p t) \<in> set (refs t)" using spine_refs assms(5) last_in_set by blast
  moreover obtain T' where T': "db_lock_node (last (spine p t)) T = Some T'" "table_at T' (bump (last (spine p t)) t)"
    using db_lock_node_table [OF assms(1) rS] by blast
  moreover have "check_top_family p T = Some ()"
    using check_top_family_ok [OF assms(1) _ assms(2)] assms(5) by (cases t) auto
  ultimately show ?thesis by (simp add: db_node_match_prefix_def lock_matched_def)
qed

text \<open>The node is the one with a role that covers the EID and is the longest of those.\<close>

lemma request_node_is:
  assumes "table_at T t" and "all_family (family p) t" and "short t" and "wf_cp p"
    and "a \<in> set (refs t)" and "heap T a = Some n" and "has_role n" and "prefix_includes (n_p n) p"
    and longest: "\<forall>b\<in>set (refs t). \<forall>m. heap T b = Some m \<longrightarrow> has_role m \<longrightarrow> prefix_includes (n_p m) p \<longrightarrow>
      plen (n_p m) \<le> plen (n_p n)"
  shows "\<exists>rn T' k. db_node_match_prefix p T = Some (Some rn, T') \<and> request_node T' rn = Some (a, n\<lparr>lock_ct := k\<rparr>) \<and>
    heap T' a = Some (n\<lparr>lock_ct := k\<rparr>) \<and> top T' = top T"
proof -
  let ?S = "spine p t"
  have tr: "tree_at (heap T) None (top T) t" "trie t" using assms(1) by (simp_all add: table_at_def)
  obtain q i where q: "(a, q, i) \<in> set (nodes t)" using assms(5) by (auto simp: refs_nodes)
  have aS: "a \<in> set ?S"
    using spine_set [OF tr(2) q] tree_at_node_prefix [OF tr(1) q assms(6)] assms(8) by simp
  then have S: "?S \<noteq> []" by auto
  from match_prefix_spine [OF assms(1-4) S] obtain T' where T': "db_node_match_prefix p T = Some (Some (last ?S), T')"
    "db_lock_node (last ?S) T = Some T'" "table_at T' (bump (last ?S) t)" by blast
  have ty: "typed (heap T') = typed (heap T)"
    unfolding typed_def db_lock_node_heap(1) [OF T'(2)] by (auto simp: has_role_def split: option.splits)
  let ?a = "last (hd ?S # filter (typed (heap T)) ?S)"
  have ta: "typed (heap T) a" using assms(6,7) by (simp add: typed_def)
  have "a = ?a"
  proof (rule ccontr)
    assume ne: "a \<noteq> ?a"
    have "sorted_wrt (\<lambda>a b. \<forall>n m. heap T a = Some n \<longrightarrow> heap T b = Some m \<longrightarrow> plen (n_p n) < plen (n_p m)) ?S"
      by (rule spine_sorted [OF tr assms(4,3)])
    from last_filter_greatest [OF this, of a "typed (heap T)" "hd ?S"] aS ta ne
    have less: "\<And>m. heap T ?a = Some m \<Longrightarrow> plen (n_p n) < plen (n_p m)" using assms(6) by blast
    have "filter (typed (heap T)) ?S \<noteq> []" using aS ta by (auto simp: filter_empty_conv)
    then have "last (filter (typed (heap T)) ?S) \<in> set (filter (typed (heap T)) ?S)"
      and "?a = last (filter (typed (heap T)) ?S)" by (rule last_in_set, simp only: last.simps if_False)
    then have "?a \<in> set (filter (typed (heap T)) ?S)" by (simp only:)
    then have z: "?a \<in> set ?S" "typed (heap T) ?a" by simp_all
    then obtain m where m: "heap T ?a = Some m" "has_role m" by (auto simp: typed_def split: option.splits)
    obtain q' i' where q': "(?a, q', i') \<in> set (nodes t)" "prefix_includes q' p" using spine_in [OF z(1)] by blast
    with tree_at_node_prefix [OF tr(1) q'(1) m(1)] m longest spine_refs z(1) less [OF m(1)] show False by fastforce
  qed
  moreover obtain n' where n': "request_node T' (last ?S) = Some (?a, n')" "heap T' ?a = Some n'"
    using request_node_up [OF T'(3) assms(4)] S assms(3) by (auto simp: short_def ty)
  moreover have "\<exists>k. n' = n\<lparr>lock_ct := k\<rparr>"
    using n'(2) assms(6) \<open>a = ?a\<close> unfolding db_lock_node_heap(1) [OF T'(2)]
    by (auto split: if_splits intro: exI [of _ "lock_ct n"])
  ultimately show ?thesis using T'(1) db_lock_node_heap(2) [OF T'(2)] by auto
qed

lemma request_node_longest:
  assumes "table_at T t" and "all_family (family p) t" and "short t" and "wf_cp p"
    and "t = Nd root q i k l r" and "prefix_includes q p"
  shows "\<exists>rn T' a n. db_node_match_prefix p T = Some (Some rn, T') \<and> request_node T' rn = Some (a, n) \<and>
    heap T' a = Some n \<and> a \<in> set (refs t) \<and> prefix_includes (n_p n) p \<and> (has_role n \<or> a = root) \<and>
    (\<forall>b\<in>set (refs t). \<forall>m. heap T' b = Some m \<longrightarrow> has_role m \<longrightarrow> prefix_includes (n_p m) p \<longrightarrow>
       plen (n_p m) \<le> plen (n_p n))"
proof -
  let ?S = "spine p t"
  have tr: "tree_at (heap T) None (top T) t" "trie t" using assms(1) by (simp_all add: table_at_def)
  have S: "?S \<noteq> []" "hd ?S = root" using assms(5,6) by simp_all
  have "match_loop (\<lambda>n. True) (heap T) p (top T) None = Some (Some (last ?S))"
    using match_all_spine [OF tr assms(4,3)] S(1) by simp
  moreover have rS: "last ?S \<in> set (refs t)" using spine_refs S(1) last_in_set by blast
  moreover obtain T' where T': "db_lock_node (last ?S) T = Some T'" "table_at T' (bump (last ?S) t)"
    using db_lock_node_table [OF assms(1) rS] by blast
  moreover have "check_top_family p T = Some ()" using check_top_family_ok [OF assms(1) _ assms(2)] assms(5) by simp
  ultimately have m: "db_node_match_prefix p T = Some (Some (last ?S), T')"
    by (simp add: db_node_match_prefix_def lock_matched_def)
  let ?t = "bump (last ?S) t"
  have tr': "tree_at (heap T') None (top T') ?t" "trie ?t" "short ?t"
    using T'(2) assms(3) by (simp_all add: table_at_def short_def)
  let ?a = "last (hd ?S # filter (typed (heap T')) ?S)"
  obtain n where n: "request_node T' (last ?S) = Some (?a, n)" "heap T' ?a = Some n"
    using request_node_up [OF T'(2) assms(4) tr'(3)] S(1) by auto
  have aS: "?a \<in> set ?S"
    using last_in_set [of "filter (typed (heap T')) ?S"] S(1) by (auto split: if_splits)
  have pfx: "n_p m = q'" if "(b, q', i') \<in> set (nodes t)" "heap T' b = Some m" for b q' i' m
    using tree_at_node_prefix [OF tr'(1)] that by simp
  have inc: "prefix_includes (n_p n) p" using spine_in [OF aS] pfx n(2) by blast
  have role: "has_role n \<or> ?a = root"
  proof (cases "filter (typed (heap T')) ?S = []")
    case False
    then have "?a \<in> set (filter (typed (heap T')) ?S)" by (metis last.simps last_in_set)
    with n(2) show ?thesis by (simp add: typed_def)
  qed (use S(2) in simp)
  have "plen (n_p m) \<le> plen (n_p n)" if b: "b \<in> set (refs t)" "heap T' b = Some m" "has_role m"
    "prefix_includes (n_p m) p" for b m
  proof -
    from b(1) obtain q' i' where q': "(b, q', i') \<in> set (nodes t)" by (auto simp: refs_nodes)
    with pfx b(2,4) have "b \<in> set ?S" using spine_set [OF tr(2) q'] by blast
    moreover have "typed (heap T') b" using b(2,3) by (simp add: typed_def)
    moreover have "sorted_wrt (\<lambda>a b. \<forall>n m. heap T' a = Some n \<longrightarrow> heap T' b = Some m \<longrightarrow>
        plen (n_p n) < plen (n_p m)) ?S" using spine_sorted [OF tr'(1,2) assms(4) tr'(3)] by simp
    ultimately have "b = ?a \<or> (\<forall>n m. heap T' b = Some n \<longrightarrow> heap T' ?a = Some m \<longrightarrow> plen (n_p n) < plen (n_p m))"
      using last_filter_greatest [of _ ?S b "typed (heap T')" "hd ?S"] by blast
    with b(2) n(2) show ?thesis by auto
  qed
  then have "\<forall>b\<in>set (refs t). \<forall>m. heap T' b = Some m \<longrightarrow> has_role m \<longrightarrow> prefix_includes (n_p m) p \<longrightarrow>
      plen (n_p m) \<le> plen (n_p n)" by simp
  moreover have "?a \<in> set (refs t)" using aS spine_refs by (rule rev_subsetD)
  ultimately show ?thesis using m n inc role
    by (intro exI [of _ "last ?S"] exI [of _ T'] exI [of _ ?a] exI [of _ n] conjI) assumption+
qed

text \<open>
  C32: A request for an EID is decided by one node: the longest match of the radix tree, and from there the
  walk up to a node with a role, end at the node whose prefix is the longest of all nodes that cover the
  EID and have a role; where none has one it is the root.
\<close>

theorem request_node_longest_role:
  assumes "table_at T t" and "all_family (family p) t" and "short t" and "wf_cp p"
    and "t = Nd root q i k l r" and "prefix_includes q p"
  shows "\<exists>rn T' a n. db_node_match_prefix p T = Some (Some rn, T') \<and> request_node T' rn = Some (a, n) \<and>
    heap T' a = Some n \<and> a \<in> set (refs t) \<and> prefix_includes (n_p n) p \<and> (has_role n \<or> a = root) \<and>
    (\<forall>b\<in>set (refs t). \<forall>m. heap T' b = Some m \<longrightarrow> has_role m \<longrightarrow> prefix_includes (n_p m) p \<longrightarrow>
       plen (n_p m) \<le> plen (n_p n))"
  using assms by (rule request_node_longest)

theorem request_node_longest_role_witness:
  "\<exists>rn T' a n. db_node_match_prefix reg_eid (lisp_db4 (ms_db reg_state)) = Some (Some rn, T') \<and>
    request_node T' rn = Some (a, n) \<and> heap T' a = Some n \<and> (has_role n \<or> a = 0)"
proof -
  have "prefix_match (n_p reg_root) reg_eid = Some True" by code_simp
  then have "prefix_includes (n_p reg_root) reg_eid"
    by (simp add: prefix_includes_def reg_root_def reg_eid_def wf_cp_def plen_def)
  moreover have "all_family (family reg_eid) reg_tree" using reg_table_at(2) by (simp add: reg_eid_def)
  moreover have "short reg_tree" "wf_cp reg_eid"
    by (simp_all add: reg_eid_def short_def reg_tree_def reg_root_def reg_net_def plen_def wf_cp_def)
  ultimately have h: "all_family (family reg_eid) reg_tree" "short reg_tree" "wf_cp reg_eid"
    "prefix_includes (n_p reg_root) reg_eid" "reg_tree = Nd 0 (n_p reg_root) None 1 (Nd 1 (n_p reg_net) None 1 Tip Tip) Tip"
    by (simp_all add: reg_tree_def)
  from request_node_longest_role [OF reg_table_at(1) h(1-3,5,4)] show ?thesis by blast
qed

end
