(* ===== verification/Cp_Resolver_Inv.thy ===== *)
theory Cp_Resolver_Inv
  imports Cp_Referral
begin

text \<open>
  The invariant of the resolver's table: the locators of an active lookup form a list, the pointer of
  the lookup is null or at its last cell, and no two active lookups wait for the same nonce. Every
  operation keeps it, and a lookup makes progress whenever it sends or a referral moves it.
\<close>

section \<open>The last cell of a list\<close>

lemma list_at_prev:
  assumes "list_at l (ys @ zs)"
  shows "\<exists>c. cells l (hd (cells_of zs)) = Some c \<and> e_prev c = Some (last (Head # map (\<lambda>x. Ent (fst x)) ys))"
proof -
  obtain A p c B where g: "Head # map (\<lambda>x. Ent (fst x)) ys = A @ [p]" "cells_of zs = c # B" "c = hd (cells_of zs)"
    by (rule gap)
  have "linked (cells l) (Head # cells_of (ys @ zs))" using assms by (simp only: list_at_def)
  moreover have "Head # cells_of (ys @ zs) = A @ p # c # B" using g(1,2) by simp
  ultimately have "linked (cells l) (A @ p # c # B)" by simp
  then have "prv (cells l) c = Some p" using linked_split [of "cells l" A p "c # B"] by simp
  moreover have "last (Head # map (\<lambda>x. Ent (fst x)) ys) = p" unfolding g(1) by simp
  ultimately show ?thesis using g(3) by (auto simp: prv_def bind_eq_Some_conv)
qed

text \<open>The heap of a list determines its sequence.\<close>

lemma linked_unique:
  "linked h (c # cells_of xs) \<Longrightarrow> linked h (c # cells_of ys) \<Longrightarrow> holds h xs \<Longrightarrow> holds h ys \<Longrightarrow> xs = ys"
proof (induction xs arbitrary: c ys)
  case Nil
  then show ?case by (cases ys) (auto simp: nxt_def)
next
  case (Cons x xs)
  then obtain y ys' where ys: "ys = y # ys'" by (cases ys) (auto simp: nxt_def)
  have "fst x = fst y" using Cons.prems(1,2) by (simp add: ys)
  moreover have "snd x = snd y" using Cons.prems(3,4) calculation by (cases x; cases y) (auto simp: ys holds_def)
  ultimately have xy: "x = y" by (simp add: prod_eq_iff)
  have "linked h (Ent (fst x) # cells_of xs)" "linked h (Ent (fst x) # cells_of ys')"
    using Cons.prems(1,2) by (simp_all add: ys xy)
  moreover have "holds h xs" "holds h ys'" using Cons.prems(3,4) by (simp_all add: ys holds_def)
  ultimately show ?case using Cons.IH ys xy by blast
qed

lemma list_at_unique: "list_at l xs \<Longrightarrow> list_at l ys \<Longrightarrow> xs = ys"
  by (rule linked_unique [of "cells l" Head]) (auto simp: list_at_def holds_def)

definition last_cell :: "(nat \<times> 'd option) list \<Rightarrow> lref option" where
  "last_cell xs = (if xs = [] then None else Some (Ent (fst (last xs))))"

lemma last_cell_snoc [simp]: "last_cell (xs @ [x]) = Some (Ent (fst x))"
  by (simp add: last_cell_def)

lemma last_head: "xs \<noteq> [] \<Longrightarrow> Some (last (map (\<lambda>x. Ent (fst x)) xs)) = last_cell xs"
  by (simp add: last_cell_def last_map)

lemma count_cases:
  assumes "list_at l xs"
  shows "l_count l > 0 \<Longrightarrow> xs \<noteq> []" and "l_count l > 1 \<Longrightarrow> 1 < length xs"
    and "length xs < 2 ^ 32 \<Longrightarrow> unat (l_count l) = length xs"
proof -
  have c: "l_count l = of_nat (length xs)" using assms by (simp add: list_at_def)
  show "l_count l > 0 \<Longrightarrow> xs \<noteq> []" using c by auto
  show "l_count l > 1 \<Longrightarrow> 1 < length xs" using c by (cases xs; cases "tl xs") auto
  show "length xs < 2 ^ 32 \<Longrightarrow> unat (l_count l) = length xs"
    using c by (simp add: unsigned_of_nat take_bit_nat_eq_self)
qed

lemma last_rloc_at:
  assumes "list_at l xs"
  shows "\<exists>cur. last_rloc l = Some cur \<and> (cur = None \<or> cur = last_cell xs \<and> l_count l \<noteq> 0) \<and>
    (length xs < 2 ^ 32 \<longrightarrow> cur = last_cell xs)"
proof -
  obtain c where c: "cells l Tail = Some c" "e_prev c = Some (last (Head # map (\<lambda>x. Ent (fst x)) xs))"
    using list_at_prev [of l xs "[]"] assms by auto
  show ?thesis
  proof (cases "l_count l > 0")
    case True
    with c count_cases(1) [OF assms] show ?thesis by (auto simp: last_rloc_def last_head)
  next
    case False
    then have "length xs < 2 ^ 32 \<Longrightarrow> xs = []"
      using count_cases(3) [OF assms] by (cases xs) (auto simp: word_gt_0 unat_gt_0)
    with False show ?thesis by (auto simp: last_rloc_def last_cell_def)
  qed
qed

lemma copy_rlocs_at:
  "list_at l xs \<Longrightarrow> \<exists>l' ys. copy_rlocs es l = Some l' \<and> list_at l' (xs @ ys) \<and> map snd ys = map Some es"
proof (induction es arbitrary: l xs)
  case Nil
  then show ?case by (auto intro: exI [of _ "[]"])
next
  case (Cons e es)
  from list_append_at [OF Cons.prems, of "Some e"] obtain r l1 where
    l1: "list_insert None (Some e) l = Some (r, l1)" "list_at l1 (xs @ [(r, Some e)])" by blast
  from Cons.IH [OF l1(2)] obtain l2 ys where
    "copy_rlocs es l1 = Some l2" "list_at l2 ((xs @ [(r, Some e)]) @ ys)" "map snd ys = map Some es" by blast
  with l1(1) show ?case by (intro exI [of _ l2] exI [of _ "(r, Some e) # ys"]) simp
qed

lemma pop_rloc_at:
  assumes "list_at l (ys @ [(r, d)])" and "l_count l \<noteq> 0"
  shows "\<exists>cur l'. pop_rloc (Ent r) l = Some (cur, l') \<and> list_at l' ys \<and> l_count l' = l_count l - 1 \<and>
    (cur = None \<or> cur = last_cell ys \<and> l_count l' \<noteq> 0) \<and> (length ys < 2 ^ 32 - 1 \<longrightarrow> cur = last_cell ys)"
proof -
  obtain c where c: "cells l (Ent r) = Some c" "e_prev c = Some (last (Head # map (\<lambda>x. Ent (fst x)) ys))"
    using list_at_prev [OF assms(1)] by auto
  obtain l' where l': "list_remove False (Some r) l = Some (True, [], l')" "list_at l' ys" "l_count l' = l_count l - 1"
    using link_out [of l ys r d "[]"] assms by (auto simp: list_remove_def)
  have one: "l_count l \<ge> 1" using assms(2) by (simp add: word_le_nat_alt Suc_le_eq unat_gt_0)
  have "l_count l > 1 \<Longrightarrow> e_prev c = last_cell ys \<and> l_count l - 1 \<noteq> 0"
    using count_cases(2) [OF assms(1)] c(2) by (auto simp: last_head)
  moreover have "length ys < 2 ^ 32 - 1 \<Longrightarrow> \<not> l_count l > 1 \<Longrightarrow> ys = []"
    using count_cases(3) [OF assms(1)] by (simp add: word_less_nat_alt)
  ultimately show ?thesis using one c(1) l' by (auto simp: pop_rloc_def last_cell_def)
qed

section \<open>The invariant\<close>

definition lookup_ok :: "lookup \<Rightarrow> bool" where
  "lookup_ok k \<longleftrightarrow> (lk_active k \<noteq> 0 \<longrightarrow>
     lk_pke k \<noteq> None \<and>
     (\<exists>l xs. lk_rlocs k = Some l \<and> list_at l xs \<and> None \<notin> snd ` set xs \<and>
        (lk_rloc_cur k = None \<or> lk_rloc_cur k = last_cell xs \<and> l_count l \<noteq> 0)))"

definition one_per_nonce :: "lookup list \<Rightarrow> bool" where
  "one_per_nonce ks \<longleftrightarrow> (\<forall>i j. i < j \<longrightarrow> j < length ks \<longrightarrow> lk_active (ks ! i) \<noteq> 0 \<longrightarrow> lk_active (ks ! j) \<noteq> 0 \<longrightarrow>
     (lk_nonce0 (ks ! i), lk_nonce1 (ks ! i)) \<noteq> (lk_nonce0 (ks ! j), lk_nonce1 (ks ! j)))"

definition mr_ok :: "mr_state \<Rightarrow> bool" where
  "mr_ok st \<longleftrightarrow> length (mr_lookups st) = MAX_LOOKUPS \<and> (\<forall>k\<in>set (mr_lookups st). lookup_ok k) \<and>
     one_per_nonce (mr_lookups st)"

text \<open>A change of one lookup that neither activates it nor changes the nonce it has while active.\<close>

definition same_wait :: "lookup \<Rightarrow> lookup \<Rightarrow> bool" where
  "same_wait k k' \<longleftrightarrow> (lk_active k' \<noteq> 0 \<longrightarrow> lk_active k \<noteq> 0 \<and> lk_nonce0 k' = lk_nonce0 k \<and> lk_nonce1 k' = lk_nonce1 k)"

lemma get_lookup_ok: "mr_ok st \<Longrightarrow> get_lookup st i = Some k \<Longrightarrow> lookup_ok k"
  by (auto simp: mr_ok_def get_lookup_def split: if_splits)

lemma set_lookup_ok:
  assumes "mr_ok st" and "get_lookup st i = Some k" and "lookup_ok k'" and "same_wait k k'"
  shows "mr_ok (set_lookup i k' st)"
proof -
  let ?ks = "mr_lookups st"
  have i: "i < length ?ks" "?ks ! i = k" using assms(2) by (auto simp: get_lookup_def split: if_splits)
  have o: "one_per_nonce ?ks" using assms(1) by (simp add: mr_ok_def)
  have "one_per_nonce (?ks[i := k'])"
    unfolding one_per_nonce_def
  proof (intro allI impI)
    fix a b assume ab: "a < b" "b < length (?ks[i := k'])" "lk_active (?ks[i := k'] ! a) \<noteq> 0"
      "lk_active (?ks[i := k'] ! b) \<noteq> 0"
    have same: "lk_active (?ks ! c) \<noteq> 0 \<and> lk_nonce0 (?ks[i := k'] ! c) = lk_nonce0 (?ks ! c) \<and>
        lk_nonce1 (?ks[i := k'] ! c) = lk_nonce1 (?ks ! c)" if "lk_active (?ks[i := k'] ! c) \<noteq> 0" for c
      using that assms(4) i by (cases "c = i") (auto simp: same_wait_def nth_list_update)
    have "(lk_nonce0 (?ks ! a), lk_nonce1 (?ks ! a)) \<noteq> (lk_nonce0 (?ks ! b), lk_nonce1 (?ks ! b))"
      using o ab(1,2) same [OF ab(3)] same [OF ab(4)] unfolding one_per_nonce_def by auto
    then show "(lk_nonce0 (?ks[i := k'] ! a), lk_nonce1 (?ks[i := k'] ! a)) \<noteq>
        (lk_nonce0 (?ks[i := k'] ! b), lk_nonce1 (?ks[i := k'] ! b))"
      using same [OF ab(3)] same [OF ab(4)] by simp
  qed
  moreover have "\<forall>k\<in>set (?ks[i := k']). lookup_ok k"
    using assms(1,3) set_update_subset_insert [of ?ks i k'] by (auto simp: mr_ok_def)
  ultimately show ?thesis using assms(1) by (simp add: mr_ok_def set_lookup_def)
qed

lemma get_set_lookup: "get_lookup st i = Some k0 \<Longrightarrow> get_lookup (set_lookup i k st) i = Some k"
  by (auto simp: get_lookup_def set_lookup_def split: if_splits)

lemma get_lookup_ex: "mr_ok st \<Longrightarrow> i < MAX_LOOKUPS \<Longrightarrow> \<exists>k. get_lookup st i = Some k"
  by (simp add: mr_ok_def get_lookup_def)

lemma set_lookup_ipq: "set_lookup i k (st\<lparr>ipq_no := n\<rparr>) = (set_lookup i k st)\<lparr>ipq_no := n\<rparr>"
  by (simp add: set_lookup_def)

lemma mr_ok_ipq [simp]: "mr_ok (st\<lparr>ipq_no := n\<rparr>) = mr_ok st" "mr_ok (st\<lparr>mr_nfds := m\<rparr>) = mr_ok st"
  by (simp_all add: mr_ok_def)

section \<open>The operations\<close>

lemma lookup_okI:
  "lk_pke k \<noteq> None \<Longrightarrow> lk_rlocs k = Some l \<Longrightarrow> list_at l xs \<Longrightarrow> None \<notin> snd ` set xs \<Longrightarrow>
   lk_rloc_cur k = None \<or> lk_rloc_cur k = last_cell xs \<and> l_count l \<noteq> 0 \<Longrightarrow> lookup_ok k"
  by (auto simp: lookup_ok_def)

text \<open>What an active lookup points to.\<close>

lemma lookup_current:
  assumes "lookup_ok k" and "lk_active k \<noteq> 0" and "lk_rloc_cur k = Some cur"
  obtains l ys r e where "lk_rlocs k = Some l" "list_at l (ys @ [(r, Some e)])" "None \<notin> snd ` set ys" "cur = Ent r"
    "\<exists>c. cells l cur = Some c \<and> e_data c = Some e" "l_count l \<noteq> 0"
proof -
  from assms obtain l xs where l: "lk_rlocs k = Some l" "list_at l xs" "None \<notin> snd ` set xs" "last_cell xs = Some cur"
    "l_count l \<noteq> 0"
    by (auto simp: lookup_ok_def)
  then obtain ys r d where x: "xs = ys @ [(r, d)]" by (cases xs rule: rev_cases) (auto simp: last_cell_def)
  with l(3) obtain e where d: "d = Some e" by (cases d) auto
  have c: "cur = Ent r" using l(4) x by simp
  with list_at_data [OF l(2), of r d] x d have "\<exists>c. cells l cur = Some c \<and> e_data c = Some e" by auto
  with l x d c show ?thesis using that by auto
qed

text \<open>The lookup that an active one becomes when its request is sent.\<close>

lemma send_current:
  assumes "lookup_ok k" and "lk_active k \<noteq> 0" and "get_lookup st i = Some k" and "lk_rloc_cur k = Some cur"
  obtains l ys r e l' nx where "lk_rlocs k = Some l" "list_at l (ys @ [(r, Some e)])" "list_at l' ys"
    "l_count l' = l_count l - 1" "l_count l \<noteq> 0" "length ys < 2 ^ 32 - 1 \<longrightarrow> nx = last_cell ys"
    "lookup_ok (k\<lparr>lk_count := lk_count k + 1, lk_rlocs := Some l', lk_rloc_cur := nx\<rparr>)"
    "send_mr_ddt sent i st = (case su_family (me_rloc e) of
       FAM_OTHER _ \<Rightarrow> Some (1, None, set_lookup i (k\<lparr>lk_count := lk_count k + 1\<rparr>) st)
     | _ \<Rightarrow> Some (if sent then 1 else 0, Some (sk_set_port (me_rloc e) LISP_CP_PORT, lk_orgi_pkg k),
         set_lookup i (if sent then k\<lparr>lk_count := lk_count k + 1, lk_rlocs := Some l', lk_rloc_cur := nx\<rparr>
           else k\<lparr>lk_count := lk_count k + 1\<rparr>) st))"
proof -
  obtain l ys r e where l: "lk_rlocs k = Some l" "list_at l (ys @ [(r, Some e)])" "None \<notin> snd ` set ys" "cur = Ent r"
      "\<exists>c. cells l cur = Some c \<and> e_data c = Some e" "l_count l \<noteq> 0"
    by (rule lookup_current [OF assms(1,2,4)])
  obtain nx l' where p: "pop_rloc cur l = Some (nx, l')" "list_at l' ys" "l_count l' = l_count l - 1"
      "nx = None \<or> nx = last_cell ys \<and> l_count l' \<noteq> 0" "length ys < 2 ^ 32 - 1 \<longrightarrow> nx = last_cell ys"
    using pop_rloc_at [OF l(2,6)] l(4) by blast
  have "lk_pke k \<noteq> None" using assms(1,2) by (simp add: lookup_ok_def)
  with p l(3) have "lookup_ok (k\<lparr>lk_count := lk_count k + 1, lk_rlocs := Some l', lk_rloc_cur := nx\<rparr>)"
    by (intro lookup_okI [of _ l' ys]) auto
  moreover have "send_mr_ddt sent i st = (case su_family (me_rloc e) of
       FAM_OTHER _ \<Rightarrow> Some (1, None, set_lookup i (k\<lparr>lk_count := lk_count k + 1\<rparr>) st)
     | _ \<Rightarrow> Some (if sent then 1 else 0, Some (sk_set_port (me_rloc e) LISP_CP_PORT, lk_orgi_pkg k),
         set_lookup i (if sent then k\<lparr>lk_count := lk_count k + 1, lk_rlocs := Some l', lk_rloc_cur := nx\<rparr>
           else k\<lparr>lk_count := lk_count k + 1\<rparr>) st))"
    using assms l(1,5) p(1) by (auto simp: send_mr_ddt_def Let_def split: af.splits)
  ultimately show ?thesis by (intro that [OF l(1,2) p(2,3) l(6) p(5)])
qed

lemma counted_ok: "lookup_ok k \<Longrightarrow> lookup_ok (k\<lparr>lk_count := n\<rparr>)"
  by (simp add: lookup_ok_def)

text \<open>How far a lookup is: the referrals it can still follow and the locators it still has.\<close>

definition rank :: "lookup \<Rightarrow> nat" where
  "rank k = (case lk_last_eid k of None \<Rightarrow> 256 | Some q \<Rightarrow> 255 - plen q)"

definition locs_of :: "lookup \<Rightarrow> nat" where
  "locs_of k = (case lk_rlocs k of None \<Rightarrow> 0 | Some l \<Rightarrow> unat (l_count l))"

lemma send_mr_ddt_ok:
  assumes "mr_ok st" and "get_lookup st i = Some k"
  shows "\<exists>r out st' k'. send_mr_ddt sent i st = Some (r, out, st') \<and> mr_ok st' \<and> get_lookup st' i = Some k' \<and>
    lk_last_eid k' = lk_last_eid k \<and> lk_active k' = lk_active k \<and> locs_of k' \<le> locs_of k \<and>
    (lk_active k \<noteq> 0 \<and> lk_count k \<le> MR_MAX_LOOKUP \<longrightarrow>
       locs_of k' < locs_of k \<or> locs_of k' = locs_of k \<and> lk_count k < lk_count k')"
proof (cases "lk_active k = 0")
  case True
  with assms show ?thesis by (auto simp: send_mr_ddt_def)
next
  case active: False
  have ok: "lookup_ok k" by (rule get_lookup_ok [OF assms])
  have upd: "mr_ok (set_lookup i k' st)" if "lookup_ok k'" "same_wait k k'" for k'
    using that by (rule set_lookup_ok [OF assms])
  have same: "same_wait k (k\<lparr>lk_count := n, lk_rlocs := x, lk_rloc_cur := y\<rparr>)" "same_wait k (k\<lparr>lk_count := n\<rparr>)" for n x y
    by (simp_all add: same_wait_def)
  show ?thesis
  proof (cases "lk_rloc_cur k")
    case None
    with upd [OF counted_ok [OF ok] same(2), of "MR_MAX_LOOKUP + 1"] active assms(2) show ?thesis
      by (auto simp: send_mr_ddt_def get_set_lookup locs_of_def)
  next
    case (Some cur)
    obtain l ys r e l' nx where s: "lk_rlocs k = Some l" "list_at l (ys @ [(r, Some e)])" "list_at l' ys"
      "l_count l' = l_count l - 1" "l_count l \<noteq> 0" "length ys < 2 ^ 32 - 1 \<longrightarrow> nx = last_cell ys"
      "lookup_ok (k\<lparr>lk_count := lk_count k + 1, lk_rlocs := Some l', lk_rloc_cur := nx\<rparr>)"
      "send_mr_ddt sent i st = (case su_family (me_rloc e) of
         FAM_OTHER _ \<Rightarrow> Some (1, None, set_lookup i (k\<lparr>lk_count := lk_count k + 1\<rparr>) st)
       | _ \<Rightarrow> Some (if sent then 1 else 0, Some (sk_set_port (me_rloc e) LISP_CP_PORT, lk_orgi_pkg k),
           set_lookup i (if sent then k\<lparr>lk_count := lk_count k + 1, lk_rlocs := Some l', lk_rloc_cur := nx\<rparr>
             else k\<lparr>lk_count := lk_count k + 1\<rparr>) st))"
      by (rule send_current [OF ok active assms(2) Some, of sent])
    have less: "unat (l_count l') < unat (l_count l)"
      using s(4,5) by (simp add: unat_minus_one unat_gt_0)
    note u = upd [OF counted_ok [OF ok] same(2), of "lk_count k + 1"] upd [OF s(7) same(1)]
    show ?thesis
      using s(1,8) u less assms(2) by (cases "su_family (me_rloc e)"; cases sent) (auto simp: get_set_lookup locs_of_def)
  qed
qed

lemma free_lookups_ok:
  assumes "mr_ok st" and "free_lookups i st = Some st'"
  shows "mr_ok st' \<and> (\<exists>k. get_lookup st' i = Some k \<and> lk_active k = 0)"
proof -
  from assms(2) obtain k where k: "get_lookup st i = Some k" by (auto simp: free_lookups_def bind_eq_Some_conv)
  let ?k = "k\<lparr>lk_pke := None, lk_last_eid := None, lk_rlocs := None, lk_active := 0\<rparr>"
  have "mr_ok (set_lookup i ?k st)"
    by (rule set_lookup_ok [OF assms(1) k]) (simp_all add: lookup_ok_def same_wait_def)
  then have "mr_ok (set_lookup i ?k (st\<lparr>ipq_no := n\<rparr>))" for n
    by (simp add: set_lookup_ipq)
  moreover have "get_lookup (set_lookup i ?k (st\<lparr>ipq_no := n\<rparr>)) i = Some ?k" for n
    using k by (auto simp: get_lookup_def set_lookup_def split: if_splits)
  ultimately show ?thesis using assms k \<open>mr_ok (set_lookup i ?k st)\<close>
    by (auto simp: free_lookups_def udp_free_pk_def bind_eq_Some_conv get_set_lookup split: if_splits option.splits)
qed

lemma free_slot_found:
  assumes "free_slot ks < length ks"
  shows "lk_active (ks ! free_slot ks) = 0"
  using nth_length_takeWhile [OF assms [unfolded free_slot_def]] by (simp add: free_slot_def)

text \<open>A new lookup goes to a slot that was free, with a nonce that no active lookup has.\<close>

lemma new_lookup_ok:
  assumes "mr_ok st" and "get_lookup st i = Some k0" and "lookup_ok k"
    and "\<forall>k'\<in>set (mr_lookups st). \<not> same_nonce (lk_nonce0 k) (lk_nonce1 k) k'"
  shows "mr_ok (set_lookup i k st)"
proof -
  let ?ks = "mr_lookups st"
  have i: "i < length ?ks" using assms(2) by (auto simp: get_lookup_def split: if_splits)
  have o: "one_per_nonce ?ks" using assms(1) by (simp add: mr_ok_def)
  have fresh: "(lk_nonce0 k, lk_nonce1 k) \<noteq> (lk_nonce0 (?ks ! c), lk_nonce1 (?ks ! c))"
    if "c < length ?ks" "lk_active (?ks ! c) \<noteq> 0" for c
    using assms(4) that nth_mem [OF that(1)] by (auto simp: same_nonce_def)
  have "one_per_nonce (?ks[i := k])"
    unfolding one_per_nonce_def
  proof (intro allI impI)
    fix a b assume ab: "a < b" "b < length (?ks[i := k])" "lk_active (?ks[i := k] ! a) \<noteq> 0"
      "lk_active (?ks[i := k] ! b) \<noteq> 0"
    consider "a = i" | "b = i" | "a \<noteq> i" "b \<noteq> i" by blast
    then show "(lk_nonce0 (?ks[i := k] ! a), lk_nonce1 (?ks[i := k] ! a)) \<noteq>
        (lk_nonce0 (?ks[i := k] ! b), lk_nonce1 (?ks[i := k] ! b))"
    proof cases
      case 1
      then show ?thesis using ab i fresh [of b] by simp
    next
      case 2
      with ab i have "?ks[i := k] ! a = ?ks ! a" "?ks[i := k] ! b = k" "a < length ?ks" by simp_all
      with fresh [of a] ab(3) show ?thesis by metis
    next
      case 3
      then show ?thesis using ab o by (simp add: one_per_nonce_def)
    qed
  qed
  moreover have "\<forall>k\<in>set (?ks[i := k]). lookup_ok k"
    using assms(1,3) set_update_subset_insert [of ?ks i k] by (auto simp: mr_ok_def)
  ultimately show ?thesis using assms(1) by (simp add: mr_ok_def set_lookup_def)
qed

lemma mr_new_lookup_ok:
  assumes "mr_ok st" and "mr_new_lookup sent socks now pke rn_info st = Some (out, st')"
    and "\<forall>k\<in>set (mr_lookups st). \<not> same_nonce (pk_nonce0 pke) (pk_nonce1 pke) k"
  shows "mr_ok st'"
proof (cases "free_slot (mr_lookups st) \<ge> MAX_LOOKUPS")
  case True
  with assms show ?thesis by (simp add: mr_new_lookup_def)
next
  case False
  let ?i = "free_slot (mr_lookups st)"
  from assms(2) False obtain r r6 k pkg l cur ret where
    k: "socks = Some (r, r6)" "get_lookup st ?i = Some k" "saved_package pke = Some pkg"
      "copy_rlocs (case rn_info of None \<Rightarrow> [] | Some es \<Rightarrow> es) list_init = Some l" "last_rloc l = Some cur"
    and out: "send_mr_ddt sent ?i (set_lookup ?i (k\<lparr>lk_last_eid := None, lk_rx := r, lk_rx6 := r6, lk_count := 0,
        lk_active := 1, lk_pke := Some pke, lk_orgi_pkg := pkg, lk_nonce0 := pk_nonce0 pke, lk_nonce1 := pk_nonce1 pke,
        lk_rlocs := Some l, lk_rloc_cur := cur, lk_start := now\<rparr>) st) = Some (ret, out, st')"
    unfolding mr_new_lookup_def udp_request_get_nonce_def Let_def
    by (clarsimp simp: bind_eq_Some_conv split_beta)
  let ?k = "k\<lparr>lk_last_eid := None, lk_rx := r, lk_rx6 := r6, lk_count := 0, lk_active := 1, lk_pke := Some pke,
    lk_orgi_pkg := pkg, lk_nonce0 := pk_nonce0 pke, lk_nonce1 := pk_nonce1 pke, lk_rlocs := Some l,
    lk_rloc_cur := cur, lk_start := now\<rparr>"
  obtain ys where ys: "list_at l ys" "map snd ys = map Some (case rn_info of None \<Rightarrow> [] | Some es \<Rightarrow> es)"
    using copy_rlocs_at [OF list_at_init, of "case rn_info of None \<Rightarrow> [] | Some es \<Rightarrow> es"] k(4) by auto
  have "None \<notin> set (map snd ys)" unfolding ys(2) by auto
  moreover have "cur = None \<or> cur = last_cell ys \<and> l_count l \<noteq> 0" using last_rloc_at [OF ys(1)] k(5) by auto
  ultimately have "lookup_ok ?k" using ys(1) by (intro lookup_okI [of _ l ys]) auto
  then have "mr_ok (set_lookup ?i ?k st)"
    by (rule new_lookup_ok [OF assms(1) k(2)]) (use assms(3) in simp)
  from send_mr_ddt_ok [OF this get_set_lookup [OF k(2)], of sent] out show ?thesis by auto
qed

lemma takeWhile_all_iff: "length (takeWhile P xs) < length xs \<longleftrightarrow> \<not> (\<forall>x\<in>set xs. P x)"
  by (induction xs) auto

lemma pending_request_ok:
  assumes "mr_ok st" and "pending_request sent socks now pke rn_info st = Some (r, out, st')"
  shows "mr_ok st'"
proof -
  let ?P = "\<lambda>k. \<not> same_nonce (pk_nonce0 pke) (pk_nonce1 pke) k"
  let ?l = "length (takeWhile ?P (mr_lookups st))"
  show ?thesis
  proof (cases "?l < length (mr_lookups st)")
    case True
    then obtain k where k: "get_lookup st ?l = Some k" by (simp add: get_lookup_def)
    have "mr_ok (set_lookup ?l (k\<lparr>lk_count := 0\<rparr>) st)"
      by (rule set_lookup_ok [OF assms(1) k counted_ok [OF get_lookup_ok [OF assms(1) k]]]) (simp add: same_wait_def)
    from send_mr_ddt_ok [OF this get_set_lookup [OF k], of sent] True k assms(2) show ?thesis
      by (auto simp: pending_request_def udp_request_get_nonce_def bind_eq_Some_conv)
  next
    case False
    then have "\<forall>k\<in>set (mr_lookups st). ?P k" by (simp only: takeWhile_all_iff) simp
    with False assms mr_new_lookup_ok [OF assms(1), of sent socks now pke rn_info] show ?thesis
      by (auto simp: pending_request_def udp_request_get_nonce_def bind_eq_Some_conv)
  qed
qed

lemma unat_byte_less: "unat (b :: byte) < 256"
  using unsigned_less [of b] by simp

text \<open>A referral leaves the last prefix of the lookup or makes it longer, and a longer one brings new
  locators.\<close>

lemma referral_update_ok:
  assumes "mr_ok st" and "get_lookup st i = Some k" and "referral_update i pf node db st = Some st'"
  shows "mr_ok st' \<and> (st' = st \<or> (\<exists>k'. get_lookup st' i = Some k' \<and> lk_active k' = lk_active k \<and> rank k' < rank k))"
proof (cases "case lk_last_eid k of None \<Rightarrow> True | Some q \<Rightarrow> prefixlen q < prefixlen pf")
  case False
  with assms show ?thesis by (simp add: referral_update_def split: option.splits)
next
  case True
  let ?k = "k\<lparr>lk_last_eid := Some pf\<rparr>"
  have less: "rank (?k\<lparr>lk_rlocs := x, lk_rloc_cur := y\<rparr>) < rank k" "rank ?k < rank k" for x y
    using True unat_byte_less [of "prefixlen pf"]
    by (auto simp: rank_def plen_def word_less_nat_alt split: option.splits)
  have ok: "lookup_ok k" by (rule get_lookup_ok [OF assms(1,2)])
  from assms(2,3) True obtain lr where lr: "node_info node db = Some lr"
    by (auto simp: referral_update_def Let_def bind_eq_Some_conv)
  show ?thesis
  proof (cases lr)
    case None
    have "mr_ok (set_lookup i ?k st)"
      by (rule set_lookup_ok [OF assms(1,2)]) (use ok in \<open>simp_all add: lookup_ok_def same_wait_def\<close>)
    with None lr True assms less show ?thesis by (auto simp: referral_update_def get_set_lookup)
  next
    case (Some es)
    with lr True assms(2,3) obtain l l' cur where l: "lk_rlocs k = Some l" "copy_rlocs es l = Some l'"
      "last_rloc l' = Some cur" "st' = set_lookup i (?k\<lparr>lk_rlocs := Some l', lk_rloc_cur := cur\<rparr>) st"
      unfolding referral_update_def Let_def by (clarsimp simp: bind_eq_Some_conv if_P)
    let ?k' = "?k\<lparr>lk_rlocs := Some l', lk_rloc_cur := cur\<rparr>"
    have "lookup_ok ?k'"
    proof (cases "lk_active k = 0")
      case False
      with ok l(1) obtain xs where xs: "list_at l xs" "None \<notin> snd ` set xs" "lk_pke k \<noteq> None"
        by (auto simp: lookup_ok_def)
      obtain ys where ys: "list_at l' (xs @ ys)" "map snd ys = map Some es"
        using copy_rlocs_at [OF xs(1), of es] l(2) by auto
      have "None \<notin> set (map snd ys)" unfolding ys(2) by auto
      then have "None \<notin> snd ` set (xs @ ys)" using xs(2) by auto
      moreover have "cur = None \<or> cur = last_cell (xs @ ys) \<and> l_count l' \<noteq> 0"
        using last_rloc_at [OF ys(1)] l(3) by auto
      ultimately show ?thesis using ys(1) xs(3) by (intro lookup_okI [of _ l' "xs @ ys"]) auto
    qed (simp add: lookup_ok_def)
    then have "mr_ok (set_lookup i ?k' st)"
      by (rule set_lookup_ok [OF assms(1,2)]) (simp add: same_wait_def)
    with l(4) less(1) assms(2) show ?thesis by (auto simp: get_set_lookup)
  qed
qed

section \<open>Referrals\<close>

definition progressed :: "lookup \<Rightarrow> lookup \<Rightarrow> bool" where
  "progressed k k' \<longleftrightarrow> lk_active k' = 0 \<or> rank k' < rank k \<or> rank k' = rank k \<and> locs_of k' \<le> locs_of k"

definition kept :: "nat \<Rightarrow> lookup \<Rightarrow> mr_state \<Rightarrow> bool" where
  "kept i k st \<longleftrightarrow> mr_ok st \<and> (\<exists>k'. get_lookup st i = Some k' \<and> progressed k k')"

lemma kept_refl: "mr_ok st \<Longrightarrow> get_lookup st i = Some k \<Longrightarrow> kept i k st"
  by (simp add: kept_def progressed_def)

lemma kept_less: "kept i k1 st \<Longrightarrow> rank k1 < rank k \<Longrightarrow> kept i k st"
  by (auto simp: kept_def progressed_def)

lemma kept_free: "mr_ok st \<Longrightarrow> free_lookups i st = Some st' \<Longrightarrow> kept i k st'"
  using free_lookups_ok [of st i st'] by (auto simp: kept_def progressed_def)

lemma kept_send:
  assumes "mr_ok st" and "get_lookup st i = Some k" and "send_mr_ddt sent i st = Some (r, out, st')"
  shows "kept i k st'"
  using send_mr_ddt_ok [OF assms(1,2), of sent] assms(3) by (auto simp: kept_def progressed_def rank_def)

lemma kept_update:
  assumes "mr_ok st" and "get_lookup st i = Some k" and "referral_update i pf node db st = Some st1"
    and "\<And>k1. get_lookup st1 i = Some k1 \<Longrightarrow> mr_ok st1 \<Longrightarrow> kept i k1 st'"
  shows "kept i k st'"
  using referral_update_ok [OF assms(1-3)] assms(2) assms(4) kept_less by metis

lemmas kept_intros = kept_refl kept_free kept_send

lemma read_records_kept:
  "mr_ok st \<Longrightarrow> get_lookup st idx = Some k \<Longrightarrow>
   read_records sent b rcount i rlen pf idx st db = Some (out, st', db') \<Longrightarrow> kept idx k st'"
proof (induction rcount arbitrary: i rlen pf st db k)
  case 0
  then show ?case by (auto simp: bind_eq_Some_conv intro: kept_send)
next
  case (Suc rcount)
  from Suc.prems(3) obtain pf' act where
    a: "read_prefix b i pf = Some pf'" "map_option (get_field 5 3) (rd8 b (i + 6)) = Some act"
    by (auto simp only: read_records.simps bind_eq_Some_conv)
  note run = Suc.prems(3) [unfolded read_records.simps a bind.bind_lunit]
  consider (ack) "act = LISP_REFERRAL_MS_ACK"
    | (ref) "act = LISP_REFERRAL_NODE_REFERRAL \<or> act = LISP_REFERRAL_MS_REFERRAL"
    | (hole) "act = LISP_REFERRAL_DELEGATION_HOLE \<or> act = LISP_REFERRAL_NOT_AUTHORITATIVE"
    | (other) "act \<noteq> LISP_REFERRAL_MS_ACK" "act \<noteq> LISP_REFERRAL_NODE_REFERRAL" "act \<noteq> LISP_REFERRAL_MS_REFERRAL"
        "act \<noteq> LISP_REFERRAL_DELEGATION_HOLE" "act \<noteq> LISP_REFERRAL_NOT_AUTHORITATIVE" by blast
  then show ?case
  proof cases
    case ack
    with run Suc.prems(1) show ?thesis by (auto simp: bind_eq_Some_conv intro: kept_free)
  next
    case ref
    then have "act \<noteq> LISP_REFERRAL_MS_ACK" by (auto simp: referral_defs)
    with ref run obtain rl node db1 loops where p: "process_referral_record b i db = Some (rl, node, db1)"
      "referral_loops idx pf' st = Some loops"
      "(if loops then do { st \<leftarrow> free_lookups idx st; Some (None, st, db1) }
       else do { st \<leftarrow> referral_update idx pf' node db1 st;
         read_records sent b rcount (next_record i rl) rl pf' idx st db1 }) = Some (out, st', db')"
      by (auto simp: bind_eq_Some_conv)
    show ?thesis
    proof (cases loops)
      case True
      with p(3) Suc.prems(1) show ?thesis by (auto simp: bind_eq_Some_conv intro: kept_free)
    next
      case False
      with p(3) obtain st1 where "referral_update idx pf' node db1 st = Some st1"
        "read_records sent b rcount (next_record i rl) rl pf' idx st1 db1 = Some (out, st', db')"
        by (auto simp: bind_eq_Some_conv)
      with Suc.IH show ?thesis by (blast intro: kept_update [OF Suc.prems(1,2)])
    qed
  next
    case hole
    then have "act \<noteq> LISP_REFERRAL_MS_ACK" "act \<noteq> LISP_REFERRAL_NODE_REFERRAL" "act \<noteq> LISP_REFERRAL_MS_REFERRAL"
      "act \<noteq> LISP_REFERRAL_MS_NOT_REGISTERED" by (auto simp: referral_defs)
    with hole run Suc.prems(1) show ?thesis by (auto simp: bind_eq_Some_conv intro: kept_free)
  next
    case other
    with run have "read_records sent b rcount (next_record i rlen) rlen pf' idx st db = Some (out, st', db')"
      by (auto simp: bind_eq_Some_conv split: if_splits)
    with Suc.IH Suc.prems(1,2) show ?thesis by blast
  qed
qed

lemma get_records_kept:
  "mr_ok st \<Longrightarrow> get_lookup st idx = Some k \<Longrightarrow>
   get_records sent b rcount i rlen pf idx st db = Some (out, st', db') \<Longrightarrow> kept idx k st'"
proof (induction rcount arbitrary: i rlen pf st db k)
  case 0
  then show ?case by (auto simp: bind_eq_Some_conv intro: kept_send)
next
  case (Suc rcount)
  from Suc.prems(3) obtain p where a0: "get_prefix b i pf = Some p"
    by (auto simp only: get_records.simps bind_eq_Some_conv)
  show ?case
  proof (cases p)
    case None
    with Suc.prems a0 show ?thesis by (auto intro: kept_refl)
  next
    case (Some pf')
    have "rd8 b (i + 6) \<noteq> None" using Suc.prems(3) a0 Some by (intro notI) simp
    then obtain act where a: "map_option (get_field 5 3) (rd8 b (i + 6)) = Some act" by auto
    note run = Suc.prems(3) [unfolded get_records.simps a0 Some a bind.bind_lunit option.case]
    consider (ack) "act = LISP_REFERRAL_MS_ACK"
      | (ref) "act = LISP_REFERRAL_NODE_REFERRAL \<or> act = LISP_REFERRAL_MS_REFERRAL"
      | (hole) "act = LISP_REFERRAL_DELEGATION_HOLE \<or> act = LISP_REFERRAL_NOT_AUTHORITATIVE"
      | (other) "act \<noteq> LISP_REFERRAL_MS_ACK" "act \<noteq> LISP_REFERRAL_NODE_REFERRAL" "act \<noteq> LISP_REFERRAL_MS_REFERRAL"
          "act \<noteq> LISP_REFERRAL_DELEGATION_HOLE" "act \<noteq> LISP_REFERRAL_NOT_AUTHORITATIVE" by blast
    then show ?thesis
    proof cases
      case ack
      with run Suc.prems(1) show ?thesis by (auto simp: bind_eq_Some_conv intro: kept_free)
    next
      case ref
      then have "act \<noteq> LISP_REFERRAL_MS_ACK" by (auto simp: referral_defs)
      with ref run obtain rl node db1 loops where p: "process_referral_record b i db = Some (rl, node, db1)"
        "referral_loops idx pf' st = Some loops"
        "(if loops then do { st \<leftarrow> free_lookups idx st; Some (None, st, db1) }
         else do { st \<leftarrow> referral_update idx pf' node db1 st;
           get_records sent b rcount (next_record i rl) rl pf' idx st db1 }) = Some (out, st', db')"
        by (auto simp: bind_eq_Some_conv)
      show ?thesis
      proof (cases loops)
        case True
        with p(3) Suc.prems(1) show ?thesis by (auto simp: bind_eq_Some_conv intro: kept_free)
      next
        case False
        with p(3) obtain st1 where "referral_update idx pf' node db1 st = Some st1"
          "get_records sent b rcount (next_record i rl) rl pf' idx st1 db1 = Some (out, st', db')"
          by (auto simp: bind_eq_Some_conv)
        with Suc.IH show ?thesis by (blast intro: kept_update [OF Suc.prems(1,2)])
      qed
    next
      case hole
      then have "act \<noteq> LISP_REFERRAL_MS_ACK" "act \<noteq> LISP_REFERRAL_NODE_REFERRAL" "act \<noteq> LISP_REFERRAL_MS_REFERRAL"
        "act \<noteq> LISP_REFERRAL_MS_NOT_REGISTERED" by (auto simp: referral_defs)
      with hole run Suc.prems(1) show ?thesis by (auto simp: bind_eq_Some_conv split: if_splits intro: kept_free)
    next
      case other
      with run have "get_records sent b rcount (next_record i rlen) rlen pf' idx st db = Some (out, st', db')"
        by (auto simp: bind_eq_Some_conv split: if_splits)
      with Suc.IH Suc.prems(1,2) show ?thesis by blast
    qed
  qed
qed

lemma read_mr_ddt_kept:
  assumes "mr_ok st" and "get_lookup st idx = Some k" and "read_mr_ddt sent rcv idx st db = Some (out, st', db')"
  shows "kept idx k st'"
proof (cases "st' = st")
  case True
  with assms show ?thesis by (simp add: kept_refl)
next
  case False
  with assms(3) obtain b and rcount :: byte where "read_records sent b (unat rcount) 12 0 zero_prefix idx st db = Some (out, st', db')"
    by (auto simp: read_mr_ddt_def bind_eq_Some_conv split: option.splits if_splits)
  with assms(1,2) show ?thesis by (rule read_records_kept)
qed

lemma read_mr_ddt_ok:
  assumes "mr_ok st" and "read_mr_ddt sent rcv idx st db = Some (out, st', db')"
  shows "mr_ok st'"
proof -
  obtain k where "get_lookup st idx = Some k" using assms(2) by (auto simp: read_mr_ddt_def bind_eq_Some_conv)
  from read_mr_ddt_kept [OF assms(1) this assms(2)] show ?thesis by (simp add: kept_def)
qed

lemma find_nonce_lookup:
  "find_nonce st n0 n1 j = Some idx \<Longrightarrow> idx < unat (mr_nfds st - 1) \<Longrightarrow>
   j \<le> idx \<and> (\<exists>k. get_lookup st idx = Some k \<and> lk_nonce0 k = n0 \<and> lk_nonce1 k = n1)"
proof (induction st n0 n1 j rule: find_nonce.induct)
  case (1 st n0 n1 j)
  from "1.prems" show ?case
    by (subst (asm) find_nonce.simps)
      (auto simp: get_lookup_def Let_def split: if_splits dest!: "1.IH")
qed

lemma get_mr_ddt_ok:
  assumes "mr_ok st" and "get_mr_ddt sent pke st db = Some (out, st', db')"
  shows "mr_ok st'"
proof (cases "st' = st")
  case False
  with assms(2) obtain n0 n1 idx and rcount :: byte where
    f: "find_nonce st n0 n1 0 = Some idx" "idx < unat (mr_nfds st - 1)"
      "get_records sent (pk_buf pke) (unat rcount) 12 0 zero_prefix idx st db = Some (out, st', db')"
    by (auto simp: get_mr_ddt_def Let_def bind_eq_Some_conv not_le split: if_splits)
  from find_nonce_lookup [OF f(1,2)] obtain k where "get_lookup st idx = Some k" by blast
  from get_records_kept [OF assms(1) this f(3)] show ?thesis by (simp add: kept_def)
qed (use assms in simp)

section \<open>The event loop\<close>

lemma scan_lookups_ok: "mr_ok st \<Longrightarrow> scan_lookups is ps st = Some (ps', st') \<Longrightarrow> mr_ok st'"
proof (induction "is" arbitrary: ps st)
  case (Cons i "is")
  from Cons.prems(2) obtain k where k: "get_lookup st i = Some k" by (auto simp: bind_eq_Some_conv)
  with Cons show ?case
    by (auto simp: bind_eq_Some_conv split: if_splits dest: free_lookups_ok)
qed simp

lemma read_ready_ok: "mr_ok st \<Longrightarrow> read_ready sent recv revents idxs j st db = Some (outs, st', db') \<Longrightarrow> mr_ok st'"
proof (induction j arbitrary: st db outs)
  case (Suc j)
  then show ?case by (fastforce simp: Let_def bind_eq_Some_conv split: if_splits dest: read_mr_ddt_ok)
qed simp

lemma send_keeps:
  assumes "mr_ok st" and "send_mr_ddt sent i st = Some (r, out, st')"
  shows "mr_ok st'"
proof -
  obtain k where "get_lookup st i = Some k" using assms(2) by (auto simp: send_mr_ddt_def bind_eq_Some_conv)
  from send_mr_ddt_ok [OF assms(1) this, of sent] assms(2) show ?thesis by auto
qed

lemma mr_event_turn_ok:
  assumes "mr_ok st" and "mr_event_turn sent recv poll now fds idxs st db = Some (outs, ps, st', db')"
  shows "mr_ok st'"
proof -
  from assms(2) obtain ps1 st1 where s: "scan_lookups [0..<MAX_LOOKUPS]
       \<lparr>ps_fds = fds, ps_idx = idxs, ps_n = 0, ps_timeout = MAP_REPLY_TIMEOUT * 1000, ps_to = (MAP_REPLY_TIMEOUT, 0),
        ps_now = now, ps_l = None\<rparr> st = Some (ps1, st1)"
    by (auto simp: mr_event_turn_def bind_eq_Some_conv)
  from scan_lookups_ok [OF assms(1) s] have ok: "mr_ok (st1\<lparr>mr_nfds := n\<rparr>)" for n by simp
  from assms(2) s show ?thesis
    by (auto simp: mr_event_turn_def Let_def split_beta bind_eq_Some_conv split: if_splits option.splits
        elim!: read_ready_ok [rotated] intro: ok send_keeps [OF ok])
qed

section \<open>The states the resolver reaches\<close>

definition mr_initial :: mr_state where
  "mr_initial = \<lparr>mr_lookups = replicate MAX_LOOKUPS empty_lookup, mr_nfds = 0, ipq_no = 0\<rparr>"

text \<open>Requests that wait, Map-Referrals on the socket of the control plane, turns of the event loop, and
  whatever else changes the database and the number of requests.\<close>

inductive mr_reachable :: "mr_state \<Rightarrow> map_entry list lisp_db \<Rightarrow> bool" where
  start: "mr_reachable mr_initial db"
| request: "mr_reachable st db \<Longrightarrow> pending_request sent socks now pke rn_info st = Some (r, out, st') \<Longrightarrow>
    mr_reachable st' db"
| referral: "mr_reachable st db \<Longrightarrow> get_mr_ddt sent pke st db = Some (out, st', db') \<Longrightarrow> mr_reachable st' db'"
| turn: "mr_reachable st db \<Longrightarrow> mr_event_turn sent' recv poll now fds idxs st db = Some (outs, ps, st', db') \<Longrightarrow>
    mr_reachable st' db'"
| other: "mr_reachable st db \<Longrightarrow> mr_reachable (st\<lparr>ipq_no := n\<rparr>) db'"

lemma mr_initial_ok: "mr_ok mr_initial"
  by (auto simp: mr_ok_def mr_initial_def lookup_ok_def one_per_nonce_def empty_lookup_def)

lemma mr_reachable_ok: "mr_reachable st db \<Longrightarrow> mr_ok st"
  by (induction rule: mr_reachable.induct)
    (auto intro: mr_initial_ok pending_request_ok get_mr_ddt_ok mr_event_turn_ok)

end
