(* ===== verification/Cp_Resolver_Props.thy ===== *)
theory Cp_Resolver_Props
  imports Cp_Resolver_Inv
begin

text \<open>
  What the map resolver promises: the invariant of its table in every state it reaches, what a new
  lookup sends and keeps, that a lookup comes to an end, and what Map-Referrals and the poll table
  do where the code does not check a bound.
\<close>

section \<open>Locators as a stack\<close>

definition holds_rlocs :: "lookup \<Rightarrow> map_entry list \<Rightarrow> bool" where
  "holds_rlocs k es \<longleftrightarrow> length es < 2 ^ 32 \<and>
     (\<exists>l xs. lk_rlocs k = Some l \<and> list_at l xs \<and> map snd xs = map Some es \<and> lk_rloc_cur k = last_cell xs)"

lemma holds_lookup_ok:
  assumes "holds_rlocs k es" and "lk_pke k \<noteq> None"
  shows "lookup_ok k"
proof -
  from assms(1) obtain l xs where l: "lk_rlocs k = Some l" "list_at l xs" "map snd xs = map Some es"
    "lk_rloc_cur k = last_cell xs" "length es < 2 ^ 32" by (auto simp: holds_rlocs_def)
  have "None \<notin> set (map snd xs)" unfolding l(3) by auto
  then have "None \<notin> snd ` set xs" by (simp only: set_map not_False_eq_True)
  moreover have "length xs = length es" using arg_cong [OF l(3), of length] by simp
  then have "last_cell xs = None \<or> l_count l \<noteq> 0"
    using count_cases(3) [OF l(2)] l(5) by (cases xs rule: rev_cases) (auto simp: last_cell_def)
  ultimately show ?thesis using l(4) by (intro lookup_okI [OF assms(2) l(1,2)]) auto
qed

lemma send_pops:
  assumes "holds_rlocs k (es @ [e])" and "lk_pke k \<noteq> None" and "lk_active k \<noteq> 0" and "get_lookup st i = Some k"
    and "su_family (me_rloc e) \<in> {FAM_INET, FAM_INET6}"
  shows "\<exists>k'. send_mr_ddt True i st =
      Some (1, Some (sk_set_port (me_rloc e) LISP_CP_PORT, lk_orgi_pkg k), set_lookup i k' st) \<and>
    holds_rlocs k' es \<and> lk_active k' = lk_active k \<and> lk_count k' = lk_count k + 1 \<and>
    lk_nonce0 k' = lk_nonce0 k \<and> lk_nonce1 k' = lk_nonce1 k \<and> lk_pke k' = lk_pke k \<and> lk_orgi_pkg k' = lk_orgi_pkg k"
proof -
  from assms(1) obtain l0 xs where l0: "lk_rlocs k = Some l0" "list_at l0 xs" "map snd xs = map Some (es @ [e])"
    "lk_rloc_cur k = last_cell xs" "length (es @ [e]) < 2 ^ 32" by (auto simp: holds_rlocs_def)
  from l0(3) obtain zs r0 where xs: "xs = zs @ [(r0, Some e)]" "map snd zs = map Some es"
    by (cases xs rule: rev_cases) auto
  then have cur: "lk_rloc_cur k = Some (Ent r0)" using l0(4) by simp
  obtain l ys r e' l' nx where s: "lk_rlocs k = Some l" "list_at l (ys @ [(r, Some e')])" "list_at l' ys"
      "l_count l' = l_count l - 1" "l_count l \<noteq> 0" "length ys < 2 ^ 32 - 1 \<longrightarrow> nx = last_cell ys"
      "lookup_ok (k\<lparr>lk_count := lk_count k + 1, lk_rlocs := Some l', lk_rloc_cur := nx\<rparr>)"
      "send_mr_ddt True i st = (case su_family (me_rloc e') of
         FAM_OTHER _ \<Rightarrow> Some (1, None, set_lookup i (k\<lparr>lk_count := lk_count k + 1\<rparr>) st)
       | _ \<Rightarrow> Some (if True then 1 else 0, Some (sk_set_port (me_rloc e') LISP_CP_PORT, lk_orgi_pkg k),
           set_lookup i (if True then k\<lparr>lk_count := lk_count k + 1, lk_rlocs := Some l', lk_rloc_cur := nx\<rparr>
             else k\<lparr>lk_count := lk_count k + 1\<rparr>) st))"
    by (rule send_current [OF holds_lookup_ok [OF assms(1,2)] assms(3,4) cur, of True])
  have "map fst (ys @ [(r, Some e')]) = map fst xs \<and> ys @ [(r, Some e')] = xs"
    using list_at_unique [of l "ys @ [(r, Some e')]" xs] s(1,2) l0(1,2) by simp
  then have y: "ys = zs" "e' = e" using xs(1) by auto
  have "length ys = length es" using arg_cong [OF xs(2), of length] y(1) by simp
  then have "nx = last_cell ys" using s(6) l0(5) by simp
  with s(3) xs(2) y(1) l0(5) have "holds_rlocs (k\<lparr>lk_count := lk_count k + 1, lk_rlocs := Some l', lk_rloc_cur := nx\<rparr>) es"
    by (auto simp: holds_rlocs_def)
  with s(8) y(2) assms(5) show ?thesis
    by (intro exI [of _ "k\<lparr>lk_count := lk_count k + 1, lk_rlocs := Some l', lk_rloc_cur := nx\<rparr>"]) auto
qed

lemma copied_holds:
  assumes "copy_rlocs es list_init = Some l" and "last_rloc l = Some cur" and "length es < 2 ^ 32"
    and "lk_rlocs k = Some l" and "lk_rloc_cur k = cur"
  shows "holds_rlocs k es"
proof -
  from copy_rlocs_at [OF list_at_init, of es] assms(1) obtain ys where ys: "list_at l ys" "map snd ys = map Some es"
    by auto
  have "length ys = length es" using arg_cong [OF ys(2), of length] by simp
  with last_rloc_at [OF ys(1)] assms(2,3) have "cur = last_cell ys" by auto
  with ys assms(3-5) show ?thesis by (auto simp: holds_rlocs_def)
qed

lemma pending_new:
  assumes "length (mr_lookups st) = MAX_LOOKUPS" and "free_slot (mr_lookups st) < MAX_LOOKUPS"
    and "\<forall>k\<in>set (mr_lookups st). \<not> same_nonce (pk_nonce0 pke) (pk_nonce1 pke) k"
    and "saved_package pke = Some pkg" and "length es < 2 ^ 32 - 1" and "su_family (me_rloc e) \<in> {FAM_INET, FAM_INET6}"
  shows "\<exists>st' k. pending_request True (Some (r, r6)) now pke (Some (es @ [e])) st =
      Some (0, Some (sk_set_port (me_rloc e) LISP_CP_PORT, pkg), st') \<and>
    get_lookup st' (free_slot (mr_lookups st)) = Some k \<and> lk_active k = 1 \<and> lk_count k = 1 \<and> lk_pke k = Some pke \<and>
    lk_nonce0 k = pk_nonce0 pke \<and> lk_nonce1 k = pk_nonce1 pke \<and> holds_rlocs k es"
proof -
  let ?i = "free_slot (mr_lookups st)"
  obtain k0 where k0: "get_lookup st ?i = Some k0" using assms(1,2) by (simp add: get_lookup_def)
  obtain l where l: "copy_rlocs (es @ [e]) list_init = Some l" using copy_rlocs_at [OF list_at_init] by blast
  then obtain cur where cur: "last_rloc l = Some cur"
    using copy_rlocs_at [OF list_at_init, of "es @ [e]"] last_rloc_at by fastforce
  let ?k = "k0\<lparr>lk_last_eid := None, lk_rx := r, lk_rx6 := r6, lk_count := 0, lk_active := 1, lk_pke := Some pke,
    lk_orgi_pkg := pkg, lk_nonce0 := pk_nonce0 pke, lk_nonce1 := pk_nonce1 pke, lk_rlocs := Some l,
    lk_rloc_cur := cur, lk_start := now\<rparr>"
  have "holds_rlocs ?k (es @ [e])" using assms(5) by (intro copied_holds [OF l cur]) auto
  from send_pops [OF this _ _ get_set_lookup [OF k0] assms(6)] obtain k' where
    k': "send_mr_ddt True ?i (set_lookup ?i ?k st) = Some (1, Some (sk_set_port (me_rloc e) LISP_CP_PORT, pkg),
        set_lookup ?i k' (set_lookup ?i ?k st))" "holds_rlocs k' es" "lk_active k' = 1" "lk_count k' = 1"
      "lk_nonce0 k' = pk_nonce0 pke" "lk_nonce1 k' = pk_nonce1 pke" "lk_pke k' = Some pke"
    by auto
  have "\<not> length (takeWhile (\<lambda>k. \<not> same_nonce (pk_nonce0 pke) (pk_nonce1 pke) k) (mr_lookups st)) < length (mr_lookups st)"
    using assms(3) by (simp only: takeWhile_all_iff) simp
  then have "pending_request True (Some (r, r6)) now pke (Some (es @ [e])) st =
      Some (0, Some (sk_set_port (me_rloc e) LISP_CP_PORT, pkg), set_lookup ?i k' (set_lookup ?i ?k st))"
    using assms(2,4) k0 l cur k'(1)
    by (simp add: pending_request_def mr_new_lookup_def udp_request_get_nonce_def Let_def)
  with k' get_set_lookup [OF get_set_lookup [OF k0]] show ?thesis by blast
qed

section \<open>Sample values\<close>

definition sample_rloc :: "byte \<Rightarrow> map_entry" where
  "sample_rloc n = \<lparr>me_rloc = set_sin_addr [10, 0, 0, n] (zero_sockunion\<lparr>su_family := FAM_INET\<rparr>), me_priority = n,
     me_weight = 100, me_m_priority = 0, me_m_weight = 0, me_L = 0, me_p = 0, me_r = 1, me_pe = None\<rparr>"

definition sample_waiting :: pk_req_entry where
  "sample_waiting = (new_request [0x80, 0, 0, 0, 1, 2, 3, 4] zero_sockunion zero_sockunion)
     \<lparr>pk_lh := Some 0, pk_nonce0 := 7, pk_nonce1 := 9\<rparr>"

lemma sample_pending:
  "saved_package sample_waiting = Some [0x84, 0, 0, 0, 1, 2, 3, 4]"
  "length (mr_lookups mr_initial) = MAX_LOOKUPS" "free_slot (mr_lookups mr_initial) = 0"
  "\<forall>k\<in>set (mr_lookups mr_initial). \<not> same_nonce (pk_nonce0 sample_waiting) (pk_nonce1 sample_waiting) k"
  "su_family (me_rloc (sample_rloc n)) \<in> {FAM_INET, FAM_INET6}" "0 < MAX_LOOKUPS"
  by code_simp
    (simp_all add: free_slot_def mr_initial_def empty_lookup_def MAX_LOOKUPS_def same_nonce_def sample_rloc_def set_sin_addr_def)

section \<open>Progress of a lookup\<close>

text \<open>The referrals a lookup can still follow, the locators it still has, the attempts until the event
  loop ends it.\<close>

definition lookup_measure :: "lookup \<Rightarrow> nat \<times> nat \<times> nat" where
  "lookup_measure k = (rank k, locs_of k, nat (MR_MAX_LOOKUP + 1 - lk_count k))"

definition lookup_less :: "(lookup \<times> lookup) set" where
  "lookup_less = inv_image (less_than <*lex*> less_than <*lex*> less_than) lookup_measure"

lemma wf_lookup_less: "wf lookup_less"
  unfolding lookup_less_def by (intro wf_inv_image wf_lex_prod wf_less_than)

lemma send_decreases:
  assumes "mr_ok st" and "get_lookup st i = Some k" and "lk_active k \<noteq> 0" and "lk_count k \<le> MR_MAX_LOOKUP"
  shows "\<exists>r out st' k'. send_mr_ddt sent i st = Some (r, out, st') \<and> get_lookup st' i = Some k' \<and>
    (k', k) \<in> lookup_less"
proof -
  from send_mr_ddt_ok [OF assms(1,2), of sent] assms(3,4) obtain r out st' k' where
    s: "send_mr_ddt sent i st = Some (r, out, st')" "get_lookup st' i = Some k'" "lk_last_eid k' = lk_last_eid k"
      "locs_of k' < locs_of k \<or> locs_of k' = locs_of k \<and> lk_count k < lk_count k'" by blast
  have "rank k' = rank k" using s(3) by (simp add: rank_def)
  with s(4) assms(4) have "(k', k) \<in> lookup_less"
    by (auto simp: lookup_less_def lookup_measure_def in_inv_image)
  with s(1,2) show ?thesis by blast
qed

section \<open>The poll table\<close>

definition polled :: "mr_state \<Rightarrow> nat \<Rightarrow> bool" where
  "polled st i \<longleftrightarrow> (\<exists>k. get_lookup st i = Some k \<and> lk_active k \<noteq> 0)"

lemma poll_lookup_iff:
  assumes "length (ps_fds ps) = MAX_LOOKUPS + 1" and "length (ps_idx ps) = MAX_LOOKUPS + 1"
  shows "ps_n ps < MAX_LOOKUPS \<Longrightarrow> \<exists>ps'. poll_lookup i k ps = Some ps' \<and> ps_n ps' = ps_n ps + 2 \<and>
      length (ps_fds ps') = MAX_LOOKUPS + 1 \<and> length (ps_idx ps') = MAX_LOOKUPS + 1"
    and "\<not> ps_n ps < MAX_LOOKUPS \<Longrightarrow> poll_lookup i k ps = None"
  using assms by (auto simp: poll_lookup_def poll_put_def Let_def split_beta bind_eq_None_conv)

lemma scan_lookups_room:
  "length (ps_fds ps) = MAX_LOOKUPS + 1 \<Longrightarrow> length (ps_idx ps) = MAX_LOOKUPS + 1 \<Longrightarrow>
   ps_n ps = 2 * m \<Longrightarrow> set is \<subseteq> {..<MAX_LOOKUPS} \<Longrightarrow> mr_ok st \<Longrightarrow>
   (\<And>i k. get_lookup st i = Some k \<Longrightarrow> lk_active k \<noteq> 0 \<Longrightarrow> lk_count k \<le> MR_MAX_LOOKUP) \<Longrightarrow>
   scan_lookups is ps st \<noteq> None \<longleftrightarrow> m + length (filter (polled st) is) \<le> MAX_LOOKUPS div 2 \<or> filter (polled st) is = []"
proof (induction "is" arbitrary: ps m)
  case (Cons i "is")
  from Cons.prems(4,5) obtain k where k: "get_lookup st i = Some k" using get_lookup_ex [of st i] by auto
  show ?case
  proof (cases "lk_active k = 0")
    case True
    with k Cons show ?thesis by (simp add: polled_def)
  next
    case False
    have n: "\<not> lk_count k > MR_MAX_LOOKUP" using Cons.prems(6) [OF k False] by simp
    have p: "polled st i" using k False by (simp add: polled_def)
    show ?thesis
    proof (cases "ps_n ps < MAX_LOOKUPS")
      case True
      with poll_lookup_iff(1) [OF Cons.prems(1,2), of i k] obtain ps' where
        ps': "poll_lookup i k ps = Some ps'" "ps_n ps' = 2 * Suc m" "length (ps_fds ps') = MAX_LOOKUPS + 1"
          "length (ps_idx ps') = MAX_LOOKUPS + 1" using Cons.prems(3) by auto
      have "scan_lookups is ps' st \<noteq> None \<longleftrightarrow>
          Suc m + length (filter (polled st) is) \<le> MAX_LOOKUPS div 2 \<or> filter (polled st) is = []"
        using Cons.prems(4) by (intro Cons.IH [OF ps'(3,4,2) _ Cons.prems(5,6)]) auto
      moreover have "m < MAX_LOOKUPS div 2" using True Cons.prems(3) by (simp add: MAX_LOOKUPS_def)
      ultimately show ?thesis using k False n ps'(1) p by auto
    next
      case full: False
      then have "poll_lookup i k ps = None" by (rule poll_lookup_iff(2) [OF Cons.prems(1,2)])
      moreover have "\<not> m < MAX_LOOKUPS div 2" using full Cons.prems(3) by (simp add: MAX_LOOKUPS_def)
      ultimately show ?thesis using k False n p by auto
    qed
  qed
qed simp

section \<open>A referral that nobody waits for\<close>

lemma find_nonce_none:
  "mr_nfds st = 0 \<Longrightarrow> length (mr_lookups st) \<le> MAX_LOOKUPS \<Longrightarrow>
   \<forall>k\<in>set (mr_lookups st). \<not> (lk_nonce0 k = n0 \<and> lk_nonce1 k = n1) \<Longrightarrow> j \<le> length (mr_lookups st) \<Longrightarrow>
   find_nonce st n0 n1 j = None"
proof (induction st n0 n1 j rule: find_nonce.induct)
  case (1 st n0 n1 j)
  have "j < unat (mr_nfds st - 1)"
    using "1.prems"(1,2,4) by (simp add: MAX_LOOKUPS_def unsigned_minus_1_eq_mask mask_eq_exp_minus_1)
  moreover have "j < length (mr_lookups st) \<Longrightarrow>
      \<not> (lk_nonce0 (mr_lookups st ! j) = n0 \<and> lk_nonce1 (mr_lookups st ! j) = n1)"
    using "1.prems"(3) nth_mem by blast
  ultimately show ?case using "1" by (cases "j < length (mr_lookups st)"; subst find_nonce.simps) (auto simp: Let_def)
qed

section \<open>Properties\<close>

text \<open>
  A request with a new nonce takes the first free slot: the resolver sends its packet, with the bit of a
  DDT client set, to port 4342 of the last locator of the mapping, whatever its priority, and keeps the
  other locators in their order as what is left to try.
\<close>

theorem pending_request_sends_last:
  assumes "length (mr_lookups st) = MAX_LOOKUPS" and "free_slot (mr_lookups st) < MAX_LOOKUPS"
    and "\<forall>k\<in>set (mr_lookups st). \<not> same_nonce (pk_nonce0 pke) (pk_nonce1 pke) k"
    and "saved_package pke = Some pkg" and "length es < 2 ^ 32 - 1" and "su_family (me_rloc e) \<in> {FAM_INET, FAM_INET6}"
  shows "\<exists>st' k. pending_request True (Some (r, r6)) now pke (Some (es @ [e])) st =
      Some (0, Some (sk_set_port (me_rloc e) LISP_CP_PORT, pkg), st') \<and>
    get_lookup st' (free_slot (mr_lookups st)) = Some k \<and> lk_active k = 1 \<and> lk_count k = 1 \<and> lk_pke k = Some pke \<and>
    lk_nonce0 k = pk_nonce0 pke \<and> lk_nonce1 k = pk_nonce1 pke \<and> holds_rlocs k es"
  using assms by (rule pending_new)

theorem pending_request_sends_last_witness:
  "\<exists>st' k. pending_request True (Some (3, 4)) (0, 0) sample_waiting (Some ([sample_rloc 1] @ [sample_rloc 2])) mr_initial =
      Some (0, Some (sk_set_port (me_rloc (sample_rloc 2)) LISP_CP_PORT, [0x84, 0, 0, 0, 1, 2, 3, 4]), st') \<and>
    get_lookup st' 0 = Some k \<and> holds_rlocs k [sample_rloc 1]"
  using pending_request_sends_last [OF sample_pending(2) _ sample_pending(4,1) _ sample_pending(5),
      of "[sample_rloc 1]" 3 4 "(0, 0)" 2] sample_pending(3,6) by auto

text \<open>
  C33: In every state the resolver reaches, by requests, Map-Referrals and turns of its event loop, the
  invariant of the table holds (no two active lookups have the same nonce, and the pointer of an
  active lookup is null or the last cell of its list), so that sending for a slot never goes through
  a dangling pointer.
\<close>

theorem resolver_invariant:
  assumes "mr_reachable st db" and "i < MAX_LOOKUPS"
  shows "mr_ok st \<and> (\<exists>r out st'. send_mr_ddt sent i st = Some (r, out, st'))"
proof -
  have ok: "mr_ok st" by (rule mr_reachable_ok [OF assms(1)])
  moreover obtain k where "get_lookup st i = Some k" using get_lookup_ex [OF ok assms(2)] by blast
  ultimately show ?thesis using send_mr_ddt_ok [of st i k sent] by blast
qed

theorem resolver_invariant_witness:
  "\<exists>out st' r d st. pending_request True (Some (3, 4)) (0, 0) sample_waiting (Some ([sample_rloc 1] @ [sample_rloc 2]))
      mr_initial = Some (0, Some out, st') \<and> mr_ok st' \<and> send_mr_ddt True 0 st' = Some (r, d, st)"
proof -
  obtain st' out where p: "pending_request True (Some (3, 4)) (0, 0) sample_waiting
      (Some ([sample_rloc 1] @ [sample_rloc 2])) mr_initial = Some (0, Some out, st')"
    using pending_new [OF sample_pending(2) _ sample_pending(4,1) _ sample_pending(5),
      of "[sample_rloc 1]" 3 4 "(0, 0)" 2] sample_pending(3,6) by auto
  from resolver_invariant [OF mr_reachable.request [OF mr_reachable.start p] sample_pending(6), of True] p
  show ?thesis by blast
qed



text \<open>
  The event loop has room for half of the lookups the table holds: a scan of the table stays inside the
  arrays of \<open>poll\<close> exactly when at most 50 of the 100 lookups are active. With one more it writes past them.
\<close>

theorem event_loop_overflow:
  assumes "mr_ok st" and "length fds = MAX_LOOKUPS + 1" and "length idxs = MAX_LOOKUPS + 1"
    and "\<And>i k. get_lookup st i = Some k \<Longrightarrow> lk_active k \<noteq> 0 \<Longrightarrow> lk_count k \<le> MR_MAX_LOOKUP"
    and "ps = \<lparr>ps_fds = fds, ps_idx = idxs, ps_n = 0, ps_timeout = t, ps_to = to, ps_now = now, ps_l = None\<rparr>"
  shows "scan_lookups [0..<MAX_LOOKUPS] ps st = None \<longleftrightarrow>
    50 < length (filter (\<lambda>k. lk_active k \<noteq> 0) (mr_lookups st))"
proof -
  have n: "length (mr_lookups st) = MAX_LOOKUPS" using assms(1) by (simp add: mr_ok_def)
  have "filter (polled st) [0..<MAX_LOOKUPS] = filter (\<lambda>i. lk_active (mr_lookups st ! i) \<noteq> 0) [0..<MAX_LOOKUPS]"
    using n by (intro filter_cong) (auto simp: polled_def get_lookup_def)
  then have "map ((!) (mr_lookups st)) (filter (polled st) [0..<MAX_LOOKUPS]) =
      filter (\<lambda>k. lk_active k \<noteq> 0) (map ((!) (mr_lookups st)) [0..<MAX_LOOKUPS])"
    by (simp add: filter_map comp_def)
  then have "length (filter (polled st) [0..<MAX_LOOKUPS]) = length (filter (\<lambda>k. lk_active k \<noteq> 0) (mr_lookups st))"
    using map_nth [of "mr_lookups st"] n by (metis length_map)
  moreover have "scan_lookups [0..<MAX_LOOKUPS] ps st \<noteq> None \<longleftrightarrow>
      0 + length (filter (polled st) [0..<MAX_LOOKUPS]) \<le> MAX_LOOKUPS div 2 \<or> filter (polled st) [0..<MAX_LOOKUPS] = []"
    using assms by (intro scan_lookups_room) auto
  moreover have "MAX_LOOKUPS div 2 = 50" by (simp add: MAX_LOOKUPS_def)
  ultimately show ?thesis by (cases "scan_lookups [0..<MAX_LOOKUPS] ps st") auto
qed

theorem event_loop_overflow_witness:
  "scan_lookups [0..<MAX_LOOKUPS] \<lparr>ps_fds = replicate 101 0, ps_idx = replicate 101 0, ps_n = 0, ps_timeout = 2000,
     ps_to = (2, 0), ps_now = (5, 0), ps_l = None\<rparr> mr_initial \<noteq> None"
proof -
  have "scan_lookups [0..<MAX_LOOKUPS] \<lparr>ps_fds = replicate 101 0, ps_idx = replicate 101 0, ps_n = 0,
      ps_timeout = 2000, ps_to = (2, 0), ps_now = (5, 0), ps_l = None\<rparr> mr_initial = None \<longleftrightarrow>
      50 < length (filter (\<lambda>k. lk_active k \<noteq> 0) (mr_lookups mr_initial))"
    by (rule event_loop_overflow [OF mr_initial_ok _ _ _ refl])
      (auto simp: mr_initial_def MAX_LOOKUPS_def get_lookup_def empty_lookup_def split: if_splits)
  moreover have "filter (\<lambda>k. lk_active k \<noteq> 0) (mr_lookups mr_initial) = []"
    by (simp add: mr_initial_def empty_lookup_def)
  ultimately show ?thesis by simp
qed

text \<open>
  A Map-Referral that arrives while no lookup is pending makes \<open>get_mr_ddt\<close> read past its table: the
  bound it compares with is the length of the poll table less one, as an unsigned number. Every message of
  12 bytes with the type of a Map-Referral and a nonce that no slot has does it, also at a process that is
  not a map resolver.
\<close>

theorem referral_without_lookup:
  assumes "mr_nfds st = 0" and "length (mr_lookups st) = MAX_LOOKUPS" and "pk_buf pke = [f, a, b, c] @ net32 n0 @ net32 n1 @ rest"
    and "get_field 4 4 f = LISP_TYPE_MAP_REFERRAL"
    and "\<forall>k\<in>set (mr_lookups st). \<not> (lk_nonce0 k = n0 \<and> lk_nonce1 k = n1)"
  shows "get_mr_ddt sent pke st db = None"
proof -
  have len: "4 = length [f, a, b, c] + 0" "8 = length ([f, a, b, c] @ net32 n0) + 0" by simp_all
  have split: "pk_buf pke = ([f, a, b, c] @ net32 n0) @ net32 n1 @ rest" using assms(3) by simp
  have "rd32be (pk_buf pke) 4 = Some n0" unfolding assms(3) len(1) rd32be_at by simp
  moreover have "rd32be (pk_buf pke) 8 = Some n1" unfolding split len(2) rd32be_at by simp
  moreover have "lisp_type (pk_buf pke) 0 = Some LISP_TYPE_MAP_REFERRAL"
    using assms(3,4) by (simp add: lisp_type_def rd8_def)
  moreover have "find_nonce st n0 n1 0 = None"
    using assms(1,2,5) by (intro find_nonce_none) auto
  ultimately show ?thesis by (simp add: get_mr_ddt_def)
qed

theorem referral_without_lookup_witness:
  "get_mr_ddt True (sample_waiting\<lparr>pk_buf := [0x60, 0, 0, 1, 0, 0, 0, 1, 0, 0, 0, 2]\<rparr>) mr_initial
    \<lparr>lisp_db4 = db_table_init True, lisp_db6 = db_table_init True\<rparr> = None"
  by (rule referral_without_lookup [of _ _ "0x60" 0 0 1 1 2 "[]"])
    (simp_all add: mr_initial_def net32_def net16_def get_field_def LISP_TYPE_MAP_REFERRAL_def empty_lookup_def)

end
