(* ===== verification/Cp_Delivery.thy ===== *)
theory Cp_Delivery
  imports Cp_Lookup Cp_Resolver_Props
begin

text \<open>
  Requests from end to end: which node of the database decides a request, and what happens to a
  Map-Request from the moment it is received as a datagram to the datagrams that leave.
\<close>

section \<open>The node that decides\<close>

text \<open>The table of the family is in order, and the node is the longest one with a role that covers the EID.\<close>

definition decides :: "map_entry list lisp_db \<Rightarrow> cp_prefix \<Rightarrow> map_entry list db_node \<Rightarrow> bool" where
  "decides db p n \<longleftrightarrow> (\<exists>T t a. ms_get_db_table db p = Some T \<and> table_at T t \<and> all_family (family p) t \<and> short t \<and>
     wf_cp p \<and> a \<in> set (refs t) \<and> heap T a = Some n \<and> has_role n \<and> prefix_includes (n_p n) p \<and>
     (\<forall>b\<in>set (refs t). \<forall>m. heap T b = Some m \<longrightarrow> has_role m \<longrightarrow> prefix_includes (n_p m) p \<longrightarrow>
        plen (n_p m) \<le> plen (n_p n)))"

lemma match_request_decided:
  assumes "pk_eid pke = Some (p # ps)" and "decides (ms_db (cs_ms st)) p n"
  shows "\<exists>rn T a k st'. match_request pke st = Some (p, Some rn, T, st') \<and> request_node T rn = Some (a, n\<lparr>lock_ct := k\<rparr>) \<and>
    heap T a = Some (n\<lparr>lock_ct := k\<rparr>) \<and> cs_mr st' = cs_mr st"
proof -
  obtain T t a where T: "ms_get_db_table (ms_db (cs_ms st)) p = Some T" "table_at T t" "all_family (family p) t" "short t"
    "wf_cp p" "a \<in> set (refs t)" "heap T a = Some n" "has_role n" "prefix_includes (n_p n) p"
    "\<forall>b\<in>set (refs t). \<forall>m. heap T b = Some m \<longrightarrow> has_role m \<longrightarrow> prefix_includes (n_p m) p \<longrightarrow> plen (n_p m) \<le> plen (n_p n)"
    using assms(2) by (auto simp: decides_def)
  from request_node_is [OF T(2-10)] obtain rn T' k where
    "db_node_match_prefix p T = Some (Some rn, T')" "request_node T' rn = Some (a, n\<lparr>lock_ct := k\<rparr>)"
    "heap T' a = Some (n\<lparr>lock_ct := k\<rparr>)" by blast
  with T(1) assms(1) show ?thesis
    by (auto simp: match_request_def request_eid_def udp_request_get_eid_def Let_def)
qed

lemma type_lock [simp]:
  "ms_node_is_type (n\<lparr>lock_ct := k\<rparr>) r = ms_node_is_type n r"
  "ms_node_is_referral (n\<lparr>lock_ct := k\<rparr>) = ms_node_is_referral n"
  "ms_node_is_proxy_reply (n\<lparr>lock_ct := k\<rparr>) = ms_node_is_proxy_reply n"
  by (simp_all add: ms_node_is_type_def ms_node_is_referral_def ms_node_is_proxy_reply_def)

section \<open>Forwarding\<close>

lemma request_first_byte:
  assumes "udp_request_add pke security ddt A M P S p s nonce0 nonce1 src dst port eid = Some (Some rpk)"
    and "family eid = FAM_INET \<or> family eid = FAM_INET6" and "pk_itr pke = Some itr"
  shows "\<exists>rest. rp_buf rpk = ecm_byte security ddt # rest"
  using assms
  by (auto simp: udp_request_add_def Option.bind_eq_Some_conv Let_def ecm_byte_def emit_def udp_new_reply_entry_def
      simp del: length_append length_headers split: if_splits)

lemma ecm_byte_clear: "put_field 2 1 0 (ecm_byte security 0) = ecm_byte security 0"
  by (rule bit_word_eqI) (simp add: ecm_byte_def put_field_def bit_simps)

lemma keep_buf: "pk_buf pke = b \<Longrightarrow> pke\<lparr>pk_buf := b\<rparr> = pke"
  by (cases pke) simp

lemma forward_to_etr_sends:
  assumes "pk_buf pke = ecm_byte security 0 # rest" and "info n = Some es" and "find (\<lambda>e. me_r e \<noteq> 0) es = Some e"
    and "su_family (me_rloc e) \<in> {FAM_INET, FAM_INET6}" and "ev_forward ev"
  shows "forward_to_etr ev pke n = Some (1, [(sk_set_port (plain_su (me_rloc e)) LISP_CP_PORT, pk_buf pke)], pke)"
  using assms
  by (auto simp: forward_to_etr_def lisp_type_def rd8_def ecm_fields ecm_byte_clear [unfolded One_nat_def] keep_buf wr_def
      plain_su_def Let_def)

lemma process_decided:
  assumes "udp_preparse_pk pke = Some (1, r1)" and "udp_prc_request r1 = Some (1, r2)"
    and "pk_buf r1 = ecm_byte security ddt # rest" and "\<not> has_fnc cf FNC_XTR"
    and "generic_process_request cf ev r2 st = Some (1, outs, r3, st')"
  shows "lisp_process cf ev pke st = Some ((outs, None), free_request st')"
  using assms by (simp add: lisp_process_def process_encapsulated_def lisp_type_def rd8_def ecm_fields type_defs)

lemma request_delivered:
  assumes "udp_request_add pke security 0 A M P S p s nonce0 nonce1 src dst port eid = Some (Some rpk)"
    and "wf_su src" and "wf_su dst" and "pk_itr pke = Some itr" and "itr \<noteq> []" and "length itr \<le> 32"
    and "\<forall>a\<in>set itr. wf_itr a" and "wf_padded (family eid) (addr eid)"
    and "has_fnc cf FNC_MS" and "\<not> has_fnc cf FNC_XTR" and "ev_forward ev"
    and "decides (ms_db (cs_ms st)) eid n" and "ms_node_is_type n ROLE_MAPP"
    and "\<not> ms_node_is_referral n" and "\<not> ms_node_is_proxy_reply n"
    and "info n = Some es" and "find (\<lambda>e. me_r e \<noteq> 0) es = Some e" and "su_family (me_rloc e) \<in> {FAM_INET, FAM_INET6}"
  shows "\<exists>st'. lisp_process cf ev (new_request (rp_buf rpk) ssk dsk) st =
      Some (([(sk_set_port (plain_su (me_rloc e)) LISP_CP_PORT, rp_buf rpk)], None), st') \<and>
    cs_mr st' = (cs_mr st)\<lparr>ipq_no := ipq_no (cs_mr st) - 1\<rparr>"
proof -
  from request_trip [OF assms(1-8), of ssk dsk] obtain r1 r2 where
    r: "udp_preparse_pk (new_request (rp_buf rpk) ssk dsk) = Some (1, r1)" "udp_prc_request r1 = Some (1, r2)"
      "pk_ddt r2 = ucast (0 :: byte)" "pk_eid r2 = Some [eid]" "pk_buf r2 = rp_buf rpk" "pk_buf r1 = rp_buf rpk" by blast
  have "family eid = FAM_INET \<or> family eid = FAM_INET6" using assms(8) by (auto simp: wf_padded_def)
  from request_first_byte [OF assms(1) this assms(4)] obtain rest where rest: "rp_buf rpk = ecm_byte security 0 # rest" ..
  from match_request_decided [OF r(4) assms(12)] obtain rn T a k st1 where
    m: "match_request r2 st = Some (eid, Some rn, T, st1)" "request_node T rn = Some (a, n\<lparr>lock_ct := k\<rparr>)"
      "cs_mr st1 = cs_mr st" by blast
  have f: "forward_to_etr ev r2 (n\<lparr>lock_ct := k\<rparr>) =
      Some (1, [(sk_set_port (plain_su (me_rloc e)) LISP_CP_PORT, rp_buf rpk)], r2)"
    using forward_to_etr_sends [of r2 security rest "n\<lparr>lock_ct := k\<rparr>" es e ev] rest r(5) assms(11,16-18) by simp
  have "generic_process_request cf ev r2 st =
      Some (1, [(sk_set_port (plain_su (me_rloc e)) LISP_CP_PORT, rp_buf rpk)], r2, st1)"
    using m f r(3) assms(9,13-15) by (simp add: generic_process_request_def udp_request_is_ddt_def map_request_def)
  from process_decided [OF r(1,2) _ assms(10) this] rest r(6) m(3) show ?thesis
    by (intro exI [of _ "free_request st1"]) (simp add: free_request_def)
qed


text \<open>A map server with one mapping.\<close>

definition etr_net :: "map_entry list db_node" where
  "etr_net = \<lparr>n_p = \<lparr>family = FAM_INET, prefixlen = 16, addr = [192, 168] @ replicate 14 0\<rparr>, parent = Some 0,
     l_left = None, l_right = None, info = Some [reg_entry], flags = Some (ms_new_node_ex ROLE_MAPP), lock_ct = 1\<rparr>"

definition etr_root :: "map_entry list db_node" where
  "etr_root = reg_root\<lparr>l_left := None, l_right := Some 1\<rparr>"

definition etr_table :: db_nodes where
  "etr_table = \<lparr>heap = [0 \<mapsto> etr_root, 1 \<mapsto> etr_net], next_ref = 2, top = Some 0, remove_fct = True, count = 2, removed = []\<rparr>"

definition etr_state :: cp_state where
  "etr_state = \<lparr>cs_ms = \<lparr>ms_db = \<lparr>lisp_db4 = etr_table, lisp_db6 = db_table_init True\<rparr>, ms_sites = Map.empty\<rparr>,
     cs_mr = mr_initial\<rparr>"

definition etr_tree :: "map_entry list rtree" where
  "etr_tree = Nd 0 (n_p etr_root) None 1 Tip (Nd 1 (n_p etr_net) (Some [reg_entry]) 1 Tip Tip)"

definition ms_config :: cp_config where
  "ms_config = \<lparr>cf_fncs = FNC_MS, cf_lisp_te = False\<rparr>"

definition sample_env :: cp_env where
  "sample_env = \<lparr>ev_reply = True, ev_referral = True, ev_forward = True, ev_ddt = True, ev_raw_socket = True, ev_raw = True,
     ev_socks = Some (3, 4), ev_now = (0, 0)\<rparr>"

lemma etr_table_at:
  "table_at etr_table etr_tree" "all_family FAM_INET etr_tree" "short etr_tree" "wf_cp sample_eid"
  by (simp_all add: table_at_def etr_table_def etr_tree_def etr_root_def reg_root_def etr_net_def short_def sample_eid_def
    wf_cp_def plen_def extends_def pkey_def all_family_def byte_bits_def)

lemma etr_covers: "prefix_includes (n_p etr_net) sample_eid" "has_role etr_net"
proof -
  have "prefix_match (n_p etr_net) sample_eid = Some True" by code_simp
  then show "prefix_includes (n_p etr_net) sample_eid"
    by (simp add: prefix_includes_def etr_net_def sample_eid_def wf_cp_def plen_def)
  show "has_role etr_net" by (simp add: has_role_def etr_net_def ms_new_node_ex_def ROLE_MAPP_def)
qed

lemma etr_decides: "decides (ms_db (cs_ms etr_state)) sample_eid etr_net"
  unfolding decides_def
proof (intro exI conjI)
  show "ms_get_db_table (ms_db (cs_ms etr_state)) sample_eid = Some etr_table"
    by (simp add: ms_get_db_table_def etr_state_def sample_eid_def)
  show "all_family (family sample_eid) etr_tree" using etr_table_at(2) by (simp add: sample_eid_def)
  show "(1 :: ref) \<in> set (refs etr_tree)" by (simp add: etr_tree_def)
  show "heap etr_table 1 = Some etr_net" by (simp add: etr_table_def)
  show "\<forall>b\<in>set (refs etr_tree). \<forall>m. heap etr_table b = Some m \<longrightarrow> has_role m \<longrightarrow>
      prefix_includes (n_p m) sample_eid \<longrightarrow> plen (n_p m) \<le> plen (n_p etr_net)"
    by (simp add: etr_tree_def etr_table_def etr_root_def reg_root_def plen_def)
qed (rule etr_table_at etr_covers)+


end
