(* ===== verification/Cp_Failures.thy ===== *)
theory Cp_Failures
  imports Cp_Delivery
begin

text \<open>
  Messages that the control plane does not survive or does not forget: encapsulated messages that are too
  short, requests for IPv6 EIDs that nobody has, retransmitted requests at a map resolver, and negative
  prefixes that cover what is registered.
\<close>

section \<open>Messages without a control header\<close>

text \<open>
  C38: An Encapsulated Control Message that ends before its inner headers do, or whose inner packet is neither
  IPv4 nor IPv6, makes every control plane follow a null pointer: \<open>_lisp_process\<close> ignores what
  \<open>udp_preparse_pk\<close> answers and \<open>udp_prc_request\<close> reads the header that was not found.
\<close>

theorem short_encapsulated_crashes:
  assumes "lisp_type b 0 = Some LISP_TYPE_ENCAPSULATED_CONTROL_MESSAGE" and "4 \<le> length b" and "length b < 2 ^ 16"
    and "length b < 32 \<or> (\<exists>v. rd8 b 4 = Some v \<and> get_field 4 4 v \<notin> {4, 6})"
  shows "lisp_process cf ev (new_request b si di) st = None"
proof -
  have n: "unat (of_nat (length b) :: u16) = length b" using assms(3) by (simp add: unat_of_nat)
  have "b \<noteq> []" using assms(2) by auto
  then have "\<exists>f. rd8 b 0 = Some f" by (simp add: rd8_def)
  with n assms have "\<exists>r. udp_preparse_pk (new_request b si di) = Some (-1, r) \<and> pk_lcm r = None \<and> pk_buf r = b"
    by (auto simp: udp_preparse_pk_def new_request_def Let_def)
  with assms(1) show ?thesis
    by (auto simp: lisp_process_def process_encapsulated_def udp_prc_request_def type_defs)
qed

theorem short_encapsulated_crashes_witness:
  "lisp_process ms_config sample_env (new_request [0x80, 0, 0, 0] sample_su sample_su) etr_state = None"
  by (rule short_encapsulated_crashes) (simp_all add: lisp_type_def rd8_def get_field_def type_defs)

section \<open>Requests for EIDs that nobody has\<close>

text \<open>Of the nodes that cover the EID only the root has a role, and the root is not a mapping.\<close>

definition unassigned :: "map_entry list lisp_db \<Rightarrow> cp_prefix \<Rightarrow> bool" where
  "unassigned db p \<longleftrightarrow> (\<exists>T root q i k l r n. ms_get_db_table db p = Some T \<and> table_at T (Nd root q i k l r) \<and>
     all_family (family p) (Nd root q i k l r) \<and> short (Nd root q i k l r) \<and> wf_cp p \<and> prefix_includes q p \<and>
     heap T root = Some n \<and> \<not> ms_node_is_type n ROLE_MAPP \<and>
     (\<forall>b\<in>set (refs l) \<union> set (refs r). \<forall>m. heap T b = Some m \<longrightarrow> has_role m \<longrightarrow> \<not> prefix_includes (n_p m) p))"

lemma request_unassigned:
  assumes "pk_eid pke = Some (p # ps)" and "unassigned (ms_db (cs_ms st)) p" and "pk_ddt pke = 0" and "has_fnc cf FNC_MS"
  shows "\<exists>st'. generic_process_request cf ev pke st = Some (0, [], pke, st') \<and> cs_mr st' = cs_mr st"
proof -
  obtain T root q i k l r n where T: "ms_get_db_table (ms_db (cs_ms st)) p = Some T" "table_at T (Nd root q i k l r)"
    "all_family (family p) (Nd root q i k l r)" "short (Nd root q i k l r)" "wf_cp p" "prefix_includes q p"
    "heap T root = Some n" "\<not> ms_node_is_type n ROLE_MAPP"
    "\<forall>b\<in>set (refs l) \<union> set (refs r). \<forall>m. heap T b = Some m \<longrightarrow> has_role m \<longrightarrow> \<not> prefix_includes (n_p m) p"
    using assms(2) unfolding unassigned_def by blast
  from request_node_longest [OF T(2-5) refl T(6)] obtain rn T' a m where
    m: "db_node_match_prefix p T = Some (Some rn, T')" "request_node T' rn = Some (a, m)" "heap T' a = Some m"
      "a \<in> set (refs (Nd root q i k l r))" "prefix_includes (n_p m) p" "has_role m \<or> a = root" by blast
  from m(1) obtain x where x: "db_lock_node x T = Some T'"
    by (auto simp: db_node_match_prefix_def lock_matched_def Option.bind_eq_Some_conv split: option.splits)
  from m(3) obtain m0 c where m0: "heap T a = Some m0" "m = m0\<lparr>lock_ct := c\<rparr>"
    unfolding db_lock_node_heap(1) [OF x] by (auto split: if_splits intro: that [of _ "lock_ct m"])
  have a: "a = root"
  proof (rule ccontr)
    assume "a \<noteq> root"
    with m(4,6) m0 have "a \<in> set (refs l) \<union> set (refs r)" "has_role m0" by (auto simp: has_role_def)
    with T(9) m0 m(5) show False by auto
  qed
  have "top T' = Some root" using db_lock_node_heap(2) [OF x] T(2) by (simp add: table_at_def)
  then have c: "climb_roles (ROLE_EID OR ROLE_GEID) (heap T') (top T') root = Some root"
    by (subst climb_roles.simps) simp
  have "\<not> ms_node_is_type m ROLE_MAPP" using T(7,8) m0 a by auto
  with T(1) m(1-3) a c assms \<open>top T' = Some root\<close> show ?thesis
    by (simp add: generic_process_request_def match_request_def request_eid_def udp_request_get_eid_def Let_def
        udp_request_is_ddt_def map_request_def)
qed

lemma request_head6:
  assumes "udp_request_add pke security ddt A M P S p s nonce0 nonce1 src dst port eid = Some (Some rpk)"
    and "family eid = FAM_INET6" and "pk_itr pke = Some itr"
  shows "\<exists>rest. rp_buf rpk = ecm_byte security ddt # 0 # 0 # 0 # 0x6E # rest"
  using assms
  by (auto simp: udp_request_add_def Option.bind_eq_Some_conv Let_def ecm_byte_def emit_def udp_new_reply_entry_def
      ip6_header_def simp del: length_append length_headers split: if_splits)

lemma forward_v6: "pk_buf pke = ecm_byte security ddt # 0 # 0 # 0 # 0x6E # rest \<Longrightarrow> forward ev pke = None"
proof -
  assume b: "pk_buf pke = ecm_byte security ddt # 0 # 0 # 0 # 0x6E # rest"
  have v: "get_field 4 4 (0x6E :: byte) = 6" by (simp add: get_field_def)
  have "rd8 (pk_buf pke) 4 = Some 0x6E" using b by (simp add: rd8_def)
  moreover have "lisp_type (pk_buf pke) 0 = Some LISP_TYPE_ENCAPSULATED_CONTROL_MESSAGE"
    using b by (simp add: lisp_type_def rd8_def ecm_fields)
  ultimately show ?thesis using v by (simp add: forward_def)
qed

text \<open>
  A Map-Request for an IPv6 EID that no site, mapping or range of a map server covers ends the map server:
  the request that nobody answers is handed to \<open>_forward\<close>, which for an inner IPv6 datagram goes on with
  the null pointer it set for the IPv4 header.
\<close>

theorem unassigned_ipv6_crashes:
  assumes "udp_request_add pke security 0 A M P S p s nonce0 nonce1 src dst port eid = Some (Some rpk)"
    and "wf_su src" and "wf_su dst" and "pk_itr pke = Some itr" and "itr \<noteq> []" and "length itr \<le> 32"
    and "\<forall>a\<in>set itr. wf_itr a" and "wf_padded (family eid) (addr eid)"
    and "has_fnc cf FNC_MS" and "\<not> has_fnc cf FNC_XTR"
    and "family eid = FAM_INET6" and "unassigned (ms_db (cs_ms st)) eid"
  shows "lisp_process cf ev (new_request (rp_buf rpk) ssk dsk) st = None"
proof -
  from request_trip [OF assms(1-8), of ssk dsk] obtain r1 r2 where
    r: "udp_preparse_pk (new_request (rp_buf rpk) ssk dsk) = Some (1, r1)" "udp_prc_request r1 = Some (1, r2)"
      "pk_ddt r2 = ucast (0 :: byte)" "pk_eid r2 = Some [eid]" "pk_buf r2 = rp_buf rpk" "pk_buf r1 = rp_buf rpk" by blast
  obtain rest where rest: "rp_buf rpk = ecm_byte security 0 # 0 # 0 # 0 # 0x6E # rest"
    using request_head6 [OF assms(1,11,4)] by blast
  have ddt: "pk_ddt r2 = 0" using r(3) by simp
  obtain st1 where "generic_process_request cf ev r2 st = Some (0, [], r2, st1)"
    using request_unassigned [OF r(4) assms(12) ddt assms(9)] by blast
  moreover have "forward ev r2 = None"
    using forward_v6 r(5) rest by simp
  ultimately show ?thesis
    using r(1,2,6) rest assms(10)
    by (simp add: lisp_process_def process_encapsulated_def lisp_type_def rd8_def ecm_fields type_defs)
qed

text \<open>A map server that knows no IPv6 prefix.\<close>

definition v6_eid :: cp_prefix where
  "v6_eid = \<lparr>family = FAM_INET6, prefixlen = 32, addr = [0x20, 0x01, 0x0D, 0xB8] @ replicate 12 0\<rparr>"

definition v6_root :: "map_entry list db_node" where
  "v6_root = \<lparr>n_p = \<lparr>family = FAM_INET6, prefixlen = 0, addr = replicate 16 0\<rparr>, parent = None, l_left = None,
     l_right = None, info = None, flags = Some (ms_new_node_ex ROLE_ROOT), lock_ct = 1\<rparr>"

definition v6_table :: db_nodes where
  "v6_table = \<lparr>heap = [0 \<mapsto> v6_root], next_ref = 1, top = Some 0, remove_fct = True, count = 1, removed = []\<rparr>"

definition v6_state :: cp_state where
  "v6_state = \<lparr>cs_ms = \<lparr>ms_db = \<lparr>lisp_db4 = etr_table, lisp_db6 = v6_table\<rparr>, ms_sites = Map.empty\<rparr>,
     cs_mr = mr_initial\<rparr>"

lemma v6_unassigned: "unassigned (ms_db (cs_ms v6_state)) v6_eid"
proof -
  have "prefix_match (n_p v6_root) v6_eid = Some True" by code_simp
  then have "prefix_includes (n_p v6_root) v6_eid"
    by (simp add: prefix_includes_def v6_root_def v6_eid_def wf_cp_def plen_def)
  moreover have "table_at v6_table (Nd 0 (n_p v6_root) None 1 Tip Tip)"
    "all_family (family v6_eid) (Nd 0 (n_p v6_root) None 1 Tip Tip)" "wf_cp v6_eid" "plen (n_p v6_root) < 128"
    by (simp_all add: table_at_def v6_table_def v6_root_def wf_cp_def plen_def extends_def all_family_def v6_eid_def)
  moreover have "ms_get_db_table (ms_db (cs_ms v6_state)) v6_eid = Some v6_table" "heap v6_table 0 = Some v6_root"
    "\<not> ms_node_is_type v6_root ROLE_MAPP"
    by (simp_all add: ms_get_db_table_def v6_state_def v6_eid_def v6_table_def ms_node_is_type_def v6_root_def
      ms_new_node_ex_def ROLE_ROOT_def ROLE_MAPP_def)
  ultimately show ?thesis unfolding unassigned_def
    by (intro exI [of _ v6_table] exI [of _ 0] exI [of _ "n_p v6_root"] exI [of _ None] exI [of _ 1] exI [of _ Tip]
        exI [of _ v6_root]) (simp add: short_def)
qed

theorem unassigned_ipv6_crashes_witness:
  "\<exists>rpk. udp_request_add sample_req 0 0 1 0 0 0 0 0 7 8 sample_su sample_su 61000 v6_eid = Some (Some rpk) \<and>
    lisp_process ms_config sample_env (new_request (rp_buf rpk) sample_su sample_su) v6_state = None"
proof -
  have "\<exists>rpk. udp_request_add sample_req 0 0 1 0 0 0 0 0 7 8 sample_su sample_su 61000 v6_eid = Some (Some rpk)"
    by (simp add: udp_request_add_def sockunion_to_afi_address_def sample_su_def v6_eid_def sample_req_def sample_itr_def
      request_message_def prefix_address_def emit_def udp_new_reply_entry_def PKBUFLEN_def Let_def sin_addr_def)
  then obtain rpk where r: "udp_request_add sample_req 0 0 1 0 0 0 0 0 7 8 sample_su sample_su 61000 v6_eid = Some (Some rpk)" ..
  have w: "wf_su sample_su" "pk_itr sample_req = Some [sample_itr]" "[sample_itr] \<noteq> []" "length [sample_itr] \<le> 32"
    "\<forall>a\<in>set [sample_itr]. wf_itr a" "wf_padded (family v6_eid) (addr v6_eid)" "family v6_eid = FAM_INET6"
    by (simp_all add: wf_su_def sample_su_def wf_itr_def wf_padded_def sample_itr_def v6_eid_def sample_req_def)
  have c: "has_fnc ms_config FNC_MS" "\<not> has_fnc ms_config FNC_XTR"
    by (simp_all add: has_fnc_def ms_config_def FNC_MS_def FNC_XTR_def)
  from unassigned_ipv6_crashes [OF r w(1,1-6) c w(7) v6_unassigned] r show ?thesis by blast
qed

section \<open>Requests that are sent again\<close>

text \<open>Sending for a lookup frees no request.\<close>

lemma set_lookup_pke:
  "get_lookup st i = Some k \<Longrightarrow> lk_pke k' = lk_pke k \<Longrightarrow>
   map lk_pke (mr_lookups (set_lookup i k' st)) = map lk_pke (mr_lookups st)"
  by (auto simp: set_lookup_def get_lookup_def map_update list_update_same_conv split: if_splits)

lemma send_keeps_requests:
  assumes "send_mr_ddt sent i st = Some (r, out, st')"
  shows "map lk_pke (mr_lookups st') = map lk_pke (mr_lookups st) \<and> ipq_no st' = ipq_no st"
proof -
  from assms obtain k where "get_lookup st i = Some k" by (auto simp: send_mr_ddt_def Option.bind_eq_Some_conv)
  with assms set_lookup_pke [of st i k] show ?thesis
    by (auto simp: send_mr_ddt_def Let_def Option.bind_eq_Some_conv set_lookup_def split: if_splits option.splits af.splits;
        metis af.exhaust)
qed

text \<open>
  A map resolver forgets a request that is sent again while its lookup is pending: the resolver sends for
  the lookup once more, but the new copy is stored in no lookup and is not freed, so that the number of requests
  in the process, which the receiving thread compares with its limit, stays too high for good.
\<close>

theorem retransmission_leaks:
  assumes "udp_preparse_pk pke = Some (1, r1)" and "udp_prc_request r1 = Some (1, r2)"
    and "lisp_type (pk_buf r1) 0 = Some LISP_TYPE_ENCAPSULATED_CONTROL_MESSAGE"
    and "pk_eid r2 = Some (p # ps)" and "pk_ddt r2 = 0" and "decides (ms_db (cs_ms st)) p n"
    and "ms_node_is_type n ROLE_MAPP" and "ms_node_is_referral n" and "has_fnc cf FNC_MR" and "\<not> has_fnc cf FNC_XTR"
    and "mr_ok (cs_mr st)" and "k \<in> set (mr_lookups (cs_mr st))" and "same_nonce (pk_nonce0 r2) (pk_nonce1 r2) k"
  shows "\<exists>outs st'. lisp_process cf ev pke st = Some ((outs, None), st') \<and> ipq_no (cs_mr st') = ipq_no (cs_mr st) \<and>
    map lk_pke (mr_lookups (cs_mr st')) = map lk_pke (mr_lookups (cs_mr st))"
proof -
  from match_request_decided [OF assms(4,6)] obtain rn T a c st1 where
    m: "match_request r2 st = Some (p, Some rn, T, st1)" "request_node T rn = Some (a, n\<lparr>lock_ct := c\<rparr>)"
      "cs_mr st1 = cs_mr st" by blast
  let ?mr = "cs_mr st"
  let ?l = "length (takeWhile (\<lambda>k. \<not> same_nonce (pk_nonce0 r2) (pk_nonce1 r2) k) (mr_lookups ?mr))"
  have l: "?l < length (mr_lookups ?mr)"
    using assms(12,13) by (metis (mono_tags, lifting) length_takeWhile_le nat_less_le takeWhile_all_iff)
  then obtain k1 where k1: "get_lookup ?mr ?l = Some k1" by (simp add: get_lookup_def)
  let ?k = "k1\<lparr>lk_count := 0\<rparr>" and ?st = "set_lookup ?l (k1\<lparr>lk_count := 0\<rparr>) ?mr"
  have "mr_ok ?st"
    by (rule set_lookup_ok [OF assms(11) k1]) (simp_all add: counted_ok get_lookup_ok [OF assms(11) k1] same_wait_def)
  from send_mr_ddt_ok [OF this get_set_lookup [OF k1], of "ev_ddt ev"] obtain r out mr where
    s: "send_mr_ddt (ev_ddt ev) ?l ?st = Some (r, out, mr)" by blast
  have kept: "map lk_pke (mr_lookups mr) = map lk_pke (mr_lookups ?mr)" "ipq_no mr = ipq_no ?mr"
    using send_keeps_requests [OF s] set_lookup_pke [OF k1, of ?k] by (simp_all add: set_lookup_def)
  have "pending_request (ev_ddt ev) (ev_socks ev) (ev_now ev) r2 (info n) ?mr = Some (0, out, mr)"
    using l k1 s by (simp add: pending_request_def udp_request_get_nonce_def)
  then have "generic_process_request cf ev r2 st = Some (2, option_list out, r2, st1\<lparr>cs_mr := mr\<rparr>)"
    using m assms(5,7-9)
    by (simp add: generic_process_request_def udp_request_is_ddt_def map_request_def wait_request_def)
  with assms(1-3,10) kept show ?thesis
    by (simp add: lisp_process_def process_encapsulated_def type_defs)
qed

text \<open>A map resolver with a referral for 192.168.0.0/16 in its cache and a lookup for the nonce 7, 9.\<close>

definition ref_net :: "map_entry list db_node" where
  "ref_net = etr_net\<lparr>flags := Some ((ms_new_node_ex ROLE_MAPP)\<lparr>mf_referral := 1\<rparr>)\<rparr>"

definition ref_table :: db_nodes where
  "ref_table = etr_table\<lparr>heap := [0 \<mapsto> etr_root, 1 \<mapsto> ref_net]\<rparr>"

definition ref_state :: "mr_state \<Rightarrow> cp_state" where
  "ref_state mr = \<lparr>cs_ms = \<lparr>ms_db = \<lparr>lisp_db4 = ref_table, lisp_db6 = v6_table\<rparr>, ms_sites = Map.empty\<rparr>, cs_mr = mr\<rparr>"

lemma ref_decides: "decides (ms_db (cs_ms (ref_state mr))) sample_eid ref_net"
  unfolding decides_def
proof (intro exI conjI)
  show "ms_get_db_table (ms_db (cs_ms (ref_state mr))) sample_eid = Some ref_table"
    by (simp add: ms_get_db_table_def ref_state_def sample_eid_def)
  show "table_at ref_table etr_tree"
    using etr_table_at(1) by (simp add: table_at_def ref_table_def etr_table_def etr_tree_def ref_net_def etr_net_def)
  show "all_family (family sample_eid) etr_tree" using etr_table_at(2) by (simp add: sample_eid_def)
  show "(1 :: ref) \<in> set (refs etr_tree)" by (simp add: etr_tree_def)
  show "heap ref_table 1 = Some ref_net" by (simp add: ref_table_def)
  show "has_role ref_net" by (simp add: has_role_def ref_net_def ms_new_node_ex_def ROLE_MAPP_def)
  show "prefix_includes (n_p ref_net) sample_eid" using etr_covers(1) by (simp add: ref_net_def)
  show "\<forall>b\<in>set (refs etr_tree). \<forall>m. heap ref_table b = Some m \<longrightarrow> has_role m \<longrightarrow>
      prefix_includes (n_p m) sample_eid \<longrightarrow> plen (n_p m) \<le> plen (n_p ref_net)"
    by (simp add: etr_tree_def ref_table_def etr_root_def reg_root_def plen_def)
qed (rule etr_table_at)+

theorem retransmission_leaks_witness:
  "\<exists>rpk mr out outs st'. udp_request_add sample_req 0 0 1 0 0 0 0 0 7 9 sample_su sample_su 61000 sample_eid = Some (Some rpk) \<and>
    pending_request True (Some (3, 4)) (0, 0) sample_waiting (Some ([] @ [sample_rloc 2])) mr_initial = Some (0, out, mr) \<and>
    lisp_process \<lparr>cf_fncs = FNC_MR, cf_lisp_te = False\<rparr> sample_env (new_request (rp_buf rpk) sample_su sample_su)
      (ref_state mr) = Some ((outs, None), st') \<and> ipq_no (cs_mr st') = ipq_no mr"
proof -
  have "\<exists>rpk. udp_request_add sample_req 0 0 1 0 0 0 0 0 7 9 sample_su sample_su 61000 sample_eid = Some (Some rpk)"
    by (simp add: udp_request_add_def sockunion_to_afi_address_def sample_su_def sample_eid_def sample_req_def sample_itr_def
      request_message_def prefix_address_def emit_def udp_new_reply_entry_def PKBUFLEN_def Let_def sin_addr_def)
  then obtain rpk where q: "udp_request_add sample_req 0 0 1 0 0 0 0 0 7 9 sample_su sample_su 61000 sample_eid = Some (Some rpk)" ..
  have w: "wf_su sample_su" "pk_itr sample_req = Some [sample_itr]" "[sample_itr] \<noteq> []" "length [sample_itr] \<le> 32"
    "\<forall>a\<in>set [sample_itr]. wf_itr a" "wf_padded (family sample_eid) (addr sample_eid)"
    by (simp_all add: wf_su_def sample_su_def wf_itr_def wf_padded_def sample_itr_def sample_eid_def sample_req_def)
  from request_trip [OF q w(1,1-6), of sample_su sample_su] obtain r1 r2 where
    r: "udp_preparse_pk (new_request (rp_buf rpk) sample_su sample_su) = Some (1, r1)" "udp_prc_request r1 = Some (1, r2)"
      "pk_ddt r2 = 0" "pk_eid r2 = Some [sample_eid]" "pk_buf r1 = rp_buf rpk" "pk_nonce0 r2 = 7" "pk_nonce1 r2 = 9"
    by (auto simp: udp_request_get_nonce_def)
  obtain rest where rest: "rp_buf rpk = ecm_byte 0 0 # rest"
    using request_first_byte [OF q _ w(2)] by (auto simp: sample_eid_def)
  then have t: "lisp_type (pk_buf r1) 0 = Some LISP_TYPE_ENCAPSULATED_CONTROL_MESSAGE"
    using r(5) by (simp add: lisp_type_def rd8_def ecm_fields)
  obtain mr k out where p: "pending_request True (Some (3, 4)) (0, 0) sample_waiting (Some ([] @ [sample_rloc 2])) mr_initial =
      Some (0, Some out, mr)" "get_lookup mr 0 = Some k" "lk_active k = 1" "lk_nonce0 k = 7" "lk_nonce1 k = 9"
    using pending_new [OF sample_pending(2) _ sample_pending(4,1) _ sample_pending(5), of "[]" 3 4 "(0, 0)" 2]
      sample_pending(3,6) by (auto simp: sample_waiting_def)
  have ok: "mr_ok (cs_mr (ref_state mr))"
    using mr_reachable_ok [OF mr_reachable.request [OF mr_reachable.start p(1)]] by (simp add: ref_state_def)
  have k: "k \<in> set (mr_lookups (cs_mr (ref_state mr)))" "same_nonce (pk_nonce0 r2) (pk_nonce1 r2) k"
    using p(2-5) r(6,7) by (auto simp: get_lookup_def ref_state_def same_nonce_def split: if_splits)
  have c: "ms_node_is_type ref_net ROLE_MAPP" "ms_node_is_referral ref_net"
    "has_fnc \<lparr>cf_fncs = FNC_MR, cf_lisp_te = False\<rparr> FNC_MR" "\<not> has_fnc \<lparr>cf_fncs = FNC_MR, cf_lisp_te = False\<rparr> FNC_XTR"
    by (simp_all add: ms_node_is_type_def ms_node_is_referral_def ref_net_def ms_new_node_ex_def ROLE_MAPP_def has_fnc_def
      FNC_MR_def FNC_XTR_def)
  from retransmission_leaks [OF r(1,2) t r(4,3) ref_decides c ok k] q p(1) show ?thesis
    by (fastforce simp: ref_state_def)
qed

section \<open>Negative prefixes\<close>

definition hole_child :: "map_entry list db_node" where
  "hole_child = etr_net\<lparr>n_p := \<lparr>family = FAM_INET, prefixlen = 16, addr = [10, 1] @ replicate 14 0\<rparr>\<rparr>"

definition hole_site :: "map_entry list db_node" where
  "hole_site = reg_net\<lparr>l_left := Some 2\<rparr>"

definition ipv4_host :: "byte list \<Rightarrow> cp_prefix" where
  "ipv4_host a = \<lparr>family = FAM_INET, prefixlen = 32, addr = a @ replicate 12 0\<rparr>"

text \<open>
  The prefix of a negative answer covers what is registered. The code compares the first bytes of the
  requested prefix with later bytes of the children: at the site 10.0.0.0/8 with the mapping 10.1.0.0/16 a
  request for 10.2.0.0 is answered with the negative prefix 10.0.0.0/13, which includes the mapping.
\<close>

theorem hole_covers_mapping:
  "get_hole_eid [2 \<mapsto> hole_child] hole_site (ipv4_host [10, 2, 0, 0]) =
     Some (0, \<lparr>family = FAM_INET, prefixlen = 13, addr = 10 # replicate 15 0\<rparr>) \<and>
   prefix_match \<lparr>family = FAM_INET, prefixlen = 13, addr = 10 # replicate 15 0\<rparr> (n_p hole_child) = Some True \<and>
   ms_node_is_type hole_child ROLE_MAPP"
proof -
  have "hole_loop (addr (ipv4_host [10, 2, 0, 0])) 8 32 9 0 (Some (addr (n_p hole_child), 1)) None = Some 13"
    by code_simp
  moreover have "cut_address (ipv4_host [10, 2, 0, 0]) 13 = Some (10 # replicate 15 0)" by code_simp
  ultimately have "get_hole_eid [2 \<mapsto> hole_child] hole_site (ipv4_host [10, 2, 0, 0]) =
     Some (0, \<lparr>family = FAM_INET, prefixlen = 13, addr = 10 # replicate 15 0\<rparr>)"
    by (simp add: get_hole_eid_def hole_site_def reg_net_def plen_def hole_child_def etr_net_def ipv4_host_def)
  moreover have "prefix_match \<lparr>family = FAM_INET, prefixlen = 13, addr = 10 # replicate 15 0\<rparr> (n_p hole_child) = Some True"
    by code_simp
  moreover have "ms_node_is_type hole_child ROLE_MAPP"
    by (simp add: ms_node_is_type_def hole_child_def etr_net_def ms_new_node_ex_def ROLE_MAPP_def)
  ultimately show ?thesis by blast
qed

end
