(* ===== verification/Cp_Xtr.thy ===== *)
theory Cp_Xtr
  imports Cp_Server
begin

text \<open>
  The registration thread of an xTR (\<open>general_register_process\<close> of \<open>udp.c\<close>): one round sends every map
  server that is configured a Map-Register with the mappings of that server, signed with the key it shares
  with it. The nonces come from \<open>random\<close>, the time and the answers of \<open>sendtov\<close> from outside. \<open>None\<close> is a
  failed assertion, a null pointer, an access outside a buffer, or the end of the process by \<open>exit\<close>.
\<close>

section \<open>Map servers\<close>

record ms_entry =
  mse_addr :: sockunion
  mse_id :: byte
  mse_key :: "string option"
  mse_proxy :: int
  mse_eids :: "(af \<times> ref) list"

definition PKMSIZE :: nat where "PKMSIZE = 4096"

section \<open>The message\<close>

text \<open>The paths of a mapping are counted for a map server that answers in the place of the xTR, but the
  locators that follow are those without paths.\<close>

definition register_count :: "cp_config \<Rightarrow> ms_entry \<Rightarrow> map_entry list \<Rightarrow> byte" where
  "register_count cf ms l =
     (if mse_proxy ms \<noteq> 0 \<and> cf_lisp_te cf \<and> has_fnc cf FNC_XTR
      then of_int (sum_list (map (\<lambda>e. int (entry_paths e)) l)) else of_nat (length l))"

text \<open>The second message, which has the paths, is filled and never sent.\<close>

fun register_add_paths :: "cp_config \<Rightarrow> pk_rpl_entry \<Rightarrow> map_entry list \<Rightarrow> pk_rpl_entry option" where
  "register_add_paths cf rpk_ex [] = Some rpk_ex"
| "register_add_paths cf rpk_ex (e # es) = do {
     rpk_ex \<leftarrow> udp_register_add_locator cf rpk_ex e True;
     register_add_paths cf rpk_ex es }"

fun register_mappings ::
  "cp_config \<Rightarrow> ms_entry \<Rightarrow> map_entry list lisp_db \<Rightarrow> (af \<times> ref) list \<Rightarrow> pk_rpl_entry \<Rightarrow> pk_rpl_entry option \<Rightarrow>
   (pk_rpl_entry \<times> pk_rpl_entry option) option" where
  "register_mappings cf ms db [] rpk rpk_ex = Some (rpk, rpk_ex)"
| "register_mappings cf ms db ((f, a) # ps) rpk rpk_ex = do {
     T \<leftarrow> db_table_of f db;
     node \<leftarrow> heap T a;
     l \<leftarrow> info node;
     mflags \<leftarrow> flags node;
     rpk \<leftarrow> udp_register_add_record rpk (n_p node) (mf_ttl mflags) (register_count cf ms l) (ucast (mf_version mflags))
       (ucast (mf_A mflags)) (ucast (mf_act mflags));
     rpk \<leftarrow> register_add_locators cf rpk l;
     rpk_ex \<leftarrow> (case rpk_ex of
                 Some r \<Rightarrow> if cf_lisp_te cf \<and> has_fnc cf FNC_XTR then map_option Some (register_add_paths cf r l)
                           else Some (Some r)
               | None \<Rightarrow> Some None);
     register_mappings cf ms db ps rpk rpk_ex }"

text \<open>The header, with the authentication data cleared. The bit of a proxy is the lowest of the number.\<close>

definition register_header :: "ms_entry \<Rightarrow> bool \<Rightarrow> u32 \<Rightarrow> u32 \<Rightarrow> byte list \<Rightarrow> byte list option" where
  "register_header ms want nonce0 nonce1 b = do {
     f0 \<leftarrow> rd8 b 0;
     f2 \<leftarrow> rd8 b 2;
     b \<leftarrow> wr 0 [put_field 3 1 (of_int (mse_proxy ms)) f0] b;
     b \<leftarrow> wr 12 (net16 1) b;
     b \<leftarrow> wr 14 (net16 20) b;
     b \<leftarrow> (if want then wr 2 [put_field 0 1 1 f2] b else Some b);
     b \<leftarrow> wr 16 (replicate 20 0) b;
     wr 4 (net32 nonce0 @ net32 nonce1) b }"

text \<open>The hash is taken of a copy of \<open>PKMSIZE\<close> bytes, as hashing destroys what is hashed.\<close>

definition register_sign :: "ms_entry \<Rightarrow> byte list \<Rightarrow> byte list option" where
  "register_sign ms b = do {
     k \<leftarrow> mse_key ms;
     mac \<leftarrow> (if length b \<le> PKMSIZE then hmac_of (key_bytes k) b else None);
     wr 16 (take 20 mac) b }"

definition udp_register_terminate :: "bool \<Rightarrow> pk_rpl_entry \<Rightarrow> sockunion \<Rightarrow> (int \<times> datagram option) option" where
  "udp_register_terminate sent rpk ds =
     (case su_family ds of
        FAM_OTHER _ \<Rightarrow> None
      | _ \<Rightarrow> Some (if sent then 1 else 0, Some (ds, rp_buf rpk)))"

section \<open>Rounds\<close>

text \<open>A Map-Notify is asked for every fifteenth message.\<close>

definition next_count :: "int \<Rightarrow> bool \<times> int" where
  "next_count cnt = (if cnt mod 15 = 0 then (True, 1) else (False, cnt + 1))"

definition register_at ::
  "cp_config \<Rightarrow> map_entry list lisp_db \<Rightarrow> bool \<Rightarrow> u32 \<times> u32 \<Rightarrow> ms_entry \<Rightarrow> int \<Rightarrow> (datagram option \<times> int) option" where
  "register_at cf db sent nonce ms cnt = do {
     rpk \<leftarrow> udp_register_add None;
     rpk_ex \<leftarrow> (if cf_lisp_te cf \<and> has_fnc cf FNC_XTR then map_option Some (udp_register_add None) else Some None);
     (rpk, rpk_ex) \<leftarrow> register_mappings cf ms db (mse_eids ms) rpk rpk_ex;
     let (want, cnt) = next_count cnt;
     b \<leftarrow> register_header ms want (fst nonce) (snd nonce) (rp_buf rpk);
     b \<leftarrow> register_sign ms b;
     (_, out) \<leftarrow> udp_register_terminate sent (rpk\<lparr>rp_buf := b\<rparr>) (mse_addr ms);
     Some (out, cnt) }"

fun general_register_turn ::
  "cp_config \<Rightarrow> map_entry list lisp_db \<Rightarrow> (nat \<Rightarrow> bool) \<Rightarrow> (nat \<Rightarrow> u32 \<times> u32) \<Rightarrow> ms_entry list \<Rightarrow> int \<Rightarrow>
   (datagram option list \<times> int) option" where
  "general_register_turn cf db sent nonce [] cnt = Some ([], cnt)"
| "general_register_turn cf db sent nonce (ms # mss) cnt = do {
     (out, cnt) \<leftarrow> register_at cf db (sent 0) (nonce 0) ms cnt;
     (outs, cnt) \<leftarrow> general_register_turn cf db (\<lambda>i. sent (Suc i)) (\<lambda>i. nonce (Suc i)) mss cnt;
     Some (out # outs, cnt) }"

end
