(* ===== verification/Cp_Xtr_Trip.thy ===== *)
theory Cp_Xtr_Trip
  imports Cp_Xtr Cp_Delivery
begin

text \<open>
  Registration from end to end: the Map-Register an xTR sends is accepted by a map server that has the same
  key for the site of the EID, the mapping is in its database afterwards, and from then on requests for the
  EID reach the xTR.
\<close>

section \<open>The message an xTR sends\<close>

lemma wr_at: "length ys = length bs \<Longrightarrow> i = length xs \<Longrightarrow> wr i bs (xs @ ys @ zs) = Some (xs @ bs @ zs)"
  by (simp add: wr_def)

text \<open>The header of a Map-Register with one record, and the message it heads.\<close>

definition register_flags :: "int \<Rightarrow> byte" where
  "register_flags proxy = put_field 3 1 (of_int proxy) (put_field 4 4 LISP_TYPE_MAP_REGISTER 0)"

definition want_flag :: "bool \<Rightarrow> byte" where
  "want_flag want = (if want then put_field 0 1 1 0 else 0)"

definition register_packet :: "int \<Rightarrow> bool \<Rightarrow> u32 \<Rightarrow> u32 \<Rightarrow> byte list \<Rightarrow> byte list \<Rightarrow> byte list" where
  "register_packet proxy want nonce0 nonce1 mac rec =
     [register_flags proxy, 0, want_flag want, 1] @ (net32 nonce0 @ net32 nonce1) @ net16 1 @ net16 20 @ mac @ rec"

lemma register_header_is:
  assumes "b = [put_field 4 4 LISP_TYPE_MAP_REGISTER 0, 0, 0, 1] @ replicate 8 0 @ replicate 4 0 @ replicate 20 0 @ rec"
  shows "register_header ms want nonce0 nonce1 b =
    Some (register_packet (mse_proxy ms) want nonce0 nonce1 (replicate 20 0) rec)"
proof -
  let ?t = "put_field 4 4 LISP_TYPE_MAP_REGISTER 0" and ?f = "register_flags (mse_proxy ms)"
  let ?z = "replicate 20 (0 :: byte) @ rec"
  have 0: "rd8 b 0 = Some ?t" "rd8 b 2 = Some 0" unfolding assms by (simp_all add: rd8_def)
  have 1: "wr 0 [?f] b = Some ([?f, 0, 0, 1] @ replicate 8 0 @ replicate 4 0 @ ?z)"
    unfolding assms by (simp add: wr_def)
  have 2: "wr 12 (net16 1) ([?f, 0, 0, 1] @ replicate 8 0 @ replicate 4 0 @ ?z) =
      Some ([?f, 0, 0, 1] @ replicate 8 0 @ net16 1 @ replicate 2 0 @ ?z)"
    using wr_at [of "replicate 2 0" "net16 1" 12 "[?f, 0, 0, 1] @ replicate 8 0" "replicate 2 0 @ ?z"]
    by (simp add: numeral_eq_Suc)
  have 3: "wr 14 (net16 20) ([?f, 0, 0, 1] @ replicate 8 0 @ net16 1 @ replicate 2 0 @ ?z) =
      Some ([?f, 0, 0, 1] @ replicate 8 0 @ net16 1 @ net16 20 @ ?z)"
    using wr_at [of "replicate 2 0" "net16 20" 14 "[?f, 0, 0, 1] @ replicate 8 0 @ net16 1" ?z] by simp
  have 4: "(if want then wr 2 [put_field 0 1 1 0] ([?f, 0, 0, 1] @ replicate 8 0 @ net16 1 @ net16 20 @ ?z)
      else Some ([?f, 0, 0, 1] @ replicate 8 0 @ net16 1 @ net16 20 @ ?z)) =
      Some ([?f, 0, want_flag want, 1] @ replicate 8 0 @ net16 1 @ net16 20 @ ?z)"
    by (simp add: want_flag_def wr_def)
  have 5: "wr 16 (replicate 20 0) ([?f, 0, want_flag want, 1] @ replicate 8 0 @ net16 1 @ net16 20 @ ?z) =
      Some ([?f, 0, want_flag want, 1] @ replicate 8 0 @ net16 1 @ net16 20 @ ?z)"
    using wr_at [of "replicate 20 0" "replicate 20 0" 16 "[?f, 0, want_flag want, 1] @ replicate 8 0 @ net16 1 @ net16 20" rec]
    by simp
  have 6: "wr 4 (net32 nonce0 @ net32 nonce1) ([?f, 0, want_flag want, 1] @ replicate 8 0 @ net16 1 @ net16 20 @ ?z) =
      Some ([?f, 0, want_flag want, 1] @ (net32 nonce0 @ net32 nonce1) @ net16 1 @ net16 20 @ ?z)"
    by (rule wr_at) simp_all
  have d: "put_field 3 1 (of_int (mse_proxy ms)) ?t = ?f" by (simp only: register_flags_def)
  show ?thesis
    by (simp only: register_header_def 0 Option.bind.simps d 1 2 3 4 5 6 register_packet_def)
qed

lemma register_sign_is:
  assumes "mse_key ms = Some key" and "length key < 2 ^ 31"
    and "register_sign ms (register_packet proxy want nonce0 nonce1 (replicate 20 0) rec) = Some b"
  shows "b = register_packet proxy want nonce0 nonce1
      (hmac_spec (key_bytes key) (register_packet proxy want nonce0 nonce1 (replicate 20 0) rec)) rec"
    and "length b \<le> PKMSIZE"
proof -
  let ?p = "register_packet proxy want nonce0 nonce1 (replicate 20 0) rec"
  let ?h = "[register_flags proxy, 0, want_flag want, 1] @ (net32 nonce0 @ net32 nonce1) @ net16 1 @ net16 20"
  have l: "length ?p \<le> PKMSIZE" using assms(1,3) by (auto simp: register_sign_def split: if_splits)
  have "length (takeWhile (\<lambda>c. c \<noteq> CHR 0x00) key) \<le> length key" by (rule length_takeWhile_le)
  with assms(2) have "length (key_bytes key) < 2 ^ 31" by (simp add: key_bytes_def)
  then have "hmac_of (key_bytes key) ?p = Some (hmac_spec (key_bytes key) ?p)"
    using l by (intro hmac_of_spec) (simp_all add: PKMSIZE_def)
  moreover have n: "length (hmac_spec (key_bytes key) ?p) = 20" by (simp add: hmac_spec_def)
  moreover have "wr 16 (hmac_spec (key_bytes key) ?p) (?h @ replicate 20 0 @ rec) =
      Some (?h @ hmac_spec (key_bytes key) ?p @ rec)"
    using n by (intro wr_at) simp_all
  ultimately show b: "b = register_packet proxy want nonce0 nonce1 (hmac_spec (key_bytes key) ?p) rec"
    using assms(1,3) l by (simp add: register_sign_def register_packet_def)
  show "length b \<le> PKMSIZE" using l n unfolding b by (simp add: register_packet_def)
qed

lemma cleared_packet:
  "length mac = 20 \<Longrightarrow> cleared (register_packet proxy want nonce0 nonce1 mac rec) False =
     Some (register_packet proxy want nonce0 nonce1 (replicate 20 0) rec)"
proof -
  assume m: "length mac = 20"
  let ?h = "[register_flags proxy, 0, want_flag want, 1] @ (net32 nonce0 @ net32 nonce1) @ net16 1"
  have "rd16be (register_packet proxy want nonce0 nonce1 mac rec) 14 = Some 20"
    using rd16be_at [of ?h "net16 20 @ mac @ rec" 0] by (simp add: register_packet_def)
  moreover have "wr 16 (replicate 20 0) ((?h @ net16 20) @ mac @ rec) = Some ((?h @ net16 20) @ replicate 20 0 @ rec)"
    using m by (intro wr_at) simp_all
  ultimately show ?thesis by (simp add: cleared_def register_packet_def)
qed

lemma add_record_head:
  assumes "udp_register_add_record rpk p ttl lcount version A act = Some rpk1" and "rp_req rpk = None"
  shows "take (length (rp_buf rpk)) (rp_buf rpk1) = (rp_buf rpk)[3 := rp_buf rpk ! 3 + 1]"
proof -
  from assms obtain bs where "emit bs (poke 3 (\<lambda>c. c + 1) rpk) = Some rpk1"
    unfolding udp_register_add_record_def udp_reply_add_record_def
    by (auto simp: request_probes_def Let_def Option.bind_eq_Some_conv poke_def)
  then show ?thesis by (auto simp: emit_def poke_def split: if_splits)
qed

lemma register_count_plain: "\<forall>e\<in>set es. me_pe e = None \<Longrightarrow> register_count cf ms es = of_nat (length es)"
proof -
  assume "\<forall>e\<in>set es. me_pe e = None"
  then have "sum_list (map (\<lambda>e. int (entry_paths e)) es) = int (length es)"
    by (induction es) (simp_all add: entry_paths_def)
  then show ?thesis by (simp add: register_count_def)
qed

text \<open>The message before the records.\<close>

definition new_register :: pk_rpl_entry where
  "new_register = \<lparr>rp_buf = [put_field 4 4 LISP_TYPE_MAP_REGISTER 0, 0, 0, 0] @ replicate 12 0 @ replicate 20 0, rp_req = None\<rparr>"

lemma register_add_new: "udp_register_add None = Some new_register"
  by (simp add: udp_register_add_def emit_def udp_new_reply_entry_def PKBUFLEN_def new_register_def)

lemma header_of_built:
  assumes "udp_register_add_record new_register p ttl lcount version A act = Some rpk1"
    and "register_add_locators cf rpk1 es = Some rpk2" and "\<forall>e\<in>set es. wf_entry e"
    and "rp_buf rpk2 = pre @ rec" and "length pre = length (rp_buf new_register)"
  shows "register_header ms want nonce0 nonce1 (rp_buf rpk2) =
    Some (register_packet (mse_proxy ms) want nonce0 nonce1 (replicate 20 0) rec)"
proof -
  have n: "rp_req new_register = None" by (simp add: new_register_def)
  obtain bs where bs: "rp_buf rpk2 = rp_buf rpk1 @ bs" using register_add_locators_reads [OF assms(2,3)] by auto
  have "length (rp_buf new_register) \<le> length (rp_buf rpk1)"
    using arg_cong [OF add_record_head [OF assms(1) n], of length] by simp
  then have "pre = take (length (rp_buf new_register)) (rp_buf rpk1)"
    using assms(4,5) bs by (metis append_eq_conv_conj take_append diff_is_0_eq take0 append_Nil2)
  then have "pre = [put_field 4 4 LISP_TYPE_MAP_REGISTER 0, 0, 0, 1] @ replicate 8 0 @ replicate 4 0 @ replicate 20 0"
    unfolding add_record_head [OF assms(1) n] by (simp add: new_register_def numeral_eq_Suc)
  then show ?thesis using assms(4) by (intro register_header_is) simp
qed

lemma register_terminate_sends:
  "udp_register_terminate sent rpk ds = Some (r, out) \<Longrightarrow> out = Some (ds, rp_buf rpk)"
  by (cases "su_family ds") (auto simp: udp_register_terminate_def)

lemma register_at_packet:
  assumes "register_at cf xdb sent nonce ms cnt = Some (out, cnt')" and "mse_eids ms = [(f, a)]"
    and "db_table_of f xdb = Some XT" and "heap XT a = Some node" and "info node = Some es" and "flags node = Some fl"
    and "mse_key ms = Some key" and "length key < 2 ^ 31" and "length es < 256" and "\<forall>e\<in>set es. wf_entry e"
    and "distinct (map loc_key es)" and "wf_padded (family (n_p node)) (addr (n_p node))"
  obtains rec r b where "out = Some (mse_addr ms, b)" "carries rec (n_p node) r es" "rr_ttl r = mf_ttl fl"
    "rr_a r = mf_A fl" "rr_version r = version_field (ucast (mf_version fl))" "length b \<le> PKMSIZE"
    "b = register_packet (mse_proxy ms) (cnt mod 15 = 0) (fst nonce) (snd nonce) (hmac_spec (key_bytes key)
      (register_packet (mse_proxy ms) (cnt mod 15 = 0) (fst nonce) (snd nonce) (replicate 20 0) rec)) rec"
proof -
  note 0 = register_add_new
  have c: "register_count cf ms es = of_nat (length es)"
    using assms(10) by (intro register_count_plain) (simp add: wf_entry_def)
  from assms(1-6) 0 c obtain rpk1 rpk2 h b where
    1: "udp_register_add_record new_register (n_p node) (mf_ttl fl) (of_nat (length es)) (ucast (mf_version fl)) (ucast (mf_A fl))
      (ucast (mf_act fl)) = Some rpk1" "register_add_locators cf rpk1 es = Some rpk2"
    and h: "register_header ms (cnt mod 15 = 0) (fst nonce) (snd nonce) (rp_buf rpk2) = Some h"
    and b: "register_sign ms h = Some b" and out: "out = Some (mse_addr ms, b)"
    by (auto simp: register_at_def Option.bind_eq_Some_conv next_count_def dest!: register_terminate_sends
        split: if_splits prod.splits)
  from written_carries [OF 1 assms(9-12)] obtain pre rec r where
    w: "rp_buf rpk2 = pre @ rec" "length pre = length (rp_buf new_register)" "carries rec (n_p node) r es"
      "rr_ttl r = mf_ttl fl" "rr_a r = ucast (ucast (mf_A fl) :: byte)"
      "rr_version r = version_field (ucast (mf_version fl))" by blast
  have "register_header ms (cnt mod 15 = 0) (fst nonce) (snd nonce) (rp_buf rpk2) =
      Some (register_packet (mse_proxy ms) (cnt mod 15 = 0) (fst nonce) (snd nonce) (replicate 20 0) rec)"
    using header_of_built [OF 1 assms(10) w(1)] w(2) by simp
  then have s: "register_sign ms
      (register_packet (mse_proxy ms) (cnt mod 15 = 0) (fst nonce) (snd nonce) (replicate 20 0) rec) = Some b"
    using h b by simp
  have "rr_a r = mf_A fl" unfolding w(5) by (rule bit_word_eqI) (simp add: bit_simps)
  with out w(3,4,6) register_sign_is [OF assms(7,8) s] show thesis by (intro that)
qed

section \<open>The site of an EID\<close>

text \<open>A site without mappings: its node is a leaf of the table of the family, with the role of an EID.\<close>

definition site_leaf :: "map_entry list lisp_db \<Rightarrow> cp_prefix \<Rightarrow> ref \<Rightarrow> ref \<Rightarrow> bool" where
  "site_leaf db p e site \<longleftrightarrow> (\<exists>T t n f. ms_get_db_table db p = Some T \<and> table_at T t \<and> all_family (family p) t \<and> short t \<and>
     wf_cp p \<and> e \<in> set (refs t) \<and> top T \<noteq> Some e \<and> heap T e = Some n \<and> l_left n = None \<and> l_right n = None \<and>
     prefix_includes (n_p n) p \<and> flags n = Some f \<and> mf_range f AND ROLE_EID \<noteq> 0 \<and> mf_rsvd f = Some site)"

lemma tree_at_None: "tree_at h par None t \<longleftrightarrow> t = Tip"
  by (cases t) auto

lemma spine_leaf:
  "tree_at h par x t \<Longrightarrow> e \<in> set (spine p t) \<Longrightarrow> distinct (refs t) \<Longrightarrow> trie t \<Longrightarrow> h e = Some n \<Longrightarrow>
   l_left n = None \<Longrightarrow> l_right n = None \<Longrightarrow> last (spine p t) = e"
proof (induction t arbitrary: par x)
  case (Nd a q i k l r)
  from Nd.prems(1) obtain m where m: "h a = Some m" "tree_at h (Some a) (l_left m) l" "tree_at h (Some a) (l_right m) r" by auto
  have inc: "prefix_includes q p" using Nd.prems(2) by (auto split: if_splits)
  show ?case
  proof (cases "e = a")
    case True
    then have "l = Tip" "r = Tip" using m Nd.prems(5-7) by (simp_all add: tree_at_None)
    with inc True show ?thesis by simp
  next
    case False
    define b where "b = pkey p ! plen q"
    define s where "s = (if b then r else l)"
    have sp: "spine p (Nd a q i k l r) = a # spine p s"
      unfolding s_def by (rule spine_side [OF Nd.prems(4) inc]) (simp add: b_def)
    then have e: "e \<in> set (spine p s)" using False Nd.prems(2) by simp
    have "last (spine p s) = e"
      using Nd.IH(1) [OF m(2)] Nd.IH(2) [OF m(3)] e Nd.prems(3-7) by (cases b) (auto simp: s_def)
    with sp e show ?thesis by auto
  qed
qed simp

lemma site_validated:
  assumes "carries rec p r es" and "site_leaf db p e site"
  shows "\<exists>T T' t. ms_validate_eid db (q @ rec) (length q) = Some (Some site, length rec, set_table (family p) T' db) \<and>
    ms_get_db_table db p = Some T \<and> db_lock_node e T = Some T' \<and> table_at T' t \<and> all_family (family p) t \<and> short t"
proof -
  obtain T t n f where T: "ms_get_db_table db p = Some T" "table_at T t" "all_family (family p) t" "short t" "wf_cp p"
    "e \<in> set (refs t)" "top T \<noteq> Some e" "heap T e = Some n" "l_left n = None" "l_right n = None"
    "prefix_includes (n_p n) p" "flags n = Some f" "mf_range f AND ROLE_EID \<noteq> 0" "mf_rsvd f = Some site"
    using assms(2) by (auto simp: site_leaf_def)
  obtain hl where hl: "hl \<le> length rec" and lc: "unat (rr_locator_count r) = length es" and
    rd: "read_reply_record (q @ rec) (length q) = Some r" "record_eid (q @ rec) (length q) r = Some (Some p)"
      "get_reply_record_size (q @ rec) (length q) = Some hl"
      "locators_len (q @ rec) (length es) (length q + hl) = Some (Some (length rec - hl))"
    using assms(1) unfolding carries_def by blast
  have tr: "tree_at (heap T) None (top T) t" "trie t" "distinct (refs t)" using T(2) by (simp_all add: table_at_def)
  obtain q' i' where "(e, q', i') \<in> set (nodes t)" using T(6) by (auto simp: refs_nodes)
  then have es: "e \<in> set (spine p t)"
    using spine_set [OF tr(2)] tree_at_node_prefix [OF tr(1) _ T(8)] T(11) by blast
  have la: "last (spine p t) = e" by (rule spine_leaf [OF tr(1) es tr(3,2) T(8-10)])
  from match_prefix_spine [OF T(2-5)] es la obtain T' where T': "db_node_match_prefix p T = Some (Some e, T')"
    "db_lock_node e T = Some T'" "table_at T' (bump e t)" by fastforce
  have h: "heap T' e = Some (n\<lparr>lock_ct := lock_ct n + 1\<rparr>)" "top T' = top T"
    using db_lock_node_heap [OF T'(2)] T(8) by simp_all
  have "ms_node_is_type (n\<lparr>lock_ct := lock_ct n + 1\<rparr>) ROLE_EID" using T(12,13) by (simp add: ms_node_is_type_def)
  then have c: "climb_eid (heap T') (top T') e = Some e" using h T(7) by (subst climb_eid.simps) simp
  have "ms_validate_eid db (q @ rec) (length q) = Some (Some site, length rec, set_table (family p) T' db)"
    using rd lc T(1) T'(1) c h T(7,12,14) hl by (simp add: ms_validate_eid_def Let_def)
  moreover have "all_family (family p) (bump e t)" "short (bump e t)"
    using T(3,4) by (simp_all add: all_family_def short_def)
  ultimately show ?thesis using T(1) T'(2,3) by blast
qed

lemma site_cleaned:
  assumes "ms_get_db_table db p = Some T" and "db_lock_node e T = Some T'" and "table_at T' t" and "all_family (family p) t"
    and "short t" and "heap T e = Some n" and "l_left n = None" and "l_right n = None"
    and "list_items (si_eid s) = Some [Some (family p, e)]"
  shows "\<exists>T1 t1. ms_clean_site_mapping s (set_table (family p) T' db) = Some (set_table (family p) T1 db) \<and>
    table_at T1 t1 \<and> all_family (family p) t1 \<and> short t1"
proof -
  let ?n = "n\<lparr>lock_ct := lock_ct n + 1\<rparr>"
  have h: "heap T' e = Some ?n" using db_lock_node_heap [OF assms(2)] assms(6) by simp
  let ?m = "?n\<lparr>flags := map_option cleaned_flags (flags n), info := None\<rparr>"
  have "clean_node e T' = Some (put e ?m T')"
    using h assms(7,8) by (cases n) (simp add: clean_node_def db_node_set_info_def put_def)
  moreover have "db_table_of (family p) (set_table (family p) T' db) = Some T'"
    using assms(1) by (auto simp: db_table_of_def ms_get_db_table_def set_table_def split: af.splits)
  ultimately have "ms_clean_site_mapping s (set_table (family p) T' db) = Some (set_table (family p) (put e ?m T') db)"
    using assms(9) ms_get_set_table(2) [OF assms(1)] by (simp add: ms_clean_site_mapping_def)
  moreover have "table_at (put e ?m T') (set_data e None t)" by (rule table_at_set_data [OF assms(3) h])
  ultimately show ?thesis using assms(4,5) by fastforce
qed

section \<open>The registration at the map server\<close>

lemma packet_reads:
  "rd8 (register_packet proxy want nonce0 nonce1 mac rec) 0 = Some (register_flags proxy)"
  "rd8 (register_packet proxy want nonce0 nonce1 mac rec) 2 = Some (want_flag want)"
  "rd8 (register_packet proxy want nonce0 nonce1 mac rec) 3 = Some 1"
  "rd16be (register_packet proxy want nonce0 nonce1 mac rec) 14 = Some 20"
  "rd32be (register_packet proxy want nonce0 nonce1 mac rec) 4 = Some nonce0"
  "rd32be (register_packet proxy want nonce0 nonce1 mac rec) 8 = Some nonce1"
  "lisp_type (register_packet proxy want nonce0 nonce1 mac rec) 0 = Some LISP_TYPE_MAP_REGISTER"
  "drop 16 (register_packet proxy want nonce0 nonce1 mac rec) = mac @ rec"
proof -
  let ?b = "register_packet proxy want nonce0 nonce1 mac rec"
  let ?f = "[register_flags proxy, 0, want_flag want, 1]"
  show r: "rd8 ?b 0 = Some (register_flags proxy)" "rd8 ?b 2 = Some (want_flag want)" "rd8 ?b 3 = Some 1"
    by (simp_all add: register_packet_def rd8_def)
  show "rd16be ?b 14 = Some 20"
    using rd16be_at [of "?f @ (net32 nonce0 @ net32 nonce1) @ net16 1" "net16 20 @ mac @ rec" 0]
    by (simp add: register_packet_def)
  show "rd32be ?b 4 = Some nonce0"
    using rd32be_at [of ?f "net32 nonce0 @ net32 nonce1 @ net16 1 @ net16 20 @ mac @ rec" 0]
    by (simp add: register_packet_def numeral_eq_Suc)
  show "rd32be ?b 8 = Some nonce1"
    using rd32be_at [of "?f @ net32 nonce0" "net32 nonce1 @ net16 1 @ net16 20 @ mac @ rec" 0]
    by (simp add: register_packet_def numeral_eq_Suc)
  have "take_bit 4 LISP_TYPE_MAP_REGISTER = LISP_TYPE_MAP_REGISTER" by (simp add: type_defs)
  then show "lisp_type ?b 0 = Some LISP_TYPE_MAP_REGISTER"
    using r(1) by (simp add: lisp_type_def register_flags_def field_simps)
  show "drop 16 ?b = mac @ rec"
    by (simp add: register_packet_def)
qed

lemma packet_flags:
  "ucast (get_field 3 1 (register_flags proxy)) = (of_int proxy :: flag)"
  "get_field 0 1 (want_flag want) = (if want then 1 else 0)"
proof -
  have "get_field 3 1 (register_flags proxy) = take_bit 1 (of_int proxy)"
    unfolding register_flags_def by (rule put_field_low) simp
  then have "ucast (get_field 3 1 (register_flags proxy)) = (ucast (of_int proxy :: byte) :: flag)"
    by (simp only: ucast_take_bit)
  also have "\<dots> = of_int proxy" by (rule bit_word_eqI) (simp add: bit_simps)
  finally show "ucast (get_field 3 1 (register_flags proxy)) = (of_int proxy :: flag)" .
  show "get_field 0 1 (want_flag want) = (if want then 1 else 0)"
    by (cases want) (simp_all add: want_flag_def put_field_low get_field_def [of 0 1 0] del: One_nat_def)
qed

lemma notify_ok:
  assumes "36 \<le> length (pk_buf pke)" and "length (pk_buf pke) < 2 ^ 31" and "si_key s = Some key" and "length key < 2 ^ 31"
  shows "\<exists>x. register_notify sent pke s = Some x"
proof -
  let ?b = "pk_buf pke"
  have w: "\<exists>b'. wr i bs b = Some b' \<and> length b' = length b" if "i + length bs \<le> length b" for i bs and b :: "byte list"
    using that by (simp add: wr_def)
  have "0 < length ?b" "2 < length ?b" using assms(1) by linarith+
  then obtain f0 f2 where f: "rd8 ?b 0 = Some f0" "rd8 ?b 2 = Some f2" by (simp add: rd8_def)
  obtain b1 where 1: "wr 0 [put_field 3 1 0 (put_field 4 4 LISP_TYPE_MAP_NOTIFY f0)] ?b = Some b1" "length b1 = length ?b"
    using w [of 0 _ ?b] assms(1) by (metis (no_types) add_0 le_trans length_Cons list.size(3) numeral_le_iff one_le_numeral One_nat_def)
  obtain b2 where 2: "wr 2 [put_field 0 1 0 f2] b1 = Some b2" "length b2 = length ?b"
    using w [of 2 "[put_field 0 1 0 f2]" b1] 1(2) assms(1) by auto
  obtain b3 where 3: "wr 16 (replicate 20 0) b2 = Some b3" "length b3 = length ?b"
    using w [of 16 "replicate 20 0" b2] 2(2) assms(1) by auto
  have "length (takeWhile (\<lambda>c. c \<noteq> CHR 0x00) key) \<le> length key" by (rule length_takeWhile_le)
  with assms(4) have "length (key_bytes key) < 2 ^ 31" by (simp add: key_bytes_def)
  then have m: "hmac_of (key_bytes key) b3 = Some (hmac_spec (key_bytes key) b3)"
    using hmac_of_spec 3(2) assms(2) by simp
  have "length (hmac_spec (key_bytes key) b3) = 20" by (simp add: hmac_spec_def)
  then obtain b4 where "wr 16 (take 20 (hmac_spec (key_bytes key) b3)) b3 = Some b4"
    using w [of 16 "take 20 (hmac_spec (key_bytes key) b3)" b3] 3(2) assms(1) by auto
  with f 1(1) 2(1) 3(1) m assms(3) show ?thesis by (simp add: register_notify_def Let_def)
qed

lemma accepts_new:
  assumes "b = register_packet proxy want nonce0 nonce1
      (hmac_spec (key_bytes key) (register_packet proxy want nonce0 nonce1 (replicate 20 0) rec)) rec"
    and "length b \<le> PKMSIZE" and "length key < 2 ^ 31" and "si_key s = Some key" and "si_hashing s = None"
    and "ms_sites st site = Some s" and "validate_records (ms_db st) b 1 36 None = Some (Some site, db)"
  shows "\<exists>h. ms_validate_register st b = Some (1, Some site,
    st\<lparr>ms_db := db, ms_sites := (ms_sites st)(site \<mapsto> s\<lparr>si_hashing := Some h\<rparr>)\<rparr>)"
proof -
  let ?p = "register_packet proxy want nonce0 nonce1 (replicate 20 0) rec"
  let ?mac = "hmac_spec (key_bytes key) ?p"
  have n: "length (hmac_spec k m) = 20" for k m by (simp add: hmac_spec_def)
  have l: "length b < 2 ^ 31" using assms(2) by (simp add: PKMSIZE_def)
  have b: "rd8 b 3 = Some 1" "rd16be b 14 = Some 20" "drop 16 b = ?mac @ rec" "cleared b False = Some ?p"
    unfolding assms(1) using packet_reads cleared_packet [OF n] by simp_all
  obtain x where x: "cleared b True = Some x"
    using cleared_ok [OF b(2), of True] arg_cong [OF b(3), of length] n by fastforce
  have h: "ms_recal_hashing b (Some key) False = Some ?mac"
    "ms_recal_hashing b (Some key) True = Some (hmac_spec (key_bytes key) x)"
    using ms_recal_ok [OF b(2,4) _ l assms(3)] ms_recal_ok [OF b(2) x _ l assms(3)] n by simp_all
  have "strncmp 20 (?mac @ rec) ?mac = Some 0" using strncmp_prefix [of 20 "?mac @ rec" ?mac] n by simp
  with b h assms(4-7) show ?thesis
    by (intro exI [of _ "hmac_spec (key_bytes key) x"]) (simp add: ms_validate_register_def)
qed

definition xtr_mapping ::
  "map_entry list lisp_db \<Rightarrow> ms_entry \<Rightarrow> cp_prefix \<Rightarrow> map_entry list \<Rightarrow> mapping_flags \<Rightarrow> bool" where
  "xtr_mapping db ms p es fl \<longleftrightarrow> (\<exists>f a T n. mse_eids ms = [(f, a)] \<and> db_table_of f db = Some T \<and> heap T a = Some n \<and>
     n_p n = p \<and> info n = Some es \<and> flags n = Some fl)"

definition plain_mapping :: "cp_prefix \<Rightarrow> map_entry list \<Rightarrow> bool" where
  "plain_mapping p es \<longleftrightarrow> length es < 256 \<and> (\<forall>e\<in>set es. wf_entry e) \<and> distinct (map loc_key es) \<and>
     wf_padded (family p) (addr p) \<and> wf_fam p \<and> plen p < 128"

text \<open>The map server has a site for the EID, with the key and nothing registered.\<close>

definition awaits :: "ms_state \<Rightarrow> cp_prefix \<Rightarrow> string \<Rightarrow> bool" where
  "awaits st p key \<longleftrightarrow> (\<exists>site e s. site_leaf (ms_db st) p e site \<and> ms_sites st site = Some s \<and> si_key s = Some key \<and>
     si_hashing s = None \<and> list_items (si_eid s) = Some [Some (family p, e)])"

text \<open>The mapping is in the database.\<close>

definition stored :: "map_entry list lisp_db \<Rightarrow> cp_prefix \<Rightarrow> map_entry list \<Rightarrow> mapping_flags \<Rightarrow> flag \<Rightarrow>
    map_entry list db_node \<Rightarrow> bool" where
  "stored db p es fl proxy n \<longleftrightarrow> (\<exists>T t a f. ms_get_db_table db p = Some T \<and> table_at T t \<and> all_family (family p) t \<and>
     short t \<and> a \<in> set (refs t) \<and> heap T a = Some n \<and> plen (n_p n) = plen p \<and> pkey (n_p n) = pkey p \<and>
     info n = Some (map plain_entry es) \<and> flags n = Some f \<and> mf_ttl f = mf_ttl fl \<and> mf_A f = mf_A fl \<and>
     mf_version f = version_field (ucast (mf_version fl)) \<and> mf_proxy f = proxy \<and> mf_referral f = 0 \<and>
     mf_range f AND ROLE_MAPP \<noteq> 0)"

lemma preparse_register:
  assumes "lisp_type b 0 = Some LISP_TYPE_MAP_REGISTER" and "12 \<le> length b" and "length b < 2 ^ 16"
    and "rd32be b 4 = Some n0" and "rd32be b 8 = Some n1"
  shows "\<exists>r. udp_preparse_pk (new_request b si di) = Some (1, r) \<and> pk_buf r = b"
  using assms by (simp add: udp_preparse_pk_def preparse_lcm_def new_request_def Let_def unat_of_nat known_type_def type_defs)

text \<open>An accepted message with one record changes the database as the record says.\<close>

lemma register_accepted:
  assumes "ms_validate_register st b = Some (1, Some site, st1)" and "ms_sites st1 site = Some s"
    and "ms_clean_site_mapping s (ms_db st1) = Some db1"
    and "ms_process_register_record cf b 36 (of_int proxy) db1 = Some (n, db2)"
    and "b = register_packet proxy want nonce0 nonce1 mac rec" and "length mac = 20" and "length b \<le> PKMSIZE"
    and "si_key s = Some key" and "length key < 2 ^ 31" and "pk_buf pke = b"
  shows "\<exists>out. udp_register cf sent pke st = Some (1, out, st1\<lparr>ms_db := db2\<rparr>)"
proof -
  have "36 \<le> length b" "length b < 2 ^ 31" using assms(5-7) by (simp_all add: register_packet_def PKMSIZE_def)
  then obtain x where x: "register_notify sent pke s = Some x" using notify_ok assms(8-10) by metis
  have p: "ucast (get_field 3 1 (register_flags proxy)) = (of_int proxy :: flag)" by (rule packet_flags)
  have r: "rd8 b 0 = Some (register_flags proxy)" "rd8 b 2 = Some (want_flag want)" "rd8 b 3 = Some 1"
    "rd16be b 14 = Some 20" unfolding assms(5) by (rule packet_reads)+
  have rr: "register_records cf b 1 36 (of_int proxy) db1 = Some db2" using assms(4) by simp
  show ?thesis
    using r assms(1-3,10) x p rr by (simp add: udp_register_def del: One_nat_def)
qed

lemma registration_trip:
  assumes "register_at cf xdb sent nonce ms cnt = Some (out, cnt')" and "xtr_mapping xdb ms p es fl"
    and "plain_mapping p es" and "mse_key ms = Some key" and "length key < 2 ^ 31" and "awaits (cs_ms st) p key"
    and "has_fnc cf' FNC_MS"
  shows "\<exists>b outs st' n. out = Some (mse_addr ms, b) \<and>
    lisp_process cf' ev (new_request b si di) st = Some ((outs, None), st') \<and>
    cs_mr st' = (cs_mr st)\<lparr>ipq_no := ipq_no (cs_mr st) - 1\<rparr> \<and>
    stored (ms_db (cs_ms st')) p es fl (of_int (mse_proxy ms)) n"
proof -
  have pm: "length es < 256" "\<forall>e\<in>set es. wf_entry e" "distinct (map loc_key es)" "wf_padded (family p) (addr p)"
    "wf_fam p" "plen p < 128" using assms(3) by (simp_all add: plain_mapping_def)
  obtain f a XT node where x: "mse_eids ms = [(f, a)]" "db_table_of f xdb = Some XT" "heap XT a = Some node"
    "n_p node = p" "info node = Some es" "flags node = Some fl" using assms(2) by (auto simp: xtr_mapping_def)
  let ?w = "cnt mod 15 = 0" and ?px = "mse_proxy ms"
  obtain rec r b where out: "out = Some (mse_addr ms, b)" and r: "carries rec p r es" "rr_ttl r = mf_ttl fl"
    "rr_a r = mf_A fl" "rr_version r = version_field (ucast (mf_version fl))" and l: "length b \<le> PKMSIZE"
    and b: "b = register_packet ?px ?w (fst nonce) (snd nonce) (hmac_spec (key_bytes key)
      (register_packet ?px ?w (fst nonce) (snd nonce) (replicate 20 0) rec)) rec"
    using register_at_packet [OF assms(1) x(1-3,5,6) assms(4,5) pm(1-3)] pm(4) x(4) by metis
  define mac where "mac = hmac_spec (key_bytes key) (register_packet ?px ?w (fst nonce) (snd nonce) (replicate 20 0) rec)"
  define q where "q = [register_flags ?px, 0, want_flag ?w, 1] @ (net32 (fst nonce) @ net32 (snd nonce)) @ net16 1 @ net16 20 @ mac"
  have bq: "b = q @ rec" and ql: "length q = 36"
    by (simp_all add: b register_packet_def q_def mac_def hmac_spec_def)
  obtain site e s where s: "site_leaf (ms_db (cs_ms st)) p e site" "ms_sites (cs_ms st) site = Some s"
    "si_key s = Some key" "si_hashing s = None" "list_items (si_eid s) = Some [Some (family p, e)]"
    using assms(6) by (auto simp: awaits_def)
  from site_validated [OF r(1) s(1), of q] obtain T T' t where
    v: "ms_validate_eid (ms_db (cs_ms st)) b 36 = Some (Some site, length rec, set_table (family p) T' (ms_db (cs_ms st)))"
      "ms_get_db_table (ms_db (cs_ms st)) p = Some T" "db_lock_node e T = Some T'" "table_at T' t"
      "all_family (family p) t" "short t" unfolding bq ql by blast
  obtain n0 where n0: "heap T e = Some n0" "l_left n0 = None" "l_right n0 = None"
    using s(1) v(2) by (auto simp: site_leaf_def)
  let ?db = "set_table (family p) T' (ms_db (cs_ms st))"
  have "validate_records (ms_db (cs_ms st)) b 1 36 None = Some (Some site, ?db)" using v(1) by simp
  from accepts_new [OF b l assms(5) s(3,4,2) this] obtain h where
    acc: "ms_validate_register (cs_ms st) b = Some (1, Some site,
      (cs_ms st)\<lparr>ms_db := ?db, ms_sites := (ms_sites (cs_ms st))(site \<mapsto> s\<lparr>si_hashing := Some h\<rparr>)\<rparr>)" by blast
  let ?s = "s\<lparr>si_hashing := Some h\<rparr>"
  from site_cleaned [OF v(2-6) n0, of ?s] s(5) obtain T1 t1 where
    c: "ms_clean_site_mapping ?s ?db = Some (set_table (family p) T1 (ms_db (cs_ms st)))" "table_at T1 t1"
      "all_family (family p) t1" "short t1" by auto
  let ?db1 = "set_table (family p) T1 (ms_db (cs_ms st))"
  from carries_stored [OF r(1) pm(5) ms_get_set_table(1) [OF v(2)] c(2,3), of cf' q "of_int ?px"] ql bq obtain
    db2 T2 rn n f t2 where st2: "ms_process_register_record cf' b 36 (of_int ?px) ?db1 = Some (length rec, db2)"
      "ms_get_db_table db2 p = Some T2" "heap T2 rn = Some n" "plen (n_p n) = plen p" "pkey (n_p n) = pkey p"
      "info n = Some (map plain_entry es)" "flags n = Some f" "mf_ttl f = rr_ttl r" "mf_A f = rr_a r"
      "mf_version f = rr_version r" "mf_proxy f = of_int ?px" "mf_range f AND ROLE_MAPP \<noteq> 0" "mf_referral f = 0"
      "table_at T2 t2" "all_family (family p) t2" "short t1 \<longrightarrow> plen p < 128 \<longrightarrow> short t2" "rn \<in> set (refs t2)"
    by auto
  have bm: "b = register_packet ?px ?w (fst nonce) (snd nonce) mac rec" using b by (simp only: mac_def)
  have pr: "lisp_type b 0 = Some LISP_TYPE_MAP_REGISTER" "rd32be b 4 = Some (fst nonce)" "rd32be b 8 = Some (snd nonce)"
    unfolding bm by (rule packet_reads)+
  have "12 \<le> length b" "length b < 2 ^ 16" using l ql bq by (simp_all add: PKMSIZE_def)
  from preparse_register [OF pr(1) this pr(2,3), of si di] obtain rq where
    rq: "udp_preparse_pk (new_request b si di) = Some (1, rq)" "pk_buf rq = b" by blast
  have "length mac = 20" by (simp add: mac_def hmac_spec_def)
  from register_accepted [OF acc _ _ st2(1) bm this l _ assms(5) rq(2), of ?s "ev_reply ev"] c(1) s(3)
  obtain o1 where "udp_register cf' (ev_reply ev) rq (cs_ms st) = Some (1, o1, (cs_ms st)\<lparr>ms_db := db2,
      ms_sites := (ms_sites (cs_ms st))(site \<mapsto> ?s)\<rparr>)" by auto
  then have "lisp_process cf' ev (new_request b si di) st = Some ((option_list o1, None),
      free_request (st\<lparr>cs_ms := (cs_ms st)\<lparr>ms_db := db2, ms_sites := (ms_sites (cs_ms st))(site \<mapsto> ?s)\<rparr>\<rparr>))"
    using rq pr(1) assms(7) by (simp add: lisp_process_def process_register_def type_defs)
  moreover have "stored db2 p es fl (of_int ?px) n"
    unfolding stored_def using st2 c(4) pm(6) r(2-4) by auto
  ultimately show ?thesis using out
    by (intro exI conjI) (assumption | rule refl | simp add: free_request_def)+
qed


section \<open>Requests for a registered EID\<close>

lemma stored_decides:
  assumes "stored db p es fl 0 n" and "wf_fam p"
  shows "decides db p n" and "ms_node_is_type n ROLE_MAPP" and "\<not> ms_node_is_referral n" and "\<not> ms_node_is_proxy_reply n"
    and "info n = Some (map plain_entry es)"
proof -
  obtain T t a f where T: "ms_get_db_table db p = Some T" "table_at T t" "all_family (family p) t" "short t"
    "a \<in> set (refs t)" "heap T a = Some n" "plen (n_p n) = plen p" "pkey (n_p n) = pkey p" "flags n = Some f"
    "mf_proxy f = 0" "mf_referral f = 0" "mf_range f AND ROLE_MAPP \<noteq> 0" "info n = Some (map plain_entry es)"
    using assms(1) by (auto simp: stored_def)
  show "ms_node_is_type n ROLE_MAPP" "\<not> ms_node_is_referral n" "\<not> ms_node_is_proxy_reply n"
    "info n = Some (map plain_entry es)"
    using T(9-13) by (simp_all add: ms_node_is_type_def ms_node_is_referral_def ms_node_is_proxy_reply_def)
  have w: "wf_cp p" using assms(2) by (simp add: wf_fam_def)
  have tr: "tree_at (heap T) None (top T) t" "trie t" using T(2) by (simp_all add: table_at_def)
  obtain q i where "(a, q, i) \<in> set (nodes t)" using T(5) by (auto simp: refs_nodes)
  then have "wf_cp (n_p n)" using trie_wf [OF tr(2)] tree_at_node_prefix [OF tr(1) _ T(6)] by metis
  then have "prefix_includes (n_p n) p" using T(7,8) w by (simp add: prefix_includes_iff pkey_def)
  moreover have "has_role n" using T(9,12) by (auto simp: has_role_def)
  moreover have "prefix_includes (n_p m) p \<Longrightarrow> plen (n_p m) \<le> plen (n_p n)" for m
    using T(7) by (simp add: prefix_includes_iff)
  ultimately show "decides db p n" unfolding decides_def using T(1-6) w by blast
qed

lemma plain_su_twice: "wf_entry e \<Longrightarrow> plain_su (me_rloc (plain_entry e)) = plain_su (me_rloc e)"
  using plain_addr [of "me_rloc e"] wf_plain [of e]
  by (auto simp: wf_entry_def plain_entry_def plain_su_def split: af.splits)

lemma find_plain: "find (\<lambda>e. me_r e \<noteq> 0) es = Some e \<Longrightarrow> find (\<lambda>e. me_r e \<noteq> 0) (map plain_entry es) = Some (plain_entry e)"
  by (induction es) (auto simp: plain_entry_def split: if_splits)

lemma registration_served:
  assumes "register_at cf xdb sent nonce ms cnt = Some (out, cnt')" and "xtr_mapping xdb ms p es fl"
    and "plain_mapping p es" and "mse_key ms = Some key" and "length key < 2 ^ 31" and "awaits (cs_ms st) p key"
    and "has_fnc cf' FNC_MS" and "\<not> has_fnc cf' FNC_XTR" and "ev_forward ev" and "(of_int (mse_proxy ms) :: flag) = 0"
    and "find (\<lambda>e. me_r e \<noteq> 0) es = Some e"
    and "udp_request_add pke security 0 A M P S p' s nonce0 nonce1 src dst port p = Some (Some rpk)"
    and "wf_su src" and "wf_su dst" and "pk_itr pke = Some itr" and "itr \<noteq> []" and "length itr \<le> 32"
    and "\<forall>a\<in>set itr. wf_itr a"
  shows "\<exists>b outs st1 st2. out = Some (mse_addr ms, b) \<and>
    lisp_process cf' ev (new_request b si di) st = Some ((outs, None), st1) \<and>
    lisp_process cf' ev (new_request (rp_buf rpk) ssk dsk) st1 =
      Some (([(sk_set_port (plain_su (me_rloc e)) LISP_CP_PORT, rp_buf rpk)], None), st2)"
proof -
  from registration_trip [OF assms(1-7)] assms(10) obtain b outs st1 n where
    r: "out = Some (mse_addr ms, b)" "lisp_process cf' ev (new_request b si di) st = Some ((outs, None), st1)"
      "stored (ms_db (cs_ms st1)) p es fl 0 n" by metis
  have p: "wf_fam p" "wf_padded (family p) (addr p)" "wf_entry e"
    using assms(3,11) by (auto simp: plain_mapping_def find_Some_iff)
  have f: "su_family (me_rloc (plain_entry e)) \<in> {FAM_INET, FAM_INET6}"
    using wf_plain [OF p(3)] p(3) by (simp add: wf_entry_def)
  from request_delivered [OF assms(12-18) p(2) assms(7-9) stored_decides [OF r(3) p(1)] find_plain [OF assms(11)] f,
      of ssk dsk] r(1,2) plain_su_twice [OF p(3)] show ?thesis by auto
qed


section \<open>A registration\<close>

definition xtr_node :: "map_entry list db_node" where
  "xtr_node = \<lparr>n_p = reg_eid, parent = None, l_left = None, l_right = None, info = Some [reg_entry],
     flags = Some (ms_new_node_ex ROLE_MAPP_XTR), lock_ct = 1\<rparr>"

definition xtr_db :: "map_entry list lisp_db" where
  "xtr_db = \<lparr>lisp_db4 = (db_table_init True)\<lparr>heap := [0 \<mapsto> xtr_node], top := Some 0\<rparr>, lisp_db6 = db_table_init True\<rparr>"

definition xtr_ms :: ms_entry where
  "xtr_ms = \<lparr>mse_addr = sample_su, mse_id = 0, mse_key = Some ''key'', mse_proxy = 0, mse_eids = [(FAM_INET, 0)]\<rparr>"

definition xtr_config :: cp_config where
  "xtr_config = \<lparr>cf_fncs = FNC_XTR, cf_lisp_te = False\<rparr>"

definition one_eid :: "(af \<times> ref) clist" where
  "one_eid = snd (the (list_insert None (Some (FAM_INET, 1)) list_init))"

definition wait_state :: cp_state where
  "wait_state = \<lparr>cs_ms = reg_state\<lparr>ms_sites := [0 \<mapsto> reg_site\<lparr>si_eid := one_eid\<rparr>]\<rparr>, cs_mr = mr_initial\<rparr>"

lemma list_insert_init:
  fixes d :: "'d option"
  assumes "(l :: 'd clist) = list_init"
  shows "\<exists>l'. list_insert None d l = Some (fresh_cell l, l') \<and> list_at l' [(fresh_cell l, d)]"
  using list_insert_at [of l "[]" None d] list_at_init assms by auto

lemma list_items_single:
  assumes "list_at l [(r, d)]"
  shows "list_items l = Some [d]"
proof -
  obtain e where "cells l Head = Some e" "e_next e = Some (hd (cells_of [(r, d)]))"
    "linked (cells l) (cells_of [(r, d)])" "holds (cells l) [(r, d)]"
    using list_at_first [OF assms] by blast
  then show ?thesis
    using foreach_walk [of "cells l" "[(r, d)]" "\<lambda>d xs. (0, xs @ [d])" 0 "[]"]
    by (simp add: list_items_def list_foreach_def)
qed

lemma one_eid_items: "list_items one_eid = Some [Some (FAM_INET, 1)]"
  using list_insert_init [OF refl, of "Some (FAM_INET, 1 :: ref)"] list_items_single
  unfolding one_eid_def by fastforce

lemma wait_awaits: "awaits (cs_ms wait_state) reg_eid ''key''"
proof -
  let ?T = "lisp_db4 (ms_db reg_state)"
  have "prefix_match (n_p reg_net) reg_eid = Some True" by code_simp
  then have "prefix_includes (n_p reg_net) reg_eid"
    by (simp add: prefix_includes_def reg_net_def reg_eid_def wf_cp_def plen_def)
  moreover have "all_family (family reg_eid) reg_tree" using reg_table_at(2) by (simp add: reg_eid_def)
  moreover have "short reg_tree" "wf_cp reg_eid" "(1 :: ref) \<in> set (refs reg_tree)"
    by (simp_all add: reg_eid_def short_def reg_tree_def reg_root_def reg_net_def plen_def wf_cp_def)
  moreover have "ms_get_db_table (ms_db (cs_ms wait_state)) reg_eid = Some ?T" "top ?T \<noteq> Some 1" "heap ?T 1 = Some reg_net"
    by (simp_all add: ms_get_db_table_def wait_state_def reg_state_def reg_eid_def)
  moreover have "\<exists>f. flags reg_net = Some f \<and> mf_range f AND ROLE_EID \<noteq> 0 \<and> mf_rsvd f = Some 0"
    by (simp add: reg_net_def ms_new_node_ex_def ROLE_EID_def)
  moreover have "l_left reg_net = None" "l_right reg_net = None" by (simp_all add: reg_net_def)
  ultimately have "site_leaf (ms_db (cs_ms wait_state)) reg_eid 1 0"
    unfolding site_leaf_def using reg_table_at(1) by blast
  moreover have "ms_sites (cs_ms wait_state) 0 = Some (reg_site\<lparr>si_eid := one_eid\<rparr>)" by (simp add: wait_state_def)
  moreover have "list_items (si_eid (reg_site\<lparr>si_eid := one_eid\<rparr>)) = Some [Some (family reg_eid, 1)]"
    using one_eid_items by (simp add: reg_eid_def)
  moreover have "si_key (reg_site\<lparr>si_eid := one_eid\<rparr>) = Some ''key''" "si_hashing (reg_site\<lparr>si_eid := one_eid\<rparr>) = None"
    by (simp_all add: reg_site_def ms_new_site_info_def)
  ultimately show ?thesis unfolding awaits_def by blast
qed

lemma sample_registration:
  "\<exists>out cnt'. register_at xtr_config xtr_db True (1, 2) xtr_ms 0 = Some (out, cnt')"
  "xtr_mapping xtr_db xtr_ms reg_eid [reg_entry] (ms_new_node_ex ROLE_MAPP_XTR)" "plain_mapping reg_eid [reg_entry]"
proof -
  have wf: "\<forall>e\<in>set [reg_entry]. wf_entry e" by (simp add: wf_entry_def reg_entry_def wf_su_def sample_su_def)
  show pm: "plain_mapping reg_eid [reg_entry]"
    using wf by (simp add: plain_mapping_def wf_padded_def reg_eid_def wf_fam_def wf_cp_def plen_def)
  show "xtr_mapping xtr_db xtr_ms reg_eid [reg_entry] (ms_new_node_ex ROLE_MAPP_XTR)"
    by (simp add: xtr_mapping_def xtr_ms_def xtr_db_def db_table_of_def xtr_node_def)
  have c: "register_count xtr_config xtr_ms [reg_entry] = of_nat (length [reg_entry])"
    by (rule register_count_plain) (simp add: reg_entry_def)
  have "\<exists>rpk1. udp_register_add_record new_register reg_eid 0 (of_nat (length [reg_entry])) 0 0 0 = Some rpk1 \<and> length (rp_buf rpk1) = 52"
    by (simp add: udp_register_add_record_def udp_reply_add_record_def request_probes_def poke_def prefix_address_def
      reg_eid_def emit_def PKBUFLEN_def le_version_def new_register_def)
  then obtain rpk1 where 1: "udp_register_add_record new_register reg_eid 0 (of_nat (length [reg_entry])) 0 0 0 = Some rpk1"
    "length (rp_buf rpk1) = 52" by blast
  then have "\<exists>rpk2. register_add_locators xtr_config rpk1 [reg_entry] = Some rpk2 \<and> length (rp_buf rpk2) = 64"
    by (simp add: udp_register_add_locator_def reg_entry_def plain_locator_def locator_address_def sample_su_def
      emit_def PKBUFLEN_def sin_addr_def)
  then obtain rpk2 where 2: "register_add_locators xtr_config rpk1 [reg_entry] = Some rpk2" "length (rp_buf rpk2) = 64" by blast
  have "wf_padded (family reg_eid) (addr reg_eid)" using pm by (simp add: plain_mapping_def)
  from written_carries [OF 1(1) 2(1) _ wf _ this] obtain pre rec where
    w: "rp_buf rpk2 = pre @ rec" "length pre = length (rp_buf new_register)" by (metis pm plain_mapping_def)
  note h = header_of_built [OF 1(1) 2(1) wf w, of xtr_ms True 1 2]
  let ?h = "register_packet (mse_proxy xtr_ms) True 1 2 (replicate 20 0) rec"
  have l: "length ?h = 64" using 2(2) w by (simp add: register_packet_def new_register_def)
  then have "hmac_of (key_bytes ''key'') ?h = Some (hmac_spec (key_bytes ''key'') ?h)"
    by (intro hmac_of_spec) (simp_all add: key_bytes_def)
  moreover have "length (hmac_spec (key_bytes ''key'') ?h) = 20" by (simp add: hmac_spec_def)
  ultimately have "\<exists>b. register_sign xtr_ms ?h = Some b"
    using l by (simp add: register_sign_def xtr_ms_def PKMSIZE_def wr_def)
  then obtain b where b: "register_sign xtr_ms ?h = Some b" ..
  have m: "mse_eids xtr_ms = [(FAM_INET, 0)]" "db_table_of FAM_INET xtr_db = Some (lisp_db4 xtr_db)"
    "heap (lisp_db4 xtr_db) 0 = Some xtr_node" "info xtr_node = Some [reg_entry]" "n_p xtr_node = reg_eid"
    "flags xtr_node = Some (ms_new_node_ex ROLE_MAPP_XTR)" "mf_ttl (ms_new_node_ex ROLE_MAPP_XTR) = 0"
    "mf_version (ms_new_node_ex ROLE_MAPP_XTR) = 0" "mf_A (ms_new_node_ex ROLE_MAPP_XTR) = 0"
    "mf_act (ms_new_node_ex ROLE_MAPP_XTR) = 0" "cf_lisp_te xtr_config = False"
    by (simp_all add: xtr_ms_def db_table_of_def xtr_db_def xtr_node_def ms_new_node_ex_def xtr_config_def)
  have t: "udp_register_terminate True (rpk2\<lparr>rp_buf := b\<rparr>) (mse_addr xtr_ms) = Some (1, Some (mse_addr xtr_ms, b))"
    by (simp add: udp_register_terminate_def xtr_ms_def sample_su_def)
  show "\<exists>out cnt'. register_at xtr_config xtr_db True (1, 2) xtr_ms 0 = Some (out, cnt')"
    using register_add_new m 1(1) 2(1) h b t c by (simp add: register_at_def next_count_def)
qed



end
