(* ===== verification/Cp_Opl.thy ===== *)
theory Cp_Opl
  imports Cp_Message Map_Msg
begin

text \<open>
  The mapping-socket messages of the OpenLISP front end (\<open>plugin_openlisp.c\<close>): adding, deleting and
  reading mappings of the data plane. The data plane is a FreeBSD kernel, whose socket addresses start with
  their length and their family. A message is a buffer of bytes and a pointer into it an offset; \<open>None\<close> is an
  access outside the buffer. The process id and what \<open>write\<close> and \<open>read\<close> return are arguments. A node is given by
  its prefix and its locators.
\<close>

definition PSIZE :: nat where "PSIZE = 4089"

definition host16 :: "u16 \<Rightarrow> byte list" where
  "host16 w = [ucast w, ucast (drop_bit 8 w)]"

definition host32 :: "u32 \<Rightarrow> byte list" where
  "host32 w = host16 (ucast w) @ host16 (ucast (drop_bit 16 w))"

section \<open>Socket addresses\<close>

definition af_code :: "af \<Rightarrow> byte" where
  "af_code f = (case f of FAM_INET \<Rightarrow> 2 | FAM_INET6 \<Rightarrow> 28 | FAM_OTHER n \<Rightarrow> n)"

definition af_of :: "byte \<Rightarrow> af" where
  "af_of n = (if n = 2 then FAM_INET else if n = 28 then FAM_INET6 else FAM_OTHER n)"

text \<open>The room a socket address takes in a message, of which the first byte is the length.\<close>

definition SS_LEN :: "byte list \<Rightarrow> nat \<Rightarrow> nat option" where
  "SS_LEN b i = do {
     l \<leftarrow> rd8 b i;
     Some (if l = 0 then 8 else 1 + ((unat l - 1) OR 7)) }"

text \<open>The bytes of a \<open>union sockunion\<close>, of which the caller sets the first, and a \<open>union sockunion\<close> that \<open>l\<close>
  bytes at \<open>i\<close> are copied into after it was cleared.\<close>

definition su_bytes :: "nat \<Rightarrow> sockunion \<Rightarrow> byte list" where
  "su_bytes l s = [of_nat l, af_code (su_family s)] @ net16 (su_port s) @ take (l - 4) (su_rest s)"

definition su_read :: "byte list \<Rightarrow> nat \<Rightarrow> nat \<Rightarrow> sockunion option" where
  "su_read b i l = do {
     bs \<leftarrow> (if l \<le> 128 then rdn b i l else None);
     let bs = bs @ replicate (128 - l) 0;
     Some \<lparr>su_family = af_of (bs ! 1), su_port = word_cat (bs ! 2) (bs ! 3), su_rest = drop 4 bs\<rparr> }"

text \<open>The result counts the bytes of the address read, 0 when the family is unknown. The length of the
  prefix stays.\<close>

definition sockaddr2prefix :: "byte list \<Rightarrow> nat \<Rightarrow> cp_prefix \<Rightarrow> (nat \<times> cp_prefix) option" where
  "sockaddr2prefix b i p = do {
     f \<leftarrow> rd8 b (Suc i);
     case af_of f of
       FAM_INET \<Rightarrow> do { a \<leftarrow> rdn b (i + 4) 4; Some (16, (set_prefix4 a p)\<lparr>family := FAM_INET\<rparr>) }
     | FAM_INET6 \<Rightarrow> do { a \<leftarrow> rdn b (i + 8) 16; Some (28, p\<lparr>family := FAM_INET6, addr := a\<rparr>) }
     | FAM_OTHER _ \<Rightarrow> Some (0, p) }"

section \<open>Masks\<close>

definition opl_mask_bytes :: "nat \<Rightarrow> nat \<Rightarrow> byte list" where
  "opl_mask_bytes mm n =
     (let buf = replicate (n div 8) 255 @ replicate (mm - n div 8) 0
      in if n mod 8 \<noteq> 0 then buf[n div 8 := push_bit (8 - n mod 8) 255] else buf)"

definition opl_mask2sockaddr :: "int \<Rightarrow> af \<Rightarrow> nat \<Rightarrow> byte list \<Rightarrow> (nat \<times> byte list) option" where
  "opl_mask2sockaddr masklen f i b =
     (let mm = SIN_LEN f
      in if masklen < 0 \<or> int (8 * mm) < masklen then Some (0, b)
         else case f of
           FAM_INET \<Rightarrow> do {
             b \<leftarrow> wr i [16, af_code FAM_INET] b;
             b \<leftarrow> wr (i + 4) (opl_mask_bytes mm (nat masklen)) b;
             Some (16, b) }
         | FAM_INET6 \<Rightarrow> do {
             b \<leftarrow> wr i [28, af_code FAM_INET6] b;
             b \<leftarrow> wr (i + 8) (opl_mask_bytes mm (nat masklen)) b;
             Some (28, b) }
         | FAM_OTHER _ \<Rightarrow> Some (0, b))"

text \<open>The bits of the first byte that is not full: how often it can be shifted until nothing is left.\<close>

function shifts :: "byte \<Rightarrow> int" where
  "shifts x = (if x = 0 then 0 else 1 + shifts (push_bit 1 x))"
  by pat_completeness auto

termination
proof (relation "measure (\<lambda>x. LEAST k. push_bit k x = 0)")
  fix x :: byte
  assume x: "x \<noteq> 0"
  have "push_bit 8 x = 0" by (rule bit_word_eqI) (simp add: bit_push_bit_iff)
  moreover have "push_bit 0 x \<noteq> 0" using x by simp
  ultimately have "(LEAST k. push_bit k x = 0) = Suc (LEAST k. push_bit (Suc k) x = 0)" by (rule Least_Suc)
  then show "(push_bit 1 x, x) \<in> measure (\<lambda>x. LEAST k. push_bit k x = 0)" by simp
qed simp

declare shifts.simps [simp del]

fun opl_mask_loop :: "byte list \<Rightarrow> int \<Rightarrow> int" where
  "opl_mask_loop [] rs = rs"
| "opl_mask_loop (x # xs) rs = (if x = 255 then opl_mask_loop xs (rs + 8) else rs + shifts x)"

text \<open>An unknown family leaves the result as it is.\<close>

definition opl_sockaddr2mask :: "byte list \<Rightarrow> nat \<Rightarrow> (int \<times> int option) option" where
  "opl_sockaddr2mask b i = do {
     f \<leftarrow> rd8 b (Suc i);
     case af_of f of
       FAM_INET \<Rightarrow> do { m \<leftarrow> rdn b (i + 4) 4; Some (0, Some (opl_mask_loop m 0)) }
     | FAM_INET6 \<Rightarrow> do { m \<leftarrow> rdn b (i + 8) 16; Some (0, Some (opl_mask_loop m 0)) }
     | FAM_OTHER _ \<Rightarrow> Some (-1, None) }"

section \<open>Messages\<close>

text \<open>A new message and the next sequence number.\<close>

definition opl_new_msg :: "u32 \<Rightarrow> u16 \<Rightarrow> u16 \<Rightarrow> u32 \<Rightarrow> u16 \<Rightarrow> u32 \<Rightarrow> byte list \<times> u32" where
  "opl_new_msg pid version map_type map_flags map_addrs sq =
     ([of_nat sizeof_map_msghdr, ucast version] @ host16 map_type @ host32 map_flags @ host16 map_addrs @ host16 0 @
        host32 0 @ host32 pid @ host32 (sq + 1) @ host32 0 @ replicate PSIZE 0, sq + 1)"

text \<open>The EID and its mask. \<open>map_msglen\<close> has eight bits, and what the function returns is read from it.\<close>

definition set_msglen :: "nat \<Rightarrow> byte list \<Rightarrow> (int \<times> byte list) option" where
  "set_msglen mcm b = do {
     b \<leftarrow> wr 0 [of_nat mcm] b;
     Some (uint (of_nat mcm :: byte), b) }"

definition opl_add_mapp :: "byte list \<Rightarrow> cp_prefix \<Rightarrow> (int \<times> byte list) option" where
  "opl_add_mapp b p = do {
     let mcm = sizeof_map_msghdr;
     b \<leftarrow> wr 12 (host32 0) b;
     if (case family p of FAM_OTHER _ \<Rightarrow> True | _ \<Rightarrow> False) then Some (-1, b)
     else do {
       b \<leftarrow> wr mcm [of_nat (SA_LEN (family p)), af_code (family p)] b;
       b \<leftarrow> (if family p = FAM_INET then wr (mcm + 4) (take 4 (addr p)) b
             else wr (mcm + 8) (take 16 (addr p)) b);
       l \<leftarrow> SS_LEN b mcm;
       let mcm = mcm + l;
       let mm = (if family p = FAM_INET then 32 else 128);
       if 0 < plen p \<and> plen p < mm then do {
         (l, b) \<leftarrow> opl_mask2sockaddr (int (plen p)) (family p) mcm b;
         if l = 0 then Some (-1, b)
         else do {
           l \<leftarrow> SS_LEN b mcm;
           addrs \<leftarrow> rd16le b 8;
           b \<leftarrow> wr 8 (host16 (addrs OR MAPA_EIDMASK)) b;
           set_msglen (mcm + l) b } }
       else set_msglen mcm b } }"

fun add_rlocs :: "nat \<Rightarrow> map_entry list \<Rightarrow> byte list \<Rightarrow> (nat option \<times> byte list) option" where
  "add_rlocs mcm [] b = Some (Some mcm, b)"
| "add_rlocs mcm (rl # rls) b =
     (case su_family (me_rloc rl) of
        FAM_OTHER _ \<Rightarrow> Some (None, b)
      | f \<Rightarrow> do {
          b \<leftarrow> wr mcm (su_bytes (SA_LEN f) (me_rloc rl)) b;
          l \<leftarrow> SS_LEN b mcm;
          let mx = mcm + l;
          b \<leftarrow> wr mx [me_priority rl, me_weight rl] b;
          fl \<leftarrow> rd16le b (mx + 2);
          let fl = fl OR (if me_L rl \<noteq> 0 then RLOCF_LIF else 0);
          let fl = fl OR (if me_r rl \<noteq> 0 then RLOCF_UP else 0);
          b \<leftarrow> wr (mx + 2) (host16 fl) b;
          n \<leftarrow> rd32le b 12;
          b \<leftarrow> wr 12 (host32 (n + 1)) b;
          add_rlocs (mx + sizeof_rloc_mtx) rls b })"

definition opl_add_rloc :: "byte list \<Rightarrow> map_entry list option \<Rightarrow> (int \<times> byte list) option" where
  "opl_add_rloc b mapp =
     (case mapp of
        None \<Rightarrow> Some (0, b)
      | Some [] \<Rightarrow> Some (0, b)
      | Some ll \<Rightarrow> do {
          b \<leftarrow> wr 12 (host32 0) b;
          mcm \<leftarrow> rd8 b 0;
          r \<leftarrow> add_rlocs (unat mcm) ll b;
          case r of
            (None, b) \<Rightarrow> Some (-1, b)
          | (Some mcm, b) \<Rightarrow> set_msglen mcm b })"

section \<open>Operations\<close>

text \<open>What an operation hands to \<open>write\<close>, with its return value, \<open>w\<close> being that of \<open>write\<close>.\<close>

definition opl_write :: "int \<Rightarrow> int \<Rightarrow> byte list \<Rightarrow> int \<times> byte list option" where
  "opl_write w l b = (if w < 0 then -1 else w, Some (take (nat l) b))"

definition opl_add ::
  "u32 \<Rightarrow> map_entry list option option \<Rightarrow> int \<Rightarrow> cp_prefix \<Rightarrow> map_entry list option \<Rightarrow> int \<Rightarrow> u32 \<Rightarrow>
   ((int \<times> byte list option) \<times> u32) option" where
  "opl_add pid petr w p ll db sq =
     (let lcount = (case ll of None \<Rightarrow> 0 | Some l \<Rightarrow> length l);
          map_neg = (if lcount = 0 \<and> petr = None then MAPF_NEGATIVE else 0);
          (b, sq) = opl_new_msg pid MAPM_VERSION MAPM_ADD
            (((if db = 1 then MAPF_DB else 0) OR MAPF_STATIC OR MAPF_UP) OR map_neg)
            (MAPA_EID OR (if map_neg \<noteq> 0 then 0 else MAPA_RLOC)) sq
      in do {
        (l, b) \<leftarrow> opl_add_mapp b p;
        if l \<le> 0 then Some ((-1, None), sq)
        else do {
          (l, b) \<leftarrow> (if 0 < lcount then opl_add_rloc b ll else Some (l, b));
          if 0 < lcount \<and> l \<le> 0 then Some ((-1, None), sq)
          else do {
            (l, b) \<leftarrow> (case petr of
                        Some rs \<Rightarrow> if lcount = 0 then opl_add_rloc b rs else Some (l, b)
                      | None \<Rightarrow> Some (l, b));
            if lcount = 0 \<and> petr \<noteq> None \<and> l \<le> 0 then Some ((-1, None), sq)
            else Some (opl_write w l b, sq) } } })"

definition opl_del :: "u32 \<Rightarrow> int \<Rightarrow> cp_prefix \<Rightarrow> int \<Rightarrow> u32 \<Rightarrow> ((int \<times> byte list option) \<times> u32) option" where
  "opl_del pid w p db sq =
     (let (b, sq) = opl_new_msg pid MAPM_VERSION MAPM_DELETE
            ((if db = 1 then MAPF_DB else MAPF_ALL) OR MAPF_STATIC OR MAPF_UP) MAPA_EID sq
      in do {
        (l, b) \<leftarrow> opl_add_mapp b p;
        if l < 0 then Some ((-1, None), sq) else Some (opl_write w l b, sq) })"

definition opl_update ::
  "u32 \<Rightarrow> map_entry list option option \<Rightarrow> int \<times> int \<Rightarrow> cp_prefix \<Rightarrow> map_entry list option \<Rightarrow> byte \<Rightarrow> u32 \<Rightarrow>
   (int \<times> byte list option list \<times> u32) option" where
  "opl_update pid petr w p ll db sq = do {
     ((_, d), sq) \<leftarrow> opl_del pid (fst w) p (uint db) sq;
     ((_, a), sq) \<leftarrow> opl_add pid petr (snd w) p ll (uint db) sq;
     Some (0, [d, a], sq) }"

section \<open>Reading a mapping\<close>

text \<open>The answers read from the socket: \<open>None\<close> is an error of \<open>read\<close>, and a shorter answer leaves what the
  buffer held. At most ten are read.\<close>

definition read_into :: "byte list \<Rightarrow> byte list \<Rightarrow> byte list" where
  "read_into r b = take PSIZE r @ drop (length (take PSIZE r)) b"

function wait_answer ::
  "(nat \<Rightarrow> byte list option) \<Rightarrow> u32 \<Rightarrow> u32 \<Rightarrow> nat \<Rightarrow> byte list \<Rightarrow> (int \<times> nat \<times> byte list) option" where
  "wait_answer rd c_seq c_pid c b =
     (case rd c of
        None \<Rightarrow> Some (-1, c, b)
      | Some r \<Rightarrow> do {
          let b = read_into r b;
          let l = int (length (take PSIZE r));
          s \<leftarrow> rd32le b 20;
          p \<leftarrow> rd32le b 16;
          if 0 < l \<and> (s \<noteq> c_seq \<or> p \<noteq> c_pid)
          then (if Suc c < 10 then wait_answer rd c_seq c_pid (Suc c) b else Some (l, Suc c, b))
          else Some (l, c, b) })"
  by pat_completeness auto

termination
  by (relation "measure (\<lambda>(rd, s, p, c, b). 10 - c)") auto

declare wait_answer.simps [simp del]

fun get_rlocs :: "nat \<Rightarrow> nat \<Rightarrow> byte list \<Rightarrow> map_entry list \<Rightarrow> map_entry list option" where
  "get_rlocs 0 rc b rl = Some rl"
| "get_rlocs (Suc k) rc b rl = do {
     l \<leftarrow> SS_LEN b rc;
     s \<leftarrow> su_read b rc l;
     let rc = rc + l;
     pr \<leftarrow> rd8 b rc;
     we \<leftarrow> rd8 b (rc + 1);
     fl \<leftarrow> rd16le b (rc + 2);
     get_rlocs k (rc + sizeof_rloc_mtx) b
       (rl @ [\<lparr>me_rloc = s, me_priority = pr, me_weight = we, me_m_priority = 0, me_m_weight = 0,
         me_L = (if fl AND RLOCF_LIF \<noteq> 0 then 1 else 0), me_p = 0,
         me_r = (if fl AND RLOCF_UP \<noteq> 0 then 1 else 0), me_pe = None\<rparr>]) }"

text \<open>Without a mask the length depends on the family of what follows the EID.\<close>

definition parse_mapping ::
  "byte list \<Rightarrow> cp_prefix \<times> map_entry list option \<Rightarrow> (int \<times> cp_prefix \<times> map_entry list option) option" where
  "parse_mapping b rs = do {
     flags \<leftarrow> rd32le b 4;
     addrs \<leftarrow> rd16le b 8;
     if flags AND MAPF_DONE = 0 \<or> addrs AND MAPA_EID = 0 then Some (-1, rs)
     else do {
       (l, p) \<leftarrow> sockaddr2prefix b sizeof_map_msghdr (fst rs);
       if l = 0 then Some (-1, p, snd rs)
       else do {
         l \<leftarrow> SS_LEN b sizeof_map_msghdr;
         let rc = sizeof_map_msghdr + l;
         (p, rc) \<leftarrow> (if addrs AND MAPA_EIDMASK \<noteq> 0 then do {
                       (_, m) \<leftarrow> opl_sockaddr2mask b rc;
                       let p = (case m of None \<Rightarrow> p | Some m \<Rightarrow> p\<lparr>prefixlen := of_int m\<rparr>);
                       l \<leftarrow> SS_LEN b rc;
                       Some (p, rc + l) }
                     else do {
                       f \<leftarrow> rd8 b (Suc rc);
                       Some (p\<lparr>prefixlen := (if af_of f = FAM_INET then 32 else 128)\<rparr>, rc) });
         if addrs AND MAPA_RLOC \<noteq> 0 then do {
           n \<leftarrow> rd32le b 12;
           rl \<leftarrow> get_rlocs (nat (sint n)) rc b [];
           Some (0, p, Some rl) }
         else Some (0, p, snd rs) } } }"

definition opl_get ::
  "u32 \<Rightarrow> int \<Rightarrow> (nat \<Rightarrow> byte list option) \<Rightarrow> cp_prefix \<Rightarrow> int \<Rightarrow> cp_prefix \<times> map_entry list option \<Rightarrow> u32 \<Rightarrow>
   (int \<times> byte list option \<times> (cp_prefix \<times> map_entry list option) \<times> u32) option" where
  "opl_get pid w rd p db rs sq =
     (let (b, sq) = opl_new_msg pid MAPM_VERSION MAPM_GET
            ((if db \<noteq> 0 then MAPF_DB else MAPF_ALL) OR MAPF_STATIC OR MAPF_UP) MAPA_EID sq
      in do {
        (l, b) \<leftarrow> opl_add_mapp b p;
        if l < 0 then Some (-1, None, rs, sq)
        else do {
          let (r, out) = opl_write w l b;
          if r < 0 then Some (-1, out, rs, sq)
          else do {
            (l, c, b) \<leftarrow> wait_answer rd sq pid 0 b;
            if l < 0 \<or> 10 \<le> c then Some (-1, out, rs, sq)
            else do {
              (r, rs) \<leftarrow> parse_mapping b rs;
              Some (r, out, rs, sq) } } } })"

end
