(* ===== verification/Cp_Opl_Trip.thy ===== *)
theory Cp_Opl_Trip
  imports Cp_Opl
begin

text \<open>
  What the messages of the OpenLISP front end hold. The messages are laid out once, as a header followed by
  socket addresses; from the layout follow that a mapping read back is the mapping that was added, and what
  is lost: the length of a prefix without a mask, and everything past the length that eight bits can count.
\<close>

section \<open>The layout of a message\<close>

definition opl_header :: "nat \<Rightarrow> u16 \<Rightarrow> u32 \<Rightarrow> u16 \<Rightarrow> u32 \<Rightarrow> u32 \<Rightarrow> u32 \<Rightarrow> byte list" where
  "opl_header n t fl addrs count pid sq =
     [of_nat n, 1] @ host16 t @ host32 fl @ host16 addrs @ host16 0 @ host32 count @ host32 pid @ host32 sq @ host32 0"

definition opl_sockaddr :: "af \<Rightarrow> byte list \<Rightarrow> byte list" where
  "opl_sockaddr f a =
     [of_nat (SA_LEN f), af_code f, 0, 0] @ (if f = FAM_INET then [] else replicate 4 0) @ a @ replicate 8 0"

definition opl_eid :: "cp_prefix \<Rightarrow> byte list" where
  "opl_eid p = opl_sockaddr (family p) (take (SIN_LEN (family p)) (addr p))"

definition has_mask :: "cp_prefix \<Rightarrow> bool" where
  "has_mask p \<longleftrightarrow> 0 < plen p \<and> plen p < 8 * SIN_LEN (family p)"

definition opl_mask :: "cp_prefix \<Rightarrow> byte list" where
  "opl_mask p = (if has_mask p then opl_sockaddr (family p) (opl_mask_bytes (SIN_LEN (family p)) (plen p)) else [])"

definition rloc_flags :: "map_entry \<Rightarrow> u16" where
  "rloc_flags e = (if me_L e \<noteq> 0 then RLOCF_LIF else 0) OR (if me_r e \<noteq> 0 then RLOCF_UP else 0)"

definition opl_rloc :: "map_entry \<Rightarrow> byte list" where
  "opl_rloc e =
     (let f = su_family (me_rloc e)
      in su_bytes (SA_LEN f) (me_rloc e) @ (if f = FAM_INET then [] else replicate 4 0) @
         [me_priority e, me_weight e] @ host16 (rloc_flags e) @ replicate 12 0)"

definition known_af :: "af \<Rightarrow> bool" where
  "known_af f \<longleftrightarrow> f = FAM_INET \<or> f = FAM_INET6"

definition wf_rloc :: "map_entry \<Rightarrow> bool" where
  "wf_rloc e \<longleftrightarrow> known_af (su_family (me_rloc e)) \<and> wf_su (me_rloc e)"

lemma length_le [simp]: "length (host16 w) = 2" "length (host32 v) = 4"
  by (simp_all add: host16_def host32_def)

lemma length_opl_header [simp]: "length (opl_header n t fl a c pid sq) = 28"
  by (simp add: opl_header_def)

lemma length_mask_bytes [simp]: "n div 8 \<le> mm \<Longrightarrow> length (opl_mask_bytes mm n) = mm"
  by (simp add: opl_mask_bytes_def Let_def)

lemma length_opl_sockaddr: "length (opl_sockaddr f a) = (if f = FAM_INET then 12 else 16) + length a"
  by (simp add: opl_sockaddr_def)

lemma SS_LEN_values:
  "rd8 b i = Some (of_nat (SA_LEN f)) \<Longrightarrow> SS_LEN b i = Some (if f = FAM_INET then 16 else 32)"
  by (simp add: SS_LEN_def SA_LEN_def)

lemma wr_in: "i = length xs \<Longrightarrow> length ys \<le> n \<Longrightarrow> wr i ys (xs @ replicate n 0) = Some (xs @ ys @ replicate (n - length ys) 0)"
  by (simp add: wr_def)

lemma wr_gap:
  "i = length xs + g \<Longrightarrow> g + length ys \<le> n \<Longrightarrow>
   wr i ys (xs @ replicate n 0) = Some (xs @ replicate g 0 @ ys @ replicate (n - g - length ys) 0)"
  using wr_in [of i "xs @ replicate g 0" ys "n - g"] replicate_add [of g "n - g" "0 :: byte"] by simp

lemma wr_header:
  "wr 0 [of_nat n'] (opl_header n t fl a c pid sq @ b) = Some (opl_header n' t fl a c pid sq @ b)"
  "wr 8 (host16 a') (opl_header n t fl a c pid sq @ b) = Some (opl_header n t fl a' c pid sq @ b)"
  "wr 12 (host32 c') (opl_header n t fl a c pid sq @ b) = Some (opl_header n t fl a c' pid sq @ b)"
  by (simp_all add: wr_def opl_header_def host16_def host32_def)

lemma host16_read: "rd16le (xs @ host16 w @ ys) (length xs) = Some w"
  by (simp add: rd16le_def rd8_def host16_def nth_append word_cat_parts)

lemma host32_read: "rd32le (xs @ host32 w @ ys) (length xs) = Some w"
proof -
  have "rd16le (xs @ host32 w @ ys) (length xs) = Some (ucast w)"
    using host16_read [of xs "ucast w" "host16 (ucast (drop_bit 16 w)) @ ys"] by (simp add: host32_def)
  moreover have "rd16le (xs @ host32 w @ ys) (length xs + 2) = Some (ucast (drop_bit 16 w))"
    using host16_read [of "xs @ host16 (ucast w)" "ucast (drop_bit 16 w)" ys] by (simp add: host32_def)
  ultimately show ?thesis by (simp add: rd32le_def word_cat_parts32)
qed

lemma rd_header:
  "rd8 (opl_header n t fl a c pid sq @ b) 0 = Some (of_nat n)"
  "rd16le (opl_header n t fl a c pid sq @ b) 2 = Some t"
  "rd32le (opl_header n t fl a c pid sq @ b) 4 = Some fl"
  "rd16le (opl_header n t fl a c pid sq @ b) 8 = Some a"
  "rd16le (opl_header n t fl a c pid sq @ b) 10 = Some 0"
  "rd32le (opl_header n t fl a c pid sq @ b) 12 = Some c"
  "rd32le (opl_header n t fl a c pid sq @ b) 16 = Some pid"
  "rd32le (opl_header n t fl a c pid sq @ b) 20 = Some sq"
  by (simp_all add: opl_header_def host16_def host32_def rd32le_def rd16le_def rd8_def word_cat_parts word_cat_parts32)

lemma new_msg: "opl_new_msg pid MAPM_VERSION t fl a sq = (opl_header 28 t fl a 0 pid (sq + 1) @ replicate PSIZE 0, sq + 1)"
  by (simp add: opl_new_msg_def opl_header_def sizeof_map_msghdr_def MAPM_VERSION_def)


lemma write_sockaddr:
  assumes f: "known_af f" and i: "i = length xs" and a: "length a = SIN_LEN f" and k: "32 \<le> k"
  shows "\<exists>b. wr i [of_nat (SA_LEN f), af_code f] (xs @ replicate k 0) = Some b \<and>
    wr (i + (if f = FAM_INET then 4 else 8)) a b = Some (xs @ opl_sockaddr f a @ replicate (k - length (opl_sockaddr f a)) 0)"
proof (intro exI conjI)
  show "wr i [of_nat (SA_LEN f), af_code f] (xs @ replicate k 0) =
      Some (xs @ [of_nat (SA_LEN f), af_code f] @ replicate (k - 2) 0)"
    using wr_in [of i xs "[of_nat (SA_LEN f), af_code f]" k] i k by simp
  have z: "replicate (k - 2 - g - n) 0 = replicate 8 0 @ replicate (k - (2 + g + n + 8)) (0 :: byte)" if "2 + g + n + 8 \<le> k" for g n
    using that replicate_add [of 8 "k - (2 + g + n + 8)" "0 :: byte"] by simp
  show "wr (i + (if f = FAM_INET then 4 else 8)) a (xs @ [of_nat (SA_LEN f), af_code f] @ replicate (k - 2) 0) =
      Some (xs @ opl_sockaddr f a @ replicate (k - length (opl_sockaddr f a)) 0)"
    using wr_gap [of "i + 4" "xs @ [of_nat (SA_LEN f), af_code f]" 2 a "k - 2"]
      wr_gap [of "i + 8" "xs @ [of_nat (SA_LEN f), af_code f]" 6 a "k - 2"] z [of 2 4] z [of 6 16] f i a k
    by (auto simp: known_af_def SIN_LEN_def opl_sockaddr_def numeral_eq_Suc)
qed

lemma opl_eid_length: "known_af (family p) \<Longrightarrow> wf_cp p \<Longrightarrow> length (opl_eid p) = (if family p = FAM_INET then 16 else 32)"
  by (auto simp: opl_eid_def length_opl_sockaddr known_af_def wf_cp_def SIN_LEN_def)

lemma opl_mask_length:
  "known_af (family p) \<Longrightarrow> length (opl_mask p) = (if has_mask p then if family p = FAM_INET then 16 else 32 else 0)"
  by (auto simp: opl_mask_def length_opl_sockaddr known_af_def SIN_LEN_def has_mask_def)

lemma SS_LEN_at:
  "i = length xs \<Longrightarrow> SS_LEN (xs @ opl_sockaddr f a @ zs) i = Some (if f = FAM_INET then 16 else 32)"
  by (rule SS_LEN_values) (simp add: rd8_def opl_sockaddr_def nth_append)

lemma mask2sockaddr_at:
  assumes f: "known_af f" and i: "i = length xs" and n: "n \<le> 8 * SIN_LEN f" and k: "32 \<le> k"
  shows "\<exists>l. l \<noteq> 0 \<and> opl_mask2sockaddr (int n) f i (xs @ replicate k 0) =
    Some (l, xs @ opl_sockaddr f (opl_mask_bytes (SIN_LEN f) n) @
      replicate (k - length (opl_sockaddr f (opl_mask_bytes (SIN_LEN f) n))) 0)"
proof -
  have "length (opl_mask_bytes (SIN_LEN f) n) = SIN_LEN f" using n by simp
  from write_sockaddr [OF f i this k] f n show ?thesis
    by (auto simp: opl_mask2sockaddr_def Let_def known_af_def SA_LEN_def)
qed

lemma set_msglen_header:
  assumes "m < 256"
  shows "set_msglen m (opl_header n t fl a c pid sq @ b) = Some (int m, opl_header m t fl a c pid sq @ b)"
proof -
  have "unat (of_nat m :: byte) = m" unfolding unat_of_nat using assms by simp
  then show ?thesis by (simp add: set_msglen_def wr_header uint_nat)
qed

lemma add_mapp_layout:
  assumes f: "known_af (family p)" and p: "wf_cp p" and k: "64 \<le> k"
    and n: "n = length (opl_eid p) + length (opl_mask p)"
  shows "opl_add_mapp (opl_header n0 t fl a c pid sq @ replicate k 0) p = Some (int (28 + n),
    opl_header (28 + n) t fl (if has_mask p then a OR MAPA_EIDMASK else a) 0 pid sq @ opl_eid p @ opl_mask p @ replicate (k - n) 0)"
proof -
  let ?f = "family p"
  define H where "H = opl_header n0 t fl a 0 pid sq"
  have H: "length H = 28" by (simp add: H_def)
  have w12: "wr 12 (host32 0) (opl_header n0 t fl a c pid sq @ replicate k 0) = Some (H @ replicate k 0)"
    by (simp add: wr_header H_def)
  have le: "length (take (SIN_LEN ?f) (addr p)) = SIN_LEN ?f" using p by (simp add: wf_cp_def SIN_LEN_def)
  obtain b where b: "wr 28 [of_nat (SA_LEN ?f), af_code ?f] (H @ replicate k 0) = Some b"
    "wr (28 + (if ?f = FAM_INET then 4 else 8)) (take (SIN_LEN ?f) (addr p)) b =
      Some (H @ opl_eid p @ replicate (k - length (opl_eid p)) 0)"
    using write_sockaddr [OF f _ le, of 28 H k] k H unfolding opl_eid_def by auto
  have e: "(if ?f = FAM_INET then wr (28 + 4) (take 4 (addr p)) b else wr (28 + 8) (take 16 (addr p)) b) =
      Some (H @ opl_eid p @ replicate (k - length (opl_eid p)) 0)"
    using b(2) by (auto simp: SIN_LEN_def)
  have s1: "SS_LEN (H @ opl_eid p @ zs) 28 = Some (length (opl_eid p))" for zs
    using SS_LEN_at [of 28 H ?f] H opl_eid_length [OF f p] by (simp add: opl_eid_def)
  have no: "(case ?f of FAM_OTHER _ \<Rightarrow> True | _ \<Rightarrow> False) = False" using f by (auto simp: known_af_def)
  have mm: "(if ?f = FAM_INET then 32 else 128) = 8 * SIN_LEN ?f" by (simp add: SIN_LEN_def)
  have l32: "length (opl_eid p) \<le> 32" using opl_eid_length [OF f p] by simp
  have small: "28 + n < 256" using opl_eid_length [OF f p] opl_mask_length [OF f] n by simp
  show ?thesis
  proof (cases "has_mask p")
    case True
    then have h: "0 < plen p" "plen p < 8 * SIN_LEN ?f" by (simp_all add: has_mask_def)
    have k32: "32 \<le> k - length (opl_eid p)" using k l32 by simp
    obtain l where l: "l \<noteq> 0" "opl_mask2sockaddr (int (plen p)) ?f (28 + length (opl_eid p)) ((H @ opl_eid p) @ replicate (k - length (opl_eid p)) 0) =
        Some (l, H @ opl_eid p @ opl_mask p @ replicate (k - n) 0)"
      using mask2sockaddr_at [OF f _ _ k32, of "28 + length (opl_eid p)" "H @ opl_eid p" "plen p"] H h True n
      by (auto simp: opl_mask_def)
    have s2: "SS_LEN (H @ opl_eid p @ opl_mask p @ zs) (28 + length (opl_eid p)) = Some (length (opl_mask p))" for zs
      using SS_LEN_at [of "28 + length (opl_eid p)" "H @ opl_eid p" ?f] H True opl_mask_length [OF f]
      by (simp add: opl_mask_def)
    have fin: "set_msglen (28 + length (opl_eid p) + length (opl_mask p))
        (opl_header n0 t fl (a OR MAPA_EIDMASK) 0 pid sq @ zs) = Some (int (28 + n), opl_header (28 + n) t fl (a OR MAPA_EIDMASK) 0 pid sq @ zs)" for zs
      using set_msglen_header [OF small] unfolding n by (simp only: add.assoc)
    show ?thesis
      unfolding opl_add_mapp_def Let_def sizeof_map_msghdr_def w12 Option.bind.simps no if_False b(1) e s1 mm
      using h l s2 fin True by (simp add: H_def rd_header wr_header)
  next
    case False
    then have "\<not> (0 < plen p \<and> plen p < 8 * SIN_LEN ?f)" by (simp add: has_mask_def)
    moreover have "opl_mask p = []" using False by (simp add: opl_mask_def)
    ultimately show ?thesis
      unfolding opl_add_mapp_def Let_def sizeof_map_msghdr_def w12 Option.bind.simps no if_False b(1) e s1 mm
      using False set_msglen_header [OF small] n by (auto simp: H_def)
  qed
qed


section \<open>Locators\<close>

lemma opl_rloc_length: "wf_rloc e \<Longrightarrow> length (opl_rloc e) = (if su_family (me_rloc e) = FAM_INET then 32 else 48)"
  by (auto simp: opl_rloc_def Let_def wf_rloc_def known_af_def su_bytes_def SA_LEN_def wf_su_def net16_def)

lemma opl_rlocs_length: "\<forall>e\<in>set es. wf_rloc e \<Longrightarrow> length (concat (map opl_rloc es)) \<le> 48 * length es"
  by (induction es) (auto simp: opl_rloc_length)

lemma replicate_split: "g \<le> n \<Longrightarrow> replicate n x = replicate g x @ replicate (n - g) x"
  by (simp flip: replicate_add)

lemma add_rlocs_known:
  assumes "su_family (me_rloc rl) = FAM_INET \<or> su_family (me_rloc rl) = FAM_INET6"
  shows "add_rlocs mcm (rl # rls) b = do {
    b \<leftarrow> wr mcm (su_bytes (SA_LEN (su_family (me_rloc rl))) (me_rloc rl)) b;
    l \<leftarrow> SS_LEN b mcm;
    b \<leftarrow> wr (mcm + l) [me_priority rl, me_weight rl] b;
    fl \<leftarrow> rd16le b (mcm + l + 2);
    b \<leftarrow> wr (mcm + l + 2) (host16 (fl OR (if me_L rl \<noteq> 0 then RLOCF_LIF else 0) OR (if me_r rl \<noteq> 0 then RLOCF_UP else 0))) b;
    n \<leftarrow> rd32le b 12;
    b \<leftarrow> wr 12 (host32 (n + 1)) b;
    add_rlocs (mcm + l + sizeof_rloc_mtx) rls b }"
  using assms by (auto simp: Let_def or.assoc)

lemma add_rloc_step:
  assumes e: "wf_rloc e" and i: "mcm = 28 + length xs" and k: "48 \<le> k"
  shows "add_rlocs mcm (e # es) (opl_header n t fl a c pid sq @ xs @ replicate k 0) =
    add_rlocs (mcm + length (opl_rloc e)) es
      (opl_header n t fl a (c + 1) pid sq @ (xs @ opl_rloc e) @ replicate (k - length (opl_rloc e)) 0)"
proof -
  let ?f = "su_family (me_rloc e)"
  define l where "l = (if ?f = FAM_INET then 16 else 32 :: nat)"
  define H where "H = opl_header n t fl a c pid sq @ xs"
  define S where "S = su_bytes (SA_LEN ?f) (me_rloc e) @ (if ?f = FAM_INET then [] else replicate 4 0)"
  have f: "?f = FAM_INET \<or> ?f = FAM_INET6" and su: "wf_su (me_rloc e)" using e by (auto simp: wf_rloc_def known_af_def)
  have H: "length H = mcm" by (simp add: H_def i)
  have l: "l + 16 \<le> k" using k by (simp add: l_def)
  have S: "length S = l" "opl_rloc e = S @ [me_priority e, me_weight e] @ host16 (rloc_flags e) @ replicate 12 0"
    using f su by (auto simp: S_def l_def su_bytes_def SA_LEN_def wf_su_def net16_def opl_rloc_def Let_def)
  have w1: "wr mcm (su_bytes (SA_LEN ?f) (me_rloc e)) (H @ replicate k 0) = Some (H @ S @ replicate (k - l) 0)"
  proof -
    have "length (su_bytes (SA_LEN ?f) (me_rloc e)) = SA_LEN ?f"
      using f su by (auto simp: su_bytes_def SA_LEN_def wf_su_def net16_def)
    moreover have "replicate (k - 28) 0 = replicate 4 0 @ replicate (k - 32) (0 :: byte)"
      using k replicate_split [of 4 "k - 28" "0 :: byte"] by simp
    ultimately show ?thesis using wr_in [of mcm H "su_bytes (SA_LEN ?f) (me_rloc e)" k] H k f
      by (auto simp: S_def l_def SA_LEN_def)
  qed
  have s: "SS_LEN (H @ S @ zs) mcm = Some l" for zs
    using SS_LEN_values [of "H @ S @ zs" mcm ?f] H by (simp add: rd8_def nth_append S_def su_bytes_def l_def)
  have w2: "wr (mcm + l) [me_priority e, me_weight e] (H @ S @ replicate (k - l) 0) =
      Some (H @ S @ [me_priority e, me_weight e] @ replicate (k - l - 2) 0)"
    using wr_in [of "mcm + l" "H @ S" "[me_priority e, me_weight e]" "k - l"] H S(1) l by simp
  have r: "rd16le (H @ S @ [me_priority e, me_weight e] @ replicate (k - l - 2) 0) (mcm + l + 2) = Some 0"
  proof -
    have "replicate (k - l - 2) 0 = host16 0 @ replicate (k - l - 4) (0 :: byte)"
      using l replicate_split [of 2 "k - l - 2" "0 :: byte"] by (simp add: host16_def numeral_2_eq_2)
    then show ?thesis
      using host16_read [of "H @ S @ [me_priority e, me_weight e]" 0 "replicate (k - l - 4) 0"] H S(1) by (simp add: add.assoc)
  qed
  have w3: "wr (mcm + l + 2) (host16 v) (H @ S @ [me_priority e, me_weight e] @ replicate (k - l - 2) 0) =
      Some (H @ S @ [me_priority e, me_weight e] @ host16 v @ replicate 12 0 @ replicate (k - l - 16) 0)" for v
  proof -
    have "replicate (k - l - 4) 0 = replicate 12 0 @ replicate (k - l - 16) (0 :: byte)"
      using l replicate_split [of 12 "k - l - 4" "0 :: byte"] by simp
    moreover have "k - Suc (Suc (Suc (Suc l))) = k - l - 4" by simp
    ultimately show ?thesis using wr_in [of "mcm + l + 2" "H @ S @ [me_priority e, me_weight e]" "host16 v" "k - l - 2"] H S(1) l
      by (simp add: add.assoc)
  qed
  have fl: "0 OR (if me_L e \<noteq> 0 then RLOCF_LIF else 0) OR (if me_r e \<noteq> 0 then RLOCF_UP else 0) = rloc_flags e"
    by (simp add: rloc_flags_def)
  have len: "mcm + l + sizeof_rloc_mtx = mcm + length (opl_rloc e)" "k - l - 16 = k - length (opl_rloc e)"
    using S by (simp_all add: sizeof_rloc_mtx_def)
  have hd: "opl_header n t fl a c pid sq @ xs @ zs = H @ zs" "rd32le (H @ zs) 12 = Some c"
    "wr 12 (host32 (c + 1)) (H @ zs) = Some (opl_header n t fl a (c + 1) pid sq @ xs @ zs)" for zs
    by (simp_all add: H_def rd_header wr_header)
  have out: "(xs @ opl_rloc e) @ zs = xs @ S @ [me_priority e, me_weight e] @ host16 (rloc_flags e) @ replicate 12 0 @ zs" for zs
    by (simp add: S(2))
  show ?thesis
    by (simp only: add_rlocs_known [OF f] hd(1) w1 s w2 r w3 fl hd(2,3) len out Option.bind.simps Let_def)
qed


lemma add_rlocs_layout:
  assumes "\<forall>e\<in>set es. wf_rloc e" and "mcm = 28 + length xs" and "48 * length es \<le> k"
  shows "add_rlocs mcm es (opl_header n t fl a c pid sq @ xs @ replicate k 0) =
    Some (Some (mcm + length (concat (map opl_rloc es))), opl_header n t fl a (c + of_nat (length es)) pid sq @ xs @
      concat (map opl_rloc es) @ replicate (k - length (concat (map opl_rloc es))) 0)"
  using assms
proof (induction es arbitrary: mcm xs k c)
  case (Cons e es)
  then have e: "wf_rloc e" "48 \<le> k" by simp_all
  have len: "length (opl_rloc e) \<le> 48" using opl_rloc_length [OF e(1)] by simp
  have "add_rlocs (mcm + length (opl_rloc e)) es
      (opl_header n t fl a (c + 1) pid sq @ (xs @ opl_rloc e) @ replicate (k - length (opl_rloc e)) 0) =
    Some (Some (mcm + length (opl_rloc e) + length (concat (map opl_rloc es))),
      opl_header n t fl a (c + 1 + of_nat (length es)) pid sq @ (xs @ opl_rloc e) @ concat (map opl_rloc es) @
      replicate (k - length (opl_rloc e) - length (concat (map opl_rloc es))) 0)"
    by (rule Cons.IH) (use Cons.prems len in auto)
  then show ?case unfolding add_rloc_step [OF e(1) Cons.prems(2) e(2)] by (simp add: add.assoc)
qed simp

lemma set_msglen_any:
  "set_msglen m (opl_header n t fl a c pid sq @ b) = Some (int (m mod 256), opl_header m t fl a c pid sq @ b)"
proof -
  have "unat (of_nat m :: byte) = m mod 256" unfolding unat_of_nat by simp
  then show ?thesis by (simp add: set_msglen_def wr_header uint_nat)
qed

lemma add_rloc_layout:
  assumes es: "\<forall>e\<in>set es. wf_rloc e" "es \<noteq> []" and n: "n = 28 + length xs" "n < 256" and k: "48 * length es \<le> k"
    and m: "m = n + length (concat (map opl_rloc es))"
  shows "opl_add_rloc (opl_header n t fl a c pid sq @ xs @ replicate k 0) (Some es) =
    Some (int (m mod 256), opl_header m t fl a (of_nat (length es)) pid sq @ xs @ concat (map opl_rloc es) @
      replicate (k - length (concat (map opl_rloc es))) 0)"
proof -
  have u: "unat (of_nat n :: byte) = n" unfolding unat_of_nat using n(2) by simp
  obtain e es' where c: "es = e # es'" using es(2) by (cases es) auto
  show ?thesis unfolding opl_add_rloc_def c option.case list.case
    unfolding c [symmetric] wr_header Option.bind.simps rd_header u add_rlocs_layout [OF es(1) n(1) k]
    by (simp add: set_msglen_any m)
qed

text \<open>The flags of a message that adds locators, and what it adds up to.\<close>

definition add_flags :: "int \<Rightarrow> u32" where
  "add_flags db = (if db = 1 then MAPF_DB else 0) OR MAPF_STATIC OR MAPF_UP"

definition add_addrs :: "cp_prefix \<Rightarrow> u16" where
  "add_addrs p = (if has_mask p then MAPA_EID OR MAPA_RLOC OR MAPA_EIDMASK else MAPA_EID OR MAPA_RLOC)"

definition message_length :: "cp_prefix \<Rightarrow> map_entry list \<Rightarrow> nat" where
  "message_length p es = 28 + length (opl_eid p) + length (opl_mask p) + length (concat (map opl_rloc es))"

definition add_message :: "u32 \<Rightarrow> cp_prefix \<Rightarrow> map_entry list \<Rightarrow> int \<Rightarrow> u32 \<Rightarrow> byte list" where
  "add_message pid p es db sq =
     opl_header (message_length p es) MAPM_ADD (add_flags db) (add_addrs p) (of_nat (length es)) pid sq @
     opl_eid p @ opl_mask p @ concat (map opl_rloc es)"

lemma length_add_message: "length (add_message pid p es db sq) = message_length p es"
  by (simp add: add_message_def message_length_def)

lemma opl_add_locators:
  assumes "es \<noteq> []"
  shows "opl_add pid petr w p (Some es) db sq =
    (case opl_new_msg pid MAPM_VERSION MAPM_ADD (add_flags db) (MAPA_EID OR MAPA_RLOC) sq of (b, sq) \<Rightarrow> do {
       (l, b) \<leftarrow> opl_add_mapp b p;
       if l \<le> 0 then Some ((-1, None), sq)
       else do {
         (l, b) \<leftarrow> opl_add_rloc b (Some es);
         if l \<le> 0 then Some ((-1, None), sq) else Some (opl_write w l b, sq) } })"
proof -
  obtain x xs where "es = x # xs" using assms by (cases es) auto
  then show ?thesis
    by (cases petr) (simp_all add: opl_add_def add_flags_def Let_def new_msg cong: if_cong)
qed

lemma opl_add_layout:
  assumes f: "known_af (family p)" "wf_cp p" and es: "\<forall>e\<in>set es. wf_rloc e" "es \<noteq> []" "length es \<le> 80"
    and m: "message_length p es mod 256 \<noteq> 0"
  shows "opl_add pid petr w p (Some es) db sq =
    Some ((if w < 0 then -1 else w,
      Some (take (message_length p es mod 256) (add_message pid p es db (sq + 1)))), sq + 1)"
proof -
  define n where "n = length (opl_eid p) + length (opl_mask p)"
  let ?a = "if has_mask p then (MAPA_EID OR MAPA_RLOC) OR MAPA_EIDMASK else MAPA_EID OR MAPA_RLOC"
  have n64: "n \<le> 64" using opl_eid_length [OF f] opl_mask_length [OF f(1)] by (auto simp: n_def)
  have k: "48 * length es \<le> PSIZE - n" "64 \<le> PSIZE" using n64 es(3) by (simp_all add: PSIZE_def)
  note c = opl_rlocs_length [OF es(1)]
  have ml: "28 + n + length (concat (map opl_rloc es)) = message_length p es" by (simp add: message_length_def n_def)
  have a: "opl_add_mapp (opl_header 28 MAPM_ADD (add_flags db) (MAPA_EID OR MAPA_RLOC) 0 pid (sq + 1) @ replicate PSIZE 0) p =
      Some (int (28 + n), opl_header (28 + n) MAPM_ADD (add_flags db) ?a 0 pid (sq + 1) @
        (opl_eid p @ opl_mask p) @ replicate (PSIZE - n) 0)"
    using add_mapp_layout [OF f k(2) n_def, of 28 MAPM_ADD "add_flags db" "MAPA_EID OR MAPA_RLOC"] by (simp only: append_assoc)
  have r: "opl_add_rloc (opl_header (28 + n) MAPM_ADD (add_flags db) ?a 0 pid (sq + 1) @
        (opl_eid p @ opl_mask p) @ replicate (PSIZE - n) 0) (Some es) =
      Some (int (message_length p es mod 256), opl_header (message_length p es) MAPM_ADD (add_flags db) ?a (of_nat (length es)) pid (sq + 1) @
        (opl_eid p @ opl_mask p) @ concat (map opl_rloc es) @ replicate (PSIZE - n - length (concat (map opl_rloc es))) 0)"
    by (rule add_rloc_layout [OF es(1,2) _ _ k(1)]) (use n64 in \<open>simp_all add: n_def message_length_def\<close>)
  have am: "opl_header (message_length p es) MAPM_ADD (add_flags db) ?a (of_nat (length es)) pid (sq + 1) @
      (opl_eid p @ opl_mask p) @ concat (map opl_rloc es) @ zs = add_message pid p es db (sq + 1) @ zs" for zs
    by (simp add: add_message_def add_addrs_def or.assoc)
  have pos: "(int (28 + n) \<le> 0) = False" "(int (message_length p es mod 256) \<le> 0) = False" using m by simp_all
  show ?thesis
    unfolding opl_add_locators [OF es(2)] new_msg case_prod_conv a Option.bind.simps pos if_False r am
    using mod_less_eq_dividend [of "message_length p es" 256] by (simp add: opl_write_def length_add_message)
qed


section \<open>Masks\<close>

lemma mask_loop_full: "opl_mask_loop (replicate a 255 @ xs) rs = opl_mask_loop xs (rs + 8 * int a)"
  by (induction a arbitrary: rs) (simp_all add: algebra_simps)

lemma shifts_top: "m < 8 \<Longrightarrow> shifts (push_bit m 255) = int (8 - m)"
proof (induction "8 - m" arbitrary: m)
  case (Suc k)
  show ?case
  proof (cases "m = 7")
    case True
    then show ?thesis by (simp add: shifts.simps)
  next
    case False
    with Suc have m: "Suc m < 8" "k = 8 - Suc m" by simp_all
    have "bit (push_bit m (255 :: byte)) m" using m(1) by (simp add: bit_push_bit_iff)
    then have "push_bit m (255 :: byte) \<noteq> 0" by auto
    moreover have "push_bit 1 (push_bit m (255 :: byte)) = push_bit (Suc m) 255" by (simp only: push_bit_push_bit plus_1_eq_Suc)
    ultimately show ?thesis using Suc.hyps(1) [OF m(2) m(1)] m(1) by (subst shifts.simps) simp
  qed
qed simp

lemma mask_bytes_parts:
  assumes "n \<le> 8 * mm"
  shows "opl_mask_bytes mm n = replicate (n div 8) 255 @ (if n mod 8 = 0 then replicate (mm - n div 8) 0
    else push_bit (8 - n mod 8) 255 # replicate (mm - Suc (n div 8)) 0)"
proof (cases "n mod 8 = 0")
  case False
  then have "n div 8 < mm" using assms by (metis dvd_eq_mod_eq_0 dvd_triv_left le_neq_implies_less less_mult_imp_div_less mult.commute)
  then have "replicate (mm - n div 8) 0 = (0 :: byte) # replicate (mm - Suc (n div 8)) 0"
    by (metis Suc_diff_Suc replicate_Suc)
  then show ?thesis using False by (simp add: opl_mask_bytes_def list_update_append)
qed (simp add: opl_mask_bytes_def)

lemma mask_loop_zeros: "opl_mask_loop (replicate k 0) rs = rs"
  by (cases k) (simp_all add: shifts.simps)

text \<open>A length turned into a mask and read back.\<close>

lemma mask_roundtrip:
  assumes "n \<le> 8 * mm"
  shows "opl_mask_loop (opl_mask_bytes mm n) 0 = int n"
proof (cases "n mod 8 = 0")
  case True
  then have "8 * (n div 8) = n" by (metis mult_div_mod_eq add.right_neutral)
  then show ?thesis using True by (simp add: mask_bytes_parts [OF assms] mask_loop_full mask_loop_zeros flip: of_nat_mult)
next
  case False
  have "8 - n mod 8 < 8" using False by simp
  note t = shifts_top [OF this]
  have "bit (push_bit (8 - n mod 8) (255 :: byte)) 0 = False" using False by (simp add: bit_push_bit_iff)
  moreover have "bit (255 :: byte) 0" by simp
  ultimately have "push_bit (8 - n mod 8) (255 :: byte) \<noteq> 255" by metis
  then have "opl_mask_loop (opl_mask_bytes mm n) 0 = 8 * int (n div 8) + int (8 - (8 - n mod 8))"
    using False t by (simp add: mask_bytes_parts [OF assms] mask_loop_full)
  moreover have "8 - (8 - n mod 8) = n mod 8" by simp
  ultimately show ?thesis by (metis mult_div_mod_eq of_nat_add of_nat_mult of_nat_numeral)
qed


section \<open>Reading a mapping back\<close>

text \<open>The bytes of an address that fit in its socket address, and the parts of a locator a message has.\<close>

definition su_cut :: "sockunion \<Rightarrow> sockunion" where
  "su_cut s = s\<lparr>su_rest := take (SA_LEN (su_family s) - 4) (su_rest s) @ replicate (128 - SA_LEN (su_family s)) 0\<rparr>"

definition read_back :: "map_entry \<Rightarrow> map_entry" where
  "read_back e = \<lparr>me_rloc = su_cut (me_rloc e), me_priority = me_priority e, me_weight = me_weight e,
     me_m_priority = 0, me_m_weight = 0, me_L = (if me_L e \<noteq> 0 then 1 else 0), me_p = 0,
     me_r = (if me_r e \<noteq> 0 then 1 else 0), me_pe = None\<rparr>"

lemma rdn_mid: "i = length xs \<Longrightarrow> n = length ys \<Longrightarrow> rdn (xs @ ys @ zs) i n = Some ys"
  by (simp add: rdn_def)

lemma rd8_mid: "i = length xs + j \<Longrightarrow> j < length ys \<Longrightarrow> rd8 (xs @ ys @ zs) i = Some (ys ! j)"
  by (simp add: rd8_def nth_append)

lemma su_read_at:
  assumes s: "known_af (su_family s)" "wf_su s" and i: "i = length xs"
  shows "su_read (xs @ (su_bytes (SA_LEN (su_family s)) s @ (if su_family s = FAM_INET then [] else replicate 4 0)) @ zs) i
    (if su_family s = FAM_INET then 16 else 32) = Some (su_cut s)"
proof -
  let ?b = "su_bytes (SA_LEN (su_family s)) s @ (if su_family s = FAM_INET then [] else replicate 4 0)"
  have l: "length ?b = (if su_family s = FAM_INET then 16 else 32)"
    using s by (auto simp: su_bytes_def SA_LEN_def wf_su_def net16_def known_af_def)
  have z: "replicate 4 0 @ replicate 96 0 = replicate 100 (0 :: byte)" by (simp flip: replicate_add)
  have "rdn (xs @ ?b @ zs) i (if su_family s = FAM_INET then 16 else 32) = Some ?b" by (rule rdn_mid [OF i]) (use l in simp)
  then show ?thesis using s z unfolding known_af_def
    by (elim disjE) (simp_all add: su_read_def su_cut_def su_bytes_def net16_def af_code_def af_of_def word_cat_parts
      SA_LEN_def Let_def)
qed

lemma rloc_flags_read:
  "rloc_flags e AND RLOCF_LIF \<noteq> 0 \<longleftrightarrow> me_L e \<noteq> 0" "rloc_flags e AND RLOCF_UP \<noteq> 0 \<longleftrightarrow> me_r e \<noteq> 0"
  by (simp_all add: rloc_flags_def RLOCF_LIF_def RLOCF_UP_def)

lemma get_rlocs_at:
  assumes "\<forall>e\<in>set es. wf_rloc e" and "i = length xs"
  shows "get_rlocs (length es) i (xs @ concat (map opl_rloc es) @ zs) acc = Some (acc @ map read_back es)"
  using assms
proof (induction es arbitrary: i xs acc)
  case (Cons e es)
  let ?s = "me_rloc e"
  let ?S = "su_bytes (SA_LEN (su_family ?s)) ?s @ (if su_family ?s = FAM_INET then [] else replicate 4 0)"
  let ?l = "if su_family ?s = FAM_INET then 16 else 32 :: nat"
  let ?M = "[me_priority e, me_weight e] @ host16 (rloc_flags e) @ replicate 12 0"
  let ?Z = "concat (map opl_rloc es) @ zs"
  have s: "known_af (su_family ?s)" "wf_su ?s" and i: "i = length xs" using Cons.prems by (simp_all add: wf_rloc_def)
  have l: "length ?S = ?l" using s by (auto simp: su_bytes_def SA_LEN_def wf_su_def net16_def known_af_def)
  have b: "xs @ concat (map opl_rloc (e # es)) @ zs = xs @ ?S @ ?M @ ?Z" by (simp add: opl_rloc_def Let_def)
  have 1: "SS_LEN (xs @ ?S @ ?M @ ?Z) i = Some ?l"
    by (rule SS_LEN_values) (simp add: rd8_def nth_append su_bytes_def i)
  have 2: "su_read (xs @ ?S @ ?M @ ?Z) i ?l = Some (su_cut ?s)" by (rule su_read_at [OF s i])
  have 3: "rd8 (xs @ ?S @ ?M @ ?Z) (i + ?l) = Some (me_priority e)"
    using rd8_mid [of "i + ?l" "xs @ ?S" 0 ?M ?Z] i l by simp
  have 4: "rd8 (xs @ ?S @ ?M @ ?Z) (i + ?l + 1) = Some (me_weight e)"
    using rd8_mid [of "i + ?l + 1" "xs @ ?S" 1 ?M ?Z] i l by simp
  have 5: "rd16le (xs @ ?S @ ?M @ ?Z) (i + ?l + 2) = Some (rloc_flags e)"
    using host16_read [of "xs @ ?S @ [me_priority e, me_weight e]" "rloc_flags e" "replicate 12 0 @ ?Z"] i l by (simp add: add.assoc)
  have 6: "get_rlocs (length es) (i + ?l + sizeof_rloc_mtx) ((xs @ ?S @ ?M) @ ?Z) (acc @ [read_back e]) =
      Some ((acc @ [read_back e]) @ map read_back es)"
    by (rule Cons.IH) (use Cons.prems l in \<open>auto simp: sizeof_rloc_mtx_def\<close>)
  have rb: "\<lparr>me_rloc = su_cut ?s, me_priority = me_priority e, me_weight = me_weight e, me_m_priority = 0, me_m_weight = 0,
      me_L = (if rloc_flags e AND RLOCF_LIF \<noteq> 0 then 1 else 0), me_p = 0,
      me_r = (if rloc_flags e AND RLOCF_UP \<noteq> 0 then 1 else 0), me_pe = None\<rparr> = read_back e"
    by (simp only: rloc_flags_read read_back_def)
  have cat: "xs @ ?S @ ?M @ ?Z = (xs @ ?S @ ?M) @ ?Z" by simp
  show ?case
    unfolding b length_Cons get_rlocs.simps(2) 1 Option.bind.simps 2 Let_def 3 4 5 rb
    unfolding cat 6 by simp
qed simp


definition prefix_back :: "cp_prefix \<Rightarrow> cp_prefix \<Rightarrow> map_entry \<Rightarrow> cp_prefix" where
  "prefix_back q p e = q\<lparr>family := family p,
     addr := (if family p = FAM_INET then take 4 (addr p) @ drop 4 (addr q) else addr p),
     prefixlen := (if has_mask p then prefixlen p else if su_family (me_rloc e) = FAM_INET then 32 else 128)\<rparr>"

lemma add_addrs_bits: "add_addrs p AND MAPA_EID \<noteq> 0" "add_addrs p AND MAPA_RLOC \<noteq> 0"
  "add_addrs p AND MAPA_EIDMASK \<noteq> 0 \<longleftrightarrow> has_mask p"
  by (simp_all add: add_addrs_def MAPA_EID_def MAPA_RLOC_def MAPA_EIDMASK_def)

lemma sockaddr2prefix_at:
  assumes f: "known_af (family p)" "wf_cp p" and i: "i = length xs"
  shows "\<exists>l. l \<noteq> 0 \<and> sockaddr2prefix (xs @ opl_eid p @ zs) i q =
    Some (l, q\<lparr>family := family p, addr := (if family p = FAM_INET then take 4 (addr p) @ drop 4 (addr q) else addr p)\<rparr>)"
proof -
  let ?h = "[of_nat (SA_LEN (family p)), af_code (family p), 0, 0]"
  let ?g = "if family p = FAM_INET then [] else replicate 4 (0 :: byte)"
  let ?a = "take (SIN_LEN (family p)) (addr p)"
  have l: "length ?a = SIN_LEN (family p)" using f by (simp add: wf_cp_def SIN_LEN_def)
  have b: "xs @ opl_eid p @ zs = (xs @ ?h @ ?g) @ ?a @ (replicate 8 0 @ zs)" by (simp add: opl_eid_def opl_sockaddr_def)
  have "rd8 (xs @ opl_eid p @ zs) (Suc i) = Some (af_code (family p))"
    using rd8_mid [of "Suc i" xs 1 ?h "?g @ ?a @ replicate 8 0 @ zs"] i by (simp add: opl_eid_def opl_sockaddr_def)
  moreover have "rdn (xs @ opl_eid p @ zs) (i + (if family p = FAM_INET then 4 else 8)) (SIN_LEN (family p)) = Some ?a"
    unfolding b by (rule rdn_mid) (use i l in auto)
  ultimately show ?thesis using f l unfolding known_af_def
    by (elim disjE) (simp_all add: sockaddr2prefix_def af_of_def af_code_def set_prefix4_def SIN_LEN_def wf_cp_def)
qed

lemma sockaddr2mask_at:
  assumes f: "known_af (family p)" and h: "has_mask p" and i: "i = length xs"
  shows "opl_sockaddr2mask (xs @ opl_mask p @ zs) i = Some (0, Some (int (plen p)))"
proof -
  let ?h = "[of_nat (SA_LEN (family p)), af_code (family p), 0, 0]"
  let ?g = "if family p = FAM_INET then [] else replicate 4 (0 :: byte)"
  let ?a = "opl_mask_bytes (SIN_LEN (family p)) (plen p)"
  have n: "plen p \<le> 8 * SIN_LEN (family p)" using h by (simp add: has_mask_def)
  then have l: "length ?a = SIN_LEN (family p)" by simp
  have b: "xs @ opl_mask p @ zs = (xs @ ?h @ ?g) @ ?a @ (replicate 8 0 @ zs)" using h by (simp add: opl_mask_def opl_sockaddr_def)
  have "rd8 (xs @ opl_mask p @ zs) (Suc i) = Some (af_code (family p))"
    using rd8_mid [of "Suc i" xs 1 ?h "?g @ ?a @ replicate 8 0 @ zs"] i h by (simp add: opl_mask_def opl_sockaddr_def)
  moreover have "rdn (xs @ opl_mask p @ zs) (i + (if family p = FAM_INET then 4 else 8)) (SIN_LEN (family p)) = Some ?a"
    unfolding b by (rule rdn_mid) (use i l in auto)
  ultimately show ?thesis using f mask_roundtrip [OF n] unfolding known_af_def
    by (elim disjE) (simp_all add: opl_sockaddr2mask_def af_of_def af_code_def SIN_LEN_def)
qed

lemma parse_reply:
  assumes f: "known_af (family p)" "wf_cp p" and es: "\<forall>e\<in>set es. wf_rloc e" "length es < 2 ^ 31"
    and d: "fl AND MAPF_DONE \<noteq> 0"
    and b: "b = opl_header n t fl (add_addrs p) (of_nat (length es)) pid sq @ opl_eid p @ opl_mask p @ concat (map opl_rloc es) @ ys"
    and ne: "es \<noteq> []"
  shows "parse_mapping b rs = Some (0, prefix_back (fst rs) p (hd es), Some (map read_back es))"
proof -
  let ?H = "opl_header n t fl (add_addrs p) (of_nat (length es)) pid sq"
  let ?R = "concat (map opl_rloc es)"
  let ?q = "(fst rs)\<lparr>family := family p, addr := (if family p = FAM_INET then take 4 (addr p) @ drop 4 (addr (fst rs)) else addr p)\<rparr>"
  let ?le = "length (opl_eid p)" and ?lm = "length (opl_mask p)"
  obtain l where l: "l \<noteq> 0" "sockaddr2prefix b 28 (fst rs) = Some (l, ?q)"
    using sockaddr2prefix_at [OF f, of 28 ?H] b by auto
  have s1: "SS_LEN b 28 = Some ?le"
    using SS_LEN_at [of 28 ?H "family p"] opl_eid_length [OF f] by (simp add: opl_eid_def b)
  have n: "nat (sint (of_nat (length es) :: u32)) = length es"
  proof -
    have "sint (word_of_int (int (length es)) :: u32) = int (length es)"
      using es(2) by (simp only: sint_sbintrunc') (simp add: signed_take_bit_int_eq_self)
    then show ?thesis by simp
  qed
  have g: "get_rlocs (length es) (28 + ?le + ?lm) b [] = Some (map read_back es)"
    using get_rlocs_at [OF es(1), of "28 + ?le + ?lm" "?H @ opl_eid p @ opl_mask p" ys "[]"] by (simp add: b)
  have hd: "rd32le b 4 = Some fl" "rd16le b 8 = Some (add_addrs p)" "rd32le b 12 = Some (of_nat (length es))"
    by (simp_all add: b rd_header)
  show ?thesis
  proof (cases "has_mask p")
    case True
    have "opl_sockaddr2mask b (28 + ?le) = Some (0, Some (int (plen p)))"
      using sockaddr2mask_at [OF f(1) True, of "28 + ?le" "?H @ opl_eid p"] by (simp add: b)
    moreover have "SS_LEN b (28 + ?le) = Some ?lm"
      using SS_LEN_at [of "28 + ?le" "?H @ opl_eid p" "family p"] opl_mask_length [OF f(1)] True by (simp add: opl_mask_def b)
    moreover have "of_int (int (plen p)) = prefixlen p" by (simp add: plen_def)
    ultimately show ?thesis using l s1 n g hd d True add_addrs_bits [of p]
      by (simp add: parse_mapping_def sizeof_map_msghdr_def Let_def prefix_back_def)
  next
    case False
    then have m: "opl_mask p = []" by (simp add: opl_mask_def)
    obtain e es' where c: "es = e # es'" using ne by (cases es) auto
    then have k: "known_af (su_family (me_rloc e))" using es(1) by (simp add: wf_rloc_def)
    have "rd8 b (Suc (28 + ?le)) = Some (af_code (su_family (me_rloc e)))"
      using rd8_mid [of "Suc (28 + ?le)" "?H @ opl_eid p" 1 "opl_rloc e" "concat (map opl_rloc es') @ ys"]
      by (simp add: b m c opl_rloc_def su_bytes_def Let_def)
    moreover have "af_of (af_code (su_family (me_rloc e))) = su_family (me_rloc e)"
      using k by (auto simp: known_af_def af_of_def af_code_def)
    moreover have "hd es = e" by (simp add: c)
    ultimately show ?thesis using l s1 n g hd d False add_addrs_bits [of p] m
      by (simp add: parse_mapping_def sizeof_map_msghdr_def Let_def prefix_back_def)
  qed
qed


section \<open>Round trip\<close>

text \<open>The message with a mapping, as the data plane sends it in answer to a request of a process: with its own
  flags, the process and the sequence number of the request.\<close>

definition kernel_reply :: "byte list \<Rightarrow> u32 \<Rightarrow> u32 \<Rightarrow> u32 \<Rightarrow> byte list" where
  "kernel_reply m fl pid sq = take 4 m @ host32 fl @ take 8 (drop 8 m) @ host32 pid @ host32 sq @ drop 24 m"

lemma kernel_reply_header:
  "kernel_reply (opl_header n t fl0 a c pid0 sq0 @ b) fl pid sq = opl_header n t fl a c pid sq @ b"
  by (simp add: kernel_reply_def opl_header_def host16_def host32_def)

lemma message_length_count: "\<forall>e\<in>set es. wf_rloc e \<Longrightarrow> 32 * length es \<le> length (concat (map opl_rloc es))"
  by (induction es) (auto simp: opl_rloc_length)

lemma opl_add_short:
  assumes f: "known_af (family p)" "wf_cp p" and es: "\<forall>e\<in>set es. wf_rloc e" "es \<noteq> []"
    and m: "message_length p es < 256"
  shows "opl_add pid petr w p (Some es) db sq =
    Some ((if w < 0 then -1 else w, Some (add_message pid p es db (sq + 1))), sq + 1)" and "length es \<le> 7"
proof -
  have "32 * length es < 256" "message_length p es mod 256 = message_length p es"
    using m message_length_count [OF es(1)] by (simp_all add: message_length_def)
  then show "length es \<le> 7" by simp
  then show "opl_add pid petr w p (Some es) db sq =
      Some ((if w < 0 then -1 else w, Some (add_message pid p es db (sq + 1))), sq + 1)"
    using opl_add_layout [OF f es] m by (simp add: length_add_message message_length_def)
qed

lemma opl_get_answer:
  assumes q: "known_af (family q)" "wf_cp q" and w: "0 \<le> w" and a: "rd 0 = Some r" "0 < length r" "length r \<le> PSIZE"
    and h: "\<And>z. rd32le (r @ z) 16 = Some pid" "\<And>z. rd32le (r @ z) 20 = Some (sq + 1)"
    and x: "\<And>z. parse_mapping (r @ z) rs = Some (0, rs')"
  shows "\<exists>ask. opl_get pid w rd q db rs sq = Some (0, Some ask, rs', sq + 1)"
proof -
  obtain n b where m: "opl_add_mapp (opl_header 28 MAPM_GET ((if db \<noteq> 0 then MAPF_DB else MAPF_ALL) OR MAPF_STATIC OR MAPF_UP)
      MAPA_EID 0 pid (sq + 1) @ replicate PSIZE 0) q = Some (int n, b)"
    using add_mapp_layout [OF q _ refl, of PSIZE] by (fastforce simp: PSIZE_def)
  have t: "take PSIZE r = r" using a(3) by simp
  then have "wait_answer rd (sq + 1) pid 0 b' = Some (int (length r), 0, r @ drop (length r) b')" for b'
    using h by (subst wait_answer.simps) (simp add: a(1) read_into_def Let_def)
  then show ?thesis using m w x by (simp add: opl_get_def new_msg opl_write_def Let_def)
qed


text \<open>
  A mapping with many locators is cut. The length of a message is counted in eight bits, and that count is what
  \<open>write\<close> gets: of a message of 256 bytes or more only the remainder of its length is written.
\<close>

theorem opl_add_truncates:
  assumes "known_af (family p)" "wf_cp p" "\<forall>e\<in>set es. wf_rloc e" "es \<noteq> []" "length es \<le> 80"
    and "256 < message_length p es" "message_length p es < 512"
  shows "\<exists>m. opl_add pid petr w p (Some es) db sq = Some ((if w < 0 then -1 else w, Some m), sq + 1) \<and>
    m = take (message_length p es - 256) (add_message pid p es db (sq + 1)) \<and> length m < length (add_message pid p es db (sq + 1))"
proof -
  have mod: "message_length p es mod 256 = message_length p es - 256"
    using assms(6,7) by (simp add: mod_if)
  then have "message_length p es mod 256 \<noteq> 0" using assms(6) by simp
  then show ?thesis using opl_add_layout [OF assms(1-5)] mod assms(6) by (simp add: length_add_message)
qed


section \<open>A mapping\<close>

definition opl_prefix :: cp_prefix where
  "opl_prefix = \<lparr>family = FAM_INET, prefixlen = 24, addr = [10, 1, 2, 0] @ replicate 12 0\<rparr>"

definition opl_entry :: map_entry where
  "opl_entry = \<lparr>me_rloc = \<lparr>su_family = FAM_INET, su_port = 0, su_rest = [192, 0, 2, 1] @ replicate 120 0\<rparr>,
     me_priority = 1, me_weight = 100, me_m_priority = 255, me_m_weight = 0, me_L = 1, me_p = 0, me_r = 1, me_pe = None\<rparr>"

lemma opl_sample:
  "known_af (family opl_prefix)" "wf_cp opl_prefix" "has_mask opl_prefix" "\<forall>e\<in>set (replicate n opl_entry). wf_rloc e"
  by (auto simp: opl_prefix_def opl_entry_def known_af_def wf_cp_def plen_def wf_rloc_def wf_su_def has_mask_def SIN_LEN_def)

lemma opl_sample_length: "message_length opl_prefix (replicate n opl_entry) = 60 + 32 * n"
proof -
  have "wf_rloc opl_entry" using opl_sample(4) [of 1] by simp
  then have "length (opl_rloc opl_entry) = 32" using opl_rloc_length by (simp add: opl_entry_def)
  then have "length (concat (map opl_rloc (replicate n opl_entry))) = 32 * n" by (induction n) simp_all
  then show ?thesis using opl_eid_length [OF opl_sample(1,2)] opl_mask_length [OF opl_sample(1)] opl_sample(3)
    by (simp add: message_length_def opl_prefix_def)
qed


theorem opl_add_truncates_witness:
  "\<exists>m. opl_add 7 None 28 opl_prefix (Some (replicate 7 opl_entry)) 1 0 = Some ((28, Some m), 1) \<and> length m = 28"
  using opl_add_truncates [OF opl_sample(1,2) opl_sample(4), of 7 7 None 28 1 0]
  by (simp add: opl_sample_length length_add_message)

end
