(* ===== verification/Cp_Opl_Hv.thy ===== *)
theory Cp_Opl_Hv
  imports Hv_Mux Cp_Opl_Trip
begin

text \<open>
  The two programs together. A control plane writes its mapping messages to the socket the hypervisor reads:
  what the hypervisor takes from a message that \<open>opl_add\<close> writes is the EID prefix of the mapping, and a local mapping
  assigns its prefix to the control plane it comes from.
\<close>

section \<open>The socket addresses of the data plane\<close>

definition bsd_abi :: sockaddr_abi where
  "bsd_abi = \<lparr>ss_family = (\<lambda>p. map_option unat (rd8 p 1)), SA_SIZE = (\<lambda>p. SS_LEN p 0), AF_INET = 2, AF_INET6 = 28\<rparr>"

text \<open>The EID of a mapping in the form the hypervisor keeps. A prefix without a mask is taken for a host.\<close>

definition hv_eid :: "cp_prefix \<Rightarrow> ipv6_prefix" where
  "hv_eid p =
     \<lparr>prefix = (if family p = FAM_INET then ipv4_mapped (take 4 (addr p)) else addr p),
      prefix_length = (if has_mask p then (if family p = FAM_INET then 96 + prefixlen p else prefixlen p) else 128),
      reason = PRFX_ASIS\<rparr>"

section \<open>Masks\<close>

lemma leading_ones_full: "leading_ones (replicate a 255 @ xs) = 8 * a + leading_ones xs"
  by (induction a) (simp_all add: leading_ones_Cons)

lemma leading_ones_zeros: "leading_ones (replicate a 0) = 0"
  by (cases a) (simp_all add: leading_ones_Cons byte_bits_def leading_ones_def)

lemma byte_ones: "m < 8 \<Longrightarrow> length (takeWhile (\<lambda>x. x) (byte_bits (push_bit (8 - m) 255))) = m"
proof -
  have "\<forall>m<8. length (takeWhile (\<lambda>x. x) (byte_bits (push_bit (8 - m) 255))) = m"
    by (simp add: all_less_8 byte_bits_def)
  then show "m < 8 \<Longrightarrow> ?thesis" by blast
qed

lemma leading_ones_mask:
  assumes "n \<le> 8 * mm"
  shows "leading_ones (opl_mask_bytes mm n) = n"
proof (cases "n mod 8 = 0")
  case True
  then have "8 * (n div 8) = n" by (metis mult_div_mod_eq add.right_neutral)
  then show ?thesis using True by (simp add: mask_bytes_parts [OF assms] leading_ones_full leading_ones_zeros)
next
  case False
  have "n mod 8 < 8" by simp
  note b = byte_ones [OF this]
  have "push_bit (8 - n mod 8) (255 :: byte) \<noteq> 255"
  proof
    assume "push_bit (8 - n mod 8) (255 :: byte) = 255"
    then have "length (takeWhile (\<lambda>x. x) (byte_bits (255 :: byte))) = n mod 8" using b by simp
    then show False using \<open>n mod 8 < 8\<close> by (simp add: byte_bits_ones)
  qed
  then have "leading_ones (push_bit (8 - n mod 8) 255 # replicate (mm - Suc (n div 8)) 0) = n mod 8"
    using b by (simp add: leading_ones_Cons)
  then show ?thesis using False by (simp add: mask_bytes_parts [OF assms] leading_ones_full)
qed


section \<open>The EID of a message\<close>

lemma process_eid_message:
  assumes f: "known_af (family p)" "wf_cp p"
  shows "(if family p = FAM_INET then process_eid_ipv4 bsd_abi (opl_eid p @ opl_mask p @ zs) (has_mask p)
    else process_eid_ipv6 bsd_abi (opl_eid p @ opl_mask p @ zs) (has_mask p)) = Some (hv_eid p)"
proof -
  let ?f = "family p"
  let ?raw = "opl_eid p @ opl_mask p @ zs"
  let ?i = "if ?f = FAM_INET then 4 else 8 :: nat"
  have mm: "length (opl_mask_bytes (SIN_LEN ?f) (plen p)) = SIN_LEN ?f" if "has_mask p"
  proof -
    have "plen p \<le> 8 * SIN_LEN ?f" using that by (simp add: has_mask_def)
    then show ?thesis by simp
  qed
  let ?a = "take (SIN_LEN ?f) (addr p)"
  let ?h = "[of_nat (SA_LEN ?f), af_code ?f, 0, 0] @ (if ?f = FAM_INET then [] else replicate 4 0)"
  have b: "?raw = ?h @ ?a @ (replicate 8 0 @ opl_mask p @ zs)" by (simp add: opl_eid_def opl_sockaddr_def)
  have a: "rdn ?raw ?i (SIN_LEN ?f) = Some ?a"
    unfolding b by (rule rdn_mid) (use f in \<open>auto simp: wf_cp_def SIN_LEN_def\<close>)
  have s: "SA_SIZE bsd_abi ?raw = Some (length (opl_eid p))"
    using SS_LEN_at [of 0 "[]" ?f] opl_eid_length [OF f] by (simp add: bsd_abi_def opl_eid_def)
  have m: "mask_bytes (drop (length (opl_eid p) + ?i) ?raw) (SIN_LEN ?f) (128 - of_nat (8 * SIN_LEN ?f)) =
      Some (128 - of_nat (8 * SIN_LEN ?f) + prefixlen p)" if h: "has_mask p"
  proof -
    let ?m = "opl_mask_bytes (SIN_LEN ?f) (plen p)"
    have n: "plen p \<le> 8 * SIN_LEN ?f" using h by (simp add: has_mask_def)
    have d: "drop (length (opl_eid p) + ?i) ?raw = ?m @ replicate 8 0 @ zs"
      using h by (simp add: opl_mask_def opl_sockaddr_def)
    have "mask_bytes (?m @ replicate 8 0 @ zs) (SIN_LEN ?f) (128 - of_nat (8 * SIN_LEN ?f)) =
        Some (128 - of_nat (8 * SIN_LEN ?f) + of_nat (leading_ones (take (SIN_LEN ?f) (?m @ replicate 8 0 @ zs))))"
      by (rule mask_bytes_eq) (use mm [OF h] in auto)
    then show ?thesis unfolding d using mm [OF h] leading_ones_mask [OF n] by (simp add: plen_def)
  qed
  show ?thesis using a s m f unfolding known_af_def
    by (elim disjE) (auto simp: process_eid_ipv4_def process_eid_ipv6_def hv_eid_def SIN_LEN_def wf_cp_def)
qed

lemma extract_add_message:
  assumes f: "known_af (family p)" "wf_cp p"
  shows "extract_eid_mm bsd_abi (add_message proc p es db sq @ zs) = Some (hv_eid p)"
proof -
  let ?b = "add_message proc p es db sq @ zs"
  let ?raw = "opl_eid p @ opl_mask p @ concat (map opl_rloc es) @ zs"
  have d: "drop sizeof_map_msghdr ?b = ?raw" by (simp add: add_message_def sizeof_map_msghdr_def)
  have "rd8 ?raw 1 = Some (af_code (family p))"
    by (simp add: rd8_def opl_eid_def opl_sockaddr_def)
  then have c: "ss_family bsd_abi ?raw = Some (unat (af_code (family p)))" by (simp add: bsd_abi_def)
  have h: "rd16le ?b 10 = Some 0" "rd16le ?b 2 = Some MAPM_ADD" "rd16le ?b 8 = Some (add_addrs p)"
    by (simp_all add: add_message_def rd_header)
  show ?thesis using process_eid_message [OF f, of "concat (map opl_rloc es) @ zs"] f add_addrs_bits [of p]
    unfolding known_af_def
    by (elim disjE) (simp_all add: extract_eid_mm_def extract_eid_mm_add_delete_def h d c Let_def af_code_def del: drop_append,
        simp_all add: bsd_abi_def)
qed



lemma opl_sample_eid: "hv_eid opl_prefix = mapped [10, 1, 2, 0] 24"
  using opl_sample(3) by (simp add: hv_eid_def mapped_def opl_prefix_def)


end
