(* ===== verification/Cp_Opl_Lookup.thy ===== *)
theory Cp_Opl_Lookup
  imports Cp_Opl Cp_Referral
begin

text \<open>
  The lookups of the OpenLISP front end (\<open>plugin_openlisp.c\<close>): a miss of the data plane becomes a Map-Request to
  a map resolver, which is repeated until a Map-Reply comes, and the records of the reply are added to the
  mapping cache of the data plane. An EID is the image of a socket address, as it is copied and compared. The
  sockets, the time, the nonces, what is read and whether sending succeeds are arguments. \<open>None\<close> is a null
  pointer or an access outside an object; what lies behind an array of the structure is known from its
  layout, and a read one past the end is that.
\<close>

definition MAX_COUNT :: nat where "MAX_COUNT = 3"
definition COUNT :: int where "COUNT = 3"
definition FNC_RTR :: byte where "FNC_RTR = 16"

section \<open>The addresses of the machine\<close>

text \<open>An interface may have no address, and \<open>getnameinfo\<close> may give no name.\<close>

definition loopback_name :: "string \<Rightarrow> bool" where
  "loopback_name buf \<longleftrightarrow> buf = ''127.0.0.1'' \<or> buf = ''::1'' \<or> take 4 buf = ''fe80''"

fun find_my_addr :: "(sockunion option \<times> string option) list \<Rightarrow> sockunion \<Rightarrow> int" where
  "find_my_addr [] sk = 0"
| "find_my_addr ((ifa, nm) # ifs) sk =
     (case (ifa, nm) of
        (Some a, Some buf) \<Rightarrow>
          if su_family a \<noteq> su_family sk \<or> loopback_name buf then find_my_addr ifs sk
          else (case su_family sk of
                  FAM_INET \<Rightarrow> if sin_addr a = sin_addr sk then 1 else find_my_addr ifs sk
                | FAM_INET6 \<Rightarrow> if sin6_addr a = sin6_addr sk then 1 else find_my_addr ifs sk
                | FAM_OTHER _ \<Rightarrow> -1)
      | _ \<Rightarrow> find_my_addr ifs sk)"

definition is_my_addr :: "(sockunion option \<times> string option) list option \<Rightarrow> sockunion \<Rightarrow> int" where
  "is_my_addr ifap sk = (case ifap of None \<Rightarrow> -1 | Some ifs \<Rightarrow> find_my_addr ifs sk)"

section \<open>State\<close>

record opl_lookup =
  ol_eid :: "byte list"
  ol_rx :: int
  ol_nonce0 :: "u32 list"
  ol_nonce1 :: "u32 list"
  ol_sport :: u16
  ol_start :: timespec
  ol_count :: int
  ol_active :: bool
  ol_mr :: "sockunion option"

record opl_state =
  os_lookups :: "opl_lookup list"
  os_seq :: u32

record opl_env =
  oe_cf :: cp_config
  oe_srcport_rand :: bool
  oe_src4 :: "byte list option"
  oe_src6 :: "byte list option"
  oe_ifs :: "(sockunion option \<times> string option) list option"
  oe_skfd :: int
  oe_skfd6 :: int
  oe_pid :: u32
  oe_petr :: "map_entry list option option"
  oe_write :: int

text \<open>What the front end does to the outside.\<close>

datatype opl_effect = Send int datagram | Write "byte list" | Close int

definition empty_opl_lookup :: opl_lookup where
  "empty_opl_lookup = \<lparr>ol_eid = replicate 128 0, ol_rx = 0, ol_nonce0 = replicate MAX_COUNT 0,
     ol_nonce1 = replicate MAX_COUNT 0, ol_sport = 0, ol_start = (0, 0), ol_count = 0, ol_active = False, ol_mr = None\<rparr>"

definition ol_get :: "opl_state \<Rightarrow> nat \<Rightarrow> opl_lookup option" where
  "ol_get st i = (if i < length (os_lookups st) then Some (os_lookups st ! i) else None)"

definition ol_set :: "nat \<Rightarrow> opl_lookup \<Rightarrow> opl_state \<Rightarrow> opl_state" where
  "ol_set i k st = st\<lparr>os_lookups := (os_lookups st)[i := k]\<rparr>"

section \<open>Misses\<close>

text \<open>The family of an address in a message, and its size, which is \<open>-1\<close> as an unsigned number for others.\<close>

definition eid_family :: "byte list \<Rightarrow> af option" where
  "eid_family eid = map_option af_of (rd8 eid 1)"

definition get_sock_size :: "byte list \<Rightarrow> nat option" where
  "get_sock_size eid = do {
     f \<leftarrow> eid_family eid;
     Some (case f of FAM_INET \<Rightarrow> 16 | FAM_INET6 \<Rightarrow> 28 | FAM_OTHER _ \<Rightarrow> 2 ^ 64 - 1) }"

text \<open>A map resolver is chosen by a random number.\<close>

definition opl_get_mr :: "nat \<Rightarrow> sockunion list \<Rightarrow> sockunion option" where
  "opl_get_mr rn xtr_mr = (if xtr_mr = [] then None else Some (xtr_mr ! (rn mod length xtr_mr)))"

fun check_lookups :: "byte list \<Rightarrow> opl_lookup list \<Rightarrow> bool option" where
  "check_lookups eid [] = Some True"
| "check_lookups eid (k # ks) =
     (if ol_active k then do {
        n \<leftarrow> get_sock_size eid;
        a \<leftarrow> rdn eid 0 n;
        b \<leftarrow> rdn (ol_eid k) 0 n;
        if a = b then Some False else check_lookups eid ks }
      else check_lookups eid ks)"

definition check_eid :: "byte list \<Rightarrow> opl_state \<Rightarrow> bool option" where
  "check_eid eid st = check_lookups eid (drop 1 (os_lookups st))"

section \<open>Map-Requests\<close>

text \<open>The headers around a request. Here the checksum is stored in the order it was computed in, and the
  length of an IPv6 packet counts its header.\<close>

definition opl_ip_header :: "nat \<Rightarrow> byte list \<Rightarrow> byte list \<Rightarrow> byte list" where
  "opl_ip_header ip_len src dst =
     (let h = (\<lambda>sum. [0x45, 0] @ net16 (of_nat ip_len) @ [0, 0, 0, 0, 255, 17] @ sum @ src @ dst)
      in h (word_bytes (ip_checksum (le_words (h [0, 0])))))"

definition opl_request :: "opl_env \<Rightarrow> sockunion \<Rightarrow> byte list \<Rightarrow> u16 \<Rightarrow> u32 \<Rightarrow> u32 \<Rightarrow> byte list option option" where
  "opl_request ev mr eid sport nonce0 nonce1 = do {
     f \<leftarrow> eid_family eid;
     case (su_family mr, f) of
       (FAM_OTHER _, _) \<Rightarrow> Some None
     | (_, FAM_OTHER _) \<Rightarrow> Some None
     | (mf, f) \<Rightarrow> do {
         src \<leftarrow> (if f = FAM_INET then oe_src4 ev else oe_src6 ev);
         itr \<leftarrow> (if mf = FAM_INET then oe_src4 ev else oe_src6 ev);
         a \<leftarrow> (if f = FAM_INET then rdn eid 4 4 else rdn eid 8 16);
         m \<leftarrow> request_message 0 0 0 0 0 0 nonce0 nonce1 [\<lparr>aa_family = mf, aa_addr = itr @ replicate (16 - length itr) 0\<rparr>]
           \<lparr>family = f, prefixlen = (if f = FAM_INET then 32 else 128), addr = a @ replicate (16 - length a) 0\<rparr>;
         let udp = udp_header sport (8 + length m) @ m;
         Some (Some ([put_field 4 4 LISP_TYPE_ENCAPSULATED_CONTROL_MESSAGE 0, 0, 0, 0] @
           (if f = FAM_INET then opl_ip_header (20 + length udp) src a
            else ip6_header (40 + length udp) src a) @ udp)) } }"

text \<open>A lookup that has been tried often enough ends, but only when it has a socket of its own.\<close>

definition send_mr ::
  "opl_env \<Rightarrow> bool \<Rightarrow> u32 \<times> u32 \<Rightarrow> nat \<Rightarrow> opl_state \<Rightarrow> (int \<times> opl_effect list \<times> opl_state) option" where
  "send_mr ev sent nonce idx st = do {
     k \<leftarrow> ol_get st idx;
     if COUNT \<le> ol_count k \<and> oe_srcport_rand ev
     then Some (0, [Close (ol_rx k)], ol_set idx (k\<lparr>ol_active := False\<rparr>) st)
     else do {
       mr \<leftarrow> ol_mr k;
       r \<leftarrow> opl_request ev mr (ol_eid k) (ol_sport k) (fst nonce) (snd nonce);
       case r of
         None \<Rightarrow> Some (-1, [], st)
       | Some b \<Rightarrow>
           if \<not> sent then Some (0, [Send (ol_rx k) (mr, b)], st)
           else if nat (ol_count k) < MAX_COUNT then
             Some (1, [Send (ol_rx k) (mr, b)],
               ol_set idx (k\<lparr>ol_nonce0 := (ol_nonce0 k)[nat (ol_count k) := fst nonce],
                 ol_nonce1 := (ol_nonce1 k)[nat (ol_count k) := snd nonce], ol_count := ol_count k + 1\<rparr>) st)
           else None } }"

text \<open>The first free place is taken: the first that is not active, from the second place of the table on.\<close>

fun inactive_from :: "nat \<Rightarrow> opl_lookup list \<Rightarrow> nat" where
  "inactive_from i [] = i"
| "inactive_from i (k # ks) = (if ol_active k then inactive_from (Suc i) ks else i)"

text \<open>A socket of its own comes with the port it was bound to; \<open>None\<close> is a failed \<open>socket\<close>.\<close>

definition new_lookup ::
  "opl_env \<Rightarrow> (int \<times> u16) option \<Rightarrow> timespec \<Rightarrow> bool \<Rightarrow> u32 \<times> u32 \<Rightarrow> byte list \<Rightarrow> sockunion \<Rightarrow> opl_state \<Rightarrow>
   (opl_effect list \<times> opl_state) option" where
  "new_lookup ev sock now sent nonce eid mr st =
     (let i = inactive_from 1 (drop 1 (os_lookups st))
      in if MAX_LOOKUPS \<le> i then Some ([], st)
         else
           (case (if oe_srcport_rand ev then sock
                  else Some (if su_family mr = FAM_INET then oe_skfd ev else oe_skfd6 ev, LISP_CP_PORT)) of
              None \<Rightarrow> Some ([], st)
            | Some (r, sport) \<Rightarrow> do {
                k \<leftarrow> ol_get st i;
                n \<leftarrow> get_sock_size eid;
                a \<leftarrow> rdn eid 0 n;
                e \<leftarrow> wr 0 a (ol_eid k);
                (_, out, st) \<leftarrow> send_mr ev sent nonce i (ol_set i (k\<lparr>ol_eid := e, ol_rx := r, ol_sport := sport,
                  ol_start := now, ol_count := 0, ol_active := True, ol_mr := Some (mr\<lparr>su_port := LISP_CP_PORT\<rparr>)\<rparr>) st);
                Some (out, st) }))"

text \<open>What was read is in a buffer of \<open>PSIZE\<close> bytes. The type is cut to eight bits.\<close>

definition map_message_handler ::
  "opl_env \<Rightarrow> (int \<times> u16) option \<Rightarrow> timespec \<Rightarrow> bool \<Rightarrow> u32 \<times> u32 \<Rightarrow> byte list \<Rightarrow> sockunion \<Rightarrow> opl_state \<Rightarrow>
   (opl_effect list \<times> opl_state) option" where
  "map_message_handler ev sock now sent nonce msg mr st = do {
     t \<leftarrow> rd16le msg 2;
     let map_type = ucast (ucast t :: byte);
     if map_type = MAPM_MISS_EID \<or> map_type = MAPM_MISS_HEADER \<or> map_type = MAPM_MISS_PACKET then do {
       let eid = drop sizeof_map_msghdr msg;
       new \<leftarrow> check_eid eid st;
       if new then new_lookup ev sock now sent nonce eid mr st else Some ([], st) }
     else Some ([], st) }"

section \<open>Map-Replies\<close>

text \<open>The hop of an explicit path that becomes the locator. With engineering an xTR takes the first hop and an RTR the
  hop behind its own address. The test for the last hop compares inside the argument of a macro and holds at
  every IPv4 hop; for IPv6 it looks twenty hops ahead.\<close>

function opl_hops ::
  "opl_env \<Rightarrow> byte list \<Rightarrow> nat \<Rightarrow> nat \<Rightarrow> nat \<Rightarrow> bool \<Rightarrow> sockunion \<Rightarrow> (bool \<times> sockunion) option" where
  "opl_hops ev b hop barr pec rtr rloc =
     (if hop < barr then do {
        t \<leftarrow> rd16be b hop;
        let te = cf_lisp_te (oe_cf ev);
        if t = LISP_AFI_IP then do {
          a \<leftarrow> rdn b (hop + 4) 4;
          let rs = set_sin_addr a (rloc\<lparr>su_family := FAM_INET\<rparr>);
          let here = set_sin_addr a (zero_sockunion\<lparr>su_family := FAM_INET\<rparr>);
          if pec = 0 \<and> te \<and> has_fnc (oe_cf ev) FNC_XTR then Some (True, rs)
          else if te \<and> has_fnc (oe_cf ev) FNC_RTR \<and> rtr then Some (True, rs)
          else if \<not> te then Some (True, rs)
          else opl_hops ev b (hop + 8) barr (Suc pec)
            (rtr \<or> (has_fnc (oe_cf ev) FNC_RTR \<and> is_my_addr (oe_ifs ev) here \<noteq> 0)) rloc }
        else if t = LISP_AFI_IPV6 then do {
          a \<leftarrow> rdn b (hop + 4) 16;
          let rs = set_sin6_addr a (rloc\<lparr>su_family := FAM_INET6\<rparr>);
          let here = set_sin6_addr a (zero_sockunion\<lparr>su_family := FAM_INET6\<rparr>);
          if te \<and> pec = 0 \<and> has_fnc (oe_cf ev) FNC_XTR then Some (True, rs)
          else if te \<and> has_fnc (oe_cf ev) FNC_RTR \<and> rtr then Some (True, rs)
          else if hop + 400 > barr then Some (True, rs)
          else opl_hops ev b (hop + 20) barr (Suc pec)
            (rtr \<or> (te \<and> has_fnc (oe_cf ev) FNC_RTR \<and> is_my_addr (oe_ifs ev) here \<noteq> 0)) rloc }
        else Some (False, rloc) }
      else Some (True, rloc))"
  by auto

termination by (relation "measure (\<lambda>(_, _, hop, barr, _). barr - hop)") auto

declare opl_hops.simps [simp del]

definition opl_locator :: "opl_env \<Rightarrow> byte list \<Rightarrow> nat \<Rightarrow> (map_entry \<times> nat) option option" where
  "opl_locator ev b i = do {
     l \<leftarrow> read_reply_locator b i;
     te \<leftarrow> (if rl_afi l = LCAF_AFI then map_option (\<lambda>ty. ty = LCAF_TE) (rd8 b (i + 10)) else Some False);
     if te then do {
       pl \<leftarrow> rd16be b (i + 12);
       let barr = i + 14 + unat pl;
       (ok, _) \<leftarrow> te_walk b (i + 14) barr;
       if \<not> ok then Some None
       else do {
         (ok, rloc) \<leftarrow> opl_hops ev b (i + 14) barr 0 False zero_sockunion;
         Some (if ok then Some (entry_of l rloc None, barr) else None) } }
     else if rl_afi l = LISP_AFI_IP then do {
       a \<leftarrow> rdn b (i + 8) 4;
       Some (Some (entry_of l (set_sin_addr a (zero_sockunion\<lparr>su_family := FAM_INET\<rparr>)) None, i + 12)) }
     else if rl_afi l = LISP_AFI_IPV6 then do {
       a \<leftarrow> rdn b (i + 8) 16;
       Some (Some (entry_of l (set_sin6_addr a (zero_sockunion\<lparr>su_family := FAM_INET6\<rparr>)) None, i + 24)) }
     else Some None }"

text \<open>A locator that is there already is replaced by one that is to be preferred.\<close>

fun opl_add_entry :: "map_entry \<Rightarrow> map_entry list \<Rightarrow> map_entry list" where
  "opl_add_entry entry [] = [entry]"
| "opl_add_entry entry (n # es) =
     (if entrycmp (Some entry) (Some n) = 0
      then (if me_priority n > me_priority entry then entry else n) # es
      else n # opl_add_entry entry es)"

fun opl_locators :: "opl_env \<Rightarrow> byte list \<Rightarrow> nat \<Rightarrow> nat \<Rightarrow> map_entry list \<Rightarrow> (map_entry list \<times> nat) option option" where
  "opl_locators ev b 0 i es = Some (Some (es, i))"
| "opl_locators ev b (Suc n) i es = do {
     r \<leftarrow> opl_locator ev b i;
     case r of
       None \<Rightarrow> Some None
     | Some (e, i) \<Rightarrow>
         if su_family (me_rloc e) = FAM_OTHER 0 then Some None
         else opl_locators ev b n i (opl_add_entry e es) }"

text \<open>The result of a record is its length, or 0 when it cannot be read.\<close>

definition read_rec :: "opl_env \<Rightarrow> byte list \<Rightarrow> nat \<Rightarrow> opl_state \<Rightarrow> (nat \<times> opl_effect list \<times> opl_state) option" where
  "read_rec ev b i st = do {
     r \<leftarrow> read_reply_record b i;
     p \<leftarrow> record_eid b i r;
     case p of
       None \<Rightarrow> Some (0, [], st)
     | Some eid \<Rightarrow> do {
         ls \<leftarrow> opl_locators ev b (unat (rr_locator_count r)) (i + (if rr_afi r = LISP_AFI_IP then 16 else 28)) [];
         case ls of
           None \<Rightarrow> Some (0, [], st)
         | Some (es, loc) \<Rightarrow> do {
             ((_, out), sq) \<leftarrow> opl_add (oe_pid ev) (oe_petr ev) (oe_write ev) eid (Some es) 0 (os_seq st);
             Some (loc - i, (case out of None \<Rightarrow> [] | Some m \<Rightarrow> [Write m]), st\<lparr>os_seq := sq\<rparr>) } } }"

fun read_recs :: "opl_env \<Rightarrow> byte list \<Rightarrow> nat \<Rightarrow> nat \<Rightarrow> opl_state \<Rightarrow> (opl_effect list \<times> opl_state) option" where
  "read_recs ev b 0 i st = Some ([], st)"
| "read_recs ev b (Suc n) i st = do {
     (l, out, st) \<leftarrow> read_rec ev b i st;
     (outs, st) \<leftarrow> read_recs ev b n (i + l) st;
     Some (out @ outs, st) }"

text \<open>The nonces of a lookup. There are three of each half, and the search also reads a fourth: behind the first
  halves are the second ones, and behind those are the source port and two bytes of padding.\<close>

definition nonce_at :: "opl_lookup \<Rightarrow> nat \<Rightarrow> u32 \<times> u32" where
  "nonce_at k i = (if i < MAX_COUNT then (ol_nonce0 k ! i, ol_nonce1 k ! i)
     else (ol_nonce1 k ! 0, ucast (ol_sport k)))"

definition has_nonce :: "u32 \<times> u32 \<Rightarrow> opl_lookup \<Rightarrow> bool" where
  "has_nonce nonce k \<longleftrightarrow> list_ex (\<lambda>i. nonce_at k i = nonce) [0..<Suc MAX_COUNT]"

definition reply_header :: "byte list \<Rightarrow> (byte \<times> (u32 \<times> u32) \<times> nat) option" where
  "reply_header b = do {
     t \<leftarrow> lisp_type b 0;
     n0 \<leftarrow> rd32be b 4;
     n1 \<leftarrow> rd32be b 8;
     c \<leftarrow> rd8 b 3;
     Some (t, (n0, n1), unat c) }"

text \<open>A reply on the socket of a lookup; \<open>None\<close> is a failed \<open>recvfrom\<close>, and otherwise the buffer after it.\<close>

definition read_mr :: "opl_env \<Rightarrow> byte list option \<Rightarrow> nat \<Rightarrow> opl_state \<Rightarrow> (opl_effect list \<times> opl_state) option" where
  "read_mr ev recv idx st = do {
     k \<leftarrow> ol_get st idx;
     _ \<leftarrow> ol_mr k;
     case recv of
       None \<Rightarrow> Some ([], st)
     | Some b \<Rightarrow> do {
         (t, nonce, n) \<leftarrow> reply_header b;
         if t \<noteq> LISP_TYPE_MAP_REPLY \<or> \<not> has_nonce nonce k \<or> n = 0 then Some ([], st)
         else do {
           (outs, st) \<leftarrow> read_recs ev b n 12 st;
           k \<leftarrow> ol_get st idx;
           Some (outs @ (if oe_srcport_rand ev then [Close (ol_rx k)] else []), ol_set idx (k\<lparr>ol_active := False\<rparr>) st) } } }"

text \<open>A reply on the control socket. A nonce that no lookup has does not stop it, and the lookup that ends
  then is the one behind the table. What is written before is in the first component.\<close>

fun find_lookup :: "u32 \<times> u32 \<Rightarrow> nat \<Rightarrow> opl_lookup list \<Rightarrow> nat" where
  "find_lookup nonce i [] = i"
| "find_lookup nonce i (k # ks) = (if has_nonce nonce k then i else find_lookup nonce (Suc i) ks)"

definition get_mr :: "opl_env \<Rightarrow> byte list \<Rightarrow> opl_state \<Rightarrow> (opl_effect list \<times> opl_state option) option" where
  "get_mr ev b st = do {
     (t, nonce, n) \<leftarrow> reply_header b;
     let idx = find_lookup nonce 1 (drop 1 (os_lookups st));
     if t \<noteq> LISP_TYPE_MAP_REPLY \<or> MAX_LOOKUPS < idx \<or> n = 0 then Some ([], Some st)
     else do {
       (outs, st) \<leftarrow> read_recs ev b n 12 st;
       Some (outs, map_option (\<lambda>k. ol_set idx (k\<lparr>ol_active := False\<rparr>) st) (ol_get st idx)) } }"

section \<open>The event loop\<close>

text \<open>The cells of the poll table behind the first, and the lookup with the earliest deadline.\<close>

record opl_poll =
  op_idx :: "nat list"
  op_timeout :: int
  op_to :: timespec
  op_l :: "nat option"

text \<open>\<open>timespec_subtract\<close> changes the time that is subtracted.\<close>

fun opl_scan ::
  "bool \<Rightarrow> nat list \<Rightarrow> opl_lookup list \<Rightarrow> timespec \<Rightarrow> opl_poll \<Rightarrow> opl_poll" where
  "opl_scan rand [] ks now op = op"
| "opl_scan rand (i # is) ks now op =
     (let k = ks ! i
      in if \<not> ol_active k then opl_scan rand is ks now op
         else
           (let deadline = (fst (ol_start k) + (ol_count k + 1) * MAP_REPLY_TIMEOUT, snd (ol_start k));
                (delta, now, _) = timespec_subtract deadline now;
                op = (if rand then op\<lparr>op_idx := op_idx op @ [i]\<rparr> else op);
                (_, to, less) = timespec_subtract delta (op_to op);
                op = op\<lparr>op_to := to\<rparr>
            in opl_scan rand is ks now
                 (if less then op\<lparr>op_to := delta,
                    op_timeout := (if fst delta < 0 then 0 else fst delta * 1000 + snd delta div 1000000), op_l := Some i\<rparr>
                  else op)))"

text \<open>The sockets that are ready, from the last one down, and the mapping socket at the end.\<close>

fun opl_ready ::
  "opl_env \<Rightarrow> (nat \<Rightarrow> byte list option) \<Rightarrow> (nat \<Rightarrow> bool) \<Rightarrow> nat list \<Rightarrow> nat \<Rightarrow> opl_state \<Rightarrow>
   (opl_effect list \<times> opl_state) option" where
  "opl_ready ev recv revents idxs 0 st = Some ([], st)"
| "opl_ready ev recv revents idxs (Suc j) st =
     (if revents (Suc j) then do {
        (out, st) \<leftarrow> read_mr ev (recv (idxs ! j)) (idxs ! j) st;
        (outs, st) \<leftarrow> opl_ready ev recv revents idxs j st;
        Some (out @ outs, st) }
      else opl_ready ev recv revents idxs j st)"

text \<open>What the outside does in a turn of the loop.\<close>

record opl_turn =
  ot_now :: timespec
  ot_poll :: int
  ot_revents :: "nat \<Rightarrow> bool"
  ot_recv :: "nat \<Rightarrow> byte list option"
  ot_msg :: "byte list"
  ot_random :: nat
  ot_sock :: "(int \<times> u16) option"
  ot_sent :: bool
  ot_nonce :: "u32 \<times> u32"

definition opl_event_turn ::
  "opl_env \<Rightarrow> sockunion list \<Rightarrow> opl_turn \<Rightarrow> opl_state \<Rightarrow> (opl_effect list \<times> opl_poll \<times> opl_state) option" where
  "opl_event_turn ev xtr_mr t st = do {
     let op = opl_scan (oe_srcport_rand ev) [1..<MAX_LOOKUPS] (os_lookups st) (ot_now t)
       \<lparr>op_idx = [], op_timeout = -1, op_to = (MAP_REPLY_TIMEOUT, 0), op_l = None\<rparr>;
     if ot_poll t < 0 then Some ([], op, st)
     else do {
       (out, st) \<leftarrow> (case op_l op of
           Some l \<Rightarrow> if ot_poll t = 0 then map_option (\<lambda>(_, out, st). (out, st)) (send_mr ev (ot_sent t) (ot_nonce t) l st)
                     else Some ([], st)
         | None \<Rightarrow> Some ([], st));
       (outs, st) \<leftarrow> opl_ready ev (ot_recv t) (ot_revents t) (op_idx op) (length (op_idx op)) st;
       (outm, st) \<leftarrow> (if ot_revents t 0 then do {
           mr \<leftarrow> opl_get_mr (ot_random t) xtr_mr;
           map_message_handler ev (ot_sock t) (ot_now t) (ot_sent t) (ot_nonce t) (ot_msg t) mr st }
         else Some ([], st));
       Some (out @ outs @ outm, op, st) } }"

text \<open>The start of the front end: an empty table, and the mappings of the xTR in the database of the data plane.\<close>

fun opl_update_all ::
  "opl_env \<Rightarrow> (cp_prefix \<times> map_entry list option) option list \<Rightarrow> opl_state \<Rightarrow> (opl_effect list \<times> opl_state) option" where
  "opl_update_all ev [] st = Some ([], st)"
| "opl_update_all ev (None # ns) st = opl_update_all ev ns st"
| "opl_update_all ev (Some (p, ll) # ns) st = do {
     (_, outs, sq) \<leftarrow> opl_update (oe_pid ev) (oe_petr ev) (oe_write ev, oe_write ev) p ll 1 (os_seq st);
     (outs', st) \<leftarrow> opl_update_all ev ns (st\<lparr>os_seq := sq\<rparr>);
     Some (map Write (List.map_filter id outs) @ outs', st) }"

definition plugin_openlisp ::
  "opl_env \<Rightarrow> (cp_prefix \<times> map_entry list option) option list \<Rightarrow> opl_state \<Rightarrow> (opl_effect list \<times> opl_state) option" where
  "plugin_openlisp ev etr_db st =
     (let st = st\<lparr>os_lookups := map (\<lambda>k. k\<lparr>ol_active := False\<rparr>) (os_lookups st)\<rparr>
      in if cf_fncs (oe_cf ev) AND (FNC_XTR OR FNC_RTR) \<noteq> 0 then opl_update_all ev etr_db st else Some ([], st))"

end
