(* ===== verification/Cp_Opl_Props.thy ===== *)
theory Cp_Opl_Props
  imports Cp_Opl_Trip Cp_Opl_Lookup Cp_Record_Trip Cp_Server
begin

text \<open>
  From a miss of the data plane to a mapping in its cache: the Map-Request a miss makes is read by a map resolver
  as a request for that EID, and the Map-Reply that answers it is written to the data plane as the mapping
  with its locators. Then the table of lookups: its invariant, how often a lookup is repeated, and the
  replies that are taken though nobody asked for them.
\<close>

section \<open>The locators of a reply\<close>

definition cached :: "map_entry \<Rightarrow> map_entry" where
  "cached e = (plain_entry e)\<lparr>me_p := 0\<rparr>"

lemma opl_locator_plain:
  assumes "read_reply_locator b i = Some l"
  shows "rl_afi l = LISP_AFI_IP \<Longrightarrow> rdn b (i + 8) 4 = Some a \<Longrightarrow> opl_locator ev b i =
      Some (Some (entry_of l (set_sin_addr a (zero_sockunion\<lparr>su_family := FAM_INET\<rparr>)) None, i + 12))"
    and "rl_afi l = LISP_AFI_IPV6 \<Longrightarrow> rdn b (i + 8) 16 = Some a \<Longrightarrow> opl_locator ev b i =
      Some (Some (entry_of l (set_sin6_addr a (zero_sockunion\<lparr>su_family := FAM_INET6\<rparr>)) None, i + 24))"
  using assms by (simp_all add: opl_locator_def afi_defs)

lemma opl_locator_reads:
  assumes "plain_locator p e = Some bs" and "wf_entry e"
  shows "opl_locator ev (pre @ bs @ post) (length pre) = Some (Some ((plain_entry e)\<lparr>me_p := p\<rparr>, length pre + length bs))"
proof -
  have e: "entry_of \<lparr>rl_priority = me_priority e, rl_weight = me_weight e, rl_m_priority = me_m_priority e,
      rl_m_weight = me_m_weight e, rl_R = me_r e, rl_p = p, rl_L = me_L e, rl_afi = afi\<rparr> (plain_su (me_rloc e)) None =
    (plain_entry e)\<lparr>me_p := p\<rparr>" for afi
    using assms(2) by (simp add: entry_of_def plain_entry_def wf_entry_def)
  have at: "read_reply_locator (pre @ bs @ post) (length pre) = read_reply_locator (bs @ post) 0"
    "rdn (pre @ bs @ post) (length pre + 8) n = rdn (bs @ post) 8 n" for n
    using read_reply_locator_at [of pre "bs @ post" 0] rdn_at [of pre "bs @ post" 8 n] by simp_all
  from assms show ?thesis
  proof (cases rule: plain_locator_shape [of _ _ _ post])
    case v4
    with e [of LISP_AFI_IP] opl_locator_plain(1) [OF trans [OF at(1) v4(3)]] at(2) [of 4] show ?thesis
      by (simp add: plain_su_def)
  next
    case v6
    with e [of LISP_AFI_IPV6] opl_locator_plain(2) [OF trans [OF at(1) v6(3)]] at(2) [of 16] show ?thesis
      by (simp add: plain_su_def)
  qed
qed

lemma cached_simps [simp]: "me_rloc (cached e) = me_rloc (plain_entry e)" "me_priority (cached e) = me_priority (plain_entry e)"
  by (simp_all add: cached_def)

lemma reply_add_locator_plain:
  assumes "udp_reply_add_locator cf rpk e = Some rpk'" and "wf_entry e" and "get_field 3 1 (rp_buf rpk ! 0) = 0"
  obtains bs where "plain_locator 0 e = Some bs" "rpk' = rpk\<lparr>rp_buf := rp_buf rpk @ bs\<rparr>"
  using assms by (auto simp: udp_reply_add_locator_def wf_entry_def probed_def emit_def Option.bind_eq_Some_conv split: if_splits)

lemma reply_add_locators_reads:
  assumes "reply_add_locators cf rpk es = Some rpk'" and "\<forall>e\<in>set es. wf_entry e"
    and "get_field 3 1 (rp_buf rpk ! 0) = 0" and "rp_buf rpk \<noteq> []"
  shows "\<exists>bs. rpk' = rpk\<lparr>rp_buf := rp_buf rpk @ bs\<rparr> \<and> (\<forall>pre post locs.
    opl_locators ev (pre @ bs @ post) (length es) (length pre) locs =
      Some (Some (fold opl_add_entry (map cached es) locs, length pre + length bs)))"
  using assms
proof (induction es arbitrary: rpk)
  case (Cons e es)
  obtain rpk1 where 1: "udp_reply_add_locator cf rpk e = Some rpk1" "reply_add_locators cf rpk1 es = Some rpk'"
    using Cons.prems(1) by (auto simp: Option.bind_eq_Some_conv)
  have w: "wf_entry e" using Cons.prems(2) by simp
  obtain b1 where b1: "plain_locator 0 e = Some b1" "rpk1 = rpk\<lparr>rp_buf := rp_buf rpk @ b1\<rparr>"
    using reply_add_locator_plain [OF 1(1) w Cons.prems(3)] .
  have "get_field 3 1 (rp_buf rpk1 ! 0) = 0" "rp_buf rpk1 \<noteq> []" using b1(2) Cons.prems(3,4) by (simp_all add: nth_append)
  then obtain bs where bs: "rpk' = rpk1\<lparr>rp_buf := rp_buf rpk1 @ bs\<rparr>"
    "\<And>pre post locs. opl_locators ev (pre @ bs @ post) (length es) (length pre) locs =
      Some (Some (fold opl_add_entry (map cached es) locs, length pre + length bs))"
    using Cons.IH [OF 1(2)] Cons.prems(2) by auto
  have fam: "su_family (me_rloc (cached e)) \<noteq> FAM_OTHER 0" using w wf_plain [of e] by (auto simp: wf_entry_def)
  show ?case
  proof (intro exI [of _ "b1 @ bs"] conjI allI)
    show "rpk' = rpk\<lparr>rp_buf := rp_buf rpk @ b1 @ bs\<rparr>" using bs(1) b1(2) by simp
  next
    fix pre post locs
    show "opl_locators ev (pre @ (b1 @ bs) @ post) (length (e # es)) (length pre) locs =
      Some (Some (fold opl_add_entry (map cached (e # es)) locs, length pre + length (b1 @ bs)))"
      using opl_locator_reads [OF b1(1) w, of ev pre "bs @ post"] fam
        bs(2) [of "pre @ b1" post "opl_add_entry (cached e) locs"] by (simp add: add.assoc cached_def)
  qed
qed simp

lemma opl_add_entry_new: "\<forall>n\<in>set locs. entrycmp (Some e) (Some n) \<noteq> 0 \<Longrightarrow> opl_add_entry e locs = locs @ [e]"
  by (induction locs) auto

lemma entrycmp_cached:
  "wf_entry e \<Longrightarrow> wf_entry f \<Longrightarrow> entrycmp (Some (cached e)) (Some (cached f)) = 0 \<longleftrightarrow> loc_key e = loc_key f"
  using entrycmp_plain [of e f] by (simp add: entrycmp_def)

lemma fold_opl_add_entry:
  assumes "\<forall>e\<in>set es. wf_entry e" and "distinct (map loc_key es)"
  shows "fold opl_add_entry (map cached es) [] = map cached es"
  using assms
proof (induction es rule: rev_induct)
  case (snoc e es)
  have "\<forall>n\<in>set (map cached es). entrycmp (Some (cached e)) (Some n) \<noteq> 0"
    using snoc.prems entrycmp_cached by fastforce
  then show ?case using snoc by (simp add: opl_add_entry_new)
qed simp


section \<open>A Map-Reply becomes a mapping\<close>

lemma wf_rloc_cached: "wf_entry e \<Longrightarrow> wf_rloc (cached e)"
  using wf_plain [of e]
  by (auto simp: wf_entry_def wf_rloc_def known_af_def plain_entry_def plain_su_def wf_su_def set_sin_addr_def
    set_sin6_addr_def zero_sockunion_def sin_addr_def sin6_addr_def)

lemma reply_add_record_shape:
  assumes "udp_reply_add_record rpk p ttl lcount version A act = Some rpk'" and "request_probes (poke 3 (\<lambda>c. c + 1) rpk) = Some False"
  obtains a f where "prefix_address p = Some a"
    "rp_buf rpk' = rp_buf (poke 3 (\<lambda>c. c + 1) rpk) @ net32 ttl @ [lcount, prefixlen p, f, 0] @ le_version (version_field version) 0 @ a"
  using assms by (auto simp: udp_reply_add_record_def Let_def emit_def Option.bind_eq_Some_conv split: if_splits)

lemma read_rec_adds:
  assumes "prefix_address p = Some a" and "wf_padded (family p) (addr p)" and "wf_cp p"
    and "rec = net32 ttl @ [of_nat (length es), prefixlen p, f, 0] @ le_version v 0 @ a"
    and "\<And>pre post locs. opl_locators ev (pre @ bs @ post) (length es) (length pre) locs =
      Some (Some (fold opl_add_entry (map cached es) locs, length pre + length bs))"
    and es: "\<forall>e\<in>set es. wf_entry e" "distinct (map loc_key es)" "es \<noteq> []" "message_length p (map cached es) < 256"
  shows "read_rec ev (pre @ rec @ bs @ post) (length pre) st = Some (length rec + length bs,
    [Write (add_message (oe_pid ev) p (map cached es) 0 (os_seq st + 1))], st\<lparr>os_seq := os_seq st + 1\<rparr>)"
proof -
  have n: "\<forall>e\<in>set (map cached es). wf_rloc e" "map cached es \<noteq> []" using es wf_rloc_cached by auto
  have f: "known_af (family p)" using assms(2) by (auto simp: wf_padded_def known_af_def)
  note add = opl_add_short [OF f assms(3) n es(4)]
  have l: "length es < 256" using add(2) by simp
  obtain r where r: "read_reply_record (rec @ bs @ post) 0 = Some r" "rr_locator_count r = of_nat (length es)"
    "record_eid (rec @ bs @ post) 0 r = Some (Some p)" "get_reply_record_size (rec @ bs @ post) 0 = Some (length rec)"
    using record_reads [OF assms(1,2,4), of "bs @ post"] by blast
  have at: "read_reply_record (pre @ rec @ bs @ post) (length pre) = Some r"
    "record_eid (pre @ rec @ bs @ post) (length pre) r = Some (Some p)"
    using r read_reply_record_at [of pre "rec @ bs @ post" 0] record_eid_at [of pre "rec @ bs @ post" 0 r] by simp_all
  have "rr_afi r = LISP_AFI_IP \<longleftrightarrow> family p = FAM_INET"
    using r(3) f by (auto simp: record_eid_def Option.bind_eq_Some_conv known_af_def split: if_splits)
  moreover have "length rec = (if family p = FAM_INET then 16 else 28)"
    using assms(1,2,4) by (auto simp: prefix_address_def wf_padded_def le_version_def)
  ultimately have h: "length pre + (if rr_afi r = LISP_AFI_IP then 16 else 28) = length (pre @ rec)" by simp
  have loc: "opl_locators ev (pre @ rec @ bs @ post) (length es) (length (pre @ rec)) [] =
      Some (Some (map cached es, length pre + length rec + length bs))"
    using assms(5) [of "pre @ rec" post "[]"] fold_opl_add_entry [OF es(1,2)] by simp
  have c: "unat (rr_locator_count r) = length es" using r(2) l by (simp add: unat_of_nat)
  show ?thesis unfolding read_rec_def at Option.bind.simps option.case h c loc using add(1) [of "oe_pid ev" "oe_petr ev" "oe_write ev" 0 "os_seq st"]
    by simp
qed

lemma reply_message_read:
  assumes "udp_reply_add pke = Some rpk0" and "udp_reply_add_record rpk0 p ttl (of_nat (length es)) version A act = Some rpk1"
    and "reply_add_locators cf rpk1 es = Some rpk2" and "request_probes (poke 3 (\<lambda>c. c + 1) rpk0) = Some False"
    and "wf_padded (family p) (addr p)" and "wf_cp p"
    and es: "\<forall>e\<in>set es. wf_entry e" "distinct (map loc_key es)" "es \<noteq> []" "message_length p (map cached es) < 256"
  shows "reply_header (rp_buf rpk2 @ junk) = Some (LISP_TYPE_MAP_REPLY, udp_request_get_nonce pke, 1)"
    and "read_recs ev (rp_buf rpk2 @ junk) 1 12 st =
      Some ([Write (add_message (oe_pid ev) p (map cached es) 0 (os_seq st + 1))], st\<lparr>os_seq := os_seq st + 1\<rparr>)"
proof -
  obtain n0 n1 where n: "udp_request_get_nonce pke = (n0, n1)" by fastforce
  let ?h = "[0x20, 0, 0, 1] @ net32 n0 @ net32 n1"
  have "rp_buf rpk0 = [0x20, 0, 0, 0] @ net32 n0 @ net32 n1"
    using assms(1) n by (auto simp: udp_reply_add_def emit_def udp_new_reply_entry_def put_field_def LISP_TYPE_MAP_REPLY_def
      PKBUFLEN_def take_bit_eq_mask mask_numeral split: if_splits)
  then have "rp_buf (poke 3 (\<lambda>c. c + 1) rpk0) = ?h" by (simp add: poke_def)
  then obtain a f where 1: "prefix_address p = Some a"
    "rp_buf rpk1 = ?h @ net32 ttl @ [of_nat (length es), prefixlen p, f, 0] @ le_version (version_field version) 0 @ a"
    using reply_add_record_shape [OF assms(2,4)] by metis
  define rec where "rec = net32 ttl @ [of_nat (length es), prefixlen p, f, 0] @ le_version (version_field version) 0 @ a"
  have "get_field 3 1 (rp_buf rpk1 ! 0) = 0" "rp_buf rpk1 \<noteq> []" by (simp_all add: 1(2) get_field_def)
  then obtain bs where 2: "rpk2 = rpk1\<lparr>rp_buf := rp_buf rpk1 @ bs\<rparr>"
    "\<And>pre post locs. opl_locators ev (pre @ bs @ post) (length es) (length pre) locs =
      Some (Some (fold opl_add_entry (map cached es) locs, length pre + length bs))"
    using reply_add_locators_reads [OF assms(3) es(1)] by blast
  have b: "rp_buf rpk2 @ junk = ?h @ rec @ bs @ junk" using 2(1) 1(2) rec_def by simp
  have "read_rec ev (?h @ rec @ bs @ junk) (length ?h) st = Some (length rec + length bs,
      [Write (add_message (oe_pid ev) p (map cached es) 0 (os_seq st + 1))], st\<lparr>os_seq := os_seq st + 1\<rparr>)"
    by (rule read_rec_adds [OF 1(1) assms(5,6) rec_def 2(2) es])
  then show "read_recs ev (rp_buf rpk2 @ junk) 1 12 st =
      Some ([Write (add_message (oe_pid ev) p (map cached es) 0 (os_seq st + 1))], st\<lparr>os_seq := os_seq st + 1\<rparr>)"
    unfolding b by simp
  have "rd32be (?h @ rec @ bs @ junk) 4 = Some n0"
    using rd32be_at [of "[0x20, 0, 0, 1]" "net32 n0 @ net32 n1 @ rec @ bs @ junk" 0] by (simp add: numeral_eq_Suc)
  moreover have "rd32be (?h @ rec @ bs @ junk) 8 = Some n1"
    using rd32be_at [of "[0x20, 0, 0, 1] @ net32 n0" "net32 n1 @ rec @ bs @ junk" 0] by (simp add: numeral_eq_Suc)
  moreover have "lisp_type (?h @ rec @ bs @ junk) 0 = Some LISP_TYPE_MAP_REPLY"
    by (simp add: lisp_type_def rd8_def get_field_def LISP_TYPE_MAP_REPLY_def)
  ultimately show "reply_header (rp_buf rpk2 @ junk) = Some (LISP_TYPE_MAP_REPLY, udp_request_get_nonce pke, 1)"
    unfolding b n reply_header_def by (simp add: rd8_def)
qed


section \<open>A miss becomes a Map-Request\<close>

definition src_ok :: "opl_env \<Rightarrow> bool" where
  "src_ok ev \<longleftrightarrow> (\<exists>a. oe_src4 ev = Some a \<and> length a = 4) \<and> (\<exists>a. oe_src6 ev = Some a \<and> length a = 16)"

text \<open>The EID a miss asks for.\<close>

definition host_prefix :: "byte list \<Rightarrow> cp_prefix" where
  "host_prefix eid =
     (if eid_family eid = Some FAM_INET
      then \<lparr>family = FAM_INET, prefixlen = 32, addr = take 4 (drop 4 eid) @ replicate 12 0\<rparr>
      else \<lparr>family = FAM_INET6, prefixlen = 128, addr = take 16 (drop 8 eid)\<rparr>)"

lemma host_prefix_simps:
  assumes "eid_family eid = Some f" and "known_af f" and "28 \<le> length eid"
  shows "family (host_prefix eid) = f" "wf_padded f (addr (host_prefix eid))" "wf_cp (host_prefix eid)"
    "\<exists>a. prefix_address (host_prefix eid) = Some a \<and> length a \<le> 18"
  using assms by (auto simp: host_prefix_def known_af_def wf_padded_def wf_cp_def plen_def prefix_address_def)

lemma opl_request_known:
  assumes "eid_family eid = Some f" and "known_af f" and "known_af (su_family mr)"
  shows "opl_request ev mr eid sport n0 n1 = do {
    src \<leftarrow> (if f = FAM_INET then oe_src4 ev else oe_src6 ev);
    itr \<leftarrow> (if su_family mr = FAM_INET then oe_src4 ev else oe_src6 ev);
    a \<leftarrow> (if f = FAM_INET then rdn eid 4 4 else rdn eid 8 16);
    m \<leftarrow> request_message 0 0 0 0 0 0 n0 n1 [\<lparr>aa_family = su_family mr, aa_addr = itr @ replicate (16 - length itr) 0\<rparr>]
      \<lparr>family = f, prefixlen = (if f = FAM_INET then 32 else 128), addr = a @ replicate (16 - length a) 0\<rparr>;
    let udp = udp_header sport (8 + length m) @ m;
    Some (Some ([put_field 4 4 LISP_TYPE_ENCAPSULATED_CONTROL_MESSAGE 0, 0, 0, 0] @
      (if f = FAM_INET then opl_ip_header (20 + length udp) src a else ip6_header (40 + length udp) src a) @ udp)) }"
  using assms unfolding known_af_def opl_request_def by (elim disjE) simp_all

lemma opl_request_sent:
  assumes "src_ok ev" and "known_af (su_family mr)" and "eid_family eid = Some f" "known_af f" and "28 \<le> length eid"
  obtains b ih m itr where "opl_request ev mr eid sport n0 n1 = Some (Some b)"
    "request_message 0 0 0 0 0 0 n0 n1 [itr] (host_prefix eid) = Some m" "wf_itr itr" "inner_header ih"
    "b = [ecm_byte 0 0, 0, 0, 0] @ ih @ udp_header sport (8 + length m) @ m" "length b < 200"
proof -
  obtain s4 s6 where s: "oe_src4 ev = Some s4" "length s4 = 4" "oe_src6 ev = Some s6" "length s6 = 16"
    using assms(1) by (auto simp: src_ok_def)
  define src where "src = (if f = FAM_INET then s4 else s6)"
  define ia where "ia = (if su_family mr = FAM_INET then s4 else s6)"
  define itr where "itr = \<lparr>aa_family = su_family mr, aa_addr = ia @ replicate (16 - length ia) 0\<rparr>"
  define a where "a = (if f = FAM_INET then take 4 (drop 4 eid) else take 16 (drop 8 eid))"
  have a: "(if f = FAM_INET then rdn eid 4 4 else rdn eid 8 16) = Some a" using assms(5) by (simp add: a_def rdn_def)
  have hp: "\<lparr>family = f, prefixlen = (if f = FAM_INET then 32 else 128), addr = a @ replicate (16 - length a) 0\<rparr> = host_prefix eid"
    using assms(3-5) by (auto simp: host_prefix_def a_def known_af_def)
  have wi: "wf_itr itr" using assms(2) s by (auto simp: wf_itr_def wf_padded_def itr_def ia_def known_af_def)
  obtain pa where pa: "prefix_address (host_prefix eid) = Some pa" "length pa \<le> 18"
    using host_prefix_simps(4) [OF assms(3-5)] by blast
  define m where "m = [request_flags0 0 0 0 0, put_field 6 1 0 (put_field 7 1 0 0), put_field 0 5 (of_nat (length [itr]) - 1) 0, 1] @
    net32 n0 @ net32 n1 @ [0, 0] @ itr_bytes [itr] @ [0, prefixlen (host_prefix eid)] @ pa"
  have m: "request_message 0 0 0 0 0 0 n0 n1 [itr] (host_prefix eid) = Some m"
    unfolding request_message_def pa Option.bind.simps m_def by (rule refl)
  have "length (itr_bytes [itr]) \<le> 18" using wi by (auto simp: wf_itr_def wf_padded_def)
  then have lm: "length m \<le> 60" using pa(2) by (simp add: m_def del: itr_bytes.simps)
  define udp where "udp = udp_header sport (8 + length m) @ m"
  define ih where "ih = (if f = FAM_INET then opl_ip_header (20 + length udp) src a else ip6_header (40 + length udp) src a)"
  define b where "b = [put_field 4 4 LISP_TYPE_ENCAPSULATED_CONTROL_MESSAGE 0, 0, 0, 0] @ ih @ udp"
  have e: "put_field 4 4 LISP_TYPE_ENCAPSULATED_CONTROL_MESSAGE 0 = ecm_byte 0 0"
    by (simp add: ecm_byte_def put_field_def LISP_TYPE_ENCAPSULATED_CONTROL_MESSAGE_def)
  have la: "f = FAM_INET \<Longrightarrow> length src = 4 \<and> length a = 4" "f = FAM_INET6 \<Longrightarrow> length src = 16 \<and> length a = 16"
    using s assms(5) by (simp_all add: src_def a_def)
  have ih: "inner_header ih"
  proof (cases "f = FAM_INET")
    case True
    then have "\<exists>n w. ih = [0x45, 0] @ net16 (of_nat n) @ [0, 0, 0, 0, 255, 17] @ word_bytes w @ src @ a"
      unfolding ih_def opl_ip_header_def Let_def if_P [OF True] by blast
    then show ?thesis unfolding inner_header_def using la(1) [OF True] by blast
  next
    case False
    then have "f = FAM_INET6" "ih = ip6_header (40 + length udp) src a" using assms(4) by (simp_all add: known_af_def ih_def)
    then show ?thesis unfolding inner_header_def using la(2) by blast
  qed
  then have li: "length ih \<le> 40" by (auto simp: inner_header_def)
  have srcs: "(if f = FAM_INET then oe_src4 ev else oe_src6 ev) = Some src"
    "(if su_family mr = FAM_INET then oe_src4 ev else oe_src6 ev) = Some ia" using s by (simp_all add: src_def ia_def)
  have "opl_request ev mr eid sport n0 n1 = Some (Some b)"
    unfolding opl_request_known [OF assms(3,4,2)] srcs a Option.bind.simps hp itr_def [symmetric] m Let_def
    by (simp add: b_def ih_def udp_def)
  moreover have "b = [ecm_byte 0 0, 0, 0, 0] @ ih @ udp_header sport (8 + length m) @ m" by (simp add: b_def udp_def e)
  moreover have "length b < 200" using li lm by (simp add: b_def udp_def)
  ultimately show thesis using that m wi ih by blast
qed


section \<open>The table of lookups\<close>

definition lookup_ok :: "bool \<Rightarrow> opl_lookup \<Rightarrow> bool" where
  "lookup_ok rand k \<longleftrightarrow> length (ol_eid k) = 128 \<and> length (ol_nonce0 k) = MAX_COUNT \<and> length (ol_nonce1 k) = MAX_COUNT \<and>
     0 \<le> ol_count k \<and> (ol_active k \<longrightarrow> ol_mr k \<noteq> None) \<and> (rand \<longrightarrow> ol_count k \<le> COUNT)"

definition lookups_ok :: "bool \<Rightarrow> opl_state \<Rightarrow> bool" where
  "lookups_ok rand st \<longleftrightarrow> length (os_lookups st) = MAX_LOOKUPS \<and> (\<forall>k\<in>set (os_lookups st). lookup_ok rand k)"

lemma ol_get_set: "i < length (os_lookups st) \<Longrightarrow> ol_get (ol_set j k st) i = Some (if i = j then k else os_lookups st ! i)"
  by (simp add: ol_get_def ol_set_def nth_list_update)

lemma lookups_ok_get: "lookups_ok rand st \<Longrightarrow> ol_get st i = Some k \<Longrightarrow> lookup_ok rand k"
  by (auto simp: lookups_ok_def ol_get_def split: if_splits)

lemma lookups_ok_set: "lookups_ok rand st \<Longrightarrow> lookup_ok rand k \<Longrightarrow> lookups_ok rand (ol_set i k st)"
  by (auto simp: lookups_ok_def ol_set_def dest: set_update_subset_insert [THEN subsetD])

lemma lookups_ok_seq [simp]: "lookups_ok rand (st\<lparr>os_seq := sq\<rparr>) = lookups_ok rand st"
  by (simp add: lookups_ok_def)

lemma send_mr_ok:
  assumes "lookups_ok (oe_srcport_rand ev) st" and "send_mr ev sent nonce idx st = Some (r, out, st')"
  shows "lookups_ok (oe_srcport_rand ev) st'"
proof -
  obtain k where k: "ol_get st idx = Some k" using assms(2) by (auto simp: send_mr_def Option.bind_eq_Some_conv)
  note ok = lookups_ok_get [OF assms(1) k]
  have "lookup_ok (oe_srcport_rand ev) (k\<lparr>ol_active := False\<rparr>)" using ok by (simp add: lookup_ok_def)
  moreover have "lookup_ok (oe_srcport_rand ev) (k\<lparr>ol_nonce0 := (ol_nonce0 k)[nat (ol_count k) := fst nonce],
      ol_nonce1 := (ol_nonce1 k)[nat (ol_count k) := snd nonce], ol_count := ol_count k + 1\<rparr>)"
    if "nat (ol_count k) < MAX_COUNT" using ok that by (auto simp: lookup_ok_def MAX_COUNT_def COUNT_def)
  ultimately show ?thesis using assms k lookups_ok_set [OF assms(1)]
    by (auto simp: send_mr_def Option.bind_eq_Some_conv split: if_splits option.splits)
qed

lemma opl_new_lookup_cases:
  assumes "new_lookup ev sock now sent nonce eid mr st = Some (out, st')"
  obtains "out = []" "st' = st"
  | i k a e r sport res where "ol_get st i = Some k" "wr 0 a (ol_eid k) = Some e"
    "send_mr ev sent nonce i (ol_set i (k\<lparr>ol_eid := e, ol_rx := r, ol_sport := sport, ol_start := now, ol_count := 0,
      ol_active := True, ol_mr := Some (mr\<lparr>su_port := LISP_CP_PORT\<rparr>)\<rparr>) st) = Some (res, out, st')"
proof -
  let ?i = "inactive_from 1 (drop 1 (os_lookups st))"
  let ?s = "if oe_srcport_rand ev then sock else Some (if su_family mr = FAM_INET then oe_skfd ev else oe_skfd6 ev, LISP_CP_PORT)"
  show thesis
  proof (cases "MAX_LOOKUPS \<le> ?i \<or> ?s = None")
    case True
    then show ?thesis using assms that(1) by (auto simp: new_lookup_def Let_def split: if_splits)
  next
    case False
    then obtain r sport where s: "?s = Some (r, sport)" "\<not> MAX_LOOKUPS \<le> ?i" by fastforce
    then show ?thesis using assms that(2) unfolding new_lookup_def Let_def s(1)
      by (auto simp: Option.bind_eq_Some_conv)
  qed
qed

lemma opl_new_lookup_ok:
  assumes "lookups_ok (oe_srcport_rand ev) st" and "new_lookup ev sock now sent nonce eid mr st = Some (out, st')"
  shows "lookups_ok (oe_srcport_rand ev) st'"
  using assms(2)
proof (cases rule: opl_new_lookup_cases)
  case (2 i k a e r sport res)
  show ?thesis
  proof (rule send_mr_ok [OF lookups_ok_set [OF assms(1)] 2(3)])
    show "lookup_ok (oe_srcport_rand ev) (k\<lparr>ol_eid := e, ol_rx := r, ol_sport := sport, ol_start := now, ol_count := 0,
        ol_active := True, ol_mr := Some (mr\<lparr>su_port := LISP_CP_PORT\<rparr>)\<rparr>)"
      using lookups_ok_get [OF assms(1) 2(1)] 2(2) by (auto simp: lookup_ok_def wr_def COUNT_def split: if_splits)
  qed
qed (use assms(1) in simp)

lemma handler_ok:
  "lookups_ok (oe_srcport_rand ev) st \<Longrightarrow> map_message_handler ev sock now sent nonce msg mr st = Some (out, st') \<Longrightarrow>
   lookups_ok (oe_srcport_rand ev) st'"
  by (auto simp: map_message_handler_def Let_def Option.bind_eq_Some_conv split: if_splits intro: opl_new_lookup_ok)

text \<open>Reading records changes the sequence number only.\<close>

lemma read_rec_lookups: "read_rec ev b i st = Some (l, out, st') \<Longrightarrow> os_lookups st' = os_lookups st"
  by (auto simp: read_rec_def Option.bind_eq_Some_conv split: option.splits)

lemma read_recs_lookups: "read_recs ev b n i st = Some (out, st') \<Longrightarrow> os_lookups st' = os_lookups st"
proof (induction n arbitrary: i st out)
  case (Suc n)
  then obtain l o1 st1 o2 where 1: "read_rec ev b i st = Some (l, o1, st1)" "read_recs ev b n (i + l) st1 = Some (o2, st')"
    by (auto simp: Option.bind_eq_Some_conv)
  show ?case using read_rec_lookups [OF 1(1)] Suc.IH [OF 1(2)] by simp
qed simp

lemma read_mr_ok:
  assumes "lookups_ok rand st" and "read_mr ev recv idx st = Some (out, st')"
  shows "lookups_ok rand st'"
proof -
  have "lookups_ok rand (ol_set idx (k\<lparr>ol_active := False\<rparr>) st1)"
    if "read_recs ev b n 12 st = Some (outs, st1)" "ol_get st1 idx = Some k" for b n outs st1 k
  proof -
    have ok: "lookups_ok rand st1" using read_recs_lookups [OF that(1)] assms(1) by (simp add: lookups_ok_def)
    show ?thesis using lookups_ok_get [OF ok that(2)] by (intro lookups_ok_set [OF ok]) (simp add: lookup_ok_def)
  qed
  then show ?thesis using assms by (auto simp: read_mr_def Option.bind_eq_Some_conv split: if_splits option.splits)
qed

lemma opl_ready_ok:
  "lookups_ok rand st \<Longrightarrow> opl_ready ev recv revents idxs j st = Some (out, st') \<Longrightarrow> lookups_ok rand st'"
proof (induction j arbitrary: st out)
  case (Suc j)
  then show ?case using read_mr_ok by (auto simp: Option.bind_eq_Some_conv split: if_splits) blast+
qed simp

lemma opl_event_turn_ok:
  assumes "lookups_ok (oe_srcport_rand ev) st" and "opl_event_turn ev xtr_mr t st = Some (out, op, st')"
  shows "lookups_ok (oe_srcport_rand ev) st'"
proof (cases "ot_poll t < 0")
  case True
  then show ?thesis using assms by (simp add: opl_event_turn_def Let_def)
next
  case False
  define op1 where "op1 = opl_scan (oe_srcport_rand ev) [1..<MAX_LOOKUPS] (os_lookups st) (ot_now t)
    \<lparr>op_idx = [], op_timeout = -1, op_to = (MAP_REPLY_TIMEOUT, 0), op_l = None\<rparr>"
  obtain o1 st1 o2 st2 o3 where 1: "(case op_l op1 of
      Some l \<Rightarrow> if ot_poll t = 0 then map_option (\<lambda>(_, out, st). (out, st)) (send_mr ev (ot_sent t) (ot_nonce t) l st) else Some ([], st)
    | None \<Rightarrow> Some ([], st)) = Some (o1, st1)"
    and 2: "opl_ready ev (ot_recv t) (ot_revents t) (op_idx op1) (length (op_idx op1)) st1 = Some (o2, st2)"
    and 3: "(if ot_revents t 0 then do {
           mr \<leftarrow> opl_get_mr (ot_random t) xtr_mr;
           map_message_handler ev (ot_sock t) (ot_now t) (ot_sent t) (ot_nonce t) (ot_msg t) mr st2 }
         else Some ([], st2)) = Some (o3, st')"
    using assms(2) False unfolding opl_event_turn_def Let_def op1_def [symmetric] Option.bind_eq_Some_conv if_not_P [OF False]
    by (elim exE conjE) (auto simp: Option.bind_eq_Some_conv)
  have "lookups_ok (oe_srcport_rand ev) st1"
    using 1 assms(1) by (auto split: option.splits if_splits intro: send_mr_ok)
  from opl_ready_ok [OF this 2] have "lookups_ok (oe_srcport_rand ev) st2" .
  then show ?thesis using 3 by (auto simp: Option.bind_eq_Some_conv split: if_splits intro: handler_ok)
qed


section \<open>Runs\<close>

fun opl_run ::
  "opl_env \<Rightarrow> sockunion list \<Rightarrow> opl_turn list \<Rightarrow> opl_state \<Rightarrow> (opl_effect list \<times> opl_state) option" where
  "opl_run ev xtr_mr [] st = Some ([], st)"
| "opl_run ev xtr_mr (t # ts) st = do {
     (out, _, st) \<leftarrow> opl_event_turn ev xtr_mr t st;
     (outs, st) \<leftarrow> opl_run ev xtr_mr ts st;
     Some (out @ outs, st) }"

definition opl_start :: opl_state where
  "opl_start = \<lparr>os_lookups = replicate MAX_LOOKUPS empty_opl_lookup, os_seq = 0\<rparr>"

lemma opl_run_ok:
  "lookups_ok (oe_srcport_rand ev) st \<Longrightarrow> opl_run ev xtr_mr ts st = Some (out, st') \<Longrightarrow> lookups_ok (oe_srcport_rand ev) st'"
proof (induction ts arbitrary: st out)
  case (Cons t ts)
  then show ?case by (auto simp: Option.bind_eq_Some_conv intro: opl_event_turn_ok)
qed simp

lemma opl_update_all_lookups: "opl_update_all ev ns st = Some (out, st') \<Longrightarrow> os_lookups st' = os_lookups st"
  by (induction ev ns st arbitrary: out st' rule: opl_update_all.induct) (auto simp: Option.bind_eq_Some_conv)

lemma plugin_openlisp_ok:
  assumes "lookups_ok rand st" and "plugin_openlisp ev etr_db st = Some (out, st')"
  shows "lookups_ok rand st'"
proof -
  have "os_lookups st' = map (\<lambda>k. k\<lparr>ol_active := False\<rparr>) (os_lookups st)"
    using assms(2) opl_update_all_lookups by (fastforce simp: plugin_openlisp_def Let_def split: if_splits)
  then show ?thesis using assms(1) by (simp add: lookups_ok_def lookup_ok_def)
qed

lemma opl_start_ok: "lookups_ok rand opl_start"
  by (simp add: lookups_ok_def lookup_ok_def opl_start_def empty_opl_lookup_def MAX_COUNT_def COUNT_def)

section \<open>Retransmission\<close>

text \<open>A lookup whose timeouts expire one after another.\<close>

fun opl_retries ::
  "opl_env \<Rightarrow> (u32 \<times> u32) list \<Rightarrow> nat \<Rightarrow> opl_state \<Rightarrow> (opl_effect list \<times> opl_state) option" where
  "opl_retries ev [] idx st = Some ([], st)"
| "opl_retries ev (nonce # ns) idx st = do {
     (_, out, st) \<leftarrow> send_mr ev True nonce idx st;
     (outs, st) \<leftarrow> opl_retries ev ns idx st;
     Some (out @ outs, st) }"

definition can_send :: "opl_env \<Rightarrow> opl_lookup \<Rightarrow> bool" where
  "can_send ev k \<longleftrightarrow> src_ok ev \<and> (\<exists>mr. ol_mr k = Some mr \<and> known_af (su_family mr)) \<and>
     (\<exists>f. eid_family (ol_eid k) = Some f \<and> known_af f) \<and> 28 \<le> length (ol_eid k)"

lemma send_mr_sends:
  assumes "ol_get st idx = Some k" and "can_send ev k" and "\<not> (COUNT \<le> ol_count k \<and> oe_srcport_rand ev)"
  shows "\<exists>mr b. send_mr ev True nonce idx st =
    (if nat (ol_count k) < MAX_COUNT
     then Some (1, [Send (ol_rx k) (mr, b)], ol_set idx (k\<lparr>ol_nonce0 := (ol_nonce0 k)[nat (ol_count k) := fst nonce],
       ol_nonce1 := (ol_nonce1 k)[nat (ol_count k) := snd nonce], ol_count := ol_count k + 1\<rparr>) st) else None)"
proof -
  obtain mr f where m: "ol_mr k = Some mr" "known_af (su_family mr)" "eid_family (ol_eid k) = Some f" "known_af f"
    "28 \<le> length (ol_eid k)" "src_ok ev" using assms(2) by (auto simp: can_send_def)
  obtain b where "opl_request ev mr (ol_eid k) (ol_sport k) (fst nonce) (snd nonce) = Some (Some b)"
    using opl_request_sent [OF m(6,2,3,4,5)] by metis
  then show ?thesis using assms(1,3) m(1) by (auto simp: send_mr_def)
qed


text \<open>
  On the shared control socket a lookup does not end. When lookups use it, the fourth Map-Request of a lookup is sent as
  well, and its nonce is stored behind the three places there are for nonces.
\<close>

theorem opl_fourth_request_overflows:
  assumes "ol_get st idx = Some k" and "can_send ev k" and "\<not> oe_srcport_rand ev" and "COUNT \<le> ol_count k"
  shows "send_mr ev True nonce idx st = None"
proof -
  have "\<not> nat (ol_count k) < MAX_COUNT" using assms(4) by (simp add: COUNT_def MAX_COUNT_def)
  then show ?thesis using send_mr_sends [OF assms(1,2), of nonce] assms(3) by auto
qed

section \<open>Replies nobody asked for\<close>


section \<open>Samples\<close>

definition opl_sample_env :: "bool \<Rightarrow> opl_env" where
  "opl_sample_env rand = \<lparr>oe_cf = \<lparr>cf_fncs = FNC_XTR, cf_lisp_te = False\<rparr>, oe_srcport_rand = rand,
     oe_src4 = Some [192, 0, 2, 1], oe_src6 = Some (replicate 15 0 @ [1]), oe_ifs = None, oe_skfd = 5, oe_skfd6 = 6,
     oe_pid = 7, oe_petr = None, oe_write = 92\<rparr>"

definition opl_sample_eid :: "byte list" where
  "opl_sample_eid = [16, 2, 0, 0, 198, 51, 100, 7] @ replicate 20 0"

definition opl_sample_lookup :: "int \<Rightarrow> opl_lookup" where
  "opl_sample_lookup n = empty_opl_lookup\<lparr>ol_eid := opl_sample_eid @ replicate 100 0, ol_rx := 9, ol_sport := 61000, ol_count := n,
     ol_active := True, ol_mr := Some sample_su\<rparr>"

definition opl_sample_state :: "int \<Rightarrow> opl_state" where
  "opl_sample_state n = ol_set 1 (opl_sample_lookup n) opl_start"

lemma opl_sample_get: "ol_get (opl_sample_state n) 1 = Some (opl_sample_lookup n)"
  by (simp add: ol_get_def opl_sample_state_def ol_set_def opl_start_def MAX_LOOKUPS_def)

lemma opl_sample_src: "src_ok (opl_sample_env rand)"
  by (simp add: src_ok_def opl_sample_env_def)

lemma opl_sample_sends: "can_send (opl_sample_env rand) (opl_sample_lookup n)"
  by (simp add: can_send_def opl_sample_src opl_sample_lookup_def known_af_def sample_su_def eid_family_def rd8_def
    opl_sample_eid_def af_of_def)


theorem opl_fourth_request_overflows_witness:
  "send_mr (opl_sample_env False) True (7, 8) 1 (opl_sample_state 3) = None"
  by (rule opl_fourth_request_overflows [OF opl_sample_get opl_sample_sends])
    (simp_all add: opl_sample_env_def opl_sample_lookup_def COUNT_def)

text \<open>A Map-Reply to a request of nobody.\<close>

lemma opl_sample_reply:
  "\<exists>b. reply_header b = Some (LISP_TYPE_MAP_REPLY, (0, 0), 1) \<and> (\<forall>st. read_recs (opl_sample_env rand) b 1 12 st =
    Some ([Write (add_message 7 opl_prefix (map cached [opl_entry]) 0 (os_seq st + 1))], st\<lparr>os_seq := os_seq st + 1\<rparr>))"
proof -
  let ?pke = "new_request [] sample_su sample_su" and ?cf = "\<lparr>cf_fncs = FNC_MS, cf_lisp_te = False\<rparr>"
  have lcm: "pk_lcm ?pke = None" "udp_request_get_nonce ?pke = (0, 0)"
    by (simp_all add: new_request_def udp_request_get_nonce_def)
  obtain rpk0 where 0: "udp_reply_add ?pke = Some rpk0" "length (rp_buf rpk0) = 12" "rp_req rpk0 = Some ?pke"
    by (simp add: udp_reply_add_def emit_def udp_new_reply_entry_def PKBUFLEN_def lcm)
  have pr: "request_probes (poke 3 (\<lambda>c. c + 1) rpk0) = Some False" using 0(3) lcm by (simp add: request_probes_def poke_def)
  have "\<exists>rpk1. udp_reply_add_record rpk0 opl_prefix 60 (of_nat (length [opl_entry])) 0 1 0 = Some rpk1 \<and> length (rp_buf rpk1) = 28 \<and>
      rp_req rpk1 = Some ?pke"
    using 0(2,3) pr by (simp add: udp_reply_add_record_def Let_def prefix_address_def opl_prefix_def emit_def PKBUFLEN_def
      le_version_def poke_def)
  then obtain rpk1 where 1: "udp_reply_add_record rpk0 opl_prefix 60 (of_nat (length [opl_entry])) 0 1 0 = Some rpk1"
    "length (rp_buf rpk1) = 28" "rp_req rpk1 = Some ?pke" by blast
  obtain p where p: "probed rpk1 opl_entry = Some p" using 1(3) by (cases "get_field 3 1 (rp_buf rpk1 ! 0) = 0") (auto simp: probed_def)
  obtain rpk2 where 2: "reply_add_locators ?cf rpk1 [opl_entry] = Some rpk2"
    using 1(2) p by (auto simp: udp_reply_add_locator_def opl_entry_def plain_locator_def locator_address_def
      emit_def PKBUFLEN_def sin_addr_def)
  have e: "\<forall>e\<in>set [opl_entry]. wf_entry e" "distinct (map loc_key [opl_entry])" "[opl_entry] \<noteq> []"
    using opl_sample(4) [of 1] by (auto simp: wf_entry_def wf_rloc_def known_af_def opl_entry_def)
  have "message_length opl_prefix (map cached [opl_entry]) < 256"
    using opl_eid_length [OF opl_sample(1,2)] opl_mask_length [OF opl_sample(1)] opl_rloc_length [OF wf_rloc_cached [of opl_entry]] e(1)
    by (simp add: message_length_def)
  moreover have "wf_padded (family opl_prefix) (addr opl_prefix)" by (simp add: opl_prefix_def wf_padded_def)
  ultimately show ?thesis
    using reply_message_read [OF 0(1) 1(1) 2 pr _ opl_sample(2) e, where junk = "[]"] lcm(2)
    by (intro exI [of _ "rp_buf rpk2"]) (simp add: opl_sample_env_def)
qed


end
