(* ===== verification/Cp_Opl_Miss.thy ===== *)
theory Cp_Opl_Miss
  imports Cp_Opl_Props
begin

text \<open>
  A miss of the data plane from its message to the mapping in the cache: the front end sends a Map-Request for the EID, a
  map server that takes the request apart answers it, and the answer is written to the data plane.
\<close>

section \<open>The lookup of a miss\<close>

lemma inactive_from_free:
  assumes "\<exists>k\<in>set ks. \<not> ol_active k"
  obtains j where "inactive_from i ks = i + j" "j < length ks" "\<not> ol_active (ks ! j)"
  using assms
proof (induction ks arbitrary: i thesis)
  case (Cons k ks)
  show ?case
  proof (cases "ol_active k")
    case True
    then obtain j where "inactive_from (Suc i) ks = Suc i + j" "j < length ks" "\<not> ol_active (ks ! j)"
      using Cons.IH [of "Suc i"] Cons.prems(2) by auto
    then show ?thesis using Cons.prems(1) [of "Suc j"] True by simp
  next
    case False
    then show ?thesis using Cons.prems(1) [of 0] by simp
  qed
qed simp

definition rx_of :: "opl_env \<Rightarrow> (int \<times> u16) option \<Rightarrow> sockunion \<Rightarrow> (int \<times> u16) option" where
  "rx_of ev sock mr =
     (if oe_srcport_rand ev then sock
      else Some (if su_family mr = FAM_INET then oe_skfd ev else oe_skfd6 ev, LISP_CP_PORT))"

text \<open>The address that is copied into the lookup is the address of the message.\<close>

lemma copied_eid:
  assumes "eid_family eid = Some f" and "known_af f" and "28 \<le> length eid" and "length old = 128"
  obtains n a e where "get_sock_size eid = Some n" "rdn eid 0 n = Some a" "wr 0 a old = Some e"
    "length e = 128" "eid_family e = Some f" "host_prefix e = host_prefix eid"
proof -
  define n :: nat where "n = (if f = FAM_INET then 16 else 28)"
  define e where "e = take n eid @ drop n old"
  have n: "n = 16 \<or> n = 28" "n \<le> length eid" using assms(3) by (auto simp: n_def)
  have 1: "get_sock_size eid = Some n" "rdn eid 0 n = Some (take n eid)" "wr 0 (take n eid) old = Some e" "length e = 128"
    using assms n by (auto simp: get_sock_size_def n_def known_af_def rdn_def wr_def e_def)
  have "e ! 1 = eid ! 1" using n by (auto simp: e_def nth_append)
  then have f: "eid_family e = Some f" using assms(1,3) 1(4) by (auto simp: eid_family_def rd8_def)
  moreover have "take 4 (drop 4 e) = take 4 (drop 4 eid)" using n by (auto simp: e_def take_drop)
  moreover have "f = FAM_INET6 \<Longrightarrow> take 16 (drop 8 e) = take 16 (drop 8 eid)" using n assms(3) by (auto simp: e_def n_def take_drop)
  ultimately have "host_prefix e = host_prefix eid" using assms(1,2) by (auto simp: host_prefix_def known_af_def)
  with that 1 f show thesis by blast
qed

lemma miss_sends:
  assumes "lookups_ok (oe_srcport_rand ev) st" and "src_ok ev" and "known_af (su_family mr)"
    and "rd16le msg 2 = Some t" and "t \<in> {MAPM_MISS_EID, MAPM_MISS_HEADER, MAPM_MISS_PACKET}"
    and eid: "eid = drop sizeof_map_msghdr msg" "eid_family eid = Some f" "known_af f" "28 \<le> length eid"
    and "check_eid eid st = Some True" and "\<exists>k\<in>set (drop 1 (os_lookups st)). \<not> ol_active k"
    and "rx_of ev sock mr = Some (rx, sport)"
  obtains b m ih itr i k where
    "map_message_handler ev sock now True nonce msg mr st = Some ([Send rx (mr\<lparr>su_port := LISP_CP_PORT\<rparr>, b)], ol_set i k st)"
    "0 < i" "i < length (os_lookups st)" "ol_active k" "ol_mr k = Some (mr\<lparr>su_port := LISP_CP_PORT\<rparr>)" "ol_rx k = rx" "has_nonce nonce k"
    "ol_count k = 1" "request_message 0 0 0 0 0 0 (fst nonce) (snd nonce) [itr] (host_prefix eid) = Some m"
    "wf_itr itr" "inner_header ih"
    "b = [ecm_byte 0 0, 0, 0, 0] @ ih @ udp_header sport (8 + length m) @ m" "length b < 200"
proof -
  obtain j where j: "inactive_from 1 (drop 1 (os_lookups st)) = 1 + j" "j < length (drop 1 (os_lookups st))"
    using inactive_from_free [OF assms(11)] by metis
  have len: "length (os_lookups st) = MAX_LOOKUPS" using assms(1) by (simp add: lookups_ok_def)
  define i where "i = 1 + j"
  have i: "inactive_from 1 (drop 1 (os_lookups st)) = i" "i < MAX_LOOKUPS" "0 < i" using j len by (simp_all add: i_def)
  obtain k0 where k0: "ol_get st i = Some k0" using i(2) len by (simp add: ol_get_def)
  have ok: "length (ol_eid k0) = 128" "length (ol_nonce0 k0) = MAX_COUNT" "length (ol_nonce1 k0) = MAX_COUNT"
    using lookups_ok_get [OF assms(1) k0] by (simp_all add: lookup_ok_def)
  obtain n a e where e: "get_sock_size eid = Some n" "rdn eid 0 n = Some a" "wr 0 a (ol_eid k0) = Some e"
    "length e = 128" "eid_family e = Some f" "host_prefix e = host_prefix eid"
    using copied_eid [OF eid(2-4) ok(1)] by metis
  let ?mr = "mr\<lparr>su_port := LISP_CP_PORT\<rparr>"
  define k1 where "k1 = k0\<lparr>ol_eid := e, ol_rx := rx, ol_sport := sport, ol_start := now, ol_count := 0,
    ol_active := True, ol_mr := Some ?mr\<rparr>"
  define k where "k = k1\<lparr>ol_nonce0 := (ol_nonce0 k1)[0 := fst nonce], ol_nonce1 := (ol_nonce1 k1)[0 := snd nonce], ol_count := 1\<rparr>"
  have fam: "known_af (su_family ?mr)" "28 \<le> length e" using assms(3) e(4) by simp_all
  obtain b ih m itr where b: "opl_request ev ?mr e sport (fst nonce) (snd nonce) = Some (Some b)"
    "request_message 0 0 0 0 0 0 (fst nonce) (snd nonce) [itr] (host_prefix e) = Some m" "wf_itr itr" "inner_header ih"
    "b = [ecm_byte 0 0, 0, 0, 0] @ ih @ udp_header sport (8 + length m) @ m" "length b < 200"
    using opl_request_sent [OF assms(2) fam(1) e(5) eid(3) fam(2)] by metis
  have g: "ol_get (ol_set i k1 st) i = Some k1" using i(2) len by (simp add: ol_get_def ol_set_def)
  have s: "send_mr ev True nonce i (ol_set i k1 st) = Some (1, [Send rx (?mr, b)], ol_set i k st)"
    using b(1) unfolding send_mr_def g Option.bind.simps
    by (simp add: k1_def k_def COUNT_def MAX_COUNT_def ol_set_def)
  have nl: "new_lookup ev sock now True nonce eid mr st = Some ([Send rx (?mr, b)], ol_set i k st)"
    using i(2) s unfolding new_lookup_def Let_def i(1) rx_of_def [symmetric] assms(12) k0 e Option.bind.simps k1_def by simp
  have t: "ucast (ucast t :: byte) = t" using assms(5) by (auto simp: MAPM_MISS_EID_def MAPM_MISS_HEADER_def MAPM_MISS_PACKET_def)
  have "map_message_handler ev sock now True nonce msg mr st = Some ([Send rx (?mr, b)], ol_set i k st)"
    using assms(5,10) nl unfolding map_message_handler_def assms(4) Option.bind.simps Let_def t eid(1) [symmetric] by auto
  moreover have "nonce_at k 0 = nonce" using ok by (simp add: nonce_at_def k_def k1_def MAX_COUNT_def)
  then have "has_nonce nonce k" by (auto simp: has_nonce_def list_ex_iff MAX_COUNT_def intro!: bexI [of _ 0])
  moreover have "ol_active k" "ol_mr k = Some ?mr" "ol_rx k = rx" "ol_count k = 1" by (simp_all add: k_def k1_def)
  ultimately show thesis using that i(2,3) len b(2-6) e(6) by metis
qed

section \<open>The answer\<close>

text \<open>A Map-Reply with one record, as a map server makes it of a request.\<close>

definition map_reply ::
  "cp_config \<Rightarrow> pk_req_entry \<Rightarrow> cp_prefix \<Rightarrow> map_entry list \<Rightarrow> u32 \<Rightarrow> u32 \<Rightarrow> byte \<Rightarrow> byte \<Rightarrow> byte list option" where
  "map_reply cf pke p es ttl version A act = do {
     rpk \<leftarrow> udp_reply_add pke;
     rpk \<leftarrow> udp_reply_add_record rpk p ttl (of_nat (length es)) version A act;
     rpk \<leftarrow> reply_add_locators cf rpk es;
     Some (rp_buf rpk) }"

lemma reply_resolves:
  assumes "ol_get st i = Some k" and "ol_mr k \<noteq> None" and "has_nonce (udp_request_get_nonce pke) k"
    and "map_reply cf pke p es ttl version A act = Some bs" and "pk_lcm pke = Some q" and "rd8 (pk_buf pke) q = Some v"
    and "get_field 1 1 v = 0" and "wf_padded (family p) (addr p)" and "wf_cp p"
    and es: "\<forall>e\<in>set es. wf_entry e" "distinct (map loc_key es)" "es \<noteq> []" "message_length p (map cached es) < 256"
  shows "read_mr ev (Some (bs @ junk)) i st =
    Some (Write (add_message (oe_pid ev) p (map cached es) 0 (os_seq st + 1)) # (if oe_srcport_rand ev then [Close (ol_rx k)] else []),
      ol_set i (k\<lparr>ol_active := False\<rparr>) (st\<lparr>os_seq := os_seq st + 1\<rparr>))"
proof -
  obtain rpk0 rpk1 rpk2 where r: "udp_reply_add pke = Some rpk0"
    "udp_reply_add_record rpk0 p ttl (of_nat (length es)) version A act = Some rpk1"
    "reply_add_locators cf rpk1 es = Some rpk2" "bs = rp_buf rpk2"
    using assms(4) by (auto simp: map_reply_def Option.bind_eq_Some_conv)
  have "rp_req rpk0 = Some pke" using r(1) by (auto simp: udp_reply_add_def emit_def udp_new_reply_entry_def Let_def split: prod.splits if_splits)
  then have pr: "request_probes (poke 3 (\<lambda>c. c + 1) rpk0) = Some False" using assms(5-7) by (simp add: request_probes_def poke_def)
  note m = reply_message_read [OF r(1-3) pr assms(8,9) es]
  have k: "ol_get (st\<lparr>os_seq := sq\<rparr>) i = ol_get st i" for sq by (simp add: ol_get_def)
  obtain mr where mr: "ol_mr k = Some mr" using assms(2) by blast
  show ?thesis unfolding read_mr_def assms(1) Option.bind.simps mr option.case r(4) m(1)
    using assms(1,3) m(2) [of ev junk st] k by simp
qed

lemma probe_clear: "get_field 1 1 (request_flags0 0 0 0 0) = 0"
  by (simp add: request_flags0_def get_field_def put_field_def LISP_TYPE_MAP_REQUEST_def take_bit_eq_mask mask_numeral)


section \<open>The table of lookups\<close>


section \<open>Samples\<close>

lemma opl_scan_idle: "\<forall>i\<in>set is. \<not> ol_active (ks ! i) \<Longrightarrow> opl_scan rand is ks now op = op"
  by (induction "is") simp_all

lemma check_lookups_idle: "\<forall>k\<in>set ks. \<not> ol_active k \<Longrightarrow> check_lookups eid ks = Some True"
  by (induction ks) simp_all

definition opl_sample_miss :: "byte list" where
  "opl_sample_miss = [56, 1] @ host16 MAPM_MISS_EID @ replicate 24 0 @ opl_sample_eid"

lemma opl_start_idle: "\<forall>k\<in>set (os_lookups opl_start). \<not> ol_active k" "length (os_lookups opl_start) = MAX_LOOKUPS"
  by (simp_all add: opl_start_def empty_opl_lookup_def)

lemma opl_sample_missed:
  "rd16le opl_sample_miss 2 = Some MAPM_MISS_EID" "drop sizeof_map_msghdr opl_sample_miss = opl_sample_eid"
  "eid_family opl_sample_eid = Some FAM_INET" "known_af FAM_INET" "28 \<le> length opl_sample_eid"
  "check_eid opl_sample_eid opl_start = Some True" "\<exists>k\<in>set (drop 1 (os_lookups opl_start)). \<not> ol_active k"
  "known_af (su_family sample_su)"
proof -
  show "check_eid opl_sample_eid opl_start = Some True"
    unfolding check_eid_def using opl_start_idle(1) by (intro check_lookups_idle) (auto dest: in_set_dropD)
  show "\<exists>k\<in>set (drop 1 (os_lookups opl_start)). \<not> ol_active k"
    by (simp add: opl_start_def MAX_LOOKUPS_def empty_opl_lookup_def)
qed (simp_all add: opl_sample_miss_def rd16le_def rd8_def host16_def MAPM_MISS_EID_def sizeof_map_msghdr_def opl_sample_eid_def
    eid_family_def af_of_def known_af_def sample_su_def)


definition opl_sample_turn :: opl_turn where
  "opl_sample_turn = \<lparr>ot_now = (100, 0), ot_poll = 1, ot_revents = (\<lambda>i. i = 0), ot_recv = (\<lambda>_. None), ot_msg = opl_sample_miss,
     ot_random = 5, ot_sock = Some (9, 61000), ot_sent = True, ot_nonce = (1, 2)\<rparr>"


end
