(* ===== verification/Cp_Conf.thy ===== *)
theory Cp_Conf
  imports Cp_Xtr
begin

text \<open>
  The configuration reader of the control plane (\<open>parser.c\<close>). The XML library calls a handler at the start of an
  element with its attributes, at its end, and with text; each of the five files has its three handlers. The
  static variables of the file and the databases it fills are one record. A handler ends the process with a
  status, \<open>Some (Inl status)\<close>, goes on with a new state, \<open>Some (Inr st)\<close>, or dereferences a null pointer, writes outside
  an array or does not return, \<open>None\<close>. The lists that are only appended to are lists of values, a pointer
  into one of them is its index. \<open>pr_msids\<close> is a local variable of one handler. What is printed is left out, and so is the copy of the prefix that is freed again.
\<close>

section \<open>State\<close>

record cparser =
  pr_db :: "map_entry list lisp_db"
  pr_sites :: "site_info clist"
  pr_etr :: "(af \<times> ref) list"
  pr_ms :: "ms_entry list"
  pr_mr :: "sockunion list"
  pr_petr :: "sockunion list"
  pr_rlocs :: "map_entry list"
  pr_ms_cur :: "nat option"
  pr_pe :: "pe_entry option"
  pr_hop :: "hop_entry option"
  pr_user :: "map_entry option"
  pr_site :: "nat option"
  pr_eid :: "(af \<times> ref) option"
  pr_mapping :: "(af \<times> ref) option"
  pr_flags :: mapping_flags
  pr_fam :: af
  pr_name :: "string option"
  pr_msids :: "string option"

text \<open>The conversions of the C library, and what an uninitialised prefix on the stack holds. The IPv6 conversion of
  \<open>str2prefix\<close> is \<open>inet_pton\<close>.\<close>

record conf_env =
  ce_aton :: "string \<Rightarrow> byte list option"
  ce_pton :: "af \<Rightarrow> string \<Rightarrow> byte list option"
  ce_junk :: cp_prefix

datatype xml_event = Start string "string list" | End string | Text string

type_synonym 'a conf = "(int + 'a) option"

definition ROLE_REID :: byte where "ROLE_REID = 64"
definition LISP_DP_PORT :: u16 where "LISP_DP_PORT = 4341"

definition zero_flags :: mapping_flags where
  "zero_flags = \<lparr>mf_iid = 0, mf_act = 0, mf_A = 0, mf_version = 0, mf_proxy = 0, mf_ttl = 0, mf_referral = 0,
     mf_incomplete = 0, mf_range = 0, mf_active = 0, mf_rsvd = None\<rparr>"

definition zero_entry :: map_entry where
  "zero_entry = \<lparr>me_rloc = zero_sockunion, me_priority = 0, me_weight = 0, me_m_priority = 0, me_m_weight = 0,
     me_L = 0, me_p = 0, me_r = 0, me_pe = None\<rparr>"

definition zero_pe :: pe_entry where
  "zero_pe = \<lparr>pe_priority = 0, pe_weight = 0, pe_m_priority = 0, pe_m_weight = 0, pe_L = 0, pe_p = 0, pe_r = 0, pe_hop = []\<rparr>"

definition zero_hop :: hop_entry where
  "zero_hop = \<lparr>he_L = 0, he_P = 0, he_S = 0, he_addr = zero_sockunion\<rparr>"

section \<open>Strings\<close>

definition tolower :: "char \<Rightarrow> char" where
  "tolower c = (if 65 \<le> (of_char c :: nat) \<and> (of_char c :: nat) \<le> 90 then char_of ((of_char c :: nat) + 32) else c)"

text \<open>\<open>strcasecmp\<close> and \<open>strncasecmp\<close> are only compared with 0.\<close>

definition same_nocase :: "string \<Rightarrow> string \<Rightarrow> bool" where
  "same_nocase a b \<longleftrightarrow> map tolower a = map tolower b"

definition starts_nocase :: "nat \<Rightarrow> string \<Rightarrow> string \<Rightarrow> bool" where
  "starts_nocase n a b \<longleftrightarrow> map tolower (take n a) = map tolower (take n b)"

definition one_of :: "string \<Rightarrow> string list \<Rightarrow> bool" where
  "one_of s names \<longleftrightarrow> list_ex (same_nocase s) names"

text \<open>The tokens that \<open>strtok_r\<close> finds, and what it leaves in the string: the first token ends it.\<close>

function tokens :: "(char \<Rightarrow> bool) \<Rightarrow> string \<Rightarrow> string list" where
  "tokens sep s =
     (let s = dropWhile sep s
      in if s = [] then [] else takeWhile (\<lambda>c. \<not> sep c) s # tokens sep (dropWhile (\<lambda>c. \<not> sep c) s))"
  by pat_completeness auto

termination
proof (relation "measure (length \<circ> snd)")
  fix sep :: "char \<Rightarrow> bool" and s x
  assume x: "x = dropWhile sep s" "x \<noteq> []"
  then have "\<not> sep (hd x)" by (metis hd_dropWhile)
  with x(2) have "length (dropWhile (\<lambda>c. \<not> sep c) x) < length x"
    by (cases x) (auto simp: le_imp_less_Suc length_dropWhile_le)
  moreover have "length x \<le> length s" unfolding x(1) by (rule length_dropWhile_le)
  ultimately show "((sep, dropWhile (\<lambda>c. \<not> sep c) x), sep, s) \<in> measure (length \<circ> snd)" by simp
qed simp

declare tokens.simps [simp del]

definition first_token :: "(char \<Rightarrow> bool) \<Rightarrow> string \<Rightarrow> string" where
  "first_token sep s = takeWhile sep s @ takeWhile (\<lambda>c. \<not> sep c) (dropWhile sep s)"

text \<open>The tokens in an array of 50 strings of 255 bytes.\<close>

definition token_array :: "(char \<Rightarrow> bool) \<Rightarrow> string \<Rightarrow> string list option" where
  "token_array sep s =
     (let ts = tokens sep s
      in if length ts \<le> 50 \<and> (\<forall>t\<in>set ts. length t < 255) then Some ts else None)"

section \<open>Attributes\<close>

text \<open>
  Attributes are pairs of a name and a value, one after the other, and a null pointer behind the last. A loop goes
  through its tests at every position; a test that succeeds moves on to the value, and the tests behind it then look at
  the value. At the end the loop moves on by one. A test may depend on the state.
\<close>

datatype 's att_step =
    Att "'s \<Rightarrow> bool" string "string \<Rightarrow> 's \<Rightarrow> 's conf"
  | AttElse string "string \<Rightarrow> 's \<Rightarrow> 's" "'s \<Rightarrow> 's"
  | Always "'s \<Rightarrow> 's"

fun att_steps :: "'s att_step list \<Rightarrow> string list \<Rightarrow> 's \<Rightarrow> (string list \<times> 's) conf" where
  "att_steps [] atts st = Some (Inr (atts, st))"
| "att_steps (Att g name f # ss) atts st =
     (if \<not> g st then att_steps ss atts st
      else case atts of
        [] \<Rightarrow> None
      | a # as \<Rightarrow>
          if same_nocase name a then
            (case as of
               [] \<Rightarrow> None
             | v # _ \<Rightarrow>
                 (case f v st of
                    None \<Rightarrow> None
                  | Some (Inl c) \<Rightarrow> Some (Inl c)
                  | Some (Inr st) \<Rightarrow> att_steps ss as st))
          else att_steps ss atts st)"
| "att_steps (AttElse name f g # ss) atts st =
     (case atts of
        [] \<Rightarrow> None
      | a # as \<Rightarrow>
          if same_nocase name a then (case as of [] \<Rightarrow> None | v # _ \<Rightarrow> att_steps ss as (f v st))
          else att_steps ss atts (g st))"
| "att_steps (Always g # ss) atts st = att_steps ss atts (g st)"

lemma att_steps_shorter:
  "att_steps ss atts st = Some (Inr (atts', st')) \<Longrightarrow> atts \<noteq> [] \<Longrightarrow> atts' \<noteq> [] \<and> length atts' \<le> length atts"
  by (induction ss atts st rule: att_steps.induct)
    (fastforce split: if_splits list.splits option.splits sum.splits)+

function att_loop :: "'s att_step list \<Rightarrow> string list \<Rightarrow> 's \<Rightarrow> 's conf" where
  "att_loop ss atts st =
     (if atts = [] then Some (Inr st)
      else case att_steps ss atts st of
        None \<Rightarrow> None
      | Some (Inl c) \<Rightarrow> Some (Inl c)
      | Some (Inr (atts, st)) \<Rightarrow> att_loop ss (tl atts) st)"
  by pat_completeness auto

termination
  by (relation "measure (\<lambda>(_, atts, _). length atts)") (auto dest!: att_steps_shorter simp: neq_Nil_conv)

declare att_loop.simps [simp del]

text \<open>A test that sets a value and always succeeds.\<close>

definition set_att :: "string \<Rightarrow> (string \<Rightarrow> 's \<Rightarrow> 's) \<Rightarrow> 's att_step" where
  "set_att name f = Att (\<lambda>_. True) name (\<lambda>v st. Some (Inr (f v st)))"

section \<open>Prefixes\<close>

definition read_prefix :: "conf_env \<Rightarrow> string \<Rightarrow> int \<times> cp_prefix" where
  "read_prefix env s = str2prefix (ce_aton env) (ce_pton env FAM_INET6) s (ce_junk env)"

text \<open>A node and the flags it has, or the top.\<close>

partial_function (option) climb_flags :: "(ref \<Rightarrow> 'i db_node option) \<Rightarrow> ref option \<Rightarrow> ref \<Rightarrow> ref option" where
  "climb_flags h tp a =
     (if tp = Some a then Some a
      else do {
        n \<leftarrow> h a;
        case flags n of
          Some _ \<Rightarrow> Some a
        | None \<Rightarrow> do { q \<leftarrow> parent n; climb_flags h tp q } })"

text \<open>0: refused, 1: accepted, 2: there is such a prefix, which its callers take as accepted. The lookup locks the node.\<close>

definition valid_prefix :: "cp_prefix \<Rightarrow> byte \<Rightarrow> map_entry list lisp_db \<Rightarrow> (int \<times> map_entry list lisp_db) option" where
  "valid_prefix p type db = do {
     T \<leftarrow> ms_get_db_table db p;
     (rn, T) \<leftarrow> db_node_match_prefix p T;
     let db = set_table (family p) T db;
     case rn of
       None \<Rightarrow> Some (1, db)
     | Some a \<Rightarrow> do {
         n \<leftarrow> heap T a;
         if prefixlen (n_p n) = prefixlen p then Some (2, db)
         else if type \<in> {ROLE_MAPP_XTR, ROLE_GEID, ROLE_GREID, ROLE_EID, ROLE_REID} then do {
           a \<leftarrow> climb_flags (heap T) (top T) a;
           if top T = Some a then Some (1, db)
           else do {
             n \<leftarrow> heap T a;
             f \<leftarrow> flags n;
             let ok = (if type = ROLE_MAPP_XTR then mf_range f = ROLE_MAPP_XTR
                       else if type = ROLE_EID then mf_range f AND (ROLE_GEID OR ROLE_EID) \<noteq> 0
                       else if type = ROLE_REID then mf_range f = ROLE_GREID
                       else False);
             Some (if ok then 1 else 0, db) } }
         else Some (0, db) } }"

text \<open>An operation on the table of a node.\<close>

definition on_node :: "(ref \<Rightarrow> db_nodes \<Rightarrow> db_nodes option) \<Rightarrow> (af \<times> ref) option \<Rightarrow> cparser \<Rightarrow> cparser option" where
  "on_node f m st = do {
     (fm, a) \<leftarrow> m;
     T \<leftarrow> db_table_of fm (pr_db st);
     T \<leftarrow> f a T;
     Some (st\<lparr>pr_db := set_table fm T (pr_db st)\<rparr>) }"

definition add_rloc :: "map_entry \<Rightarrow> cparser \<Rightarrow> cparser option" where
  "add_rloc e st = on_node (\<lambda>a. generic_mapping_add_rloc a e) (pr_mapping st) st"

definition set_mapping_flags :: "(af \<times> ref) option \<Rightarrow> cparser \<Rightarrow> cparser option" where
  "set_mapping_flags m st = on_node (\<lambda>a. generic_mapping_set_flags a (pr_flags st)) m st"

text \<open>A new mapping for the prefix that an attribute holds. The status of the exit differs between the handlers.\<close>

definition new_mapping :: "conf_env \<Rightarrow> byte \<Rightarrow> int \<Rightarrow> byte \<Rightarrow> string \<Rightarrow> cparser \<Rightarrow> cparser conf" where
  "new_mapping env type status role v st =
     (let (r, p) = read_prefix env v
      in if r \<le> 0 then Some (Inl 1)
         else do {
           let p = apply_mask p;
           (ok, db) \<leftarrow> valid_prefix p type (pr_db st);
           if ok = 0 then Some (Inl status)
           else do {
             (rn, db) \<leftarrow> generic_mapping_new p db;
             Some (Inr (st\<lparr>pr_db := db, pr_mapping := Some (family p, rn), pr_flags := zero_flags\<lparr>mf_range := role\<rparr>\<rparr>)) } })"

text \<open>The address that text holds, for the family that is set. It is one of the two that are known.\<close>

definition text_address :: "conf_env \<Rightarrow> af \<Rightarrow> string \<Rightarrow> sockunion \<Rightarrow> sockunion option" where
  "text_address env fam s su =
     map_option (\<lambda>a. if fam = FAM_INET6 then set_sin6_addr a (su\<lparr>su_family := FAM_INET6\<rparr>)
       else set_sin_addr a (su\<lparr>su_family := FAM_INET\<rparr>)) (ce_pton env fam s)"

definition flags_att :: "string \<Rightarrow> (string \<Rightarrow> mapping_flags \<Rightarrow> mapping_flags) \<Rightarrow> cparser att_step" where
  "flags_att name f = set_att name (\<lambda>v st. st\<lparr>pr_flags := f v (pr_flags st)\<rparr>)"

definition family_of :: "string \<Rightarrow> af" where
  "family_of v = (if same_nocase v ''IPv6'' then FAM_INET6 else FAM_INET)"

definition is_true :: "string \<Rightarrow> bool" where
  "is_true v \<longleftrightarrow> same_nocase v ''true''"

text \<open>The tests for the bits, the version and the lifetime of a mapping.\<close>

definition act_att :: "cparser att_step" where
  "act_att = flags_att ''act'' (\<lambda>v f. f\<lparr>mf_act := of_int (atoi v)\<rparr>)"
definition a_att :: "cparser att_step" where
  "a_att = flags_att ''a'' (\<lambda>v f. f\<lparr>mf_A := of_bool (is_true v)\<rparr>)"
definition version_att :: "cparser att_step" where
  "version_att = flags_att ''version'' (\<lambda>v f. f\<lparr>mf_version := of_int (atoi v)\<rparr>)"
definition ttl_att :: "cparser att_step" where
  "ttl_att = flags_att ''ttl'' (\<lambda>v f. f\<lparr>mf_ttl := of_int (atoi v)\<rparr>)"
definition iid_att :: "cparser att_step" where
  "iid_att = flags_att ''iid'' (\<lambda>v f. f\<lparr>mf_iid := of_int (atoi v)\<rparr>)"
definition referral_att :: "cparser att_step" where
  "referral_att = flags_att ''referral'' (\<lambda>v f. f\<lparr>mf_referral := (if same_nocase v ''ms'' then 2 else 1)\<rparr>)"
definition incomplete_att :: "cparser att_step" where
  "incomplete_att = flags_att ''incomplete'' (\<lambda>v f. f\<lparr>mf_incomplete := of_bool (is_true v)\<rparr>)"

lemmas att_defs = act_att_def a_att_def version_att_def ttl_att_def iid_att_def referral_att_def incomplete_att_def
  flags_att_def set_att_def

definition family_att :: "cparser att_step" where
  "family_att = set_att ''family'' (\<lambda>v st. st\<lparr>pr_fam := family_of v\<rparr>)"

definition family_else_att :: "cparser att_step" where
  "family_else_att = AttElse ''family'' (\<lambda>v st. st\<lparr>pr_fam := family_of v\<rparr>) (\<lambda>st. st\<lparr>pr_fam := FAM_INET\<rparr>)"

text \<open>The end of a handler for a start: the element is remembered for its text.\<close>

definition named :: "string \<Rightarrow> cparser conf \<Rightarrow> cparser conf" where
  "named name r = map_option (map_sum id (\<lambda>st. st\<lparr>pr_name := Some name\<rparr>)) r"

end
