(* ===== verification/Cp_Conf_Xml.thy ===== *)
theory Cp_Conf_Xml
  imports Cp_Conf
begin

text \<open>
  The handlers of the five XML files of the control plane (\<open>parser.c\<close>): those of an xTR, a map resolver, a DDT
  node, a map server and an RTR, and the functions that read a file with them. The name of an
  element that is remembered is a pointer of the XML library, taken to keep its value until the next
  start of an element.
\<close>

section \<open>xTR\<close>

fun find_ms :: "byte \<Rightarrow> ms_entry list \<Rightarrow> nat option" where
  "find_ms i [] = None"
| "find_ms i (m # ms) = (if mse_id m = i then Some 0 else map_option Suc (find_ms i ms))"

definition ms_add_eid :: "af \<times> ref \<Rightarrow> ms_entry \<Rightarrow> ms_entry" where
  "ms_add_eid m ms = ms\<lparr>mse_eids := mse_eids ms @ [m]\<rparr>"

text \<open>The map servers whose ids are listed; \<open>None\<close> when there is none with an id.\<close>

fun assign_ms :: "af \<times> ref \<Rightarrow> string list \<Rightarrow> ms_entry list \<Rightarrow> ms_entry list option" where
  "assign_ms m [] ms = Some ms"
| "assign_ms m (t # ts) ms =
     (case find_ms (of_int (atoi t)) ms of
        None \<Rightarrow> None
      | Some i \<Rightarrow> assign_ms m ts (ms[i := ms_add_eid m (ms ! i)]))"

definition ids_sep :: "char \<Rightarrow> bool" where
  "ids_sep c \<longleftrightarrow> c = CHR '';'' \<or> c = CHR '' ''"

definition xtr_prefix :: "conf_env \<Rightarrow> string \<Rightarrow> cparser \<Rightarrow> cparser conf" where
  "xtr_prefix env v st = do {
     r \<leftarrow> new_mapping env ROLE_MAPP_XTR 1 ROLE_MAPP_XTR v st;
     case r of
       Inl c \<Rightarrow> Some (Inl c)
     | Inr st \<Rightarrow> do {
         m \<leftarrow> pr_mapping st;
         let st = st\<lparr>pr_flags := (pr_flags st)\<lparr>mf_A := 1\<rparr>, pr_etr := pr_etr st @ [m]\<rparr>;
         let to_all = st\<lparr>pr_ms := map (ms_add_eid m) (pr_ms st)\<rparr>;
         case pr_msids st of
           None \<Rightarrow> Some (Inr to_all)
         | Some ids \<Rightarrow>
             if same_nocase ids ''none'' then Some (Inr st)
             else if same_nocase ids ''all'' then Some (Inr to_all)
             else do {
               ts \<leftarrow> token_array ids_sep ids;
               Some (case assign_ms m ts (pr_ms st) of
                   None \<Rightarrow> Inl 1
                 | Some ms \<Rightarrow> Inr (st\<lparr>pr_ms := ms, pr_msids := Some (first_token ids_sep ids)\<rparr>)) } } }"

definition xtr_eid_atts :: "conf_env \<Rightarrow> cparser att_step list" where
  "xtr_eid_atts env =
     [set_att ''ms_ids'' (\<lambda>v st. st\<lparr>pr_msids := Some v\<rparr>), Att (\<lambda>_. True) ''prefix'' (xtr_prefix env),
      act_att, a_att, version_att, ttl_att]"

definition on_ms :: "(ms_entry \<Rightarrow> ms_entry) \<Rightarrow> cparser \<Rightarrow> cparser option" where
  "on_ms f st = do {
     i \<leftarrow> pr_ms_cur st;
     if i < length (pr_ms st) then Some (st\<lparr>pr_ms := (pr_ms st)[i := f (pr_ms st ! i)]\<rparr>) else None }"

text \<open>An id that another map server has ends the process.\<close>

definition ms_id :: "string \<Rightarrow> cparser \<Rightarrow> cparser conf" where
  "ms_id v st = do {
     st \<leftarrow> on_ms (\<lambda>m. m\<lparr>mse_id := of_int (atoi v)\<rparr>) st;
     Some (case find_ms (of_int (atoi v)) (pr_ms st) of
         None \<Rightarrow> Inr st
       | Some j \<Rightarrow> if Some j \<noteq> pr_ms_cur st then Inl 1 else Inr st) }"

definition pe_att :: "string \<Rightarrow> (string \<Rightarrow> pe_entry \<Rightarrow> pe_entry) \<Rightarrow> cparser att_step" where
  "pe_att name f = Att (\<lambda>st. pr_pe st \<noteq> None) name (\<lambda>v st. Some (Inr (st\<lparr>pr_pe := map_option (f v) (pr_pe st)\<rparr>)))"

definition xtr_atts :: "cparser att_step list" where
  "xtr_atts =
     [family_att,
      Att (\<lambda>_. True) ''id'' ms_id,
      Att (\<lambda>_. True) ''key'' (\<lambda>v st. map_option Inr (on_ms (\<lambda>m. m\<lparr>mse_key := Some v\<rparr>) st)),
      Att (\<lambda>_. True) ''proxy'' (\<lambda>v st. map_option Inr (on_ms (\<lambda>m. m\<lparr>mse_proxy := of_bool (starts_nocase 3 v ''yes'')\<rparr>) st)),
      pe_att ''priority'' (\<lambda>v p. p\<lparr>pe_priority := of_int (atoi v)\<rparr>),
      pe_att ''m_priority'' (\<lambda>v p. p\<lparr>pe_m_priority := of_int (atoi v)\<rparr>),
      pe_att ''weight'' (\<lambda>v p. p\<lparr>pe_weight := of_int (atoi v)\<rparr>),
      pe_att ''m_weight'' (\<lambda>v p. p\<lparr>pe_m_weight := of_int (atoi v)\<rparr>)]"

definition new_ms :: ms_entry where
  "new_ms = \<lparr>mse_addr = zero_sockunion, mse_id = -1, mse_key = None, mse_proxy = 0, mse_eids = []\<rparr>"

definition xtr_open :: "string \<Rightarrow> cparser \<Rightarrow> cparser" where
  "xtr_open name st =
     (if same_nocase name ''ms'' then st\<lparr>pr_ms := pr_ms st @ [new_ms], pr_ms_cur := Some (length (pr_ms st))\<rparr>
      else if same_nocase name ''elp'' then st\<lparr>pr_pe := Some zero_pe\<rparr>
      else if same_nocase name ''address'' then st\<lparr>pr_fam := FAM_INET\<rparr>
      else if same_nocase name ''hop'' then st\<lparr>pr_fam := FAM_INET, pr_hop := Some zero_hop\<rparr>
      else st)"

definition xtr_startElement :: "conf_env \<Rightarrow> string \<Rightarrow> string list \<Rightarrow> cparser \<Rightarrow> cparser conf" where
  "xtr_startElement env name atts st = named name
     (if one_of name [''eid_prefix'', ''eid''] then att_loop (xtr_eid_atts env) atts (st\<lparr>pr_msids := None\<rparr>)
      else if one_of name [''address'', ''ms'', ''mr'', ''petr'', ''elp'', ''hop''] then att_loop xtr_atts atts (xtr_open name st)
      else if same_nocase name ''rloc'' then
        Some (if pr_user st \<noteq> None \<or> pr_mapping st = None then Inl 1 else Inr (st\<lparr>pr_user := Some zero_entry\<rparr>))
      else Some (Inr st))"

text \<open>The weights that a mapping, and the paths of a locator, have at a priority.\<close>

definition sw_rloc :: "map_entry list option \<Rightarrow> byte \<Rightarrow> int" where
  "sw_rloc rlc pr =
     (case rlc of None \<Rightarrow> -1 | Some es \<Rightarrow> sum_list (map (\<lambda>e. if me_priority e = pr then uint (me_weight e) else 0) es))"

definition sw_elp :: "pe_entry list option \<Rightarrow> byte \<Rightarrow> int" where
  "sw_elp elp pr =
     (case elp of None \<Rightarrow> -1 | Some ps \<Rightarrow> sum_list (map (\<lambda>p. if pe_priority p = pr then uint (pe_weight p) else 0) ps))"

definition mapping_info :: "cparser \<Rightarrow> map_entry list option option" where
  "mapping_info st = do {
     (f, a) \<leftarrow> pr_mapping st;
     T \<leftarrow> db_table_of f (pr_db st);
     n \<leftarrow> heap T a;
     Some (info n) }"

definition xtr_endElement :: "string \<Rightarrow> cparser \<Rightarrow> cparser conf" where
  "xtr_endElement name st =
     (if same_nocase name ''rloc'' then
        (case pr_user st of
           None \<Rightarrow> Some (Inl 1)
         | Some e \<Rightarrow> do {
             let st = st\<lparr>pr_user := None\<rparr>;
             if me_priority e = 0 \<or> me_weight e = 0 then Some (Inl 1)
             else do {
               l \<leftarrow> mapping_info st;
               if uint (me_weight e) + sw_rloc l (me_priority e) \<le> 100 then map_option Inr (add_rloc e st)
               else Some (Inl 1) } })
      else if one_of name [''eid_prefix'', ''eid''] then do {
        st \<leftarrow> set_mapping_flags (pr_mapping st) st;
        Some (Inr (st\<lparr>pr_flags := zero_flags, pr_mapping := None\<rparr>)) }
      else if same_nocase name ''ms'' then Some (Inr (st\<lparr>pr_ms_cur := None\<rparr>))
      else if same_nocase name ''elp'' then do {
        pe \<leftarrow> pr_pe st;
        case pr_user st of
          None \<Rightarrow> Some (Inl 1)
        | Some e \<Rightarrow>
            let ps = (case me_pe e of None \<Rightarrow> [] | Some ps \<Rightarrow> ps)
            in Some (if uint (pe_weight pe) + sw_elp (Some ps) (pe_priority pe) \<le> 100
                     then Inr (st\<lparr>pr_user := Some (e\<lparr>me_pe := Some (ps @ [pe])\<rparr>), pr_pe := None\<rparr>)
                     else Inl 1) }
      else Some (Inr st))"

text \<open>The text of an element inside a locator.\<close>

definition xtr_entry_text :: "conf_env \<Rightarrow> string \<Rightarrow> string \<Rightarrow> map_entry \<Rightarrow> cparser \<Rightarrow> cparser conf" where
  "xtr_entry_text env name s e st =
     (let keep = (\<lambda>e. Some (Inr (st\<lparr>pr_user := Some e\<rparr>)))
      in if same_nocase name ''priority'' then keep (e\<lparr>me_priority := of_int (atoi s)\<rparr>)
         else if same_nocase name ''m_priority'' then keep (e\<lparr>me_m_priority := of_int (atoi s)\<rparr>)
         else if same_nocase name ''weight'' then keep (e\<lparr>me_weight := of_int (atoi s)\<rparr>)
         else if same_nocase name ''m_weight'' then keep (e\<lparr>me_m_weight := of_int (atoi s)\<rparr>)
         else if same_nocase name ''reachable'' then keep (e\<lparr>me_r := of_bool (is_true s)\<rparr>)
         else if same_nocase name ''local'' then keep (e\<lparr>me_L := of_bool (is_true s)\<rparr>)
         else if same_nocase name ''rloc-probing'' then keep (e\<lparr>me_p := of_bool (is_true s)\<rparr>)
         else if same_nocase name ''hop'' then do {
           h \<leftarrow> pr_hop st;
           Some (case text_address env (pr_fam st) s (he_addr h) of
               None \<Rightarrow> Inl 1
             | Some a \<Rightarrow>
                 (case pr_pe st of
                    None \<Rightarrow> Inl 1
                  | Some pe \<Rightarrow> Inr (st\<lparr>pr_pe := Some (pe\<lparr>pe_hop := pe_hop pe @ [h\<lparr>he_addr := a\<rparr>]\<rparr>), pr_hop := None,
                      pr_fam := FAM_INET\<rparr>))) }
         else if same_nocase name ''address'' then
           (case text_address env (pr_fam st) s (me_rloc e) of
              None \<Rightarrow> Some (Inl 1)
            | Some a \<Rightarrow> Some (Inr (st\<lparr>pr_user := Some (e\<lparr>me_rloc := a\<rparr>), pr_fam := FAM_INET\<rparr>)))
         else Some (Inr st))"

text \<open>The text of an element that lists a server.\<close>

definition xtr_server_text :: "conf_env \<Rightarrow> string \<Rightarrow> string \<Rightarrow> cparser \<Rightarrow> cparser conf" where
  "xtr_server_text env name s st =
     (if same_nocase name ''ms'' then do {
        i \<leftarrow> pr_ms_cur st;
        let ad = text_address env (pr_fam st) s;
        if length (pr_ms st) \<le> i then None
        else case ad ((mse_addr (pr_ms st ! i))\<lparr>su_port := LISP_CP_PORT\<rparr>) of
          None \<Rightarrow> Some (Inl 1)
        | Some a \<Rightarrow> do {
            st \<leftarrow> on_ms (\<lambda>m. m\<lparr>mse_addr := a\<rparr>) st;
            Some (Inr (st\<lparr>pr_fam := FAM_INET\<rparr>)) } }
      else if same_nocase name ''mr'' then
        Some (case text_address env (pr_fam st) s (zero_sockunion\<lparr>su_port := LISP_CP_PORT\<rparr>) of
            None \<Rightarrow> Inl 1
          | Some a \<Rightarrow> Inr (st\<lparr>pr_mr := pr_mr st @ [a], pr_fam := FAM_INET\<rparr>))
      else if same_nocase name ''petr'' then
        Some (case text_address env (pr_fam st) s (zero_sockunion\<lparr>su_port := LISP_DP_PORT\<rparr>) of
            None \<Rightarrow> Inl 1
          | Some a \<Rightarrow> Inr (st\<lparr>pr_petr := pr_petr st @ [a], pr_fam := FAM_INET\<rparr>))
      else Some (Inr st))"

definition xtr_getElementValue :: "conf_env \<Rightarrow> string \<Rightarrow> cparser \<Rightarrow> cparser conf" where
  "xtr_getElementValue env s st = do {
     name \<leftarrow> pr_name st;
     r \<leftarrow> (case pr_user st of None \<Rightarrow> Some (Inr st) | Some e \<Rightarrow> xtr_entry_text env name s e st);
     case r of
       Inl c \<Rightarrow> Some (Inl c)
     | Inr st \<Rightarrow> named ''DUMMY'' (xtr_server_text env name s st) }"

section \<open>Map resolver and DDT node\<close>

text \<open>The defaults are set again for every attribute.\<close>

definition mr_eid_atts :: "conf_env \<Rightarrow> cparser att_step list" where
  "mr_eid_atts env =
     [Att (\<lambda>_. True) ''prefix'' (new_mapping env ROLE_REID 0 ROLE_MAPP),
      Always (\<lambda>st. st\<lparr>pr_flags := (pr_flags st)\<lparr>mf_A := 0, mf_referral := 1\<rparr>\<rparr>),
      act_att, iid_att, a_att, version_att, ttl_att, referral_att, incomplete_att]"

definition node_eid_atts :: "conf_env \<Rightarrow> cparser att_step list" where
  "node_eid_atts env =
     [Att (\<lambda>_. True) ''prefix'' (new_mapping env ROLE_REID 0 ROLE_MAPP),
      Always (\<lambda>st. st\<lparr>pr_flags := (pr_flags st)\<lparr>mf_A := 1, mf_ttl := 60, mf_referral := 1, mf_incomplete := 0\<rparr>\<rparr>),
      act_att, iid_att, a_att, version_att, ttl_att, referral_att, incomplete_att]"

text \<open>A start without a locator at hand makes one.\<close>

definition new_entry :: "cparser \<Rightarrow> cparser" where
  "new_entry st = (case pr_user st of None \<Rightarrow> st\<lparr>pr_user := Some zero_entry\<rparr> | Some _ \<Rightarrow> st)"

definition referral_startElement ::
  "string list \<Rightarrow> cparser att_step list \<Rightarrow> string \<Rightarrow> string list \<Rightarrow> cparser \<Rightarrow> cparser conf" where
  "referral_startElement eids steps name atts st = named name (map_option (map_sum id new_entry)
     (if one_of name eids then att_loop steps atts (st\<lparr>pr_flags := (pr_flags st)\<lparr>mf_iid := 0\<rparr>\<rparr>)
      else if same_nocase name ''address'' then att_loop [family_else_att] atts (st\<lparr>pr_fam := FAM_INET\<rparr>)
      else Some (Inr st)))"

definition mr_startElement :: "conf_env \<Rightarrow> string \<Rightarrow> string list \<Rightarrow> cparser \<Rightarrow> cparser conf" where
  "mr_startElement env = referral_startElement [''eid_prefix'', ''eid''] (mr_eid_atts env)"

definition node_startElement :: "conf_env \<Rightarrow> string \<Rightarrow> string list \<Rightarrow> cparser \<Rightarrow> cparser conf" where
  "node_startElement env = referral_startElement [''delegated_eid_prefix''] (node_eid_atts env)"

text \<open>The locator goes to the mapping. Without one the list would hold a null pointer.\<close>

definition end_locator :: "cparser \<Rightarrow> cparser conf" where
  "end_locator st = do { e \<leftarrow> pr_user st; map_option Inr (add_rloc e (st\<lparr>pr_user := None\<rparr>)) }"

definition end_eid :: "cparser \<Rightarrow> cparser conf" where
  "end_eid st = do {
     st \<leftarrow> set_mapping_flags (pr_mapping st) st;
     Some (Inr (st\<lparr>pr_flags := zero_flags\<rparr>)) }"

definition mr_endElement :: "string \<Rightarrow> cparser \<Rightarrow> cparser conf" where
  "mr_endElement name st =
     (if one_of name [''ddt_node'', ''rloc''] then end_locator st
      else if one_of name [''eid_prefix'', ''eid''] then end_eid st
      else Some (Inr st))"

definition node_endElement :: "string \<Rightarrow> cparser \<Rightarrow> cparser conf" where
  "node_endElement name st =
     (if same_nocase name ''ddt_node'' then end_locator st
      else if same_nocase name ''delegated_eid_prefix'' then end_eid st
      else Some (Inr st))"

definition locator_text :: "conf_env \<Rightarrow> string \<Rightarrow> string \<Rightarrow> cparser \<Rightarrow> cparser conf" where
  "locator_text env name s st =
     (if one_of name [''priority'', ''weight'', ''reachable'', ''address''] then do {
        e \<leftarrow> pr_user st;
        let keep = (\<lambda>e. Some (Inr (st\<lparr>pr_user := Some e\<rparr>)));
        if same_nocase name ''priority'' then keep (e\<lparr>me_priority := of_int (atoi s)\<rparr>)
        else if same_nocase name ''weight'' then keep (e\<lparr>me_weight := of_int (atoi s)\<rparr>)
        else if same_nocase name ''reachable'' then keep (e\<lparr>me_r := of_bool (is_true s)\<rparr>)
        else (case text_address env (pr_fam st) s (me_rloc e) of
                None \<Rightarrow> Some (Inl 1)
              | Some a \<Rightarrow> Some (Inr (st\<lparr>pr_user := Some (e\<lparr>me_rloc := a\<rparr>), pr_fam := FAM_INET\<rparr>))) }
      else Some (Inr st))"

definition mr_getElementValue :: "conf_env \<Rightarrow> string \<Rightarrow> cparser \<Rightarrow> cparser conf" where
  "mr_getElementValue env s st = do { name \<leftarrow> pr_name st; named ''DUMMY'' (locator_text env name s st) }"

text \<open>A prefix the machine is responsible for gets a role; one that is refused is passed over.\<close>

definition range_text :: "conf_env \<Rightarrow> byte \<Rightarrow> string \<Rightarrow> cparser \<Rightarrow> cparser conf" where
  "range_text env role s st =
     (let (r, p) = read_prefix env s
      in if r = 0 then Some (Inl 1)
         else do {
           let p = apply_mask p;
           (ok, db) \<leftarrow> valid_prefix p role (pr_db st);
           if ok = 0 then Some (Inr (st\<lparr>pr_db := db\<rparr>))
           else do {
             T \<leftarrow> ms_get_db_table db p;
             (dn, T) \<leftarrow> db_node_get p T;
             T \<leftarrow> ms_node_update_type dn role T;
             Some (Inr (st\<lparr>pr_db := set_table (family p) T db\<rparr>)) } })"

definition node_getElementValue :: "conf_env \<Rightarrow> string \<Rightarrow> cparser \<Rightarrow> cparser conf" where
  "node_getElementValue env s st = do {
     name \<leftarrow> pr_name st;
     named ''DUMMY'' (if same_nocase name ''eid_prefix'' then range_text env ROLE_GREID s st
       else locator_text env name s st) }"

end
