(* ===== verification/Cp_Conf_Files.thy ===== *)
theory Cp_Conf_Files
  imports Cp_Conf_Xml
begin

text \<open>
  The handlers of the map server and of the RTR, and the reading of a file (\<open>parser.c\<close>). A file is the sequence of
  events that the XML library makes of it, with whether it came to its end without an error; there is none when the
  file does not exist.
\<close>

section \<open>Map server\<close>

text \<open>A site is reached by the cell of the list of sites.\<close>

definition site_data :: "site_info clist \<Rightarrow> nat \<Rightarrow> site_info option" where
  "site_data l r = do { e \<leftarrow> cells l (Ent r); e_data e }"

definition set_site :: "nat \<Rightarrow> site_info \<Rightarrow> site_info clist \<Rightarrow> site_info clist option" where
  "set_site r s l = do { e \<leftarrow> cells l (Ent r); Some (put_cell (Ent r) (e\<lparr>e_data := Some s\<rparr>) l) }"

definition ms_startElement :: "conf_env \<Rightarrow> string \<Rightarrow> string list \<Rightarrow> cparser \<Rightarrow> cparser conf" where
  "ms_startElement env name atts st = named name
     (if same_nocase name ''site'' then
        (if pr_site st \<noteq> None then Some (Inl 0)
         else do {
           (r, l) \<leftarrow> ms_new_site (pr_sites st);
           Some (Inr (st\<lparr>pr_sites := l, pr_site := Some r\<rparr>)) })
      else if one_of name [''delegated_eid_prefix'', ''eid''] then
        Some (if pr_site st = None \<or> pr_eid st \<noteq> None then Inl 0
              else Inr (st\<lparr>pr_flags := zero_flags\<lparr>mf_range := ROLE_EID, mf_rsvd := pr_site st\<rparr>\<rparr>))
      else if one_of name [''eid_prefix'', ''addr'', ''arrange''] then
        att_loop [family_else_att] atts (st\<lparr>pr_fam := FAM_INET\<rparr>)
      else Some (Inr st))"

definition ms_endElement :: "string \<Rightarrow> cparser \<Rightarrow> cparser conf" where
  "ms_endElement name st =
     (if same_nocase name ''site'' then Some (Inr (st\<lparr>pr_site := None\<rparr>))
      else if same_nocase name ''delegated_eid_prefix'' then do {
        st \<leftarrow> set_mapping_flags (pr_eid st) st;
        Some (Inr (st\<lparr>pr_flags := zero_flags, pr_eid := None\<rparr>)) }
      else Some (Inr st))"

text \<open>A text inside a site: what it sets of the site.\<close>

definition site_text :: "string \<Rightarrow> string \<Rightarrow> mapping_flags \<Rightarrow> site_info \<Rightarrow> site_info" where
  "site_text name s f si =
     (if same_nocase name ''name'' then si\<lparr>si_name := Some s\<rparr>
      else if same_nocase name ''key'' then si\<lparr>si_key := Some s\<rparr>
      else if same_nocase name ''contact'' then si\<lparr>si_contact := Some s\<rparr>
      else if same_nocase name ''active'' \<and> mf_range f = 0 then si\<lparr>si_active := of_bool (starts_nocase 3 s ''yes'')\<rparr>
      else si)"

text \<open>A delegated prefix: its node goes to the list of the site. What is no prefix is passed over.\<close>

definition delegate_text :: "conf_env \<Rightarrow> nat \<Rightarrow> string \<Rightarrow> cparser \<Rightarrow> cparser conf" where
  "delegate_text env r s st =
     (let (ret, p) = read_prefix env s
      in if ret \<noteq> 1 then Some (Inr st)
         else do {
           let p = apply_mask p;
           (ok, db) \<leftarrow> valid_prefix p ROLE_EID (pr_db st);
           if ok = 0 then Some (Inl 1)
           else do {
             T \<leftarrow> ms_get_db_table db p;
             (node, T) \<leftarrow> db_node_get p T;
             si \<leftarrow> site_data (pr_sites st) r;
             (_, l) \<leftarrow> list_insert None (Some (family p, node)) (si_eid si);
             sites \<leftarrow> set_site r (si\<lparr>si_eid := l\<rparr>) (pr_sites st);
             Some (Inr (st\<lparr>pr_db := set_table (family p) T db, pr_eid := Some (family p, node), pr_sites := sites\<rparr>)) } })"

definition ms_getElementValue :: "conf_env \<Rightarrow> string \<Rightarrow> cparser \<Rightarrow> cparser conf" where
  "ms_getElementValue env s st = do {
     name \<leftarrow> pr_name st;
     st \<leftarrow> (case pr_site st of
              None \<Rightarrow> Some st
            | Some r \<Rightarrow> do {
                si \<leftarrow> site_data (pr_sites st) r;
                sites \<leftarrow> set_site r (site_text name s (pr_flags st) si) (pr_sites st);
                Some (st\<lparr>pr_sites := sites\<rparr>) });
     x \<leftarrow> (case pr_site st of
              Some r \<Rightarrow> if same_nocase name ''delegated_eid_prefix'' then delegate_text env r s st else Some (Inr st)
            | None \<Rightarrow> Some (Inr st));
     case x of
       Inl c \<Rightarrow> Some (Inl c)
     | Inr st \<Rightarrow>
         (let st = (if pr_site st \<noteq> None \<and> pr_eid st \<noteq> None \<and> same_nocase name ''active'' \<and> mf_range (pr_flags st) \<noteq> 0
                    then st\<lparr>pr_flags := (pr_flags st)\<lparr>mf_active := of_bool (starts_nocase 3 s ''yes'')\<rparr>\<rparr> else st)
          in named ''DUMMY'' (if same_nocase name ''eid_prefix'' then range_text env ROLE_GEID s st else Some (Inr st))) }"

section \<open>RTR\<close>

text \<open>A new mapping gets the locators of the machine.\<close>

fun add_rlocs_all :: "map_entry list \<Rightarrow> cparser \<Rightarrow> cparser option" where
  "add_rlocs_all [] st = Some st"
| "add_rlocs_all (e # es) st = do { st \<leftarrow> add_rloc e st; add_rlocs_all es st }"

definition rtr_prefix :: "conf_env \<Rightarrow> string \<Rightarrow> cparser \<Rightarrow> cparser conf" where
  "rtr_prefix env v st = do {
     r \<leftarrow> new_mapping env ROLE_MAPP_XTR 1 ROLE_MAPP_XTR v st;
     case r of
       Inl c \<Rightarrow> Some (Inl c)
     | Inr st \<Rightarrow> do {
         m \<leftarrow> pr_mapping st;
         map_option Inr (add_rlocs_all (pr_rlocs st) (st\<lparr>pr_etr := pr_etr st @ [m]\<rparr>)) } }"

definition rtr_eid_atts :: "conf_env \<Rightarrow> cparser att_step list" where
  "rtr_eid_atts env =
     [family_att, Att (\<lambda>_. True) ''prefix'' (rtr_prefix env), act_att, a_att, version_att, ttl_att]"

text \<open>The loop over the attributes of a map resolver moves on only over the name of a family.\<close>

partial_function (option) rtr_family :: "string list \<Rightarrow> af \<Rightarrow> af option" where
  "rtr_family atts fam =
     (case atts of
        [] \<Rightarrow> Some fam
      | a # as \<Rightarrow>
          if same_nocase ''family'' a then (case as of [] \<Rightarrow> None | v # _ \<Rightarrow> rtr_family as (family_of v))
          else rtr_family atts fam)"

definition rtr_startElement :: "conf_env \<Rightarrow> string \<Rightarrow> string list \<Rightarrow> cparser \<Rightarrow> cparser conf" where
  "rtr_startElement env name atts st = named name
     (if same_nocase name ''eid'' then do {
        r \<leftarrow> att_loop (rtr_eid_atts env) atts (st\<lparr>pr_fam := FAM_INET\<rparr>);
        case r of
          Inl c \<Rightarrow> Some (Inl c)
        | Inr st \<Rightarrow> do {
            st \<leftarrow> set_mapping_flags (pr_mapping st) st;
            Some (Inr (st\<lparr>pr_flags := zero_flags, pr_mapping := None\<rparr>)) } }
      else if same_nocase name ''mr'' then do {
        fam \<leftarrow> rtr_family atts FAM_INET;
        Some (Inr (st\<lparr>pr_fam := fam\<rparr>)) }
      else Some (Inr st))"

definition rtr_endElement :: "string \<Rightarrow> cparser \<Rightarrow> cparser conf" where
  "rtr_endElement name st = Some (Inr st)"

text \<open>The port is stored in the byte order of the host.\<close>

definition rtr_getElementValue :: "conf_env \<Rightarrow> string \<Rightarrow> cparser \<Rightarrow> cparser conf" where
  "rtr_getElementValue env s st = do {
     name \<leftarrow> pr_name st;
     named ''DUMMY''
       (if same_nocase name ''mr'' then
          Some (case text_address env (pr_fam st) s (zero_sockunion\<lparr>su_port := htons LISP_CP_PORT\<rparr>) of
              None \<Rightarrow> Inl 1
            | Some a \<Rightarrow> Inr (st\<lparr>pr_mr := pr_mr st @ [a], pr_fam := FAM_INET\<rparr>))
        else Some (Inr st)) }"

section \<open>Files\<close>

record handlers =
  h_start :: "string \<Rightarrow> string list \<Rightarrow> cparser \<Rightarrow> cparser conf"
  h_end :: "string \<Rightarrow> cparser \<Rightarrow> cparser conf"
  h_text :: "string \<Rightarrow> cparser \<Rightarrow> cparser conf"

fun handle :: "handlers \<Rightarrow> xml_event \<Rightarrow> cparser \<Rightarrow> cparser conf" where
  "handle h (Start name atts) st = h_start h name atts st"
| "handle h (End name) st = h_end h name st"
| "handle h (Text s) st = h_text h s st"

fun xml_run :: "handlers \<Rightarrow> xml_event list \<Rightarrow> cparser \<Rightarrow> cparser conf" where
  "xml_run h [] st = Some (Inr st)"
| "xml_run h (e # es) st = do {
     r \<leftarrow> handle h e st;
     case r of Inl c \<Rightarrow> Some (Inl c) | Inr st \<Rightarrow> xml_run h es st }"

type_synonym xml_file = "(xml_event list \<times> bool) option"

definition xml_configure :: "handlers \<Rightarrow> xml_file \<Rightarrow> cparser \<Rightarrow> cparser conf" where
  "xml_configure h file st =
     (case file of
        None \<Rightarrow> Some (Inl 1)
      | Some (evs, ok) \<Rightarrow> do {
          r \<leftarrow> xml_run h evs (st\<lparr>pr_user := None\<rparr>);
          case r of Inl c \<Rightarrow> Some (Inl c) | Inr st \<Rightarrow> Some (if ok then Inr st else Inl 1) })"

definition xtr_handlers :: "conf_env \<Rightarrow> handlers" where
  "xtr_handlers env = \<lparr>h_start = xtr_startElement env, h_end = xtr_endElement, h_text = xtr_getElementValue env\<rparr>"
definition ms_handlers :: "conf_env \<Rightarrow> handlers" where
  "ms_handlers env = \<lparr>h_start = ms_startElement env, h_end = ms_endElement, h_text = ms_getElementValue env\<rparr>"
definition mr_handlers :: "conf_env \<Rightarrow> handlers" where
  "mr_handlers env = \<lparr>h_start = mr_startElement env, h_end = mr_endElement, h_text = mr_getElementValue env\<rparr>"
definition node_handlers :: "conf_env \<Rightarrow> handlers" where
  "node_handlers env = \<lparr>h_start = node_startElement env, h_end = node_endElement, h_text = node_getElementValue env\<rparr>"
definition rtr_handlers :: "conf_env \<Rightarrow> handlers" where
  "rtr_handlers env = \<lparr>h_start = rtr_startElement env, h_end = rtr_endElement, h_text = rtr_getElementValue env\<rparr>"

text \<open>The locators of the proxy ETRs; there is no list when none is configured.\<close>

definition petr_entry :: "sockunion \<Rightarrow> map_entry" where
  "petr_entry a = zero_entry\<lparr>me_priority := 1, me_weight := 100, me_r := 1, me_rloc := a\<rparr>"

definition petr_list :: "sockunion list \<Rightarrow> map_entry list option" where
  "petr_list as =
     (if as = [] then None else Some (foldl (\<lambda>l a. insert_ordered insert_ip_ordered (petr_entry a) l) [] as))"

definition xtr_parser_config :: "conf_env \<Rightarrow> xml_file \<Rightarrow> cparser \<Rightarrow> (cparser \<times> map_entry list option) conf" where
  "xtr_parser_config env file st = do {
     r \<leftarrow> xml_configure (xtr_handlers env) file (st\<lparr>pr_ms := [], pr_mr := [], pr_petr := []\<rparr>);
     Some (map_sum id (\<lambda>st. (st, petr_list (pr_petr st))) r) }"

definition ms_parser_config :: "conf_env \<Rightarrow> xml_file \<Rightarrow> cparser \<Rightarrow> cparser conf" where
  "ms_parser_config env = xml_configure (ms_handlers env)"
definition mr_parser_config :: "conf_env \<Rightarrow> xml_file \<Rightarrow> cparser \<Rightarrow> cparser conf" where
  "mr_parser_config env = xml_configure (mr_handlers env)"
definition node_parser_config :: "conf_env \<Rightarrow> xml_file \<Rightarrow> cparser \<Rightarrow> cparser conf" where
  "node_parser_config env = xml_configure (node_handlers env)"

text \<open>The locators of an RTR are its first two IPv4 addresses.\<close>

definition rtr_entry :: "byte list \<Rightarrow> map_entry" where
  "rtr_entry a = zero_entry\<lparr>me_rloc := set_sin_addr a (zero_sockunion\<lparr>su_family := FAM_INET\<rparr>), me_priority := 1,
     me_weight := 100, me_L := 1, me_r := 1\<rparr>"

definition rtr_parser_config :: "conf_env \<Rightarrow> byte list option \<times> byte list option \<Rightarrow> xml_file \<Rightarrow> cparser \<Rightarrow> cparser conf" where
  "rtr_parser_config env src file st =
     (let own = (\<lambda>a. case a of None \<Rightarrow> [] | Some a \<Rightarrow> [rtr_entry a])
      in xml_configure (rtr_handlers env) file (st\<lparr>pr_mr := [], pr_rlocs := own (fst src) @ own (snd src)\<rparr>))"

end
