(* ===== verification/Cp_Conf_Main.thy ===== *)
theory Cp_Conf_Main
  imports Cp_Conf_Files Cp_Opl_Lookup
begin

text \<open>
  The main configuration file (\<open>_parser_config\<close> of \<open>parser.c\<close>): lines of a key, an equals sign and values, and then the XML
  files of the functions that the process has. A line is what \<open>fgets\<close> returns, with its newline. The sockets,
  the resolver, the interfaces and the other files are arguments. What the last file has set stays when the
  configuration is read again, but for what is reset at the start.
\<close>

record main_conf =
  mc_debug :: int
  mc_fncs :: byte
  mc_te :: bool
  mc_rand :: bool
  mc_pool :: int
  mc_min :: int
  mc_max :: int
  mc_linger :: int
  mc_src4 :: "byte list option"
  mc_src6 :: "byte list option"
  mc_files :: "nat \<Rightarrow> string option"
  mc_petr :: "map_entry list option"

record main_env =
  cm_conf :: conf_env
  cm_socket :: "af \<Rightarrow> bool"
  cm_addrinfo :: "af \<Rightarrow> string \<Rightarrow> byte list option"
  cm_ifs :: "(sockunion option \<times> string option) list option"
  cm_readable :: "string \<Rightarrow> bool"
  cm_xml :: "string \<Rightarrow> xml_file"

section \<open>The address of the machine\<close>

text \<open>The first address of a family that is neither a loopback nor a link-local one; \<open>None\<close> is a result of \<open>-1\<close>.\<close>

fun first_addr :: "af \<Rightarrow> (sockunion option \<times> string option) list \<Rightarrow> byte list option" where
  "first_addr f [] = None"
| "first_addr f ((ifa, nm) # ifs) =
     (case (ifa, nm) of
        (Some a, Some buf) \<Rightarrow>
          if su_family a \<noteq> f \<or> loopback_name buf then first_addr f ifs
          else if f = FAM_INET then Some (sin_addr a)
          else if f = FAM_INET6 then Some (sin6_addr a)
          else first_addr f ifs
      | _ \<Rightarrow> first_addr f ifs)"

definition get_my_addr :: "main_env \<Rightarrow> af \<Rightarrow> byte list option" where
  "get_my_addr env f = (case cm_ifs env of None \<Rightarrow> None | Some ifs \<Rightarrow> first_addr f ifs)"

section \<open>Lines\<close>

definition line_sep :: "char \<Rightarrow> bool" where
  "line_sep c \<longleftrightarrow> c = CHR 0x09 \<or> c = CHR '' ''"

text \<open>The words of a line: \<open>None\<close> when it is skipped. The last character of the last word is cut off.\<close>

definition line_words :: "string \<Rightarrow> string list option conf" where
  "line_words buf =
     (if length buf < 2 \<or> hd buf = CHR ''#'' then Some (Inr None)
      else do {
        ts \<leftarrow> token_array line_sep buf;
        Some (if length ts < 3 \<or> \<not> same_nocase (ts ! 1) ''='' then Inl 1
              else Inr (Some (butlast ts @ [butlast (last ts)]))) })"

definition fnc_of :: "string \<Rightarrow> byte" where
  "fnc_of w =
     (if starts_nocase 3 w ''xtr'' then FNC_XTR else 0) OR (if starts_nocase 2 w ''ms'' then FNC_MS else 0) OR
     (if starts_nocase 2 w ''mr'' then FNC_MR else 0) OR
     (if starts_nocase 3 w ''ddt'' \<or> starts_nocase 4 w ''node'' then FNC_NODE else 0) OR
     (if starts_nocase 3 w ''rtr'' then FNC_RTR else 0)"

definition functions_line :: "string list \<Rightarrow> main_conf \<Rightarrow> int + main_conf" where
  "functions_line vals mc =
     (let fncs = foldr (\<lambda>w f. f OR fnc_of w) vals (mc_fncs mc)
      in if fncs mod 2 \<noteq> 0 \<and> 1 < fncs \<or> 16 < fncs then Inl 1 else Inr (mc\<lparr>mc_fncs := fncs\<rparr>))"

definition or_default :: "int \<Rightarrow> string \<Rightarrow> int" where
  "or_default d v = (if same_nocase v ''default'' then d else atoi v)"

text \<open>The source address: the status of the exit is 0.\<close>

definition source_line ::
  "main_env \<Rightarrow> af \<Rightarrow> (byte list \<Rightarrow> main_conf \<Rightarrow> main_conf) \<Rightarrow> string \<Rightarrow> main_conf \<Rightarrow> int + main_conf" where
  "source_line env f upd v mc =
     (if \<not> same_nocase v ''auto'' then
        (if \<not> cm_socket env f then Inl 0
         else case cm_addrinfo env f v of None \<Rightarrow> Inl 0 | Some a \<Rightarrow> Inr (upd a mc))
      else Inr (case get_my_addr env f of None \<Rightarrow> mc | Some a \<Rightarrow> upd a mc))"

definition file_line :: "main_env \<Rightarrow> byte \<Rightarrow> nat \<Rightarrow> string \<Rightarrow> main_conf \<Rightarrow> int + main_conf" where
  "file_line env fnc i v mc =
     (if mc_fncs mc AND fnc = 0 then Inr mc
      else if cm_readable env v then Inr (mc\<lparr>mc_files := (mc_files mc)(i := Some v)\<rparr>)
      else Inl 1)"

definition key_line :: "main_env \<Rightarrow> string \<Rightarrow> string list \<Rightarrow> main_conf \<Rightarrow> int + main_conf" where
  "key_line env key vals mc =
     (let v = hd vals
      in if same_nocase key ''debug_level'' then Inr (mc\<lparr>mc_debug := or_default 1 v\<rparr>)
         else if same_nocase key ''functions'' then functions_line vals mc
         else if same_nocase key ''source_ipv4'' then source_line env FAM_INET (\<lambda>a mc. mc\<lparr>mc_src4 := Some a\<rparr>) v mc
         else if same_nocase key ''source_ipv6'' then source_line env FAM_INET6 (\<lambda>a mc. mc\<lparr>mc_src6 := Some a\<rparr>) v mc
         else if same_nocase key ''srcport_rand'' then Inr (mc\<lparr>mc_rand := starts_nocase 3 v ''yes''\<rparr>)
         else if same_nocase key ''lisp_te'' then Inr (mc\<lparr>mc_te := mc_te mc \<or> starts_nocase 3 v ''yes''\<rparr>)
         else if same_nocase key ''queue_size'' then Inr (mc\<lparr>mc_pool := or_default 1000 v\<rparr>)
         else if same_nocase key ''min_thread'' then Inr (mc\<lparr>mc_min := or_default 1 v\<rparr>)
         else if same_nocase key ''max_thread'' then Inr (mc\<lparr>mc_max := or_default 2 v\<rparr>)
         else if same_nocase key ''linger_thread'' then Inr (mc\<lparr>mc_linger := or_default 10 v\<rparr>)
         else if same_nocase key ''xtr_configure'' then file_line env FNC_XTR 1 v mc
         else if same_nocase key ''ms_configure'' then file_line env FNC_MS 2 v mc
         else if same_nocase key ''mr_configure'' then file_line env FNC_MR 3 v mc
         else if same_nocase key ''rtr_configure'' then file_line env FNC_RTR 4 v mc
         else if same_nocase key ''node_configure'' then file_line env FNC_NODE 5 v mc
         else Inr mc)"

text \<open>The numbers of threads are compared at every line that is not skipped.\<close>

definition conf_line :: "main_env \<Rightarrow> string \<Rightarrow> main_conf \<Rightarrow> main_conf conf" where
  "conf_line env buf mc = do {
     ws \<leftarrow> line_words buf;
     Some (case ws of
         Inl c \<Rightarrow> Inl c
       | Inr None \<Rightarrow> Inr mc
       | Inr (Some ws) \<Rightarrow>
           (case key_line env (hd ws) (drop 2 ws) mc of
              Inl c \<Rightarrow> Inl c
            | Inr mc \<Rightarrow> if mc_min mc \<noteq> 0 \<and> mc_max mc \<noteq> 0 \<and> mc_max mc < mc_min mc then Inl 1 else Inr mc)) }"

fun conf_lines :: "main_env \<Rightarrow> string list \<Rightarrow> main_conf \<Rightarrow> main_conf conf" where
  "conf_lines env [] mc = Some (Inr mc)"
| "conf_lines env (l # ls) mc = do {
     r \<leftarrow> conf_line env l mc;
     case r of Inl c \<Rightarrow> Some (Inl c) | Inr mc \<Rightarrow> conf_lines env ls mc }"

section \<open>Reading the configuration\<close>

definition conf_reset :: "main_conf \<Rightarrow> main_conf" where
  "conf_reset mc = mc\<lparr>mc_files := Map.empty, mc_src4 := None, mc_src6 := None, mc_min := 0, mc_max := 0, mc_pool := 0, mc_linger := 0\<rparr>"

text \<open>The file of a function, when the process has the function and a file for it.\<close>

definition conf_file ::
  "main_env \<Rightarrow> byte \<Rightarrow> nat \<Rightarrow> (xml_file \<Rightarrow> cparser \<Rightarrow> cparser conf) \<Rightarrow> main_conf \<Rightarrow> cparser \<Rightarrow> cparser conf" where
  "conf_file env fnc i f mc st =
     (case mc_files mc i of
        Some name \<Rightarrow> if mc_fncs mc AND fnc \<noteq> 0 then f (cm_xml env name) st else Some (Inr st)
      | None \<Rightarrow> Some (Inr st))"

definition conf_bind :: "'a conf \<Rightarrow> ('a \<Rightarrow> 'b conf) \<Rightarrow> 'b conf" where
  "conf_bind r f = do { x \<leftarrow> r; case x of Inl c \<Rightarrow> Some (Inl c) | Inr y \<Rightarrow> f y }"

text \<open>The xTR file also sets the proxy ETRs. Only the first source address of the RTR is ever set.\<close>

definition xtr_file :: "main_env \<Rightarrow> main_conf \<Rightarrow> cparser \<Rightarrow> (main_conf \<times> cparser) conf" where
  "xtr_file env mc st =
     (case mc_files mc 1 of
        Some name \<Rightarrow>
          if mc_fncs mc AND FNC_XTR \<noteq> 0 then
            map_option (map_sum id (\<lambda>(st, petr). (mc\<lparr>mc_petr := petr\<rparr>, st))) (xtr_parser_config (cm_conf env) (cm_xml env name) st)
          else Some (Inr (mc, st))
      | None \<Rightarrow> Some (Inr (mc, st)))"

definition parser_config :: "main_env \<Rightarrow> string list option \<Rightarrow> main_conf \<Rightarrow> cparser \<Rightarrow> (main_conf \<times> cparser) conf" where
  "parser_config env config mc st =
     (case config of
        None \<Rightarrow> Some (Inl 1)
      | Some ls \<Rightarrow>
          conf_bind (conf_lines env ls (conf_reset mc)) (\<lambda>mc.
          conf_bind (xtr_file env mc st) (\<lambda>(mc, st).
          conf_bind (conf_file env FNC_MS 2 (ms_parser_config (cm_conf env)) mc st) (\<lambda>st.
          conf_bind (conf_file env FNC_MR 3 (mr_parser_config (cm_conf env)) mc st) (\<lambda>st.
          conf_bind (conf_file env FNC_RTR 4 (rtr_parser_config (cm_conf env) (mc_src4 mc, None)) mc st) (\<lambda>st.
          conf_bind (conf_file env FNC_NODE 5 (node_parser_config (cm_conf env)) mc st) (\<lambda>st.
          Some (Inr (mc, st)))))))))"

end
