(* ===== verification/Cp_Conf_Type.thy ===== *)
theory Cp_Conf_Type
  imports Cp_Conf_Main Cp_Record_Trip
begin

text \<open>
  The configuration reader keeps its state in order: both databases stay radix trees of their own family, every
  node that the reader or a list of its state points to is in its tree, the family that is set is one of the two,
  the map server and the site at hand exist. This is shown of every handler, and so of every file.
\<close>

section \<open>Tables and the nodes kept of them\<close>

definition table_with :: "af \<Rightarrow> ref set \<Rightarrow> db_nodes \<Rightarrow> bool" where
  "table_with f R T \<longleftrightarrow> (\<exists>t. table_at T t \<and> all_family f t \<and> R \<subseteq> set (refs t))"

definition db_typed :: "(af \<times> ref) set \<Rightarrow> map_entry list lisp_db \<Rightarrow> bool" where
  "db_typed R db \<longleftrightarrow> fst ` R \<subseteq> {FAM_INET, FAM_INET6} \<and>
     table_with FAM_INET {a. (FAM_INET, a) \<in> R} (lisp_db4 db) \<and> table_with FAM_INET6 {a. (FAM_INET6, a) \<in> R} (lisp_db6 db)"

lemma table_with_mono: "table_with f R T \<Longrightarrow> R' \<subseteq> R \<Longrightarrow> table_with f R' T"
  unfolding table_with_def by blast

lemma db_typed_mono: "db_typed R db \<Longrightarrow> R' \<subseteq> R \<Longrightarrow> db_typed R' db"
  unfolding db_typed_def by (fastforce intro: table_with_mono)

lemma db_typed_table: "db_typed R db \<Longrightarrow> db_table_of f db = Some T \<Longrightarrow> table_with f {a. (f, a) \<in> R} T \<and> f \<in> {FAM_INET, FAM_INET6}"
  by (auto simp: db_typed_def db_table_of_def split: af.splits)

lemma db_typed_set:
  assumes "db_typed R db" and "table_with f {a. (f, a) \<in> R'} T" and "R \<subseteq> R'" and "R' \<subseteq> R \<union> {f} \<times> UNIV" and "f \<in> {FAM_INET, FAM_INET6}"
  shows "db_typed R' (set_table f T db)"
proof -
  have "{a. (g, a) \<in> R'} = {a. (g, a) \<in> R}" if "g \<noteq> f" for g using that assms(3,4) by blast
  moreover have "fst ` R' \<subseteq> {FAM_INET, FAM_INET6}" using assms(1,4,5) by (fastforce simp: db_typed_def)
  ultimately show ?thesis using assms(1,2,5) by (auto simp: db_typed_def set_table_def)
qed

lemma ms_get_table_of: "ms_get_db_table db p = db_table_of (family p) db"
  by (simp add: ms_get_db_table_def db_table_of_def split: af.splits)

text \<open>The operations on a table keep it.\<close>

lemma table_with_lock:
  assumes "table_with f R T" and "lock_matched m T = Some (x, T')"
  shows "table_with f R T'" and "x = m" and "\<And>a. x = Some a \<Longrightarrow> heap T' a \<noteq> None"
proof -
  from assms(1) obtain t where t: "table_at T t" "all_family f t" "R \<subseteq> set (refs t)" unfolding table_with_def by blast
  show "table_with f R T'"
  proof (cases m)
    case None
    then show ?thesis using assms by (simp add: lock_matched_def)
  next
    case (Some a)
    then obtain n where "heap T a = Some n" "T' = put a (n\<lparr>lock_ct := lock_ct n + 1\<rparr>) T"
      using assms(2) by (auto simp: lock_matched_def db_lock_node_def bind_eq_Some_conv)
    then have "table_at T' (bump a t)" using t(1) tree_at_bump by (auto simp: table_at_def put_def)
    then show ?thesis using t(2,3) by (auto simp: table_with_def all_family_def intro!: exI [of _ "bump a t"])
  qed
  show "x = m" "\<And>a. x = Some a \<Longrightarrow> heap T' a \<noteq> None"
    using assms(2) by (auto simp: lock_matched_def db_lock_node_def put_def bind_eq_Some_conv split: option.splits)
qed

lemma table_with_match: "table_with f R T \<Longrightarrow> db_node_match_prefix p T = Some (x, T') \<Longrightarrow> table_with f R T'"
  by (auto simp: db_node_match_prefix_def bind_eq_Some_conv intro: table_with_lock(1))

lemma table_with_get:
  assumes "table_with (family p) R T" and "wf_fam p" and "db_node_get p T = Some (a, T')"
  shows "table_with (family p) (insert a R) T'"
proof -
  from assms(1) obtain t where t: "table_at T t" "all_family (family p) t" "R \<subseteq> set (refs t)" unfolding table_with_def by blast
  from db_node_get_ok [OF t(1,2) assms(2)] obtain b S t' q i where
    "db_node_get p T = Some (b, S)" "table_at S t'" "all_family (family p) t'" "(b, q, i) \<in> set (nodes t')"
    "set (nodes t) \<subseteq> set (nodes t')" by (elim exE conjE)
  then have g: "table_at T' t'" "all_family (family p) t'" "(a, q, i) \<in> set (nodes t')" "set (nodes t) \<subseteq> set (nodes t')"
    using assms(3) by simp_all
  have "a \<in> set (refs t')" "set (refs t) \<subseteq> set (refs t')"
    using g(3) image_mono [OF g(4), of fst] by (force simp: refs_nodes, simp add: refs_nodes)
  then show ?thesis using t(3) g(1,2) unfolding table_with_def by blast
qed

lemma table_with_put:
  assumes "table_with f R T" and "heap T a = Some n"
  shows "table_with f R (put a (n\<lparr>flags := g\<rparr>) T)" and "table_with f R (put a (n\<lparr>info := d\<rparr>) T)"
proof -
  from assms(1) obtain t where t: "table_at T t" "all_family f t" "R \<subseteq> set (refs t)" unfolding table_with_def by blast
  show "table_with f R (put a (n\<lparr>flags := g\<rparr>) T)"
    using table_at_flags [OF t(1) assms(2)] t(2,3) unfolding table_with_def by blast
  have "table_at (put a (n\<lparr>info := d\<rparr>) T) (set_data a d t)" by (rule table_at_set_info [OF t(1) assms(2)])
  then show "table_with f R (put a (n\<lparr>info := d\<rparr>) T)"
    using t(2,3) by (auto simp: table_with_def intro!: exI [of _ "set_data a d t"])
qed

lemma table_with_ops:
  assumes "table_with f R T"
  shows "generic_mapping_set_flags a mf T = Some T' \<Longrightarrow> table_with f R T'"
    and "generic_mapping_add_rloc a e T = Some T' \<Longrightarrow> table_with f R T'"
    and "ms_node_update_type a b T = Some T' \<Longrightarrow> table_with f R T'"
    and "db_node_set_info (Some a) i T = Some (j, T') \<Longrightarrow> table_with f R T'"
  using assms table_with_put
  by (auto simp: generic_mapping_set_flags_def generic_mapping_add_rloc_def ms_node_update_type_def db_node_set_info_def
      bind_eq_Some_conv split: option.splits prod.splits)

section \<open>Prefixes that are read\<close>

text \<open>What the functions of the C library answer, and the size of the prefix on the stack.\<close>

definition env_typed :: "conf_env \<Rightarrow> bool" where
  "env_typed env \<longleftrightarrow> (\<forall>s a. ce_aton env s = Some a \<longrightarrow> length a = 4) \<and>
     (\<forall>s a. ce_pton env FAM_INET6 s = Some a \<longrightarrow> length a = 16) \<and> length (addr (ce_junk env)) = 16"

lemma set_prefix4_length: "length a = 4 \<Longrightarrow> length (addr p) = 16 \<Longrightarrow> length (addr (set_prefix4 a p)) = 16"
  by (simp add: set_prefix4_def)

lemma read_prefix_typed:
  assumes "env_typed env" and "read_prefix env s = (r, p)" and "r \<noteq> 0"
  shows "r = 1" and "wf_fam p"
proof -
  have e: "\<And>s a. ce_aton env s = Some a \<Longrightarrow> length a = 4" "\<And>s a. ce_pton env FAM_INET6 s = Some a \<Longrightarrow> length a = 16"
    "length (addr (ce_junk env)) = 16" using assms(1) by (auto simp: env_typed_def)
  have l: "\<not> 32 < x \<Longrightarrow> unat x \<le> 32 \<and> unat x \<le> 128" "\<not> 128 < x \<Longrightarrow> unat x \<le> 128" for x :: byte
    by (simp_all add: word_less_nat_alt)
  have 4: "ret = 1 \<and> wf_fam p" if "str2prefix_ipv4 (ce_aton env) s (ce_junk env) = (ret, p)" "ret \<noteq> 0" for ret p
    using that e(1,3) l(1)
    by (auto simp: str2prefix_ipv4_def Let_def wf_fam_def wf_cp_def plen_def set_prefix4_def split: if_splits option.splits)
  have 6: "ret = 1 \<and> wf_fam p" if "str2prefix_ipv6 (ce_pton env FAM_INET6) s q = (ret, p)" "ret \<noteq> 0" for ret p q
    using that e(2) l(2)
    by (auto simp: str2prefix_ipv6_def Let_def wf_fam_def wf_cp_def plen_def split: if_splits option.splits)
  show "r = 1" "wf_fam p"
    using assms(2,3) 4 6 by (auto simp: read_prefix_def str2prefix_def Let_def split: prod.splits if_splits)
qed

lemma apply_mask_typed: "wf_fam p \<Longrightarrow> wf_fam (apply_mask p) \<and> family (apply_mask p) = family p"
  using apply_mask_n_bits(2-4) [of p 4] apply_mask_n_bits(2-4) [of p 16]
  by (auto simp: apply_mask_def apply_mask_ipv4_def apply_mask_ipv6_def wf_fam_def wf_cp_def plen_def)

lemma valid_prefix_typed:
  assumes "valid_prefix p type db = Some (ok, db')" and "db_typed R db"
  shows "db_typed R db'"
proof -
  obtain T rn T' where m: "ms_get_db_table db p = Some T" "db_node_match_prefix p T = Some (rn, T')"
      "db' = set_table (family p) T' db"
    using assms(1) unfolding valid_prefix_def bind_eq_Some_conv
    by (elim exE conjE, simp only: split_paired_all case_prod_conv bind_eq_Some_conv, elim exE conjE)
      (auto simp: Let_def bind_eq_Some_conv split: option.splits if_splits)
  then have t: "table_with (family p) {a. (family p, a) \<in> R} T" "family p \<in> {FAM_INET, FAM_INET6}"
    using db_typed_table [OF assms(2)] by (simp_all add: ms_get_table_of)
  show ?thesis unfolding m(3)
    by (rule db_typed_set [OF assms(2) table_with_match [OF t(1) m(2)] _ _ t(2)]) auto
qed

end
