(* ===== verification/Cp_Conf_Inv.thy ===== *)
theory Cp_Conf_Inv
  imports Cp_Conf_Type
begin

text \<open>
  The invariant of the configuration reader, and that every handler of its files keeps it. What a handler writes is one
  of a few changes; each has a lemma, and the attributes are taken care of once for all lists of tests.
\<close>

section \<open>The invariant\<close>

definition cell_data :: "'d clist \<Rightarrow> nat \<Rightarrow> 'd option" where
  "cell_data l k = Option.bind (cells l (Ent k)) e_data"

text \<open>The nodes that the sites list, and all that the reader points to.\<close>

definition site_refs :: "site_info clist \<Rightarrow> (af \<times> ref) set" where
  "site_refs l = {d. \<exists>r si k. cell_data l r = Some si \<and> cell_data (si_eid si) k = Some d}"

definition conf_refs :: "cparser \<Rightarrow> (af \<times> ref) set" where
  "conf_refs st = set (pr_etr st) \<union> (\<Union>m\<in>set (pr_ms st). set (mse_eids m)) \<union> set_option (pr_mapping st) \<union>
     set_option (pr_eid st) \<union> site_refs (pr_sites st)"

definition conf_typed :: "cparser \<Rightarrow> bool" where
  "conf_typed st \<longleftrightarrow> db_typed (conf_refs st) (pr_db st) \<and> pr_fam st \<in> {FAM_INET, FAM_INET6} \<and>
     (\<forall>i. pr_ms_cur st = Some i \<longrightarrow> i < length (pr_ms st)) \<and>
     (\<forall>r. pr_site st = Some r \<longrightarrow> (\<exists>si. site_data (pr_sites st) r = Some si))"

lemma site_data_cell: "site_data l r = cell_data l r"
  by (simp add: site_data_def cell_data_def)

lemma set_cell_data:
  "set_next a x l = Some l' \<Longrightarrow> cell_data l' k = cell_data l k"
  "set_prev a x l = Some l' \<Longrightarrow> cell_data l' k = cell_data l k"
  by (auto simp: set_next_def set_prev_def cell_data_def put_cell_def bind_eq_Some_conv)

lemma list_insert_data:
  assumes "list_insert None d l = Some (r, l')"
  shows "cell_data l' k = (if k = r then d else cell_data l k)"
proof -
  obtain p l1 l2 where "set_next p (Some (Ent r)) (put_cell (Ent r) \<lparr>e_data = d, e_prev = p, e_next = Some Tail\<rparr>
      (l\<lparr>fresh_cell := Suc r\<rparr>)) = Some l1" "set_prev (Some Tail) (Some (Ent r)) l1 = Some l2" "l' = l2\<lparr>l_count := l_count l2 + 1\<rparr>"
    using assms by (auto simp: list_insert_def bind_eq_Some_conv Let_def)
  from set_cell_data(1) [OF this(1), of k] set_cell_data(2) [OF this(2), of k] this(3)
  show ?thesis by (auto simp: cell_data_def put_cell_def)
qed

lemma new_site_typed:
  assumes "ms_new_site l = Some (r, l')"
  shows "site_refs l' \<subseteq> site_refs l" and "\<exists>si. site_data l' r = Some si"
proof -
  have "cell_data l' k = (if k = r then Some ms_new_site_info else cell_data l k)" for k
    using assms list_insert_data unfolding ms_new_site_def by blast
  moreover have "cell_data (si_eid ms_new_site_info) k = None" for k
    by (simp add: ms_new_site_info_def cell_data_def list_init_def)
  ultimately show "site_refs l' \<subseteq> site_refs l" "\<exists>si. site_data l' r = Some si"
    by (auto simp: site_refs_def site_data_cell split: if_splits)
qed

lemma set_site_typed:
  assumes "set_site r si l = Some l'"
  shows "site_refs l' \<subseteq> site_refs l \<union> {d. \<exists>k. cell_data (si_eid si) k = Some d}"
    and "site_data l' x = (if x = r then Some si else site_data l x)"
proof -
  have c: "cell_data l' k = (if k = r then Some si else cell_data l k)" for k
    using assms by (auto simp: set_site_def cell_data_def put_cell_def bind_eq_Some_conv)
  then show "site_data l' x = (if x = r then Some si else site_data l x)" by (simp add: site_data_cell)
  from c show "site_refs l' \<subseteq> site_refs l \<union> {d. \<exists>k. cell_data (si_eid si) k = Some d}"
    by (fastforce simp: site_refs_def split: if_splits)
qed

section \<open>Changes\<close>

text \<open>Fields the invariant does not look at, and the family.\<close>

lemma conf_typed_fields [simp]:
  "conf_typed (st\<lparr>pr_flags := fl\<rparr>) = conf_typed st" "conf_typed (st\<lparr>pr_name := n\<rparr>) = conf_typed st"
  "conf_typed (st\<lparr>pr_msids := ids\<rparr>) = conf_typed st" "conf_typed (st\<lparr>pr_user := u\<rparr>) = conf_typed st"
  "conf_typed (st\<lparr>pr_pe := pe\<rparr>) = conf_typed st" "conf_typed (st\<lparr>pr_hop := h\<rparr>) = conf_typed st"
  "conf_typed (st\<lparr>pr_mr := mr\<rparr>) = conf_typed st" "conf_typed (st\<lparr>pr_petr := petr\<rparr>) = conf_typed st"
  "conf_typed (st\<lparr>pr_rlocs := rl\<rparr>) = conf_typed st"
  by (simp_all add: conf_typed_def conf_refs_def)

lemma conf_typed_fam [simp]:
  "conf_typed st \<Longrightarrow> conf_typed (st\<lparr>pr_fam := FAM_INET\<rparr>)" "conf_typed st \<Longrightarrow> conf_typed (st\<lparr>pr_fam := family_of v\<rparr>)"
  by (auto simp: conf_typed_def conf_refs_def family_of_def)

text \<open>Nodes that are forgotten, and nodes that are listed a second time.\<close>

lemma conf_typed_less:
  assumes "conf_typed st" and "conf_refs st' \<subseteq> conf_refs st" and "pr_db st' = pr_db st" and "pr_fam st' = pr_fam st"
    and "\<And>i. pr_ms_cur st' = Some i \<Longrightarrow> i < length (pr_ms st')"
    and "\<And>r. pr_site st' = Some r \<Longrightarrow> \<exists>si. site_data (pr_sites st') r = Some si"
  shows "conf_typed st'"
  using assms db_typed_mono unfolding conf_typed_def by auto

lemma conf_typed_drop [simp]:
  assumes "conf_typed st"
  shows "conf_typed (st\<lparr>pr_mapping := None\<rparr>)" and "conf_typed (st\<lparr>pr_eid := None\<rparr>)" and "conf_typed (st\<lparr>pr_ms_cur := None\<rparr>)"
    and "conf_typed (st\<lparr>pr_site := None\<rparr>)"
proof -
  have m: "\<And>i. pr_ms_cur st = Some i \<Longrightarrow> i < length (pr_ms st)"
    "\<And>r. pr_site st = Some r \<Longrightarrow> \<exists>si. site_data (pr_sites st) r = Some si" using assms by (auto simp: conf_typed_def)
  show "conf_typed (st\<lparr>pr_mapping := None\<rparr>)" "conf_typed (st\<lparr>pr_eid := None\<rparr>)" "conf_typed (st\<lparr>pr_ms_cur := None\<rparr>)"
    "conf_typed (st\<lparr>pr_site := None\<rparr>)"
    using m by (auto intro!: conf_typed_less [OF assms] simp: conf_refs_def)
qed

lemma conf_typed_no_ms: "conf_typed st \<Longrightarrow> pr_ms_cur st = None \<Longrightarrow> conf_typed (st\<lparr>pr_ms := []\<rparr>)"
  by (rule conf_typed_less [where st = st]) (auto simp: conf_typed_def conf_refs_def)

lemma conf_typed_etr: "conf_typed st \<Longrightarrow> pr_mapping st = Some m \<Longrightarrow> conf_typed (st\<lparr>pr_etr := pr_etr st @ [m]\<rparr>)"
  by (rule conf_typed_less [where st = st]) (auto simp: conf_typed_def conf_refs_def)

lemma conf_typed_ms:
  assumes "conf_typed st" and "pr_mapping st = Some m" and "length (pr_ms st) \<le> length ms"
    and "\<And>x. x \<in> set ms \<Longrightarrow> set (mse_eids x) \<subseteq> insert m (\<Union>y\<in>set (pr_ms st). set (mse_eids y))"
  shows "conf_typed (st\<lparr>pr_ms := ms\<rparr>)"
  using assms by (intro conf_typed_less [OF assms(1)]) (fastforce simp: conf_typed_def conf_refs_def)+

lemma conf_typed_ms_same:
  assumes "conf_typed st" and "length (pr_ms st) \<le> length ms"
    and "\<And>x. x \<in> set ms \<Longrightarrow> set (mse_eids x) \<subseteq> (\<Union>y\<in>set (pr_ms st). set (mse_eids y))"
  shows "conf_typed (st\<lparr>pr_ms := ms\<rparr>)"
  using assms by (intro conf_typed_less [OF assms(1)]) (fastforce simp: conf_typed_def conf_refs_def)+

text \<open>The databases.\<close>

lemma conf_typed_db: "conf_typed st \<Longrightarrow> db_typed (conf_refs st) db \<Longrightarrow> conf_typed (st\<lparr>pr_db := db\<rparr>)"
  by (simp add: conf_typed_def conf_refs_def)

lemma on_node_typed:
  assumes "conf_typed st" and "on_node f m st = Some st'"
    and "\<And>g R a T T'. table_with g R T \<Longrightarrow> f a T = Some T' \<Longrightarrow> table_with g R T'"
  shows "conf_typed st'"
proof -
  obtain g a T T' where o: "db_table_of g (pr_db st) = Some T" "f a T = Some T'" "st' = st\<lparr>pr_db := set_table g T' (pr_db st)\<rparr>"
    using assms(2) by (auto simp: on_node_def bind_eq_Some_conv)
  have d: "db_typed (conf_refs st) (pr_db st)" using assms(1) by (simp add: conf_typed_def)
  from db_typed_table [OF this o(1)] have t: "table_with g {a. (g, a) \<in> conf_refs st} T'" "g \<in> {FAM_INET, FAM_INET6}"
    using assms(3) o(2) by blast+
  show ?thesis unfolding o(3)
    by (intro conf_typed_db [OF assms(1)] db_typed_set [OF d t(1) _ _ t(2)]) auto
qed

lemma add_rloc_typed: "conf_typed st \<Longrightarrow> add_rloc e st = Some st' \<Longrightarrow> conf_typed st'"
  unfolding add_rloc_def by (rule on_node_typed) (auto intro: table_with_ops(2))

lemma set_flags_typed: "conf_typed st \<Longrightarrow> set_mapping_flags m st = Some st' \<Longrightarrow> conf_typed st'"
  unfolding set_mapping_flags_def by (rule on_node_typed) (auto intro: table_with_ops(1))

text \<open>A node for a prefix, with what is then written to it.\<close>

lemma get_node_typed:
  assumes "db_typed R db" and "wf_fam p" and "ms_get_db_table db p = Some T" and "db_node_get p T = Some (a, T')"
    and "\<And>Q. table_with (family p) Q T' \<Longrightarrow> table_with (family p) Q T''"
  shows "db_typed (insert (family p, a) R) (set_table (family p) T'' db)"
proof -
  from db_typed_table [OF assms(1)] assms(3) have t: "table_with (family p) {b. (family p, b) \<in> R} T" "family p \<in> {FAM_INET, FAM_INET6}"
    by (simp_all add: ms_get_table_of)
  have "table_with (family p) (insert a {b. (family p, b) \<in> R}) T''"
    by (rule assms(5) [OF table_with_get [OF t(1) assms(2,4)]])
  then have "table_with (family p) {b. (family p, b) \<in> insert (family p, a) R} T''"
    by (rule table_with_mono) auto
  then show ?thesis by (rule db_typed_set [OF assms(1) _ _ _ t(2)]) auto
qed

lemma mapping_typed:
  assumes "db_typed R db" and "wf_fam p" and "generic_mapping_new p db = Some (a, db')"
  shows "db_typed (insert (family p, a) R) db'"
proof -
  obtain T T1 x T2 where g: "ms_get_db_table db p = Some T" "db_node_get p T = Some (a, T1)"
      "db_node_set_info (Some a) (Some []) T1 = Some (x, T2)" "db' = set_table (family p) T2 db"
    using assms(3) by (auto simp: generic_mapping_new_def bind_eq_Some_conv)
  show ?thesis unfolding g(4)
    by (rule get_node_typed [OF assms(1,2) g(1,2)]) (rule table_with_ops(4) [OF _ g(3)])
qed

lemma new_mapping_typed:
  assumes "env_typed env" and "conf_typed st" and "new_mapping env ty c role v st = Some (Inr st')"
  shows "conf_typed st'"
proof -
  obtain r p where r: "read_prefix env v = (r, p)" by (cases "read_prefix env v")
  obtain ok db rn db' where n: "r > 0" "valid_prefix (apply_mask p) ty (pr_db st) = Some (ok, db)"
      "generic_mapping_new (apply_mask p) db = Some (rn, db')"
      "st' = st\<lparr>pr_db := db', pr_mapping := Some (family (apply_mask p), rn), pr_flags := zero_flags\<lparr>mf_range := role\<rparr>\<rparr>"
    using assms(3) r by (auto simp: new_mapping_def Let_def bind_eq_Some_conv split: if_splits)
  have p: "wf_fam (apply_mask p)"
    using read_prefix_typed(2) [OF assms(1) r] n(1) apply_mask_typed by auto
  have "db_typed (conf_refs st) (pr_db st)" using assms(2) by (simp add: conf_typed_def)
  from mapping_typed [OF valid_prefix_typed [OF n(2) this] p n(3)]
  have "db_typed (conf_refs st') db'" by (rule db_typed_mono) (auto simp: n(4) conf_refs_def)
  then show ?thesis using assms(2) by (simp add: n(4) conf_typed_def)
qed

section \<open>Attributes\<close>

fun att_keeps :: "('s \<Rightarrow> bool) \<Rightarrow> 's att_step \<Rightarrow> bool" where
  "att_keeps P (Att g name f) \<longleftrightarrow> (\<forall>v st st'. P st \<longrightarrow> f v st = Some (Inr st') \<longrightarrow> P st')"
| "att_keeps P (AttElse name f g) \<longleftrightarrow> (\<forall>v st. P st \<longrightarrow> P (f v st) \<and> P (g st))"
| "att_keeps P (Always g) \<longleftrightarrow> (\<forall>st. P st \<longrightarrow> P (g st))"

lemma att_steps_keeps:
  "\<forall>s\<in>set ss. att_keeps P s \<Longrightarrow> P st \<Longrightarrow> att_steps ss atts st = Some (Inr (atts', st')) \<Longrightarrow> P st'"
  by (induction ss atts st rule: att_steps.induct) (auto split: if_splits list.splits option.splits sum.splits)

lemma att_loop_keeps:
  "\<forall>s\<in>set ss. att_keeps P s \<Longrightarrow> P st \<Longrightarrow> att_loop ss atts st = Some (Inr st') \<Longrightarrow> P st'"
proof (induction ss atts st rule: att_loop.induct)
  case (1 ss atts st)
  show ?case
  proof (cases "atts = []")
    case True
    then show ?thesis using "1.prems" by (simp add: att_loop.simps)
  next
    case False
    then obtain atts1 st1 where s: "att_steps ss atts st = Some (Inr (atts1, st1))" "att_loop ss (tl atts1) st1 = Some (Inr st')"
      using "1.prems"(3) by (subst (asm) att_loop.simps) (auto split: option.splits sum.splits)
    have "P st1" using att_steps_keeps [OF "1.prems"(1,2) s(1)] .
    with "1.IH" [OF False s(1) refl refl] "1.prems"(1) s(2) show ?thesis by blast
  qed
qed

end
