(* ===== verification/Cp_Conf_Sound.thy ===== *)
theory Cp_Conf_Sound
  imports Cp_Conf_Inv
begin

text \<open>
  Every handler of the five files keeps the invariant of the configuration reader (Cp_Conf_Inv), so every
  file does, and the whole configuration.
\<close>

section \<open>Attributes\<close>

lemma flags_att_keeps [simp]: "att_keeps conf_typed (flags_att n f)"
  by (simp add: flags_att_def set_att_def)

lemmas att_flags = act_att_def a_att_def version_att_def ttl_att_def iid_att_def referral_att_def incomplete_att_def

lemma family_atts_keep [simp]:
  "att_keeps conf_typed family_att" "att_keeps conf_typed family_else_att"
  by (simp_all add: family_att_def family_else_att_def set_att_def)

lemma map_option_Inr [simp]: "map_option Inr x = Some (Inl c) \<longleftrightarrow> False" "map_option Inr x = Some (Inr y) \<longleftrightarrow> x = Some y"
  by (auto simp: map_option_eq_Some)

lemma conf_case [simp]:
  "(case r of Inl c \<Rightarrow> Some (Inl c) | Inr x \<Rightarrow> g x) = Some (Inr y) \<longleftrightarrow> (\<exists>x. r = Inr x \<and> g x = Some (Inr y))"
  by (cases r) auto

lemma conf_option [simp]:
  "(case x of None \<Rightarrow> Inl c | Some a \<Rightarrow> f a) = Inr y \<longleftrightarrow> (\<exists>a. x = Some a \<and> f a = Inr y)"
  "(case x of None \<Rightarrow> Some (Inl c) | Some a \<Rightarrow> g a) = Some (Inr y) \<longleftrightarrow> (\<exists>a. x = Some a \<and> g a = Some (Inr y))"
  by (cases x; simp)+

lemma conf_map [simp]: "map_sum id f r = Inr y \<longleftrightarrow> (\<exists>x. r = Inr x \<and> y = f x)"
  by (cases r) auto

lemma find_ms_less: "find_ms i ms = Some j \<Longrightarrow> j < length ms"
  by (induction ms arbitrary: j) (auto split: if_splits)

lemma assign_ms_eids:
  "assign_ms m ts ms = Some ms' \<Longrightarrow>
   length ms' = length ms \<and> (\<Union>x\<in>set ms'. set (mse_eids x)) \<subseteq> insert m (\<Union>x\<in>set ms. set (mse_eids x))"
proof (induction m ts ms rule: assign_ms.induct)
  case (2 m t ts ms)
  then obtain i where i: "find_ms (of_int (atoi t)) ms = Some i" "assign_ms m ts (ms[i := ms_add_eid m (ms ! i)]) = Some ms'"
    by (auto split: option.splits)
  note b = find_ms_less [OF i(1)]
  have "(\<Union>x\<in>set (ms[i := ms_add_eid m (ms ! i)]). set (mse_eids x)) \<subseteq> insert m (\<Union>x\<in>set ms. set (mse_eids x))"
    using b set_update_subset_insert [of ms i "ms_add_eid m (ms ! i)"] nth_mem [OF b]
    by (fastforce simp: ms_add_eid_def)
  with "2.IH" [OF i] have "length ms' = length ms" "(\<Union>x\<in>set ms'. set (mse_eids x)) \<subseteq>
      insert m (insert m (\<Union>x\<in>set ms. set (mse_eids x)))" by (simp, blast)
  then show ?case by simp
qed auto

lemma xtr_prefix_typed:
  assumes "env_typed env" and "conf_typed st" and "xtr_prefix env v st = Some (Inr st')"
  shows "conf_typed st'"
proof -
  obtain st1 m where n: "new_mapping env ROLE_MAPP_XTR 1 ROLE_MAPP_XTR v st = Some (Inr st1)" "pr_mapping st1 = Some m"
    using assms(3) unfolding xtr_prefix_def bind_eq_Some_conv conf_case by blast
  let ?st = "st1\<lparr>pr_flags := (pr_flags st1)\<lparr>mf_A := 1\<rparr>, pr_etr := pr_etr st1 @ [m]\<rparr>"
  have t1: "conf_typed st1" by (rule new_mapping_typed [OF assms(1,2) n(1)])
  have "conf_typed (st1\<lparr>pr_flags := (pr_flags st1)\<lparr>mf_A := 1\<rparr>\<rparr>)" using t1 by simp
  from conf_typed_etr [OF this, of m] n(2) have t: "conf_typed ?st" "pr_mapping ?st = Some m" by simp_all
  have all: "conf_typed (?st\<lparr>pr_ms := map (ms_add_eid m) (pr_ms ?st)\<rparr>)"
    by (rule conf_typed_ms [OF t]) (auto simp: ms_add_eid_def)
  have some: "conf_typed (?st\<lparr>pr_ms := ms, pr_msids := ids\<rparr>)" if "assign_ms m ts (pr_ms ?st) = Some ms" for ts ms ids
    using assign_ms_eids [OF that] by (simp, intro conf_typed_ms [OF t, simplified]) auto
  from assms(3) n t(1) all some show ?thesis
    by (auto simp: xtr_prefix_def Let_def bind_eq_Some_conv split: option.splits if_splits)
qed

lemma on_ms_typed:
  assumes "conf_typed st" and "on_ms f st = Some st'" and "\<And>m. mse_eids (f m) = mse_eids m"
  shows "conf_typed st'"
proof -
  obtain i where i: "i < length (pr_ms st)" "st' = st\<lparr>pr_ms := (pr_ms st)[i := f (pr_ms st ! i)]\<rparr>"
    using assms(2) by (auto simp: on_ms_def bind_eq_Some_conv split: if_splits)
  show ?thesis unfolding i(2)
  proof (rule conf_typed_ms_same [OF assms(1)])
    fix x assume "x \<in> set ((pr_ms st)[i := f (pr_ms st ! i)])"
    then have "x = f (pr_ms st ! i) \<or> x \<in> set (pr_ms st)" using set_update_subset_insert by fastforce
    then show "set (mse_eids x) \<subseteq> (\<Union>y\<in>set (pr_ms st). set (mse_eids y))"
      using assms(3) nth_mem [OF i(1)] by auto
  qed simp
qed

lemma xtr_atts_keep: "\<forall>s\<in>set xtr_atts. att_keeps conf_typed s"
proof -
  have "conf_typed st'" if c: "conf_typed st" and m: "ms_id v st = Some (Inr st')" for v st st'
  proof -
    obtain st1 where s: "on_ms (\<lambda>m. m\<lparr>mse_id := of_int (atoi v)\<rparr>) st = Some st1"
        "(case find_ms (of_int (atoi v)) (pr_ms st1) of None \<Rightarrow> Inr st1 | Some k \<Rightarrow> if Some k \<noteq> pr_ms_cur st1 then Inl 1 else Inr st1) = (Inr st' :: int + cparser)"
      using m by (auto simp: ms_id_def bind_eq_Some_conv)
    then have "st' = st1" by (cases "find_ms (of_int (atoi v)) (pr_ms st1)") (auto split: if_splits)
    with on_ms_typed [OF c s(1)] show ?thesis by simp
  qed
  then have "att_keeps conf_typed (Att g ''id'' ms_id)" for g by auto
  moreover have "att_keeps conf_typed (Att g n (\<lambda>v st. map_option Inr (on_ms (\<lambda>m. m\<lparr>mse_key := Some v\<rparr>) st)))" for g n
    by (simp, intro allI impI, rule on_ms_typed, assumption+, simp)
  moreover have "att_keeps conf_typed (Att g n (\<lambda>v st. map_option Inr (on_ms (\<lambda>m. m\<lparr>mse_proxy := h v\<rparr>) st)))" for g n h
    by (simp, intro allI impI, rule on_ms_typed, assumption+, simp)
  moreover have "att_keeps conf_typed (pe_att n h)" for n h by (simp add: pe_att_def)
  ultimately show ?thesis by (simp add: xtr_atts_def del: att_keeps.simps(1))
qed

lemma eid_atts_keep:
  assumes "env_typed env"
  shows "\<forall>s\<in>set (xtr_eid_atts env). att_keeps conf_typed s" and "\<forall>s\<in>set (mr_eid_atts env). att_keeps conf_typed s"
    and "\<forall>s\<in>set (node_eid_atts env). att_keeps conf_typed s"
proof -
  have "att_keeps conf_typed (set_att n (\<lambda>v st. st\<lparr>pr_msids := Some v\<rparr>))" for n by (simp add: set_att_def)
  moreover have "att_keeps conf_typed (Att g n (xtr_prefix env))" for g n using xtr_prefix_typed [OF assms] by auto
  ultimately show "\<forall>s\<in>set (xtr_eid_atts env). att_keeps conf_typed s"
    by (simp add: xtr_eid_atts_def att_flags del: att_keeps.simps(1))
  have "att_keeps conf_typed (Att g n (new_mapping env a b c))" for g n a b c using new_mapping_typed [OF assms] by auto
  then show "\<forall>s\<in>set (mr_eid_atts env). att_keeps conf_typed s" "\<forall>s\<in>set (node_eid_atts env). att_keeps conf_typed s"
    by (simp_all add: mr_eid_atts_def node_eid_atts_def att_flags del: att_keeps.simps(1))
qed

section \<open>Handlers\<close>

lemma typed_dests:
  "add_rloc e st = Some st' \<Longrightarrow> conf_typed st \<longrightarrow> conf_typed st'"
  "set_mapping_flags m st = Some st' \<Longrightarrow> conf_typed st \<longrightarrow> conf_typed st'"
  "on_ms (\<lambda>m. m\<lparr>mse_addr := a\<rparr>) st = Some st' \<Longrightarrow> conf_typed st \<longrightarrow> conf_typed st'"
  by (auto intro: add_rloc_typed set_flags_typed on_ms_typed)

text \<open>What a handler that goes on does.\<close>

definition keeps :: "(cparser \<Rightarrow> cparser conf) \<Rightarrow> bool" where
  "keeps f \<longleftrightarrow> (\<forall>st st'. conf_typed st \<longrightarrow> f st = Some (Inr st') \<longrightarrow> conf_typed st')"

lemma keepsI: "(\<And>st st'. conf_typed st \<Longrightarrow> f st = Some (Inr st') \<Longrightarrow> conf_typed st') \<Longrightarrow> keeps f"
  by (simp add: keeps_def)

lemma keepsD: "keeps f \<Longrightarrow> f st = Some (Inr st') \<Longrightarrow> conf_typed st \<longrightarrow> conf_typed st'"
  by (simp add: keeps_def)

lemma named_typed: "named n r = Some (Inr st') \<Longrightarrow> (\<And>st. r = Some (Inr st) \<Longrightarrow> conf_typed st) \<Longrightarrow> conf_typed st'"
  by (cases r) (auto simp: named_def map_sum_def split: sum.splits)

lemma loop_typed: "\<forall>s\<in>set ss. att_keeps conf_typed s \<Longrightarrow> att_loop ss atts st = Some (Inr st') \<Longrightarrow> conf_typed st \<Longrightarrow> conf_typed st'"
  by (rule att_loop_keeps)

lemma xtr_open_typed: "conf_typed st \<Longrightarrow> conf_typed (xtr_open name st)"
proof -
  assume t: "conf_typed st"
  have "conf_typed (st\<lparr>pr_ms := pr_ms st @ [new_ms], pr_ms_cur := Some (length (pr_ms st))\<rparr>)"
    using t by (intro conf_typed_less [OF t]) (auto simp: conf_typed_def conf_refs_def new_ms_def)
  then show ?thesis using t by (simp add: xtr_open_def)
qed

lemma xtr_start_keeps: "env_typed env \<Longrightarrow> keeps (xtr_startElement env name atts)"
  by (rule keepsI, unfold xtr_startElement_def, erule named_typed)
    (auto split: if_splits intro: loop_typed [OF eid_atts_keep(1)] loop_typed [OF xtr_atts_keep] xtr_open_typed)

lemma xtr_end_keeps: "keeps (xtr_endElement name)"
  by (rule keepsI, unfold xtr_endElement_def)
    (auto simp: Let_def bind_eq_Some_conv split: if_splits dest!: typed_dests(1,2))

lemma xtr_entry_typed: "conf_typed st \<Longrightarrow> xtr_entry_text env name s e st = Some (Inr st') \<Longrightarrow> conf_typed st'"
  by (auto simp: xtr_entry_text_def Let_def bind_eq_Some_conv split: if_splits)

lemma xtr_server_typed: "conf_typed st \<Longrightarrow> xtr_server_text env name s st = Some (Inr st') \<Longrightarrow> conf_typed st'"
  by (auto simp: xtr_server_text_def Let_def bind_eq_Some_conv split: if_splits dest!: typed_dests(3))

lemma xtr_text_keeps: "keeps (xtr_getElementValue env s)"
proof (rule keepsI)
  fix st st' assume t: "conf_typed st" and x: "xtr_getElementValue env s st = Some (Inr st')"
  then obtain name st1 where s: "(case pr_user st of None \<Rightarrow> Some (Inr st) | Some e \<Rightarrow> xtr_entry_text env name s e st) = Some (Inr st1)"
      "named ''DUMMY'' (xtr_server_text env name s st1) = Some (Inr st')"
    unfolding xtr_getElementValue_def bind_eq_Some_conv conf_case by blast
  have "conf_typed st1" using s(1) t by (auto split: option.splits intro: xtr_entry_typed)
  then show "conf_typed st'" using named_typed [OF s(2)] xtr_server_typed by blast
qed

lemma new_entry_typed: "conf_typed st \<Longrightarrow> conf_typed (new_entry st)"
  by (simp add: new_entry_def split: option.splits)

lemma referral_start_keeps:
  assumes "\<forall>s\<in>set steps. att_keeps conf_typed s"
  shows "keeps (referral_startElement eids steps name atts)"
proof (rule keepsI, unfold referral_startElement_def, erule named_typed)
  fix st st' st1 let ?r = "if one_of name eids then att_loop steps atts (st\<lparr>pr_flags := (pr_flags st)\<lparr>mf_iid := 0\<rparr>\<rparr>)
      else if same_nocase name ''address'' then att_loop [family_else_att] atts (st\<lparr>pr_fam := FAM_INET\<rparr>)
      else Some (Inr st)"
  assume t: "conf_typed st" and r: "map_option (map_sum id new_entry) ?r = Some (Inr st1)"
  then obtain st2 where "?r = Some (Inr st2)" "st1 = new_entry st2"
    by (cases ?r) (auto simp: map_sum_def split: sum.splits)
  moreover from this(1) have "conf_typed st2"
    using t by (auto split: if_splits intro: loop_typed [OF assms] loop_typed [where ss = "[family_else_att]"])
  ultimately show "conf_typed st1" by (simp add: new_entry_typed)
qed

lemma mr_start_keeps: "env_typed env \<Longrightarrow> keeps (mr_startElement env name atts)"
  unfolding mr_startElement_def by (intro referral_start_keeps eid_atts_keep)

lemma node_start_keeps: "env_typed env \<Longrightarrow> keeps (node_startElement env name atts)"
  unfolding node_startElement_def by (intro referral_start_keeps eid_atts_keep)

lemma end_keeps: "keeps end_locator" "keeps end_eid"
proof -
  show "keeps end_locator"
    by (rule keepsI) (auto simp: end_locator_def bind_eq_Some_conv dest: typed_dests(1))
  show "keeps end_eid"
    by (rule keepsI) (auto simp: end_eid_def bind_eq_Some_conv dest: typed_dests(2))
qed

lemma referral_end_keeps: "keeps (mr_endElement name)" "keeps (node_endElement name)"
  by (rule keepsI, auto simp: mr_endElement_def node_endElement_def split: if_splits
      dest: keepsD [OF end_keeps(1)] keepsD [OF end_keeps(2)])+

lemma locator_text_typed: "conf_typed st \<Longrightarrow> locator_text env name s st = Some (Inr st') \<Longrightarrow> conf_typed st'"
  by (auto simp: locator_text_def Let_def bind_eq_Some_conv split: if_splits)

lemma range_text_typed:
  assumes "env_typed env" and "conf_typed st" and "range_text env role s st = Some (Inr st')"
  shows "conf_typed st'"
proof -
  obtain r p where r: "read_prefix env s = (r, p)" by (cases "read_prefix env s")
  let ?p = "apply_mask p"
  have r0: "r \<noteq> 0" using assms(3) r by (auto simp: range_text_def)
  then have p: "wf_fam ?p" using read_prefix_typed(2) [OF assms(1) r] apply_mask_typed by auto
  obtain ok db where v: "valid_prefix ?p role (pr_db st) = Some (ok, db)"
    using assms(3) r r0 by (auto simp: range_text_def Let_def bind_eq_Some_conv)
  have d: "db_typed (conf_refs st) db"
    using valid_prefix_typed [OF v] assms(2) by (simp add: conf_typed_def)
  show ?thesis
  proof (cases "ok = 0")
    case True
    then have "st' = st\<lparr>pr_db := db\<rparr>" using assms(3) r r0 v by (simp add: range_text_def)
    then show ?thesis using conf_typed_db [OF assms(2) d] by simp
  next
    case False
    then obtain T dn T1 T2 where n: "ms_get_db_table db ?p = Some T" "db_node_get ?p T = Some (dn, T1)"
        "ms_node_update_type dn role T1 = Some T2" "st' = st\<lparr>pr_db := set_table (family ?p) T2 db\<rparr>"
      using assms(3) r r0 v by (auto simp: range_text_def Let_def bind_eq_Some_conv)
    have "db_typed (insert (family ?p, dn) (conf_refs st)) (set_table (family ?p) T2 db)"
      by (rule get_node_typed [OF d p n(1,2)]) (rule table_with_ops(3) [OF _ n(3)])
    then have "db_typed (conf_refs st) (set_table (family ?p) T2 db)" by (rule db_typed_mono) auto
    then show ?thesis unfolding n(4) by (rule conf_typed_db [OF assms(2)])
  qed
qed

lemma mr_text_keeps: "keeps (mr_getElementValue env s)"
  by (rule keepsI, auto simp: mr_getElementValue_def bind_eq_Some_conv elim!: named_typed intro: locator_text_typed)

lemma node_text_keeps: "env_typed env \<Longrightarrow> keeps (node_getElementValue env s)"
  by (rule keepsI, auto simp: node_getElementValue_def bind_eq_Some_conv elim!: named_typed split: if_splits
      intro: locator_text_typed range_text_typed)

section \<open>Map server\<close>

lemma ms_start_keeps: "keeps (ms_startElement env name atts)"
proof (rule keepsI, unfold ms_startElement_def, erule named_typed)
  fix st st' st1
  have new: "conf_typed (st\<lparr>pr_sites := l, pr_site := Some r\<rparr>)"
    if t: "conf_typed st" and s: "ms_new_site (pr_sites st) = Some (r, l)" for r l
    using new_site_typed [OF s] t by (intro conf_typed_less [OF t]) (auto simp: conf_typed_def conf_refs_def)
  assume "conf_typed st" and "(if same_nocase name ''site'' then
        (if pr_site st \<noteq> None then Some (Inl 0)
         else do { (r, l) \<leftarrow> ms_new_site (pr_sites st); Some (Inr (st\<lparr>pr_sites := l, pr_site := Some r\<rparr>)) })
      else if one_of name [''delegated_eid_prefix'', ''eid''] then
        Some (if pr_site st = None \<or> pr_eid st \<noteq> None then Inl 0
              else Inr (st\<lparr>pr_flags := zero_flags\<lparr>mf_range := ROLE_EID, mf_rsvd := pr_site st\<rparr>\<rparr>))
      else if one_of name [''eid_prefix'', ''addr'', ''arrange''] then
        att_loop [family_else_att] atts (st\<lparr>pr_fam := FAM_INET\<rparr>)
      else Some (Inr st)) = Some (Inr st1)"
  then show "conf_typed st1"
    using new by (auto simp: bind_eq_Some_conv split: if_splits intro: loop_typed [where ss = "[family_else_att]"])
qed

lemma ms_end_keeps: "keeps (ms_endElement name)"
  by (rule keepsI) (auto simp: ms_endElement_def bind_eq_Some_conv split: if_splits dest: typed_dests(2))

lemma site_text_eid [simp]: "si_eid (site_text n s f si) = si_eid si"
  by (simp add: site_text_def)

lemma set_site_keeps:
  assumes "conf_typed st" and "site_data (pr_sites st) r = Some si" and "set_site r si' (pr_sites st) = Some l"
    and "{d. \<exists>k. cell_data (si_eid si') k = Some d} \<subseteq> conf_refs st"
  shows "conf_typed (st\<lparr>pr_sites := l\<rparr>)"
proof (rule conf_typed_less [OF assms(1)])
  show "conf_refs (st\<lparr>pr_sites := l\<rparr>) \<subseteq> conf_refs st"
    using set_site_typed(1) [OF assms(3)] assms(4) by (auto simp: conf_refs_def)
qed (use assms(1) set_site_typed(2) [OF assms(3)] in \<open>auto simp: conf_typed_def\<close>)

lemma delegate_typed:
  assumes "env_typed env" and "conf_typed st" and "delegate_text env r s st = Some (Inr st')"
  shows "conf_typed st'"
proof -
  obtain ret p where r: "read_prefix env s = (ret, p)" by (cases "read_prefix env s")
  let ?p = "apply_mask p"
  show ?thesis
  proof (cases "ret = 1")
    case False
    then show ?thesis using assms(2,3) r by (simp add: delegate_text_def)
  next
    case True
    then have p: "wf_fam ?p" using read_prefix_typed(2) [OF assms(1) r] apply_mask_typed by simp
    obtain ok db T a T1 si k l sites where v: "valid_prefix ?p ROLE_EID (pr_db st) = Some (ok, db)"
        "ms_get_db_table db ?p = Some T" "db_node_get ?p T = Some (a, T1)" "site_data (pr_sites st) r = Some si"
        "list_insert None (Some (family ?p, a)) (si_eid si) = Some (k, l)" "set_site r (si\<lparr>si_eid := l\<rparr>) (pr_sites st) = Some sites"
        "st' = st\<lparr>pr_db := set_table (family ?p) T1 db, pr_eid := Some (family ?p, a), pr_sites := sites\<rparr>"
      using assms(3) r True by (auto simp: delegate_text_def Let_def bind_eq_Some_conv split: if_splits)
    let ?st = "st\<lparr>pr_db := set_table (family ?p) T1 db, pr_eid := Some (family ?p, a)\<rparr>"
    have "db_typed (conf_refs st) (pr_db st)" using assms(2) by (simp add: conf_typed_def)
    from get_node_typed [OF valid_prefix_typed [OF v(1) this] p v(2,3)]
    have "db_typed (insert (family ?p, a) (conf_refs st)) (set_table (family ?p) T1 db)" .
    then have "db_typed (conf_refs ?st) (set_table (family ?p) T1 db)" by (rule db_typed_mono) (auto simp: conf_refs_def)
    then have t: "conf_typed ?st" using assms(2) by (simp add: conf_typed_def)
    have "{d. \<exists>k. cell_data (si_eid (si\<lparr>si_eid := l\<rparr>)) k = Some d} \<subseteq> conf_refs ?st"
    proof
      fix d assume "d \<in> {d. \<exists>k. cell_data (si_eid (si\<lparr>si_eid := l\<rparr>)) k = Some d}"
      then obtain j where "cell_data l j = Some d" by auto
      then have "d = (family ?p, a) \<or> cell_data (si_eid si) j = Some d"
        using list_insert_data [OF v(5), of j] by (auto split: if_splits)
      then show "d \<in> conf_refs ?st" using v(4) by (auto simp: conf_refs_def site_refs_def site_data_cell)
    qed
    then have "conf_typed (?st\<lparr>pr_sites := sites\<rparr>)" by (rule set_site_keeps [OF t _ _, rotated 2, where r = r and si = si]) (use v(4,6) in simp_all)
    then show ?thesis unfolding v(7) by simp
  qed
qed

lemma ms_text_keeps:
  assumes "env_typed env"
  shows "keeps (ms_getElementValue env s)"
proof (rule keepsI)
  fix st st' assume t: "conf_typed st" and x: "ms_getElementValue env s st = Some (Inr st')"
  obtain name st1 st2 where
    s1: "(case pr_site st of None \<Rightarrow> Some st
          | Some r \<Rightarrow> do {
              si \<leftarrow> site_data (pr_sites st) r;
              sites \<leftarrow> set_site r (site_text name s (pr_flags st) si) (pr_sites st);
              Some (st\<lparr>pr_sites := sites\<rparr>) }) = Some st1" and
    s2: "(case pr_site st1 of
            Some r \<Rightarrow> if same_nocase name ''delegated_eid_prefix'' then delegate_text env r s st1 else Some (Inr st1)
          | None \<Rightarrow> Some (Inr st1)) = Some (Inr st2)" and
    s3: "(let st = (if pr_site st2 \<noteq> None \<and> pr_eid st2 \<noteq> None \<and> same_nocase name ''active'' \<and> mf_range (pr_flags st2) \<noteq> 0
                    then st2\<lparr>pr_flags := (pr_flags st2)\<lparr>mf_active := of_bool (starts_nocase 3 s ''yes'')\<rparr>\<rparr> else st2)
          in named ''DUMMY'' (if same_nocase name ''eid_prefix'' then range_text env ROLE_GEID s st else Some (Inr st))) = Some (Inr st')"
    using x unfolding ms_getElementValue_def bind_eq_Some_conv conf_case by blast
  have "conf_typed st1"
  proof (cases "pr_site st")
    case (Some r)
    then obtain si sites where d: "site_data (pr_sites st) r = Some si"
        "set_site r (site_text name s (pr_flags st) si) (pr_sites st) = Some sites" "st1 = st\<lparr>pr_sites := sites\<rparr>"
      using s1 by (auto simp: bind_eq_Some_conv)
    then have "{d. \<exists>k. cell_data (si_eid (site_text name s (pr_flags st) si)) k = Some d} \<subseteq> conf_refs st"
      by (auto simp: conf_refs_def site_refs_def site_data_cell)
    then show ?thesis unfolding d(3) by (rule set_site_keeps [OF t d(1,2)])
  qed (use s1 t in simp)
  then have "conf_typed st2"
    using s2 by (auto split: option.splits if_splits intro: delegate_typed [OF assms])
  then have t3: "conf_typed (if b then st2\<lparr>pr_flags := g\<rparr> else st2)" for b g by simp
  from s3 show "conf_typed st'"
    unfolding Let_def by (rule named_typed) (metis t3 range_text_typed [OF assms] option.inject sum.inject(2))
qed

section \<open>RTR\<close>

lemma add_rlocs_typed: "add_rlocs_all es st = Some st' \<Longrightarrow> conf_typed st \<Longrightarrow> conf_typed st'"
  by (induction es st rule: add_rlocs_all.induct) (auto simp: bind_eq_Some_conv dest: typed_dests(1))

lemma rtr_prefix_typed:
  assumes "env_typed env" and "conf_typed st" and "rtr_prefix env v st = Some (Inr st')"
  shows "conf_typed st'"
proof -
  obtain st1 m where n: "new_mapping env ROLE_MAPP_XTR 1 ROLE_MAPP_XTR v st = Some (Inr st1)" "pr_mapping st1 = Some m"
      "add_rlocs_all (pr_rlocs st1) (st1\<lparr>pr_etr := pr_etr st1 @ [m]\<rparr>) = Some st'"
    using assms(3) unfolding rtr_prefix_def bind_eq_Some_conv conf_case map_option_Inr by blast
  from conf_typed_etr [OF new_mapping_typed [OF assms(1,2) n(1)] n(2)] n(3) show ?thesis by (metis add_rlocs_typed)
qed

lemma rtr_atts_keep: "env_typed env \<Longrightarrow> \<forall>s\<in>set (rtr_eid_atts env). att_keeps conf_typed s"
  using rtr_prefix_typed [of env] by (auto simp: rtr_eid_atts_def att_flags)

text \<open>The loop over the attributes of a map resolver ends only when there is none.\<close>

lemma rtr_family_ends:
  assumes "rtr_family atts fam = Some r"
  shows "atts = [] \<and> r = fam"
  by (rule rtr_family.raw_induct [OF _ assms, where P = "\<lambda>atts fam r. atts = [] \<and> r = fam"])
    (auto split: list.splits if_splits)

lemma rtr_start_keeps:
  assumes "env_typed env"
  shows "keeps (rtr_startElement env name atts)"
proof (rule keepsI, unfold rtr_startElement_def, erule named_typed)
  fix st st' st1
  have fam: "conf_typed (st\<lparr>pr_fam := f\<rparr>)" if "conf_typed st" "rtr_family atts FAM_INET = Some f" for f
    using that rtr_family_ends [OF that(2)] by (simp add: conf_typed_def conf_refs_def)
  assume t: "conf_typed st" and "(if same_nocase name ''eid'' then do {
        r \<leftarrow> att_loop (rtr_eid_atts env) atts (st\<lparr>pr_fam := FAM_INET\<rparr>);
        case r of
          Inl c \<Rightarrow> Some (Inl c)
        | Inr st \<Rightarrow> do {
            st \<leftarrow> set_mapping_flags (pr_mapping st) st;
            Some (Inr (st\<lparr>pr_flags := zero_flags, pr_mapping := None\<rparr>)) } }
      else if same_nocase name ''mr'' then do { fam \<leftarrow> rtr_family atts FAM_INET; Some (Inr (st\<lparr>pr_fam := fam\<rparr>)) }
      else Some (Inr st)) = Some (Inr st1)"
  then show "conf_typed st1"
    using fam loop_typed [OF rtr_atts_keep [OF assms], where st = "st\<lparr>pr_fam := FAM_INET\<rparr>" and atts = atts]
    by (auto simp: bind_eq_Some_conv split: if_splits dest!: typed_dests(2))
qed

lemma rtr_end_keeps: "keeps (rtr_endElement name)"
  by (rule keepsI) (simp add: rtr_endElement_def)

lemma rtr_text_keeps: "keeps (rtr_getElementValue env s)"
  by (rule keepsI) (auto simp: rtr_getElementValue_def bind_eq_Some_conv elim!: named_typed split: if_splits)

section \<open>Files\<close>

definition handlers_keep :: "handlers \<Rightarrow> bool" where
  "handlers_keep h \<longleftrightarrow> (\<forall>name atts. keeps (h_start h name atts)) \<and> (\<forall>name. keeps (h_end h name)) \<and> (\<forall>s. keeps (h_text h s))"

lemma all_handlers_keep:
  assumes "env_typed env"
  shows "handlers_keep (xtr_handlers env)" and "handlers_keep (ms_handlers env)" and "handlers_keep (mr_handlers env)"
    and "handlers_keep (node_handlers env)" and "handlers_keep (rtr_handlers env)"
  by (simp_all add: handlers_keep_def xtr_handlers_def ms_handlers_def mr_handlers_def node_handlers_def rtr_handlers_def
      xtr_start_keeps [OF assms] xtr_end_keeps xtr_text_keeps ms_start_keeps ms_end_keeps ms_text_keeps [OF assms]
      mr_start_keeps [OF assms] referral_end_keeps mr_text_keeps node_start_keeps [OF assms] node_text_keeps [OF assms]
      rtr_start_keeps [OF assms] rtr_end_keeps rtr_text_keeps)

lemma handle_keeps: "handlers_keep h \<Longrightarrow> handle h e st = Some (Inr st') \<Longrightarrow> conf_typed st \<Longrightarrow> conf_typed st'"
  by (cases e) (auto simp: handlers_keep_def dest: keepsD)

lemma xml_run_keeps:
  "handlers_keep h \<Longrightarrow> xml_run h es st = Some (Inr st') \<Longrightarrow> conf_typed st \<Longrightarrow> conf_typed st'"
  by (induction h es st rule: xml_run.induct) (auto simp: bind_eq_Some_conv dest: handle_keeps)

lemma xml_configure_keeps:
  "handlers_keep h \<Longrightarrow> conf_typed st \<Longrightarrow> xml_configure h file st = Some (Inr st') \<Longrightarrow> conf_typed st'"
  by (auto simp: xml_configure_def bind_eq_Some_conv split: option.splits if_splits dest: xml_run_keeps)

lemma conf_bind_Inr: "conf_bind r f = Some (Inr y) \<longleftrightarrow> (\<exists>x. r = Some (Inr x) \<and> f x = Some (Inr y))"
  by (auto simp: conf_bind_def bind_eq_Some_conv)

lemma conf_file_keeps:
  assumes "conf_file env fnc i f mc st = Some (Inr st')" and "conf_typed st"
    and "\<And>x. f x st = Some (Inr st') \<Longrightarrow> conf_typed st'"
  shows "conf_typed st'"
  using assms by (auto simp: conf_file_def split: option.splits if_splits)

lemma xtr_file_keeps:
  assumes "env_typed (cm_conf env)" and "xtr_file env mc st = Some (Inr (mc', st'))" and "conf_typed st" and "pr_ms_cur st = None"
  shows "conf_typed st'"
proof -
  have t: "conf_typed (st\<lparr>pr_ms := [], pr_mr := [], pr_petr := []\<rparr>)" using conf_typed_no_ms [OF assms(3,4)] by simp
  show ?thesis
    using assms(2,3) xml_configure_keeps [OF all_handlers_keep(1) [OF assms(1)] t]
    by (auto simp: xtr_file_def xtr_parser_config_def bind_eq_Some_conv map_option_eq_Some split: option.splits if_splits prod.splits)
qed

end
