(* ===== verification/Cp_Conf_Site.thy ===== *)
theory Cp_Conf_Site
  imports Cp_Conf_Files Cp_Xtr_Trip
begin

text \<open>
  A site that the configuration of a map server gives a key and a delegated prefix is one that registrations of
  that prefix are accepted for.
\<close>

section \<open>Leaves\<close>

text \<open>A prefix that nothing extends gets a node without children.\<close>

fun leaf :: "ref \<Rightarrow> 'i rtree \<Rightarrow> bool" where
  "leaf x Tip \<longleftrightarrow> False"
| "leaf x (Nd a q i k l r) \<longleftrightarrow> a = x \<and> l = Tip \<and> r = Tip \<or> leaf x l \<or> leaf x r"

lemma leaf_bump [simp]: "leaf x (bump y t) = leaf x t"
proof (induction t)
  case (Nd a q i k l r)
  have "bump y l = Tip \<longleftrightarrow> l = Tip" "bump y r = Tip \<longleftrightarrow> r = Tip" by (cases l; simp) (cases r; simp)
  with Nd show ?case by simp
qed simp

lemma leaf_heap: "tree_at h par y t \<Longrightarrow> leaf x t \<Longrightarrow> \<exists>n. h x = Some n \<and> l_left n = None \<and> l_right n = None"
  by (induction t arbitrary: par y) auto

lemma leaf_nd: "leaf x (nd a q i k b t s) \<longleftrightarrow> a = x \<and> t = Tip \<and> s = Tip \<or> leaf x t \<or> leaf x s"
  by (auto simp: nd_def)

lemma tget_leaf:
  assumes "trie t" and "wf_fam p" and "\<forall>(a, q, i)\<in>set (nodes t). \<not> prefix_includes p q"
  shows "leaf (tget_ref p f t) (tget p f t)"
  using assms(1,3)
proof (induction t)
  case (Nd a q i k l r)
  have w: "wf_cp q" "wf_cp p" "\<not> prefix_includes p q" "trie l" "trie r" using Nd.prems assms(2) by (auto simp: wf_fam_def)
  show ?case
  proof (cases "prefix_includes q p")
    case True
    then have "plen q \<noteq> plen p"
      using w(1-3) length_pkey [OF w(1)] length_pkey [OF w(2)] by (auto simp: prefix_includes_iff)
    with True Nd w(4,5) show ?thesis by simp
  next
    case False
    have "plen (common q p) \<noteq> plen p"
    proof
      assume e: "plen (common q p) = plen p"
      note c = common_spec [OF w(1,2) False]
      have "take (plen p) (pkey q) = pkey p" using c(6,7) e length_pkey [OF w(2)] by simp
      moreover have "plen p \<le> plen q" using c(5) e by simp
      ultimately show False using w(3) by (simp add: prefix_includes_iff w(1,2))
    qed
    with False show ?thesis by (simp add: tsplit_def Let_def leaf_nd)
  qed
qed simp

section \<open>The node of a delegated prefix\<close>

text \<open>A table of the family has room for the prefix below its root.\<close>

definition free_prefix :: "map_entry list lisp_db \<Rightarrow> cp_prefix \<Rightarrow> bool" where
  "free_prefix db p \<longleftrightarrow> (\<exists>T t. ms_get_db_table db p = Some T \<and> table_at T t \<and> all_family (family p) t \<and> short t \<and> wf_fam p \<and>
     plen p < 128 \<and> spine p t \<noteq> [] \<and> (\<forall>(a, q, i)\<in>set (nodes t). \<not> prefix_includes p q))"

lemma tget_root:
  assumes "trie t" and "spine p t \<noteq> []" and "\<forall>(a, q, i)\<in>set (nodes t). \<not> prefix_includes p q" and "distinct (refs t)"
    and "\<forall>a\<in>set (refs t). a < f"
  shows "\<exists>a q i k l r l' r'. t = Nd a q i k l r \<and> tget p f t = Nd a q i k l' r' \<and> tget_ref p f t \<noteq> a"
proof (cases t)
  case (Nd a q i k l r)
  have inc: "prefix_includes q p" "\<not> prefix_includes p q" using assms(2,3) Nd by (auto split: if_splits)
  then have "plen q \<noteq> plen p"
    using length_pkey [of q] length_pkey [of p] by (auto simp: prefix_includes_iff)
  moreover have "tget_ref p f l \<noteq> a" "tget_ref p f r \<noteq> a"
    using tget_ref_refs [of p f l] tget_ref_refs [of p f r] assms(4,5) Nd by auto
  ultimately show ?thesis using inc Nd by auto
qed (use assms(2) in simp)

lemma or_nonzero:
  fixes a b c :: byte
  assumes "a AND c \<noteq> 0"
  shows "(a OR b) AND c \<noteq> 0"
proof
  assume z: "(a OR b) AND c = 0"
  have "a AND c = (a AND c) AND ((a OR b) AND c)" by (rule bit_word_eqI) (auto simp: bit_simps)
  with z assms show False by simp
qed

lemma delegated_node:
  assumes "free_prefix db p" and "valid_prefix p role db = Some (1, db1)"
  shows "\<exists>T a T'. ms_get_db_table db1 p = Some T \<and> db_node_get p T = Some (a, T') \<and>
    (\<forall>fl. mf_range fl AND ROLE_EID \<noteq> 0 \<longrightarrow> mf_rsvd fl = Some site \<longrightarrow>
       (\<exists>T2. generic_mapping_set_flags a fl T' = Some T2 \<and> site_leaf (set_table (family p) T2 db1) p a site))"
proof -
  obtain T t where T: "ms_get_db_table db p = Some T" "table_at T t" "all_family (family p) t" "short t" "wf_fam p"
      "plen p < 128" "spine p t \<noteq> []" "\<forall>(a, q, i)\<in>set (nodes t). \<not> prefix_includes p q"
    using assms(1) by (auto simp: free_prefix_def)
  have wp: "wf_cp p" using T(5) by (simp add: wf_fam_def)
  from match_prefix_spine [OF T(2-4) wp T(7)] obtain T1 where T1: "db_node_match_prefix p T = Some (Some (last (spine p t)), T1)"
      "table_at T1 (bump (last (spine p t)) t)" by blast
  have db1: "db1 = set_table (family p) T1 db"
    using assms(2) T(1) T1(1) by (auto simp: valid_prefix_def bind_eq_Some_conv Let_def split: if_splits)
  let ?t = "bump (last (spine p t)) t" and ?f = "next_ref T1"
  have t1: "all_family (family p) ?t" "trie ?t" "distinct (refs ?t)" "\<forall>a\<in>set (refs ?t). a < ?f"
    using T(2,3) T1(2) by (simp_all add: table_at_def all_family_def)
  let ?a = "tget_ref p ?f ?t" and ?u = "tget p ?f ?t"
  from db_node_get_refines [OF T1(2) t1(1) T(5)] obtain T' where g: "db_node_get p T1 = Some (?a, T')" "table_at T' (bump ?a ?u)"
    by blast
  have fr: "\<forall>(a, q, i)\<in>set (nodes ?t). \<not> prefix_includes p q" using T(8) by simp
  have "leaf ?a (bump ?a ?u)" using tget_leaf [OF t1(2) T(5) fr] by simp
  then obtain n where n: "heap T' ?a = Some n" "l_left n = None" "l_right n = None"
    using leaf_heap g(2) unfolding table_at_def by blast
  obtain q i where q: "(?a, q, i) \<in> set (nodes ?u)" "plen q = plen p" "pkey q = pkey p"
    using tget_ref_node [OF t1(2) T(5), of ?f] by blast
  then have nq: "n_p n = q" "?a \<in> set (refs ?u)"
    using nodes_heap [of "heap T'" None "top T'" "bump ?a ?u" ?a q i] g(2) n(1) by (auto simp: table_at_def refs_nodes image_iff)
      (metis fst_conv)
  have "wf_cp q" using trie_wf [of "bump ?a ?u" ?a q i] g(2) q(1) by (simp add: table_at_def)
  then have inc: "prefix_includes (n_p n) p" using q nq wp length_pkey [OF wp] by (simp add: prefix_includes_iff)
  have "spine p ?t \<noteq> []" using T(7) by simp
  from tget_root [OF t1(2) this fr t1(3,4)] obtain b q' i' k' l' r' where "?u = Nd b q' i' k' l' r'" "?a \<noteq> b" by blast
  then have tp: "top T' \<noteq> Some ?a" using g(2) by (simp add: table_at_def)
  have u: "all_family (family p) (bump ?a ?u)" "short (bump ?a ?u)"
    using all_family_tget [OF t1(2,1) T(5)] short_tget [OF t1(2) T(5) _ T(6)] T(4)
    by (simp_all add: all_family_def short_def)
  have tb: "ms_get_db_table db1 p = Some T1" using ms_get_set_table(1) [OF T(1)] by (simp add: db1)
  have "\<exists>T2. generic_mapping_set_flags ?a fl T' = Some T2 \<and> site_leaf (set_table (family p) T2 db1) p ?a site"
    if fl: "mf_range fl AND ROLE_EID \<noteq> 0" "mf_rsvd fl = Some site" for fl
  proof -
    obtain m g' where m: "m = n\<lparr>flags := Some g'\<rparr>" "generic_mapping_set_flags ?a fl T' = Some (put ?a m T')"
        "mf_range g' AND ROLE_EID \<noteq> 0" "mf_rsvd g' = Some site"
    proof
      show "generic_mapping_set_flags ?a fl T' = Some (put ?a (n\<lparr>flags := Some (fl\<lparr>mf_range := mf_range fl OR
          (case flags n of None \<Rightarrow> 0 | Some f \<Rightarrow> mf_range f), mf_rsvd := Some site\<rparr>)\<rparr>) T')"
        using n(1) fl(2) by (auto simp: generic_mapping_set_flags_def split: option.splits)
      show "mf_range (fl\<lparr>mf_range := mf_range fl OR (case flags n of None \<Rightarrow> 0 | Some f \<Rightarrow> mf_range f), mf_rsvd := Some site\<rparr>)
          AND ROLE_EID \<noteq> 0"
        using fl(1) or_nonzero by simp
    qed simp_all
    have "table_at (put ?a m T') (bump ?a ?u)" unfolding m(1) by (rule table_at_flags [OF g(2) n(1)])
    moreover have "ms_get_db_table (set_table (family p) (put ?a m T') db1) p = Some (put ?a m T')"
      by (rule ms_get_set_table(1) [OF tb])
    ultimately have "site_leaf (set_table (family p) (put ?a m T') db1) p ?a site"
      unfolding site_leaf_def using u wp nq(2) tp n(2,3) inc m(1,3,4)
      by (intro exI [of _ "put ?a m T'"] exI [of _ "bump ?a ?u"] exI [of _ m] exI [of _ g']) (simp add: put_def)
    with m(2) show ?thesis by blast
  qed
  with tb g(1) show ?thesis by blast
qed

section \<open>Reading a site\<close>

definition site_events :: "string \<Rightarrow> string \<Rightarrow> xml_event list" where
  "site_events key v = [Start ''site'' [], Start ''key'' [], Text key, End ''key'', Start ''delegated_eid_prefix'' [], Text v,
     End ''delegated_eid_prefix'', End ''site'']"

text \<open>The names of elements.\<close>

lemma names [simp]:
  "same_nocase ''site'' ''site''" "\<not> same_nocase ''key'' ''site''" "\<not> same_nocase ''delegated_eid_prefix'' ''site''"
  "same_nocase ''delegated_eid_prefix'' ''delegated_eid_prefix''" "\<not> same_nocase ''key'' ''delegated_eid_prefix''"
  "\<not> same_nocase ''site'' ''delegated_eid_prefix''"
  "\<not> same_nocase ''key'' ''name''" "same_nocase ''key'' ''key''" "\<not> same_nocase ''key'' ''eid_prefix''" "\<not> same_nocase ''key'' ''active''"
  "\<not> same_nocase ''delegated_eid_prefix'' ''name''" "\<not> same_nocase ''delegated_eid_prefix'' ''key''"
  "\<not> same_nocase ''delegated_eid_prefix'' ''contact''" "\<not> same_nocase ''delegated_eid_prefix'' ''active''"
  "\<not> same_nocase ''delegated_eid_prefix'' ''eid_prefix''"
  "\<not> one_of ''key'' [''delegated_eid_prefix'', ''eid'']" "\<not> one_of ''key'' [''eid_prefix'', ''addr'', ''arrange'']"
  "one_of ''delegated_eid_prefix'' [''delegated_eid_prefix'', ''eid'']"
  by code_simp+

lemma site_cell:
  assumes "cells l (Ent r) = Some e"
  shows "\<exists>l'. set_site r s l = Some l' \<and> site_data l' r = Some s \<and> cells l' (Ent r) = Some (e\<lparr>e_data := Some s\<rparr>)"
  using assms by (simp add: set_site_def site_data_def put_cell_def)

text \<open>The text of a delegated prefix, at a site.\<close>

lemma delegate_text_ok:
  assumes "read_prefix env v = (1, p0)" and "valid_prefix (apply_mask p0) ROLE_EID (pr_db st) = Some (1, db1)"
    and "ms_get_db_table db1 (apply_mask p0) = Some T" and "db_node_get (apply_mask p0) T = Some (a, T')"
    and "cells (pr_sites st) (Ent r) = Some e" and "e_data e = Some si" and "si_eid si = list_init"
  shows "\<exists>l l'. list_at l [(0, Some (family (apply_mask p0), a))] \<and> site_data l' r = Some (si\<lparr>si_eid := l\<rparr>) \<and>
    delegate_text env r v st = Some (Inr (st\<lparr>pr_db := set_table (family (apply_mask p0)) T' db1,
      pr_eid := Some (family (apply_mask p0), a), pr_sites := l'\<rparr>))"
proof -
  let ?d = "Some (family (apply_mask p0), a)"
  from list_insert_init [OF assms(7), of ?d] obtain l where l: "list_insert None ?d (si_eid si) = Some (0, l)" "list_at l [(0, ?d)]"
    by (auto simp: assms(7) list_init_def)
  from site_cell [OF assms(5), of "si\<lparr>si_eid := l\<rparr>"] obtain l' where
    l': "set_site r (si\<lparr>si_eid := l\<rparr>) (pr_sites st) = Some l'" "site_data l' r = Some (si\<lparr>si_eid := l\<rparr>)" by blast
  have "site_data (pr_sites st) r = Some si" using assms(5,6) by (simp add: site_data_def)
  then have "delegate_text env r v st = Some (Inr (st\<lparr>pr_db := set_table (family (apply_mask p0)) T' db1,
      pr_eid := ?d, pr_sites := l'\<rparr>))"
    using assms(1-4) l(1) l'(1) by (simp add: delegate_text_def Let_def)
  with l(2) l'(2) show ?thesis by blast
qed

text \<open>After the elements of a site with a key and a delegated prefix, its registration is awaited.\<close>

lemma site_awaits:
  assumes "read_prefix env v = (1, p0)" and "free_prefix (pr_db st) (apply_mask p0)"
    and "valid_prefix (apply_mask p0) ROLE_EID (pr_db st) = Some (1, db1)"
    and "list_at (pr_sites st) xs" and "pr_site st = None" and "pr_eid st = None"
  shows "\<exists>st'. xml_run (ms_handlers env) (site_events key v) st = Some (Inr st') \<and>
    awaits \<lparr>ms_db = pr_db st', ms_sites = site_data (pr_sites st')\<rparr> (apply_mask p0) key"
proof -
  let ?p = "apply_mask p0"
  from list_insert_at [OF assms(4), of None "Some ms_new_site_info"] obtain r l1 where
    l1: "ms_new_site (pr_sites st) = Some (r, l1)" "list_at l1 (xs @ [(r, Some ms_new_site_info)])"
    by (auto simp: ms_new_site_def)
  from list_at_data [OF l1(2), of r "Some ms_new_site_info"] obtain e1 where
    e1: "cells l1 (Ent r) = Some e1" "e_data e1 = Some ms_new_site_info" by auto
  let ?s2 = "ms_new_site_info\<lparr>si_key := Some key\<rparr>"
  from site_cell [OF e1(1), of ?s2] obtain l2 e2 where
    l2: "set_site r ?s2 l1 = Some l2" "cells l2 (Ent r) = Some e2" "e_data e2 = Some ?s2" by auto
  from site_cell [OF l2(2), of ?s2] obtain l3 e3 where
    l3: "set_site r ?s2 l2 = Some l3" "cells l3 (Ent r) = Some e3" "e_data e3 = Some ?s2" by auto
  have d: "site_data l1 r = Some ms_new_site_info" "site_data l2 r = Some ?s2"
    using e1 l2 by (simp_all add: site_data_def)
  from delegated_node [OF assms(2,3), of r] obtain T a T' where
    T: "ms_get_db_table db1 ?p = Some T" "db_node_get ?p T = Some (a, T')" and
    leaf: "\<And>fl. mf_range fl AND ROLE_EID \<noteq> 0 \<Longrightarrow> mf_rsvd fl = Some r \<Longrightarrow>
       \<exists>T2. generic_mapping_set_flags a fl T' = Some T2 \<and> site_leaf (set_table (family ?p) T2 db1) ?p a r" by blast
  let ?fl = "zero_flags\<lparr>mf_range := ROLE_EID, mf_rsvd := Some r\<rparr>"
  have "mf_range ?fl AND ROLE_EID \<noteq> 0" "mf_rsvd ?fl = Some r" by (simp_all add: ROLE_EID_def)
  from leaf [OF this] obtain T2 where T2: "generic_mapping_set_flags a ?fl T' = Some T2"
      "site_leaf (set_table (family ?p) T2 db1) ?p a r" by blast
  let ?st = "st\<lparr>pr_sites := l1, pr_site := Some r, pr_name := Some ''delegated_eid_prefix'', pr_flags := ?fl\<rparr>"
  obtain l l4 where l4: "list_at l [(0, Some (family ?p, a))]" "site_data l4 r = Some (?s2\<lparr>si_eid := l\<rparr>)"
      "delegate_text env r v (?st\<lparr>pr_sites := l3\<rparr>) = Some (Inr (?st\<lparr>pr_db := set_table (family ?p) T' db1,
        pr_eid := Some (family ?p, a), pr_sites := l4\<rparr>))"
    using delegate_text_ok [OF assms(1) _ T, of "?st\<lparr>pr_sites := l3\<rparr>" r e3 ?s2] assms(3) l3
    by (auto simp: ms_new_site_info_def)
  have tb: "db_table_of (family ?p) (set_table (family ?p) T' db1) = Some T'"
    "set_table (family ?p) T2 (set_table (family ?p) T' db1) = set_table (family ?p) T2 db1"
    using ms_get_set_table [OF T(1)] by (simp_all add: ms_get_db_table_def db_table_of_def split: af.splits)
  define st' where "st' = st\<lparr>pr_db := set_table (family ?p) T2 db1, pr_sites := l4, pr_site := None, pr_name := Some ''DUMMY'',
    pr_flags := zero_flags\<rparr>"
  have "xml_run (ms_handlers env) (site_events key v) st = Some (Inr st')"
  proof -
    let ?H = "handle (ms_handlers env)"
    let ?s1 = "st\<lparr>pr_sites := l1, pr_site := Some r, pr_name := Some ''site''\<rparr>"
    let ?t2 = "st\<lparr>pr_sites := l2, pr_site := Some r, pr_name := Some ''DUMMY''\<rparr>"
    let ?t3 = "st\<lparr>pr_sites := l2, pr_site := Some r, pr_name := Some ''delegated_eid_prefix'', pr_flags := ?fl\<rparr>"
    let ?t4 = "st\<lparr>pr_db := set_table (family ?p) T' db1, pr_sites := l4, pr_site := Some r, pr_eid := Some (family ?p, a),
      pr_name := Some ''DUMMY'', pr_flags := ?fl\<rparr>"
    have h: "?H (Start n as) s = ms_startElement env n as s" "?H (End n) s = ms_endElement n s"
      "?H (Text x) s = ms_getElementValue env x s" for n as x s
      by (simp_all add: ms_handlers_def)
    have "?H (Start ''site'' []) st = Some (Inr ?s1)" unfolding h by (simp add: ms_startElement_def named_def assms(5) l1(1))
    moreover have "?H (Start ''key'' []) ?s1 = Some (Inr (?s1\<lparr>pr_name := Some ''key''\<rparr>))"
      unfolding h by (simp add: ms_startElement_def named_def)
    moreover have "?H (Text key) (?s1\<lparr>pr_name := Some ''key''\<rparr>) = Some (Inr ?t2)"
      unfolding h by (simp add: ms_getElementValue_def named_def site_text_def d(1) l2(1) Let_def)
    moreover have "?H (End ''key'') ?t2 = Some (Inr ?t2)" unfolding h by (simp add: ms_endElement_def)
    moreover have "?H (Start ''delegated_eid_prefix'' []) ?t2 = Some (Inr ?t3)"
      unfolding h by (simp add: ms_startElement_def named_def assms(6))
    moreover have "?H (Text v) ?t3 = Some (Inr ?t4)"
      unfolding h using l4(3) by (simp add: ms_getElementValue_def named_def site_text_def d(2) l3(1) Let_def)
    moreover have "?H (End ''delegated_eid_prefix'') ?t4 = Some (Inr (?t4\<lparr>pr_db := set_table (family ?p) T2 db1,
        pr_eid := None, pr_flags := zero_flags\<rparr>))"
      unfolding h using T2(1) by (simp add: ms_endElement_def set_mapping_flags_def on_node_def tb)
    moreover have "?H (End ''site'') (?t4\<lparr>pr_db := set_table (family ?p) T2 db1, pr_eid := None, pr_flags := zero_flags\<rparr>) =
        Some (Inr st')"
      unfolding h st'_def using assms(6) by (simp add: ms_endElement_def)
    ultimately show ?thesis by (simp add: site_events_def)
  qed
  moreover have "awaits \<lparr>ms_db = pr_db st', ms_sites = site_data (pr_sites st')\<rparr> ?p key"
    using T2(2) l4(2) list_items_single [OF l4(1)] unfolding awaits_def st'_def
    by (intro exI [of _ r] exI [of _ a] exI [of _ "?s2\<lparr>si_eid := l\<rparr>"]) (simp add: ms_new_site_info_def)
  ultimately show ?thesis by blast
qed

end
