(* ===== verification/Cp_Conf_Served.thy ===== *)
theory Cp_Conf_Served
  imports Cp_Conf_Site
begin

text \<open>
  From two configuration files to a delivered request: the file of an xTR gives it a mapping with its locators and a
  map server, the file of that map server has the site of the mapping. The registration that the xTR then makes is
  accepted, and a request for the EID reaches one of the locators of the file.
\<close>

section \<open>A registration is made\<close>

lemma emit_fits: "length (rp_buf rpk) + length bs \<le> PKBUFLEN \<Longrightarrow> emit bs rpk = Some (rpk\<lparr>rp_buf := rp_buf rpk @ bs\<rparr>)"
  by (simp add: emit_def)

lemma locators_fit:
  assumes "\<forall>e\<in>set es. wf_entry e" and "length (rp_buf rpk) + 24 * length es \<le> PKBUFLEN"
  shows "\<exists>rpk'. register_add_locators cf rpk es = Some rpk' \<and> length (rp_buf rpk') \<le> length (rp_buf rpk) + 24 * length es"
  using assms
proof (induction es arbitrary: rpk)
  case (Cons e es)
  have w: "wf_entry e" "me_pe e = None" using Cons.prems(1) by (simp_all add: wf_entry_def)
  obtain bs where bs: "plain_locator (me_p e) e = Some bs"
    using w(1) by (auto simp: plain_locator_def locator_address_def wf_entry_def)
  have "length bs \<le> 24" by (rule plain_locator_shape [OF bs w(1), of "[]"]) simp_all
  then have "udp_register_add_locator cf rpk e False = Some (rpk\<lparr>rp_buf := rp_buf rpk @ bs\<rparr>)"
    using Cons.prems(2) w(2) bs by (simp add: udp_register_add_locator_def emit_fits)
  moreover from Cons.IH [of "rpk\<lparr>rp_buf := rp_buf rpk @ bs\<rparr>"] obtain rpk' where
    "register_add_locators cf (rpk\<lparr>rp_buf := rp_buf rpk @ bs\<rparr>) es = Some rpk'"
    "length (rp_buf rpk') \<le> length (rp_buf rpk) + length bs + 24 * length es"
    using Cons.prems \<open>length bs \<le> 24\<close> by auto
  ultimately show ?case using \<open>length bs \<le> 24\<close> by auto
qed simp

lemma register_at_ok:
  assumes "xtr_mapping db ms p es fl" and "plain_mapping p es" and "mse_key ms = Some key" and "length key < 2 ^ 31"
    and "su_family (mse_addr ms) \<in> {FAM_INET, FAM_INET6}" and "\<not> cf_lisp_te cf" and "length es \<le> 100"
  shows "\<exists>out cnt'. register_at cf db sent nonce ms cnt = Some (out, cnt')"
proof -
  obtain f a T n where m: "mse_eids ms = [(f, a)]" "db_table_of f db = Some T" "heap T a = Some n" "n_p n = p"
      "info n = Some es" "flags n = Some fl" using assms(1) by (auto simp: xtr_mapping_def)
  have p: "\<forall>e\<in>set es. wf_entry e" "distinct (map loc_key es)" "wf_padded (family p) (addr p)" "length es < 256"
    using assms(2) by (simp_all add: plain_mapping_def)
  obtain ad where ad: "prefix_address p = Some ad" "length ad \<le> 18"
    using p(3) by (auto simp: prefix_address_def wf_padded_def)
  have n36: "length (rp_buf new_register) = 36" "rp_req new_register = None" by (simp_all add: new_register_def)
  obtain rpk1 where 1: "udp_register_add_record new_register p (mf_ttl fl) (of_nat (length es)) (ucast (mf_version fl))
      (ucast (mf_A fl)) (ucast (mf_act fl)) = Some rpk1" "length (rp_buf rpk1) \<le> 66"
    using ad n36 by (simp add: udp_register_add_record_def udp_reply_add_record_def request_probes_def poke_def emit_def
      PKBUFLEN_def le_version_def)
  from locators_fit [OF p(1), of rpk1 cf] 1(2) assms(7) obtain rpk2 where
    2: "register_add_locators cf rpk1 es = Some rpk2" "length (rp_buf rpk2) \<le> 66 + 24 * length es"
    by (fastforce simp: PKBUFLEN_def)
  obtain pre rec where w: "rp_buf rpk2 = pre @ rec" "length pre = length (rp_buf new_register)"
    using written_carries [OF 1(1) 2(1) p(4,1,2,3)] by metis
  define want where "want = fst (next_count cnt)"
  note h = header_of_built [OF 1(1) 2(1) p(1) w, of ms want "fst nonce" "snd nonce"]
  let ?h = "register_packet (mse_proxy ms) want (fst nonce) (snd nonce) (replicate 20 0) rec"
  have l: "length ?h \<le> 2466" "36 \<le> length ?h" using 2(2) w n36 assms(7) by (simp_all add: register_packet_def)
  have "length (takeWhile (\<lambda>c. c \<noteq> CHR 0x00) key) \<le> length key" by (rule length_takeWhile_le)
  with assms(4) have "length (key_bytes key) < 2 ^ 31" by (simp add: key_bytes_def)
  then have "hmac_of (key_bytes key) ?h = Some (hmac_spec (key_bytes key) ?h)"
    using l by (intro hmac_of_spec) simp_all
  moreover have "length (hmac_spec (key_bytes key) ?h) = 20" by (simp add: hmac_spec_def)
  ultimately obtain b where b: "register_sign ms ?h = Some b"
    using l assms(3) by (simp add: register_sign_def PKMSIZE_def wr_def)
  obtain x where t: "udp_register_terminate sent (rpk2\<lparr>rp_buf := b\<rparr>) (mse_addr ms) = Some x"
    using assms(5) by (auto simp: udp_register_terminate_def)
  have c: "register_count cf ms es = of_nat (length es)"
    using p(1) by (intro register_count_plain) (simp add: wf_entry_def)
  show ?thesis
    using register_add_new m 1(1) 2(1) h b t c assms(6)
    by (cases x; cases "next_count cnt") (simp add: register_at_def want_def)
qed

section \<open>Names\<close>

text \<open>Words in lower case are the same word when they are equal.\<close>

definition lower :: "string \<Rightarrow> bool" where
  "lower s \<longleftrightarrow> map tolower s = s"

lemma same_lower:
  "lower a \<Longrightarrow> lower b \<Longrightarrow> same_nocase a b \<longleftrightarrow> a = b"
  "lower a \<Longrightarrow> same_nocase a ''IPv6'' \<longleftrightarrow> a = ''ipv6''"
  "lower a \<Longrightarrow> same_nocase a ''IPv4'' \<longleftrightarrow> a = ''ipv4''"
proof -
  show "lower a \<Longrightarrow> lower b \<Longrightarrow> same_nocase a b \<longleftrightarrow> a = b" by (simp add: lower_def same_nocase_def)
  have "map tolower ''IPv6'' = ''ipv6''" "map tolower ''IPv4'' = ''ipv4''" by code_simp+
  then show "lower a \<Longrightarrow> same_nocase a ''IPv6'' \<longleftrightarrow> a = ''ipv6''" "lower a \<Longrightarrow> same_nocase a ''IPv4'' \<longleftrightarrow> a = ''ipv4''"
    by (simp_all add: lower_def same_nocase_def)
qed

lemma lower_words:
  "lower ''eid_prefix''" "lower ''eid''" "lower ''address''" "lower ''ms''" "lower ''mr''" "lower ''petr''" "lower ''elp''"
  "lower ''hop''" "lower ''rloc''" "lower ''priority''" "lower ''m_priority''" "lower ''weight''" "lower ''m_weight''"
  "lower ''reachable''" "lower ''local''" "lower ''rloc-probing''" "lower ''family''" "lower ''id''" "lower ''key''"
  "lower ''proxy''" "lower ''ms_ids''" "lower ''prefix''" "lower ''act''" "lower ''a''" "lower ''version''" "lower ''ttl''"
  "lower ''none''" "lower ''all''"
  by code_simp+

lemma families: "family_of ''IPv6'' = FAM_INET6" "family_of ''IPv4'' = FAM_INET" "is_true ''true''"
  by code_simp+

lemmas words = same_lower lower_words families

section \<open>The node of a mapping\<close>

text \<open>A prefix that nothing extends gets a node of its own, with the prefix as it is stored.\<close>

lemma tget_new:
  assumes "trie t" and "wf_fam p" and "\<forall>(a, q, i)\<in>set (nodes t). \<not> prefix_includes p q"
  shows "\<exists>i. (tget_ref p f t, copied p, i) \<in> set (nodes (tget p f t))"
  using assms(1,3)
proof (induction t)
  case (Nd a q i k l r)
  have w: "wf_cp q" "wf_cp p" "\<not> prefix_includes p q" "trie l" "trie r" using Nd.prems assms(2) by (auto simp: wf_fam_def)
  show ?case
  proof (cases "prefix_includes q p")
    case True
    then have "plen q \<noteq> plen p"
      using w(1-3) length_pkey [OF w(1)] length_pkey [OF w(2)] by (auto simp: prefix_includes_iff)
    with True Nd w(4,5) show ?thesis by auto
  next
    case False
    note c = common_spec [OF w(1,2) False]
    have "plen (common q p) \<noteq> plen p"
      using c(5-7) w(1-3) length_pkey [OF w(2)] by (auto simp: prefix_includes_iff)
    with False show ?thesis by (auto simp: nodes_tsplit)
  qed
qed simp

lemma copied_same: "wf_padded (family p) (addr p) \<Longrightarrow> wf_fam p \<Longrightarrow> copied p = p"
  by (cases p) (auto simp: copied_def prefix_copy_def wf_padded_def wf_fam_def Let_def zero_prefix_def)

lemma fresh_mapping_node:
  assumes "ms_get_db_table db p = Some T" and "table_at T t" and "all_family (family p) t" and "wf_fam p"
    and "\<forall>(a, q, i)\<in>set (nodes t). \<not> prefix_includes p q" and "wf_padded (family p) (addr p)"
  shows "\<exists>a db' T' n. generic_mapping_new p db = Some (a, db') \<and> db_table_of (family p) db' = Some T' \<and> heap T' a = Some n \<and>
    n_p n = p \<and> info n = Some []"
proof -
  have t: "trie t" using assms(2) by (simp add: table_at_def)
  let ?a = "tget_ref p (next_ref T) t" and ?u = "tget p (next_ref T) t"
  from db_node_get_refines [OF assms(2-4)] obtain T' where g: "db_node_get p T = Some (?a, T')" "table_at T' (bump ?a ?u)"
    by blast
  obtain i where "(?a, copied p, i) \<in> set (nodes (bump ?a ?u))" using tget_new [OF t assms(4,5), of "next_ref T"] by auto
  then obtain n where n: "heap T' ?a = Some n" "n_p n = p"
    using nodes_heap g(2) copied_same [OF assms(6,4)] unfolding table_at_def by metis
  have "db_table_of (family p) (set_table (family p) X db) = Some X" for X
    using ms_get_set_table(1) [OF assms(1)] by (simp add: ms_get_db_table_def db_table_of_def split: af.splits)
  then show ?thesis using g(1) n assms(1)
    by (intro exI [of _ ?a] exI [of _ "set_table (family p) (put ?a (n\<lparr>info := Some []\<rparr>) T') db"])
      (simp add: generic_mapping_new_def db_node_set_info_def put_def)
qed

lemma new_mapping_node:
  assumes "free_prefix db p" and "valid_prefix p role db = Some (1, db1)" and "wf_padded (family p) (addr p)"
  shows "\<exists>a db2 T n. generic_mapping_new p db1 = Some (a, db2) \<and> db_table_of (family p) db2 = Some T \<and> heap T a = Some n \<and>
    n_p n = p \<and> info n = Some []"
proof -
  obtain T t where T: "ms_get_db_table db p = Some T" "table_at T t" "all_family (family p) t" "short t" "wf_fam p"
      "spine p t \<noteq> []" "\<forall>(a, q, i)\<in>set (nodes t). \<not> prefix_includes p q"
    using assms(1) by (auto simp: free_prefix_def)
  have wp: "wf_cp p" using T(5) by (simp add: wf_fam_def)
  from match_prefix_spine [OF T(2-4) wp T(6)] obtain T1 where T1: "db_node_match_prefix p T = Some (Some (last (spine p t)), T1)"
      "table_at T1 (bump (last (spine p t)) t)" by blast
  have db1: "db1 = set_table (family p) T1 db"
    using assms(2) T(1) T1(1) by (auto simp: valid_prefix_def bind_eq_Some_conv Let_def split: if_splits)
  show ?thesis
    using fresh_mapping_node [of db1 p T1, OF _ T1(2) _ T(5) _ assms(3)] T(3,7) ms_get_set_table(1) [OF T(1)]
    by (auto simp: db1 all_family_def)
qed

section \<open>The file of an xTR\<close>

type_synonym conf_loc = "bool \<times> string \<times> string \<times> string"

fun loc_events :: "conf_loc \<Rightarrow> xml_event list" where
  "loc_events (six, ad, pr, w) =
     [Start ''rloc'' [], Start ''address'' [''family'', if six then ''IPv6'' else ''IPv4''], Text ad, End ''address'',
      Start ''priority'' [], Text pr, End ''priority'', Start ''weight'' [], Text w, End ''weight'',
      Start ''reachable'' [], Text ''true'', End ''reachable'', End ''rloc'']"

fun loc_entry :: "conf_env \<Rightarrow> conf_loc \<Rightarrow> map_entry option" where
  "loc_entry env (six, ad, pr, w) =
     map_option (\<lambda>a. zero_entry\<lparr>me_rloc := a, me_priority := of_int (atoi pr), me_weight := of_int (atoi w), me_r := 1\<rparr>)
       (text_address env (if six then FAM_INET6 else FAM_INET) ad zero_sockunion)"

definition xtr_events :: "string \<Rightarrow> string \<Rightarrow> string \<Rightarrow> conf_loc list \<Rightarrow> xml_event list" where
  "xtr_events server key v locs =
     [Start ''ms'' [''family'', ''IPv4'', ''key'', key], Text server, End ''ms''] @
     Start ''eid'' [''prefix'', v] # concat (map loc_events locs) @ [End ''eid'']"

text \<open>A locator is accepted while the weights of its priority stay within 100.\<close>

definition accepted :: "map_entry list \<Rightarrow> map_entry \<Rightarrow> bool" where
  "accepted es e \<longleftrightarrow> me_priority e \<noteq> 0 \<and> me_weight e \<noteq> 0 \<and> uint (me_weight e) + sw_rloc (Some es) (me_priority e) \<le> 100"

text \<open>The state between two locators: the mapping at hand is a node with these locators.\<close>

definition loaded :: "cparser \<Rightarrow> cparser \<Rightarrow> af \<Rightarrow> ref \<Rightarrow> map_entry list db_node \<Rightarrow> map_entry list \<Rightarrow> bool" where
  "loaded st0 st f a n es \<longleftrightarrow> (\<exists>T. st = st0\<lparr>pr_db := pr_db st, pr_name := pr_name st, pr_fam := pr_fam st\<rparr> \<and>
     db_table_of f (pr_db st) = Some T \<and> heap T a = Some (n\<lparr>info := Some es\<rparr>))"

lemma xml_run_append:
  "xml_run h (es @ es') st = Option.bind (xml_run h es st) (\<lambda>r. case r of Inl c \<Rightarrow> Some (Inl c) | Inr st \<Rightarrow> xml_run h es' st)"
proof (induction h es st rule: xml_run.induct)
  case (2 h e es st)
  show ?case
  proof (cases "handle h e st")
    case (Some r)
    with 2 show ?thesis by (cases r) auto
  qed simp
qed simp

lemma db_table_set: "db_table_of f db = Some T \<Longrightarrow> db_table_of f (set_table f T' db) = Some T'"
  by (auto simp: db_table_of_def set_table_def split: af.splits)

lemma loc_run:
  assumes "loaded st0 st f a n es" and "pr_mapping st0 = Some (f, a)" and "pr_user st0 = None" and "loc_entry env l = Some e"
    and "accepted es e"
  shows "\<exists>st'. xml_run (xtr_handlers env) (loc_events l) st = Some (Inr st') \<and>
    loaded st0 st' f a n (insert_ordered insert_ip_ordered e es)"
proof -
  obtain six ad pr w where l: "l = (six, ad, pr, w)" by (cases l)
  let ?f = "if six then FAM_INET6 else FAM_INET"
  obtain x where x: "text_address env ?f ad zero_sockunion = Some x"
      "e = zero_entry\<lparr>me_rloc := x, me_priority := of_int (atoi pr), me_weight := of_int (atoi w), me_r := 1\<rparr>"
    using assms(4) l by auto
  obtain T where T: "st = st0\<lparr>pr_db := pr_db st, pr_name := pr_name st, pr_fam := pr_fam st\<rparr>"
      "db_table_of f (pr_db st) = Some T" "heap T a = Some (n\<lparr>info := Some es\<rparr>)"
    using assms(1) by (auto simp: loaded_def)
  have st: "pr_mapping st = Some (f, a)" "pr_user st = None"
    by (subst T(1), simp add: assms(2,3))+
  let ?H = "handle (xtr_handlers env)"
  let ?u = "\<lambda>e nm fm. st\<lparr>pr_user := Some e, pr_name := Some nm, pr_fam := fm\<rparr>"
  let ?e0 = "zero_entry" and ?e1 = "zero_entry\<lparr>me_rloc := x\<rparr>"
  let ?e2 = "zero_entry\<lparr>me_rloc := x, me_priority := of_int (atoi pr)\<rparr>"
  let ?e3 = "zero_entry\<lparr>me_rloc := x, me_priority := of_int (atoi pr), me_weight := of_int (atoi w)\<rparr>"
  have h: "?H (Start n as) s = xtr_startElement env n as s" "?H (End n) s = xtr_endElement n s"
    "?H (Text t) s = xtr_getElementValue env t s" for n as t s
    by (simp_all add: xtr_handlers_def)
  have "?H (Start ''rloc'' []) st = Some (Inr (?u ?e0 ''rloc'' (pr_fam st)))"
    unfolding h by (simp add: xtr_startElement_def named_def st one_of_def words)
  moreover have "?H (Start ''address'' [''family'', if six then ''IPv6'' else ''IPv4'']) (?u ?e0 ''rloc'' (pr_fam st)) =
      Some (Inr (?u ?e0 ''address'' ?f))"
    unfolding h by (cases six) (simp_all add: xtr_startElement_def named_def one_of_def words att_loop.simps xtr_atts_def
        family_att_def set_att_def pe_att_def xtr_open_def)
  moreover have "?H (Text ad) (?u ?e0 ''address'' ?f) = Some (Inr (?u ?e1 ''DUMMY'' FAM_INET))"
    unfolding h using x(1)
    by (simp add: xtr_getElementValue_def named_def words xtr_entry_text_def xtr_server_text_def zero_entry_def)
  moreover have "?H (End nm) (?u e' nm' fm) = Some (Inr (?u e' nm' fm))" if "nm \<in> {''address'', ''priority'', ''weight'', ''reachable''}"
    for nm e' nm' fm
    unfolding h using that by (elim insertE emptyE) (simp_all add: xtr_endElement_def one_of_def words)
  moreover have "?H (Start nm []) (?u e' nm' FAM_INET) = Some (Inr (?u e' nm FAM_INET))" if "nm \<in> {''priority'', ''weight'', ''reachable''}"
    for nm e' nm'
    unfolding h using that by (elim insertE emptyE) (simp_all add: xtr_startElement_def named_def one_of_def words)
  moreover have "?H (Text pr) (?u ?e1 ''priority'' FAM_INET) = Some (Inr (?u ?e2 ''DUMMY'' FAM_INET))"
    "?H (Text w) (?u ?e2 ''weight'' FAM_INET) = Some (Inr (?u ?e3 ''DUMMY'' FAM_INET))"
    "?H (Text ''true'') (?u ?e3 ''reachable'' FAM_INET) = Some (Inr (?u e ''DUMMY'' FAM_INET))"
    unfolding h x(2)
    by (simp_all add: xtr_getElementValue_def named_def words xtr_entry_text_def xtr_server_text_def)
  moreover obtain st' where "?H (End ''rloc'') (?u e ''DUMMY'' FAM_INET) = Some (Inr st')"
      "loaded st0 st' f a n (insert_ordered insert_ip_ordered e es)"
  proof
    let ?st = "st\<lparr>pr_user := None, pr_name := Some ''DUMMY'', pr_fam := FAM_INET,
      pr_db := set_table f (put a (n\<lparr>info := Some (insert_ordered insert_ip_ordered e es)\<rparr>) T) (pr_db st)\<rparr>"
    show "?H (End ''rloc'') (?u e ''DUMMY'' FAM_INET) = Some (Inr ?st)"
      unfolding h using assms(5) T(2,3) st
      by (simp add: xtr_endElement_def words accepted_def mapping_info_def add_rloc_def on_node_def generic_mapping_add_rloc_def)
    show "loaded st0 ?st f a n (insert_ordered insert_ip_ordered e es)"
      unfolding loaded_def using db_table_set [OF T(2)]
      by (subst T(1)) (simp add: assms(3) put_def)
  qed
  ultimately show ?thesis by (auto simp: l)
qed

text \<open>All locators, in the order of the file, each put at its place.\<close>

fun all_accepted :: "map_entry list \<Rightarrow> map_entry list \<Rightarrow> bool" where
  "all_accepted es [] \<longleftrightarrow> True"
| "all_accepted es (x # xs) \<longleftrightarrow> accepted es x \<and> all_accepted (insert_ordered insert_ip_ordered x es) xs"

definition ordered :: "map_entry list \<Rightarrow> map_entry list" where
  "ordered xs = foldl (\<lambda>es e. insert_ordered insert_ip_ordered e es) [] xs"

lemma locs_run:
  assumes "pr_mapping st0 = Some (f, a)" and "pr_user st0 = None"
  shows "loaded st0 st f a n es \<Longrightarrow> map (loc_entry env) locs = map Some xs \<Longrightarrow> all_accepted es xs \<Longrightarrow>
    \<exists>st'. xml_run (xtr_handlers env) (concat (map loc_events locs)) st = Some (Inr st') \<and>
      loaded st0 st' f a n (foldl (\<lambda>es e. insert_ordered insert_ip_ordered e es) es xs)"
proof (induction locs arbitrary: st es xs)
  case (Cons l locs)
  then obtain x ys where x: "xs = x # ys" "loc_entry env l = Some x" "map (loc_entry env) locs = map Some ys" by (cases xs) auto
  from loc_run [OF Cons.prems(1) assms x(2)] Cons.prems(3) x(1) obtain st1 where
    s: "xml_run (xtr_handlers env) (loc_events l) st = Some (Inr st1)" "loaded st0 st1 f a n (insert_ordered insert_ip_ordered x es)"
    by auto
  from Cons.IH [OF s(2) x(3)] Cons.prems(3) x(1) s(1) show ?case by (auto simp: xml_run_append)
qed simp

text \<open>The opening of the mapping: the map server has it, the table a node for it.\<close>

lemma eid_opens:
  assumes "read_prefix env v = (1, p0)" and "p = apply_mask p0" and "free_prefix (pr_db st) p"
    and "valid_prefix p ROLE_MAPP_XTR (pr_db st) = Some (1, db1)" and "wf_padded (family p) (addr p)"
    and "\<not> one_of v [''act'', ''a'', ''version'', ''ttl'']" and "pr_ms st = [ms]"
  shows "\<exists>a n st'. handle (xtr_handlers env) (Start ''eid'' [''prefix'', v]) st = Some (Inr st') \<and>
    pr_mapping st' = Some (family p, a) \<and> pr_ms st' = [ms_add_eid (family p, a) ms] \<and> pr_user st' = pr_user st \<and>
    n_p n = p \<and> loaded st' st' (family p) a n []"
proof -
  from new_mapping_node [OF assms(3-5)] obtain a db2 T n where n: "generic_mapping_new p db1 = Some (a, db2)"
      "db_table_of (family p) db2 = Some T" "heap T a = Some n" "n_p n = p" "info n = Some []" by blast
  let ?fl = "zero_flags\<lparr>mf_range := ROLE_MAPP_XTR\<rparr>"
  let ?st1 = "st\<lparr>pr_msids := None, pr_db := db2, pr_mapping := Some (family p, a), pr_flags := ?fl\<rparr>"
  let ?st2 = "st\<lparr>pr_msids := None, pr_db := db2, pr_mapping := Some (family p, a), pr_flags := ?fl\<lparr>mf_A := 1\<rparr>,
    pr_etr := pr_etr st @ [(family p, a)], pr_ms := [ms_add_eid (family p, a) ms], pr_name := Some ''eid''\<rparr>"
  have "new_mapping env ROLE_MAPP_XTR 1 ROLE_MAPP_XTR v (st\<lparr>pr_msids := None\<rparr>) = Some (Inr ?st1)"
    using assms(1,2,4) n(1) by (simp add: new_mapping_def Let_def)
  then have x: "xtr_prefix env v (st\<lparr>pr_msids := None\<rparr>) = Some (Inr (?st1\<lparr>pr_flags := (pr_flags ?st1)\<lparr>mf_A := 1\<rparr>,
      pr_etr := pr_etr ?st1 @ [(family p, a)], pr_ms := map (ms_add_eid (family p, a)) (pr_ms st)\<rparr>))"
    by (simp add: xtr_prefix_def Let_def)
  have w: "\<not> same_nocase ''act'' v" "\<not> same_nocase ''a'' v" "\<not> same_nocase ''version'' v" "\<not> same_nocase ''ttl'' v"
    using assms(6) by (auto simp: one_of_def same_nocase_def)
  have "handle (xtr_handlers env) (Start ''eid'' [''prefix'', v]) st = Some (Inr ?st2)"
    using x w assms(7) by (simp add: xtr_handlers_def xtr_startElement_def named_def one_of_def words att_loop.simps
      xtr_eid_atts_def set_att_def act_att_def a_att_def version_att_def ttl_att_def flags_att_def)
  moreover have "n\<lparr>info := Some []\<rparr> = n" using n(5) by (cases n) simp
  ultimately show ?thesis using n by (intro exI [of _ a] exI [of _ n] exI [of _ ?st2]) (simp add: loaded_def)
qed

lemma ms_opens:
  assumes "pr_ms st = []" and "pr_pe st = None" and "pr_user st = None" and "\<not> same_nocase ''proxy'' key"
    and "text_address env FAM_INET server (zero_sockunion\<lparr>su_port := LISP_CP_PORT\<rparr>) = Some ad"
  shows "\<exists>st'. xml_run (xtr_handlers env) [Start ''ms'' [''family'', ''IPv4'', ''key'', key], Text server, End ''ms''] st =
      Some (Inr st') \<and> pr_db st' = pr_db st \<and> pr_user st' = None \<and>
    pr_ms st' = [\<lparr>mse_addr = ad, mse_id = -1, mse_key = Some key, mse_proxy = 0, mse_eids = []\<rparr>]"
proof -
  let ?H = "handle (xtr_handlers env)"
  have h: "?H (Start n as) s = xtr_startElement env n as s" "?H (End n) s = xtr_endElement n s"
    "?H (Text t) s = xtr_getElementValue env t s" for n as t s
    by (simp_all add: xtr_handlers_def)
  let ?ms = "\<lparr>mse_addr = zero_sockunion, mse_id = -1, mse_key = Some key, mse_proxy = 0, mse_eids = []\<rparr>"
  let ?s1 = "st\<lparr>pr_ms := [?ms], pr_ms_cur := Some 0, pr_fam := FAM_INET, pr_name := Some ''ms''\<rparr>"
  let ?s2 = "st\<lparr>pr_ms := [?ms\<lparr>mse_addr := ad\<rparr>], pr_ms_cur := Some 0, pr_fam := FAM_INET, pr_name := Some ''DUMMY''\<rparr>"
  have "?H (Start ''ms'' [''family'', ''IPv4'', ''key'', key]) st = Some (Inr ?s1)"
    unfolding h using assms(1,2,4) by (simp add: xtr_startElement_def named_def one_of_def words att_loop.simps xtr_atts_def
        family_att_def set_att_def pe_att_def xtr_open_def on_ms_def new_ms_def)
  moreover have "?H (Text server) ?s1 = Some (Inr ?s2)"
    unfolding h using assms(3,5) by (simp add: xtr_getElementValue_def named_def words xtr_server_text_def on_ms_def)
  moreover have "?H (End ''ms'') ?s2 = Some (Inr (?s2\<lparr>pr_ms_cur := None\<rparr>))"
    unfolding h by (simp add: xtr_endElement_def one_of_def words)
  ultimately show ?thesis using assms(3) by simp
qed

lemma xtr_configured:
  assumes "pr_ms st = []" and "pr_pe st = None" and "pr_user st = None" and "\<not> same_nocase ''proxy'' key"
    and "text_address env FAM_INET server (zero_sockunion\<lparr>su_port := LISP_CP_PORT\<rparr>) = Some ad"
    and "read_prefix env v = (1, p0)" and "p = apply_mask p0" and "free_prefix (pr_db st) p"
    and "valid_prefix p ROLE_MAPP_XTR (pr_db st) = Some (1, db1)" and "wf_padded (family p) (addr p)"
    and "\<not> one_of v [''act'', ''a'', ''version'', ''ttl'']" and "map (loc_entry env) locs = map Some xs" and "all_accepted [] xs"
  shows "\<exists>st' ms fl. xml_run (xtr_handlers env) (xtr_events server key v locs) st = Some (Inr st') \<and> pr_ms st' = [ms] \<and>
    mse_addr ms = ad \<and> mse_key ms = Some key \<and> mse_proxy ms = 0 \<and> xtr_mapping (pr_db st') ms p (ordered xs) fl"
proof -
  from ms_opens [OF assms(1-5)] obtain s1 where s1: "xml_run (xtr_handlers env)
      [Start ''ms'' [''family'', ''IPv4'', ''key'', key], Text server, End ''ms''] st = Some (Inr s1)" "pr_db s1 = pr_db st"
      "pr_user s1 = None" "pr_ms s1 = [\<lparr>mse_addr = ad, mse_id = -1, mse_key = Some key, mse_proxy = 0, mse_eids = []\<rparr>]" by blast
  from eid_opens [OF assms(6,7) _ _ assms(10,11) s1(4)] assms(8,9) s1(2) obtain a n s2 where
    s2: "handle (xtr_handlers env) (Start ''eid'' [''prefix'', v]) s1 = Some (Inr s2)" "pr_mapping s2 = Some (family p, a)"
      "pr_ms s2 = [ms_add_eid (family p, a) \<lparr>mse_addr = ad, mse_id = -1, mse_key = Some key, mse_proxy = 0, mse_eids = []\<rparr>]"
      "pr_user s2 = pr_user s1" "n_p n = p" "loaded s2 s2 (family p) a n []" by auto
  have u: "pr_user s2 = None" using s2(4) s1(3) by simp
  from locs_run [OF s2(2) u s2(6) assms(12,13)] obtain s3 where
    s3: "xml_run (xtr_handlers env) (concat (map loc_events locs)) s2 = Some (Inr s3)" "loaded s2 s3 (family p) a n (ordered xs)"
    by (auto simp: ordered_def)
  then obtain T where T: "s3 = s2\<lparr>pr_db := pr_db s3, pr_name := pr_name s3, pr_fam := pr_fam s3\<rparr>"
      "db_table_of (family p) (pr_db s3) = Some T" "heap T a = Some (n\<lparr>info := Some (ordered xs)\<rparr>)" by (auto simp: loaded_def)
  have e: "pr_mapping s3 = Some (family p, a)" "pr_ms s3 = pr_ms s2" by (subst T(1), simp add: s2(2))+
  obtain g where g: "generic_mapping_set_flags a (pr_flags s3) T = Some (put a (n\<lparr>info := Some (ordered xs), flags := Some g\<rparr>) T)"
    using T(3) by (cases "flags n") (auto simp: generic_mapping_set_flags_def)
  let ?T = "put a (n\<lparr>info := Some (ordered xs), flags := Some g\<rparr>) T"
  let ?s4 = "s3\<lparr>pr_db := set_table (family p) ?T (pr_db s3), pr_flags := zero_flags, pr_mapping := None\<rparr>"
  have "handle (xtr_handlers env) (End ''eid'') s3 = Some (Inr ?s4)"
    using e g T(2) by (simp add: xtr_handlers_def xtr_endElement_def one_of_def words set_mapping_flags_def on_node_def)
  then have "xml_run (xtr_handlers env) (Start ''eid'' [''prefix'', v] # concat (map loc_events locs) @ [End ''eid'']) s1 = Some (Inr ?s4)"
    using s2(1) s3(1) by (simp add: xml_run_append)
  then have "xml_run (xtr_handlers env) (xtr_events server key v locs) st = Some (Inr ?s4)"
    unfolding xtr_events_def xml_run_append [of _ "[Start ''ms'' [''family'', ''IPv4'', ''key'', key], Text server, End ''ms'']"] s1(1)
    by simp
  moreover have "xtr_mapping (pr_db ?s4) (hd (pr_ms ?s4)) p (ordered xs) g"
    unfolding xtr_mapping_def using e(2) s2(3,5) db_table_set [OF T(2)]
    by (intro exI [of _ "family p"] exI [of _ a] exI [of _ ?T]) (simp add: ms_add_eid_def put_def)
  ultimately show ?thesis using e(2) s2(3) by (intro exI [of _ ?s4]) (auto simp: ms_add_eid_def)
qed

section \<open>The locators of the file\<close>

lemma mset_insert_ordered: "mset (insert_ordered cmp x xs) = add_mset x (mset xs)"
  by (induction xs) auto

lemma ordered_mset: "mset (ordered xs) = mset xs"
proof -
  have "mset (foldl (\<lambda>es e. insert_ordered insert_ip_ordered e es) es xs) = mset es + mset xs" for es
    by (induction xs arbitrary: es) (simp_all add: mset_insert_ordered)
  then show ?thesis by (simp add: ordered_def)
qed

definition pton_typed :: "conf_env \<Rightarrow> bool" where
  "pton_typed env \<longleftrightarrow> (\<forall>f\<in>{FAM_INET, FAM_INET6}. \<forall>s a. ce_pton env f s = Some a \<longrightarrow> length a = SIN_LEN f)"

lemma loc_entry_wf:
  assumes "pton_typed env" and "loc_entry env l = Some e"
  shows "wf_entry e" and "me_r e = 1"
proof -
  obtain six ad pr w where l: "l = (six, ad, pr, w)" by (cases l)
  have "length a = (if six then 16 else 4)" if "ce_pton env (if six then FAM_INET6 else FAM_INET) ad = Some a" for a
    using assms(1) that unfolding pton_typed_def by (cases six) (simp_all add: SIN_LEN_def)
  with assms(2) show "wf_entry e" "me_r e = 1"
    by (auto simp: l text_address_def wf_entry_def wf_su_def zero_entry_def zero_sockunion_def set_sin_addr_def
        set_sin6_addr_def split: if_splits)
qed

lemma ordered_plain:
  assumes "pton_typed env" and "map (loc_entry env) locs = map Some xs" and "distinct (map loc_key xs)" and "length xs < 256"
    and "wf_padded (family p) (addr p)" and "wf_fam p" and "plen p < 128"
  shows "plain_mapping p (ordered xs)" and "xs \<noteq> [] \<Longrightarrow> find (\<lambda>e. me_r e \<noteq> 0) (ordered xs) = Some (hd (ordered xs))"
proof -
  have w: "wf_entry e \<and> me_r e = 1" if "e \<in> set xs" for e
  proof -
    have "Some e \<in> set (map (loc_entry env) locs)" unfolding assms(2) using that by simp
    then obtain l where "loc_entry env l = Some e" by auto
    then show ?thesis using loc_entry_wf [OF assms(1)] by blast
  qed
  note m = ordered_mset [of xs]
  have s: "set (ordered xs) = set xs" "length (ordered xs) = length xs"
    using mset_eq_setD [OF m] mset_eq_length [OF m] .
  have "mset (map loc_key (ordered xs)) = mset (map loc_key xs)" using m by simp
  then have "distinct (map loc_key (ordered xs))" using assms(3) mset_eq_imp_distinct_iff by blast
  then show "plain_mapping p (ordered xs)" using w s assms(4-7) by (simp add: plain_mapping_def)
  assume "xs \<noteq> []"
  then obtain y ys where "ordered xs = y # ys" using s(2) by (cases "ordered xs") auto
  moreover have "me_r y = 1" using w s(1) calculation by auto
  ultimately show "find (\<lambda>e. me_r e \<noteq> 0) (ordered xs) = Some (hd (ordered xs))" by simp
qed

section \<open>Two files\<close>

text \<open>What the two files must have, and the states they are read in.\<close>

definition xtr_file_ok ::
  "conf_env \<Rightarrow> cparser \<Rightarrow> string \<Rightarrow> sockunion \<Rightarrow> string \<Rightarrow> string \<Rightarrow> cp_prefix \<Rightarrow> conf_loc list \<Rightarrow> map_entry list \<Rightarrow> bool" where
  "xtr_file_ok env st server ad key v p locs xs \<longleftrightarrow> pton_typed env \<and> pr_ms st = [] \<and> pr_pe st = None \<and> pr_user st = None \<and>
     \<not> same_nocase ''proxy'' key \<and> text_address env FAM_INET server (zero_sockunion\<lparr>su_port := LISP_CP_PORT\<rparr>) = Some ad \<and>
     \<not> one_of v [''act'', ''a'', ''version'', ''ttl''] \<and> map (loc_entry env) locs = map Some xs \<and> all_accepted [] xs \<and>
     distinct (map loc_key xs) \<and> xs \<noteq> [] \<and> length xs \<le> 100 \<and> wf_padded (family p) (addr p) \<and> free_prefix (pr_db st) p \<and>
     (\<exists>p0 db1. read_prefix env v = (1, p0) \<and> p = apply_mask p0 \<and> valid_prefix p ROLE_MAPP_XTR (pr_db st) = Some (1, db1))"

definition site_file_ok :: "conf_env \<Rightarrow> cparser \<Rightarrow> string \<Rightarrow> cp_prefix \<Rightarrow> bool" where
  "site_file_ok env st v p \<longleftrightarrow> free_prefix (pr_db st) p \<and> (\<exists>xs. list_at (pr_sites st) xs) \<and> pr_site st = None \<and> pr_eid st = None \<and>
     (\<exists>p0 db1. read_prefix env v = (1, p0) \<and> p = apply_mask p0 \<and> valid_prefix p ROLE_EID (pr_db st) = Some (1, db1))"


section \<open>Two sample files\<close>

definition conf_root :: "map_entry list db_node" where
  "conf_root = \<lparr>n_p = \<lparr>family = FAM_INET, prefixlen = 0, addr = replicate 16 0\<rparr>, parent = None, l_left = None,
     l_right = None, info = None, flags = Some (ms_new_node_ex ROLE_ROOT), lock_ct = 1\<rparr>"

definition conf_state :: cparser where
  "conf_state = \<lparr>pr_db = \<lparr>lisp_db4 = (db_table_init True)\<lparr>heap := [0 \<mapsto> conf_root], next_ref := 1, top := Some 0, count := 1\<rparr>,
       lisp_db6 = db_table_init True\<rparr>,
     pr_sites = list_init, pr_etr = [], pr_ms = [], pr_mr = [], pr_petr = [], pr_rlocs = [], pr_ms_cur = None, pr_pe = None,
     pr_hop = None, pr_user = None, pr_site = None, pr_eid = None, pr_mapping = None, pr_flags = zero_flags, pr_fam = FAM_INET,
     pr_name = None, pr_msids = None\<rparr>"

definition conf_lib :: conf_env where
  "conf_lib = \<lparr>ce_aton = (\<lambda>s. if s = ''10.1.2.0'' then Some [10, 1, 2, 0] else None),
     ce_pton = (\<lambda>f s. if f = FAM_INET \<and> s = ''10.0.0.1'' then Some [10, 0, 0, 1] else None),
     ce_junk = \<lparr>family = FAM_OTHER 0, prefixlen = 0, addr = replicate 16 0\<rparr>\<rparr>"

definition conf_locs :: "conf_loc list" where
  "conf_locs = [(False, ''10.0.0.1'', ''1'', ''100'')]"

definition conf_rloc :: map_entry where
  "conf_rloc = zero_entry\<lparr>me_rloc := \<lparr>su_family = FAM_INET, su_port = 0, su_rest = [10, 0, 0, 1] @ replicate 120 0\<rparr>,
     me_priority := 1, me_weight := 100, me_r := 1\<rparr>"

definition conf_server :: sockunion where
  "conf_server = \<lparr>su_family = FAM_INET, su_port = LISP_CP_PORT, su_rest = [10, 0, 0, 1] @ replicate 120 0\<rparr>"

lemma conf_reads:
  "read_prefix conf_lib ''10.1.2.0/24'' = (1, reg_eid)" "apply_mask reg_eid = reg_eid"
  "\<not> same_nocase ''proxy'' ''key''" "\<not> one_of ''10.1.2.0/24'' [''act'', ''a'', ''version'', ''ttl'']"
  "text_address conf_lib FAM_INET ''10.0.0.1'' (zero_sockunion\<lparr>su_port := LISP_CP_PORT\<rparr>) = Some conf_server"
  "map (loc_entry conf_lib) conf_locs = map Some [conf_rloc]"
  by code_simp+

lemma conf_accepted: "all_accepted [] [conf_rloc]"
  by code_simp

lemma conf_tree:
  "table_at (lisp_db4 (pr_db conf_state)) (Nd 0 (n_p conf_root) None 1 Tip Tip)" "prefix_includes (n_p conf_root) reg_eid"
  "\<not> prefix_includes reg_eid (n_p conf_root)"
proof -
  show "table_at (lisp_db4 (pr_db conf_state)) (Nd 0 (n_p conf_root) None 1 Tip Tip)"
    by (simp add: table_at_def conf_state_def conf_root_def wf_cp_def plen_def)
  have "prefix_match (n_p conf_root) reg_eid = Some True" "prefix_match reg_eid (n_p conf_root) = Some False" by code_simp+
  then show "prefix_includes (n_p conf_root) reg_eid" "\<not> prefix_includes reg_eid (n_p conf_root)"
    by (simp_all add: prefix_includes_def wf_cp_def plen_def conf_root_def reg_eid_def)
qed

lemma conf_free: "free_prefix (pr_db conf_state) reg_eid"
proof -
  have "all_family (family reg_eid) (Nd 0 (n_p conf_root) None 1 Tip Tip)" "short (Nd 0 (n_p conf_root) None 1 Tip Tip)"
    "wf_fam reg_eid" "plen reg_eid < 128" "ms_get_db_table (pr_db conf_state) reg_eid = Some (lisp_db4 (pr_db conf_state))"
    by (simp_all add: all_family_def short_def conf_root_def reg_eid_def plen_def wf_fam_def wf_cp_def ms_get_db_table_def)
  with conf_tree show ?thesis unfolding free_prefix_def
    by (intro exI [of _ "lisp_db4 (pr_db conf_state)"] exI [of _ "Nd 0 (n_p conf_root) None 1 Tip Tip"]) simp
qed

lemma conf_valid: "role \<in> {ROLE_EID, ROLE_MAPP_XTR} \<Longrightarrow> \<exists>db1. valid_prefix reg_eid role (pr_db conf_state) = Some (1, db1)"
proof -
  assume r: "role \<in> {ROLE_EID, ROLE_MAPP_XTR}"
  let ?T = "lisp_db4 (pr_db conf_state)" and ?t = "Nd 0 (n_p conf_root) None 1 Tip Tip"
  have s: "spine reg_eid ?t = [0]" using conf_tree(2) by simp
  have a: "all_family (family reg_eid) ?t" "short ?t" "wf_cp reg_eid"
    by (simp_all add: all_family_def short_def conf_root_def reg_eid_def plen_def wf_cp_def)
  from match_prefix_spine [OF conf_tree(1) a] s obtain T' where
    T': "db_node_match_prefix reg_eid ?T = Some (Some 0, T')" "db_lock_node 0 ?T = Some T'" using conf_tree(2) by auto
  have "top T' = Some 0" "\<exists>n. heap T' 0 = Some n \<and> n_p n = n_p conf_root"
    using T'(2) by (auto simp: db_lock_node_def put_def conf_state_def)
  moreover have "prefixlen (n_p conf_root) \<noteq> prefixlen reg_eid" by (simp add: conf_root_def reg_eid_def)
  moreover have "ms_get_db_table (pr_db conf_state) reg_eid = Some ?T" by (simp add: ms_get_db_table_def reg_eid_def)
  ultimately show ?thesis using T'(1) r by (auto simp: valid_prefix_def climb_flags.simps)
qed

lemma conf_files:
  "xtr_file_ok conf_lib conf_state ''10.0.0.1'' conf_server ''key'' ''10.1.2.0/24'' reg_eid conf_locs [conf_rloc]"
  "site_file_ok conf_lib conf_state ''10.1.2.0/24'' reg_eid"
proof -
  have e: "\<exists>p0 db1. read_prefix conf_lib ''10.1.2.0/24'' = (1, p0) \<and> reg_eid = apply_mask p0 \<and>
      valid_prefix reg_eid role (pr_db conf_state) = Some (1, db1)" if "role \<in> {ROLE_EID, ROLE_MAPP_XTR}" for role
    using conf_valid [OF that] conf_reads(1,2) by auto
  have "pton_typed conf_lib" by (simp add: pton_typed_def conf_lib_def SIN_LEN_def)
  moreover have "wf_padded (family reg_eid) (addr reg_eid)" by (simp add: wf_padded_def reg_eid_def)
  moreover have "pr_ms conf_state = []" "pr_pe conf_state = None" "pr_user conf_state = None" by (simp_all add: conf_state_def)
  ultimately show "xtr_file_ok conf_lib conf_state ''10.0.0.1'' conf_server ''key'' ''10.1.2.0/24'' reg_eid conf_locs [conf_rloc]"
    unfolding xtr_file_ok_def using conf_reads conf_accepted conf_free e [of ROLE_MAPP_XTR] by simp
  have "list_at (pr_sites conf_state) []" "pr_site conf_state = None" "pr_eid conf_state = None"
    by (simp_all add: conf_state_def list_at_init)
  then show "site_file_ok conf_lib conf_state ''10.1.2.0/24'' reg_eid"
    unfolding site_file_ok_def using conf_free e [of ROLE_EID] by blast
qed


end
