(* ===== verification/Cp_Conf_Props.thy ===== *)
theory Cp_Conf_Props
  imports Cp_Conf_Sound Cp_Conf_Served
begin

text \<open>
  Properties of the configuration reader: it keeps its state in order, and where it does not do what a file says.
\<close>

section \<open>The invariant of a configuration\<close>

text \<open>
  C14: The configuration is read soundly: whatever the main file and the XML files hold, when the reader does not end the
  process, both databases are still radix trees of their own family, every node that is kept by the xTR's list of
  mappings, by a map server, by a site or by the reader itself is a node of its tree, the family that is set
  is one of the two, and the map server and the site at hand exist.
\<close>

theorem configuration_stays_typed:
  assumes "env_typed (cm_conf env)" and "conf_typed st" and "pr_ms_cur st = None"
    and "parser_config env config mc st = Some (Inr (mc', st'))"
  shows "conf_typed st'"
proof -
  obtain mc1 mc2 s1 s2 s3 s4 where r: "xtr_file env mc1 st = Some (Inr (mc2, s1))"
      "conf_file env FNC_MS 2 (ms_parser_config (cm_conf env)) mc2 s1 = Some (Inr s2)"
      "conf_file env FNC_MR 3 (mr_parser_config (cm_conf env)) mc2 s2 = Some (Inr s3)"
      "conf_file env FNC_RTR 4 (rtr_parser_config (cm_conf env) (mc_src4 mc2, None)) mc2 s3 = Some (Inr s4)"
      "conf_file env FNC_NODE 5 (node_parser_config (cm_conf env)) mc2 s4 = Some (Inr st')"
    using assms(4) by (auto simp: parser_config_def conf_bind_Inr split: option.splits)
  note k = all_handlers_keep [OF assms(1)]
  have s1: "conf_typed s1" by (rule xtr_file_keeps [OF assms(1) r(1) assms(2,3)])
  have s2: "conf_typed s2"
    using conf_file_keeps [OF r(2) s1] xml_configure_keeps [OF k(2) s1] unfolding ms_parser_config_def by blast
  have s3: "conf_typed s3"
    using conf_file_keeps [OF r(3) s2] xml_configure_keeps [OF k(3) s2] unfolding mr_parser_config_def by blast
  have "conf_typed (s3\<lparr>pr_mr := [], pr_rlocs := x\<rparr>)" for x using s3 by simp
  then have s4: "conf_typed s4"
    using conf_file_keeps [OF r(4) s3] xml_configure_keeps [OF k(5)] unfolding rtr_parser_config_def Let_def by blast
  show ?thesis
    using conf_file_keeps [OF r(5) s4] xml_configure_keeps [OF k(4) s4] unfolding node_parser_config_def by blast
qed

definition site_main :: main_env where
  "site_main = \<lparr>cm_conf = conf_lib, cm_socket = (\<lambda>_. True), cm_addrinfo = (\<lambda>_ _. None), cm_ifs = None, cm_readable = (\<lambda>_. True),
     cm_xml = (\<lambda>_. Some (site_events ''key'' ''10.1.2.0/24'', True))\<rparr>"

definition main_start :: main_conf where
  "main_start = \<lparr>mc_debug = 0, mc_fncs = 0, mc_te = False, mc_rand = True, mc_pool = 0, mc_min = 0, mc_max = 0, mc_linger = 0,
     mc_src4 = None, mc_src6 = None, mc_files = Map.empty, mc_petr = None\<rparr>"

definition site_lines :: "string list" where
  "site_lines = [''functions = ms'' @ [CHR 0x0A], ''ms_configure = f'' @ [CHR 0x0A]]"

lemma site_main_lines:
  "\<exists>mc. conf_lines site_main site_lines (conf_reset main_start) = Some (Inr mc) \<and> mc_fncs mc = FNC_MS \<and> mc_files mc = [2 \<mapsto> ''f'']"
proof -
  have "line_words (''functions = ms'' @ [CHR 0x0A]) = Some (Inr (Some [''functions'', ''='', ''ms'']))"
    "line_words (''ms_configure = f'' @ [CHR 0x0A]) = Some (Inr (Some [''ms_configure'', ''='', ''f'']))" by code_simp+
  moreover have "key_line site_main ''functions'' [''ms''] mc = Inr (mc\<lparr>mc_fncs := FNC_MS\<rparr>)" if "mc_fncs mc = 0" for mc
  proof -
    have "\<not> same_nocase ''functions'' ''debug_level''" "same_nocase ''functions'' ''functions''" "fnc_of ''ms'' = FNC_MS" by code_simp+
    then show ?thesis using that by (simp add: key_line_def functions_line_def FNC_MS_def Let_def)
  qed
  moreover have "key_line site_main ''ms_configure'' [''f''] mc = Inr (mc\<lparr>mc_files := (mc_files mc)(2 \<mapsto> ''f'')\<rparr>)"
    if "mc_fncs mc = FNC_MS" for mc
  proof -
    have "map (same_nocase ''ms_configure'') [''debug_level'', ''functions'', ''source_ipv4'', ''source_ipv6'', ''srcport_rand'', ''lisp_te'',
        ''queue_size'', ''min_thread'', ''max_thread'', ''linger_thread'', ''xtr_configure'', ''ms_configure''] =
        [False, False, False, False, False, False, False, False, False, False, False, True]" by code_simp
    then show ?thesis using that by (simp add: key_line_def file_line_def site_main_def FNC_MS_def Let_def)
  qed
  ultimately show ?thesis
    by (simp add: site_lines_def conf_line_def conf_reset_def main_start_def)
qed

theorem configuration_stays_typed_witness:
  "\<exists>mc' st'. parser_config site_main (Some site_lines) main_start conf_state = Some (Inr (mc', st')) \<and> conf_typed st' \<and>
    pr_db st' \<noteq> pr_db conf_state"
proof -
  obtain mc where mc: "conf_lines site_main site_lines (conf_reset main_start) = Some (Inr mc)" "mc_fncs mc = FNC_MS"
      "mc_files mc = [2 \<mapsto> ''f'']" using site_main_lines by blast
  obtain p0 db1 where f: "read_prefix conf_lib ''10.1.2.0/24'' = (1, p0)" "reg_eid = apply_mask p0" "free_prefix (pr_db conf_state) (apply_mask p0)"
      "valid_prefix (apply_mask p0) ROLE_EID (pr_db conf_state) = Some (1, db1)" "list_at (pr_sites conf_state) []"
      "pr_site conf_state = None" "pr_eid conf_state = None"
    using conf_files(2) by (auto simp: site_file_ok_def conf_state_def list_at_init)
  from site_awaits [OF f(1,3-7), of "''key''"] obtain st' where
    st': "xml_run (ms_handlers conf_lib) (site_events ''key'' ''10.1.2.0/24'') conf_state = Some (Inr st')"
      "awaits \<lparr>ms_db = pr_db st', ms_sites = site_data (pr_sites st')\<rparr> reg_eid ''key''" unfolding f(2) by blast
  have u: "conf_state\<lparr>pr_user := None\<rparr> = conf_state" by (simp add: conf_state_def)
  have r: "parser_config site_main (Some site_lines) main_start conf_state = Some (Inr (mc, st'))"
    using mc st'(1) u by (simp add: parser_config_def conf_bind_def xtr_file_def conf_file_def ms_parser_config_def xml_configure_def
      site_main_def FNC_MS_def)
  have t: "env_typed (cm_conf site_main)" by (simp add: env_typed_def site_main_def conf_lib_def)
  have e6: "table_with FAM_INET6 {} (lisp_db6 (pr_db conf_state))"
    by (simp add: table_with_def conf_state_def db_table_init_def table_at_def all_family_def exI [of _ Tip])
  have "all_family FAM_INET (Nd 0 (n_p conf_root) None 1 Tip Tip)" by (simp add: all_family_def conf_root_def)
  then have "table_with FAM_INET {} (lisp_db4 (pr_db conf_state))" using conf_tree(1) by (auto simp: table_with_def)
  then have c: "conf_typed conf_state"
    using e6 by (simp add: conf_typed_def db_typed_def conf_refs_def site_refs_def cell_data_def conf_state_def list_init_def)
  have "pr_ms_cur conf_state = None" by (simp add: conf_state_def)
  from configuration_stays_typed [OF t c this r] have "conf_typed st'" .
  moreover have "pr_db st' \<noteq> pr_db conf_state"
  proof
    assume "pr_db st' = pr_db conf_state"
    with st'(2) obtain e site n where "heap (lisp_db4 (pr_db conf_state)) e = Some n" "top (lisp_db4 (pr_db conf_state)) \<noteq> Some e"
      by (auto simp: awaits_def site_leaf_def ms_get_db_table_def reg_eid_def)
    then show False by (simp add: conf_state_def split: if_splits)
  qed
  ultimately show ?thesis using r by blast
qed

section \<open>Where the reader does not do what a file says\<close>

text \<open>
  The file of an RTR cannot give a map resolver an attribute: whatever attribute the element has, the loop over the
  attributes does not end, and neither does the process.
\<close>

theorem rtr_resolver_attribute_hangs: "rtr_startElement env ''mr'' (a # as) st = None"
proof -
  have "\<not> same_nocase ''mr'' ''eid''" "same_nocase ''mr'' ''mr''" by code_simp+
  moreover have "rtr_family (a # as) FAM_INET = None" using rtr_family_ends [of "a # as"] by fastforce
  ultimately show ?thesis by (simp add: rtr_startElement_def named_def)
qed

text \<open>A value that is no name of an attribute of a DDT node.\<close>

definition plain_value :: "string \<Rightarrow> bool" where
  "plain_value v \<longleftrightarrow> \<not> one_of v [''prefix'', ''act'', ''iid'', ''a'', ''version'', ''ttl'', ''referral'', ''incomplete'']"

text \<open>
  A DDT node keeps the lifetime of a delegated prefix only when it is the last attribute of the element: with the version
  behind it the lifetime is the default of 60 minutes whatever the file says, in the other order it is the one of the file.
\<close>

theorem node_lifetime_depends_on_order:
  assumes "plain_value t" and "plain_value w"
  shows "(\<exists>st'. node_startElement env ''delegated_eid_prefix'' [''ttl'', t, ''version'', w] st = Some (Inr st') \<and>
      mf_ttl (pr_flags st') = 60) \<and>
    (\<exists>st'. node_startElement env ''delegated_eid_prefix'' [''version'', w, ''ttl'', t] st = Some (Inr st') \<and>
      mf_ttl (pr_flags st') = of_int (atoi t))"
proof -
  have n: "\<not> same_nocase m v" if "plain_value v" "m \<in> {''prefix'', ''act'', ''iid'', ''a'', ''version'', ''ttl'', ''referral'', ''incomplete''}" for m v
    using that by (auto simp: plain_value_def one_of_def same_nocase_def)
  have l: "lower ''incomplete''" "lower ''referral''" "lower ''iid''" "lower ''delegated_eid_prefix''" by code_simp+
  note d = node_startElement_def referral_startElement_def named_def one_of_def words l att_loop.simps node_eid_atts_def
    att_defs new_entry_def n [OF assms(1)] n [OF assms(2)]
  show ?thesis by (cases "pr_user st") (simp_all add: d)
qed

theorem node_lifetime_depends_on_order_witness:
  "(\<exists>st'. node_startElement conf_lib ''delegated_eid_prefix'' [''ttl'', ''5'', ''version'', ''2''] conf_state = Some (Inr st') \<and>
      mf_ttl (pr_flags st') = 60) \<and>
   (\<exists>st'. node_startElement conf_lib ''delegated_eid_prefix'' [''version'', ''2'', ''ttl'', ''5''] conf_state = Some (Inr st') \<and>
      mf_ttl (pr_flags st') = 5)"
proof -
  have v: "plain_value ''5''" "plain_value ''2''" "(of_int (atoi ''5'') :: u32) = 5" by code_simp+
  from node_lifetime_depends_on_order [OF v(1,2)] show ?thesis unfolding v(3) by blast
qed

end
