(* ===== verification/Cp_List_Db.thy ===== *)
theory Cp_List_Db
  imports Cp_Mapping
begin

text \<open>
  The listing of the database (\<open>list_db\<close>, \<open>list_site\<close> of \<open>db.c\<close>): a table is walked level by level into an array of
  50000 nodes, then every node of the array is printed with its place, its roles and its locators. What a
  line shows is a record; the text made of it, with \<open>inet_ntop\<close>, is left out. \<open>None\<close> is a failed assertion, an
  access outside an array, and the loop over locators that does not move on from a family it does not know.
\<close>

section \<open>The walk\<close>

definition NODE_LIST_SIZE :: nat where "NODE_LIST_SIZE = 50000"

text \<open>The array with the side a node hangs on (left is true), and the array of depths, one cell ahead of it. The depth of a
  new node is computed from the cell of its parent's index.\<close>

type_synonym node_list = "(bool \<times> ref) list \<times> nat list"

definition push_node :: "bool \<Rightarrow> nat \<Rightarrow> ref option \<Rightarrow> node_list \<Rightarrow> node_list option" where
  "push_node side k x nl =
     (case x of
        None \<Rightarrow> Some nl
      | Some a \<Rightarrow> if Suc (length (fst nl)) < NODE_LIST_SIZE then Some (fst nl @ [(side, a)], snd nl @ [k]) else None)"

function list_walk :: "(ref \<Rightarrow> 'i db_node option) \<Rightarrow> nat \<Rightarrow> node_list \<Rightarrow> node_list option" where
  "list_walk h j nl =
     (if NODE_LIST_SIZE \<le> length (fst nl) then None
      else if length (fst nl) \<le> j then Some nl
      else do {
        rn \<leftarrow> h (snd (fst nl ! j));
        let k = snd nl ! j + 1;
        nl \<leftarrow> push_node True k (l_left rn) nl;
        nl \<leftarrow> push_node False k (l_right rn) nl;
        list_walk h (Suc j) nl })"
  by pat_completeness auto

termination
  by (relation "measure (\<lambda>(_, j, _). NODE_LIST_SIZE - j)") auto

declare list_walk.simps [simp del]

text \<open>The greatest depth, the sum of the depths divided by the number of nodes, and that number.\<close>

definition tree_figures :: "node_list \<Rightarrow> nat \<times> nat \<times> nat" where
  "tree_figures nl = (fold max (snd nl) 0, sum_list (snd nl) div length (fst nl), length (fst nl))"

section \<open>Lines\<close>

datatype place = Root | OnLeft | OnRight

record db_line =
  ln_place :: place
  ln_prefix :: cp_prefix
  ln_type :: string
  ln_ref :: "string option"
  ln_rlocs :: "map_entry list"

text \<open>Seven names of referrals, the first of which is not set.\<close>

definition sref :: "nat \<Rightarrow> string option" where
  "sref i =
     (if i = 1 then Some ''NODE'' else if i = 2 then Some ''MS'' else if i = 3 then Some ''MS_ACK''
      else if i = 4 then Some ''MS_NOT_REGISTERED'' else if i = 5 then Some ''DELEGATION_HOLE''
      else if i = 6 then Some ''NOTE_AUTHORITATIVE'' else None)"

definition reference :: "'i db_node \<Rightarrow> string option option" where
  "reference rn =
     (case flags rn of
        None \<Rightarrow> Some None
      | Some f \<Rightarrow> if mf_referral f = 0 then Some None else map_option (\<lambda>s. Some (''Reference::'' @ s)) (sref (unat (mf_referral f))))"

definition known_family :: "map_entry \<Rightarrow> bool" where
  "known_family e \<longleftrightarrow> su_family (me_rloc e) \<in> {FAM_INET, FAM_INET6}"

definition list_rlocs :: "map_entry list db_node \<Rightarrow> map_entry list option" where
  "list_rlocs rn =
     (if ms_node_is_type rn ROLE_MAPP then do { es \<leftarrow> info rn; if list_all known_family es then Some es else None }
      else Some [])"

definition list_node :: "db_nodes \<Rightarrow> bool \<times> ref \<Rightarrow> db_line option" where
  "list_node T x = do {
     rn \<leftarrow> heap T (snd x);
     ref \<leftarrow> reference rn;
     ty \<leftarrow> node_type2_str rn;
     es \<leftarrow> list_rlocs rn;
     Some \<lparr>ln_place = (if top T = Some (snd x) then Root else if fst x then OnLeft else OnRight), ln_prefix = n_p rn,
       ln_type = ty, ln_ref = ref, ln_rlocs = es\<rparr> }"

fun list_all_nodes :: "('a \<Rightarrow> 'b option) \<Rightarrow> 'a list \<Rightarrow> 'b list option" where
  "list_all_nodes f [] = Some []"
| "list_all_nodes f (x # xs) = do { y \<leftarrow> f x; ys \<leftarrow> list_all_nodes f xs; Some (y # ys) }"

text \<open>The figures go to the log before the lines.\<close>

definition list_db :: "db_nodes \<Rightarrow> ((nat \<times> nat \<times> nat) \<times> db_line list) option" where
  "list_db T = do {
     tp \<leftarrow> top T;
     nl \<leftarrow> list_walk (heap T) 0 ([(False, tp)], [0, 0]);
     ls \<leftarrow> list_all_nodes (list_node T) (fst nl);
     Some (tree_figures nl, ls) }"

section \<open>Sites\<close>

record site_line =
  sl_name :: "string option"
  sl_key :: "string option"
  sl_contact :: "string option"
  sl_count :: u32
  sl_eids :: "(cp_prefix \<times> string option option) list"

text \<open>\<open>explore_list\<close> calls a function on the data of every entry.\<close>

definition explore_list :: "('d option \<Rightarrow> 'b option) \<Rightarrow> 'd clist \<Rightarrow> 'b list option" where
  "explore_list f l = do { ds \<leftarrow> list_items l; list_all_nodes f ds }"

text \<open>The name of the site an EID belongs to; \<open>None\<close> when there is no site.\<close>

definition show_eid_info :: "map_entry list lisp_db \<Rightarrow> site_info clist \<Rightarrow> (af \<times> ref) option \<Rightarrow> (cp_prefix \<times> string option option) option" where
  "show_eid_info db sites d = do {
     (f, a) \<leftarrow> d;
     T \<leftarrow> db_table_of f db;
     rn \<leftarrow> heap T a;
     site \<leftarrow> (case Option.bind (flags rn) mf_rsvd of
                None \<Rightarrow> Some None
              | Some p \<Rightarrow> map_option e_data (cells sites (Ent p)));
     Some (n_p rn, map_option si_name site) }"

definition show_site_info :: "map_entry list lisp_db \<Rightarrow> site_info clist \<Rightarrow> site_info option \<Rightarrow> site_line option" where
  "show_site_info db sites d = do {
     s \<leftarrow> d;
     eids \<leftarrow> explore_list (show_eid_info db sites) (si_eid s);
     Some \<lparr>sl_name = si_name s, sl_key = si_key s, sl_contact = si_contact s, sl_count = l_count (si_eid s), sl_eids = eids\<rparr> }"

definition list_site :: "map_entry list lisp_db \<Rightarrow> site_info clist \<Rightarrow> (u32 \<times> site_line list) option" where
  "list_site db sites = map_option (\<lambda>ls. (l_count sites, ls)) (explore_list (show_site_info db sites) sites)"

section \<open>What the walk visits\<close>

text \<open>The walk on the abstract tree: the trees still to be visited, in order.\<close>

definition kids :: "'i rtree \<Rightarrow> 'i rtree \<Rightarrow> 'i rtree list" where
  "kids l r = filter (\<lambda>t. t \<noteq> Tip) [l, r]"

fun root_of :: "'i rtree \<Rightarrow> ref" where
  "root_of Tip = 0"
| "root_of (Nd a q i k l r) = a"

lemma kids_refs: "concat (map refs (kids l r)) = refs l @ refs r"
  by (cases l; cases r) (simp_all add: kids_def)

lemma kids_sum: "sum_list (map (\<lambda>t. length (refs t)) (kids l r)) = length (refs l) + length (refs r)"
  by (cases l; cases r) (simp_all add: kids_def)

function level_order :: "'i rtree list \<Rightarrow> ref list" where
  "level_order [] = []"
| "level_order (Tip # ts) = []"
| "level_order (Nd a q i k l r # ts) = a # level_order (ts @ kids l r)"
  by pat_completeness auto

termination
  by (relation "measure (\<lambda>ts. sum_list (map (\<lambda>t. length (refs t)) ts))") (auto simp: kids_sum)

lemma level_order_mset: "Tip \<notin> set ts \<Longrightarrow> mset (level_order ts) = mset (concat (map refs ts))"
  by (induction ts rule: level_order.induct) (auto simp: kids_refs, auto simp: kids_def)

lemma length_level_order: "Tip \<notin> set ts \<Longrightarrow> length (level_order ts) = length (concat (map refs ts))"
  using mset_eq_length [OF level_order_mset] .

lemma neq_Tip_refs: "t \<noteq> Tip \<Longrightarrow> Suc 0 \<le> length (refs t)"
  by (cases t) auto

lemma length_trees: "\<forall>t\<in>set ts. t \<noteq> Tip \<Longrightarrow> length ts \<le> length (concat (map refs ts))"
proof (induction ts)
  case (Cons t ts)
  then have "Suc 0 \<le> length (refs t)" "length ts \<le> length (concat (map refs ts))" by (auto intro: neq_Tip_refs)
  then show ?case by simp
qed simp

text \<open>Nodes pushed from one node.\<close>

lemma push_node_kid:
  assumes "tree_at h par x t" and "Suc (length (fst nl)) < NODE_LIST_SIZE \<or> t = Tip"
  shows "\<exists>nl'. push_node side k x nl = Some nl' \<and>
    map snd (fst nl') = map snd (fst nl) @ map root_of (filter (\<lambda>t. t \<noteq> Tip) [t])"
  using assms by (cases t) (auto simp: push_node_def)

lemma list_walk_level_order:
  assumes "map snd (fst nl) = done @ map root_of ts" and "\<forall>t\<in>set ts. t \<noteq> Tip \<and> (\<exists>par. tree_at h par (Some (root_of t)) t)"
    and "length done + length (concat (map refs ts)) < NODE_LIST_SIZE"
  shows "\<exists>nl'. list_walk h (length done) nl = Some nl' \<and> map snd (fst nl') = done @ level_order ts"
  using assms
proof (induction ts arbitrary: "done" nl rule: level_order.induct)
  case 1
  have "length (fst nl) = length done" using arg_cong [OF "1.prems"(1), of length] by simp
  with 1 show ?case by (subst list_walk.simps) simp
next
  case (2 ts)
  then show ?case by simp
next
  case (3 a q i k l r ts)
  have n: "map snd (fst nl) = done @ a # map root_of ts" using "3.prems"(1) by simp
  have len: "length (fst nl) = length done + Suc (length ts)"
  proof -
    have "length (map snd (fst nl)) = length (done @ a # map root_of ts)" by (simp only: n)
    then show ?thesis by simp
  qed
  have "length ts \<le> length (concat (map refs ts))" using "3.prems"(2) by (intro length_trees) simp
  then have b: "length (fst nl) + length (refs l) + length (refs r) < NODE_LIST_SIZE" using "3.prems"(3) len by simp
  have "map snd (fst nl) ! length done = a" by (simp add: n)
  then have at: "snd (fst nl ! length done) = a" using len by simp
  obtain par n' where t: "h a = Some n'" "tree_at h (Some a) (l_left n') l" "tree_at h (Some a) (l_right n') r"
    using "3.prems"(2) by auto
  let ?k = "snd nl ! length done + 1"
  have "Suc (length (fst nl)) < NODE_LIST_SIZE \<or> l = Tip" using b by (cases l) auto
  from push_node_kid [OF t(2) this, of True ?k] obtain n1 where
    n1: "push_node True ?k (l_left n') nl = Some n1" "map snd (fst n1) = map snd (fst nl) @ map root_of (filter (\<lambda>t. t \<noteq> Tip) [l])"
    by blast
  have "length (fst n1) \<le> length (fst nl) + length (refs l)"
    using arg_cong [OF n1(2), of length] by (cases l) auto
  then have "Suc (length (fst n1)) < NODE_LIST_SIZE \<or> r = Tip" using b by (cases r) auto
  from push_node_kid [OF t(3) this, of False ?k] obtain n2 where
    n2: "push_node False ?k (l_right n') n1 = Some n2" "map snd (fst n2) = map snd (fst n1) @ map root_of (filter (\<lambda>t. t \<noteq> Tip) [r])"
    by blast
  have m: "map snd (fst n2) = (done @ [a]) @ map root_of (ts @ kids l r)"
    unfolding n2(2) n1(2) n by (simp add: kids_def)
  have k: "\<forall>t\<in>set (ts @ kids l r). t \<noteq> Tip \<and> (\<exists>par. tree_at h par (Some (root_of t)) t)"
  proof -
    have "\<exists>par. tree_at h par (Some (root_of u)) u" if "u \<noteq> Tip" "tree_at h par x u" for par x u
      using that by (cases u) auto
    with "3.prems"(2) t(2,3) show ?thesis by (auto simp: kids_def)
  qed
  have "length (done @ [a]) + length (concat (map refs (ts @ kids l r))) < NODE_LIST_SIZE"
    using "3.prems"(3) by (simp add: kids_refs)
  from "3.IH" [OF m k this] obtain nl' where
    "list_walk h (Suc (length done)) n2 = Some nl'" "map snd (fst nl') = (done @ [a]) @ level_order (ts @ kids l r)" by auto
  moreover have "list_walk h (length done) nl = list_walk h (Suc (length done)) n2"
    using b len at t(1) n1(1) n2(1) by (subst list_walk.simps) simp
  ultimately show ?case by simp
qed

text \<open>The nodes that have a line: roles with a name, a referral with a name, and locators of a known family.\<close>

definition listable :: "map_entry list db_node \<Rightarrow> bool" where
  "listable rn \<longleftrightarrow>
     (case flags rn of None \<Rightarrow> True | Some f \<Rightarrow> mf_range f < 64 \<and> mf_referral f < 7) \<and>
     (ms_node_is_type rn ROLE_MAPP \<longrightarrow> (case info rn of None \<Rightarrow> False | Some es \<Rightarrow> list_all known_family es))"

lemma type_names: "f < 64 \<Longrightarrow> type_loop f 1 [] \<noteq> None"
  using bspec [OF type_loop_names, of "unat f"] by (simp add: word_less_nat_alt)

lemma sref_known: "(r :: 4 word) \<noteq> 0 \<Longrightarrow> r < 7 \<Longrightarrow> \<exists>s. sref (unat r) = Some s"
proof -
  assume "r \<noteq> 0" "r < 7"
  then have "0 < unat r" "unat r < 7" by (simp_all add: word_less_nat_alt unat_gt_0)
  then have "unat r \<in> {1, 2, 3, 4, 5, 6}" by auto
  then show ?thesis by (auto simp: sref_def)
qed

lemma list_node_line:
  assumes "heap T a = Some rn" and "listable rn"
  shows "\<exists>l. list_node T (s, a) = Some l \<and> ln_prefix l = n_p rn \<and> (ln_place l = Root \<longleftrightarrow> top T = Some a)"
proof -
  have "(\<exists>r. reference rn = Some r) \<and> (\<exists>ty. node_type2_str rn = Some ty)"
  proof (cases "flags rn")
    case None
    then show ?thesis by (simp add: reference_def node_type2_str_def node_type_def)
  next
    case (Some f)
    with assms(2) have f: "mf_range f < 64" "mf_referral f < 7" by (simp_all add: listable_def)
    have "\<exists>r. reference rn = Some r" using sref_known [OF _ f(2)] by (auto simp: reference_def Some)
    moreover have "\<exists>ty. node_type2_str rn = Some ty"
      using type_names [OF f(1)] by (cases "mf_range f = 0") (auto simp: node_type2_str_def node_type_def Some)
    ultimately show ?thesis by simp
  qed
  moreover have "\<exists>es. list_rlocs rn = Some es" using assms(2) by (auto simp: listable_def list_rlocs_def split: option.splits)
  ultimately show ?thesis using assms(1) by (auto simp: list_node_def)
qed

lemma list_all_nodes_map:
  "(\<And>x. x \<in> set xs \<Longrightarrow> \<exists>y. f x = Some y \<and> R x y) \<Longrightarrow> \<exists>ys. list_all_nodes f xs = Some ys \<and> list_all2 R xs ys"
proof (induction xs)
  case (Cons x xs)
  then obtain ys where "list_all_nodes f xs = Some ys" "list_all2 R xs ys" by auto
  with Cons.prems [of x] show ?case by auto
qed simp

lemma tree_at_refs_heap: "tree_at h par x t \<Longrightarrow> a \<in> set (refs t) \<Longrightarrow> \<exists>n. h a = Some n"
  by (induction t arbitrary: par x) auto

lemma tree_at_prefixes: "tree_at h par x t \<Longrightarrow> map (\<lambda>a. n_p (the (h a))) (refs t) = map (fst \<circ> snd) (nodes t)"
  by (induction t arbitrary: par x) auto

text \<open>A root without data and a node that has a mapping without locators.\<close>

definition listed_net :: "map_entry list db_node" where
  "listed_net = \<lparr>n_p = net10 16, parent = Some 0, l_left = None, l_right = None, info = Some [],
     flags = Some (ms_new_node_ex ROLE_MAPP), lock_ct = 1\<rparr>"

definition listed_root :: "map_entry list db_node" where
  "listed_root = \<lparr>n_p = net10 8, parent = None, l_left = Some 1, l_right = None, info = None, flags = None,
     lock_ct = 1\<rparr>"

definition listed_table :: db_nodes where
  "listed_table = \<lparr>heap = [0 \<mapsto> listed_root, 1 \<mapsto> listed_net], next_ref = 2, top = Some 0, remove_fct = False,
     count = 2, removed = []\<rparr>"

definition listed_tree :: "map_entry list rtree" where
  "listed_tree = Nd 0 (net10 8) None 1 (Nd 1 (net10 16) (Some []) 1 Tip Tip) Tip"

text \<open>C39: listing a table whose tree has fewer than 50000 nodes, every one with roles, a referral and locators that
  can be printed, ends and prints every node exactly once, the root first and then level by level, and
  logs the number of nodes.\<close>

theorem list_db_lists_every_node:
  assumes "table_at T t" and "t \<noteq> Tip" and "length (refs t) < NODE_LIST_SIZE"
    and "\<forall>a\<in>set (refs t). listable (the (heap T a))"
  shows "\<exists>deep avg ls. list_db T = Some ((deep, avg, length (refs t)), ls) \<and>
    map ln_prefix ls = map (\<lambda>a. n_p (the (heap T a))) (level_order [t]) \<and>
    mset (map ln_prefix ls) = mset (map (fst \<circ> snd) (nodes t))"
proof -
  obtain tp where tp: "top T = Some tp" "root_of t = tp" "tree_at (heap T) None (Some tp) t"
    using assms(1,2) by (cases t) (auto simp: table_at_def)
  have "map snd (fst ([(False, tp)], [0, 0 :: nat])) = [] @ map root_of [t]" by (simp add: tp(2))
  moreover have "\<forall>u\<in>set [t]. u \<noteq> Tip \<and> (\<exists>par. tree_at (heap T) par (Some (root_of u)) u)"
    using tp assms(2) by auto
  ultimately have "\<exists>nl. list_walk (heap T) (length ([] :: ref list)) ([(False, tp)], [0, 0]) = Some nl \<and>
      map snd (fst nl) = [] @ level_order [t]"
    using assms(3) by (intro list_walk_level_order) simp_all
  then obtain nl where
    nl: "list_walk (heap T) 0 ([(False, tp)], [0, 0]) = Some nl" "map snd (fst nl) = level_order [t]"
    by (auto simp del: split_paired_Ex)
  have m: "mset (level_order [t]) = mset (refs t)" using level_order_mset [of "[t]"] assms(2) by simp
  have at: "\<exists>n. heap T a = Some n \<and> listable n" if "a \<in> set (refs t)" for a
    using tree_at_refs_heap [OF tp(3) that] assms(4) that by auto
  have "\<exists>l. list_node T x = Some l \<and> ln_prefix l = n_p (the (heap T (snd x)))" if "x \<in> set (fst nl)" for x
  proof -
    have "snd x \<in> set (level_order [t])" using that by (simp flip: nl(2))
    then have "snd x \<in> set (refs t)" using mset_eq_setD [OF m] by simp
    from at [OF this] obtain n where "heap T (snd x) = Some n" "listable n" by blast
    then show ?thesis using list_node_line [of T "snd x" n "fst x"] by auto
  qed
  then obtain ls where
    ls: "list_all_nodes (list_node T) (fst nl) = Some ls"
      "list_all2 (\<lambda>x l. ln_prefix l = n_p (the (heap T (snd x)))) (fst nl) ls"
    using list_all_nodes_map [of "fst nl" "list_node T" "\<lambda>x l. ln_prefix l = n_p (the (heap T (snd x)))"] by blast
  have p: "map ln_prefix ls = map (\<lambda>a. n_p (the (heap T a))) (level_order [t])"
    using ls(2) unfolding nl(2) [symmetric] by (induction rule: list_all2_induct) auto
  have q: "mset (map ln_prefix ls) = mset (map (fst \<circ> snd) (nodes t))"
  proof -
    have "mset (map ln_prefix ls) = image_mset (\<lambda>a. n_p (the (heap T a))) (mset (refs t))" by (simp only: p mset_map m)
    also have "\<dots> = mset (map (fst \<circ> snd) (nodes t))"
      using arg_cong [OF tree_at_prefixes [OF tp(3)], of mset] by (simp only: mset_map)
    finally show ?thesis .
  qed
  have c: "length (fst nl) = length (refs t)" using arg_cong [OF nl(2), of length] mset_eq_length [OF m] by simp
  have "list_db T = Some (tree_figures nl, ls)" using nl(1) ls(1) tp(1) by (simp add: list_db_def)
  with p q show ?thesis unfolding tree_figures_def c by blast
qed

theorem list_db_lists_every_node_witness:
  "\<exists>deep avg ls. list_db listed_table = Some ((deep, avg, 2), ls) \<and> length ls = 2"
proof -
  have "heap listed_table 0 = Some listed_root" "heap listed_table 1 = Some listed_net"
    by (simp_all add: listed_table_def)
  moreover have "listable listed_root" "listable listed_net" by code_simp+
  moreover have t: "table_at listed_table listed_tree"
    by (simp add: listed_table_def listed_tree_def table_at_def listed_root_def listed_net_def net10_def
      wf_cp_def plen_def extends_def pkey_def byte_bits_def)
  moreover have r: "refs listed_tree = [0, 1]" "length (nodes listed_tree) = 2" "listed_tree \<noteq> Tip"
    by (simp_all add: listed_tree_def)
  ultimately obtain deep avg ls where "list_db listed_table = Some ((deep, avg, 2), ls)"
    "mset (map ln_prefix ls) = mset (map (fst \<circ> snd) (nodes listed_tree))"
    using list_db_lists_every_node [OF t r(3)] by (auto simp: NODE_LIST_SIZE_def)
  moreover from mset_eq_length [OF this(2)] have "length ls = 2" by (simp add: r)
  ultimately show ?thesis by blast
qed

end
