(* ===== verification/Cp_Cli.thy ===== *)
theory Cp_Cli
  imports Cp_Conf_Main Cp_List_Db
begin

text \<open>
  The command line of the control plane (\<open>cli.c\<close>, with \<open>reconfigure\<close> of \<open>server.c\<close>). A command is read into a buffer that
  \<open>strtok\<close> cuts into words; the array of words holds the places of the words in that buffer, and the counter of the
  array is set once, before the first command. As in the model of the configuration, \<open>Some (Inl status)\<close> is the end of
  the process and \<open>None\<close> is a null pointer, an access outside an array or a pointer that was never set. What is printed is
  left out but for the listing of the database.
\<close>

section \<open>Reading a line\<close>

abbreviation (input) NUL :: char where "NUL \<equiv> CHR 0x00"

definition LINE_SIZE :: nat where "LINE_SIZE = 2048"
definition MAX_PARAMS :: nat where "MAX_PARAMS = 100"

text \<open>\<open>fgets\<close>: up to the newline, and at most one byte less than the buffer has. The rest stays in the stream.\<close>

definition fgets :: "nat \<Rightarrow> string \<Rightarrow> (string \<times> string) option" where
  "fgets n inp =
     (if inp = [] then None
      else let k = min (n - 1) (min (length inp) (Suc (length (takeWhile (\<lambda>c. c \<noteq> CHR 0x0A) inp))))
           in Some (take k inp, drop k inp))"

text \<open>The string in memory from a place on; \<open>None\<close> when no end of it is in the buffer.\<close>

definition str_at :: "string \<Rightarrow> nat \<Rightarrow> string option" where
  "str_at m i = (let s = takeWhile (\<lambda>c. c \<noteq> NUL) (drop i m) in if i + length s < length m then Some s else None)"

text \<open>The line in the buffer: its last character, the newline as a rule, is cut off. A line that begins with a zero byte
  makes it write in front of the buffer.\<close>

definition read_line :: "string \<Rightarrow> string \<Rightarrow> string option" where
  "read_line m l = do {
     let m = l @ NUL # drop (Suc (length l)) m;
     s \<leftarrow> str_at m 0;
     if s = [] then None else Some (m[length s - 1 := NUL]) }"

section \<open>Cutting it into words\<close>

text \<open>A call of \<open>strtok\<close> that goes on at a place: the word, the buffer and the place it goes on at next.\<close>

definition strtok :: "(char \<Rightarrow> bool) \<Rightarrow> string \<Rightarrow> nat \<Rightarrow> (nat \<times> string \<times> nat) option" where
  "strtok sep m i =
     (let a = i + length (takeWhile (\<lambda>c. sep c \<and> c \<noteq> NUL) (drop i m));
          b = a + length (takeWhile (\<lambda>c. \<not> sep c \<and> c \<noteq> NUL) (drop a m))
      in if a = b then None
         else if b < length m \<and> m ! b \<noteq> NUL then Some (a, m[b := NUL], Suc b)
         else Some (a, m, b))"

definition first_sep :: "char \<Rightarrow> bool" where "first_sep c \<longleftrightarrow> c = CHR '' ''"
definition next_sep :: "char \<Rightarrow> bool" where "next_sep c \<longleftrightarrow> c = CHR '' '' \<or> c = CHR '',''"

lemma strtok_forward: "strtok sep m i = Some (a, m', j) \<Longrightarrow> i < j \<and> length m' = length m \<and> a < length m"
proof -
  assume s: "strtok sep m i = Some (a, m', j)"
  let ?b = "a + length (takeWhile (\<lambda>c. \<not> sep c \<and> c \<noteq> NUL) (drop a m))"
  have a: "a = i + length (takeWhile (\<lambda>c. sep c \<and> c \<noteq> NUL) (drop i m))" "?b \<noteq> a" "length m' = length m" "?b \<le> j"
    using s by (auto simp: strtok_def Let_def split: if_splits)
  from a(2) have "drop a m \<noteq> []" by auto
  then have "a < length m" by simp
  moreover have "i \<le> a" "a < ?b" using a(1,2) by auto
  ultimately show ?thesis using a(3,4) by linarith
qed

function strtok_rest :: "string \<Rightarrow> nat \<Rightarrow> nat list \<Rightarrow> (string \<times> nat list) option" where
  "strtok_rest m i ps =
     (case strtok next_sep m i of
        None \<Rightarrow> Some (m, ps)
      | Some (a, m', j) \<Rightarrow> if length ps < MAX_PARAMS then strtok_rest m' j (ps @ [a]) else None)"
  by pat_completeness auto

termination
  by (relation "measure (\<lambda>(_, _, ps). MAX_PARAMS - length ps)") auto

declare strtok_rest.simps [simp del]

text \<open>The words of the line go behind those that are in the array.\<close>

definition split_line :: "string \<Rightarrow> nat list \<Rightarrow> (string \<times> nat list) option" where
  "split_line m ps =
     (case strtok first_sep m 0 of
        None \<Rightarrow> Some (m, ps)
      | Some (a, m, j) \<Rightarrow> if length ps < MAX_PARAMS then strtok_rest m j (ps @ [a]) else None)"

section \<open>Requests\<close>

text \<open>One cell of the table of requests is used. The conversions read the EID of the cell, and a cell that is cleared has
  none. The set of functions of the command line has no \<open>request_is_ddt\<close>, which a request calls once its EID is
  looked up, so that nothing behind that call is reached, and none of the printing of answers.\<close>

record cli_request =
  cr_eid :: "string option"
  cr_nonce :: u64

definition CLI_REQUEST :: nat where "CLI_REQUEST = 666"
definition MAX_INCOMING_QUEUE :: nat where "MAX_INCOMING_QUEUE = 1024"

type_synonym requests = "nat \<Rightarrow> cli_request"

definition cli_request_add :: "string \<Rightarrow> u64 \<Rightarrow> requests \<Rightarrow> nat \<times> requests" where
  "cli_request_add eid nonce q = (CLI_REQUEST, q(CLI_REQUEST := \<lparr>cr_eid = Some eid, cr_nonce = nonce\<rparr>))"

definition cli_request_terminate :: "nat \<Rightarrow> requests \<Rightarrow> requests option" where
  "cli_request_terminate i q =
     (if i < MAX_INCOMING_QUEUE then Some (q(i := \<lparr>cr_eid = None, cr_nonce = 0\<rparr>)) else None)"

definition cli_request_get_eid :: "conf_env \<Rightarrow> nat \<Rightarrow> requests \<Rightarrow> cp_prefix option" where
  "cli_request_get_eid env i q =
     (if i < MAX_INCOMING_QUEUE then map_option (\<lambda>s. snd (read_prefix env s)) (cr_eid (q i)) else None)"

definition cli_request_get_nonce :: "nat \<Rightarrow> requests \<Rightarrow> u64 option" where
  "cli_request_get_nonce i q = (if i < MAX_INCOMING_QUEUE then Some (cr_nonce (q i)) else None)"

definition cli_request_is_ddt :: "(nat \<Rightarrow> requests \<Rightarrow> bool) option" where
  "cli_request_is_ddt = None"

definition cli_process_request :: "conf_env \<Rightarrow> nat \<Rightarrow> requests \<Rightarrow> map_entry list lisp_db \<Rightarrow> (bool \<times> map_entry list lisp_db) option" where
  "cli_process_request env rid q db = do {
     p \<leftarrow> cli_request_get_eid env rid q;
     T \<leftarrow> ms_get_db_table db p;
     (_, T) \<leftarrow> db_node_match_prefix p T;
     is_ddt \<leftarrow> cli_request_is_ddt;
     Some (is_ddt rid q, set_table (family p) T db) }"

section \<open>Registrations\<close>

text \<open>The word at a place of the array.\<close>

definition param :: "string \<Rightarrow> nat list \<Rightarrow> nat \<Rightarrow> string option" where
  "param m ps j = (if j < length ps then str_at m (ps ! j) else None)"

record register_line =
  rl_prev :: bool
  rl_count :: nat
  rl_entry :: "map_entry option"
  rl_flags :: mapping_flags

definition register_start :: register_line where
  "register_start = \<lparr>rl_prev = False, rl_count = 0, rl_entry = None, rl_flags = zero_flags\<rparr>"

text \<open>The family is set before the address is read, which stays as it is when it is not one.\<close>

definition set_address :: "conf_env \<Rightarrow> af \<Rightarrow> string \<Rightarrow> map_entry \<Rightarrow> map_entry" where
  "set_address env f v e =
     (let su = (me_rloc e)\<lparr>su_family := f\<rparr>
      in e\<lparr>me_rloc := (case text_address env f v su of None \<Rightarrow> su | Some su \<Rightarrow> su)\<rparr>)"

text \<open>A name and its value: what is said of a locator needs one, and names that are not known are passed over.\<close>

definition register_word :: "conf_env \<Rightarrow> string \<Rightarrow> string \<Rightarrow> register_line \<Rightarrow> register_line option" where
  "register_word env name v rl =
     (let on_entry = (\<lambda>f. map_option (\<lambda>e. rl\<lparr>rl_entry := Some (f e)\<rparr>) (rl_entry rl));
          on_flags = (\<lambda>f. Some (rl\<lparr>rl_flags := f (rl_flags rl)\<rparr>));
          address = (\<lambda>f. map_option (\<lambda>e. rl\<lparr>rl_entry := Some (set_address env f v e), rl_count := Suc (rl_count rl)\<rparr>) (rl_entry rl))
      in if same_nocase name ''priority'' then on_entry (\<lambda>e. e\<lparr>me_priority := of_int (atoi v)\<rparr>)
         else if same_nocase name ''m_priority'' then on_entry (\<lambda>e. e\<lparr>me_m_priority := of_int (atoi v)\<rparr>)
         else if same_nocase name ''weight'' then on_entry (\<lambda>e. e\<lparr>me_weight := of_int (atoi v)\<rparr>)
         else if same_nocase name ''m_weight'' then on_entry (\<lambda>e. e\<lparr>me_m_weight := of_int (atoi v)\<rparr>)
         else if same_nocase name ''reachable'' then on_entry (\<lambda>e. e\<lparr>me_r := of_bool (is_true v)\<rparr>)
         else if same_nocase name ''local'' then on_entry (\<lambda>e. e\<lparr>me_L := of_bool (is_true v)\<rparr>)
         else if same_nocase name ''rloc-probing'' then on_entry (\<lambda>e. e\<lparr>me_p := of_bool (is_true v)\<rparr>)
         else if same_nocase name ''address'' then address FAM_INET
         else if same_nocase name ''address6'' then address FAM_INET6
         else if same_nocase name ''act'' then on_flags (\<lambda>f. f\<lparr>mf_act := of_int (atoi v)\<rparr>)
         else if same_nocase name ''a'' then on_flags (\<lambda>f. f\<lparr>mf_A := of_bool (is_true v)\<rparr>)
         else if same_nocase name ''version'' then on_flags (\<lambda>f. f\<lparr>mf_version := of_int (atoi v)\<rparr>)
         else if same_nocase name ''ttl'' then on_flags (\<lambda>f. f\<lparr>mf_ttl := of_int (atoi v)\<rparr>)
         else Some rl)"

text \<open>The locator that is complete, when there is one. The counter of addresses counts those of all locators.\<close>

definition flush_entry :: "(af \<times> ref) option \<Rightarrow> register_line \<Rightarrow> cparser \<Rightarrow> (register_line \<times> cparser) option" where
  "flush_entry rn rl st =
     (if rl_prev rl \<and> 0 < rl_count rl then do {
        e \<leftarrow> rl_entry rl;
        st \<leftarrow> on_node (\<lambda>a. generic_mapping_add_rloc a e) rn st;
        Some (rl\<lparr>rl_prev := False\<rparr>, st) }
      else Some (rl, st))"

function register_loop ::
  "conf_env \<Rightarrow> string \<Rightarrow> nat list \<Rightarrow> (af \<times> ref) option \<Rightarrow> nat \<Rightarrow> register_line \<Rightarrow> cparser \<Rightarrow> (register_line \<times> cparser) option" where
  "register_loop env m ps rn j rl st =
     (if Suc j < length ps then do {
        name \<leftarrow> param m ps j;
        if same_nocase name ''-rloc'' then do {
          (rl, st) \<leftarrow> flush_entry rn rl st;
          register_loop env m ps rn (Suc j) (rl\<lparr>rl_entry := Some zero_entry\<rparr>) st }
        else do {
          v \<leftarrow> param m ps (Suc j);
          rl \<leftarrow> register_word env name v rl;
          register_loop env m ps rn (j + 2) (rl\<lparr>rl_prev := True\<rparr>) st } }
      else Some (rl, st))"
  by pat_completeness auto

termination
  by (relation "measure (\<lambda>(_, _, ps, _, j, _). length ps - j)") auto

declare register_loop.simps [simp del]

text \<open>A prefix that is not one is what the stack holds.\<close>

definition register_command :: "conf_env \<Rightarrow> string \<Rightarrow> nat list \<Rightarrow> cparser \<Rightarrow> cparser option" where
  "register_command env m ps st = do {
     v \<leftarrow> param m ps 1;
     let p = apply_mask (snd (read_prefix env v));
     (a, db) \<leftarrow> generic_mapping_new p (pr_db st);
     let rn = Some (family p, a);
     (rl, st) \<leftarrow> register_loop env m ps rn 2 register_start (st\<lparr>pr_db := db\<rparr>);
     (rl, st) \<leftarrow> flush_entry rn rl st;
     on_node (\<lambda>a. generic_mapping_set_flags a (rl_flags rl)) rn st }"

section \<open>Commands\<close>

text \<open>The database is made anew and the configuration is read again; a first time there is none to clear.\<close>

definition reconfigure :: "main_env \<Rightarrow> string list option \<Rightarrow> bool \<Rightarrow> main_conf \<Rightarrow> cparser \<Rightarrow> (main_conf \<times> cparser) conf" where
  "reconfigure env config started mc st = do {
     _ \<leftarrow> (if started then map_option (\<lambda>_. ()) (ms_finish_db (pr_db st)) else Some ());
     db \<leftarrow> ms_init_db (ce_aton (cm_conf env)) (ce_pton (cm_conf env) FAM_INET6) (ce_junk (cm_conf env));
     parser_config env config mc (st\<lparr>pr_db := db, pr_sites := list_init, pr_etr := []\<rparr>) }"

record cli =
  cl_line :: string
  cl_params :: "nat list"
  cl_requests :: requests
  cl_main :: main_conf
  cl_conf :: cparser

type_synonym listing = "(nat \<times> nat \<times> nat) \<times> db_line list"

text \<open>The tests for the commands follow one another, but all look at the same word.\<close>

definition cli_command :: "main_env \<Rightarrow> string list option \<Rightarrow> cli \<Rightarrow> (listing list \<times> cli) conf" where
  "cli_command env config c =
     (if cl_params c = [] then Some (Inr ([], c))
      else do {
        w \<leftarrow> param (cl_line c) (cl_params c) 0;
        if same_nocase ''map-request'' w then
          (if length (cl_params c) = 3 then do {
             eid \<leftarrow> param (cl_line c) (cl_params c) 1;
             n \<leftarrow> param (cl_line c) (cl_params c) 2;
             let (rid, q) = cli_request_add eid (of_int (atoi n)) (cl_requests c);
             (_, db) \<leftarrow> cli_process_request (cm_conf env) rid q (pr_db (cl_conf c));
             Some (Inr ([], c\<lparr>cl_requests := q, cl_conf := (cl_conf c)\<lparr>pr_db := db\<rparr>\<rparr>)) }
           else Some (Inr ([], c)))
        else if same_nocase ''quit'' w then Some (Inl 1)
        else if same_nocase ''map-register'' w then do {
          st \<leftarrow> register_command (cm_conf env) (cl_line c) (cl_params c) (cl_conf c);
          Some (Inr ([], c\<lparr>cl_conf := st\<rparr>)) }
        else if same_nocase ''map-database'' w then do {
          l4 \<leftarrow> list_db (lisp_db4 (pr_db (cl_conf c)));
          l6 \<leftarrow> list_db (lisp_db6 (pr_db (cl_conf c)));
          Some (Inr ([l4, l6], c)) }
        else if same_nocase ''reload'' w then
          map_option (map_sum id (\<lambda>(mc, st). ([], c\<lparr>cl_main := mc, cl_conf := st\<rparr>)))
            (reconfigure env config True (cl_main c) (cl_conf c))
        else Some (Inr ([], c)) })"

text \<open>The commands of a stream. A line without words is skipped only as long as no word has been read.\<close>

definition cli_line :: "main_env \<Rightarrow> string list option \<Rightarrow> string \<Rightarrow> cli \<Rightarrow> (listing list \<times> cli) conf" where
  "cli_line env config l c = do {
     m \<leftarrow> read_line (cl_line c) l;
     (m, ps) \<leftarrow> split_line m (cl_params c);
     cli_command env config (c\<lparr>cl_line := m, cl_params := ps\<rparr>) }"

lemma fgets_shorter: "fgets n inp = Some (l, rest) \<Longrightarrow> 1 < n \<Longrightarrow> length rest < length inp"
  by (auto simp: fgets_def Let_def split: if_splits)

function cli_start_communication ::
  "main_env \<Rightarrow> string list option \<Rightarrow> string \<Rightarrow> cli \<Rightarrow> (listing list \<times> cli) conf" where
  "cli_start_communication env config inp c =
     (case fgets LINE_SIZE inp of
        None \<Rightarrow> Some (Inr ([], c))
      | Some (l, rest) \<Rightarrow>
          conf_bind (cli_line env config l c) (\<lambda>(out, c).
          conf_bind (cli_start_communication env config rest c) (\<lambda>(out', c). Some (Inr (out @ out', c)))))"
  by pat_completeness auto

termination
  by (relation "measure (\<lambda>(_, _, inp, _). length inp)") (auto dest!: fgets_shorter simp: LINE_SIZE_def)

declare cli_start_communication.simps [simp del]

text \<open>The command line begins with an empty array.\<close>

definition cli_fresh :: "cli \<Rightarrow> bool" where
  "cli_fresh c \<longleftrightarrow> cl_params c = [] \<and> length (cl_line c) = LINE_SIZE"

end
