(* ===== verification/Cp_Cli_Props.thy ===== *)
theory Cp_Cli_Props
  imports Cp_Cli Cp_Conf_Served
begin

text \<open>
  Commands of the control plane's command line. The words of a line are found again in the buffer, a \<open>map-register\<close> makes the
  mapping that the configuration file of an xTR would make, and a \<open>map-request\<close> is never answered.
\<close>

section \<open>The words of a line\<close>

definition cli_word :: "string \<Rightarrow> bool" where
  "cli_word w \<longleftrightarrow> w \<noteq> [] \<and> list_all (\<lambda>c. c \<notin> {NUL, CHR 0x0A, CHR '' '', CHR '',''}) w"

fun joined :: "char \<Rightarrow> string list \<Rightarrow> string" where
  "joined c [] = []"
| "joined c [w] = w"
| "joined c (w # v # ws) = w @ c # joined c (v # ws)"

fun places :: "nat \<Rightarrow> string list \<Rightarrow> nat list" where
  "places k [] = []"
| "places k (w # ws) = k # places (Suc (k + length w)) ws"

definition command_text :: "string list \<Rightarrow> string" where
  "command_text ws = joined (CHR '' '') ws @ [CHR 0x0A]"

lemma length_places: "length (places k ws) = length ws"
  by (induction ws arbitrary: k) auto

lemma cli_word_chars: "cli_word w \<Longrightarrow> c \<in> set w \<Longrightarrow> c \<noteq> NUL \<and> c \<noteq> CHR 0x0A \<and> c \<noteq> CHR '' '' \<and> c \<noteq> CHR '',''"
  by (auto simp: cli_word_def list_all_iff)

lemma joined_chars: "list_all cli_word ws \<Longrightarrow> c \<in> set (joined (CHR '' '') ws) \<Longrightarrow> c \<noteq> NUL \<and> c \<noteq> CHR 0x0A"
  by (induction "CHR '' ''" ws rule: joined.induct) (auto dest: cli_word_chars)

text \<open>One word, and what \<open>strtok\<close> leaves behind it.\<close>

lemma takeWhile_word:
  "(\<And>x. x \<in> set w \<Longrightarrow> P x) \<Longrightarrow> \<not> P c \<Longrightarrow> takeWhile P (w @ c # r) = w"
  by (induction w) auto

lemma strtok_word:
  assumes "cli_word w" and "\<not> sep NUL" and "\<And>c. c \<in> set w \<Longrightarrow> \<not> sep c"
  shows "sep c \<Longrightarrow> c \<noteq> NUL \<Longrightarrow> strtok sep (pre @ w @ c # r) (length pre) =
      Some (length pre, pre @ w @ NUL # r, Suc (length pre + length w))"
    and "strtok sep (pre @ w @ NUL # r) (length pre) = Some (length pre, pre @ w @ NUL # r, length pre + length w)"
proof -
  have w: "w \<noteq> []" using assms(1) by (simp add: cli_word_def)
  have n: "\<not> sep c \<and> c \<noteq> NUL" if "c \<in> set w" for c using assms(3) that cli_word_chars [OF assms(1) that] by simp
  have s: "takeWhile (\<lambda>c. sep c \<and> c \<noteq> NUL) (w @ x) = []" for x
    using w n [of "hd w"] by (cases w) simp_all
  have t: "takeWhile (\<lambda>c. \<not> sep c \<and> c \<noteq> NUL) (w @ c # r) = w" if "sep c \<or> c = NUL" for c
    using that n by (intro takeWhile_word) auto
  show "strtok sep (pre @ w @ c # r) (length pre) = Some (length pre, pre @ w @ NUL # r, Suc (length pre + length w))"
    if "sep c" "c \<noteq> NUL"
    using that w t [of c] by (simp add: strtok_def s nth_append list_update_append Let_def)
  show "strtok sep (pre @ w @ NUL # r) (length pre) = Some (length pre, pre @ w @ NUL # r, length pre + length w)"
    using w t [of NUL] by (simp add: strtok_def s nth_append Let_def)
qed

lemma next_seps: "\<not> next_sep NUL" "next_sep (CHR '' '')" "\<not> first_sep NUL" "first_sep (CHR '' '')"
  "cli_word w \<Longrightarrow> c \<in> set w \<Longrightarrow> \<not> next_sep c \<and> \<not> first_sep c"
  by (auto simp: next_sep_def first_sep_def dest: cli_word_chars)

lemma strtok_rest_words:
  assumes "list_all cli_word ws" and "length ps + length ws \<le> MAX_PARAMS"
  shows "strtok_rest (pre @ joined (CHR '' '') ws @ NUL # r) (length pre) ps =
    Some (pre @ joined NUL ws @ NUL # r, ps @ places (length pre) ws)"
  using assms
proof (induction "CHR '' ''" ws arbitrary: pre ps rule: joined.induct)
  case 1
  have "strtok next_sep (pre @ NUL # r) (length pre) = None" by (simp add: strtok_def)
  then show ?case by (subst strtok_rest.simps) simp
next
  case (2 w)
  then have w: "cli_word w" by simp
  have "strtok next_sep (pre @ w @ NUL # r) (length pre) = Some (length pre, pre @ w @ NUL # r, length pre + length w)"
    by (rule strtok_word(2)) (use w next_seps in auto)
  moreover have "strtok next_sep (pre @ w @ NUL # r) (length pre + length w) = None"
    using strtok_def [of next_sep "(pre @ w) @ NUL # r" "length (pre @ w)"] by (simp add: Let_def)
  ultimately show ?case using 2
    by (subst strtok_rest.simps) (simp add: strtok_rest.simps [of _ "length pre + length w"])
next
  case (3 w v ws)
  then have w: "cli_word w" by simp
  have "strtok next_sep (pre @ w @ CHR '' '' # joined (CHR '' '') (v # ws) @ NUL # r) (length pre) =
      Some (length pre, pre @ w @ NUL # joined (CHR '' '') (v # ws) @ NUL # r, Suc (length pre + length w))"
    by (rule strtok_word(1)) (use w next_seps in auto)
  moreover note 3(1) [of "ps @ [length pre]" "pre @ w @ [NUL]"]
  ultimately show ?case using 3(2,3) by (subst strtok_rest.simps) simp
qed

lemma str_at_places:
  assumes "list_all cli_word ws" and "m = pre @ joined NUL ws @ NUL # r"
  shows "map (str_at m) (places (length pre) ws) = map Some ws"
  using assms
proof (induction NUL ws arbitrary: pre rule: joined.induct)
  case (2 w)
  then show ?case using takeWhile_word [of w "\<lambda>c. c \<noteq> NUL" NUL r] cli_word_chars by (auto simp: str_at_def)
next
  case (3 w v ws)
  have "str_at m (length pre) = Some w"
    using 3(2,3) takeWhile_word [of w "\<lambda>c. c \<noteq> NUL" NUL "joined NUL (v # ws) @ NUL # r"] cli_word_chars
    by (auto simp: str_at_def)
  moreover have "map (str_at m) (places (length (pre @ w @ [NUL])) (v # ws)) = map Some (v # ws)"
    by (rule 3(1)) (use 3(2,3) in auto)
  ultimately show ?case by simp
qed simp

lemma command_words:
  assumes "list_all cli_word ws" and "ws \<noteq> []" and "length ws \<le> MAX_PARAMS"
  shows "\<exists>m' m'' ps. read_line m (command_text ws) = Some m' \<and> split_line m' [] = Some (m'', ps) \<and> length ps = length ws \<and>
    map (str_at m'') ps = map Some ws"
proof -
  let ?t = "joined (CHR '' '') ws" and ?r = "NUL # drop (Suc (Suc (length (joined (CHR '' '') ws)))) m"
  have "str_at (command_text ws @ ?r) 0 = Some (command_text ws)"
    using takeWhile_word [of "command_text ws" "\<lambda>c. c \<noteq> NUL" NUL] joined_chars [OF assms(1)]
    by (auto simp: str_at_def command_text_def)
  then have r: "read_line m (command_text ws) = Some (?t @ NUL # ?r)"
    by (simp add: read_line_def command_text_def list_update_append)
  have s: "split_line (?t @ NUL # ?r) [] = Some (joined NUL ws @ NUL # ?r, places 0 ws)"
  proof -
    obtain w vs where ws: "ws = w # vs" using assms(2) by (cases ws) auto
    then have w: "cli_word w" "list_all cli_word vs" using assms(1) by simp_all
    show ?thesis
    proof (cases vs)
      case Nil
      have "strtok first_sep (w @ NUL # ?r) 0 = Some (0, w @ NUL # ?r, length w)"
        using strtok_word(2) [of w first_sep "[]" ?r] w next_seps by simp
      moreover have "strtok_rest (w @ NUL # ?r) (length w) [0] = Some (w @ NUL # ?r, [0])"
        using strtok_rest_words [of "[]" "[0]" w ?r] by (simp add: MAX_PARAMS_def)
      ultimately show ?thesis using Nil by (simp add: split_line_def ws MAX_PARAMS_def)
    next
      case (Cons v us)
      have "strtok first_sep (w @ CHR '' '' # joined (CHR '' '') vs @ NUL # ?r) 0 =
          Some (0, w @ NUL # joined (CHR '' '') vs @ NUL # ?r, Suc (length w))"
        using strtok_word(1) [of w first_sep "CHR '' ''" "[]" "joined (CHR '' '') vs @ NUL # ?r"] w next_seps by simp
      moreover have "strtok_rest (w @ NUL # joined (CHR '' '') vs @ NUL # ?r) (Suc (length w)) [0] =
          Some (w @ NUL # joined NUL vs @ NUL # ?r, 0 # places (Suc (length w)) vs)"
        using strtok_rest_words [OF w(2), of "[0]" "w @ [NUL]" ?r] assms(3) by (simp add: ws)
      ultimately show ?thesis using Cons by (simp add: split_line_def ws MAX_PARAMS_def)
    qed
  qed
  show ?thesis using r s str_at_places [OF assms(1) refl, of "[]"] by (auto simp: length_places)
qed

section \<open>A registration from its words\<close>

text \<open>The loop on the words themselves.\<close>

fun register_list ::
  "conf_env \<Rightarrow> (af \<times> ref) option \<Rightarrow> string list \<Rightarrow> register_line \<Rightarrow> cparser \<Rightarrow> (register_line \<times> cparser) option" where
  "register_list env rn (name # v # ws) rl st =
     (if same_nocase name ''-rloc'' then do {
        (rl, st) \<leftarrow> flush_entry rn rl st;
        register_list env rn (v # ws) (rl\<lparr>rl_entry := Some zero_entry\<rparr>) st }
      else do {
        rl \<leftarrow> register_word env name v rl;
        register_list env rn ws (rl\<lparr>rl_prev := True\<rparr>) st })"
| "register_list env rn ws rl st = Some (rl, st)"

lemma param_words: "map (str_at m) ps = map Some ws \<Longrightarrow> j < length ws \<Longrightarrow> param m ps j = Some (ws ! j)"
  by (metis length_map nth_map param_def)

lemma register_loop_list:
  assumes "map (str_at m) ps = map Some ws"
  shows "register_loop env m ps rn j rl st = register_list env rn (drop j ws) rl st"
proof (induction "length ws - j" arbitrary: j rl st rule: less_induct)
  case less
  have l: "length ps = length ws" using assms map_eq_imp_length_eq by blast
  show ?case
  proof (cases "Suc j < length ws")
    case True
    then have d: "drop (Suc j) ws = ws ! Suc j # drop (Suc (Suc j)) ws"
        "drop j ws = ws ! j # ws ! Suc j # drop (Suc (Suc j)) ws"
      by (simp_all add: Cons_nth_drop_Suc)
    have p: "param m ps j = Some (ws ! j)" "param m ps (Suc j) = Some (ws ! Suc j)"
      using True param_words [OF assms] by simp_all
    have IH: "register_loop env m ps rn (Suc j) = register_list env rn (ws ! Suc j # drop (Suc (Suc j)) ws)"
      "register_loop env m ps rn (Suc (Suc j)) = register_list env rn (drop (Suc (Suc j)) ws)"
      using less [of "Suc j"] less [of "Suc (Suc j)"] True d(1) by (simp_all add: fun_eq_iff)
    show ?thesis
      unfolding d(2) register_list.simps
      by (subst register_loop.simps) (simp add: l True p IH)
  next
    case False
    then have "length (drop j ws) \<le> 1" by simp
    then have "register_list env rn (drop j ws) rl st = Some (rl, st)"
      by (cases "(env, rn, drop j ws, rl, st)" rule: register_list.cases) (auto dest: arg_cong [of "drop j ws" _ length])
    with False l show ?thesis by (subst register_loop.simps) simp
  qed
qed

fun loc_words :: "conf_loc \<Rightarrow> string list" where
  "loc_words (six, ad, pr, w) =
     [''-rloc'', if six then ''address6'' else ''address'', ad, ''priority'', pr, ''weight'', w, ''reachable'', ''true'']"

definition register_words :: "string \<Rightarrow> conf_loc list \<Rightarrow> string list" where
  "register_words v locs = ''map-register'' # v # concat (map loc_words locs)"

lemma cli_names:
  "lower ''-rloc''" "lower ''address6''" "lower ''map-register''" "lower ''map-request''" "lower ''quit''" "lower ''map-database''"
  "lower ''reload''"
  by code_simp+

text \<open>One locator, which is inserted when the next one begins.\<close>

lemma set_address_entry:
  assumes "loc_entry env (six, ad, pr, w) = Some e"
  shows "(set_address env (if six then FAM_INET6 else FAM_INET) ad zero_entry)
    \<lparr>me_priority := of_int (atoi pr), me_weight := of_int (atoi w), me_r := 1\<rparr> = e"
proof -
  let ?f = "if six then FAM_INET6 else FAM_INET"
  have "text_address env ?f ad (zero_sockunion\<lparr>su_family := ?f\<rparr>) = text_address env ?f ad zero_sockunion"
    by (cases six) (simp_all add: text_address_def)
  with assms show ?thesis by (auto simp: set_address_def zero_entry_def)
qed

lemma loc_words_run:
  assumes "loc_entry env l = Some e" and "flush_entry rn rl st = Some (rl1, st1)"
  shows "register_list env rn (loc_words l @ ws) rl st =
    register_list env rn ws (rl1\<lparr>rl_prev := True, rl_entry := Some e, rl_count := Suc (rl_count rl1)\<rparr>) st1"
proof -
  obtain six ad pr w where l: "l = (six, ad, pr, w)" by (cases l)
  note e = set_address_entry [OF assms(1) [unfolded l]]
  show ?thesis
    by (cases six; cases rl1; subst e [symmetric]) (simp_all add: l assms(2) register_word_def words cli_names Let_def)
qed

lemma flush_inserts:
  assumes "loaded st0 st f a n es" and "rl_prev rl" and "0 < rl_count rl" and "rl_entry rl = Some e"
  shows "\<exists>st'. flush_entry (Some (f, a)) rl st = Some (rl\<lparr>rl_prev := False\<rparr>, st') \<and>
    loaded st0 st' f a n (insert_ordered insert_ip_ordered e es)"
proof -
  obtain T where T: "st = st0\<lparr>pr_db := pr_db st, pr_name := pr_name st, pr_fam := pr_fam st\<rparr>"
      "db_table_of f (pr_db st) = Some T" "heap T a = Some (n\<lparr>info := Some es\<rparr>)"
    using assms(1) by (auto simp: loaded_def)
  let ?st = "st\<lparr>pr_db := set_table f (put a (n\<lparr>info := Some (insert_ordered insert_ip_ordered e es)\<rparr>) T) (pr_db st)\<rparr>"
  have "flush_entry (Some (f, a)) rl st = Some (rl\<lparr>rl_prev := False\<rparr>, ?st)"
    using assms(2-4) T(2,3) by (simp add: flush_entry_def on_node_def generic_mapping_add_rloc_def)
  moreover have "loaded st0 ?st f a n (insert_ordered insert_ip_ordered e es)"
    unfolding loaded_def using db_table_set [OF T(2)] by (subst T(1)) (simp add: put_def)
  ultimately show ?thesis by blast
qed

lemma locs_words_run:
  assumes "flush_entry (Some (f, a)) rl st = Some (rl1, st1)" and "loaded st0 st1 f a n es"
    and "map (loc_entry env) locs = map Some xs"
  shows "\<exists>rl2 st2 rl3 st3. register_list env (Some (f, a)) (concat (map loc_words locs)) rl st = Some (rl2, st2) \<and>
    flush_entry (Some (f, a)) rl2 st2 = Some (rl3, st3) \<and>
    loaded st0 st3 f a n (foldl (\<lambda>es e. insert_ordered insert_ip_ordered e es) es xs)"
  using assms
proof (induction locs arbitrary: rl st rl1 st1 es xs)
  case (Cons l locs)
  then obtain x ys where x: "xs = x # ys" "loc_entry env l = Some x" "map (loc_entry env) locs = map Some ys" by (cases xs) auto
  let ?rl = "rl1\<lparr>rl_prev := True, rl_entry := Some x, rl_count := Suc (rl_count rl1)\<rparr>"
  from flush_inserts [OF Cons.prems(2), of ?rl x] obtain st' where
    "flush_entry (Some (f, a)) ?rl st1 = Some (?rl\<lparr>rl_prev := False\<rparr>, st')"
    "loaded st0 st' f a n (insert_ordered insert_ip_ordered x es)" by auto
  from Cons.IH [OF this x(3)] loc_words_run [OF x(2) Cons.prems(1)] show ?case by (simp add: x(1))
qed auto

text \<open>The whole command.\<close>

lemma fgets_command:
  assumes "list_all cli_word ws" and "length (command_text ws) < LINE_SIZE"
  shows "fgets LINE_SIZE (command_text ws) = Some (command_text ws, [])"
proof -
  have "takeWhile (\<lambda>c. c \<noteq> CHR 0x0A) (command_text ws) = joined (CHR '' '') ws"
    unfolding command_text_def by (rule takeWhile_word) (use joined_chars [OF assms(1)] in auto)
  with assms(2) show ?thesis by (simp add: fgets_def command_text_def Let_def)
qed


text \<open>A command line at its start, with the names of a small host.\<close>

definition cli_env :: main_env where
  "cli_env = \<lparr>cm_conf = conf_lib, cm_socket = (\<lambda>_. False), cm_addrinfo = (\<lambda>_ _. None), cm_ifs = None, cm_readable = (\<lambda>_. False),
     cm_xml = (\<lambda>_. None)\<rparr>"

definition cli_start :: cli where
  "cli_start = \<lparr>cl_line = replicate LINE_SIZE NUL, cl_params = [], cl_requests = (\<lambda>_. \<lparr>cr_eid = None, cr_nonce = 0\<rparr>),
     cl_main = \<lparr>mc_debug = 0, mc_fncs = 0, mc_te = False, mc_rand = False, mc_pool = 0, mc_min = 0, mc_max = 0, mc_linger = 0,
       mc_src4 = None, mc_src6 = None, mc_files = Map.empty, mc_petr = None\<rparr>, cl_conf = conf_state\<rparr>"


section \<open>Requests\<close>

lemma cli_process_request_crashes: "cli_process_request env rid q db = None"
  by (auto simp: cli_process_request_def cli_request_is_ddt_def split: Option.bind_split)

lemma cli_command_request:
  assumes "cl_params c \<noteq> []" and "param (cl_line c) (cl_params c) 0 = Some w" and "same_nocase ''map-request'' w"
  shows "cli_command env config c = (if length (cl_params c) = 3 then None else Some (Inr ([], c)))"
  using assms by (auto simp: cli_command_def cli_process_request_crashes cli_request_add_def split: Option.bind_split)

lemma map_sum_Inr: "map_sum f g z = Inr y \<longleftrightarrow> (\<exists>x. z = Inr x \<and> g x = y)"
  by (cases z) auto

lemma cli_command_keeps:
  assumes "cli_command env config c = Some (Inr (out, c'))"
  shows "cl_line c' = cl_line c \<and> cl_params c' = cl_params c"
  using assms
  by (auto simp: cli_command_def cli_process_request_crashes bind_eq_Some_conv cli_request_add_def map_sum_Inr split: if_splits)

text \<open>C40: a \<open>map-request\<close> is never answered: when the words read since the start are three, the process crashes, and
  otherwise the command changes nothing but the buffer and the array of words.\<close>

theorem cli_map_request_never_answers:
  assumes "cli_line env config l c = Some (Inr (out, c'))" and "param (cl_line c') (cl_params c') 0 = Some w"
    and "same_nocase ''map-request'' w" and "cl_params c' \<noteq> []"
  shows "out = [] \<and> length (cl_params c') \<noteq> 3 \<and> c' = c\<lparr>cl_line := cl_line c', cl_params := cl_params c'\<rparr>"
proof -
  obtain m ps where m: "cli_command env config (c\<lparr>cl_line := m, cl_params := ps\<rparr>) = Some (Inr (out, c'))"
    using assms(1) by (auto simp: cli_line_def bind_eq_Some_conv)
  let ?c = "c\<lparr>cl_line := m, cl_params := ps\<rparr>"
  from cli_command_keeps [OF m] have k: "cl_line c' = m" "cl_params c' = ps" by simp_all
  then have "cli_command env config ?c = (if length ps = 3 then None else Some (Inr ([], ?c)))"
    using assms(2-4) cli_command_request [of ?c w] by simp
  with m k show ?thesis by (auto split: if_splits)
qed

theorem cli_map_request_never_answers_witness:
  "\<exists>c'. cli_line cli_env None (command_text [''map-request'', ''10.1.2.1'']) cli_start = Some (Inr ([], c')) \<and> cl_conf c' = conf_state"
proof -
  have "list_all cli_word [''map-request'', ''10.1.2.1'']" by code_simp
  from command_words [OF this, of "cl_line cli_start"] obtain m' m ps where
    m: "read_line (cl_line cli_start) (command_text [''map-request'', ''10.1.2.1'']) = Some m'" "split_line m' [] = Some (m, ps)"
      "length ps = 2" "map (str_at m) ps = map Some [''map-request'', ''10.1.2.1'']" by (auto simp: MAX_PARAMS_def)
  let ?c = "cli_start\<lparr>cl_line := m, cl_params := ps\<rparr>"
  have p: "param m ps 0 = Some ''map-request''" "ps \<noteq> []" using param_words [OF m(4), of 0] m(3) by auto
  have s: "same_nocase ''map-request'' ''map-request''" by (simp add: same_nocase_def)
  have "cli_line cli_env None (command_text [''map-request'', ''10.1.2.1'']) cli_start = Some (Inr ([], ?c))"
    using m(1-3) p s cli_command_request [of ?c] by (simp add: cli_line_def cli_start_def)
  moreover from cli_map_request_never_answers [OF this, of "''map-request''"] p s
  have "cl_conf ?c = conf_state" by (simp add: cli_start_def)
  ultimately show ?thesis by blast
qed

end
