(* ===== verification/Spec2Isabelle.thy ===== *)
theory Spec2Isabelle
  imports Hv_System Hv_Map_Demux Cp_Get Cp_Hmac Cp_List Cp_Thr_Pool Cp_Db Cp_Record_Trip Cp_Failures Cp_Xtr_Trip
    Cp_Opl_Hv Cp_Opl_Miss Cp_Conf_Props Cp_Cli_Props
begin

text \<open>
  \<^bold>\<open>HyLISP: a model of the hypervisor and of the control plane.\<close>

  HyLISP runs several LISP (RFC 6830) control planes on one host.  The program has two processes,
  both written in C, and this library models each of them in theories that follow its files.

  \<^bold>\<open>The hypervisor (src/hylisp-hv/src).\<close>  Control planes register with the hypervisor over a
  local socket; the hypervisor hands every LISP control datagram of the network and every mapping
  message of the kernel to the control plane that the destination identifier (EID) is assigned to,
  or to all of them.  Three threads share three tables under read-write locks.
  \<^item> Hv_Common (common/common.h, common.c): EIDs, datagrams, reasons, and the two ways in which a
    call does not return: it ends the process, or it leaves the memory it may use.
  \<^item> Hv_Connected, Hv_Assignments, Hv_Sorting (controlplanes/): the table of control planes, the
    table of assignments, both growable arrays (Growable), and the longest and the exact match over
    them.  \<open>sort_eid\<close> is proved to select the longest covering assignment (Lpm).
  \<^item> Hv_Register (controlplanes/register.c): registration and deregistration, one turn of the
    registering server.
  \<^item> Hv_Parse_Datagram, Hv_Inject, Hv_Control_Demux (controlpackets/): the EID of a control
    datagram, the raw packet with its checksums (Checksum), and the delivery.
  \<^item> Hv_Parse_Message, Hv_Mux, Hv_Map_Demux (mapmessages/): mapping messages from the control planes
    to the kernel, with the assignments they cause, and from the kernel to the control planes.
  \<^item> Hv_State, Hv_System (main.c): the shared state and the three threads as interleaved steps;
    the invariant of the reachable states carries the delivery theorem to every one of them.

  \<^bold>\<open>The control plane (src/hylisp-cp).\<close>
  \<^item> Cp_Prefix, Cp_Table (radix/): prefixes, and the radix tree as a heap of nodes that are linked
    by addresses, as the pointers of the code are.  Cp_Trie, Cp_Insert and Cp_Get relate the heap to
    a tree and prove lookup and insertion against it.
  \<^item> Sha_Spec, Cp_Sha, Cp_Sha_Stream, Cp_Hmac (hmac/): SHA-1 and HMAC with the state the code
    keeps, proved equal to the functions of FIPS 180 and RFC 2104.
  \<^item> Cp_List (list/), Cp_Thr_Pool (thr_pool/): the doubly linked list on a heap of cells, and the
    thread pool as steps of its workers, each between two waits on the pool's mutex.
  \<^item> Cp_Db (db.c, db.h): the two tables of the mapping database, roles of nodes and sites.
  \<^item> Cp_Wire, Cp_Request, Cp_Message (udp.c, udp.h, db.h): the bit fields of the messages, the
    parsing of Map-Requests and the builders of Map-Request, Map-Reply, Map-Register, Map-Notify and
    Map-Referral.  Cp_Roundtrip proves that a request built by one is read back by the other.
  \<^item> Cp_Register, Cp_Mapping (udp.c, server.c): the Map-Register at the map server: the validation
    of its records, its authentication, the update of the database and the Map-Notify.  Cp_Auth and
    Cp_Record_Trip hold the theorems: no message without the right authentication data changes the
    database (and which messages get past the comparison), and the locators a sender writes are the
    locators the server stores.
  \<^item> Cp_Server, Cp_Lookup (server.c): a Map-Request at a map server, a DDT node, a map resolver or an xTR:
    the answers with their records, the negative prefixes, the forwarding to an xTR.  The node that a request
    is answered from is proved to be the longest match that has one of the roles that can answer.
  \<^item> Cp_Resolver, Cp_Referral (udp.c): the table of pending lookups of a map resolver, its sockets, the
    Map-Referrals that drive a lookup, retransmission and the event loop.  Cp_Resolver_Inv and
    Cp_Resolver_Props hold the invariant of the table, that a lookup ends, and the calls that leave it.
  \<^item> Cp_Process (udp.c): the dispatch of a datagram to the handler of its type.  Cp_Delivery follows a request
    through all of it to the xTR; Cp_Failures has the datagrams that end the process or leak.
  \<^item> Cp_Xtr (udp.c): one round of the registration thread of an xTR.  Cp_Xtr_Trip takes its message to the map
    server and a request to the node it has written there: what an xTR registers is what is found.
  \<^item> Map_Msg (core.patch of src/hylisp-dp), Cp_Opl, Cp_Opl_Lookup (plugin_openlisp.c): the front end of the OpenLISP data
    plane.  Cp_Opl has the messages that add, delete and read mappings of the kernel, Cp_Opl_Lookup the lookups
    that a miss of the kernel starts, the Map-Requests they send, the Map-Replies that end them, and the event
    loop.  Cp_Opl_Trip proves that a mapping that was added is read back, and what the eight bits of the length
    cut off; Cp_Opl_Miss follows a miss to the mapping in the cache; Cp_Opl_Props has the table of
    lookups; Cp_Opl_Hv hands the messages to the multiplexer of the hypervisor, which assigns the EID
    to the control plane that sent them.
  \<^bold>\<open>How the program corresponds to the model.\<close>  A definition has the name of its C function where
  HOL permits it; a leading underscore is dropped.  Structures are records, fixed-width integers are
  words, buffers are lists of bytes, and a read or write outside of a buffer is the value \<open>None\<close>.
  In the control plane \<open>None\<close> also stands for every other undefined step: a null pointer, a failing
  assertion, an uninitialised value that decides a branch.  Memory allocation is taken to succeed in
  the control plane; in the hypervisor \<open>check_allocation\<close> is a branch.  The byte order is that of a
  little-endian machine, and bit fields are laid out as GCC does it there.  Sockets, the raw
  injection of packets, \<open>inet_aton\<close>, \<open>inet_pton\<close> and the time are arguments.  Every structure that
  threads share is changed in the steps that the locks of the code delimit.

  \<^bold>\<open>What the lemmas show.\<close>  Each component has the invariant of its state (\<open>hv_inv\<close>, \<open>dyn_ok\<close>,
  \<open>table_at\<close>, \<open>list_at\<close>, \<open>sha_ok\<close>, \<open>key_ok\<close>, \<open>tp_inv\<close>) and the proof that operations keep it;
  the functional behaviour of the operations, by refinement to lists, tries or specifications of
  RFCs; round trips between builders and parsers; bounds of every parser; and, where the code does not
  do what it means to, theorems that state what it does instead.

  \<^bold>\<open>Bounds.\<close>  No definition counts fuel.  The walks over heaps of nodes and cells and the loops of SHA-1
  are \<open>partial_function (option)\<close>, so that not returning is a value, and the theorems about them state
  the result they return.  Loops over buffers decrease the distance to the end of the buffer or the
  counter of the message.

  \<^bold>\<open>Not modelled.\<close>  The XML reader of the configuration (parser.c, callbacks of expat), the command line (cli.c),
  the printing of the database (db.c), the socket of the hypervisor plugin (plugin_hv/), the threads that read the
  sockets, daemonising and logging; of the data plane, a patch to the FreeBSD kernel, only the constants of its
  messages.
\<close>

end
